(* ===== verification/Prelude.thy ===== *)
theory Prelude
  imports Main "HOL-Library.Word" "HOL-Library.Monad_Syntax"
begin

section \<open>Shared vocabulary of the development\<close>

text \<open>
  What every component theory uses: the machine integer types of the sources, the debug
  check \<open>DCHECK\<close>, the two \<open>std::vector\<close> edits the allocators use, and generic lemmas on
  lists, options and words.

  A C++ \<open>unsigned int\<close> or \<open>int32\<close> is a \<open>u32\<close> (read unsigned by \<^const>\<open>unat\<close> and as two's
  complement by \<^const>\<open>sint\<close>), a \<open>size_t\<close> is a \<open>u64\<close>.
  A value of an option type is used for operations that can abort: \<^const>\<open>None\<close> means that a
  \<open>DCHECK\<close>, a \<open>CHECK\<close>, \<open>NOTREACHED()\<close> or \<open>LOG(FATAL)\<close> fired, or that a loop that has no
  termination argument of its own does not end.
\<close>

unbundle bit_operations_syntax

type_synonym u32 = "32 word"
type_synonym u64 = "64 word"
type_synonym byte = "8 word"

named_theorems model_defs \<open>definitions of the model that proofs about one component unfold\<close>
named_theorems inv_defs \<open>definitions of well-formedness invariants\<close>

subsection \<open>Debug checks\<close>

text \<open>\<open>DCHECK(condition)\<close> of \<^verbatim>\<open>src/base/logging.h\<close> in a build with the checks on.\<close>

definition dcheck :: "bool \<Rightarrow> unit option" where
  "dcheck b = (if b then Some () else None)"

lemma dcheck_simps [simp]:
  "dcheck True = Some ()" "dcheck False = None"
  "dcheck b = Some u \<longleftrightarrow> b" "dcheck b = None \<longleftrightarrow> \<not> b"
  by (simp_all add: dcheck_def)

lemma dcheck_bind [simp]: "dcheck b \<bind> f = (if b then f () else None)"
  by (simp add: dcheck_def)

lemma bind_SomeE:
  assumes "m \<bind> f = Some y"
  obtains x where "m = Some x" "f x = Some y"
  using assms by (auto simp: bind_eq_Some_conv)

subsection \<open>Vector edits\<close>

text \<open>\<open>v.erase(v.begin() + i)\<close> and \<open>v.insert(v.begin() + i, x)\<close>.\<close>

definition erase_at :: "nat \<Rightarrow> 'a list \<Rightarrow> 'a list" where
  "erase_at i xs = take i xs @ drop (Suc i) xs"

definition insert_at :: "nat \<Rightarrow> 'a \<Rightarrow> 'a list \<Rightarrow> 'a list" where
  "insert_at i x xs = take i xs @ x # drop i xs"

lemma length_erase_at [simp]: "i < length xs \<Longrightarrow> length (erase_at i xs) = length xs - 1"
  by (simp add: erase_at_def)

lemma length_insert_at [simp]: "i \<le> length xs \<Longrightarrow> length (insert_at i x xs) = Suc (length xs)"
  by (simp add: insert_at_def)

lemma erase_at_append [simp]: "erase_at (length xs) (xs @ y # ys) = xs @ ys"
  by (simp add: erase_at_def)

lemma erase_at_append_Suc [simp]: "erase_at (Suc (length xs)) (xs @ x # y # ys) = xs @ x # ys"
  by (simp add: erase_at_def)

lemma insert_at_append_Suc [simp]:
  "insert_at (Suc (length xs)) z (xs @ x # ys) = xs @ x # z # ys"
  by (simp add: insert_at_def)

lemma split_at_index:
  assumes "i < length xs"
  obtains as b cs where "xs = as @ b # cs" "length as = i" "b = xs ! i"
  using assms id_take_nth_drop by force

lemma nth_append_Suc [simp]: "(xs @ x # y # ys) ! Suc (length xs) = y"
  by (simp add: nth_append)

lemma list_update_append_Suc [simp]:
  "(xs @ x # y # ys)[Suc (length xs) := z] = xs @ x # z # ys"
  by (simp add: list_update_append)

subsection \<open>The first index that satisfies a predicate\<close>

text \<open>The loop \<open>for (i = 0; i < v.size(); ++i) if (p(v[i])) return i;\<close>.\<close>

fun find_index :: "('a \<Rightarrow> bool) \<Rightarrow> 'a list \<Rightarrow> nat option" where
  "find_index p [] = None"
| "find_index p (x # xs) = (if p x then Some 0 else map_option Suc (find_index p xs))"

lemma find_index_Some:
  "find_index p xs = Some i \<Longrightarrow> i < length xs \<and> p (xs ! i) \<and> (\<forall>j < i. \<not> p (xs ! j))"
proof (induction xs arbitrary: i)
  case (Cons x xs)
  then show ?case
    by (auto split: if_splits simp: less_Suc_eq_0_disj nth_Cons')
qed simp

lemma find_index_None: "find_index p xs = None \<longleftrightarrow> (\<forall>x \<in> set xs. \<not> p x)"
  by (induction xs) auto

subsection \<open>Words\<close>

lemma unat_add_less:
  fixes a b :: "'a::len word"
  assumes "unat a + unat b < 2 ^ LENGTH('a)"
  shows "unat (a + b) = unat a + unat b"
  using assms by (simp add: unat_word_ariths)

lemma unat_sub_le:
  fixes a b :: "'a::len word"
  assumes "unat b \<le> unat a"
  shows "unat (a - b) = unat a - unat b"
  using assms by (simp add: unat_sub word_le_nat_alt)

lemma unat_u32_less [simp]: "unat (x :: u32) < 4294967296"
  using unsigned_less [of x] by simp

lemma and_not_mask_add:
  fixes x :: "'a::len word"
  shows "(x AND NOT (mask n)) + take_bit n x = x"
proof -
  let ?a = "x AND NOT (mask n)" and ?b = "x AND mask n"
  have "?a AND ?b = 0" by (rule bit_word_eqI) (simp add: bit_simps)
  then have "?a + ?b = ?a OR ?b" by (rule disjunctive_add_eq_or)
  also have "\<dots> = x" by (rule bit_word_eqI) (auto simp: bit_simps)
  finally show ?thesis by (simp add: take_bit_eq_mask)
qed

lemma unat_and_not_mask:
  fixes x :: "'a::len word"
  shows "unat (x AND NOT (mask n)) = unat x div 2 ^ n * 2 ^ n"
proof -
  have t: "unat (take_bit n x) = unat x mod 2 ^ n"
    using unsigned_take_bit_eq [of n x] take_bit_eq_mod [of n "unat x"] by (rule trans)
  have "x AND NOT (mask n) = x - take_bit n x"
    using and_not_mask_add [of x n] by (simp add: algebra_simps)
  then have "unat (x AND NOT (mask n)) = unat x - unat x mod 2 ^ n"
    by (simp only: t unat_sub_le [of "take_bit n x" x, unfolded t, OF mod_less_eq_dividend])
  then show ?thesis by (simp add: minus_mod_eq_div_mult)
qed

lemma unat_ucast_u64 [simp]: "unat (ucast (x :: u32) :: u64) = unat x"
proof -
  have "unat x < 2 ^ 64" using unat_u32_less [of x] by (rule less_trans) simp
  then show ?thesis by (simp add: unsigned_ucast_eq take_bit_nat_eq_self)
qed

lemma ucast_u64_u32 [simp]: "(ucast (ucast (x :: u32) :: u64) :: u32) = x"
proof -
  have "unat (ucast (ucast x :: u64) :: u32) = take_bit LENGTH(32) (unat (ucast x :: u64))"
    by (rule unsigned_ucast_eq)
  also have "\<dots> = unat x" using unat_u32_less [of x] by (simp add: take_bit_nat_eq_self)
  finally show ?thesis by (simp add: word_unat_eq_iff)
qed

text \<open>A word below \<open>2 ^ 31\<close> reads the same signed and unsigned.\<close>

lemma sint_nonneg_u32:
  assumes "unat (x :: u32) < 2 ^ 31"
  shows "sint x = int (unat x)"
proof -
  have "uint x < 2 ^ 31" using assms by (metis of_nat_less_iff of_nat_numeral of_nat_power of_nat_unat)
  moreover have "- (2 ^ 31) \<le> uint x" by (rule order_trans [of _ 0]) simp_all
  ultimately have "signed_take_bit 31 (uint x) = uint x" by (intro signed_take_bit_int_eq_self)
  then show ?thesis by (simp add: sint_uint)
qed

lemma sint_nonneg_u32_iff: "0 \<le> sint (x :: u32) \<longleftrightarrow> unat x < 2 ^ 31"
proof
  assume nn: "0 \<le> sint x"
  have lt: "sint x < 2 ^ 31" using sint_lt [of x] by simp
  have "uint (word_of_int (sint x) :: u32) = take_bit LENGTH(32) (sint x)" by (rule uint_word_of_int_eq)
  also have "\<dots> = sint x" using nn lt by (intro take_bit_int_eq_self) simp_all
  finally have "int (unat x) = sint x" by simp
  with lt have "int (unat x) < int (2 ^ 31)" by simp
  then show "unat x < 2 ^ 31" by (simp only: of_nat_less_iff)
qed (simp add: sint_nonneg_u32)

text \<open>Signed and unsigned comparison agree on non-negative values.\<close>

lemma sint_less_u32:
  assumes "unat (x :: u32) < 2 ^ 31" "unat (y :: u32) < 2 ^ 31"
  shows "sint x < sint y \<longleftrightarrow> unat x < unat y" "sint x \<le> sint y \<longleftrightarrow> unat x \<le> unat y"
  using sint_nonneg_u32 [OF assms(1)] sint_nonneg_u32 [OF assms(2)] by linarith+

end
