(* ===== verification/Shared_Memory.thy ===== *)
theory Shared_Memory
  imports Prelude
begin

section \<open>Shared memory\<close>

text \<open>
  The memory that the client and the service both map. Every \<open>base::SharedMemory\<close> object
  is a region, a list of bytes; a pointer is a region and a byte offset in it, and \<open>NULL\<close> is
  \<^const>\<open>None\<close>. Regions are mapped at aligned addresses, so that the alignment of a pointer is the
  alignment of its offset. A load or store that leaves its region is undefined behaviour of
  the source and \<^const>\<open>None\<close> here: that an operation does not give \<^const>\<open>None\<close> includes that it
  stays inside the memory it was given.
\<close>

type_synonym Ptr = "nat \<times> nat"

record Memory =
  shm :: "byte list list"

subsection \<open>Bytes\<close>

definition mem_load :: "byte list list \<Rightarrow> Ptr \<Rightarrow> nat \<Rightarrow> byte list option" where
  "mem_load m p n =
     (if fst p < length m \<and> snd p + n \<le> length (m ! fst p)
      then Some (take n (drop (snd p) (m ! fst p))) else None)"

definition mem_store :: "byte list list \<Rightarrow> Ptr \<Rightarrow> byte list \<Rightarrow> byte list list option" where
  "mem_store m p bs =
     (if fst p < length m \<and> snd p + length bs \<le> length (m ! fst p)
      then Some (m[fst p := take (snd p) (m ! fst p) @ bs @ drop (snd p + length bs) (m ! fst p)])
      else None)"

definition ptr_add :: "Ptr \<Rightarrow> nat \<Rightarrow> Ptr" where
  "ptr_add p n = (fst p, snd p + n)"

lemma ptr_add_simps [simp]: "fst (ptr_add p n) = fst p" "snd (ptr_add p n) = snd p + n"
  by (simp_all add: ptr_add_def)

lemma mem_load_length: "mem_load m p n = Some bs \<Longrightarrow> length bs = n"
  by (auto simp: mem_load_def split: if_splits)

lemma mem_store_shape:
  assumes "mem_store m p bs = Some m'"
  shows "length m' = length m" "length (m' ! r) = length (m ! r)" "r \<noteq> fst p \<Longrightarrow> m' ! r = m ! r"
  using assms by (cases "r = fst p"; auto simp: mem_store_def split: if_splits)+

lemma mem_load_store_same:
  "mem_store m p bs = Some m' \<Longrightarrow> n = length bs \<Longrightarrow> mem_load m' p n = Some bs"
  by (auto simp: mem_load_def mem_store_def split: if_splits)

lemma mem_load_store_other:
  assumes "mem_store m p bs = Some m'"
    and "fst q \<noteq> fst p \<or> snd q + n \<le> snd p \<or> snd p + length bs \<le> snd q"
  shows "mem_load m' q n = mem_load m q n"
proof (cases "fst q = fst p")
  case True
  let ?b = "m ! fst p" and ?k = "length bs"
  from assms(1) have ok: "fst p < length m" "snd p + ?k \<le> length ?b"
    and m': "m' = m[fst p := take (snd p) ?b @ bs @ drop (snd p + ?k) ?b]"
    by (auto simp: mem_store_def split: if_splits)
  have "take n (drop (snd q) (take (snd p) ?b @ bs @ drop (snd p + ?k) ?b)) = take n (drop (snd q) ?b)"
    if "snd q + n \<le> length ?b"
    using assms(2) True ok that by (intro nth_equalityI) (auto simp: nth_append)
  with True ok show ?thesis by (auto simp: mem_load_def m')
next
  case False
  with mem_store_shape [OF assms(1)] show ?thesis by (simp add: mem_load_def)
qed

subsection \<open>Entries\<close>

text \<open>A 32-bit entry is stored little-endian.\<close>

definition le_bytes :: "u32 \<Rightarrow> byte list" where
  "le_bytes w = [ucast w, ucast (drop_bit 8 w), ucast (drop_bit 16 w), ucast (drop_bit 24 w)]"

definition le_word :: "byte list \<Rightarrow> u32" where
  "le_word bs = ucast (bs ! 0) OR push_bit 8 (ucast (bs ! 1)) OR push_bit 16 (ucast (bs ! 2)) OR
     push_bit 24 (ucast (bs ! 3))"

definition load32 :: "byte list list \<Rightarrow> Ptr \<Rightarrow> u32 option" where
  "load32 m p = map_option le_word (mem_load m p 4)"

definition store32 :: "byte list list \<Rightarrow> Ptr \<Rightarrow> u32 \<Rightarrow> byte list list option" where
  "store32 m p w = mem_store m p (le_bytes w)"

lemma length_le_bytes [simp]: "length (le_bytes w) = 4"
  by (simp add: le_bytes_def)

lemma le_word_bytes [simp]: "le_word (le_bytes w) = w"
proof (rule bit_word_eqI)
  fix n assume "n < LENGTH(32)"
  then consider "n < 8" | "8 \<le> n" "n < 16" | "16 \<le> n" "n < 24" | "24 \<le> n" "n < 32" by force
  then show "bit (le_word (le_bytes w)) n \<longleftrightarrow> bit w n"
    by cases (auto simp: le_word_def le_bytes_def bit_simps)
qed

lemma load32_store32 [simp]: "store32 m p w = Some m' \<Longrightarrow> load32 m' p = Some w"
  by (simp add: store32_def load32_def mem_load_store_same)

lemma load32_store_other:
  assumes "mem_store m p bs = Some m'"
    and "fst q \<noteq> fst p \<or> snd q + 4 \<le> snd p \<or> snd p + length bs \<le> snd q"
  shows "load32 m' q = load32 m q"
  using mem_load_store_other [OF assms] by (simp add: load32_def)

text \<open>Storing a structure of several entries.\<close>

fun store_entries :: "byte list list \<Rightarrow> Ptr \<Rightarrow> u32 list \<Rightarrow> byte list list option" where
  "store_entries m p [] = Some m"
| "store_entries m p (e # es) = do { m \<leftarrow> store32 m p e; store_entries m (ptr_add p 4) es }"

lemma store_entries_shape:
  assumes "store_entries m p es = Some m'"
  shows "length m' = length m" "length (m' ! r) = length (m ! r)" "r \<noteq> fst p \<Longrightarrow> m' ! r = m ! r"
proof -
  have "length m' = length m \<and> length (m' ! r) = length (m ! r) \<and> (r \<noteq> fst p \<longrightarrow> m' ! r = m ! r)"
    using assms
  proof (induction es arbitrary: m p)
    case (Cons e es)
    then obtain m1 where m1: "mem_store m p (le_bytes e) = Some m1" "store_entries m1 (ptr_add p 4) es = Some m'"
      by (auto simp: store32_def elim: bind_SomeE)
    from Cons.IH [OF m1(2)] mem_store_shape(1) [OF m1(1)] mem_store_shape(2,3) [OF m1(1), of r] show ?case by simp
  qed simp
  then show "length m' = length m" "length (m' ! r) = length (m ! r)" "r \<noteq> fst p \<Longrightarrow> m' ! r = m ! r"
    by auto
qed

lemma load32_store_entries_other:
  assumes "store_entries m p es = Some m'"
    and "fst q \<noteq> fst p \<or> snd q + 4 \<le> snd p \<or> snd p + 4 * length es \<le> snd q"
  shows "load32 m' q = load32 m q"
  using assms
proof (induction es arbitrary: m p)
  case (Cons e es)
  then obtain m1 where m1: "store32 m p e = Some m1" "store_entries m1 (ptr_add p 4) es = Some m'"
    by (auto elim: bind_SomeE)
  from Cons.IH [OF m1(2)] Cons.prems(2) have "load32 m' q = load32 m1 q" by auto
  also have "\<dots> = load32 m q"
    using load32_store_other [OF m1(1) [unfolded store32_def], of q] Cons.prems(2) by auto
  finally show ?case .
qed simp

lemma load32_store_entries:
  assumes "store_entries m p es = Some m'" "i < length es"
  shows "load32 m' (ptr_add p (4 * i)) = Some (es ! i)"
  using assms
proof (induction es arbitrary: m p i)
  case (Cons e es)
  then obtain m1 where m1: "store32 m p e = Some m1" "store_entries m1 (ptr_add p 4) es = Some m'"
    by (auto elim: bind_SomeE)
  show ?case
  proof (cases i)
    case 0
    with m1 load32_store_entries_other [OF m1(2), of p] show ?thesis by (auto simp: ptr_add_def)
  next
    case (Suc k)
    with Cons.IH [OF m1(2), of k] Cons.prems(2) show ?thesis by (simp add: ptr_add_def add.assoc)
  qed
qed simp

lemma store_entries_ok:
  assumes "fst p < length m" "snd p + 4 * length es \<le> length (m ! fst p)"
  shows "\<exists>m'. store_entries m p es = Some m'"
  using assms
proof (induction es arbitrary: m p)
  case (Cons e es)
  then obtain m1 where m1: "mem_store m p (le_bytes e) = Some m1" by (auto simp: mem_store_def)
  with Cons.IH [of "ptr_add p 4" m1] Cons.prems show ?case
    by (auto simp: store32_def mem_store_shape)
qed simp

lemma load32_total: "fst p < length m \<Longrightarrow> snd p + 4 \<le> length (m ! fst p) \<Longrightarrow> \<exists>w. load32 m p = Some w"
  by (simp add: load32_def mem_load_def)

subsection \<open>Ranges inside a region\<close>

definition in_bounds :: "byte list list \<Rightarrow> Ptr \<Rightarrow> nat \<Rightarrow> bool" where
  "in_bounds m p n \<longleftrightarrow> fst p < length m \<and> snd p + n \<le> length (m ! fst p)"

lemma in_bounds_load: "in_bounds m p n \<Longrightarrow> \<exists>bs. mem_load m p n = Some bs \<and> length bs = n"
  by (auto simp: in_bounds_def mem_load_def)

lemma in_bounds_store: "in_bounds m p (length bs) \<Longrightarrow> \<exists>m'. mem_store m p bs = Some m'"
  by (auto simp: in_bounds_def mem_store_def)

lemma in_bounds_shape:
  "length m' = length m \<Longrightarrow> \<forall>r. length (m' ! r) = length (m ! r) \<Longrightarrow> in_bounds m' p n = in_bounds m p n"
  by (simp add: in_bounds_def)

end
