(* ===== verification/Cmd_Format.thy ===== *)
theory Cmd_Format
  imports Prelude
begin

section \<open>The command buffer format\<close>

text \<open>
  Model of \<^verbatim>\<open>src/gpu/command_buffer/common/cmd_buffer_common.{h,cc}\<close> and of the error codes of
  \<^verbatim>\<open>constants.h\<close>: the command header with its bit fields, the common command structures with their
  packed layout in entries of 32 bits, and the address arithmetic of the \<open>Set\<close> functions.
  An address is a byte address, a \<open>nat\<close>. Bit fields are laid out from the low bits up, as on
  the little-endian targets.
\<close>

subsection \<open>Errors and entries\<close>

datatype Error =
    kNoError | kInvalidSize | kOutOfBounds | kUnknownCommand | kInvalidArguments
  | kLostContext | kGenericError | kDeferCommandUntilLater

definition IsError :: "Error \<Rightarrow> bool" where
  "IsError error \<longleftrightarrow> error \<noteq> kNoError \<and> error \<noteq> kDeferCommandUntilLater"

datatype ContextLostReason = kGuilty | kInnocent | kUnknown

definition kCommandBufferEntrySize :: nat where "kCommandBufferEntrySize = 4"

definition ComputeNumEntries :: "u64 \<Rightarrow> u32" where
  "ComputeNumEntries size_in_bytes = ucast ((size_in_bytes + 4 - 1) div 4)"

definition RoundSizeToMultipleOfEntries :: "u64 \<Rightarrow> u64" where
  "RoundSizeToMultipleOfEntries size_in_bytes = ucast (ComputeNumEntries size_in_bytes) * 4"

subsection \<open>The header\<close>

datatype ArgFlags = kFixed | kAtLeastN

record CommandHeader =
  hdr_size :: "21 word"
  hdr_command :: "11 word"

definition kMaxSize :: u32 where "kMaxSize = push_bit 21 1 - 1"

text \<open>\<open>CommandBufferEntry\<close> is a union: the same 32 bits as a header or as a number.\<close>

definition header_entry :: "CommandHeader \<Rightarrow> u32" where
  "header_entry h = ucast (hdr_size h) OR push_bit 21 (ucast (hdr_command h))"

definition value_header :: "u32 \<Rightarrow> CommandHeader" where
  "value_header e = \<lparr>hdr_size = ucast e, hdr_command = ucast (drop_bit 21 e)\<rparr>"

definition CommandHeader_Init :: "u32 \<Rightarrow> u32 \<Rightarrow> CommandHeader option" where
  "CommandHeader_Init command sz = do {
     dcheck (sint sz \<le> sint kMaxSize);
     Some \<lparr>hdr_size = ucast sz, hdr_command = ucast command\<rparr>
   }"

text \<open>
  The templates take the command structure as their argument; here its id and its size in bytes.
  The \<open>COMPILE_ASSERT\<close>s on the argument flags restrict the instances below.
\<close>

definition SetCmd :: "u32 \<Rightarrow> u64 \<Rightarrow> CommandHeader option" where
  "SetCmd kCmdId sizeof_T = CommandHeader_Init kCmdId (ComputeNumEntries sizeof_T)"

definition SetCmdBySize :: "u32 \<Rightarrow> u64 \<Rightarrow> u32 \<Rightarrow> CommandHeader option" where
  "SetCmdBySize kCmdId sizeof_T size_of_data_in_bytes =
     CommandHeader_Init kCmdId (ComputeNumEntries (sizeof_T + ucast size_of_data_in_bytes))"

definition SetCmdByTotalSize :: "u32 \<Rightarrow> u64 \<Rightarrow> u32 \<Rightarrow> CommandHeader option" where
  "SetCmdByTotalSize kCmdId sizeof_T size_in_bytes = do {
     dcheck (sizeof_T \<le> ucast size_in_bytes);
     CommandHeader_Init kCmdId (ComputeNumEntries (ucast size_in_bytes))
   }"

definition ImmediateDataAddress :: "u64 \<Rightarrow> nat \<Rightarrow> nat" where
  "ImmediateDataAddress sizeof_T cmd = cmd + unat sizeof_T"

definition NextCmdAddress :: "u64 \<Rightarrow> nat \<Rightarrow> nat" where
  "NextCmdAddress sizeof_T cmd = cmd + unat sizeof_T"

definition NextImmediateCmdAddress :: "u64 \<Rightarrow> nat \<Rightarrow> u32 \<Rightarrow> nat" where
  "NextImmediateCmdAddress sizeof_T cmd size_of_data_in_bytes =
     cmd + unat sizeof_T + unat (RoundSizeToMultipleOfEntries (ucast size_of_data_in_bytes))"

definition NextImmediateCmdAddressTotalSize :: "u64 \<Rightarrow> nat \<Rightarrow> u32 \<Rightarrow> nat option" where
  "NextImmediateCmdAddressTotalSize sizeof_T cmd total_size_in_bytes = do {
     dcheck (sizeof_T \<le> ucast total_size_in_bytes);
     Some (cmd + unat (RoundSizeToMultipleOfEntries (ucast total_size_in_bytes)))
   }"

subsection \<open>Command ids\<close>

datatype CommandId =
  kNoop | kSetToken | kSetBucketSize | kSetBucketData | kSetBucketDataImmediate
| kGetBucketStart | kGetBucketData

text \<open>The enumeration values, in the order of \<open>COMMON_COMMAND_BUFFER_CMDS\<close>.\<close>

definition common_commands :: "CommandId list" where
  "common_commands = [kNoop, kSetToken, kSetBucketSize, kSetBucketData, kSetBucketDataImmediate,
     kGetBucketStart, kGetBucketData]"

fun cmd_id :: "CommandId \<Rightarrow> u32" where
  "cmd_id kNoop = 0"
| "cmd_id kSetToken = 1"
| "cmd_id kSetBucketSize = 2"
| "cmd_id kSetBucketData = 3"
| "cmd_id kSetBucketDataImmediate = 4"
| "cmd_id kGetBucketStart = 5"
| "cmd_id kGetBucketData = 6"

definition kNumCommands :: u32 where "kNumCommands = 7"

definition kLastCommonId :: u32 where "kLastCommonId = 255"

fun kArgFlags :: "CommandId \<Rightarrow> ArgFlags" where
  "kArgFlags kNoop = kAtLeastN"
| "kArgFlags kSetBucketDataImmediate = kAtLeastN"
| "kArgFlags _ = kFixed"

fun sizeof_cmd :: "CommandId \<Rightarrow> u64" where
  "sizeof_cmd kNoop = 4"
| "sizeof_cmd kSetToken = 8"
| "sizeof_cmd kSetBucketSize = 12"
| "sizeof_cmd kSetBucketData = 24"
| "sizeof_cmd kSetBucketDataImmediate = 16"
| "sizeof_cmd kGetBucketStart = 28"
| "sizeof_cmd kGetBucketData = 24"

definition GetCommandName :: "u32 \<Rightarrow> string" where
  "GetCommandName command_id =
     (let names = [''Noop'', ''SetToken'', ''SetBucketSize'', ''SetBucketData'',
                   ''SetBucketDataImmediate'', ''GetBucketStart'', ''GetBucketData''];
          id = sint command_id
      in if 0 \<le> id \<and> id < sint kNumCommands then names ! nat id else ''*unknown-command*'')"

subsection \<open>The command structures\<close>

text \<open>
  A structure is a record; its \<open>_entries\<close> function gives the packed layout (the offsets the
  \<open>COMPILE_ASSERT\<close>s state, divided by 4), its \<open>_at\<close> function reads it back. \<open>Set\<close> returns what it
  stores at the address and the address of the next command.
\<close>

record NoopCmd =
  noop_header :: CommandHeader

definition Noop_SetHeader :: "u32 \<Rightarrow> CommandHeader option" where
  "Noop_SetHeader skip_count = do {
     dcheck (0 < skip_count);
     CommandHeader_Init (cmd_id kNoop) skip_count
   }"

definition Noop_Init :: "u32 \<Rightarrow> NoopCmd option" where
  "Noop_Init skip_count = do {
     h \<leftarrow> Noop_SetHeader skip_count;
     Some \<lparr>noop_header = h\<rparr>
   }"

definition Noop_entries :: "NoopCmd \<Rightarrow> u32 list" where
  "Noop_entries c = [header_entry (noop_header c)]"

definition Noop_Set :: "nat \<Rightarrow> u32 \<Rightarrow> (u32 list \<times> nat) option" where
  "Noop_Set cmd skip_count = do {
     c \<leftarrow> Noop_Init skip_count;
     Some (Noop_entries c, NextImmediateCmdAddress (sizeof_cmd kNoop) cmd (skip_count * 4))
   }"

record SetTokenCmd =
  st_header :: CommandHeader
  st_token :: u32

definition SetToken_Init :: "u32 \<Rightarrow> SetTokenCmd option" where
  "SetToken_Init token = do {
     h \<leftarrow> SetCmd (cmd_id kSetToken) (sizeof_cmd kSetToken);
     Some \<lparr>st_header = h, st_token = token\<rparr>
   }"

definition SetToken_entries :: "SetTokenCmd \<Rightarrow> u32 list" where
  "SetToken_entries c = [header_entry (st_header c), st_token c]"

definition SetToken_at :: "(nat \<Rightarrow> u32) \<Rightarrow> SetTokenCmd" where
  "SetToken_at e = \<lparr>st_header = value_header (e 0), st_token = e 1\<rparr>"

definition SetToken_Set :: "nat \<Rightarrow> u32 \<Rightarrow> (u32 list \<times> nat) option" where
  "SetToken_Set cmd token = do {
     c \<leftarrow> SetToken_Init token;
     Some (SetToken_entries c, NextCmdAddress (sizeof_cmd kSetToken) cmd)
   }"

record SetBucketSizeCmd =
  sbs_header :: CommandHeader
  sbs_bucket_id :: u32
  sbs_size :: u32

definition SetBucketSize_Init :: "u32 \<Rightarrow> u32 \<Rightarrow> SetBucketSizeCmd option" where
  "SetBucketSize_Init bucket_id sz = do {
     h \<leftarrow> SetCmd (cmd_id kSetBucketSize) (sizeof_cmd kSetBucketSize);
     Some \<lparr>sbs_header = h, sbs_bucket_id = bucket_id, sbs_size = sz\<rparr>
   }"

definition SetBucketSize_entries :: "SetBucketSizeCmd \<Rightarrow> u32 list" where
  "SetBucketSize_entries c = [header_entry (sbs_header c), sbs_bucket_id c, sbs_size c]"

definition SetBucketSize_at :: "(nat \<Rightarrow> u32) \<Rightarrow> SetBucketSizeCmd" where
  "SetBucketSize_at e = \<lparr>sbs_header = value_header (e 0), sbs_bucket_id = e 1, sbs_size = e 2\<rparr>"

definition SetBucketSize_Set :: "nat \<Rightarrow> u32 \<Rightarrow> u32 \<Rightarrow> (u32 list \<times> nat) option" where
  "SetBucketSize_Set cmd bucket_id sz = do {
     c \<leftarrow> SetBucketSize_Init bucket_id sz;
     Some (SetBucketSize_entries c, NextCmdAddress (sizeof_cmd kSetBucketSize) cmd)
   }"

record SetBucketDataCmd =
  sbd_header :: CommandHeader
  sbd_bucket_id :: u32
  sbd_offset :: u32
  sbd_size :: u32
  sbd_shared_memory_id :: u32
  sbd_shared_memory_offset :: u32

definition SetBucketData_Init :: "u32 \<Rightarrow> u32 \<Rightarrow> u32 \<Rightarrow> u32 \<Rightarrow> u32 \<Rightarrow> SetBucketDataCmd option" where
  "SetBucketData_Init bucket_id offset sz shared_memory_id shared_memory_offset = do {
     h \<leftarrow> SetCmd (cmd_id kSetBucketData) (sizeof_cmd kSetBucketData);
     Some \<lparr>sbd_header = h, sbd_bucket_id = bucket_id, sbd_offset = offset, sbd_size = sz,
           sbd_shared_memory_id = shared_memory_id, sbd_shared_memory_offset = shared_memory_offset\<rparr>
   }"

definition SetBucketData_entries :: "SetBucketDataCmd \<Rightarrow> u32 list" where
  "SetBucketData_entries c =
     [header_entry (sbd_header c), sbd_bucket_id c, sbd_offset c, sbd_size c,
      sbd_shared_memory_id c, sbd_shared_memory_offset c]"

definition SetBucketData_at :: "(nat \<Rightarrow> u32) \<Rightarrow> SetBucketDataCmd" where
  "SetBucketData_at e =
     \<lparr>sbd_header = value_header (e 0), sbd_bucket_id = e 1, sbd_offset = e 2, sbd_size = e 3,
      sbd_shared_memory_id = e 4, sbd_shared_memory_offset = e 5\<rparr>"

definition SetBucketData_Set ::
  "nat \<Rightarrow> u32 \<Rightarrow> u32 \<Rightarrow> u32 \<Rightarrow> u32 \<Rightarrow> u32 \<Rightarrow> (u32 list \<times> nat) option" where
  "SetBucketData_Set cmd bucket_id offset sz shared_memory_id shared_memory_offset = do {
     c \<leftarrow> SetBucketData_Init bucket_id offset sz shared_memory_id shared_memory_offset;
     Some (SetBucketData_entries c, NextCmdAddress (sizeof_cmd kSetBucketData) cmd)
   }"

record SetBucketDataImmediateCmd =
  sbi_header :: CommandHeader
  sbi_bucket_id :: u32
  sbi_offset :: u32
  sbi_size :: u32

definition SetBucketDataImmediate_Init :: "u32 \<Rightarrow> u32 \<Rightarrow> u32 \<Rightarrow> SetBucketDataImmediateCmd option" where
  "SetBucketDataImmediate_Init bucket_id offset sz = do {
     h \<leftarrow> SetCmdBySize (cmd_id kSetBucketDataImmediate) (sizeof_cmd kSetBucketDataImmediate) sz;
     Some \<lparr>sbi_header = h, sbi_bucket_id = bucket_id, sbi_offset = offset, sbi_size = sz\<rparr>
   }"

definition SetBucketDataImmediate_entries :: "SetBucketDataImmediateCmd \<Rightarrow> u32 list" where
  "SetBucketDataImmediate_entries c =
     [header_entry (sbi_header c), sbi_bucket_id c, sbi_offset c, sbi_size c]"

definition SetBucketDataImmediate_at :: "(nat \<Rightarrow> u32) \<Rightarrow> SetBucketDataImmediateCmd" where
  "SetBucketDataImmediate_at e =
     \<lparr>sbi_header = value_header (e 0), sbi_bucket_id = e 1, sbi_offset = e 2, sbi_size = e 3\<rparr>"

definition SetBucketDataImmediate_Set :: "nat \<Rightarrow> u32 \<Rightarrow> u32 \<Rightarrow> u32 \<Rightarrow> (u32 list \<times> nat) option" where
  "SetBucketDataImmediate_Set cmd bucket_id offset sz = do {
     c \<leftarrow> SetBucketDataImmediate_Init bucket_id offset sz;
     Some (SetBucketDataImmediate_entries c,
           NextImmediateCmdAddress (sizeof_cmd kSetBucketDataImmediate) cmd sz)
   }"

record GetBucketStartCmd =
  gbs_header :: CommandHeader
  gbs_bucket_id :: u32
  gbs_result_memory_id :: u32
  gbs_result_memory_offset :: u32
  gbs_data_memory_size :: u32
  gbs_data_memory_id :: u32
  gbs_data_memory_offset :: u32

definition GetBucketStart_Init ::
  "u32 \<Rightarrow> u32 \<Rightarrow> u32 \<Rightarrow> u32 \<Rightarrow> u32 \<Rightarrow> u32 \<Rightarrow> GetBucketStartCmd option" where
  "GetBucketStart_Init bucket_id result_memory_id result_memory_offset
       data_memory_size data_memory_id data_memory_offset = do {
     h \<leftarrow> SetCmd (cmd_id kGetBucketStart) (sizeof_cmd kGetBucketStart);
     Some \<lparr>gbs_header = h, gbs_bucket_id = bucket_id, gbs_result_memory_id = result_memory_id,
           gbs_result_memory_offset = result_memory_offset, gbs_data_memory_size = data_memory_size,
           gbs_data_memory_id = data_memory_id, gbs_data_memory_offset = data_memory_offset\<rparr>
   }"

definition GetBucketStart_entries :: "GetBucketStartCmd \<Rightarrow> u32 list" where
  "GetBucketStart_entries c =
     [header_entry (gbs_header c), gbs_bucket_id c, gbs_result_memory_id c,
      gbs_result_memory_offset c, gbs_data_memory_size c, gbs_data_memory_id c,
      gbs_data_memory_offset c]"

definition GetBucketStart_at :: "(nat \<Rightarrow> u32) \<Rightarrow> GetBucketStartCmd" where
  "GetBucketStart_at e =
     \<lparr>gbs_header = value_header (e 0), gbs_bucket_id = e 1, gbs_result_memory_id = e 2,
      gbs_result_memory_offset = e 3, gbs_data_memory_size = e 4, gbs_data_memory_id = e 5,
      gbs_data_memory_offset = e 6\<rparr>"

definition GetBucketStart_Set ::
  "nat \<Rightarrow> u32 \<Rightarrow> u32 \<Rightarrow> u32 \<Rightarrow> u32 \<Rightarrow> u32 \<Rightarrow> u32 \<Rightarrow> (u32 list \<times> nat) option" where
  "GetBucketStart_Set cmd bucket_id result_memory_id result_memory_offset
       data_memory_size data_memory_id data_memory_offset = do {
     c \<leftarrow> GetBucketStart_Init bucket_id result_memory_id result_memory_offset
           data_memory_size data_memory_id data_memory_offset;
     Some (GetBucketStart_entries c, NextCmdAddress (sizeof_cmd kGetBucketStart) cmd)
   }"

record GetBucketDataCmd =
  gbd_header :: CommandHeader
  gbd_bucket_id :: u32
  gbd_offset :: u32
  gbd_size :: u32
  gbd_shared_memory_id :: u32
  gbd_shared_memory_offset :: u32

definition GetBucketData_Init :: "u32 \<Rightarrow> u32 \<Rightarrow> u32 \<Rightarrow> u32 \<Rightarrow> u32 \<Rightarrow> GetBucketDataCmd option" where
  "GetBucketData_Init bucket_id offset sz shared_memory_id shared_memory_offset = do {
     h \<leftarrow> SetCmd (cmd_id kGetBucketData) (sizeof_cmd kGetBucketData);
     Some \<lparr>gbd_header = h, gbd_bucket_id = bucket_id, gbd_offset = offset, gbd_size = sz,
           gbd_shared_memory_id = shared_memory_id, gbd_shared_memory_offset = shared_memory_offset\<rparr>
   }"

definition GetBucketData_entries :: "GetBucketDataCmd \<Rightarrow> u32 list" where
  "GetBucketData_entries c =
     [header_entry (gbd_header c), gbd_bucket_id c, gbd_offset c, gbd_size c,
      gbd_shared_memory_id c, gbd_shared_memory_offset c]"

definition GetBucketData_at :: "(nat \<Rightarrow> u32) \<Rightarrow> GetBucketDataCmd" where
  "GetBucketData_at e =
     \<lparr>gbd_header = value_header (e 0), gbd_bucket_id = e 1, gbd_offset = e 2, gbd_size = e 3,
      gbd_shared_memory_id = e 4, gbd_shared_memory_offset = e 5\<rparr>"

definition GetBucketData_Set ::
  "nat \<Rightarrow> u32 \<Rightarrow> u32 \<Rightarrow> u32 \<Rightarrow> u32 \<Rightarrow> u32 \<Rightarrow> (u32 list \<times> nat) option" where
  "GetBucketData_Set cmd bucket_id offset sz shared_memory_id shared_memory_offset = do {
     c \<leftarrow> GetBucketData_Init bucket_id offset sz shared_memory_id shared_memory_offset;
     Some (GetBucketData_entries c, NextCmdAddress (sizeof_cmd kGetBucketData) cmd)
   }"

subsection \<open>Lemmas\<close>

lemma value_header_entry [simp]: "value_header (header_entry h) = h"
proof -
  have "ucast (header_entry h) = hdr_size h"
    by (rule bit_word_eqI) (auto simp: header_entry_def bit_simps)
  moreover have "ucast (drop_bit 21 (header_entry h)) = hdr_command h"
    by (rule bit_word_eqI)
       (auto simp: header_entry_def bit_simps dest: bit_imp_le_length)
  ultimately show ?thesis by (simp add: value_header_def)
qed

lemma header_entry_value [simp]: "header_entry (value_header e) = e"
  by (rule bit_word_eqI) (auto simp: header_entry_def value_header_def bit_simps)

lemma unat_ComputeNumEntries:
  assumes "unat n < 2 ^ 33"
  shows "unat (ComputeNumEntries n) = (unat n + 3) div 4"
proof -
  have "n + 4 - 1 = n + 3" by simp
  moreover have "unat (n + 3) = unat n + 3" using assms by (subst unat_add_less) simp_all
  ultimately have d: "unat ((n + 4 - 1) div 4) = (unat n + 3) div 4" by (simp only: unat_div) simp
  moreover have "(unat n + 3) div 4 < 2 ^ 32" using assms by simp
  ultimately show ?thesis
    by (simp add: ComputeNumEntries_def unsigned_ucast_eq take_bit_nat_eq_self)
qed

lemma ComputeNumEntries_sizeof [simp]:
  "ComputeNumEntries 4 = 1" "ComputeNumEntries 8 = 2" "ComputeNumEntries 12 = 3"
  "ComputeNumEntries 16 = 4" "ComputeNumEntries 24 = 6" "ComputeNumEntries 28 = 7"
  by (simp_all add: ComputeNumEntries_def)

lemma kMaxSize_eq: "kMaxSize = 0x1FFFFF"
  by (simp add: kMaxSize_def push_bit_eq_mult)

lemma CommandHeader_Init_small:
  assumes "unat sz < 2 ^ 31"
  shows "CommandHeader_Init command sz =
     (if unat sz < 2 ^ 21 then Some \<lparr>hdr_size = ucast sz, hdr_command = ucast command\<rparr> else None)"
  using sint_less_u32(2) [OF assms, of kMaxSize] by (auto simp: CommandHeader_Init_def kMaxSize_eq)

lemma unat_ucast_21: "unat (x :: u32) < 2 ^ 21 \<Longrightarrow> unat (ucast x :: 21 word) = unat x"
  by (simp add: unsigned_ucast_eq take_bit_nat_eq_self)

lemma cmd_id_inj: "cmd_id c = cmd_id d \<Longrightarrow> c = d"
  by (cases c; cases d) simp_all

lemma common_commands_nth: "unat (cmd_id c) < length common_commands \<and> common_commands ! unat (cmd_id c) = c"
  by (cases c) (simp_all add: common_commands_def)

lemma unat_RoundSize:
  "unat (RoundSizeToMultipleOfEntries (ucast (n :: u32))) = (unat n + 3) div 4 * 4"
proof -
  have lt: "unat n < 4294967296" by (rule unat_u32_less)
  then have "unat n < 2 ^ 33" by (rule less_trans) simp
  then have "unat (ComputeNumEntries (ucast n)) = (unat n + 3) div 4"
    by (subst unat_ComputeNumEntries) simp_all
  moreover have "(unat n + 3) div 4 * 4 < 18446744073709551616"
    by (rule le_less_trans [OF div_times_less_eq_dividend]) (use lt in linarith)
  ultimately show ?thesis
    by (simp add: RoundSizeToMultipleOfEntries_def unat_word_ariths)
qed

subsection \<open>Properties\<close>

text \<open>
  \<open>Noop::Set\<close> writes a header with which the parser moves on by \<open>skip_count\<close> entries, but it returns the address one
  entry further on. It returns at all only for counts from 1 to \<open>kMaxSize\<close>.
\<close>

lemma Noop_Set_address:
  assumes "unat skip_count < 2 ^ 31" "Noop_Set cmd skip_count = Some (es, next)"
  shows "0 < unat skip_count \<and> skip_count \<le> kMaxSize \<and>
    es = [header_entry \<lparr>hdr_size = ucast skip_count, hdr_command = 0\<rparr>] \<and>
    unat (hdr_size (value_header (hd es))) = unat skip_count \<and>
    next = cmd + 4 * unat (hdr_size (value_header (hd es))) + 4"
proof -
  have i: "0 < skip_count" "unat skip_count < 2 ^ 21" "es = [header_entry \<lparr>hdr_size = ucast skip_count, hdr_command = 0\<rparr>]"
    "next = NextImmediateCmdAddress (sizeof_cmd kNoop) cmd (skip_count * 4)"
    using assms
    by (auto simp: Noop_Set_def Noop_Init_def Noop_SetHeader_def CommandHeader_Init_small Noop_entries_def
        elim!: bind_SomeE split: if_splits)
  have m: "unat (skip_count * 4) = 4 * unat skip_count" using i(2) by (simp add: unat_word_ariths)
  have "(4 * unat skip_count + 3) div 4 = unat skip_count" by simp
  then have r: "unat (RoundSizeToMultipleOfEntries (ucast (skip_count * 4))) = 4 * unat skip_count"
    using m by (simp add: unat_RoundSize)
  with i m show ?thesis
    by (auto simp: NextImmediateCmdAddress_def unat_ucast_21 kMaxSize_eq word_le_nat_alt word_less_nat_alt)
qed

end
