(* ===== verification/Cmd_Parser.thy ===== *)
theory Cmd_Parser
  imports Shared_Memory Cmd_Format
begin

section \<open>CommandParser: reading commands from the ring\<close>

text \<open>
  Model of \<^verbatim>\<open>src/gpu/command_buffer/service/cmd_parser.{h,cc}\<close>. The state of the parser extends the
  shared memory; every further part of the service extends the parser's state, so that the
  handler (\<open>AsyncAPIInterface::DoCommand\<close>, a parameter) acts on all of it and may move \<open>get_\<close>.
\<close>

record CommandParser = Memory +
  cp_get :: u32
  cp_put :: u32
  cp_buffer :: "Ptr option"
  cp_entry_count :: u32

type_synonym 'w DoCommand = "u32 \<Rightarrow> u32 \<Rightarrow> Ptr \<Rightarrow> 'w \<Rightarrow> (Error \<times> 'w) option"

definition CommandParser_new :: "'a CommandParser_scheme \<Rightarrow> 'a CommandParser_scheme" where
  "CommandParser_new w = w\<lparr>cp_get := 0, cp_put := 0, cp_buffer := None, cp_entry_count := 0\<rparr>"

definition SetBuffer ::
  "Ptr \<Rightarrow> u64 \<Rightarrow> u64 \<Rightarrow> u64 \<Rightarrow> 'a CommandParser_scheme \<Rightarrow> 'a CommandParser_scheme option" where
  "SetBuffer shm_address shm_size offset sz w = do {
     dcheck (snd shm_address mod 4 = 0);
     dcheck (sint offset mod 4 = 0);
     dcheck (sz mod 4 = 0);
     dcheck (offset + sz \<le> shm_size);
     Some (w\<lparr>cp_get := 0, cp_put := 0,
             cp_buffer := Some (fst shm_address, nat (int (snd shm_address) + sint offset)),
             cp_entry_count := ucast (sz div 4)\<rparr>)
   }"

definition set_get :: "u32 \<Rightarrow> 'a CommandParser_scheme \<Rightarrow> bool \<times> 'a CommandParser_scheme" where
  "set_get get w =
     (if 0 \<le> sint get \<and> sint get < sint (cp_entry_count w)
      then (True, w\<lparr>cp_get := get\<rparr>) else (False, w))"

definition set_put :: "u32 \<Rightarrow> 'a CommandParser_scheme \<Rightarrow> 'a CommandParser_scheme" where
  "set_put put w = w\<lparr>cp_put := put\<rparr>"

definition IsEmpty :: "'a CommandParser_scheme \<Rightarrow> bool" where
  "IsEmpty w \<longleftrightarrow> cp_put w = cp_get w"

text \<open>The address of \<open>buffer_[i]\<close>; \<open>i\<close> is an \<open>int32\<close>, and a negative one is out of the buffer.\<close>

definition entry_ptr :: "u32 \<Rightarrow> 'a CommandParser_scheme \<Rightarrow> Ptr option" where
  "entry_ptr i w = do {
     p \<leftarrow> cp_buffer w;
     dcheck (0 \<le> sint i);
     Some (ptr_add p (4 * nat (sint i)))
   }"

text \<open>C's remainder of two \<open>int\<close>s takes the sign of the dividend and is undefined for 0.\<close>

definition int32_rem :: "u32 \<Rightarrow> u32 \<Rightarrow> u32 option" where
  "int32_rem a b = do {
     dcheck (b \<noteq> 0);
     Some (word_of_int (sgn (sint a) * (\<bar>sint a\<bar> mod \<bar>sint b\<bar>)))
   }"

definition ProcessCommand ::
  "'a CommandParser_scheme DoCommand \<Rightarrow> 'a CommandParser_scheme \<Rightarrow>
     (Error \<times> 'a CommandParser_scheme) option" where
  "ProcessCommand DoCommand w =
     (let get = cp_get w in
      if get = cp_put w then Some (kNoError, w)
      else do {
        p \<leftarrow> entry_ptr get w;
        e \<leftarrow> load32 (shm w) p;
        let header = value_header e;
        if hdr_size header = 0 then Some (kInvalidSize, w)
        else if sint (cp_entry_count w) < sint (ucast (hdr_size header) + get)
        then Some (kOutOfBounds, w)
        else do {
          (result, w) \<leftarrow> DoCommand (ucast (hdr_command header)) (ucast (hdr_size header) - 1) p w;
          if get = cp_get w \<and> result \<noteq> kDeferCommandUntilLater
          then do {
            get' \<leftarrow> int32_rem (get + ucast (hdr_size header)) (cp_entry_count w);
            Some (result, w\<lparr>cp_get := get'\<rparr>)
          }
          else Some (result, w)
        }
      })"

text \<open>Nothing bounds this loop: \<^const>\<open>None\<close> is also the value of a run that does not end.\<close>

partial_function (option) ProcessAllCommands ::
  "'a CommandParser_scheme DoCommand \<Rightarrow> 'a CommandParser_scheme \<Rightarrow>
     (Error \<times> 'a CommandParser_scheme) option" where
  "ProcessAllCommands DoCommand w =
     (if IsEmpty w then Some (kNoError, w)
      else case ProcessCommand DoCommand w of
        None \<Rightarrow> None
      | Some (error, w') \<Rightarrow>
          if error \<noteq> kNoError then Some (error, w') else ProcessAllCommands DoCommand w')"

subsection \<open>The parser is safe on any contents of its buffer\<close>

text \<open>
  The parser's invariant: its buffer lies in shared memory and holds \<open>entry_count_\<close> entries (at most \<open>2 ^ 29\<close>,
  the entries of 2 GiB), and \<open>get_\<close> is one of them. Nothing is said of the bytes, which the client writes.
\<close>

definition parser_wf :: "'a CommandParser_scheme \<Rightarrow> bool" where
  "parser_wf w \<longleftrightarrow>
     (\<exists>p. cp_buffer w = Some p \<and> in_bounds (shm w) p (4 * unat (cp_entry_count w))) \<and>
     unat (cp_entry_count w) \<le> 2 ^ 29 \<and> unat (cp_get w) < unat (cp_entry_count w)"

definition same_shape :: "'a Memory_scheme \<Rightarrow> 'a Memory_scheme \<Rightarrow> bool" where
  "same_shape w w' \<longleftrightarrow> length (shm w') = length (shm w) \<and> (\<forall>r. length (shm w' ! r) = length (shm w ! r))"

lemma same_shape_refl [simp]: "same_shape w w" by (simp add: same_shape_def)

lemma in_bounds_same_shape: "same_shape w w' \<Longrightarrow> in_bounds (shm w') p n = in_bounds (shm w) p n"
  by (simp add: same_shape_def in_bounds_def)

text \<open>
  What the parser needs of its \<open>AsyncAPIInterface\<close>: on every command that lies inside the buffer it returns,
  keeps its own invariant, leaves the parser alone and does not change the layout of the memory.
\<close>

locale async_api =
  fixes do_cmd :: "'a CommandParser_scheme DoCommand"
    and h_ok :: "'a CommandParser_scheme \<Rightarrow> bool"
  assumes do_cmd_ok: "h_ok w \<Longrightarrow> in_bounds (shm w) p (4 * (1 + unat n)) \<Longrightarrow> unat n < 2 ^ 21 \<Longrightarrow>
      \<exists>e w'. do_cmd c n p w = Some (e, w') \<and> h_ok w' \<and> same_shape w w' \<and> cp_get w' = cp_get w \<and>
        cp_put w' = cp_put w \<and> cp_buffer w' = cp_buffer w \<and> cp_entry_count w' = cp_entry_count w"
    and set_get_ok: "h_ok w \<Longrightarrow> h_ok (w\<lparr>cp_get := g\<rparr>)"

lemma int32_rem_unat:
  assumes "unat a < 2 ^ 31" "unat b < 2 ^ 31" "b \<noteq> 0"
  shows "int32_rem a b = Some (of_nat (unat a mod unat b))"
proof -
  have "sgn (sint a) * (\<bar>sint a\<bar> mod \<bar>sint b\<bar>) = int (unat a mod unat b)"
    using sint_nonneg_u32 [OF assms(1)] sint_nonneg_u32 [OF assms(2)]
    by (simp add: sgn_if zmod_int) (metis mod_0 uint_0_iff uint_ge_0 order_le_less)
  with assms(3) show ?thesis by (simp add: int32_rem_def)
qed

lemma unat_hdr_size: "unat (ucast (hdr_size h) :: u32) = unat (hdr_size h)"
proof -
  have "unat (hdr_size h) < 2 ^ 21" using unsigned_less [of "hdr_size h", where 'a = nat] by simp
  then have "unat (hdr_size h) < 2 ^ 32" by simp
  then show ?thesis by (simp add: unsigned_ucast_eq take_bit_nat_eq_self)
qed

lemma hdr_size_bounds:
  "unat (ucast (hdr_size h) :: u32) < 2 ^ 21" "hdr_size h \<noteq> 0 \<Longrightarrow> 0 < unat (ucast (hdr_size h) :: u32)"
  using unsigned_less [of "hdr_size h", where 'a = nat] by (auto simp: unat_hdr_size unat_gt_0)

text \<open>Where a command lies: its header at entry \<open>g\<close>, and what \<open>ProcessCommand\<close> does with one that fits.\<close>

definition header_at :: "'a CommandParser_scheme \<Rightarrow> nat \<Rightarrow> CommandHeader option" where
  "header_at w g = do { p \<leftarrow> cp_buffer w; e \<leftarrow> load32 (shm w) (ptr_add p (4 * g)); Some (value_header e) }"

lemma parser_entry:
  assumes "parser_wf w"
  obtains p h where "cp_buffer w = Some p" "entry_ptr (cp_get w) w = Some (ptr_add p (4 * unat (cp_get w)))"
    "header_at w (unat (cp_get w)) = Some h"
    "load32 (shm w) (ptr_add p (4 * unat (cp_get w))) = Some (header_entry h)"
proof -
  let ?N = "unat (cp_entry_count w)" and ?g = "unat (cp_get w)"
  obtain p where p: "cp_buffer w = Some p" "in_bounds (shm w) p (4 * ?N)" "?N \<le> 2 ^ 29" "?g < ?N"
    using assms by (auto simp: parser_wf_def)
  have g: "sint (cp_get w) = int ?g" using p(3,4) by (intro sint_nonneg_u32) simp
  let ?q = "ptr_add p (4 * ?g)"
  have "entry_ptr (cp_get w) w = Some ?q" by (simp add: entry_ptr_def p(1) g)
  moreover have "in_bounds (shm w) ?q 4" using p(2,4) by (auto simp: in_bounds_def)
  then obtain e where e: "load32 (shm w) ?q = Some e" using load32_total [of ?q "shm w"] by (auto simp: in_bounds_def)
  then have "header_at w ?g = Some (value_header e)" "e = header_entry (value_header e)"
    by (simp_all add: header_at_def p(1) header_entry_value)
  ultimately show thesis using that p(1) e by metis
qed

lemma ProcessCommand_cases:
  assumes "parser_wf w" "header_at w (unat (cp_get w)) = Some h" "cp_get w \<noteq> cp_put w"
  shows "ProcessCommand do_cmd w =
    (if hdr_size h = 0 then Some (kInvalidSize, w)
     else if unat (cp_entry_count w) < unat (cp_get w) + unat (hdr_size h) then Some (kOutOfBounds, w)
     else do {
       p \<leftarrow> cp_buffer w;
       (result, w') \<leftarrow> do_cmd (ucast (hdr_command h)) (ucast (hdr_size h) - 1) (ptr_add p (4 * unat (cp_get w))) w;
       if cp_get w = cp_get w' \<and> result \<noteq> kDeferCommandUntilLater
       then do {
         get' \<leftarrow> int32_rem (cp_get w + ucast (hdr_size h)) (cp_entry_count w');
         Some (result, w'\<lparr>cp_get := get'\<rparr>)
       }
       else Some (result, w')
     })"
proof -
  let ?N = "unat (cp_entry_count w)" and ?g = "unat (cp_get w)"
  obtain p h' where p: "cp_buffer w = Some p" "entry_ptr (cp_get w) w = Some (ptr_add p (4 * ?g))"
    "header_at w ?g = Some h'" "load32 (shm w) (ptr_add p (4 * ?g)) = Some (header_entry h')"
    using parser_entry [OF assms(1)] by metis
  have h: "h' = h" using p(3) assms(2) by simp
  have wf: "?N \<le> 2 ^ 29" "?g < ?N" using assms(1) by (auto simp: parser_wf_def)
  define s where "s = (ucast (hdr_size h) :: u32)"
  have us: "unat s = unat (hdr_size h)" "unat s < 2 ^ 21"
    using hdr_size_bounds(1) [of h] by (simp_all add: s_def unat_hdr_size)
  have "unat (s + cp_get w) = unat s + ?g" using us wf by (intro unat_add_less) simp
  then have "sint (s + cp_get w) = int (unat s + ?g)" using us wf by (subst sint_nonneg_u32) simp_all
  moreover have "sint (cp_entry_count w) = int ?N" using wf by (intro sint_nonneg_u32) simp
  ultimately have lt: "sint (cp_entry_count w) < sint (s + cp_get w) \<longleftrightarrow> ?N < ?g + unat (hdr_size h)"
    using us(1) by linarith
  show ?thesis
    using assms(3) p h lt by (simp add: ProcessCommand_def Let_def value_header_entry cong: if_cong flip: s_def)
qed

lemma next_get:
  assumes "unat get + unat (hdr_size h) \<le> unat N" "unat N \<le> 2 ^ 29" "0 < unat N"
  shows "int32_rem (get + ucast (hdr_size h)) N = Some (of_nat ((unat get + unat (hdr_size h)) mod unat N))"
proof -
  have "unat (get + ucast (hdr_size h)) = unat get + unat (hdr_size h)"
    using assms by (subst unat_add_less) (simp_all add: unat_hdr_size)
  moreover have "N \<noteq> 0" using assms(3) by auto
  ultimately show ?thesis using int32_rem_unat [of "get + ucast (hdr_size h)" N] assms by simp
qed

lemma unat_of_nat_mod: "0 < unat (N :: u32) \<Longrightarrow> unat (of_nat (k mod unat N) :: u32) = k mod unat N"
proof -
  assume "0 < unat N"
  then have "k mod unat N < unat N" by simp
  then have "k mod unat N < 4294967296" using unat_u32_less by (rule less_trans)
  then show ?thesis by (simp add: unsigned_of_nat take_bit_nat_eq_self)
qed

context async_api
begin

lemma ProcessCommand_safe:
  assumes "h_ok w" "parser_wf w"
  shows "\<exists>e w'. ProcessCommand do_cmd w = Some (e, w') \<and> h_ok w' \<and> parser_wf w' \<and> same_shape w w' \<and>
    cp_put w' = cp_put w \<and> cp_buffer w' = cp_buffer w \<and> cp_entry_count w' = cp_entry_count w"
proof -
  let ?N = "unat (cp_entry_count w)" and ?g = "unat (cp_get w)"
  obtain p h where p: "cp_buffer w = Some p" "header_at w ?g = Some h" using parser_entry [OF assms(2)] by metis
  have wf: "in_bounds (shm w) p (4 * ?N)" "?N \<le> 2 ^ 29" "?g < ?N" using assms(2) p(1) by (auto simp: parser_wf_def)
  consider "cp_get w = cp_put w" | "cp_get w \<noteq> cp_put w" "hdr_size h = 0 \<or> ?N < ?g + unat (hdr_size h)"
    | "cp_get w \<noteq> cp_put w" "hdr_size h \<noteq> 0" "?g + unat (hdr_size h) \<le> ?N"
    by linarith
  then show ?thesis
  proof cases
    case 3
    let ?s = "ucast (hdr_size h) :: u32" and ?q = "ptr_add p (4 * ?g)"
    have "unat ?s < 2 ^ 21" "0 < unat ?s" using hdr_size_bounds 3(2) by auto
    then have n: "1 + unat (?s - 1) = unat ?s" "unat (?s - 1) < 2 ^ 21" by (subst unat_minus_one; force)+
    have "in_bounds (shm w) ?q (4 * (1 + unat (?s - 1)))"
      unfolding n using wf(1) 3(3) by (auto simp: in_bounds_def unat_hdr_size)
    then obtain r w' where w': "do_cmd (ucast (hdr_command h)) (?s - 1) ?q w = Some (r, w')" "h_ok w'"
      "same_shape w w'" "cp_get w' = cp_get w" "cp_put w' = cp_put w" "cp_buffer w' = cp_buffer w"
      "cp_entry_count w' = cp_entry_count w"
      using do_cmd_ok [OF assms(1) _ n(2)] by blast
    let ?g' = "of_nat ((?g + unat (hdr_size h)) mod ?N) :: u32"
    have g': "unat ?g' < ?N" using wf(3) by (subst unat_of_nat_mod) auto
    have inb: "in_bounds (shm w') p (4 * ?N)" using in_bounds_same_shape [OF w'(3)] wf(1) by simp
    have "parser_wf w'" "parser_wf (w'\<lparr>cp_get := ?g'\<rparr>)" using inb p wf w' g' by (simp_all add: parser_wf_def)
    moreover have "same_shape w (w'\<lparr>cp_get := ?g'\<rparr>)" using w'(3) by (simp add: same_shape_def)
    moreover have "int32_rem (cp_get w + ?s) (cp_entry_count w) = Some ?g'"
      using next_get [OF 3(3) wf(2)] wf(3) by simp
    ultimately show ?thesis
      using 3 w' p set_get_ok [OF w'(2), of ?g'] ProcessCommand_cases [OF assms(2) p(2) 3(1), of do_cmd]
      by (auto simp: not_less)
  next
    case 2
    with assms p ProcessCommand_cases [OF assms(2) p(2) 2(1), of do_cmd] show ?thesis by auto
  qed (use assms in \<open>simp add: ProcessCommand_def\<close>)
qed

end

end
