(* ===== verification/Gles2_Cmd_Utils.thy ===== *)
theory Gles2_Cmd_Utils
  imports Gl_Enums Cmd_Parser
begin

section \<open>GLES2Util: sizes, names and attributes of GL commands\<close>

text \<open>
  Model of \<^verbatim>\<open>src/gpu/command_buffer/common/gles2_cmd_utils.{h,cc}\<close>, which client and service share. An \<open>int\<close> or \<open>uint32\<close> is a
  32-bit word; a function that returns false and leaves its results unset returns \<^const>\<open>None\<close> in the inner option, the outer
  \<^const>\<open>None\<close> is a division by zero, a \<open>NOTREACHED\<close> or an access outside a string or array.
\<close>

subsection \<open>Arithmetic with overflow checks\<close>

definition SafeMultiplyUint32 :: "u32 \<Rightarrow> u32 \<Rightarrow> bool \<times> u32" where
  "SafeMultiplyUint32 a b =
     (if b = 0 then (True, 0)
      else let v = a * b in if v div b \<noteq> a then (False, 0) else (True, v))"

definition SafeAddUint32 :: "u32 \<Rightarrow> u32 \<Rightarrow> bool \<times> u32" where
  "SafeAddUint32 a b = (if a + b < a then (False, 0) else (True, a + b))"

definition SafeAddInt32 :: "u32 \<Rightarrow> u32 \<Rightarrow> bool \<times> u32" where
  "SafeAddInt32 a b =
     (let sum64 = (scast a :: u64) + scast b;
          sum32 = (ucast sum64 :: u32);
          safe = (sum64 = scast sum32)
      in (safe, if safe then sum32 else 0))"

subsection \<open>Sizes\<close>

record GLES2Util =
  num_compressed_texture_formats :: u32
  num_shader_binary_formats :: u32

definition GLES2Util_new :: GLES2Util where
  "GLES2Util_new = \<lparr>num_compressed_texture_formats = 0, num_shader_binary_formats = 0\<rparr>"

text \<open>The cases of the switch, in the order of the source.\<close>

definition num_values_table :: "GLES2Util \<Rightarrow> (u32 \<times> u32) list" where
  "num_values_table u =
    [(GL_ACTIVE_TEXTURE, 1), (GL_ALIASED_LINE_WIDTH_RANGE, 2), (GL_ALIASED_POINT_SIZE_RANGE, 2),
     (GL_ALPHA_BITS, 1), (GL_ARRAY_BUFFER_BINDING, 1), (GL_BLEND, 1), (GL_BLEND_COLOR, 4),
     (GL_BLEND_DST_ALPHA, 1), (GL_BLEND_DST_RGB, 1), (GL_BLEND_EQUATION_ALPHA, 1), (GL_BLEND_EQUATION_RGB, 1),
     (GL_BLEND_SRC_ALPHA, 1), (GL_BLEND_SRC_RGB, 1), (GL_BLUE_BITS, 1), (GL_COLOR_CLEAR_VALUE, 4),
     (GL_COLOR_WRITEMASK, 4), (GL_COMPRESSED_TEXTURE_FORMATS, num_compressed_texture_formats u),
     (GL_CULL_FACE, 1), (GL_CULL_FACE_MODE, 1), (GL_CURRENT_PROGRAM, 1), (GL_DEPTH_BITS, 1),
     (GL_DEPTH_CLEAR_VALUE, 1), (GL_DEPTH_FUNC, 1), (GL_DEPTH_RANGE, 2), (GL_DEPTH_TEST, 1),
     (GL_DEPTH_WRITEMASK, 1), (GL_DITHER, 1), (GL_ELEMENT_ARRAY_BUFFER_BINDING, 1),
     (GL_FRAMEBUFFER_BINDING, 1), (GL_FRONT_FACE, 1), (GL_GENERATE_MIPMAP_HINT, 1), (GL_GREEN_BITS, 1),
     (GL_IMPLEMENTATION_COLOR_READ_FORMAT, 1), (GL_IMPLEMENTATION_COLOR_READ_TYPE, 1), (GL_LINE_WIDTH, 1),
     (GL_MAX_COMBINED_TEXTURE_IMAGE_UNITS, 1), (GL_MAX_CUBE_MAP_TEXTURE_SIZE, 1),
     (GL_MAX_FRAGMENT_UNIFORM_VECTORS, 1), (GL_MAX_RENDERBUFFER_SIZE, 1), (GL_MAX_TEXTURE_IMAGE_UNITS, 1),
     (GL_MAX_TEXTURE_SIZE, 1), (GL_MAX_VARYING_VECTORS, 1), (GL_MAX_VERTEX_ATTRIBS, 1),
     (GL_MAX_VERTEX_TEXTURE_IMAGE_UNITS, 1), (GL_MAX_VERTEX_UNIFORM_VECTORS, 1), (GL_MAX_VIEWPORT_DIMS, 2),
     (GL_NUM_COMPRESSED_TEXTURE_FORMATS, 1), (GL_NUM_SHADER_BINARY_FORMATS, 1), (GL_PACK_ALIGNMENT, 1),
     (GL_PACK_REVERSE_ROW_ORDER_ANGLE, 1), (GL_POLYGON_OFFSET_FACTOR, 1), (GL_POLYGON_OFFSET_FILL, 1),
     (GL_POLYGON_OFFSET_UNITS, 1), (GL_RED_BITS, 1), (GL_RENDERBUFFER_BINDING, 1), (GL_SAMPLE_BUFFERS, 1),
     (GL_SAMPLE_COVERAGE_INVERT, 1), (GL_SAMPLE_COVERAGE_VALUE, 1), (GL_SAMPLES, 1), (GL_SCISSOR_BOX, 4),
     (GL_SCISSOR_TEST, 1), (GL_SHADER_BINARY_FORMATS, num_shader_binary_formats u), (GL_SHADER_COMPILER, 1),
     (GL_STENCIL_BACK_FAIL, 1), (GL_STENCIL_BACK_FUNC, 1), (GL_STENCIL_BACK_PASS_DEPTH_FAIL, 1),
     (GL_STENCIL_BACK_PASS_DEPTH_PASS, 1), (GL_STENCIL_BACK_REF, 1), (GL_STENCIL_BACK_VALUE_MASK, 1),
     (GL_STENCIL_BACK_WRITEMASK, 1), (GL_STENCIL_BITS, 1), (GL_STENCIL_CLEAR_VALUE, 1), (GL_STENCIL_FAIL, 1),
     (GL_STENCIL_FUNC, 1), (GL_STENCIL_PASS_DEPTH_FAIL, 1), (GL_STENCIL_PASS_DEPTH_PASS, 1),
     (GL_STENCIL_REF, 1), (GL_STENCIL_TEST, 1), (GL_STENCIL_VALUE_MASK, 1), (GL_STENCIL_WRITEMASK, 1),
     (GL_SUBPIXEL_BITS, 1), (GL_TEXTURE_BINDING_2D, 1), (GL_TEXTURE_BINDING_CUBE_MAP, 1),
     (GL_TEXTURE_BINDING_EXTERNAL_OES, 1), (GL_TEXTURE_BINDING_RECTANGLE_ARB, 1),
     (GL_TEXTURE_IMMUTABLE_FORMAT_EXT, 1), (GL_UNPACK_ALIGNMENT, 1), (GL_VIEWPORT, 4), (GL_MAX_SAMPLES_EXT, 1),
     (GL_MAX_TEXTURE_MAX_ANISOTROPY_EXT, 1), (GL_BUFFER_SIZE, 1), (GL_BUFFER_USAGE, 1),
     (GL_FRAMEBUFFER_ATTACHMENT_OBJECT_TYPE, 1), (GL_FRAMEBUFFER_ATTACHMENT_OBJECT_NAME, 1),
     (GL_FRAMEBUFFER_ATTACHMENT_TEXTURE_LEVEL, 1), (GL_FRAMEBUFFER_ATTACHMENT_TEXTURE_CUBE_MAP_FACE, 1),
     (GL_FRAMEBUFFER_ATTACHMENT_TEXTURE_SAMPLES_EXT, 1), (GL_DELETE_STATUS, 1), (GL_LINK_STATUS, 1),
     (GL_VALIDATE_STATUS, 1), (GL_INFO_LOG_LENGTH, 1), (GL_ATTACHED_SHADERS, 1), (GL_ACTIVE_ATTRIBUTES, 1),
     (GL_ACTIVE_ATTRIBUTE_MAX_LENGTH, 1), (GL_ACTIVE_UNIFORMS, 1), (GL_ACTIVE_UNIFORM_MAX_LENGTH, 1),
     (GL_RENDERBUFFER_WIDTH, 1), (GL_RENDERBUFFER_HEIGHT, 1), (GL_RENDERBUFFER_INTERNAL_FORMAT, 1),
     (GL_RENDERBUFFER_RED_SIZE, 1), (GL_RENDERBUFFER_GREEN_SIZE, 1), (GL_RENDERBUFFER_BLUE_SIZE, 1),
     (GL_RENDERBUFFER_ALPHA_SIZE, 1), (GL_RENDERBUFFER_DEPTH_SIZE, 1), (GL_RENDERBUFFER_STENCIL_SIZE, 1),
     (GL_RENDERBUFFER_SAMPLES_EXT, 1), (GL_SHADER_TYPE, 1), (GL_COMPILE_STATUS, 1),
     (GL_SHADER_SOURCE_LENGTH, 1), (GL_TRANSLATED_SHADER_SOURCE_LENGTH_ANGLE, 1), (GL_TEXTURE_MAG_FILTER, 1),
     (GL_TEXTURE_MIN_FILTER, 1), (GL_TEXTURE_WRAP_S, 1), (GL_TEXTURE_WRAP_T, 1),
     (GL_TEXTURE_MAX_ANISOTROPY_EXT, 1), (GL_VERTEX_ATTRIB_ARRAY_BUFFER_BINDING, 1),
     (GL_VERTEX_ATTRIB_ARRAY_ENABLED, 1), (GL_VERTEX_ATTRIB_ARRAY_SIZE, 1), (GL_VERTEX_ATTRIB_ARRAY_STRIDE, 1),
     (GL_VERTEX_ATTRIB_ARRAY_TYPE, 1), (GL_VERTEX_ATTRIB_ARRAY_NORMALIZED, 1), (GL_CURRENT_VERTEX_ATTRIB, 4),
     (GL_FRAGMENT_SHADER_DERIVATIVE_HINT_OES, 1)]"

definition GLGetNumValuesReturned :: "GLES2Util \<Rightarrow> u32 \<Rightarrow> u32" where
  "GLGetNumValuesReturned u i = (case map_of (num_values_table u) i of None \<Rightarrow> 0 | Some n \<Rightarrow> n)"

definition ElementsPerGroup :: "u32 \<Rightarrow> u32 \<Rightarrow> u32" where
  "ElementsPerGroup format type =
     (if type \<in> {GL_UNSIGNED_SHORT_5_6_5, GL_UNSIGNED_SHORT_4_4_4_4, GL_UNSIGNED_SHORT_5_5_5_1, GL_UNSIGNED_INT_24_8_OES}
      then 1
      else if format = GL_RGB then 3
      else if format = GL_LUMINANCE_ALPHA then 2
      else if format \<in> {GL_RGBA, GL_BGRA_EXT} then 4
      else if format \<in> {GL_ALPHA, GL_LUMINANCE, GL_DEPTH_COMPONENT, GL_DEPTH_COMPONENT24_OES, GL_DEPTH_COMPONENT32_OES,
                 GL_DEPTH_COMPONENT16, GL_DEPTH24_STENCIL8_OES, GL_DEPTH_STENCIL_OES} then 1
      else 0)"

definition BytesPerElement :: "u32 \<Rightarrow> u32" where
  "BytesPerElement type =
     (if type \<in> {GL_FLOAT, GL_UNSIGNED_INT_24_8_OES, GL_UNSIGNED_INT} then 4
      else if type \<in> {GL_HALF_FLOAT_OES, GL_UNSIGNED_SHORT, GL_SHORT, GL_UNSIGNED_SHORT_5_6_5, GL_UNSIGNED_SHORT_4_4_4_4,
                 GL_UNSIGNED_SHORT_5_5_5_1} then 2
      else if type \<in> {GL_UNSIGNED_BYTE, GL_BYTE} then 1
      else 0)"

definition ComputeImageGroupSize :: "u32 \<Rightarrow> u32 \<Rightarrow> u32" where
  "ComputeImageGroupSize format type = BytesPerElement type * ElementsPerGroup format type"

text \<open>\<open>temp / unpack_alignment\<close> is a division of unsigned integers, because \<open>temp\<close> is one.\<close>

definition ComputeImagePaddedRowSize :: "u32 \<Rightarrow> u32 \<Rightarrow> u32 \<Rightarrow> u32 \<Rightarrow> u32 option option" where
  "ComputeImagePaddedRowSize width format type unpack_alignment =
     (let bytes_per_group = ComputeImageGroupSize format type;
          (ok, unpadded_row_size) = SafeMultiplyUint32 width bytes_per_group
      in if \<not> ok then Some None
         else
           let (ok, temp) = SafeAddUint32 unpadded_row_size (unpack_alignment - 1)
           in if \<not> ok then Some None
              else do {
                dcheck (unpack_alignment \<noteq> 0);
                Some (Some (temp div unpack_alignment * unpack_alignment))
              })"

text \<open>The results are \<open>size\<close>, the unpadded and the padded size of a row.\<close>

definition ComputeImageDataSizes ::
  "u32 \<Rightarrow> u32 \<Rightarrow> u32 \<Rightarrow> u32 \<Rightarrow> u32 \<Rightarrow> (u32 \<times> u32 \<times> u32) option option" where
  "ComputeImageDataSizes width height format type unpack_alignment =
     (let bytes_per_group = ComputeImageGroupSize format type;
          (ok, row_size) = SafeMultiplyUint32 width bytes_per_group
      in if \<not> ok then Some None
         else if 1 < sint height then
           let (ok, temp) = SafeAddUint32 row_size (unpack_alignment - 1)
           in if \<not> ok then Some None
              else do {
                dcheck (unpack_alignment \<noteq> 0);
                let padded_row_size = temp div unpack_alignment * unpack_alignment;
                let (ok, size_of_all_but_last_row) = SafeMultiplyUint32 (height - 1) padded_row_size;
                if \<not> ok then Some None
                else
                  let (ok, sz) = SafeAddUint32 size_of_all_but_last_row row_size
                  in if \<not> ok then Some None else Some (Some (sz, row_size, padded_row_size))
              }
         else
           let (ok, sz) = SafeMultiplyUint32 height row_size
           in if \<not> ok then Some None else Some (Some (sz, row_size, row_size)))"

definition RenderbufferBytesPerPixel :: "u32 \<Rightarrow> u64" where
  "RenderbufferBytesPerPixel format =
     (if format = GL_STENCIL_INDEX8 then 1
      else if format \<in> {GL_RGBA4, GL_RGB565, GL_RGB5_A1, GL_DEPTH_COMPONENT16} then 2
      else if format \<in> {GL_RGB, GL_RGBA, GL_DEPTH24_STENCIL8_OES, GL_RGB8_OES, GL_RGBA8_OES, GL_DEPTH_COMPONENT24_OES} then 4
      else 0)"

definition GetGLDataTypeSizeForUniforms :: "u32 \<Rightarrow> u32" where
  "GetGLDataTypeSizeForUniforms type =
     (if type \<in> {GL_FLOAT, GL_INT, GL_BOOL, GL_SAMPLER_2D, GL_SAMPLER_2D_RECT_ARB, GL_SAMPLER_CUBE, GL_SAMPLER_EXTERNAL_OES}
      then 4
      else if type \<in> {GL_FLOAT_VEC2, GL_INT_VEC2, GL_BOOL_VEC2} then 4 * 2
      else if type \<in> {GL_FLOAT_VEC3, GL_INT_VEC3, GL_BOOL_VEC3} then 4 * 3
      else if type \<in> {GL_FLOAT_VEC4, GL_INT_VEC4, GL_BOOL_VEC4} then 4 * 4
      else if type = GL_FLOAT_MAT2 then 4 * 2 * 2
      else if type = GL_FLOAT_MAT3 then 4 * 3 * 3
      else if type = GL_FLOAT_MAT4 then 4 * 4 * 4
      else 0)"

definition GetGLTypeSizeForTexturesAndBuffers :: "u32 \<Rightarrow> u64" where
  "GetGLTypeSizeForTexturesAndBuffers type =
     (if type \<in> {GL_BYTE, GL_UNSIGNED_BYTE} then 1
      else if type \<in> {GL_SHORT, GL_UNSIGNED_SHORT} then 2
      else if type \<in> {GL_INT, GL_UNSIGNED_INT, GL_FLOAT, GL_FIXED} then 4
      else 0)"

subsection \<open>Errors, faces and channels\<close>

definition GLErrorToErrorBit :: "u32 \<Rightarrow> u32 option" where
  "GLErrorToErrorBit error =
     (if error = GL_INVALID_ENUM then Some 1
      else if error = GL_INVALID_VALUE then Some 2
      else if error = GL_INVALID_OPERATION then Some 4
      else if error = GL_OUT_OF_MEMORY then Some 8
      else if error = GL_INVALID_FRAMEBUFFER_OPERATION then Some 16
      else None)"

definition GLErrorBitToGLError :: "u32 \<Rightarrow> u32 option" where
  "GLErrorBitToGLError error_bit =
     (if error_bit = 1 then Some GL_INVALID_ENUM
      else if error_bit = 2 then Some GL_INVALID_VALUE
      else if error_bit = 4 then Some GL_INVALID_OPERATION
      else if error_bit = 8 then Some GL_OUT_OF_MEMORY
      else if error_bit = 16 then Some GL_INVALID_FRAMEBUFFER_OPERATION
      else None)"

definition IndexToGLFaceTarget :: "u32 \<Rightarrow> u32 option" where
  "IndexToGLFaceTarget index = do {
     let faces = [GL_TEXTURE_CUBE_MAP_POSITIVE_X, GL_TEXTURE_CUBE_MAP_NEGATIVE_X, GL_TEXTURE_CUBE_MAP_POSITIVE_Y,
                  GL_TEXTURE_CUBE_MAP_NEGATIVE_Y, GL_TEXTURE_CUBE_MAP_POSITIVE_Z, GL_TEXTURE_CUBE_MAP_NEGATIVE_Z];
     dcheck (0 \<le> sint index \<and> unat index < length faces);
     Some (faces ! unat index)
   }"

abbreviation (input) kAlpha :: u32 where "kAlpha \<equiv> 0x8"

abbreviation (input) kDepth :: u32 where "kDepth \<equiv> 0x10000"

abbreviation (input) kStencil :: u32 where "kStencil \<equiv> 0x20000"

abbreviation (input) kRGB :: u32 where "kRGB \<equiv> 0x7"

abbreviation (input) kRGBA :: u32 where "kRGBA \<equiv> 0xF"

definition GetChannelsForFormat :: "u32 \<Rightarrow> u32" where
  "GetChannelsForFormat format =
     (if format \<in> {GL_ALPHA, GL_ALPHA16F_EXT, GL_ALPHA32F_EXT} then kAlpha
      else if format = GL_LUMINANCE then kRGB
      else if format = GL_LUMINANCE_ALPHA then kRGBA
      else if format \<in> {GL_RGB, GL_RGB8_OES, GL_RGB565, GL_RGB16F_EXT, GL_RGB32F_EXT} then kRGB
      else if format \<in> {GL_BGRA_EXT, GL_BGRA8_EXT, GL_RGBA16F_EXT, GL_RGBA32F_EXT, GL_RGBA, GL_RGBA8_OES, GL_RGBA4,
                 GL_RGB5_A1} then kRGBA
      else if format \<in> {GL_DEPTH_COMPONENT32_OES, GL_DEPTH_COMPONENT24_OES, GL_DEPTH_COMPONENT16, GL_DEPTH_COMPONENT}
      then kDepth
      else if format = GL_STENCIL_INDEX8 then kStencil
      else if format \<in> {GL_DEPTH_STENCIL_OES, GL_DEPTH24_STENCIL8_OES} then kDepth OR kStencil
      else 0)"

definition GetChannelsNeededForAttachmentType :: "u32 \<Rightarrow> u32 \<Rightarrow> u32" where
  "GetChannelsNeededForAttachmentType type max_color_attachments =
     (if type = GL_DEPTH_ATTACHMENT then kDepth
      else if type = GL_STENCIL_ATTACHMENT then kStencil
      else if sint GL_COLOR_ATTACHMENT0 \<le> sint type \<and> sint type < sint (GL_COLOR_ATTACHMENT0 + max_color_attachments)
      then kRGBA
      else 0)"

definition IsNPOT :: "u32 \<Rightarrow> bool" where
  "IsNPOT value \<longleftrightarrow> 0 < value \<and> value AND (value - 1) \<noteq> 0"

subsection \<open>Names\<close>

text \<open>\<open>"%04x"\<close> and \<open>"%08x"\<close>: \<open>n\<close> digits, the lowest last.\<close>

definition hex_digits :: "nat \<Rightarrow> u32 \<Rightarrow> string" where
  "hex_digits n v = map (\<lambda>i. ''0123456789abcdef'' ! unat (drop_bit (4 * i) v AND 0xF)) (rev [0..<n])"

definition GetStringEnum :: "(u32 \<times> string) list \<Rightarrow> u32 \<Rightarrow> string" where
  "GetStringEnum enum_to_string_table value =
     (case map_of enum_to_string_table value of
        Some name \<Rightarrow> name
      | None \<Rightarrow> ''0x'' @ hex_digits (if value < 0x10000 then 4 else 8) value)"

definition GetQualifiedEnumString :: "(u32 \<times> string) list \<Rightarrow> (u32 \<times> string) list \<Rightarrow> u32 \<Rightarrow> string" where
  "GetQualifiedEnumString enum_to_string_table table value =
     (case map_of table value of Some name \<Rightarrow> name | None \<Rightarrow> GetStringEnum enum_to_string_table value)"

definition GetStringError :: "(u32 \<times> string) list \<Rightarrow> u32 \<Rightarrow> string" where
  "GetStringError enum_to_string_table value =
     GetQualifiedEnumString enum_to_string_table [(GL_NONE, ''GL_NONE'')] value"

definition GetStringBool :: "u32 \<Rightarrow> string" where
  "GetStringBool value = (if value \<noteq> 0 then ''GL_TRUE'' else ''GL_FALSE'')"

definition find_last_of :: "char \<Rightarrow> string \<Rightarrow> nat option" where
  "find_last_of c s = map_option (\<lambda>j. length s - 1 - j) (find_index (\<lambda>d. d = c) (rev s))"

text \<open>The loop over the digits; the character minus \<open>'0'\<close> is cut to 8 bits, and the index wraps around.\<close>

fun uniform_index :: "string \<Rightarrow> u32 \<Rightarrow> u32 option" where
  "uniform_index [] index = Some index"
| "uniform_index (c # cs) index =
     (let digit = (of_char c :: byte) - 48 in
      if sint digit < 0 \<or> 9 < sint digit then None
      else uniform_index cs (index * 10 + scast digit))"

definition ParseUniformName :: "string \<Rightarrow> (nat option \<times> u32 \<times> bool) option option" where
  "ParseUniformName name = do {
     dcheck (name \<noteq> []);
     if name ! (length name - 1) = CHR '']'' then
       if length name < 3 then Some None
       else
         case find_last_of (CHR ''['') name of
           None \<Rightarrow> Some None
         | Some open_pos \<Rightarrow>
             if length name - 2 \<le> open_pos then Some None
             else
               let last = length name - 1 in
               case uniform_index (take (last - (open_pos + 1)) (drop (open_pos + 1) name)) 0 of
                 None \<Rightarrow> Some None
               | Some index \<Rightarrow> Some (Some (Some open_pos, index, True))
     else Some (Some (None, 0, False))
   }"

subsection \<open>Attributes of a context\<close>

record ContextCreationAttribHelper =
  alpha_size :: u32
  blue_size :: u32
  green_size :: u32
  red_size :: u32
  depth_size :: u32
  stencil_size :: u32
  samples :: u32
  sample_buffers :: u32
  buffer_preserved :: bool
  share_resources :: bool
  bind_generates_resource :: bool

abbreviation (input) kAlphaSize :: u32 where "kAlphaSize \<equiv> 0x3021"

abbreviation (input) kBlueSize :: u32 where "kBlueSize \<equiv> 0x3022"

abbreviation (input) kGreenSize :: u32 where "kGreenSize \<equiv> 0x3023"

abbreviation (input) kRedSize :: u32 where "kRedSize \<equiv> 0x3024"

abbreviation (input) kDepthSize :: u32 where "kDepthSize \<equiv> 0x3025"

abbreviation (input) kStencilSize :: u32 where "kStencilSize \<equiv> 0x3026"

abbreviation (input) kSamples :: u32 where "kSamples \<equiv> 0x3031"

abbreviation (input) kSampleBuffers :: u32 where "kSampleBuffers \<equiv> 0x3032"

abbreviation (input) kNone :: u32 where "kNone \<equiv> 0x3038"

abbreviation (input) kSwapBehavior :: u32 where "kSwapBehavior \<equiv> 0x3093"

abbreviation (input) kBufferPreserved :: u32 where "kBufferPreserved \<equiv> 0x3094"

abbreviation (input) kBufferDestroyed :: u32 where "kBufferDestroyed \<equiv> 0x3095"

abbreviation (input) kShareResources :: u32 where "kShareResources \<equiv> 0x10000"

abbreviation (input) kBindGeneratesResource :: u32 where "kBindGeneratesResource \<equiv> 0x10001"

definition ContextCreationAttribHelper_new :: ContextCreationAttribHelper where
  "ContextCreationAttribHelper_new =
     \<lparr>alpha_size = - 1, blue_size = - 1, green_size = - 1, red_size = - 1, depth_size = - 1, stencil_size = - 1,
      samples = - 1, sample_buffers = - 1, buffer_preserved = True, share_resources = False,
      bind_generates_resource = True\<rparr>"

definition push_attrib :: "u32 \<Rightarrow> u32 \<Rightarrow> u32 list" where
  "push_attrib key value = (if value \<noteq> - 1 then [key, value] else [])"

definition Attrib_Serialize :: "ContextCreationAttribHelper \<Rightarrow> u32 list \<Rightarrow> u32 list" where
  "Attrib_Serialize a attribs =
     attribs @ push_attrib kAlphaSize (alpha_size a) @ push_attrib kBlueSize (blue_size a) @
     push_attrib kGreenSize (green_size a) @ push_attrib kRedSize (red_size a) @
     push_attrib kDepthSize (depth_size a) @ push_attrib kStencilSize (stencil_size a) @
     push_attrib kSamples (samples a) @ push_attrib kSampleBuffers (sample_buffers a) @
     [kSwapBehavior, if buffer_preserved a then kBufferPreserved else kBufferDestroyed,
      kShareResources, if share_resources a then 1 else 0,
      kBindGeneratesResource, if bind_generates_resource a then 1 else 0, kNone]"

text \<open>One round of the switch of \<open>Parse\<close>, for an attribute other than \<open>kNone\<close>; \<^const>\<open>None\<close> is the default case.\<close>

definition parse_attrib :: "u32 \<Rightarrow> u32 \<Rightarrow> ContextCreationAttribHelper \<Rightarrow> ContextCreationAttribHelper option" where
  "parse_attrib attrib value a =
     (if attrib = kAlphaSize then Some (a\<lparr>alpha_size := value\<rparr>)
      else if attrib = kBlueSize then Some (a\<lparr>blue_size := value\<rparr>)
      else if attrib = kGreenSize then Some (a\<lparr>green_size := value\<rparr>)
      else if attrib = kRedSize then Some (a\<lparr>red_size := value\<rparr>)
      else if attrib = kDepthSize then Some (a\<lparr>depth_size := value\<rparr>)
      else if attrib = kStencilSize then Some (a\<lparr>stencil_size := value\<rparr>)
      else if attrib = kSamples then Some (a\<lparr>samples := value\<rparr>)
      else if attrib = kSampleBuffers then Some (a\<lparr>sample_buffers := value\<rparr>)
      else if attrib = kSwapBehavior then Some (a\<lparr>buffer_preserved := (value = kBufferPreserved)\<rparr>)
      else if attrib = kShareResources then Some (a\<lparr>share_resources := (value \<noteq> 0)\<rparr>)
      else if attrib = kBindGeneratesResource then Some (a\<lparr>bind_generates_resource := (value \<noteq> 0)\<rparr>)
      else None)"

fun Attrib_Parse :: "u32 list \<Rightarrow> ContextCreationAttribHelper \<Rightarrow> bool \<times> ContextCreationAttribHelper" where
  "Attrib_Parse [] a = (True, a)"
| "Attrib_Parse [attrib] a = (attrib = kNone, a)"
| "Attrib_Parse (attrib # value # attribs) a =
     (if attrib = kNone then (True, a)
      else case parse_attrib attrib value a of
             None \<Rightarrow> (False, a)
           | Some a' \<Rightarrow> Attrib_Parse attribs a')"

subsection \<open>Lemmas\<close>

lemma SafeMultiplyUint32_exact:
  "SafeMultiplyUint32 a b =
     (if unat a * unat b < 2 ^ 32 then (True, of_nat (unat a * unat b)) else (False, 0))"
proof (cases "b = 0")
  case False
  then have b: "0 < unat b" by (simp add: unat_gt_0)
  have v: "unat (a * b) = unat a * unat b mod 2 ^ 32" by (simp add: unat_word_ariths)
  have d: "unat (a * b div b) = (unat a * unat b mod 2 ^ 32) div unat b" using v by (simp add: unat_div)
  show ?thesis
  proof (cases "unat a * unat b < 2 ^ 32")
    case True
    then have "unat (a * b div b) = unat a" using d b by simp
    then have "a * b div b = a" by (simp add: word_unat_eq_iff)
    with False True show ?thesis by (simp add: SafeMultiplyUint32_def Let_def)
  next
    case over: False
    have "unat a * unat b mod 2 ^ 32 < unat a * unat b" using over by (simp add: not_less mod_less_divisor less_le_trans)
    then have "unat (a * b div b) < unat a" using d b by (simp add: less_mult_imp_div_less)
    then have "a * b div b \<noteq> a" by auto
    with False over show ?thesis by (simp add: SafeMultiplyUint32_def Let_def)
  qed
qed (simp add: SafeMultiplyUint32_def)

lemma SafeAddUint32_exact:
  "SafeAddUint32 a b = (if unat a + unat b < 2 ^ 32 then (True, of_nat (unat a + unat b)) else (False, 0))"
proof -
  have lt: "unat a < 2 ^ 32" "unat b < 2 ^ 32" using unsigned_less [of a] unsigned_less [of b] by simp_all
  have u: "unat (a + b) = (unat a + unat b) mod 2 ^ 32" by (simp add: unat_word_ariths)
  have "a + b < a \<longleftrightarrow> \<not> unat a + unat b < 2 ^ 32"
  proof (cases "unat a + unat b < 2 ^ 32")
    case True
    then have "unat (a + b) = unat a + unat b" using u by simp
    with True show ?thesis by (simp add: word_less_nat_alt)
  next
    case False
    then have "(unat a + unat b) mod 2 ^ 32 = unat a + unat b - 2 ^ 32"
      using lt by (subst le_mod_geq) (simp, rule mod_less, linarith)
    with False lt u show ?thesis unfolding word_less_nat_alt by linarith
  qed
  then show ?thesis by (simp add: SafeAddUint32_def)
qed

lemma unat_of_nat_u32: "n < 2 ^ 32 \<Longrightarrow> unat (of_nat n :: u32) = n"
  by (simp add: unsigned_of_nat take_bit_nat_eq_self)

lemma height_cases:
  assumes "0 \<le> sint (h :: u32)"
  shows "1 < sint h \<longleftrightarrow> 1 < unat h" "1 < unat h \<Longrightarrow> unat (h - 1) = unat h - 1"
proof -
  have "unat h < 2 ^ 31" using assms sint_nonneg_u32_iff [of h] by simp
  then have "sint h = int (unat h)" by (rule sint_nonneg_u32)
  then show "1 < sint h \<longleftrightarrow> 1 < unat h" by linarith
  show "unat (h - 1) = unat h - 1" if "1 < unat h" using that by (subst unat_sub_le) simp_all
qed

text \<open>The sizes as numbers: a row, a padded row, the whole image.\<close>

definition row_bytes :: "u32 \<Rightarrow> u32 \<Rightarrow> u32 \<Rightarrow> nat" where
  "row_bytes width format type = unat width * unat (ComputeImageGroupSize format type)"

definition padded_bytes :: "nat \<Rightarrow> nat \<Rightarrow> nat" where
  "padded_bytes a row = (row + (a - 1)) div a * a"

definition image_bytes :: "nat \<Rightarrow> nat \<Rightarrow> nat \<Rightarrow> nat" where
  "image_bytes h a row = (if 1 < h then (h - 1) * padded_bytes a row + row else h * row)"

lemma padded_bytes_le: "padded_bytes a row \<le> row + (a - 1)"
  by (simp add: padded_bytes_def)

lemma padded_bytes_ge: "0 < a \<Longrightarrow> row \<le> padded_bytes a row"
proof -
  assume a: "0 < a"
  have "(row + (a - 1)) mod a < a" using a by simp
  moreover have "(row + (a - 1)) div a * a + (row + (a - 1)) mod a = row + (a - 1)" by simp
  ultimately show ?thesis unfolding padded_bytes_def by linarith
qed

lemma padded_word:
  assumes "0 < unat a" "row + (unat a - 1) < 2 ^ 32"
  shows "unat (of_nat (row + (unat a - 1)) div a * a :: u32) = padded_bytes (unat a) row"
proof -
  have "unat (of_nat (row + (unat a - 1)) div a :: u32) = (row + (unat a - 1)) div unat a"
    using unat_of_nat_u32 [OF assms(2)] by (simp add: unat_div)
  moreover have "(row + (unat a - 1)) div unat a * unat a < 2 ^ 32"
    using padded_bytes_le [of "unat a" row] assms(2) unfolding padded_bytes_def by linarith
  ultimately show ?thesis by (simp add: unat_word_ariths padded_bytes_def)
qed

text \<open>
  C27. \<open>ComputeImageDataSizes\<close> is exact: for a height that is not negative and any alignment but 0 it succeeds if and only if the size of
  a row, the row with its padding (for more than one row) and the whole image are below \<open>2 ^ 32\<close>, and then its results are these
  numbers; no multiplication or addition wraps around unnoticed.
\<close>

theorem ComputeImageDataSizes_exact:
  assumes "0 \<le> sint height" "unpack_alignment \<noteq> 0"
  shows "ComputeImageDataSizes width height format type unpack_alignment =
    (let row = row_bytes width format type; a = unat unpack_alignment; h = unat height in
     Some (if row < 2 ^ 32 \<and> (1 < h \<longrightarrow> row + (a - 1) < 2 ^ 32) \<and> image_bytes h a row < 2 ^ 32
           then Some (of_nat (image_bytes h a row), of_nat row, of_nat (if 1 < h then padded_bytes a row else row))
           else None))"
proof -
  let ?row = "row_bytes width format type" and ?a = "unat unpack_alignment" and ?h = "unat height"
  have a: "0 < ?a" using assms(2) by (simp add: unat_gt_0)
  have a1: "unat (unpack_alignment - 1) = ?a - 1" using a by (subst unat_sub_le) simp_all
  have row: "SafeMultiplyUint32 width (ComputeImageGroupSize format type) =
      (if ?row < 2 ^ 32 then (True, of_nat ?row) else (False, 0))"
    by (simp add: SafeMultiplyUint32_exact row_bytes_def)
  show ?thesis
  proof (cases "?row < 2 ^ 32")
    case True
    note ur = unat_of_nat_u32 [OF True]
    have add: "SafeAddUint32 (of_nat ?row) (unpack_alignment - 1) =
        (if ?row + (?a - 1) < 2 ^ 32 then (True, of_nat (?row + (?a - 1))) else (False, 0))"
      by (simp only: SafeAddUint32_exact ur a1)
    show ?thesis
    proof (cases "1 < ?h")
      case h: True
      show ?thesis
      proof (cases "?row + (?a - 1) < 2 ^ 32")
        case t: True
        define pad where "pad = (of_nat (?row + (?a - 1)) div unpack_alignment * unpack_alignment :: u32)"
        have up: "unat pad = padded_bytes ?a ?row" unfolding pad_def by (rule padded_word [OF a t])
        have mul: "SafeMultiplyUint32 (height - 1) pad = (if (?h - 1) * padded_bytes ?a ?row < 2 ^ 32
            then (True, of_nat ((?h - 1) * padded_bytes ?a ?row)) else (False, 0))"
          by (simp only: SafeMultiplyUint32_exact up height_cases(2) [OF assms(1) h])
        have "SafeAddUint32 (of_nat ((?h - 1) * padded_bytes ?a ?row)) (of_nat ?row) =
            (if image_bytes ?h ?a ?row < 2 ^ 32 then (True, of_nat (image_bytes ?h ?a ?row)) else (False, 0))"
          if "(?h - 1) * padded_bytes ?a ?row < 2 ^ 32"
          using h by (simp only: SafeAddUint32_exact ur unat_of_nat_u32 [OF that] image_bytes_def if_True)
        moreover have "\<not> image_bytes ?h ?a ?row < 2 ^ 32" if "\<not> (?h - 1) * padded_bytes ?a ?row < 2 ^ 32"
          using that h by (simp add: image_bytes_def)
        moreover have "of_nat (padded_bytes ?a ?row) = pad" using up by (metis of_nat_unat ucast_id)
        moreover have "ComputeImageDataSizes width height format type unpack_alignment =
            (let (ok, rest) = SafeMultiplyUint32 (height - 1) pad in if \<not> ok then Some None
             else let (ok, sz) = SafeAddUint32 rest (of_nat ?row) in
               if \<not> ok then Some None else Some (Some (sz, of_nat ?row, pad)))"
          using row True h t add assms height_cases(1) [OF assms(1)]
          by (simp add: ComputeImageDataSizes_def Let_def pad_def split: prod.split)
        ultimately show ?thesis
          using True h t unfolding mul Let_def by (auto simp del: of_nat_mult)
      next
        case t: False
        have "SafeAddUint32 (of_nat ?row) (unpack_alignment - 1) = (False, 0)" unfolding add using t by (simp only: if_False)
        with row True h t height_cases(1) [OF assms(1)] show ?thesis
          by (simp add: ComputeImageDataSizes_def Let_def del: Nat.add_diff_assoc Nat.diff_diff_right)
      qed
    next
      case h: False
      have "SafeMultiplyUint32 height (of_nat ?row) =
          (if image_bytes ?h ?a ?row < 2 ^ 32 then (True, of_nat (image_bytes ?h ?a ?row)) else (False, 0))"
        using h by (simp only: SafeMultiplyUint32_exact ur image_bytes_def if_False)
      with row True h height_cases(1) [OF assms(1)] show ?thesis by (simp add: ComputeImageDataSizes_def Let_def)
    qed
  qed (use row in \<open>simp add: ComputeImageDataSizes_def Let_def\<close>)
qed

theorem ComputeImageDataSizes_exact_witness:
  "ComputeImageDataSizes 3 2 GL_RGB GL_UNSIGNED_BYTE 4 = Some (Some (21, 9, 12)) \<and>
   ComputeImageDataSizes 0x40000000 2 GL_RGBA GL_UNSIGNED_BYTE 4 = Some None"
  using ComputeImageDataSizes_exact [of 2 4 3 GL_RGB GL_UNSIGNED_BYTE]
    ComputeImageDataSizes_exact [of 2 4 "0x40000000" GL_RGBA GL_UNSIGNED_BYTE]
  by (simp add: Let_def row_bytes_def ComputeImageGroupSize_def BytesPerElement_def ElementsPerGroup_def image_bytes_def
      padded_bytes_def)

text \<open>
  C28. The size that \<open>ComputeImageDataSizes\<close> reports covers every pixel: with rows at multiples of the padded row size, pixel \<open>x\<close> of row
  \<open>y\<close> of an image of the given width and height ends inside \<open>size\<close> bytes, and rows do not overlap.
\<close>

theorem image_pixels_in_bounds:
  assumes "0 \<le> sint height" "unpack_alignment \<noteq> 0" "x < unat width" "y < unat height"
    and "ComputeImageDataSizes width height format type unpack_alignment = Some (Some (sz, row, padded))"
  shows "y * unat padded + (x + 1) * unat (ComputeImageGroupSize format type) \<le> unat sz \<and> unat row \<le> unat padded"
proof -
  let ?row = "row_bytes width format type" and ?a = "unat unpack_alignment" and ?h = "unat height"
  let ?g = "unat (ComputeImageGroupSize format type)"
  have a: "0 < ?a" using assms(2) by (simp add: unat_gt_0)
  from assms(5) have c: "?row < 2 ^ 32" "1 < ?h \<longrightarrow> ?row + (?a - 1) < 2 ^ 32" "image_bytes ?h ?a ?row < 2 ^ 32"
    and r: "sz = of_nat (image_bytes ?h ?a ?row)" "row = of_nat ?row"
      "padded = of_nat (if 1 < ?h then padded_bytes ?a ?row else ?row)"
    unfolding ComputeImageDataSizes_exact [OF assms(1,2)] Let_def by (auto split: if_splits)
  have sz: "unat sz = image_bytes ?h ?a ?row" and rw: "unat row = ?row" using c r unat_of_nat_u32 by simp_all
  have pad: "unat padded = (if 1 < ?h then padded_bytes ?a ?row else ?row)"
    using c r(3) padded_bytes_le [of ?a ?row] unat_of_nat_u32 [of "padded_bytes ?a ?row"] unat_of_nat_u32 [OF c(1)]
    by (auto split: if_splits)
  have px: "(x + 1) * ?g \<le> ?row" using assms(3) unfolding row_bytes_def by (intro mult_le_mono1) simp
  show ?thesis
  proof (cases "1 < ?h")
    case True
    have "y * padded_bytes ?a ?row \<le> (?h - 1) * padded_bytes ?a ?row" using assms(4) by (intro mult_le_mono1) simp
    from add_mono [OF this px] True sz rw pad padded_bytes_ge [OF a] show ?thesis by (simp only: image_bytes_def if_True)
  next
    case False
    then have "y = 0" "?h = 1" using assms(4) by simp_all
    with px sz rw pad show ?thesis by (simp add: image_bytes_def)
  qed
qed

theorem image_pixels_in_bounds_witness:
  "ComputeImageDataSizes 3 2 GL_RGB GL_UNSIGNED_BYTE 4 = Some (Some (21, 9, 12)) \<and> (1 * 12 + (2 + 1) * 3 :: nat) \<le> unat (21 :: u32)"
proof -
  have c: "ComputeImageDataSizes 3 2 GL_RGB GL_UNSIGNED_BYTE 4 = Some (Some (21, 9, 12))" by code_simp
  moreover have "unat (ComputeImageGroupSize GL_RGB GL_UNSIGNED_BYTE) = 3" by code_simp
  ultimately show ?thesis using image_pixels_in_bounds [OF _ _ _ _ c, of 2 1] by simp
qed

subsection \<open>Round trips\<close>

lemma Parse_push: "key \<noteq> kNone \<Longrightarrow> parse_attrib key value a = Some a' \<Longrightarrow>
   Attrib_Parse (push_attrib key value @ rest) a = Attrib_Parse rest (if value = - 1 then a else a')"
  by (simp add: push_attrib_def)

text \<open>
  The attributes of a context survive the trip to the service: parsing what \<open>Serialize\<close> writes into a fresh helper succeeds
  and gives back every attribute, those that are unspecified (-1) included.
\<close>

lemma attribs_roundtrip:
  "Attrib_Parse (Attrib_Serialize a []) ContextCreationAttribHelper_new = (True, a)"
  by (cases a) (simp add: Attrib_Serialize_def ContextCreationAttribHelper_new_def Parse_push parse_attrib_def)

text \<open>
  GL errors and their bits are converted into each other without loss, in both directions, and every other value is
  caught by the check of the code.
\<close>

lemma gl_error_bits_roundtrip:
  "GLErrorToErrorBit e = Some b \<longleftrightarrow> GLErrorBitToGLError b = Some e"
  by (auto simp: GLErrorToErrorBit_def GLErrorBitToGLError_def)

lemma power_interval: "0 < n \<Longrightarrow> \<exists>k. 2 ^ k \<le> n \<and> n < 2 ^ Suc k" for n :: nat
  using ex_power_ivl1 [of 2 n] by simp

lemma bit_unat_div: "bit (v :: u32) k \<longleftrightarrow> odd (unat v div 2 ^ k)"
proof -
  have "bit v k \<longleftrightarrow> bit (unat v) k" by (auto simp: bit_unsigned_iff dest: bit_imp_le_length)
  then show ?thesis by (simp add: bit_iff_odd)
qed

text \<open>
  \<open>IsNPOT\<close> tells exactly the numbers that are no power of two (and not 0).
\<close>

lemma IsNPOT_exact: "IsNPOT v \<longleftrightarrow> v \<noteq> 0 \<and> (\<forall>k. unat v \<noteq> 2 ^ k)"
proof (cases "v = 0")
  case False
  then have p: "0 < unat v" by (simp add: unat_gt_0)
  then obtain k where k: "2 ^ k \<le> unat v" "unat v < 2 ^ Suc k" using power_interval by blast
  have m1: "unat (v - 1) = unat v - 1" using p by (subst unat_sub_le) simp_all
  have "v AND (v - 1) = 0 \<longleftrightarrow> unat v = 2 ^ k"
  proof (cases "unat v = 2 ^ k")
    case True
    have "i = k" if "bit v i" for i
      using that True unfolding bit_unat_div by (auto simp: bit_exp_iff simp flip: bit_iff_odd)
    moreover have "\<not> bit (v - 1) k" unfolding bit_unat_div m1 True by simp
    ultimately have "bit v i \<Longrightarrow> \<not> bit (v - 1) i" for i by blast
    then have "v AND (v - 1) = 0" by (intro bit_word_eqI) (auto simp: bit_simps)
    with True show ?thesis by simp
  next
    case ne: False
    have "unat v div 2 ^ k = 1" "(unat v - 1) div 2 ^ k = 1" using k ne by (auto intro!: div_nat_eqI)
    then have "bit v k" "bit (v - 1) k" by (simp_all add: bit_unat_div m1)
    then have "bit (v AND (v - 1)) k" by (simp add: bit_and_iff)
    then have "v AND (v - 1) \<noteq> 0" by auto
    with ne show ?thesis by simp
  qed
  moreover have "(\<exists>j. unat v = 2 ^ j) \<longleftrightarrow> unat v = 2 ^ k"
  proof
    assume "\<exists>j. unat v = 2 ^ j"
    then obtain j where j: "unat v = 2 ^ j" by blast
    have "k \<le> j" "j < Suc k" using k unfolding j by (simp_all del: power_Suc)
    with j show "unat v = 2 ^ k" by simp
  qed blast
  ultimately show ?thesis using False by (auto simp: IsNPOT_def word_gt_0)
qed (simp add: IsNPOT_def)

subsection \<open>Names of uniforms\<close>

text \<open>The number that decimal digits denote, after digits that denote \<open>n\<close>.\<close>

fun decimal :: "nat \<Rightarrow> string \<Rightarrow> nat" where
  "decimal n [] = n"
| "decimal n (c # cs) = decimal (n * 10 + (of_char c - 48)) cs"

definition is_digit :: "char \<Rightarrow> bool" where
  "is_digit c \<longleftrightarrow> 48 \<le> (of_char c :: nat) \<and> (of_char c :: nat) \<le> 57"

lemma digit_table:
  "\<forall>n \<in> set [0..<256]. let d = (of_nat n :: byte) - 48 in
     ((sint d < 0 \<or> 9 < sint d) = (\<not> (48 \<le> n \<and> n \<le> 57))) \<and> (48 \<le> n \<and> n \<le> 57 \<longrightarrow> (scast d :: u32) = of_nat (n - 48))"
  by code_simp

lemma digit_of_char:
  fixes c :: char
  defines "d \<equiv> (of_char c :: byte) - 48"
  shows "(sint d < 0 \<or> 9 < sint d) \<longleftrightarrow> \<not> is_digit c" "is_digit c \<Longrightarrow> (scast d :: u32) = of_nat (of_char c - 48)"
proof -
  have m: "of_char c \<in> set [0..<256]" by (simp add: nat_of_char_less_256)
  have e: "(of_char c :: byte) = of_nat (of_char c)" by (rule of_nat_of_char [symmetric])
  from bspec [OF digit_table m]
  show "(sint d < 0 \<or> 9 < sint d) \<longleftrightarrow> \<not> is_digit c" "is_digit c \<Longrightarrow> (scast d :: u32) = of_nat (of_char c - 48)"
    unfolding d_def is_digit_def Let_def e by blast+
qed

lemma uniform_index_exact:
  "uniform_index ds (of_nat n) = (if \<forall>c \<in> set ds. is_digit c then Some (of_nat (decimal n ds)) else None)"
proof (induction ds arbitrary: n)
  case (Cons c ds)
  show ?case
  proof (cases "is_digit c")
    case True
    have "(of_nat n * 10 + of_nat (of_char c - 48) :: u32) = of_nat (n * 10 + (of_char c - 48))" by simp
    with True Cons.IH [of "n * 10 + (of_char c - 48)"] digit_of_char [of c] show ?thesis
      by (simp only: uniform_index.simps Let_def decimal.simps list.set ball_simps simp_thms if_False)
  qed (use digit_of_char(1) [of c] in \<open>simp add: Let_def\<close>)
qed simp

lemma find_index_append: "(\<forall>x \<in> set xs. \<not> p x) \<Longrightarrow> p y \<Longrightarrow> find_index p (xs @ y # ys) = Some (length xs)"
  by (induction xs) auto

lemma find_last_of_last: "c \<notin> set ys \<Longrightarrow> find_last_of c (xs @ c # ys) = Some (length xs)"
  by (simp add: find_last_of_def) (subst find_index_append; auto)

lemma find_last_of_cases:
  obtains "c \<notin> set s" "find_last_of c s = None"
  | xs ys where "s = xs @ c # ys" "c \<notin> set ys" "find_last_of c s = Some (length xs)"
proof (cases "c \<in> set s")
  case True
  then obtain xs ys where "s = xs @ c # ys" "c \<notin> set ys" by (auto dest: split_list_last)
  with that(2) find_last_of_last show thesis by blast
next
  case False
  then have "find_last_of c s = None" by (auto simp: find_last_of_def find_index_None)
  with False that(1) show thesis by blast
qed

definition array_name :: "string \<Rightarrow> string \<Rightarrow> string \<Rightarrow> bool" where
  "array_name name base ds \<longleftrightarrow> name = base @ ''['' @ ds @ '']'' \<and> ds \<noteq> [] \<and> (\<forall>c \<in> set ds. is_digit c)"

text \<open>
  C36. \<open>ParseUniformName\<close> on a name that is not empty: a name that does not end in a bracket is no array element; \<open>base[digits]\<close> is element
  \<open>digits\<close> (modulo \<open>2 ^ 32\<close>) of the array whose name ends at the bracket; every other name that ends in a bracket is refused.
\<close>

theorem ParseUniformName_exact:
  assumes "name \<noteq> []"
  shows "(last name \<noteq> CHR '']'' \<longrightarrow> ParseUniformName name = Some (Some (None, 0, False))) \<and>
    (\<forall>base ds. array_name name base ds \<longrightarrow>
       ParseUniformName name = Some (Some (Some (length base), of_nat (decimal 0 ds), True))) \<and>
    (last name = CHR '']'' \<longrightarrow> (\<nexists>base ds. array_name name base ds) \<longrightarrow> ParseUniformName name = Some None)"
proof (intro conjI impI allI)
  assume "last name \<noteq> CHR '']''"
  then show "ParseUniformName name = Some (Some (None, 0, False))"
    using assms by (simp add: ParseUniformName_def last_conv_nth)
next
  fix base ds assume a: "array_name name base ds"
  then have "CHR ''['' \<notin> set (ds @ '']'')" by (auto simp: array_name_def is_digit_def)
  then have f: "find_last_of (CHR ''['') name = Some (length base)"
    using a find_last_of_last [of "CHR ''[''" "ds @ '']''" base] by (simp add: array_name_def)
  have "uniform_index ds 0 = Some (of_nat (decimal 0 ds))" using a uniform_index_exact [of ds 0] by (simp add: array_name_def)
  with a f show "ParseUniformName name = Some (Some (Some (length base), of_nat (decimal 0 ds), True))"
    by (cases ds) (simp_all add: ParseUniformName_def array_name_def nth_append)
next
  assume l: "last name = CHR '']''" and no: "\<nexists>base ds. array_name name base ds"
  show "ParseUniformName name = Some None"
  proof (cases rule: find_last_of_cases [of "CHR ''[''" name])
    case 1
    with assms l show ?thesis by (simp add: ParseUniformName_def last_conv_nth)
  next
    case (2 xs ys)
    then obtain ds where ds: "ys = ds @ '']''"
      using l by (cases ys rule: rev_cases) auto
    have "\<not> (ds \<noteq> [] \<and> (\<forall>c \<in> set ds. is_digit c))" using no 2 ds by (auto simp: array_name_def)
    then show ?thesis
      using 2 ds uniform_index_exact [of ds 0] by (auto simp: ParseUniformName_def nth_append)
  qed
qed

theorem ParseUniformName_exact_witness:
  "ParseUniformName ''a[17]'' = Some (Some (Some 1, 17, True)) \<and> ParseUniformName ''a[]'' = Some None \<and>
   ParseUniformName ''a[4294967296]'' = Some (Some (Some 1, 0, True))"
proof -
  have "array_name ''a[17]'' ''a'' ''17''" "array_name ''a[4294967296]'' ''a'' ''4294967296''" by code_simp+
  moreover have "ParseUniformName ''a[]'' = Some None" by code_simp
  ultimately show ?thesis
    using ParseUniformName_exact [of "''a[17]''"] ParseUniformName_exact [of "''a[4294967296]''"] by simp
qed

end
