(* ===== verification/Error_State.thy ===== *)
theory Error_State
  imports Gles2_Cmd_Utils
begin

section \<open>ErrorState: the GL errors a client will be told\<close>

text \<open>
  Model of \<^verbatim>\<open>src/gpu/command_buffer/service/error_state.cc\<close>. The GL driver is a state of any type with its \<open>glGetError\<close>, which returns
  and clears one of its errors. The messages to the logger are left out.
\<close>

record ErrorState =
  last_error :: string
  error_bits :: u32

definition ErrorState_new :: ErrorState where
  "ErrorState_new = \<lparr>last_error = [], error_bits = 0\<rparr>"

definition SetGLError :: "u32 \<Rightarrow> string option \<Rightarrow> ErrorState \<Rightarrow> ErrorState option" where
  "SetGLError error msg es = do {
     let es = (case msg of None \<Rightarrow> es | Some m \<Rightarrow> es\<lparr>last_error := m\<rparr>);
     b \<leftarrow> GLErrorToErrorBit error;
     Some (es\<lparr>error_bits := error_bits es OR b\<rparr>)
   }"

text \<open>The loop over the masks \<open>1\<close>, \<open>2\<close>, \<open>4\<close>, ...: the first that is set.\<close>

definition first_error :: "u32 \<Rightarrow> u32 option" where
  "first_error bits =
     (case find (\<lambda>b. bits AND b \<noteq> 0) (map (\<lambda>i. push_bit i 1) [0..<32]) of
        None \<Rightarrow> Some GL_NO_ERROR
      | Some b \<Rightarrow> GLErrorBitToGLError b)"

definition GetGLError :: "('g \<Rightarrow> u32 \<times> 'g) \<Rightarrow> ErrorState \<Rightarrow> 'g \<Rightarrow> (u32 \<times> ErrorState \<times> 'g) option" where
  "GetGLError glGetError es g = do {
     let (error, g) = glGetError g;
     error \<leftarrow> (if error = GL_NO_ERROR \<and> error_bits es \<noteq> 0 then first_error (error_bits es) else Some error);
     es \<leftarrow> (if error \<noteq> GL_NO_ERROR then do {
              b \<leftarrow> GLErrorToErrorBit error;
              Some (es\<lparr>error_bits := error_bits es AND NOT b\<rparr>)
            } else Some es);
     Some (error, es, g)
   }"

definition PeekGLError :: "('g \<Rightarrow> u32 \<times> 'g) \<Rightarrow> ErrorState \<Rightarrow> 'g \<Rightarrow> (u32 \<times> ErrorState \<times> 'g) option" where
  "PeekGLError glGetError es g = do {
     let (error, g) = glGetError g;
     es \<leftarrow> (if error \<noteq> GL_NO_ERROR then SetGLError error (Some []) es else Some es);
     Some (error, es, g)
   }"

definition SetGLErrorInvalidEnum ::
  "(u32 \<times> string) list \<Rightarrow> u32 \<Rightarrow> string \<Rightarrow> ErrorState \<Rightarrow> ErrorState option" where
  "SetGLErrorInvalidEnum enum_table value label es =
     SetGLError GL_INVALID_ENUM (Some (label @ '' was '' @ GetStringEnum enum_table value)) es"

text \<open>\<open>StringPrintf("%d", param)\<close>.\<close>

fun nat_digits :: "nat \<Rightarrow> string" where
  "nat_digits n = (if n < 10 then [char_of (48 + n)] else nat_digits (n div 10) @ [char_of (48 + n mod 10)])"

declare nat_digits.simps [simp del]

definition decimal_string :: "u32 \<Rightarrow> string" where
  "decimal_string x = (if sint x < 0 then ''-'' @ nat_digits (nat (- sint x)) else nat_digits (nat (sint x)))"

definition SetGLErrorInvalidParam ::
  "(u32 \<times> string) list \<Rightarrow> u32 \<Rightarrow> u32 \<Rightarrow> u32 \<Rightarrow> ErrorState \<Rightarrow> ErrorState option" where
  "SetGLErrorInvalidParam enum_table error pname param es =
     SetGLError error
       (Some (''trying to set '' @ GetStringEnum enum_table pname @ '' to '' @
          (if error = GL_INVALID_ENUM then GetStringEnum enum_table param else decimal_string param))) es"

text \<open>These loops end when the driver has no error left.\<close>

partial_function (option) CopyRealGLErrorsToWrapper ::
  "('g \<Rightarrow> u32 \<times> 'g) \<Rightarrow> ErrorState \<Rightarrow> 'g \<Rightarrow> (ErrorState \<times> 'g) option" where
  "CopyRealGLErrorsToWrapper glGetError es g =
     (let (error, g) = glGetError g in
      if error = GL_NO_ERROR then Some (es, g)
      else do {
        es \<leftarrow> SetGLError error (Some ''<- error from previous GL command'') es;
        CopyRealGLErrorsToWrapper glGetError es g
      })"

partial_function (option) ClearRealGLErrors ::
  "('g \<Rightarrow> u32 \<times> 'g) \<Rightarrow> ErrorState \<Rightarrow> 'g \<Rightarrow> (ErrorState \<times> 'g) option" where
  "ClearRealGLErrors glGetError es g =
     (let (error, g) = glGetError g in
      if error = GL_NO_ERROR then Some (es, g)
      else do {
        dcheck (error = GL_OUT_OF_MEMORY);
        ClearRealGLErrors glGetError es g
      })"

subsection \<open>The abstract view: a set of errors\<close>

definition gl_errors :: "u32 list" where
  "gl_errors = [GL_INVALID_ENUM, GL_INVALID_VALUE, GL_INVALID_OPERATION, GL_OUT_OF_MEMORY, GL_INVALID_FRAMEBUFFER_OPERATION]"

definition pending_errors :: "ErrorState \<Rightarrow> u32 set" where
  "pending_errors es = {e. \<exists>b. GLErrorToErrorBit e = Some b \<and> error_bits es AND b \<noteq> 0}"

definition es_wf :: "ErrorState \<Rightarrow> bool" where
  "es_wf es \<longleftrightarrow> (\<forall>i. bit (error_bits es) i \<longrightarrow> i < length gl_errors)"

lemma and_exp: "(x :: u32) AND 2 ^ i = 0 \<longleftrightarrow> \<not> bit x i"
  using bit_iff_and_push_bit_not_eq_0 [of x i] by (simp add: push_bit_of_1)

lemma GLErrorToErrorBit_index: "GLErrorToErrorBit e = map_option (\<lambda>i. 2 ^ i) (find_index (\<lambda>x. x = e) gl_errors)"
  by (auto simp: GLErrorToErrorBit_def gl_errors_def)

lemma gl_errors_table:
  "\<forall>i \<in> set [0..<5]. GLErrorBitToGLError (2 ^ i) = Some (gl_errors ! i) \<and> find_index (\<lambda>x. x = gl_errors ! i) gl_errors = Some i"
  by code_simp

lemma gl_error_index:
  assumes "i < 5"
  shows "GLErrorBitToGLError (2 ^ i) = Some (gl_errors ! i)" "find_index (\<lambda>x. x = gl_errors ! i) gl_errors = Some i"
  using bspec [OF gl_errors_table, of i] assms by auto

lemma find_gl_error: "find_index (\<lambda>x. x = e) gl_errors = Some i \<longleftrightarrow> i < 5 \<and> e = gl_errors ! i"
  using find_index_Some [of "\<lambda>x. x = e" gl_errors i] gl_error_index(2) [of i] by (auto simp: gl_errors_def)

lemma pending_errors_eq: "pending_errors es = {gl_errors ! i | i. i < 5 \<and> bit (error_bits es) i}"
proof -
  have "e \<in> pending_errors es \<longleftrightarrow> (\<exists>i. find_index (\<lambda>x. x = e) gl_errors = Some i \<and> bit (error_bits es) i)" for e
    by (auto simp: pending_errors_def GLErrorToErrorBit_index and_exp)
  then show ?thesis by (auto simp: find_gl_error)
qed

lemma es_wf_bits: "es_wf es \<longleftrightarrow> (\<forall>i. bit (error_bits es) i \<longrightarrow> i < 5)"
  by (simp add: es_wf_def gl_errors_def numeral_eq_Suc)

lemma first_error_cases:
  assumes "es_wf es"
  shows "(error_bits es = 0 \<and> first_error (error_bits es) = Some GL_NO_ERROR) \<or>
    (\<exists>i < 5. bit (error_bits es) i \<and> (\<forall>j < i. \<not> bit (error_bits es) j) \<and> first_error (error_bits es) = Some (gl_errors ! i))"
proof (cases "error_bits es = 0")
  case False
  then obtain k where "bit (error_bits es) k" by (metis bit_0_eq bit_eqI bot_apply bot_bool_def)
  define i where "i = (LEAST i. bit (error_bits es) i)"
  have i: "bit (error_bits es) i" "\<forall>j < i. \<not> bit (error_bits es) j"
    using \<open>bit (error_bits es) k\<close> not_less_Least unfolding i_def by (auto intro: LeastI)
  then have "i < 5" using assms by (simp add: es_wf_bits)
  then have "find (\<lambda>b. error_bits es AND b \<noteq> 0) (map (\<lambda>i. push_bit i 1) [0..<32]) = Some (push_bit i 1)"
    using i by (auto simp: find_Some_iff and_exp push_bit_of_1 intro!: exI [of _ i])
  with i \<open>i < 5\<close> show ?thesis by (auto simp: first_error_def gl_error_index)
next
  case True
  then have "find (\<lambda>b. error_bits es AND b \<noteq> 0) (map (\<lambda>i. push_bit i 1) [0..<32]) = None" by (simp add: find_None_iff)
  with True show ?thesis by (simp add: first_error_def)
qed

lemma gl_errors_inj:
  assumes "i < 5" "j < 5" "gl_errors ! i = gl_errors ! j"
  shows "i = j"
  using gl_error_index(2) [OF assms(1)] gl_error_index(2) [OF assms(2)] unfolding assms(3) by simp

text \<open>
  C32. The error state refines a set of errors. Recording an error inserts it; any error that GL does not have is caught by the check.
  When the driver itself has no error, asking for an error returns and removes an element of the set, the same error at most
  once, and \<open>GL_NO_ERROR\<close> exactly for the empty set; an error of the driver is returned first and removed from the set.
\<close>

theorem errors_refine_set:
  assumes "es_wf es"
  shows "(case SetGLError e msg es of
       None \<Rightarrow> e \<notin> set gl_errors
     | Some es' \<Rightarrow> es_wf es' \<and> pending_errors es' = insert e (pending_errors es)) \<and>
    (\<exists>e es'. GetGLError (\<lambda>g. (GL_NO_ERROR, g)) es g = Some (e, es', g) \<and> es_wf es' \<and>
       (if pending_errors es = {} then e = GL_NO_ERROR \<and> es' = es
        else e \<in> pending_errors es \<and> pending_errors es' = pending_errors es - {e})) \<and>
    (e \<in> set gl_errors \<longrightarrow> (\<exists>es'. GetGLError (\<lambda>g. (e, g)) es g = Some (e, es', g) \<and> es_wf es' \<and>
       pending_errors es' = pending_errors es - {e}))"
proof (intro conjI impI)
  have upd: "es_wf es' \<and> pending_errors es' = pending_errors es - {gl_errors ! i}"
    if "i < 5" "es' = es\<lparr>error_bits := error_bits es AND NOT (2 ^ i)\<rparr>" for es' i
  proof -
    have "bit (error_bits es') j \<longleftrightarrow> bit (error_bits es) j \<and> j \<noteq> i" for j
      using that by (auto simp: bit_simps dest: bit_imp_le_length)
    then show ?thesis using assms that(1) gl_errors_inj by (auto simp: es_wf_bits pending_errors_eq)
  qed
  show "case SetGLError e msg es of None \<Rightarrow> e \<notin> set gl_errors
     | Some es' \<Rightarrow> es_wf es' \<and> pending_errors es' = insert e (pending_errors es)"
  proof (cases "find_index (\<lambda>x. x = e) gl_errors")
    case None
    then have "GLErrorToErrorBit e = None" "e \<notin> set gl_errors" by (auto simp: GLErrorToErrorBit_index find_index_None)
    then show ?thesis by (simp add: SetGLError_def Let_def)
  next
    case (Some i)
    then have i: "i < 5" "e = gl_errors ! i" by (simp_all add: find_gl_error)
    have "bit (error_bits es OR 2 ^ i) j \<longleftrightarrow> bit (error_bits es) j \<or> j = i" for j
      using i(1) by (auto simp: bit_simps)
    then show ?thesis
      using assms i Some
      by (cases msg) (auto simp: SetGLError_def GLErrorToErrorBit_index Let_def es_wf_bits pending_errors_eq)
  qed
  show "\<exists>e es'. GetGLError (\<lambda>g. (GL_NO_ERROR, g)) es g = Some (e, es', g) \<and> es_wf es' \<and>
       (if pending_errors es = {} then e = GL_NO_ERROR \<and> es' = es
        else e \<in> pending_errors es \<and> pending_errors es' = pending_errors es - {e})"
    using first_error_cases [OF assms]
  proof
    assume "error_bits es = 0 \<and> first_error (error_bits es) = Some GL_NO_ERROR"
    then show ?thesis using assms by (simp add: GetGLError_def pending_errors_eq)
  next
    assume "\<exists>i < 5. bit (error_bits es) i \<and> (\<forall>j < i. \<not> bit (error_bits es) j) \<and> first_error (error_bits es) = Some (gl_errors ! i)"
    then obtain i where i: "i < 5" "bit (error_bits es) i" "first_error (error_bits es) = Some (gl_errors ! i)" by blast
    have "gl_errors ! i \<noteq> GL_NO_ERROR" using i(1) by (auto simp: gl_errors_def less_Suc_eq nth_Cons')
    moreover have "error_bits es \<noteq> 0" using i(2) by auto
    moreover have "gl_errors ! i \<in> pending_errors es" using i by (auto simp: pending_errors_eq)
    ultimately show ?thesis
      using i upd [OF i(1) refl] by (auto simp: GetGLError_def GLErrorToErrorBit_index gl_error_index)
  qed
  assume "e \<in> set gl_errors"
  moreover have "length gl_errors = 5" by (simp add: gl_errors_def)
  ultimately obtain i where i: "i < 5" "e = gl_errors ! i" by (metis in_set_conv_nth)
  have "e \<noteq> GL_NO_ERROR" using \<open>e \<in> set gl_errors\<close> by (auto simp: gl_errors_def)
  then show "\<exists>es'. GetGLError (\<lambda>g. (e, g)) es g = Some (e, es', g) \<and> es_wf es' \<and> pending_errors es' = pending_errors es - {e}"
    using i upd [OF i(1) refl] by (auto simp: GetGLError_def GLErrorToErrorBit_index gl_error_index)
qed

theorem errors_refine_set_witness:
  "\<exists>es'. SetGLError GL_INVALID_VALUE None ErrorState_new = Some es' \<and> pending_errors es' = {GL_INVALID_VALUE}"
proof -
  have "es_wf ErrorState_new" "pending_errors ErrorState_new = {}"
    by (simp_all add: es_wf_bits ErrorState_new_def pending_errors_def)
  then show ?thesis using errors_refine_set [of ErrorState_new GL_INVALID_VALUE None "()"]
    by (auto simp: gl_errors_def split: option.splits)
qed

end
