(* ===== verification/Buffer_Manager.thy ===== *)
theory Buffer_Manager
  imports Error_State "HOL-Library.AList"
begin

section \<open>BufferManager: GL buffers, their shadow copies and their memory\<close>

text \<open>
  Model of \<^verbatim>\<open>src/gpu/command_buffer/service/buffer_manager.{h,cc}\<close> and \<^verbatim>\<open>memory_tracking.h\<close>. What lies outside (the GL driver, the
  memory tracker of the context group, the feature info) is a record of functions on a state of any type. A \<open>Buffer\<close> is reference
  counted; objects have addresses, and an object lives as long as the manager's map or a \<open>scoped_refptr\<close> elsewhere refers to it.
\<close>

record 'g GlEnv =
  glGetError :: "'g \<Rightarrow> u32 \<times> 'g"
  glBufferData :: "u32 \<Rightarrow> u64 \<Rightarrow> byte list option \<Rightarrow> u32 \<Rightarrow> 'g \<Rightarrow> 'g"
  glBufferSubData :: "u32 \<Rightarrow> u64 \<Rightarrow> u64 \<Rightarrow> byte list \<Rightarrow> 'g \<Rightarrow> 'g"
  glDeleteBuffersARB :: "u32 \<Rightarrow> 'g \<Rightarrow> 'g"
  memory_tracker :: "((u64 \<Rightarrow> u64 \<Rightarrow> 'g \<Rightarrow> 'g) \<times> (u64 \<Rightarrow> 'g \<Rightarrow> bool \<times> 'g)) option"
  buffer_target_valid :: "u32 \<Rightarrow> bool"
  buffer_usage_valid :: "u32 \<Rightarrow> bool"
  use_non_zero_size_for_client_side_stream_buffers :: bool
  enum_names :: "(u32 \<times> string) list"

subsection \<open>Memory accounting\<close>

record MemoryTypeTracker =
  has_done_update :: bool
  mem_represented :: u64
  mem_represented_at_last_update :: u64

definition UpdateMemRepresented :: "'g GlEnv \<Rightarrow> MemoryTypeTracker \<Rightarrow> 'g \<Rightarrow> MemoryTypeTracker \<times> 'g" where
  "UpdateMemRepresented env t g =
     (if \<not> has_done_update t \<and> mem_represented t = mem_represented_at_last_update t then (t, g)
      else (t\<lparr>has_done_update := True, mem_represented_at_last_update := mem_represented t\<rparr>,
            case memory_tracker env of
              None \<Rightarrow> g
            | Some (track, _) \<Rightarrow> track (mem_represented_at_last_update t) (mem_represented t) g))"

definition MemoryTypeTracker_new :: "'g GlEnv \<Rightarrow> 'g \<Rightarrow> MemoryTypeTracker \<times> 'g" where
  "MemoryTypeTracker_new env g =
     UpdateMemRepresented env
       \<lparr>has_done_update = False, mem_represented = 0, mem_represented_at_last_update = 0\<rparr> g"

definition TrackMemAlloc :: "'g GlEnv \<Rightarrow> u64 \<Rightarrow> MemoryTypeTracker \<Rightarrow> 'g \<Rightarrow> MemoryTypeTracker \<times> 'g" where
  "TrackMemAlloc env bytes t g = UpdateMemRepresented env (t\<lparr>mem_represented := mem_represented t + bytes\<rparr>) g"

definition TrackMemFree :: "'g GlEnv \<Rightarrow> u64 \<Rightarrow> MemoryTypeTracker \<Rightarrow> 'g \<Rightarrow> (MemoryTypeTracker \<times> 'g) option" where
  "TrackMemFree env bytes t g = do {
     dcheck (bytes \<le> mem_represented t);
     Some (UpdateMemRepresented env (t\<lparr>mem_represented := mem_represented t - bytes\<rparr>) g)
   }"

definition GetMemRepresented :: "MemoryTypeTracker \<Rightarrow> u64" where
  "GetMemRepresented t = mem_represented_at_last_update t"

definition EnsureGPUMemoryAvailable :: "'g GlEnv \<Rightarrow> u64 \<Rightarrow> 'g \<Rightarrow> bool \<times> 'g" where
  "EnsureGPUMemoryAvailable env size_needed g =
     (case memory_tracker env of None \<Rightarrow> (True, g) | Some (_, ensure) \<Rightarrow> ensure size_needed g)"

subsection \<open>Buffers\<close>

text \<open>A range is offset, count and type; \<open>range_set_\<close> maps ranges to the highest value in them.\<close>

record GlBuffer =
  gb_size :: u64
  gb_deleted :: bool
  gb_shadowed :: bool
  gb_is_client_side_array :: bool
  gb_service_id :: u32
  gb_target :: u32
  gb_usage :: u32
  gb_shadow :: "byte list option"
  gb_range_set :: "((u32 \<times> u32 \<times> u32) \<times> u32) list"

definition Buffer_init :: "u32 \<Rightarrow> GlBuffer" where
  "Buffer_init service_id =
     \<lparr>gb_size = 0, gb_deleted = False, gb_shadowed = False, gb_is_client_side_array = False, gb_service_id = service_id,
      gb_target = 0, gb_usage = GL_STATIC_DRAW, gb_shadow = None, gb_range_set = []\<rparr>"

definition ClearCache :: "GlBuffer \<Rightarrow> GlBuffer" where
  "ClearCache b = b\<lparr>gb_range_set := []\<rparr>"

definition set_target :: "u32 \<Rightarrow> GlBuffer \<Rightarrow> GlBuffer option" where
  "set_target target b = do { dcheck (gb_target b = 0); Some (b\<lparr>gb_target := target\<rparr>) }"

definition MarkAsDeleted :: "GlBuffer \<Rightarrow> GlBuffer" where
  "MarkAsDeleted b = b\<lparr>gb_deleted := True\<rparr>"

text \<open>\<open>memcpy\<close> of \<open>n\<close> bytes from \<open>data\<close> to position \<open>off\<close> of an array.\<close>

definition copy_bytes :: "nat \<Rightarrow> nat \<Rightarrow> byte list \<Rightarrow> byte list \<Rightarrow> byte list option" where
  "copy_bytes off n data dst = do {
     dcheck (n \<le> length data);
     dcheck (off + n \<le> length dst);
     Some (take off dst @ take n data @ drop (off + n) dst)
   }"

definition Buffer_SetInfo ::
  "u64 \<Rightarrow> u32 \<Rightarrow> bool \<Rightarrow> byte list option \<Rightarrow> bool \<Rightarrow> GlBuffer \<Rightarrow> GlBuffer option" where
  "Buffer_SetInfo sz usage shadow data is_client_side_array b = do {
     let b = ClearCache (b\<lparr>gb_usage := usage, gb_is_client_side_array := is_client_side_array\<rparr>);
     let b = (if sz \<noteq> gb_size b \<or> shadow \<noteq> gb_shadowed b
              then b\<lparr>gb_shadowed := shadow, gb_size := sz,
                     gb_shadow := (if shadow then Some (replicate (unat sz) 0) else None)\<rparr>
              else b);
     if gb_shadowed b then do {
       dst \<leftarrow> gb_shadow b;
       bs \<leftarrow> copy_bytes 0 (unat sz) (case data of None \<Rightarrow> replicate (unat sz) 0 | Some d \<Rightarrow> d) dst;
       Some (b\<lparr>gb_shadow := Some bs\<rparr>)
     }
     else Some b
   }"

definition CheckRange :: "u64 \<Rightarrow> u64 \<Rightarrow> GlBuffer \<Rightarrow> bool" where
  "CheckRange offset sz b \<longleftrightarrow>
     0 \<le> sint offset \<and> 0 \<le> sint sz \<and> sint offset \<le> 2147483647 \<and> sint sz \<le> 2147483647 \<and>
     (let (safe, range_end) = SafeAddInt32 (ucast offset) (ucast sz) in safe \<and> sint range_end \<le> sint (gb_size b))"

definition SetRange :: "u64 \<Rightarrow> u64 \<Rightarrow> byte list \<Rightarrow> GlBuffer \<Rightarrow> (bool \<times> GlBuffer) option" where
  "SetRange offset sz data b =
     (if \<not> CheckRange offset sz b then Some (False, b)
      else if gb_shadowed b then do {
        dst \<leftarrow> gb_shadow b;
        bs \<leftarrow> copy_bytes (unat offset) (unat sz) data dst;
        Some (True, ClearCache (b\<lparr>gb_shadow := Some bs\<rparr>))
      }
      else Some (True, b))"

text \<open>The pointer that \<open>GetRange\<close> returns, as an offset into the shadow copy.\<close>

definition GetRange :: "u64 \<Rightarrow> u64 \<Rightarrow> GlBuffer \<Rightarrow> u64 option" where
  "GetRange offset sz b =
     (if \<not> gb_shadowed b then None else if \<not> CheckRange offset sz b then None else Some offset)"

text \<open>
  \<open>GetMaxValue<T>\<close>; \<open>w\<close> is the size of \<open>T\<close>, whose values are stored little-endian. The loop runs from the element at \<open>offset\<close> up to, and
  not including, the one \<open>count\<close> elements further.
\<close>

fun le_nat :: "byte list \<Rightarrow> nat" where
  "le_nat [] = 0"
| "le_nat (x # xs) = unat x + 256 * le_nat xs"

definition element :: "nat \<Rightarrow> byte list \<Rightarrow> nat \<Rightarrow> nat \<Rightarrow> nat" where
  "element w data offset i = le_nat (take w (drop (offset + w * i) data))"

fun GetMaxValue_loop :: "nat \<Rightarrow> byte list \<Rightarrow> nat \<Rightarrow> nat \<Rightarrow> nat \<Rightarrow> u32 \<Rightarrow> u32 option" where
  "GetMaxValue_loop w data offset i 0 max_value = Some max_value"
| "GetMaxValue_loop w data offset i (Suc n) max_value = do {
     dcheck (offset + w * i + w \<le> length data);
     let v = (of_nat (element w data offset i) :: u32);
     GetMaxValue_loop w data offset (i + 1) n (if max_value < v then v else max_value)
   }"

definition GetMaxValue :: "nat \<Rightarrow> byte list option \<Rightarrow> u32 \<Rightarrow> u32 \<Rightarrow> u32 option" where
  "GetMaxValue w data offset count = do {
     bytes \<leftarrow> data;
     GetMaxValue_loop w bytes (unat offset) 0 (nat (sint count)) 0
   }"

text \<open>The result is the value returned through \<open>max_value\<close>, or false.\<close>

definition GetMaxValueForRange ::
  "u32 \<Rightarrow> u32 \<Rightarrow> u32 \<Rightarrow> GlBuffer \<Rightarrow> (u32 option \<times> GlBuffer) option" where
  "GetMaxValueForRange offset count type b =
     (case map_of (gb_range_set b) (offset, count, type) of
        Some v \<Rightarrow> Some (Some v, b)
      | None \<Rightarrow>
          let (ok, sz) = SafeMultiplyUint32 count (ucast (GetGLTypeSizeForTexturesAndBuffers type)) in
          if \<not> ok then Some (None, b)
          else let (ok, sz) = SafeAddUint32 offset sz in
          if \<not> ok then Some (None, b)
          else if (ucast (gb_size b) :: u32) < sz then Some (None, b)
          else if \<not> gb_shadowed b then Some (None, b)
          else do {
            r \<leftarrow> (if type = GL_UNSIGNED_BYTE then map_option Some (GetMaxValue 1 (gb_shadow b) offset count)
                  else if type = GL_UNSIGNED_SHORT then
                    if offset AND 1 \<noteq> 0 then Some None
                    else map_option Some (GetMaxValue 2 (gb_shadow b) offset count)
                  else if type = GL_UNSIGNED_INT then
                    if offset AND 3 \<noteq> 0 then Some None
                    else map_option Some (GetMaxValue 4 (gb_shadow b) offset count)
                  else None);
            Some (case r of
                    None \<Rightarrow> (None, b)
                  | Some v \<Rightarrow> (Some v, b\<lparr>gb_range_set := ((offset, count, type), v) # gb_range_set b\<rparr>))
          })"

subsection \<open>The manager\<close>

text \<open>
  \<open>bm_objects\<close> are the buffers that have been constructed and not destroyed, by address; \<open>bm_buffers\<close> is the map \<open>buffers_\<close>
  (in the order in which the hash map is iterated); \<open>bm_refs\<close> are the \<open>scoped_refptr\<close>s outside the manager, one entry each.
\<close>

record BufferManager =
  bm_memory_tracker :: MemoryTypeTracker
  bm_objects :: "(nat \<times> GlBuffer) list"
  bm_next :: nat
  bm_buffers :: "(u32 \<times> nat) list"
  bm_refs :: "nat list"
  bm_allow_buffers_on_multiple_targets :: bool
  bm_buffer_count :: u32
  bm_have_context :: bool
  bm_use_client_side_arrays_for_stream_buffers :: bool

record ContextState =
  bound_array_buffer :: "nat option"
  element_array_buffer :: "nat option"
  cs_error_state :: ErrorState

definition BufferManager_new :: "'g GlEnv \<Rightarrow> bool \<Rightarrow> 'g \<Rightarrow> BufferManager \<times> 'g" where
  "BufferManager_new env use_client_side_arrays g =
     (let (t, g) = MemoryTypeTracker_new env g in
      (\<lparr>bm_memory_tracker = t, bm_objects = [], bm_next = 0, bm_buffers = [], bm_refs = [],
        bm_allow_buffers_on_multiple_targets = False, bm_buffer_count = 0, bm_have_context = True,
        bm_use_client_side_arrays_for_stream_buffers = use_client_side_arrays\<rparr>, g))"

definition StartTracking :: "BufferManager \<Rightarrow> BufferManager" where
  "StartTracking bm = bm\<lparr>bm_buffer_count := bm_buffer_count bm + 1\<rparr>"

definition StopTracking :: "'g GlEnv \<Rightarrow> GlBuffer \<Rightarrow> BufferManager \<Rightarrow> 'g \<Rightarrow> (BufferManager \<times> 'g) option" where
  "StopTracking env b bm g = do {
     (t, g) \<leftarrow> TrackMemFree env (gb_size b) (bm_memory_tracker bm) g;
     Some (bm\<lparr>bm_memory_tracker := t, bm_buffer_count := bm_buffer_count bm - 1\<rparr>, g)
   }"

definition GlBuffer_new :: "u32 \<Rightarrow> BufferManager \<Rightarrow> nat \<times> BufferManager" where
  "GlBuffer_new service_id bm =
     (bm_next bm,
      StartTracking (bm\<lparr>bm_objects := (bm_next bm, Buffer_init service_id) # bm_objects bm, bm_next := bm_next bm + 1\<rparr>))"

definition Buffer_delete :: "'g GlEnv \<Rightarrow> nat \<Rightarrow> BufferManager \<Rightarrow> 'g \<Rightarrow> (BufferManager \<times> 'g) option" where
  "Buffer_delete env a bm g = do {
     b \<leftarrow> map_of (bm_objects bm) a;
     let g = (if bm_have_context bm then glDeleteBuffersARB env (gb_service_id b) g else g);
     StopTracking env b (bm\<lparr>bm_objects := AList.delete a (bm_objects bm)\<rparr>) g
   }"

text \<open>What \<open>Release\<close> does after one reference to \<open>a\<close> has gone, and a reference that something outside the manager takes or drops.\<close>

definition Buffer_Release :: "'g GlEnv \<Rightarrow> nat \<Rightarrow> BufferManager \<Rightarrow> 'g \<Rightarrow> (BufferManager \<times> 'g) option" where
  "Buffer_Release env a bm g =
     (if a \<in> snd ` set (bm_buffers bm) \<or> a \<in> set (bm_refs bm) then Some (bm, g) else Buffer_delete env a bm g)"

definition take_ref :: "nat \<Rightarrow> BufferManager \<Rightarrow> BufferManager" where
  "take_ref a bm = bm\<lparr>bm_refs := a # bm_refs bm\<rparr>"

definition drop_ref :: "'g GlEnv \<Rightarrow> nat \<Rightarrow> BufferManager \<Rightarrow> 'g \<Rightarrow> (BufferManager \<times> 'g) option" where
  "drop_ref env a bm g = Buffer_Release env a (bm\<lparr>bm_refs := remove1 a (bm_refs bm)\<rparr>) g"

definition set_buffer :: "nat \<Rightarrow> GlBuffer \<Rightarrow> BufferManager \<Rightarrow> BufferManager" where
  "set_buffer a b bm = bm\<lparr>bm_objects := AList.update a b (bm_objects bm)\<rparr>"

definition CreateBuffer :: "u32 \<Rightarrow> u32 \<Rightarrow> BufferManager \<Rightarrow> BufferManager option" where
  "CreateBuffer client_id service_id bm = do {
     let (a, bm) = GlBuffer_new service_id bm;
     dcheck (map_of (bm_buffers bm) client_id = None);
     Some (bm\<lparr>bm_buffers := (client_id, a) # bm_buffers bm\<rparr>)
   }"

definition GetBuffer :: "u32 \<Rightarrow> BufferManager \<Rightarrow> nat option" where
  "GetBuffer client_id bm = map_of (bm_buffers bm) client_id"

definition RemoveBuffer :: "'g GlEnv \<Rightarrow> u32 \<Rightarrow> BufferManager \<Rightarrow> 'g \<Rightarrow> (BufferManager \<times> 'g) option" where
  "RemoveBuffer env client_id bm g =
     (case map_of (bm_buffers bm) client_id of
        None \<Rightarrow> Some (bm, g)
      | Some a \<Rightarrow> do {
          b \<leftarrow> map_of (bm_objects bm) a;
          let bm = set_buffer a (MarkAsDeleted b) bm;
          Buffer_Release env a (bm\<lparr>bm_buffers := AList.delete client_id (bm_buffers bm)\<rparr>) g
        })"

text \<open>\<open>buffers_.clear()\<close>, then \<open>Destroy\<close> and the destructor.\<close>

fun clear_buffers :: "'g GlEnv \<Rightarrow> (u32 \<times> nat) list \<Rightarrow> BufferManager \<Rightarrow> 'g \<Rightarrow> (BufferManager \<times> 'g) option" where
  "clear_buffers env [] bm g = Some (bm\<lparr>bm_buffers := []\<rparr>, g)"
| "clear_buffers env ((client_id, a) # rest) bm g = do {
     (bm, g) \<leftarrow> Buffer_Release env a (bm\<lparr>bm_buffers := rest\<rparr>) g;
     clear_buffers env rest bm g
   }"

definition BufferManager_Destroy :: "'g GlEnv \<Rightarrow> bool \<Rightarrow> BufferManager \<Rightarrow> 'g \<Rightarrow> (BufferManager \<times> 'g) option" where
  "BufferManager_Destroy env have_context bm g = do {
     (bm, g) \<leftarrow> clear_buffers env (bm_buffers bm) (bm\<lparr>bm_have_context := have_context\<rparr>) g;
     dcheck (GetMemRepresented (bm_memory_tracker bm) = 0);
     Some (bm, g)
   }"

definition BufferManager_delete :: "'g GlEnv \<Rightarrow> BufferManager \<Rightarrow> 'g \<Rightarrow> 'g option" where
  "BufferManager_delete env bm g = do {
     dcheck (bm_buffers bm = []);
     dcheck (bm_buffer_count bm = 0);
     Some (snd (UpdateMemRepresented env (bm_memory_tracker bm) g))
   }"

definition GetClientId :: "u32 \<Rightarrow> BufferManager \<Rightarrow> u32 option option" where
  "GetClientId service_id bm =
     (if \<forall>(c, a) \<in> set (bm_buffers bm). map_of (bm_objects bm) a \<noteq> None
      then Some (map_option fst (find (\<lambda>(c, a). gb_service_id (the (map_of (bm_objects bm) a)) = service_id) (bm_buffers bm)))
      else None)"

definition IsUsageClientSideArray :: "u32 \<Rightarrow> BufferManager \<Rightarrow> bool" where
  "IsUsageClientSideArray usage bm \<longleftrightarrow> usage = GL_STREAM_DRAW \<and> bm_use_client_side_arrays_for_stream_buffers bm"

definition BufferManager_SetInfo ::
  "'g GlEnv \<Rightarrow> nat \<Rightarrow> u64 \<Rightarrow> u32 \<Rightarrow> byte list option \<Rightarrow> BufferManager \<Rightarrow> 'g \<Rightarrow> (BufferManager \<times> 'g) option" where
  "BufferManager_SetInfo env a sz usage data bm g = do {
     b \<leftarrow> map_of (bm_objects bm) a;
     (t, g) \<leftarrow> TrackMemFree env (gb_size b) (bm_memory_tracker bm) g;
     let is_client_side_array = IsUsageClientSideArray usage bm;
     let shadow = (gb_target b = GL_ELEMENT_ARRAY_BUFFER \<or> bm_allow_buffers_on_multiple_targets bm \<or> is_client_side_array);
     b \<leftarrow> Buffer_SetInfo sz usage shadow data is_client_side_array b;
     let (t, g) = TrackMemAlloc env (gb_size b) t g;
     Some (set_buffer a b (bm\<lparr>bm_memory_tracker := t\<rparr>), g)
   }"

definition DoBufferData ::
  "'g GlEnv \<Rightarrow> nat \<Rightarrow> u64 \<Rightarrow> u32 \<Rightarrow> byte list option \<Rightarrow> ErrorState \<Rightarrow> BufferManager \<Rightarrow> 'g \<Rightarrow>
     (ErrorState \<times> BufferManager \<times> 'g) option" where
  "DoBufferData env a sz usage data es bm g = do {
     b \<leftarrow> map_of (bm_objects bm) a;
     let data = (case data of None \<Rightarrow> replicate (unat sz) 0 | Some d \<Rightarrow> d);
     (es, g) \<leftarrow> CopyRealGLErrorsToWrapper (glGetError env) es g;
     let g = (if IsUsageClientSideArray usage bm
              then glBufferData env (gb_target b)
                     (if use_non_zero_size_for_client_side_stream_buffers env then 1 else 0) None usage g
              else glBufferData env (gb_target b) sz (Some data) usage g);
     (error, es, g) \<leftarrow> PeekGLError (glGetError env) es g;
     (bm, g) \<leftarrow> (if error = GL_NO_ERROR then BufferManager_SetInfo env a sz usage (Some data) bm g
                 else BufferManager_SetInfo env a 0 usage None bm g);
     Some (es, bm, g)
   }"

definition DoBufferSubData ::
  "'g GlEnv \<Rightarrow> nat \<Rightarrow> u64 \<Rightarrow> u64 \<Rightarrow> byte list \<Rightarrow> ErrorState \<Rightarrow> BufferManager \<Rightarrow> 'g \<Rightarrow>
     (ErrorState \<times> BufferManager \<times> 'g) option" where
  "DoBufferSubData env a offset sz data es bm g = do {
     b \<leftarrow> map_of (bm_objects bm) a;
     (ok, b) \<leftarrow> SetRange offset sz data b;
     if \<not> ok then do {
       es \<leftarrow> SetGLError GL_INVALID_VALUE (Some ''out of range'') es;
       Some (es, bm, g)
     }
     else Some (es, set_buffer a b bm,
                if gb_is_client_side_array b then g else glBufferSubData env (gb_target b) offset sz data g)
   }"

definition BufferManager_SetTarget :: "nat \<Rightarrow> u32 \<Rightarrow> BufferManager \<Rightarrow> (bool \<times> BufferManager) option" where
  "BufferManager_SetTarget a target bm = do {
     b \<leftarrow> map_of (bm_objects bm) a;
     if gb_target b \<noteq> 0 \<and> gb_target b \<noteq> target \<and> \<not> bm_allow_buffers_on_multiple_targets bm then Some (False, bm)
     else if gb_target b = 0 then do {
       b \<leftarrow> set_target target b;
       Some (True, set_buffer a b bm)
     }
     else Some (True, bm)
   }"

definition GetBufferInfoForTarget :: "ContextState \<Rightarrow> u32 \<Rightarrow> nat option option" where
  "GetBufferInfoForTarget cs target = do {
     dcheck (target = GL_ARRAY_BUFFER \<or> target = GL_ELEMENT_ARRAY_BUFFER);
     Some (if target = GL_ARRAY_BUFFER then bound_array_buffer cs else element_array_buffer cs)
   }"

text \<open>An error of the client is recorded in the context.\<close>

definition with_error :: "(ErrorState \<Rightarrow> ErrorState option) \<Rightarrow> ContextState \<Rightarrow> ContextState option" where
  "with_error f cs = do { es \<leftarrow> f (cs_error_state cs); Some (cs\<lparr>cs_error_state := es\<rparr>) }"

definition ValidateAndDoBufferData ::
  "'g GlEnv \<Rightarrow> u32 \<Rightarrow> u64 \<Rightarrow> byte list option \<Rightarrow> u32 \<Rightarrow> ContextState \<Rightarrow> BufferManager \<Rightarrow> 'g \<Rightarrow>
     (ContextState \<times> BufferManager \<times> 'g) option" where
  "ValidateAndDoBufferData env target sz data usage cs bm g =
     (if \<not> buffer_target_valid env target then
        map_option (\<lambda>cs. (cs, bm, g)) (with_error (SetGLErrorInvalidEnum (enum_names env) target ''target'') cs)
      else if \<not> buffer_usage_valid env usage then
        map_option (\<lambda>cs. (cs, bm, g)) (with_error (SetGLErrorInvalidEnum (enum_names env) usage ''usage'') cs)
      else if sint sz < 0 then
        map_option (\<lambda>cs. (cs, bm, g)) (with_error (SetGLError GL_INVALID_VALUE (Some ''size < 0'')) cs)
      else do {
        buffer \<leftarrow> GetBufferInfoForTarget cs target;
        case buffer of
          None \<Rightarrow> map_option (\<lambda>cs. (cs, bm, g)) (with_error (SetGLError GL_INVALID_VALUE (Some ''unknown buffer'')) cs)
        | Some a \<Rightarrow> do {
            let (available, g) = EnsureGPUMemoryAvailable env sz g;
            if \<not> available then
              map_option (\<lambda>cs. (cs, bm, g)) (with_error (SetGLError GL_OUT_OF_MEMORY (Some ''out of memory'')) cs)
            else do {
              (es, bm, g) \<leftarrow> DoBufferData env a sz usage data (cs_error_state cs) bm g;
              Some (cs\<lparr>cs_error_state := es\<rparr>, bm, g)
            }
          }
      })"

definition ValidateAndDoBufferSubData ::
  "'g GlEnv \<Rightarrow> u32 \<Rightarrow> u64 \<Rightarrow> u64 \<Rightarrow> byte list \<Rightarrow> ContextState \<Rightarrow> BufferManager \<Rightarrow> 'g \<Rightarrow>
     (ContextState \<times> BufferManager \<times> 'g) option" where
  "ValidateAndDoBufferSubData env target offset sz data cs bm g = do {
     buffer \<leftarrow> GetBufferInfoForTarget cs target;
     case buffer of
       None \<Rightarrow> map_option (\<lambda>cs. (cs, bm, g)) (with_error (SetGLError GL_INVALID_VALUE (Some ''unknown buffer'')) cs)
     | Some a \<Rightarrow> do {
         (es, bm, g) \<leftarrow> DoBufferSubData env a offset sz data (cs_error_state cs) bm g;
         Some (cs\<lparr>cs_error_state := es\<rparr>, bm, g)
       }
   }"

text \<open>The result is what is written to \<open>params\<close>, if anything.\<close>

definition ValidateAndDoGetBufferParameteriv ::
  "u32 \<Rightarrow> u32 \<Rightarrow> ContextState \<Rightarrow> BufferManager \<Rightarrow> (u32 option \<times> ContextState) option" where
  "ValidateAndDoGetBufferParameteriv target pname cs bm = do {
     buffer \<leftarrow> GetBufferInfoForTarget cs target;
     case buffer of
       None \<Rightarrow> map_option (Pair None)
                 (with_error (SetGLError GL_INVALID_OPERATION (Some ''no buffer bound for target'')) cs)
     | Some a \<Rightarrow> do {
         b \<leftarrow> map_of (bm_objects bm) a;
         if pname = GL_BUFFER_SIZE then Some (Some (ucast (gb_size b)), cs)
         else if pname = GL_BUFFER_USAGE then Some (Some (gb_usage b), cs)
         else None
       }
   }"

subsection \<open>Ranges and indices\<close>

lemma le_nat_less: "le_nat xs < 256 ^ length xs"
proof (induction xs)
  case (Cons x xs)
  have "unat x < 256" using unsigned_less [of x] by simp
  with Cons show ?case by simp
qed simp

lemma element_less: "w \<le> 4 \<Longrightarrow> element w data offset i < 2 ^ 32"
proof -
  assume "w \<le> 4"
  have "le_nat (take w (drop (offset + w * i) data)) < 256 ^ length (take w (drop (offset + w * i) data))" by (rule le_nat_less)
  also have "\<dots> \<le> 256 ^ 4" using \<open>w \<le> 4\<close> by (intro power_increasing) auto
  finally show ?thesis by (simp add: element_def)
qed

definition largest_element :: "nat \<Rightarrow> byte list \<Rightarrow> nat \<Rightarrow> nat \<Rightarrow> nat" where
  "largest_element w data offset n = Max (insert 0 (element w data offset ` {..<n}))"

lemma GetMaxValue_loop_exact:
  assumes "w \<le> 4" "offset + w * (i + n) \<le> length data"
  shows "GetMaxValue_loop w data offset i n m =
    Some (of_nat (Max (insert (unat m) (element w data offset ` {i..<i + n}))))"
  using assms(2)
proof (induction n arbitrary: i m)
  case (Suc n)
  let ?e = "element w data offset i"
  let ?v = "of_nat ?e :: u32"
  have v: "unat ?v = ?e" using element_less [OF assms(1)] by (intro unat_of_nat_u32)
  have m': "unat (if m < ?v then ?v else m) = max (unat m) ?e"
    using v by (auto simp: word_less_nat_alt)
  have "GetMaxValue_loop w data offset i (Suc n) m =
      GetMaxValue_loop w data offset (Suc i) n (if m < ?v then ?v else m)"
    using Suc.prems by (simp add: Let_def algebra_simps)
  also have "\<dots> = Some (of_nat (Max (insert (max (unat m) ?e) (element w data offset ` {Suc i..<Suc i + n}))))"
    using Suc.prems by (subst Suc.IH) (simp_all add: m')
  also have "Max (insert (max (unat m) ?e) (element w data offset ` {Suc i..<Suc i + n})) =
      Max (insert (unat m) (element w data offset ` {i..<i + Suc n}))"
  proof -
    have "{i..<i + Suc n} = insert i {Suc i..<Suc i + n}" by auto
    then show ?thesis
      by (cases "element w data offset ` {Suc i..<Suc i + n} = {}") (simp_all add: max.assoc)
  qed
  finally show ?case .
qed simp

text \<open>
  The reference for \<open>GetMaxValueForRange\<close>: the largest of \<open>count\<close> indices of a type from a byte offset on, where the type is one a draw call
  may use, the range lies in the shadowed bytes and the offset is aligned.
\<close>

definition index_width :: "u32 \<Rightarrow> nat option" where
  "index_width type = map_of [(GL_UNSIGNED_BYTE, 1), (GL_UNSIGNED_SHORT, 2), (GL_UNSIGNED_INT, 4)] type"

definition largest_index :: "GlBuffer \<Rightarrow> u32 \<Rightarrow> u32 \<Rightarrow> u32 \<Rightarrow> u32 option" where
  "largest_index b offset count type =
     (case (gb_shadow b, index_width type) of
        (Some data, Some w) \<Rightarrow>
          if w dvd unat offset \<and> unat offset + w * unat count \<le> length data
          then Some (of_nat (largest_element w data (unat offset) (nat (sint count)))) else None
      | _ \<Rightarrow> None)"

definition shadow_ok :: "GlBuffer \<Rightarrow> bool" where
  "shadow_ok b \<longleftrightarrow> unat (gb_size b) < 2 ^ 32 \<and>
     (if gb_shadowed b then map_option length (gb_shadow b) = Some (unat (gb_size b)) else gb_shadow b = None)"

definition cache_ok :: "GlBuffer \<Rightarrow> bool" where
  "cache_ok b \<longleftrightarrow> (\<forall>((offset, count, type), v) \<in> set (gb_range_set b). largest_index b offset count type = Some v)"

definition gl_buffer_ok :: "GlBuffer \<Rightarrow> bool" where
  "gl_buffer_ok b \<longleftrightarrow> shadow_ok b \<and> cache_ok b \<and> (gb_is_client_side_array b \<longrightarrow> gb_shadowed b)"

lemma index_width_cases:
  assumes "index_width type = Some w"
  obtains "type = GL_UNSIGNED_BYTE" "w = 1" | "type = GL_UNSIGNED_SHORT" "w = 2" | "type = GL_UNSIGNED_INT" "w = 4"
  using assms by (auto simp: index_width_def split: if_splits)

lemma and_mask_dvd: "(x :: u32) AND 1 = 0 \<longleftrightarrow> 2 dvd unat x" "(x :: u32) AND 3 = 0 \<longleftrightarrow> 4 dvd unat x"
proof -
  have "x AND 1 = 0 \<longleftrightarrow> unat (take_bit 1 x) = 0" "x AND 3 = 0 \<longleftrightarrow> unat (take_bit 2 x) = 0"
    by (simp_all add: take_bit_eq_mask mask_eq_exp_minus_1 unsigned_eq_0_iff)
  then show "x AND 1 = 0 \<longleftrightarrow> 2 dvd unat x" "x AND 3 = 0 \<longleftrightarrow> 4 dvd unat x"
    by (simp_all add: take_bit_eq_mod unat_mod dvd_eq_mod_eq_0)
qed

lemma largest_index_cache [simp]: "largest_index (b\<lparr>gb_range_set := rs\<rparr>) = largest_index b"
  by (intro ext) (simp add: largest_index_def)

lemma nat_sint_le: "nat (sint (c :: u32)) \<le> unat c"
  using sint_nonneg_u32 [of c] sint_nonneg_u32_iff [of c] by (cases "unat c < 2 ^ 31") auto

lemma largest_index_bound:
  assumes "largest_index b offset count type = Some m" "gb_shadow b = Some data" "index_width type = Some w" "i < nat (sint count)"
  shows "unat offset + w * i + w \<le> length data \<and> element w data (unat offset) i \<le> unat m"
proof -
  let ?E = "insert 0 (element w data (unat offset) ` {..<nat (sint count)})"
  have w: "w \<le> 4" using assms(3) by (auto elim: index_width_cases)
  from assms(1-3) have m: "m = of_nat (Max ?E)" "unat offset + w * unat count \<le> length data"
    by (auto simp: largest_index_def largest_element_def split: if_splits)
  have "Max ?E \<in> ?E" by (rule Max_in) auto
  then have "unat m = Max ?E" using element_less [OF w] m(1) by (auto intro!: unat_of_nat_u32)
  moreover have "element w data (unat offset) i \<le> Max ?E" using assms(4) by (intro Max_ge) auto
  moreover have "w * Suc i \<le> w * unat count" using assms(4) nat_sint_le [of count] by (intro mult_left_mono) auto
  ultimately show ?thesis using m(2) by (simp add: algebra_simps)
qed

lemma index_scan_exact:
  assumes "shadow_ok b" "index_width type = Some w" "map_of (gb_range_set b) (offset, count, type) = None"
  shows "GetMaxValueForRange offset count type b =
    Some (largest_index b offset count type,
          case largest_index b offset count type of
            None \<Rightarrow> b | Some v \<Rightarrow> b\<lparr>gb_range_set := ((offset, count, type), v) # gb_range_set b\<rparr>)"
proof -
  have w: "unat (ucast (GetGLTypeSizeForTexturesAndBuffers type) :: u32) = w" "0 < w" "w \<le> 4"
    using assms(2) by (auto elim!: index_width_cases simp: GetGLTypeSizeForTexturesAndBuffers_def)
  have sz: "unat (ucast (gb_size b) :: u32) = unat (gb_size b)"
    using assms(1) by (simp add: shadow_ok_def unsigned_ucast_eq take_bit_nat_eq_self)
  let ?last = "unat offset + w * unat count"
  have fits: "(case SafeMultiplyUint32 count (ucast (GetGLTypeSizeForTexturesAndBuffers type)) of
       (ok, sz) \<Rightarrow> if \<not> ok then no else case SafeAddUint32 offset sz of
         (ok, sz) \<Rightarrow> if \<not> ok then no else if (ucast (gb_size b) :: u32) < sz then no else yes) =
      (if ?last \<le> unat (gb_size b) then yes else no)" for no yes :: "(u32 option \<times> GlBuffer) option"
  proof -
    have "unat (gb_size b) < 2 ^ 32" using assms(1) by (simp add: shadow_ok_def)
    then show ?thesis
      using w(1) sz unat_of_nat_u32 [of "unat count * w"] unat_of_nat_u32 [of ?last]
      by (auto simp: SafeMultiplyUint32_exact SafeAddUint32_exact word_less_nat_alt mult.commute)
  qed
  have scan: "GetMaxValue w (gb_shadow b) offset count =
      Some (of_nat (largest_element w data (unat offset) (nat (sint count))))"
    if "gb_shadow b = Some data" "?last \<le> length data" for data
  proof -
    have "w * nat (sint count) \<le> w * unat count" by (intro mult_left_mono nat_sint_le) simp
    with that(2) have "unat offset + w * (0 + nat (sint count)) \<le> length data"
      using order_trans add_left_mono add_0 by metis
    then show ?thesis using GetMaxValue_loop_exact [OF w(3)] that(1)
      by (simp add: GetMaxValue_def largest_element_def atLeast0LessThan)
  qed
  have aligned: "(if type = GL_UNSIGNED_BYTE then map_option Some (GetMaxValue 1 (gb_shadow b) offset count)
                  else if type = GL_UNSIGNED_SHORT then
                    if offset AND 1 \<noteq> 0 then Some None
                    else map_option Some (GetMaxValue 2 (gb_shadow b) offset count)
                  else if type = GL_UNSIGNED_INT then
                    if offset AND 3 \<noteq> 0 then Some None
                    else map_option Some (GetMaxValue 4 (gb_shadow b) offset count)
                  else None) =
      (if w dvd unat offset then map_option Some (GetMaxValue w (gb_shadow b) offset count) else Some None)"
    using assms(2) by (auto elim!: index_width_cases simp: and_mask_dvd)
  show ?thesis
    using assms scan
    unfolding GetMaxValueForRange_def Let_def aligned fits
    by (auto simp: largest_index_def shadow_ok_def split: option.splits if_splits)
qed

lemma GetMaxValueForRange_exact:
  assumes "gl_buffer_ok b" "index_width type = Some w"
  shows "\<exists>rs. GetMaxValueForRange offset count type b =
      Some (largest_index b offset count type, b\<lparr>gb_range_set := rs\<rparr>) \<and> gl_buffer_ok (b\<lparr>gb_range_set := rs\<rparr>)"
proof (cases "map_of (gb_range_set b) (offset, count, type)")
  case (Some v)
  then have "largest_index b offset count type = Some v"
    using assms(1) map_of_SomeD by (fastforce simp: gl_buffer_ok_def cache_ok_def)
  then show ?thesis using Some assms(1) by (intro exI [of _ "gb_range_set b"]) (simp add: GetMaxValueForRange_def)
next
  case None
  let ?rs = "(case largest_index b offset count type of None \<Rightarrow> gb_range_set b
              | Some v \<Rightarrow> ((offset, count, type), v) # gb_range_set b)"
  have "gl_buffer_ok (b\<lparr>gb_range_set := ?rs\<rparr>)"
    using assms(1) by (auto simp: gl_buffer_ok_def shadow_ok_def cache_ok_def split: option.split)
  then show ?thesis
    using index_scan_exact [OF _ assms(2) None] assms(1)
    by (intro exI [of _ ?rs]) (auto simp: gl_buffer_ok_def split: option.splits)
qed

subsection \<open>Operations on one buffer\<close>

lemma sint_nonneg_u64:
  assumes "unat (x :: u64) < 2 ^ 63"
  shows "sint x = int (unat x)"
proof -
  have "uint x < 2 ^ 63" using assms by (metis of_nat_less_iff of_nat_numeral of_nat_power of_nat_unat)
  moreover have "- (2 ^ 63) \<le> uint x" by (rule order_trans [of _ 0]) simp_all
  ultimately have "signed_take_bit 63 (uint x) = uint x" by (intro signed_take_bit_int_eq_self)
  then show ?thesis by (simp add: sint_uint)
qed

lemma sint_nonneg_u64_iff: "0 \<le> sint (x :: u64) \<longleftrightarrow> unat x < 2 ^ 63"
proof
  assume nn: "0 \<le> sint x"
  have lt: "sint x < 2 ^ 63" using sint_lt [of x] by simp
  have "uint (word_of_int (sint x) :: u64) = take_bit LENGTH(64) (sint x)" by (rule uint_word_of_int_eq)
  also have "\<dots> = sint x" using nn lt by (intro take_bit_int_eq_self) simp_all
  finally have "int (unat x) = sint x" by simp
  with lt have "int (unat x) < int (2 ^ 63)" by simp
  then show "unat x < 2 ^ 63" by (simp only: of_nat_less_iff)
qed (simp add: sint_nonneg_u64)

lemma sint_scast_u64: "sint (scast (x :: u32) :: u64) = sint x"
proof -
  have "signed_take_bit 63 (sint x) = sint x"
    using sint_lt [of x] sint_ge [of x] by (intro signed_take_bit_int_eq_self) simp_all
  then show ?thesis by (simp add: signed_scast_eq)
qed

lemma SafeAddInt32_nonneg:
  assumes "unat a < 2 ^ 31" "unat b < 2 ^ 31"
  shows "SafeAddInt32 a b = (if unat a + unat b < 2 ^ 31 then (True, of_nat (unat a + unat b)) else (False, 0))"
proof -
  let ?n = "unat a + unat b"
  have s: "(scast x :: u64) = of_nat (unat x)" if "unat x < 2 ^ 31" for x :: u32
  proof -
    have "(scast x :: u64) = word_of_int (sint x)" by simp
    then show ?thesis using sint_nonneg_u32 [OF that] by simp
  qed
  have sum64: "(scast a :: u64) + scast b = of_nat ?n" using s [OF assms(1)] s [OF assms(2)] by simp
  have n: "?n < 2 ^ 32" using assms by simp
  then have u: "unat (of_nat ?n :: u64) = ?n" by (subst unsigned_of_nat) (simp add: take_bit_nat_eq_self)
  have sum32: "(ucast (of_nat ?n :: u64) :: u32) = of_nat ?n"
    using n u by (simp add: word_unat_eq_iff unsigned_ucast_eq unat_of_nat_u32 take_bit_nat_eq_self del: of_nat_add)
  have "(of_nat ?n :: u64) = scast (of_nat ?n :: u32) \<longleftrightarrow> ?n < 2 ^ 31"
  proof
    assume eq: "(of_nat ?n :: u64) = scast (of_nat ?n :: u32)"
    have "0 \<le> sint (of_nat ?n :: u64)" using u n by (simp only: sint_nonneg_u64_iff) simp
    then have "0 \<le> sint (of_nat ?n :: u32)" unfolding eq sint_scast_u64 .
    then show "?n < 2 ^ 31" unfolding sint_nonneg_u32_iff unat_of_nat_u32 [OF n] .
  next
    assume "?n < 2 ^ 31"
    then show "(of_nat ?n :: u64) = scast (of_nat ?n :: u32)" using s unat_of_nat_u32 [OF n] by metis
  qed
  then show ?thesis unfolding SafeAddInt32_def sum64 Let_def sum32 by simp
qed

lemma CheckRange_exact:
  assumes "unat (gb_size b) < 2 ^ 32"
  shows "CheckRange offset sz b \<longleftrightarrow> unat offset + unat sz < 2 ^ 31 \<and> unat offset + unat sz \<le> unat (gb_size b)"
proof -
  have small: "0 \<le> sint x \<and> sint x \<le> 2147483647 \<longleftrightarrow> unat x < 2 ^ 31" for x :: u64
    using sint_nonneg_u64 [of x] sint_nonneg_u64_iff [of x] by (cases "unat x < 2 ^ 63") (auto simp del: of_nat_unat)
  have size: "sint (gb_size b) = int (unat (gb_size b))" using assms by (intro sint_nonneg_u64) simp
  show ?thesis
  proof (cases "unat offset < 2 ^ 31 \<and> unat sz < 2 ^ 31")
    case True
    have u: "unat (ucast x :: u32) = unat x" if "unat x < 2 ^ 31" for x :: u64
      using that by (simp add: unsigned_ucast_eq take_bit_nat_eq_self)
    have "sint (of_nat n :: u32) = int n" if "n < 2 ^ 31" for n
      using that sint_nonneg_u32 [of "of_nat n"] unat_of_nat_u32 [of n] by (simp del: of_nat_unat)
    then show ?thesis using True small [of offset] small [of sz] size
      by (auto simp: CheckRange_def SafeAddInt32_nonneg u simp del: of_nat_add of_nat_unat)
  next
    case False
    then show ?thesis using small [of offset] small [of sz] by (auto simp: CheckRange_def)
  qed
qed

lemma copy_bytes_length: "copy_bytes off n data dst = Some bs \<Longrightarrow> length bs = length dst"
  by (auto simp: copy_bytes_def split: if_splits)

lemma gl_buffer_ok_init: "gl_buffer_ok (Buffer_init service_id)"
  by (simp add: gl_buffer_ok_def shadow_ok_def cache_ok_def Buffer_init_def)

lemma gl_buffer_ok_MarkAsDeleted: "gl_buffer_ok b \<Longrightarrow> gl_buffer_ok (MarkAsDeleted b)"
  by (simp add: gl_buffer_ok_def shadow_ok_def cache_ok_def MarkAsDeleted_def largest_index_def)

lemma gl_buffer_ok_set_target: "gl_buffer_ok b \<Longrightarrow> set_target target b = Some b' \<Longrightarrow> gl_buffer_ok b'"
  by (auto simp: gl_buffer_ok_def shadow_ok_def cache_ok_def set_target_def largest_index_def split: if_splits)

lemma cache_ok_empty: "gb_range_set b = [] \<Longrightarrow> cache_ok b"
  by (simp add: cache_ok_def)

lemma copy_bytes_all: "length data = n \<Longrightarrow> length dst = n \<Longrightarrow> copy_bytes 0 n data dst = Some data"
  by (simp add: copy_bytes_def)

lemma Buffer_SetInfo_ok:
  assumes "shadow_ok b" "unat sz < 2 ^ 32" "case data of None \<Rightarrow> True | Some d \<Rightarrow> length d = unat sz"
    "csa \<longrightarrow> shadow"
  shows "\<exists>b'. Buffer_SetInfo sz usage shadow data csa b = Some b' \<and> gl_buffer_ok b' \<and> gb_size b' = sz \<and>
    gb_target b' = gb_target b \<and> gb_shadowed b' = shadow \<and> gb_usage b' = usage \<and> gb_service_id b' = gb_service_id b \<and>
    gb_shadow b' = (if shadow then Some (case data of None \<Rightarrow> replicate (unat sz) 0 | Some d \<Rightarrow> d) else None)"
proof -
  let ?d = "case data of None \<Rightarrow> replicate (unat sz) 0 | Some d \<Rightarrow> d"
  have d: "length ?d = unat sz" using assms(3) by (cases data) auto
  obtain dst where dst: "gb_shadowed b \<Longrightarrow> gb_shadow b = Some dst \<and> length dst = unat (gb_size b)"
    using assms(1) by (auto simp: shadow_ok_def split: if_splits)
  show ?thesis
  proof (cases "sz \<noteq> gb_size b \<or> shadow \<noteq> gb_shadowed b")
    case True
    then show ?thesis using assms(2,4) d copy_bytes_all [OF d]
      by (cases shadow) (auto simp: Buffer_SetInfo_def ClearCache_def gl_buffer_ok_def shadow_ok_def cache_ok_empty)
  next
    case False
    then show ?thesis using assms(1,2,4) d dst copy_bytes_all [OF d]
      by (cases shadow) (auto simp: Buffer_SetInfo_def ClearCache_def gl_buffer_ok_def shadow_ok_def cache_ok_empty)
  qed
qed

lemma SetRange_ok:
  assumes "gl_buffer_ok b" "length data = unat sz"
  shows "\<exists>b'. SetRange offset sz data b = Some (CheckRange offset sz b, b') \<and> gl_buffer_ok b' \<and> gb_size b' = gb_size b \<and>
    gb_target b' = gb_target b \<and> gb_shadowed b' = gb_shadowed b \<and> gb_service_id b' = gb_service_id b \<and>
    gb_shadow b' = (if CheckRange offset sz b then
       map_option (\<lambda>d. take (unat offset) d @ data @ drop (unat offset + unat sz) d) (gb_shadow b) else gb_shadow b)"
proof (cases "CheckRange offset sz b \<and> gb_shadowed b")
  case True
  then obtain dst where dst: "gb_shadow b = Some dst" "length dst = unat (gb_size b)"
    using assms(1) by (auto simp: gl_buffer_ok_def shadow_ok_def)
  have "unat offset + unat sz \<le> length dst"
    using True assms(1) dst(2) CheckRange_exact [of b offset sz] by (simp add: gl_buffer_ok_def shadow_ok_def)
  then show ?thesis
    using True assms dst
    by (auto simp: SetRange_def copy_bytes_def ClearCache_def gl_buffer_ok_def shadow_ok_def cache_ok_empty)
next
  case False
  then show ?thesis using assms(1) by (auto simp: SetRange_def gl_buffer_ok_def shadow_ok_def)
qed

subsection \<open>Every sequence of calls\<close>

definition live_bytes :: "(nat \<times> GlBuffer) list \<Rightarrow> nat" where
  "live_bytes objects = sum_list (map (\<lambda>(a, b). unat (gb_size b)) objects)"

lemma live_bytes_simps [simp]:
  "live_bytes [] = 0" "live_bytes ((a, b) # xs) = unat (gb_size b) + live_bytes xs"
  by (simp_all add: live_bytes_def)

lemma live_bytes_delete:
  "distinct (map fst xs) \<Longrightarrow> map_of xs a = Some b \<Longrightarrow> live_bytes (AList.delete a xs) + unat (gb_size b) = live_bytes xs"
proof (induction xs)
  case (Cons x xs)
  then show ?case by (cases "fst x = a") (auto simp: AList.delete_id live_bytes_def split: if_splits prod.split)
qed simp

lemma length_delete:
  "distinct (map fst xs) \<Longrightarrow> map_of xs a = Some b \<Longrightarrow> Suc (length (AList.delete a xs)) = length xs"
proof (induction xs)
  case (Cons x xs)
  then show ?case by (cases "fst x = a") (auto simp: AList.delete_id split: if_splits)
qed simp

lemma keys_delete: "fst ` set (AList.delete a xs) = fst ` set xs - {a}" "set (AList.delete a xs) \<subseteq> set xs"
  by (auto simp: AList.delete_eq)

lemma values_delete:
  "distinct (map fst xs) \<Longrightarrow> map_of xs k = Some v \<Longrightarrow> snd ` set xs = insert v (snd ` set (AList.delete k xs))"
proof (induction xs)
  case (Cons x xs)
  then show ?case by (cases "fst x = k") (auto simp: AList.delete_id split: if_splits)
qed simp

lemma keys_update: "map_of xs a = Some b \<Longrightarrow> map fst (AList.update a b' xs) = map fst xs"
  by (induction xs) (auto split: if_splits)

lemma live_bytes_update:
  "map_of xs a = Some b \<Longrightarrow> live_bytes (AList.update a b' xs) + unat (gb_size b) = live_bytes xs + unat (gb_size b')"
  by (induction xs) (auto split: if_splits)

lemma live_bytes_member: "map_of xs a = Some b \<Longrightarrow> unat (gb_size b) \<le> live_bytes xs"
  by (induction xs) (auto split: if_splits intro: trans_le_add2)

lemma length_update: "map_of xs a = Some b \<Longrightarrow> length (AList.update a b' xs) = length xs"
  by (induction xs) (auto split: if_splits)

lemma live_bytes_bound:
  "\<forall>(a, b) \<in> set xs. gl_buffer_ok b \<Longrightarrow> live_bytes xs \<le> length xs * (2 ^ 32 - 1)"
  by (induction xs) (auto simp: gl_buffer_ok_def shadow_ok_def)

definition tracks :: "MemoryTypeTracker \<Rightarrow> nat \<Rightarrow> bool" where
  "tracks t n \<longleftrightarrow> n < 2 ^ 64 \<and> mem_represented t = of_nat n \<and> mem_represented_at_last_update t = of_nat n"

text \<open>
  The buffers alive are well-formed, their number is \<open>buffer_count_\<close> and the sum of their sizes is what the tracker represents. In
  \<open>manager_ok D\<close> they are those that the map, a pointer outside or \<open>D\<close> refers to.
\<close>

definition objects_ok :: "BufferManager \<Rightarrow> bool" where
  "objects_ok bm \<longleftrightarrow>
     distinct (map fst (bm_objects bm)) \<and> (\<forall>(a, b) \<in> set (bm_objects bm). a < bm_next bm \<and> gl_buffer_ok b) \<and>
     distinct (map fst (bm_buffers bm)) \<and>
     length (bm_objects bm) < 2 ^ 32 \<and> bm_buffer_count bm = of_nat (length (bm_objects bm)) \<and>
     tracks (bm_memory_tracker bm) (live_bytes (bm_objects bm))"

definition manager_ok :: "nat set \<Rightarrow> BufferManager \<Rightarrow> bool" where
  "manager_ok D bm \<longleftrightarrow>
     objects_ok bm \<and> fst ` set (bm_objects bm) = snd ` set (bm_buffers bm) \<union> set (bm_refs bm) \<union> D"

lemma UpdateMemRepresented_fst:
  "fst (UpdateMemRepresented env t g) =
     (if \<not> has_done_update t \<and> mem_represented t = mem_represented_at_last_update t then t
      else t\<lparr>has_done_update := True, mem_represented_at_last_update := mem_represented t\<rparr>)"
  by (simp add: UpdateMemRepresented_def)

lemma TrackMemAlloc_tracks:
  assumes "tracks t n" "n + unat bytes < 2 ^ 64"
  shows "tracks (fst (TrackMemAlloc env bytes t g)) (n + unat bytes)"
  using assms by (auto simp: tracks_def TrackMemAlloc_def UpdateMemRepresented_fst)

lemma unat_of_nat_u64: "n < 2 ^ 64 \<Longrightarrow> unat (of_nat n :: u64) = n"
  by (simp add: unsigned_of_nat take_bit_nat_eq_self)

lemma TrackMemFree_tracks:
  assumes "tracks t n" "unat bytes \<le> n"
  shows "\<exists>t' g'. TrackMemFree env bytes t g = Some (t', g') \<and> tracks t' (n - unat bytes)"
proof -
  have "bytes \<le> mem_represented t"
    using assms by (simp add: tracks_def word_le_nat_alt unat_of_nat_u64)
  moreover have "mem_represented t - bytes = of_nat (n - unat bytes)"
    using assms by (simp add: tracks_def of_nat_diff)
  ultimately show ?thesis
    using assms(1)
    by (cases "UpdateMemRepresented env (t\<lparr>mem_represented := mem_represented t - bytes\<rparr>) g")
      (auto simp: TrackMemFree_def tracks_def UpdateMemRepresented_def split: if_splits)
qed

lemma map_of_live: "a \<in> fst ` set xs \<Longrightarrow> \<exists>b. map_of xs a = Some b"
  by (metis domD dom_map_of_conv_image_fst)

lemma Buffer_delete_ok:
  assumes "manager_ok D bm" "a \<in> D" "a \<notin> snd ` set (bm_buffers bm)" "a \<notin> set (bm_refs bm)"
  shows "\<exists>bm' g'. Buffer_delete env a bm g = Some (bm', g') \<and> manager_ok (D - {a}) bm' \<and>
    bm_buffers bm' = bm_buffers bm \<and> bm_refs bm' = bm_refs bm"
proof -
  have inv: "objects_ok bm" and live: "fst ` set (bm_objects bm) = snd ` set (bm_buffers bm) \<union> set (bm_refs bm) \<union> D"
    using assms(1) by (simp_all add: manager_ok_def)
  note inv = inv [unfolded objects_ok_def]
  obtain b where b: "map_of (bm_objects bm) a = Some b" using map_of_live [of a "bm_objects bm"] live assms(2) by auto
  have sum: "live_bytes (AList.delete a (bm_objects bm)) + unat (gb_size b) = live_bytes (bm_objects bm)"
    and len: "Suc (length (AList.delete a (bm_objects bm))) = length (bm_objects bm)"
    using inv b by (auto intro: live_bytes_delete length_delete)
  let ?g = "if bm_have_context bm then glDeleteBuffersARB env (gb_service_id b) g else g"
  obtain t' g' where t: "TrackMemFree env (gb_size b) (bm_memory_tracker bm) ?g = Some (t', g')"
    "tracks t' (live_bytes (AList.delete a (bm_objects bm)))"
    using TrackMemFree_tracks [of "bm_memory_tracker bm" "live_bytes (bm_objects bm)" "gb_size b" env ?g] inv sum
    by (metis diff_add_inverse2 le_add2)
  let ?bm = "bm\<lparr>bm_objects := AList.delete a (bm_objects bm), bm_memory_tracker := t', bm_buffer_count := bm_buffer_count bm - 1\<rparr>"
  have "Buffer_delete env a bm g = Some (?bm, g')"
    using b t by (simp add: Buffer_delete_def StopTracking_def Let_def)
  moreover have "bm_buffer_count ?bm = of_nat (length (bm_objects ?bm))" using inv by (simp flip: len)
  then have "objects_ok ?bm"
    using inv t len keys_delete(2) [of a "bm_objects bm"] by (auto simp: objects_ok_def AList.distinct_delete)
  then have "manager_ok (D - {a}) ?bm"
    using live assms(3,4) by (simp add: manager_ok_def keys_delete) blast
  ultimately show ?thesis by (intro exI [of _ ?bm] exI [of _ g']) simp
qed

lemma Buffer_Release_ok:
  assumes "manager_ok {a} bm"
  shows "\<exists>bm' g'. Buffer_Release env a bm g = Some (bm', g') \<and> manager_ok {} bm' \<and>
    bm_buffers bm' = bm_buffers bm \<and> bm_refs bm' = bm_refs bm"
proof (cases "a \<in> snd ` set (bm_buffers bm) \<or> a \<in> set (bm_refs bm)")
  case True
  then have "manager_ok {} bm" using assms by (auto simp: manager_ok_def)
  with True show ?thesis by (simp add: Buffer_Release_def)
next
  case False
  then show ?thesis using Buffer_delete_ok [OF assms, of a env g] by (simp add: Buffer_Release_def)
qed

lemma set_update_subset: "set (AList.update a b xs) \<subseteq> insert (a, b) (set xs)"
  by (induction xs) auto

lemma set_buffer_live [simp]:
  "map_of (bm_objects bm) a = Some b \<Longrightarrow> fst ` set (bm_objects (set_buffer a b' bm)) = fst ` set (bm_objects bm)"
  by (force simp: set_buffer_def dom_update dest: map_of_SomeD)

lemma set_buffer_fields [simp]:
  "bm_buffers (set_buffer a b bm) = bm_buffers bm" "bm_refs (set_buffer a b bm) = bm_refs bm"
  by (simp_all add: set_buffer_def)

lemma set_buffer_objects_ok:
  assumes "map_of (bm_objects bm) a = Some b" "gl_buffer_ok b'" "objects_ok bm"
    "tracks t (live_bytes (bm_objects bm) - unat (gb_size b) + unat (gb_size b'))"
  shows "objects_ok (set_buffer a b' (bm\<lparr>bm_memory_tracker := t\<rparr>))"
proof -
  let ?xs = "AList.update a b' (bm_objects bm)"
  have "live_bytes ?xs = live_bytes (bm_objects bm) - unat (gb_size b) + unat (gb_size b')"
    using live_bytes_update [OF assms(1), of b'] live_bytes_member [OF assms(1)] by simp
  moreover have "\<forall>(a, b) \<in> set ?xs. a < bm_next bm \<and> gl_buffer_ok b"
    using assms map_of_SomeD [OF assms(1)] set_update_subset [of a b' "bm_objects bm"] by (fastforce simp: objects_ok_def)
  ultimately show ?thesis
    using assms(3,4) keys_update [OF assms(1), of b'] length_update [OF assms(1), of b']
    by (simp add: objects_ok_def set_buffer_def)
qed

lemma set_buffer_ok:
  assumes "manager_ok D bm" "map_of (bm_objects bm) a = Some b" "gl_buffer_ok b'" "gb_size b' = gb_size b"
  shows "manager_ok D (set_buffer a b' bm)"
proof -
  have "objects_ok bm" using assms(1) by (simp add: manager_ok_def)
  moreover have "tracks (bm_memory_tracker bm) (live_bytes (bm_objects bm) - unat (gb_size b) + unat (gb_size b'))"
    using \<open>objects_ok bm\<close> live_bytes_member [OF assms(2)] assms(4) by (simp add: objects_ok_def)
  ultimately have "objects_ok (set_buffer a b' bm)" using set_buffer_objects_ok [OF assms(2,3)] by fastforce
  then show ?thesis using assms(1,2) by (simp add: manager_ok_def)
qed

subsection \<open>The calls\<close>

lemma BufferManager_new_ok: "BufferManager_new env csa g = (bm, g') \<Longrightarrow> manager_ok {} bm"
  by (auto simp: BufferManager_new_def MemoryTypeTracker_new_def UpdateMemRepresented_def manager_ok_def objects_ok_def tracks_def)

lemma CreateBuffer_ok:
  assumes "manager_ok {} bm" "map_of (bm_buffers bm) client_id = None" "length (bm_objects bm) < 2 ^ 32 - 1"
  shows "\<exists>bm'. CreateBuffer client_id service_id bm = Some bm' \<and> manager_ok {} bm' \<and> bm_refs bm' = bm_refs bm \<and>
    length (bm_objects bm') = Suc (length (bm_objects bm)) \<and> bm_buffers bm' = (client_id, bm_next bm) # bm_buffers bm"
proof -
  let ?bm = "bm\<lparr>bm_objects := (bm_next bm, Buffer_init service_id) # bm_objects bm, bm_next := bm_next bm + 1,
    bm_buffer_count := bm_buffer_count bm + 1, bm_buffers := (client_id, bm_next bm) # bm_buffers bm\<rparr>"
  have inv: "objects_ok bm" using assms(1) by (simp add: manager_ok_def)
  have "bm_next bm \<notin> fst ` set (bm_objects bm)" using inv by (auto simp: objects_ok_def)
  moreover have "client_id \<notin> fst ` set (bm_buffers bm)" using assms(2) by (simp add: map_of_eq_None_iff)
  moreover have "gb_size (Buffer_init service_id) = 0" by (simp add: Buffer_init_def)
  ultimately have "objects_ok ?bm"
    using inv assms(3) gl_buffer_ok_init [of service_id] by (auto simp: objects_ok_def)
  then have "manager_ok {} ?bm" using assms(1) by (simp add: manager_ok_def)
  then show ?thesis using assms(2) by (simp add: CreateBuffer_def GlBuffer_new_def StartTracking_def)
qed

lemma RemoveBuffer_ok:
  assumes "manager_ok {} bm"
  shows "\<exists>bm' g'. RemoveBuffer env client_id bm g = Some (bm', g') \<and> manager_ok {} bm' \<and> bm_refs bm' = bm_refs bm"
proof (cases "map_of (bm_buffers bm) client_id")
  case None
  then show ?thesis using assms by (simp add: RemoveBuffer_def)
next
  case (Some a)
  then have "a \<in> fst ` set (bm_objects bm)" using assms by (force simp: manager_ok_def dest: map_of_SomeD)
  then obtain b where b: "map_of (bm_objects bm) a = Some b" using map_of_live [of a] by auto
  let ?bm = "(set_buffer a (MarkAsDeleted b) bm)\<lparr>bm_buffers := AList.delete client_id (bm_buffers bm)\<rparr>"
  have "gl_buffer_ok b" using assms map_of_SomeD [OF b] by (auto simp: manager_ok_def objects_ok_def)
  then have set: "manager_ok {} (set_buffer a (MarkAsDeleted b) bm)"
    by (intro set_buffer_ok [OF assms b] gl_buffer_ok_MarkAsDeleted) (simp_all add: MarkAsDeleted_def)
  have "snd ` set (bm_buffers bm) = insert a (snd ` set (AList.delete client_id (bm_buffers bm)))"
    using assms Some by (intro values_delete) (simp_all add: manager_ok_def objects_ok_def)
  with set have "manager_ok {a} ?bm"
    by (auto simp: manager_ok_def objects_ok_def AList.distinct_delete)
  then show ?thesis using Buffer_Release_ok [of a ?bm env g] Some b by (auto simp: RemoveBuffer_def Let_def)
qed

lemma take_ref_ok: "manager_ok {} bm \<Longrightarrow> a \<in> fst ` set (bm_objects bm) \<Longrightarrow> manager_ok {} (take_ref a bm)"
  by (simp add: manager_ok_def objects_ok_def take_ref_def insert_absorb)

lemma set_remove1_insert: "a \<in> set xs \<Longrightarrow> set xs = insert a (set (remove1 a xs))"
  by (induction xs) auto

lemma drop_ref_ok:
  assumes "manager_ok {} bm" "a \<in> set (bm_refs bm)"
  shows "\<exists>bm' g'. drop_ref env a bm g = Some (bm', g') \<and> manager_ok {} bm' \<and>
    bm_buffers bm' = bm_buffers bm \<and> bm_refs bm' = remove1 a (bm_refs bm)"
proof -
  have "set (bm_refs bm) = insert a (set (remove1 a (bm_refs bm)))"
    using assms(2) by (rule set_remove1_insert)
  then have "manager_ok {a} (bm\<lparr>bm_refs := remove1 a (bm_refs bm)\<rparr>)"
    using assms by (simp add: manager_ok_def objects_ok_def)
  then show ?thesis using Buffer_Release_ok [of a _ env g] by (fastforce simp: drop_ref_def)
qed

lemma live_buffer:
  assumes "manager_ok {} bm" "a \<in> fst ` set (bm_objects bm)"
  obtains b where "map_of (bm_objects bm) a = Some b" "gl_buffer_ok b"
proof -
  obtain b where b: "map_of (bm_objects bm) a = Some b" using map_of_live [OF assms(2)] by blast
  then show ?thesis using that assms(1) map_of_SomeD [OF b] by (auto simp: manager_ok_def objects_ok_def)
qed

lemma BufferManager_SetInfo_ok:
  assumes "manager_ok {} bm" "a \<in> fst ` set (bm_objects bm)"
    "unat sz < 2 ^ 32" "case data of None \<Rightarrow> True | Some d \<Rightarrow> length d = unat sz"
  shows "\<exists>bm' g'. BufferManager_SetInfo env a sz usage data bm g = Some (bm', g') \<and> manager_ok {} bm' \<and> bm_refs bm' = bm_refs bm"
proof -
  obtain b where b: "map_of (bm_objects bm) a = Some b" "gl_buffer_ok b" using live_buffer [OF assms(1,2)] .
  have inv: "objects_ok bm" using assms(1) by (simp add: manager_ok_def)
  let ?n = "live_bytes (bm_objects bm) - unat (gb_size b)"
  obtain t g' where t: "TrackMemFree env (gb_size b) (bm_memory_tracker bm) g = Some (t, g')" "tracks t ?n"
    using TrackMemFree_tracks [of "bm_memory_tracker bm" "live_bytes (bm_objects bm)" "gb_size b" env g] inv live_bytes_member [OF b(1)]
    by (auto simp: objects_ok_def)
  define csa where "csa = IsUsageClientSideArray usage bm"
  define shadow where "shadow = (gb_target b = GL_ELEMENT_ARRAY_BUFFER \<or> bm_allow_buffers_on_multiple_targets bm \<or> csa)"
  have "shadow_ok b" using b(2) by (simp add: gl_buffer_ok_def)
  then obtain b' where b': "Buffer_SetInfo sz usage shadow data csa b = Some b'" "gl_buffer_ok b'" "gb_size b' = sz"
    using Buffer_SetInfo_ok [OF _ assms(3,4), of b csa shadow usage] by (auto simp: shadow_def)
  obtain t' g'' where t': "TrackMemAlloc env (gb_size b') t g' = (t', g'')" by fastforce
  have "live_bytes (bm_objects bm) \<le> length (bm_objects bm) * (2 ^ 32 - 1)"
    using inv by (intro live_bytes_bound) (auto simp: objects_ok_def)
  also have "\<dots> \<le> (2 ^ 32 - 1) * (2 ^ 32 - 1)" using inv by (intro mult_right_mono) (auto simp: objects_ok_def)
  finally have "?n + unat sz < 2 ^ 64" using assms(3) by simp
  then have "tracks t' (?n + unat (gb_size b'))"
    using TrackMemAlloc_tracks [OF t(2), of "gb_size b'" env g'] t' b'(3) by simp
  then have "objects_ok (set_buffer a b' (bm\<lparr>bm_memory_tracker := t'\<rparr>))" by (rule set_buffer_objects_ok [OF b(1) b'(2) inv])
  then have "manager_ok {} (set_buffer a b' (bm\<lparr>bm_memory_tracker := t'\<rparr>))"
    using assms(1) b(1) by (simp add: manager_ok_def)
  then show ?thesis using b(1) t(1) b'(1) t' by (simp add: BufferManager_SetInfo_def Let_def csa_def shadow_def)
qed

text \<open>
  What is relied on of the driver: \<open>glGetError\<close> returns one of the errors that GL defines, and calling it again and again
  comes to \<open>GL_NO_ERROR\<close> (\<open>pending\<close> bounds how often). The validators accept only the two buffer targets.
\<close>

definition gl_driver :: "'g GlEnv \<Rightarrow> ('g \<Rightarrow> nat) \<Rightarrow> bool" where
  "gl_driver env pending \<longleftrightarrow>
     (\<forall>g. fst (glGetError env g) \<in> insert GL_NO_ERROR (set gl_errors) \<and>
          (fst (glGetError env g) \<noteq> GL_NO_ERROR \<longrightarrow> pending (snd (glGetError env g)) < pending g)) \<and>
     (\<forall>target. buffer_target_valid env target \<longrightarrow> target = GL_ARRAY_BUFFER \<or> target = GL_ELEMENT_ARRAY_BUFFER)"

lemma SetGLError_returns: "e \<in> set gl_errors \<Longrightarrow> \<exists>es'. SetGLError e msg es = Some es'"
  using find_index_None [of "\<lambda>x. x = e" gl_errors]
  by (cases "find_index (\<lambda>x. x = e) gl_errors") (auto simp: SetGLError_def GLErrorToErrorBit_index Let_def)

lemma CopyRealGLErrorsToWrapper_returns:
  assumes "gl_driver env pending"
  shows "\<exists>es' g'. CopyRealGLErrorsToWrapper (glGetError env) es g = Some (es', g')"
proof (induction "pending g" arbitrary: es g rule: less_induct)
  case less
  obtain e g' where e: "glGetError env g = (e, g')" by fastforce
  show ?case
  proof (cases "e = GL_NO_ERROR")
    case True
    then show ?thesis using e by (subst CopyRealGLErrorsToWrapper.simps) simp
  next
    case False
    have "e \<in> insert GL_NO_ERROR (set gl_errors)" "pending g' < pending g"
      using assms e False unfolding gl_driver_def by (metis fst_conv snd_conv)+
    with False obtain es' where "SetGLError e (Some ''<- error from previous GL command'') es = Some es'"
      using SetGLError_returns by (metis insertE)
    then show ?thesis using less.hyps [OF \<open>pending g' < pending g\<close>, of es'] e False
      by (subst CopyRealGLErrorsToWrapper.simps) simp
  qed
qed

lemma PeekGLError_returns:
  assumes "gl_driver env pending"
  shows "\<exists>e es' g'. PeekGLError (glGetError env) es g = Some (e, es', g')"
proof -
  obtain e g' where e: "glGetError env g = (e, g')" by fastforce
  have "e \<in> insert GL_NO_ERROR (set gl_errors)" using assms e unfolding gl_driver_def by (metis fst_conv)
  then show ?thesis using SetGLError_returns [of e "Some []" es] e by (auto simp: PeekGLError_def)
qed

lemma with_error_returns:
  "e \<in> set gl_errors \<Longrightarrow> \<exists>es. with_error (SetGLError e msg) cs = Some (cs\<lparr>cs_error_state := es\<rparr>)"
  using SetGLError_returns [of e msg "cs_error_state cs"] by (auto simp: with_error_def)

lemma with_enum_error_returns: "\<exists>es. with_error (SetGLErrorInvalidEnum names v label) cs = Some (cs\<lparr>cs_error_state := es\<rparr>)"
  using with_error_returns [of GL_INVALID_ENUM] by (simp add: with_error_def SetGLErrorInvalidEnum_def gl_errors_def)

lemma DoBufferData_ok:
  assumes "gl_driver env pending" "manager_ok {} bm" "a \<in> fst ` set (bm_objects bm)"
    "unat sz < 2 ^ 32" "case data of None \<Rightarrow> True | Some d \<Rightarrow> length d = unat sz"
  shows "\<exists>es' bm' g'. DoBufferData env a sz usage data es bm g = Some (es', bm', g') \<and> manager_ok {} bm' \<and> bm_refs bm' = bm_refs bm"
proof -
  obtain b where b: "map_of (bm_objects bm) a = Some b" using live_buffer [OF assms(2,3)] by blast
  define d where "d = (case data of None \<Rightarrow> replicate (unat sz) 0 | Some d \<Rightarrow> d)"
  have d: "length d = unat sz" using assms(5) by (cases data) (auto simp: d_def)
  obtain es1 g1 where 1: "CopyRealGLErrorsToWrapper (glGetError env) es g = Some (es1, g1)"
    using CopyRealGLErrorsToWrapper_returns [OF assms(1)] by blast
  define g2 where "g2 = (if IsUsageClientSideArray usage bm
              then glBufferData env (gb_target b)
                     (if use_non_zero_size_for_client_side_stream_buffers env then 1 else 0) None usage g1
              else glBufferData env (gb_target b) sz (Some d) usage g1)"
  obtain e es3 g3 where 3: "PeekGLError (glGetError env) es1 g2 = Some (e, es3, g3)"
    using PeekGLError_returns [OF assms(1)] by blast
  have "\<exists>bm' g'. (if e = GL_NO_ERROR then BufferManager_SetInfo env a sz usage (Some d) bm g3
                 else BufferManager_SetInfo env a 0 usage None bm g3) = Some (bm', g') \<and> manager_ok {} bm' \<and> bm_refs bm' = bm_refs bm"
    using BufferManager_SetInfo_ok [OF assms(2,3,4), of "Some d" env usage g3] d
      BufferManager_SetInfo_ok [OF assms(2,3), of 0 None env usage g3] by auto
  then obtain bm' g' where 4: "(if e = GL_NO_ERROR then BufferManager_SetInfo env a sz usage (Some d) bm g3
                 else BufferManager_SetInfo env a 0 usage None bm g3) = Some (bm', g')" "manager_ok {} bm'" "bm_refs bm' = bm_refs bm"
    by blast
  have "DoBufferData env a sz usage data es bm g = Some (es3, bm', g')"
    unfolding DoBufferData_def b bind.bind_lunit Let_def
    unfolding d_def [symmetric] 1 bind.bind_lunit prod.case g2_def [symmetric] 3 4(1) by simp
  then show ?thesis using 4 by blast
qed

lemma DoBufferSubData_ok:
  assumes "manager_ok {} bm" "a \<in> fst ` set (bm_objects bm)" "length data = unat sz"
  shows "\<exists>es' bm' g'. DoBufferSubData env a offset sz data es bm g = Some (es', bm', g') \<and> manager_ok {} bm' \<and> bm_refs bm' = bm_refs bm"
proof -
  obtain b where b: "map_of (bm_objects bm) a = Some b" "gl_buffer_ok b" using live_buffer [OF assms(1,2)] .
  obtain b' where b': "SetRange offset sz data b = Some (CheckRange offset sz b, b')" "gl_buffer_ok b'" "gb_size b' = gb_size b"
    using SetRange_ok [OF b(2) assms(3)] by blast
  have "GL_INVALID_VALUE \<in> set gl_errors" by (simp add: gl_errors_def)
  from SetGLError_returns [OF this] obtain es' where "SetGLError GL_INVALID_VALUE (Some ''out of range'') es = Some es'" by blast
  then show ?thesis
    using b b' assms(1) set_buffer_ok [OF assms(1) b(1) b'(2,3)] by (simp add: DoBufferSubData_def)
qed

lemma SetTarget_ok:
  assumes "manager_ok {} bm" "a \<in> fst ` set (bm_objects bm)"
  shows "\<exists>ok bm'. BufferManager_SetTarget a target bm = Some (ok, bm') \<and> manager_ok {} bm' \<and>
    bm_buffers bm' = bm_buffers bm \<and> bm_refs bm' = bm_refs bm"
proof -
  obtain b where b: "map_of (bm_objects bm) a = Some b" "gl_buffer_ok b" using live_buffer [OF assms] .
  show ?thesis
  proof (cases "gb_target b = 0")
    case True
    then have "set_target target b = Some (b\<lparr>gb_target := target\<rparr>)" by (simp add: set_target_def)
    then show ?thesis
      using True b(1) set_buffer_ok [OF assms(1) b(1) gl_buffer_ok_set_target [OF b(2)]] by (auto simp: BufferManager_SetTarget_def)
  next
    case False
    then show ?thesis using b(1) assms(1) by (auto simp: BufferManager_SetTarget_def)
  qed
qed

lemma clear_buffers_ok:
  assumes "manager_ok {} bm" "bm_buffers bm = xs"
  shows "\<exists>bm' g'. clear_buffers env xs bm g = Some (bm', g') \<and> manager_ok {} bm' \<and> bm_buffers bm' = [] \<and> bm_refs bm' = bm_refs bm"
  using assms
proof (induction xs arbitrary: bm g)
  case (Cons x xs)
  obtain c a where x: "x = (c, a)" by fastforce
  have "manager_ok {a} (bm\<lparr>bm_buffers := xs\<rparr>)" using Cons.prems x by (simp add: manager_ok_def objects_ok_def)
  then obtain bm1 g1 where 1: "Buffer_Release env a (bm\<lparr>bm_buffers := xs\<rparr>) g = Some (bm1, g1)" "manager_ok {} bm1"
    "bm_buffers bm1 = xs" "bm_refs bm1 = bm_refs bm"
    using Buffer_Release_ok [of a "bm\<lparr>bm_buffers := xs\<rparr>" env g] by auto
  from Cons.IH [OF 1(2,3), of g1] show ?case using 1 x by auto
qed (auto simp: manager_ok_def objects_ok_def)

lemma Destroy_ok:
  assumes "manager_ok {} bm" "bm_refs bm = []"
  shows "\<exists>bm' g' g''. BufferManager_Destroy env have_context bm g = Some (bm', g') \<and> bm_objects bm' = [] \<and>
    BufferManager_delete env bm' g' = Some g''"
proof -
  have "manager_ok {} (bm\<lparr>bm_have_context := have_context\<rparr>)" using assms(1) by (simp add: manager_ok_def objects_ok_def)
  then obtain bm' g' where c: "clear_buffers env (bm_buffers bm) (bm\<lparr>bm_have_context := have_context\<rparr>) g = Some (bm', g')"
    "manager_ok {} bm'" "bm_buffers bm' = []" "bm_refs bm' = []"
    using clear_buffers_ok [of "bm\<lparr>bm_have_context := have_context\<rparr>" "bm_buffers bm" env g] assms(2) by auto
  then have "bm_objects bm' = []" by (simp add: manager_ok_def)
  then have "bm_buffer_count bm' = 0" "GetMemRepresented (bm_memory_tracker bm') = 0"
    using c(2) by (simp_all add: manager_ok_def objects_ok_def tracks_def GetMemRepresented_def)
  then show ?thesis using c \<open>bm_objects bm' = []\<close> by (simp add: BufferManager_Destroy_def BufferManager_delete_def)
qed

text \<open>
  The calls that a decoder makes, with the guards it has checked before: a name to create is new; pointers are to live buffers;
  sizes come from 32-bit fields of a command and data from memory of that size; index types are those that draw calls allow.
\<close>

datatype BufferCall =
    Create u32 u32
  | Remove u32
  | AllowMultipleTargets bool
  | TakeRef nat
  | DropRef nat
  | BindTo nat u32
  | BufferData u32 u64 "byte list option" u32 ContextState
  | BufferSubData u32 u64 u64 "byte list" ContextState
  | MaxValue nat u32 u32 u32

definition buffer_call :: "'g GlEnv \<Rightarrow> BufferCall \<Rightarrow> BufferManager \<Rightarrow> 'g \<Rightarrow> (BufferManager \<times> 'g) option" where
  "buffer_call env call bm g =
     (case call of
        Create client_id service_id \<Rightarrow> map_option (\<lambda>bm. (bm, g)) (CreateBuffer client_id service_id bm)
      | Remove client_id \<Rightarrow> RemoveBuffer env client_id bm g
      | AllowMultipleTargets allow \<Rightarrow> Some (bm\<lparr>bm_allow_buffers_on_multiple_targets := allow\<rparr>, g)
      | TakeRef a \<Rightarrow> Some (take_ref a bm, g)
      | DropRef a \<Rightarrow> drop_ref env a bm g
      | BindTo a target \<Rightarrow> map_option (\<lambda>(ok, bm). (bm, g)) (BufferManager_SetTarget a target bm)
      | BufferData target sz data usage cs \<Rightarrow>
          map_option (\<lambda>(cs, bm, g). (bm, g)) (ValidateAndDoBufferData env target sz data usage cs bm g)
      | BufferSubData target offset sz data cs \<Rightarrow>
          map_option (\<lambda>(cs, bm, g). (bm, g)) (ValidateAndDoBufferSubData env target offset sz data cs bm g)
      | MaxValue a offset count type \<Rightarrow> do {
          b \<leftarrow> map_of (bm_objects bm) a;
          (r, b) \<leftarrow> GetMaxValueForRange offset count type b;
          Some (set_buffer a b bm, g)
        })"

definition bound_live :: "ContextState \<Rightarrow> BufferManager \<Rightarrow> bool" where
  "bound_live cs bm \<longleftrightarrow>
     set_option (bound_array_buffer cs) \<union> set_option (element_array_buffer cs) \<subseteq> fst ` set (bm_objects bm)"

definition call_allowed :: "BufferManager \<Rightarrow> BufferCall \<Rightarrow> bool" where
  "call_allowed bm call \<longleftrightarrow>
     (case call of
        Create client_id _ \<Rightarrow> GetBuffer client_id bm = None \<and> length (bm_objects bm) < 2 ^ 32 - 1
      | TakeRef a \<Rightarrow> a \<in> fst ` set (bm_objects bm)
      | DropRef a \<Rightarrow> a \<in> set (bm_refs bm)
      | BindTo a _ \<Rightarrow> a \<in> fst ` set (bm_objects bm)
      | BufferData _ sz data _ cs \<Rightarrow>
          (0 \<le> sint sz \<longrightarrow> unat sz < 2 ^ 32) \<and> (case data of None \<Rightarrow> True | Some d \<Rightarrow> length d = unat sz) \<and> bound_live cs bm
      | BufferSubData target _ sz data cs \<Rightarrow>
          (target = GL_ARRAY_BUFFER \<or> target = GL_ELEMENT_ARRAY_BUFFER) \<and> length data = unat sz \<and> bound_live cs bm
      | MaxValue a _ _ type \<Rightarrow> a \<in> fst ` set (bm_objects bm) \<and> index_width type \<noteq> None
      | _ \<Rightarrow> True)"

inductive buffers_reachable :: "'g GlEnv \<Rightarrow> BufferManager \<Rightarrow> 'g \<Rightarrow> bool" for env where
  start: "BufferManager_new env csa g = (bm, g') \<Longrightarrow> buffers_reachable env bm g'"
| call: "buffers_reachable env bm g \<Longrightarrow> call_allowed bm call \<Longrightarrow> buffer_call env call bm g = Some (bm', g') \<Longrightarrow>
    buffers_reachable env bm' g'"

lemma ValidateAndDoBufferData_ok:
  assumes "gl_driver env pending" "manager_ok {} bm" "bound_live cs bm"
    "0 \<le> sint sz \<longrightarrow> unat sz < 2 ^ 32" "case data of None \<Rightarrow> True | Some d \<Rightarrow> length d = unat sz"
  shows "\<exists>es bm' g'. ValidateAndDoBufferData env target sz data usage cs bm g = Some (cs\<lparr>cs_error_state := es\<rparr>, bm', g') \<and>
    manager_ok {} bm' \<and> bm_refs bm' = bm_refs bm"
proof -
  define ok where "ok r \<longleftrightarrow> (\<exists>es bm' g'. r = Some (cs\<lparr>cs_error_state := es\<rparr>, bm', g') \<and> manager_ok {} bm' \<and> bm_refs bm' = bm_refs bm)"
    for r :: "(ContextState \<times> BufferManager \<times> 'a) option"
  have err: "ok (map_option (\<lambda>cs. (cs, bm, g)) (with_error (SetGLError e msg) cs))" if "e \<in> set gl_errors" for e msg g
    using with_error_returns [OF that, of msg cs] assms(2) by (auto simp: ok_def)
  have enum_err: "ok (map_option (\<lambda>cs. (cs, bm, g)) (with_error (SetGLErrorInvalidEnum names v label) cs))" for names v label g
    using with_enum_error_returns [of names v label cs] assms(2) by (auto simp: ok_def)
  have in_gl: "GL_INVALID_VALUE \<in> set gl_errors" "GL_OUT_OF_MEMORY \<in> set gl_errors" by (simp_all add: gl_errors_def)
  have "ok (ValidateAndDoBufferData env target sz data usage cs bm g)"
  proof (cases "buffer_target_valid env target \<and> buffer_usage_valid env usage \<and> \<not> sint sz < 0")
    case False
    then show ?thesis by (auto simp: ValidateAndDoBufferData_def err [OF in_gl(1)] enum_err)
  next
    case True
    then have "target = GL_ARRAY_BUFFER \<or> target = GL_ELEMENT_ARRAY_BUFFER" using assms(1) unfolding gl_driver_def by blast
    then obtain buffer where buffer: "GetBufferInfoForTarget cs target = Some buffer" "set_option buffer \<subseteq> fst ` set (bm_objects bm)"
      using assms(3) by (auto simp: GetBufferInfoForTarget_def bound_live_def)
    show ?thesis
    proof (cases buffer)
      case None
      then show ?thesis using True buffer by (simp add: ValidateAndDoBufferData_def err [OF in_gl(1)])
    next
      case (Some a)
      obtain available g1 where mem: "EnsureGPUMemoryAvailable env sz g = (available, g1)" by fastforce
      have "a \<in> fst ` set (bm_objects bm)" "unat sz < 2 ^ 32" using buffer Some assms(4) True by auto
      then obtain es bm' g' where "DoBufferData env a sz usage data (cs_error_state cs) bm g1 = Some (es, bm', g')"
        "manager_ok {} bm'" "bm_refs bm' = bm_refs bm"
        using DoBufferData_ok [OF assms(1,2) _ _ assms(5)] by blast
      then have "ok (DoBufferData env a sz usage data (cs_error_state cs) bm g1 \<bind>
          (\<lambda>(es, bm, g). Some (cs\<lparr>cs_error_state := es\<rparr>, bm, g)))"
        by (auto simp: ok_def)
      then show ?thesis using True buffer Some mem
        by (cases available) (simp_all add: ValidateAndDoBufferData_def err [OF in_gl(2)])
    qed
  qed
  then show ?thesis by (simp only: ok_def)
qed

lemma ValidateAndDoBufferSubData_ok:
  assumes "manager_ok {} bm" "bound_live cs bm" "target = GL_ARRAY_BUFFER \<or> target = GL_ELEMENT_ARRAY_BUFFER" "length data = unat sz"
  shows "\<exists>es bm' g'. ValidateAndDoBufferSubData env target offset sz data cs bm g = Some (cs\<lparr>cs_error_state := es\<rparr>, bm', g') \<and>
    manager_ok {} bm' \<and> bm_refs bm' = bm_refs bm"
proof -
  obtain buffer where buffer: "GetBufferInfoForTarget cs target = Some buffer" "set_option buffer \<subseteq> fst ` set (bm_objects bm)"
    using assms(2,3) by (auto simp: GetBufferInfoForTarget_def bound_live_def)
  show ?thesis
  proof (cases buffer)
    case None
    have "GL_INVALID_VALUE \<in> set gl_errors" by (simp add: gl_errors_def)
    then show ?thesis using None buffer assms(1) with_error_returns [of _ "Some ''unknown buffer''" cs]
      by (fastforce simp: ValidateAndDoBufferSubData_def)
  next
    case (Some a)
    then have "a \<in> fst ` set (bm_objects bm)" using buffer(2) by simp
    then show ?thesis
      using DoBufferSubData_ok [OF assms(1) _ assms(4), of a env offset "cs_error_state cs" g] Some buffer(1)
      by (auto simp: ValidateAndDoBufferSubData_def)
  qed
qed

lemma buffer_call_ok:
  assumes "gl_driver env pending" "manager_ok {} bm" "call_allowed bm call"
  shows "\<exists>bm' g'. buffer_call env call bm g = Some (bm', g') \<and> manager_ok {} bm'"
proof (cases call)
  case (Create client_id service_id)
  then show ?thesis using CreateBuffer_ok [OF assms(2), of client_id service_id] assms(3)
    by (auto simp: buffer_call_def call_allowed_def GetBuffer_def)
next
  case (Remove client_id)
  then show ?thesis using RemoveBuffer_ok [OF assms(2), of env client_id g] by (auto simp: buffer_call_def)
next
  case (AllowMultipleTargets allow)
  then show ?thesis using assms(2) by (auto simp: buffer_call_def manager_ok_def objects_ok_def)
next
  case (TakeRef a)
  then show ?thesis using take_ref_ok [OF assms(2)] assms(3) by (simp add: buffer_call_def call_allowed_def)
next
  case (DropRef a)
  then show ?thesis using drop_ref_ok [OF assms(2), of a env g] assms(3) by (auto simp: buffer_call_def call_allowed_def)
next
  case (BindTo a target)
  then show ?thesis using SetTarget_ok [OF assms(2), of a target] assms(3) by (auto simp: buffer_call_def call_allowed_def)
next
  case (BufferData target sz data usage cs)
  then show ?thesis
    using ValidateAndDoBufferData_ok [OF assms(1,2), of cs sz data target usage g] assms(3)
    by (auto simp: buffer_call_def call_allowed_def)
next
  case (BufferSubData target offset sz data cs)
  then show ?thesis
    using ValidateAndDoBufferSubData_ok [OF assms(2), of cs target data sz env offset g] assms(3)
    by (auto simp: buffer_call_def call_allowed_def)
next
  case (MaxValue a offset count type)
  then obtain w where w: "a \<in> fst ` set (bm_objects bm)" "index_width type = Some w"
    using assms(3) by (auto simp: call_allowed_def)
  obtain b where b: "map_of (bm_objects bm) a = Some b" "gl_buffer_ok b" using live_buffer [OF assms(2) w(1)] .
  then show ?thesis
    using GetMaxValueForRange_exact [OF b(2) w(2), of offset count] set_buffer_ok [OF assms(2) b(1)] MaxValue
    by (auto simp: buffer_call_def)
qed

lemma reachable_manager_ok:
  assumes "gl_driver env pending" "buffers_reachable env bm g"
  shows "manager_ok {} bm"
  using assms(2)
proof (induction rule: buffers_reachable.induct)
  case (start csa g bm g')
  then show ?case by (rule BufferManager_new_ok)
next
  case (call bm g c bm' g')
  then show ?case using buffer_call_ok [OF assms(1) call.IH call.hyps(2), of g] by auto
qed

subsection \<open>Properties\<close>

text \<open>Runs of calls, each allowed where it is made.\<close>

fun buffer_calls :: "'g GlEnv \<Rightarrow> BufferCall list \<Rightarrow> BufferManager \<Rightarrow> 'g \<Rightarrow> (BufferManager \<times> 'g) option" where
  "buffer_calls env [] bm g = Some (bm, g)"
| "buffer_calls env (call # calls) bm g = do {
     dcheck (call_allowed bm call);
     (bm, g) \<leftarrow> buffer_call env call bm g;
     buffer_calls env calls bm g
   }"

lemma buffer_calls_reachable:
  "buffers_reachable env bm g \<Longrightarrow> buffer_calls env calls bm g = Some (bm', g') \<Longrightarrow> buffers_reachable env bm' g'"
  by (induction calls arbitrary: bm g)
    (auto split: if_splits prod.splits Option.bind_splits intro: buffers_reachable.call)

text \<open>An example: a driver without errors, and an index buffer with the indices 1, 5, 2 and 9.\<close>

definition demo_gl :: "unit GlEnv" where
  "demo_gl = \<lparr>glGetError = \<lambda>g. (GL_NO_ERROR, g), glBufferData = \<lambda>_ _ _ _ g. g, glBufferSubData = \<lambda>_ _ _ _ g. g,
     glDeleteBuffersARB = \<lambda>_ g. g, memory_tracker = None,
     buffer_target_valid = \<lambda>t. t = GL_ARRAY_BUFFER \<or> t = GL_ELEMENT_ARRAY_BUFFER,
     buffer_usage_valid = \<lambda>u. u = GL_STATIC_DRAW \<or> u = GL_STREAM_DRAW,
     use_non_zero_size_for_client_side_stream_buffers = False, enum_names = []\<rparr>"

definition demo_context :: ContextState where
  "demo_context = \<lparr>bound_array_buffer = None, element_array_buffer = Some 0, cs_error_state = ErrorState_new\<rparr>"

definition demo_calls :: "BufferCall list" where
  "demo_calls =
     [Create 1 7, TakeRef 0, BindTo 0 GL_ELEMENT_ARRAY_BUFFER,
      BufferData GL_ELEMENT_ARRAY_BUFFER 4 (Some [1, 5, 2, 9]) GL_STATIC_DRAW demo_context,
      MaxValue 0 0 3 GL_UNSIGNED_BYTE]"

definition demo_buffer :: GlBuffer where
  "demo_buffer =
     \<lparr>gb_size = 4, gb_deleted = False, gb_shadowed = True, gb_is_client_side_array = False, gb_service_id = 7,
      gb_target = GL_ELEMENT_ARRAY_BUFFER, gb_usage = GL_STATIC_DRAW, gb_shadow = Some [1, 5, 2, 9],
      gb_range_set = [((0, 3, GL_UNSIGNED_BYTE), 5)]\<rparr>"

definition demo_manager :: BufferManager where
  "demo_manager =
     \<lparr>bm_memory_tracker = \<lparr>has_done_update = True, mem_represented = 4, mem_represented_at_last_update = 4\<rparr>,
      bm_objects = [(0, demo_buffer)], bm_next = 1, bm_buffers = [(1, 0)], bm_refs = [0],
      bm_allow_buffers_on_multiple_targets = False, bm_buffer_count = 1, bm_have_context = True,
      bm_use_client_side_arrays_for_stream_buffers = False\<rparr>"

lemma demo_gl_driver: "gl_driver demo_gl (\<lambda>_. 0)"
  by (simp add: gl_driver_def demo_gl_def)

lemma demo_gl_fields [simp]:
  "glGetError demo_gl = (\<lambda>g. (GL_NO_ERROR, g))"
  "CopyRealGLErrorsToWrapper (\<lambda>g. (GL_NO_ERROR, g)) es (g :: unit) = Some (es, g)"
  "GetMaxValue_loop (Suc 0) [1, 5, 2, 9] 0 0 3 0 = Some 5"
proof -
  show "CopyRealGLErrorsToWrapper (\<lambda>g. (GL_NO_ERROR, g)) es (g :: unit) = Some (es, g)"
    by (subst CopyRealGLErrorsToWrapper.simps) simp
  show "GetMaxValue_loop (Suc 0) [1, 5, 2, 9] 0 0 3 0 = Some 5" by code_simp
qed (simp add: demo_gl_def)

lemma demo_run:
  "buffer_calls demo_gl demo_calls (fst (BufferManager_new demo_gl False ())) () = Some (demo_manager, ())"
  by (simp add: demo_calls_def demo_gl_def demo_context_def demo_manager_def demo_buffer_def
      BufferManager_new_def MemoryTypeTracker_new_def UpdateMemRepresented_def TrackMemFree_def TrackMemAlloc_def
      EnsureGPUMemoryAvailable_def buffer_call_def call_allowed_def index_width_def bound_live_def
      CreateBuffer_def GlBuffer_new_def Buffer_init_def StartTracking_def GetBuffer_def take_ref_def
      BufferManager_SetTarget_def set_target_def set_buffer_def GetBufferInfoForTarget_def
      ValidateAndDoBufferData_def DoBufferData_def PeekGLError_def IsUsageClientSideArray_def BufferManager_SetInfo_def
      Buffer_SetInfo_def ClearCache_def copy_bytes_def GetMaxValueForRange_def SafeMultiplyUint32_def SafeAddUint32_def
      GetGLTypeSizeForTexturesAndBuffers_def GetMaxValue_def Let_def ErrorState_new_def)

lemma demo_reachable: "buffers_reachable demo_gl demo_manager ()"
proof -
  obtain bm where bm: "BufferManager_new demo_gl False () = (bm, ())"
    by (cases "BufferManager_new demo_gl False ()") auto
  then show ?thesis
    using demo_run buffers_reachable.start [OF bm] by (auto intro: buffer_calls_reachable)
qed

text \<open>
  C30. The manager keeps its books. In every state that calls of a decoder lead to, every further call returns and none of the
  manager's checks fails; the tracked memory is the sum of the sizes of the live buffers, \<open>buffer_count_\<close> is their number, and live are
  exactly the buffers that the map or a pointer outside refers to. When no pointer outside is left, \<open>Destroy\<close> and the destructor pass
  their checks and every buffer is gone.
\<close>

theorem buffer_manager_accounting:
  assumes "gl_driver env pending" "buffers_reachable env bm g"
  shows "(call_allowed bm call \<longrightarrow> (\<exists>bm' g'. buffer_call env call bm g = Some (bm', g'))) \<and>
    unat (GetMemRepresented (bm_memory_tracker bm)) = live_bytes (bm_objects bm) \<and>
    unat (bm_buffer_count bm) = length (bm_objects bm) \<and>
    fst ` set (bm_objects bm) = snd ` set (bm_buffers bm) \<union> set (bm_refs bm) \<and>
    (bm_refs bm = [] \<longrightarrow> (\<exists>bm' g' g''. BufferManager_Destroy env have_context bm g = Some (bm', g') \<and>
       bm_objects bm' = [] \<and> BufferManager_delete env bm' g' = Some g''))"
proof -
  have ok: "manager_ok {} bm" by (rule reachable_manager_ok [OF assms])
  then have inv: "objects_ok bm" "fst ` set (bm_objects bm) = snd ` set (bm_buffers bm) \<union> set (bm_refs bm)"
    by (simp_all add: manager_ok_def)
  have "unat (GetMemRepresented (bm_memory_tracker bm)) = live_bytes (bm_objects bm)"
    using inv(1) unat_of_nat_u64 by (simp add: objects_ok_def tracks_def GetMemRepresented_def)
  moreover have "unat (bm_buffer_count bm) = length (bm_objects bm)"
    using inv(1) unat_of_nat_u32 by (simp add: objects_ok_def)
  moreover have "\<exists>bm' g'. buffer_call env call bm g = Some (bm', g')" if "call_allowed bm call"
    using buffer_call_ok [OF assms(1) ok that, of g] by auto
  ultimately show ?thesis using Destroy_ok [OF ok, of env have_context g] inv(2) by simp
qed

theorem buffer_manager_accounting_witness:
  "(\<exists>bm' g'. buffer_call demo_gl (Remove 1) demo_manager () = Some (bm', g')) \<and> live_bytes (bm_objects demo_manager) = 4"
  using buffer_manager_accounting [OF demo_gl_driver demo_reachable, of "Remove 1" True]
  by (simp add: call_allowed_def) (simp add: demo_manager_def GetMemRepresented_def)

text \<open>
  C31. Buffers are well-formed. In every reachable state a live buffer has a shadow copy exactly if it is marked as shadowed, and
  the copy has as many bytes as the buffer; a range that \<open>GetRange\<close> hands out lies inside it; \<open>SetRange\<close> with enough data
  never writes outside and replaces exactly the bytes of the range.
\<close>

theorem buffers_well_formed:
  assumes "gl_driver env pending" "buffers_reachable env bm g" "map_of (bm_objects bm) a = Some b"
  shows "(gb_shadowed b \<longleftrightarrow> gb_shadow b \<noteq> None) \<and>
    (\<forall>data. gb_shadow b = Some data \<longrightarrow> length data = unat (gb_size b) \<and>
      (\<forall>p. GetRange offset sz b = Some p \<longrightarrow> unat p + unat sz \<le> length data) \<and>
      (length bytes = unat sz \<longrightarrow> CheckRange offset sz b \<longrightarrow>
        (\<exists>b'. SetRange offset sz bytes b = Some (True, b') \<and>
          gb_shadow b' = Some (take (unat offset) data @ bytes @ drop (unat offset + unat sz) data))))"
proof -
  have "(a, b) \<in> set (bm_objects bm)" using assms(3) by (rule map_of_SomeD)
  then have ok: "gl_buffer_ok b" using reachable_manager_ok [OF assms(1,2)] by (auto simp: manager_ok_def objects_ok_def)
  then have shadow: "unat (gb_size b) < 2 ^ 32"
    "if gb_shadowed b then map_option length (gb_shadow b) = Some (unat (gb_size b)) else gb_shadow b = None"
    by (simp_all add: gl_buffer_ok_def shadow_ok_def)
  show ?thesis
    using shadow(2) CheckRange_exact [OF shadow(1), of offset sz] SetRange_ok [OF ok, of bytes sz offset]
    by (auto simp: GetRange_def split: if_splits)
qed

theorem buffers_well_formed_witness:
  "gb_shadow demo_buffer \<noteq> None \<and>
   (\<exists>b'. SetRange 1 2 [7, 8] demo_buffer = Some (True, b') \<and> gb_shadow b' = Some [1, 7, 8, 9])"
proof -
  have "map_of (bm_objects demo_manager) 0 = Some demo_buffer" by (simp add: demo_manager_def)
  moreover have "CheckRange 1 2 demo_buffer" by code_simp
  ultimately show ?thesis
    using buffers_well_formed [OF demo_gl_driver demo_reachable, of 0 demo_buffer 1 2 "[7, 8]"]
    by (auto simp: demo_buffer_def)
qed

text \<open>
  C29. The cache of \<open>GetMaxValueForRange\<close> cannot be observed. In every reachable state the call gives the same answer with and without the
  cache: nothing if the range is not aligned or not inside the shadow copy, and otherwise the largest of its indices, none of
  which exceeds it.
\<close>

theorem max_value_cache_transparent:
  assumes "gl_driver env pending" "buffers_reachable env bm g" "map_of (bm_objects bm) a = Some b" "index_width type = Some w"
  shows "\<exists>b' b''. GetMaxValueForRange offset count type b = Some (largest_index b offset count type, b') \<and>
    GetMaxValueForRange offset count type (ClearCache b) = Some (largest_index b offset count type, b'') \<and>
    (\<forall>m data i. largest_index b offset count type = Some m \<longrightarrow> gb_shadow b = Some data \<longrightarrow> i < nat (sint count) \<longrightarrow>
       unat offset + w * i + w \<le> length data \<and> element w data (unat offset) i \<le> unat m)"
proof -
  have "(a, b) \<in> set (bm_objects bm)" using assms(3) by (rule map_of_SomeD)
  then have ok: "gl_buffer_ok b" using reachable_manager_ok [OF assms(1,2)] by (auto simp: manager_ok_def objects_ok_def)
  then have ok': "gl_buffer_ok (ClearCache b)" by (simp add: gl_buffer_ok_def shadow_ok_def cache_ok_def ClearCache_def)
  show ?thesis
    using GetMaxValueForRange_exact [OF ok assms(4), of offset count] GetMaxValueForRange_exact [OF ok' assms(4), of offset count]
      largest_index_bound [OF _ _ assms(4), of b offset count]
    by (auto simp: ClearCache_def)
qed

theorem max_value_cache_transparent_witness:
  "\<exists>b'. GetMaxValueForRange 0 4 GL_UNSIGNED_BYTE demo_buffer = Some (Some 9, b')"
proof -
  have "map_of (bm_objects demo_manager) 0 = Some demo_buffer" "index_width GL_UNSIGNED_BYTE = Some 1"
    by (simp_all add: demo_manager_def index_width_def)
  moreover have "largest_index demo_buffer 0 4 GL_UNSIGNED_BYTE = Some 9" by code_simp
  ultimately show ?thesis
    using max_value_cache_transparent [OF demo_gl_driver demo_reachable, of 0 demo_buffer GL_UNSIGNED_BYTE 1 0 4] by auto
qed

end
