(* ===== verification/Id_Allocator.thy ===== *)
theory Id_Allocator
  imports Prelude
begin

section \<open>IdAllocator: resource ids\<close>

text \<open>
  Model of \<^verbatim>\<open>src/gpu/command_buffer/common/id_allocator.{h,cc}\<close>. A \<open>std::set\<close> is the sorted list of its
  elements.
\<close>

type_synonym ResourceId = u32

definition kInvalidResource :: ResourceId where "kInvalidResource = 0"

record IdAllocator =
  used_ids :: "ResourceId list"
  free_ids :: "ResourceId list"

definition IdAllocator_new :: IdAllocator where
  "IdAllocator_new = \<lparr>used_ids = [], free_ids = []\<rparr>"

definition LastUsedId :: "IdAllocator \<Rightarrow> ResourceId" where
  "LastUsedId a = (if used_ids a = [] then 0 else last (used_ids a))"

fun FindFirstUnusedId_loop :: "ResourceId list \<Rightarrow> ResourceId \<Rightarrow> ResourceId" where
  "FindFirstUnusedId_loop [] i = i"
| "FindFirstUnusedId_loop (x # xs) i = (if x \<noteq> i then i else FindFirstUnusedId_loop xs (i + 1))"

definition FindFirstUnusedId :: "IdAllocator \<Rightarrow> ResourceId" where
  "FindFirstUnusedId a = FindFirstUnusedId_loop (used_ids a) 1"

definition MarkAsUsed :: "ResourceId \<Rightarrow> IdAllocator \<Rightarrow> (bool \<times> IdAllocator) option" where
  "MarkAsUsed i a = do {
     dcheck (i \<noteq> 0);
     Some (i \<notin> set (used_ids a),
           a\<lparr>free_ids := removeAll i (free_ids a), used_ids := insort_insert i (used_ids a)\<rparr>)
   }"

definition AllocateID :: "IdAllocator \<Rightarrow> (ResourceId \<times> IdAllocator) option" where
  "AllocateID a = do {
     let i = (if free_ids a \<noteq> [] then hd (free_ids a)
              else let i = LastUsedId a + 1 in if i = 0 then FindFirstUnusedId a else i);
     (_, a) \<leftarrow> MarkAsUsed i a;
     Some (i, a)
   }"

definition AllocateIDAtOrAbove :: "ResourceId \<Rightarrow> IdAllocator \<Rightarrow> (ResourceId \<times> IdAllocator) option" where
  "AllocateIDAtOrAbove desired_id a = do {
     let i = (case dropWhile (\<lambda>x. x < desired_id) (free_ids a) of
                x # _ \<Rightarrow> x
              | [] \<Rightarrow>
                  if LastUsedId a < desired_id then desired_id
                  else let i = LastUsedId a + 1 in if i = 0 then FindFirstUnusedId a else i);
     (_, a) \<leftarrow> MarkAsUsed i a;
     Some (i, a)
   }"

definition FreeID :: "ResourceId \<Rightarrow> IdAllocator \<Rightarrow> IdAllocator" where
  "FreeID i a =
     (if i \<noteq> 0
      then a\<lparr>used_ids := removeAll i (used_ids a), free_ids := insort_insert i (free_ids a)\<rparr>
      else a)"

definition InUse :: "ResourceId \<Rightarrow> IdAllocator \<Rightarrow> bool" where
  "InUse i a \<longleftrightarrow> i = kInvalidResource \<or> i \<in> set (used_ids a)"

subsection \<open>NonReusedIdAllocator\<close>

record NonReusedIdAllocator =
  last_id :: ResourceId

definition NonReused_AllocateID :: "NonReusedIdAllocator \<Rightarrow> ResourceId \<times> NonReusedIdAllocator" where
  "NonReused_AllocateID a = (last_id a + 1, a\<lparr>last_id := last_id a + 1\<rparr>)"

definition NonReused_AllocateIDAtOrAbove ::
  "ResourceId \<Rightarrow> NonReusedIdAllocator \<Rightarrow> ResourceId \<times> NonReusedIdAllocator" where
  "NonReused_AllocateIDAtOrAbove desired_id a =
     (let a = (if last_id a < desired_id then a\<lparr>last_id := desired_id\<rparr> else a)
      in (last_id a + 1, a\<lparr>last_id := last_id a + 1\<rparr>))"

definition NonReused_MarkAsUsed :: "ResourceId \<Rightarrow> NonReusedIdAllocator \<Rightarrow> (bool \<times> NonReusedIdAllocator) option" where
  "NonReused_MarkAsUsed i a = None"

definition NonReused_FreeID :: "ResourceId \<Rightarrow> NonReusedIdAllocator \<Rightarrow> NonReusedIdAllocator" where
  "NonReused_FreeID i a = a"

definition NonReused_InUse :: "ResourceId \<Rightarrow> NonReusedIdAllocator \<Rightarrow> bool option" where
  "NonReused_InUse i a = None"

subsection \<open>Invariant\<close>

definition ids_wf :: "IdAllocator \<Rightarrow> bool" where
  "ids_wf a \<longleftrightarrow>
     sorted (used_ids a) \<and> distinct (used_ids a) \<and> sorted (free_ids a) \<and> distinct (free_ids a) \<and>
     set (used_ids a) \<inter> set (free_ids a) = {} \<and> 0 \<notin> set (used_ids a) \<union> set (free_ids a)"

lemma IdAllocator_new_wf: "ids_wf IdAllocator_new"
  by (simp add: ids_wf_def IdAllocator_new_def)

lemma sorted_removeAll: "sorted xs \<Longrightarrow> sorted (removeAll x xs)"
  by (induction xs) auto

lemma MarkAsUsed_wf:
  assumes "ids_wf a" "MarkAsUsed i a = Some (b, a')"
  shows "ids_wf a'" "set (used_ids a') = insert i (set (used_ids a))" "b \<longleftrightarrow> i \<notin> set (used_ids a)"
    "set (free_ids a') = set (free_ids a) - {i}"
  using assms
  by (auto simp: MarkAsUsed_def ids_wf_def sorted_removeAll distinct_removeAll sorted_insort_insert
      distinct_insort_insert set_insort_insert split: if_splits)

lemma FreeID_wf:
  assumes "ids_wf a"
  shows "ids_wf (FreeID i a)"
  using assms
  by (auto simp: FreeID_def ids_wf_def sorted_removeAll distinct_removeAll sorted_insort_insert
      distinct_insort_insert set_insort_insert)

text \<open>\<open>FindFirstUnusedId\<close> finds the first gap of a sorted list of ids that are at least \<open>i\<close>.\<close>

lemma FindFirstUnusedId_loop_unused:
  assumes "sorted xs" "distinct xs" "\<forall>x \<in> set xs. i \<le> x" "unat i + length xs < 2 ^ 32"
  shows "FindFirstUnusedId_loop xs i \<notin> set xs \<and>
    unat i \<le> unat (FindFirstUnusedId_loop xs i) \<and>
    unat (FindFirstUnusedId_loop xs i) \<le> unat i + length xs"
  using assms
proof (induction xs i rule: FindFirstUnusedId_loop.induct)
  case (2 x xs i)
  show ?case
  proof (cases "x = i")
    case True
    have i1: "unat (i + 1) = unat i + 1" using 2(5) by (subst unat_add_less) simp_all
    have "\<forall>y \<in> set xs. i + 1 \<le> y"
    proof
      fix y assume "y \<in> set xs"
      then have "i < y" using 2(2,3) True by (metis distinct.simps(2) le_neq_trans sorted_simps(2))
      then show "i + 1 \<le> y" using i1 by (simp add: word_less_nat_alt word_le_nat_alt)
    qed
    with 2(1) [OF _ _ _ _ ] True 2(2-5) i1 show ?thesis by (auto simp: word_le_nat_alt)
  next
    case False
    then have "i < x" using 2(4) by (simp add: order.strict_iff_order)
    then have "i \<notin> set xs" using 2(2) by force
    with False show ?thesis by auto
  qed
qed auto

lemma LastUsedId_ge: "ids_wf a \<Longrightarrow> x \<in> set (used_ids a) \<Longrightarrow> x \<le> LastUsedId a"
  by (cases "used_ids a" rule: rev_cases) (auto simp: LastUsedId_def ids_wf_def sorted_append)

text \<open>The candidate that the allocation functions fall back to.\<close>

lemma next_id_unused:
  assumes "ids_wf a" "length (used_ids a) < 2 ^ 32 - 1"
  defines "i \<equiv> let i = LastUsedId a + 1 in if i = 0 then FindFirstUnusedId a else i"
  shows "i \<noteq> 0 \<and> i \<notin> set (used_ids a)"
proof (cases "LastUsedId a + 1 = 0")
  case True
  have pos: "\<forall>x \<in> set (used_ids a). 1 \<le> x"
    using assms(1) by (auto simp: ids_wf_def word_le_nat_alt unat_eq_zero Suc_le_eq intro: gr0I)
  have "FindFirstUnusedId a \<notin> set (used_ids a) \<and> 1 \<le> unat (FindFirstUnusedId a)"
    unfolding FindFirstUnusedId_def
    using FindFirstUnusedId_loop_unused [OF _ _ pos] assms(1,2) by (auto simp: ids_wf_def)
  with True show ?thesis by (auto simp: i_def)
next
  case False
  then have "LastUsedId a < LastUsedId a + 1"
    by (metis add.commute lessI unatSuc word_less_nat_alt)
  then have "LastUsedId a + 1 \<notin> set (used_ids a)" using LastUsedId_ge [OF assms(1)] by force
  with False show ?thesis by (simp add: i_def)
qed

lemma AllocateID_fresh:
  assumes "ids_wf a" "length (used_ids a) < 2 ^ 32 - 1"
  obtains i a' where "AllocateID a = Some (i, a')" "\<not> InUse i a" "ids_wf a'"
    "\<And>j. InUse j a' \<longleftrightarrow> j = i \<or> InUse j a"
proof -
  define i where "i = (if free_ids a \<noteq> [] then hd (free_ids a)
      else let i = LastUsedId a + 1 in if i = 0 then FindFirstUnusedId a else i)"
  have i: "i \<noteq> 0" "i \<notin> set (used_ids a)"
  proof -
    have hd: "hd (free_ids a) \<noteq> 0 \<and> hd (free_ids a) \<notin> set (used_ids a)" if "free_ids a \<noteq> []"
      using assms(1) hd_in_set [OF that] by (metis Int_iff UnCI empty_iff ids_wf_def)
    show "i \<noteq> 0" "i \<notin> set (used_ids a)"
      using hd next_id_unused [OF assms] by (auto simp: i_def)
  qed
  then obtain b a' where m: "MarkAsUsed i a = Some (b, a')" by (simp add: MarkAsUsed_def)
  then have "AllocateID a = Some (i, a')" by (simp add: AllocateID_def i_def [symmetric] Let_def [of i])
  with i MarkAsUsed_wf [OF assms(1) m] that show thesis by (auto simp: InUse_def kInvalidResource_def)
qed

lemma AllocateIDAtOrAbove_fresh:
  assumes "ids_wf a" "length (used_ids a) < 2 ^ 32 - 1" "desired \<noteq> 0"
  obtains i a' where "AllocateIDAtOrAbove desired a = Some (i, a')" "\<not> InUse i a" "ids_wf a'"
    "\<And>j. InUse j a' \<longleftrightarrow> j = i \<or> InUse j a"
    "LastUsedId a < - 1 \<Longrightarrow> desired \<le> i"
proof -
  define i where "i = (case dropWhile (\<lambda>x. x < desired) (free_ids a) of
                x # _ \<Rightarrow> x
              | [] \<Rightarrow>
                  if LastUsedId a < desired then desired
                  else let i = LastUsedId a + 1 in if i = 0 then FindFirstUnusedId a else i)"
  have i: "i \<noteq> 0 \<and> i \<notin> set (used_ids a) \<and> (LastUsedId a < - 1 \<longrightarrow> desired \<le> i)"
  proof (cases "dropWhile (\<lambda>x. x < desired) (free_ids a)")
    case (Cons x xs)
    then have "x \<in> set (free_ids a)" "\<not> x < desired"
      by (metis list.set_intros(1) set_dropWhileD, metis hd_dropWhile list.discI list.sel(1))
    with Cons assms(1) show ?thesis by (auto simp: i_def ids_wf_def)
  next
    case Nil
    show ?thesis
    proof (cases "LastUsedId a < desired")
      case True
      then have "i = desired" by (simp only: i_def Nil list.case if_True)
      with True LastUsedId_ge [OF assms(1), of desired] assms(3) show ?thesis by auto
    next
      case False
      have "desired \<le> LastUsedId a + 1" if "LastUsedId a < - 1"
      proof -
        have "LastUsedId a + 1 \<noteq> 0" using that by (metis add_eq_0_iff2 less_irrefl)
        then have "unat (LastUsedId a + 1) = unat (LastUsedId a) + 1" by (metis Suc_eq_plus1 add.commute unatSuc)
        with False show ?thesis by (simp add: word_less_nat_alt word_le_nat_alt)
      qed
      moreover have "LastUsedId a + 1 \<noteq> 0" if "LastUsedId a < - 1"
        using that by (metis add_eq_0_iff2 less_irrefl)
      moreover have "i = (let i = LastUsedId a + 1 in if i = 0 then FindFirstUnusedId a else i)"
        using False by (simp only: i_def Nil list.case if_False)
      ultimately show ?thesis using next_id_unused [OF assms(1,2)] by (auto simp: Let_def)
    qed
  qed
  then obtain b a' where m: "MarkAsUsed i a = Some (b, a')" by (simp add: MarkAsUsed_def)
  then have "AllocateIDAtOrAbove desired a = Some (i, a')"
    by (simp add: AllocateIDAtOrAbove_def i_def [symmetric] Let_def [of i])
  with i MarkAsUsed_wf [OF assms(1) m] that show thesis by (auto simp: InUse_def kInvalidResource_def)
qed

lemma FreeID_InUse:
  assumes "ids_wf a" "i \<noteq> 0"
  shows "InUse j (FreeID i a) \<longleftrightarrow> j \<noteq> i \<and> InUse j a"
  using assms by (auto simp: InUse_def FreeID_def kInvalidResource_def)

subsection \<open>Runs\<close>

datatype IdOp = DoAllocate | DoAllocateAtOrAbove ResourceId | DoMark ResourceId | DoFree ResourceId

fun run_id_op :: "IdOp \<Rightarrow> IdAllocator \<Rightarrow> IdAllocator option" where
  "run_id_op DoAllocate a = map_option snd (AllocateID a)"
| "run_id_op (DoAllocateAtOrAbove i) a = map_option snd (AllocateIDAtOrAbove i a)"
| "run_id_op (DoMark i) a = map_option snd (MarkAsUsed i a)"
| "run_id_op (DoFree i) a = Some (FreeID i a)"

fun run_id_ops :: "IdOp list \<Rightarrow> IdAllocator \<Rightarrow> IdAllocator option" where
  "run_id_ops [] a = Some a"
| "run_id_ops (x # xs) a = run_id_op x a \<bind> run_id_ops xs"

lemma run_id_op_wf:
  assumes "ids_wf a" "run_id_op x a = Some a'"
  shows "ids_wf a'"
  using assms
  by (cases x) (auto simp: AllocateID_def AllocateIDAtOrAbove_def Let_def FreeID_wf dest: MarkAsUsed_wf(1)
      elim!: bind_SomeE split: prod.splits)

lemma run_id_ops_wf: "ids_wf a \<Longrightarrow> run_id_ops xs a = Some a' \<Longrightarrow> ids_wf a'"
  by (induction xs arbitrary: a) (auto elim!: bind_SomeE dest: run_id_op_wf)

subsection \<open>Properties\<close>

text \<open>
  C37. After any sequence of allocations, reservations and releases, \<open>AllocateID\<close> returns (unless all
  \<open>2 ^ 32 - 1\<close> ids are taken) an id that is neither 0 nor in use, and exactly that id becomes used;
  releasing it makes it available again and restores the set of used ids.
\<close>

theorem AllocateID_returns_unused_id:
  assumes "run_id_ops ops IdAllocator_new = Some a" "length (used_ids a) < 2 ^ 32 - 1"
  shows "\<exists>i a'. AllocateID a = Some (i, a') \<and> i \<noteq> kInvalidResource \<and> \<not> InUse i a \<and>
    (\<forall>j. InUse j a' \<longleftrightarrow> j = i \<or> InUse j a) \<and> (\<forall>j. InUse j (FreeID i a') \<longleftrightarrow> InUse j a)"
proof -
  have wf: "ids_wf a" using run_id_ops_wf [OF IdAllocator_new_wf assms(1)] .
  obtain i a' where i: "AllocateID a = Some (i, a')" "\<not> InUse i a" "ids_wf a'"
    "\<And>j. InUse j a' \<longleftrightarrow> j = i \<or> InUse j a"
    using AllocateID_fresh [OF wf assms(2)] by blast
  then have "i \<noteq> kInvalidResource" by (auto simp: InUse_def)
  with i FreeID_InUse [OF i(3), of i] show ?thesis by (auto simp: kInvalidResource_def)
qed

theorem AllocateID_returns_unused_id_witness:
  "\<exists>a i a'. run_id_ops [DoAllocate, DoMark 0xFFFFFFFF, DoAllocateAtOrAbove 5, DoFree 1] IdAllocator_new = Some a \<and>
     AllocateID a = Some (i, a') \<and> \<not> InUse i a"
proof -
  let ?ops = "[DoAllocate, DoMark 0xFFFFFFFF, DoAllocateAtOrAbove 5, DoFree 1]"
  have run: "run_id_ops ?ops IdAllocator_new =
      Some \<lparr>used_ids = [2, 0xFFFFFFFF], free_ids = [1]\<rparr>"
    by (simp add: IdAllocator_new_def AllocateID_def AllocateIDAtOrAbove_def MarkAsUsed_def LastUsedId_def
        FindFirstUnusedId_def FreeID_def insort_insert_key_def Let_def word_le_nat_alt)
  show ?thesis
    using AllocateID_returns_unused_id [OF run] run by auto
qed

end
