(* ===== verification/Vertex_Attribs.thy ===== *)
theory Vertex_Attribs
  imports Buffer_Manager Id_Allocator "HOL-Library.Multiset" "HOL-Library.Signed_Division"
begin

section \<open>Vertex attributes: which bytes a draw call may read\<close>

text \<open>
  Model of \<^verbatim>\<open>src/gpu/command_buffer/service/vertex_attrib_manager.{h,cc}\<close> and of the functions of
  \<^verbatim>\<open>gles2_cmd_decoder.cc\<close> that create, bind, delete and point into buffers and that check a draw call before it is made. The part of a
  \<open>VertexAttrib\<close> that says on which list it is (\<open>list_\<close>, \<open>it_\<close>) is the lists themselves, which hold the attributes' positions. A
  \<open>scoped_refptr\<close> is an address; assigning one takes the reference to the new buffer and then drops the old one.
\<close>

datatype AttribPtr = BufferOffset u32 | ShadowPtr nat u64

record 'g DecoderEnv =
  gl_env :: "'g GlEnv"
  glGenBuffersARB :: "nat \<Rightarrow> 'g \<Rightarrow> u32 list \<times> 'g"
  glBindBuffer :: "u32 \<Rightarrow> u32 \<Rightarrow> 'g \<Rightarrow> 'g"
  glEnableVertexAttribArray :: "u32 \<Rightarrow> 'g \<Rightarrow> 'g"
  glDisableVertexAttribArray :: "u32 \<Rightarrow> 'g \<Rightarrow> 'g"
  glVertexAttribPointer :: "u32 \<Rightarrow> u32 \<Rightarrow> u32 \<Rightarrow> bool \<Rightarrow> u32 \<Rightarrow> AttribPtr \<Rightarrow> 'g \<Rightarrow> 'g"
  glVertexAttrib4f :: "u32 \<Rightarrow> nat \<times> nat \<times> nat \<times> nat \<Rightarrow> 'g \<Rightarrow> 'g"
  vertex_attrib_type_valid :: "u32 \<Rightarrow> bool"
  vertex_attrib_size_valid :: "u32 \<Rightarrow> bool"
  draw_mode_valid :: "u32 \<Rightarrow> bool"
  index_type_valid :: "u32 \<Rightarrow> bool"
  bind_generates_resource :: bool
  disable_gpu_driver_bug_workarounds :: bool
  use_client_side_arrays_for_stream_buffers :: bool
  is_egl_gles2 :: bool

subsection \<open>One attribute\<close>

record VertexAttrib =
  va_index :: u32
  va_enabled :: bool
  va_size :: u32
  va_type :: u32
  va_offset :: u32
  va_normalized :: bool
  va_gl_stride :: u32
  va_real_stride :: u32
  va_divisor :: u32
  va_is_client_side_array :: bool
  va_buffer :: "nat option"

definition VertexAttrib_new :: VertexAttrib where
  "VertexAttrib_new =
     \<lparr>va_index = 0, va_enabled = False, va_size = 4, va_type = GL_FLOAT, va_offset = 0, va_normalized = False, va_gl_stride = 0,
      va_real_stride = 16, va_divisor = 0, va_is_client_side_array = False, va_buffer = None\<rparr>"

definition assign_ref :: "'g GlEnv \<Rightarrow> nat option \<Rightarrow> nat option \<Rightarrow> BufferManager \<Rightarrow> 'g \<Rightarrow> (BufferManager \<times> 'g) option" where
  "assign_ref env old new bm g =
     (let bm = (case new of None \<Rightarrow> bm | Some a \<Rightarrow> take_ref a bm) in
      case old of None \<Rightarrow> Some (bm, g) | Some a \<Rightarrow> drop_ref env a bm g)"

definition VertexAttrib_SetInfo ::
  "'g GlEnv \<Rightarrow> nat option \<Rightarrow> u32 \<Rightarrow> u32 \<Rightarrow> bool \<Rightarrow> u32 \<Rightarrow> u32 \<Rightarrow> u32 \<Rightarrow> VertexAttrib \<Rightarrow> BufferManager \<Rightarrow> 'g \<Rightarrow>
     (VertexAttrib \<times> BufferManager \<times> 'g) option" where
  "VertexAttrib_SetInfo env buffer sz type normalized gl_stride real_stride offset v bm g = do {
     dcheck (0 < sint real_stride);
     (bm, g) \<leftarrow> assign_ref env (va_buffer v) buffer bm g;
     Some (v\<lparr>va_buffer := buffer, va_size := sz, va_type := type, va_normalized := normalized, va_gl_stride := gl_stride,
             va_real_stride := real_stride, va_offset := offset\<rparr>, bm, g)
   }"

definition VertexAttrib_Unbind ::
  "'g GlEnv \<Rightarrow> nat \<Rightarrow> VertexAttrib \<Rightarrow> BufferManager \<Rightarrow> 'g \<Rightarrow> (VertexAttrib \<times> BufferManager \<times> 'g) option" where
  "VertexAttrib_Unbind env buffer v bm g =
     (if va_buffer v = Some buffer then do {
        (bm, g) \<leftarrow> assign_ref env (va_buffer v) None bm g;
        Some (v\<lparr>va_buffer := None\<rparr>, bm, g)
      }
      else Some (v, bm, g))"

definition CanAccess :: "BufferManager \<Rightarrow> u32 \<Rightarrow> VertexAttrib \<Rightarrow> bool option" where
  "CanAccess bm index v =
     (if \<not> va_enabled v then Some True
      else case va_buffer v of
        None \<Rightarrow> Some False
      | Some a \<Rightarrow> do {
          b \<leftarrow> map_of (bm_objects bm) a;
          if gb_deleted b then Some False
          else let buffer_size = gb_size b in
          if sint buffer_size < sint (va_offset v) \<or> va_real_stride v = 0 then Some False
          else
            let usable_size = (ucast (buffer_size - scast (va_offset v)) :: u32);
                num_elements = usable_size div va_real_stride v +
                  (if GetGLTypeSizeForTexturesAndBuffers (va_type v) * scast (va_size v)
                        \<le> (ucast (usable_size mod va_real_stride v) :: u64) then 1 else 0)
            in Some (index < num_elements)
        })"

definition MaxVertexAccessed :: "u32 \<Rightarrow> u32 \<Rightarrow> VertexAttrib \<Rightarrow> u32" where
  "MaxVertexAccessed primcount max_vertex_accessed v =
     (if primcount \<noteq> 0 \<and> va_divisor v \<noteq> 0
      then word_of_int (sint (primcount - 1) sdiv sint (va_divisor v)) else max_vertex_accessed)"

subsection \<open>The manager of attributes\<close>

record VertexAttribManager =
  num_fixed_attribs :: u32
  vertex_attribs :: "VertexAttrib list"
  vam_element_array_buffer :: "nat option"
  enabled_vertex_attribs :: "nat list"
  disabled_vertex_attribs :: "nat list"

definition VertexAttribManager_new :: VertexAttribManager where
  "VertexAttribManager_new =
     \<lparr>num_fixed_attribs = 0, vertex_attribs = [], vam_element_array_buffer = None, enabled_vertex_attribs = [],
      disabled_vertex_attribs = []\<rparr>"

text \<open>\<open>SetList\<close>: leave the list the attribute is on and go to the end of the other.\<close>

definition SetList :: "bool \<Rightarrow> nat \<Rightarrow> VertexAttribManager \<Rightarrow> VertexAttribManager" where
  "SetList enabled i m =
     m\<lparr>enabled_vertex_attribs := removeAll i (enabled_vertex_attribs m) @ (if enabled then [i] else []),
       disabled_vertex_attribs := removeAll i (disabled_vertex_attribs m) @ (if enabled then [] else [i])\<rparr>"

fun Initialize_loop :: "'g DecoderEnv \<Rightarrow> bool \<Rightarrow> nat list \<Rightarrow> VertexAttribManager \<Rightarrow> 'g \<Rightarrow> VertexAttribManager \<times> 'g" where
  "Initialize_loop env init_attribs [] m g = (m, g)"
| "Initialize_loop env init_attribs (vv # vvs) m g =
     (let m = m\<lparr>vertex_attribs := (vertex_attribs m)[vv := (vertex_attribs m ! vv)\<lparr>va_index := of_nat vv\<rparr>]\<rparr>;
          m = SetList False vv m;
          g = (if \<not> disable_gpu_driver_bug_workarounds env \<and> init_attribs
               then glVertexAttrib4f env (of_nat vv) (0, 0, 0, 1) g else g)
      in Initialize_loop env init_attribs vvs m g)"

definition VertexAttribManager_Initialize ::
  "'g DecoderEnv \<Rightarrow> u32 \<Rightarrow> bool \<Rightarrow> VertexAttribManager \<Rightarrow> 'g \<Rightarrow> VertexAttribManager \<times> 'g" where
  "VertexAttribManager_Initialize env max_vertex_attribs init_attribs m g =
     (let n = unat max_vertex_attribs;
          m = m\<lparr>vertex_attribs := take n (vertex_attribs m) @ replicate (n - length (vertex_attribs m)) VertexAttrib_new\<rparr>
      in Initialize_loop env init_attribs [0..<n] m g)"

definition VAM_Enable :: "u32 \<Rightarrow> bool \<Rightarrow> VertexAttribManager \<Rightarrow> bool \<times> VertexAttribManager" where
  "VAM_Enable index enable m =
     (let i = unat index in
      if length (vertex_attribs m) \<le> i then (False, m)
      else if va_enabled (vertex_attribs m ! i) \<noteq> enable
      then (True, SetList enable i (m\<lparr>vertex_attribs := (vertex_attribs m)[i := (vertex_attribs m ! i)\<lparr>va_enabled := enable\<rparr>]\<rparr>))
      else (True, m))"

definition GetVertexAttrib :: "u32 \<Rightarrow> VertexAttribManager \<Rightarrow> VertexAttrib option" where
  "GetVertexAttrib index m = (if unat index < length (vertex_attribs m) then Some (vertex_attribs m ! unat index) else None)"

definition SetAttribInfo ::
  "'g GlEnv \<Rightarrow> u32 \<Rightarrow> nat option \<Rightarrow> u32 \<Rightarrow> u32 \<Rightarrow> bool \<Rightarrow> u32 \<Rightarrow> u32 \<Rightarrow> u32 \<Rightarrow> VertexAttribManager \<Rightarrow> BufferManager \<Rightarrow> 'g \<Rightarrow>
     (VertexAttribManager \<times> BufferManager \<times> 'g) option" where
  "SetAttribInfo env index buffer sz type normalized gl_stride real_stride offset m bm g =
     (case GetVertexAttrib index m of
        None \<Rightarrow> Some (m, bm, g)
      | Some attrib \<Rightarrow> do {
          let m = (if va_type attrib = GL_FIXED then m\<lparr>num_fixed_attribs := num_fixed_attribs m - 1\<rparr> else m);
          let m = (if type = GL_FIXED then m\<lparr>num_fixed_attribs := num_fixed_attribs m + 1\<rparr> else m);
          (attrib, bm, g) \<leftarrow> VertexAttrib_SetInfo env buffer sz type normalized gl_stride real_stride offset attrib bm g;
          Some (m\<lparr>vertex_attribs := (vertex_attribs m)[unat index := attrib]\<rparr>, bm, g)
        })"

definition VAM_SetDivisor :: "u32 \<Rightarrow> u32 \<Rightarrow> VertexAttribManager \<Rightarrow> VertexAttribManager" where
  "VAM_SetDivisor index divisor m =
     (case GetVertexAttrib index m of
        None \<Rightarrow> m
      | Some attrib \<Rightarrow> m\<lparr>vertex_attribs := (vertex_attribs m)[unat index := attrib\<lparr>va_divisor := divisor\<rparr>]\<rparr>)"

definition SetElementArrayBuffer ::
  "'g GlEnv \<Rightarrow> nat option \<Rightarrow> VertexAttribManager \<Rightarrow> BufferManager \<Rightarrow> 'g \<Rightarrow> (VertexAttribManager \<times> BufferManager \<times> 'g) option" where
  "SetElementArrayBuffer env buffer m bm g = do {
     (bm, g) \<leftarrow> assign_ref env (vam_element_array_buffer m) buffer bm g;
     Some (m\<lparr>vam_element_array_buffer := buffer\<rparr>, bm, g)
   }"

fun Unbind_loop :: "'g GlEnv \<Rightarrow> nat \<Rightarrow> VertexAttrib list \<Rightarrow> BufferManager \<Rightarrow> 'g \<Rightarrow> (VertexAttrib list \<times> BufferManager \<times> 'g) option" where
  "Unbind_loop env buffer [] bm g = Some ([], bm, g)"
| "Unbind_loop env buffer (v # vs) bm g = do {
     (v, bm, g) \<leftarrow> VertexAttrib_Unbind env buffer v bm g;
     (vs, bm, g) \<leftarrow> Unbind_loop env buffer vs bm g;
     Some (v # vs, bm, g)
   }"

definition VAM_Unbind ::
  "'g GlEnv \<Rightarrow> nat \<Rightarrow> VertexAttribManager \<Rightarrow> BufferManager \<Rightarrow> 'g \<Rightarrow> (VertexAttribManager \<times> BufferManager \<times> 'g) option" where
  "VAM_Unbind env buffer m bm g = do {
     (m, bm, g) \<leftarrow> (if vam_element_array_buffer m = Some buffer then SetElementArrayBuffer env None m bm g else Some (m, bm, g));
     (vs, bm, g) \<leftarrow> Unbind_loop env buffer (vertex_attribs m) bm g;
     Some (m\<lparr>vertex_attribs := vs\<rparr>, bm, g)
   }"

subsection \<open>The check of a draw call\<close>

text \<open>
  \<open>program\<close> says which locations the current program uses (\<open>GetAttribInfoByLocation\<close>); the state of the loop is \<open>divisor0\<close>,
  \<open>current_buffer_id\<close>, the attributes, the error state and the driver, and the loop ends with false at the first attribute that does not pass.
\<close>

type_synonym 'g bindings = "bool \<times> bool \<times> u32 \<times> VertexAttribManager \<times> ErrorState \<times> 'g"

definition rebind :: "'g DecoderEnv \<Rightarrow> u32 \<Rightarrow> u32 \<Rightarrow> 'g \<Rightarrow> u32 \<times> 'g" where
  "rebind env new_buffer_id current_buffer_id g =
     (if new_buffer_id \<noteq> current_buffer_id then (new_buffer_id, glBindBuffer env GL_ARRAY_BUFFER new_buffer_id g)
      else (current_buffer_id, g))"

definition point_attrib :: "'g DecoderEnv \<Rightarrow> VertexAttrib \<Rightarrow> AttribPtr \<Rightarrow> 'g \<Rightarrow> 'g" where
  "point_attrib env v ptr g = glVertexAttribPointer env (va_index v) (va_size v) (va_type v) (va_normalized v) (va_gl_stride v) ptr g"

definition client_side_attrib ::
  "'g DecoderEnv \<Rightarrow> BufferManager \<Rightarrow> VertexAttrib \<Rightarrow> u32 \<Rightarrow> 'g \<Rightarrow> (VertexAttrib \<times> u32 \<times> 'g) option" where
  "client_side_attrib env bm v current_buffer_id g = do {
     a \<leftarrow> va_buffer v;
     b \<leftarrow> map_of (bm_objects bm) a;
     let g = glEnableVertexAttribArray env (va_index v) g;
     if gb_is_client_side_array b then do {
       let (current_buffer_id, g) = rebind env 0 current_buffer_id g;
       let v = v\<lparr>va_is_client_side_array := True\<rparr>;
       p \<leftarrow> GetRange (scast (va_offset v)) 0 b;
       Some (v, current_buffer_id, point_attrib env v (ShadowPtr a p) g)
     }
     else if va_is_client_side_array v then do {
       let v = v\<lparr>va_is_client_side_array := False\<rparr>;
       let (current_buffer_id, g) = rebind env (gb_service_id b) current_buffer_id g;
       Some (v, current_buffer_id, point_attrib env v (BufferOffset (va_offset v)) g)
     }
     else Some (v, current_buffer_id, g)
   }"

definition out_of_range_message :: "u32 \<Rightarrow> string" where
  "out_of_range_message index = ''attempt to access out of range vertices in attribute '' @ decimal_string index"

definition no_buffer_message :: "u32 \<Rightarrow> string" where
  "no_buffer_message index = ''attempt to render with no buffer attached to enabled attribute '' @ decimal_string index"

fun ValidateBindings_loop ::
  "'g DecoderEnv \<Rightarrow> BufferManager \<Rightarrow> (u32 \<Rightarrow> bool) \<Rightarrow> u32 \<Rightarrow> u32 \<Rightarrow> nat list \<Rightarrow> bool \<Rightarrow> u32 \<Rightarrow> VertexAttribManager \<Rightarrow>
     ErrorState \<Rightarrow> 'g \<Rightarrow> 'g bindings option" where
  "ValidateBindings_loop env bm program max_vertex_accessed primcount [] divisor0 current_buffer_id m es g =
     Some (True, divisor0, current_buffer_id, m, es, g)"
| "ValidateBindings_loop env bm program max_vertex_accessed primcount (i # is) divisor0 current_buffer_id m es g = do {
     dcheck (i < length (vertex_attribs m));
     let attrib = vertex_attribs m ! i;
     if program (va_index attrib) then do {
       let divisor0 = (divisor0 \<or> va_divisor attrib = 0);
       let count = MaxVertexAccessed primcount max_vertex_accessed attrib;
       can \<leftarrow> CanAccess bm count attrib;
       if \<not> can then do {
         es \<leftarrow> SetGLError GL_INVALID_OPERATION
                (Some (out_of_range_message (va_index attrib))) es;
         Some (False, divisor0, current_buffer_id, m, es, g)
       }
       else do {
         (attrib, current_buffer_id, g) \<leftarrow>
           (if use_client_side_arrays_for_stream_buffers env then client_side_attrib env bm attrib current_buffer_id g
            else Some (attrib, current_buffer_id, g));
         ValidateBindings_loop env bm program max_vertex_accessed primcount is divisor0 current_buffer_id
           (m\<lparr>vertex_attribs := (vertex_attribs m)[i := attrib]\<rparr>) es g
       }
     }
     else
       case va_buffer attrib of
         None \<Rightarrow> do {
           es \<leftarrow> SetGLError GL_INVALID_OPERATION
                  (Some (no_buffer_message (va_index attrib))) es;
           Some (False, divisor0, current_buffer_id, m, es, g)
         }
       | Some a \<Rightarrow> do {
           g \<leftarrow> (if use_client_side_arrays_for_stream_buffers env then do {
                    b \<leftarrow> map_of (bm_objects bm) a;
                    Some (if gb_is_client_side_array b \<and> 0 < va_index attrib
                          then glDisableVertexAttribArray env (va_index attrib) g else g)
                  }
                  else Some g);
           ValidateBindings_loop env bm program max_vertex_accessed primcount is divisor0 current_buffer_id m es g
         }
   }"

text \<open>The current context of a decoder, as far as buffers and attributes go.\<close>

record Decoder =
  d_bound_array_buffer :: "nat option"
  d_vertex_attrib_manager :: VertexAttribManager
  d_error_state :: ErrorState
  d_buffer_ids :: IdAllocator
  d_generic_error :: bool

definition service_id_of :: "BufferManager \<Rightarrow> nat option \<Rightarrow> u32 option" where
  "service_id_of bm buffer =
     (case buffer of None \<Rightarrow> Some 0 | Some a \<Rightarrow> map_option gb_service_id (map_of (bm_objects bm) a))"

definition RestoreBufferBindings :: "'g DecoderEnv \<Rightarrow> Decoder \<Rightarrow> BufferManager \<Rightarrow> 'g \<Rightarrow> 'g option" where
  "RestoreBufferBindings env d bm g = do {
     element_id \<leftarrow> service_id_of bm (vam_element_array_buffer (d_vertex_attrib_manager d));
     let g = glBindBuffer env GL_ELEMENT_ARRAY_BUFFER element_id g;
     array_id \<leftarrow> service_id_of bm (d_bound_array_buffer d);
     Some (glBindBuffer env GL_ARRAY_BUFFER array_id g)
   }"

definition ValidateBindings ::
  "'g DecoderEnv \<Rightarrow> (u32 \<Rightarrow> bool) \<Rightarrow> u32 \<Rightarrow> u32 \<Rightarrow> Decoder \<Rightarrow> BufferManager \<Rightarrow> 'g \<Rightarrow> (bool \<times> Decoder \<times> 'g) option" where
  "ValidateBindings env program max_vertex_accessed primcount d bm g = do {
     let m = d_vertex_attrib_manager d;
     (ok, divisor0, current_buffer_id, m, es, g) \<leftarrow>
       ValidateBindings_loop env bm program max_vertex_accessed primcount (enabled_vertex_attribs m) False 0xFFFFFFFF m
         (d_error_state d) g;
     let d = d\<lparr>d_vertex_attrib_manager := m, d_error_state := es\<rparr>;
     if \<not> ok then Some (False, d, g)
     else if primcount \<noteq> 0 \<and> \<not> divisor0 then do {
       es \<leftarrow> SetGLError GL_INVALID_OPERATION
              (Some ''attempt instanced render with all attributes having non-zero divisors'') es;
       Some (False, d\<lparr>d_error_state := es\<rparr>, g)
     }
     else if current_buffer_id \<noteq> 0xFFFFFFFF then do {
       g \<leftarrow> RestoreBufferBindings env d bm g;
       Some (True, d, g)
     }
     else Some (True, d, g)
   }"

subsection \<open>Calls of the decoder\<close>

definition decoder_error :: "u32 \<Rightarrow> string \<Rightarrow> Decoder \<Rightarrow> Decoder option" where
  "decoder_error error msg d = do {
     es \<leftarrow> SetGLError error (Some msg) (d_error_state d);
     Some (d\<lparr>d_error_state := es\<rparr>)
   }"

definition decoder_enum_error :: "'g DecoderEnv \<Rightarrow> u32 \<Rightarrow> string \<Rightarrow> Decoder \<Rightarrow> Decoder option" where
  "decoder_enum_error env value label d = do {
     es \<leftarrow> SetGLErrorInvalidEnum (enum_names (gl_env env)) value label (d_error_state d);
     Some (d\<lparr>d_error_state := es\<rparr>)
   }"

fun create_buffers :: "u32 list \<Rightarrow> u32 list \<Rightarrow> BufferManager \<Rightarrow> BufferManager option" where
  "create_buffers (client_id # client_ids) (service_id # service_ids) bm = do {
     bm \<leftarrow> CreateBuffer client_id service_id bm;
     create_buffers client_ids service_ids bm
   }"
| "create_buffers [] _ bm = Some bm"
| "create_buffers _ [] bm = None"

definition GenBuffersHelper ::
  "'g DecoderEnv \<Rightarrow> u32 list \<Rightarrow> BufferManager \<Rightarrow> 'g \<Rightarrow> (bool \<times> BufferManager \<times> 'g) option" where
  "GenBuffersHelper env client_ids bm g =
     (if \<exists>c \<in> set client_ids. GetBuffer c bm \<noteq> None then Some (False, bm, g)
      else do {
        let (service_ids, g) = glGenBuffersARB env (length client_ids) g;
        bm \<leftarrow> create_buffers client_ids service_ids bm;
        Some (True, bm, g)
      })"

fun DeleteBuffersHelper ::
  "'g DecoderEnv \<Rightarrow> u32 list \<Rightarrow> Decoder \<Rightarrow> BufferManager \<Rightarrow> 'g \<Rightarrow> (Decoder \<times> BufferManager \<times> 'g) option" where
  "DeleteBuffersHelper env [] d bm g = Some (d, bm, g)"
| "DeleteBuffersHelper env (client_id # client_ids) d bm g = do {
     (d, bm, g) \<leftarrow>
       (case GetBuffer client_id bm of
          None \<Rightarrow> Some (d, bm, g)
        | Some a \<Rightarrow> do {
            b \<leftarrow> map_of (bm_objects bm) a;
            if gb_deleted b then Some (d, bm, g)
            else do {
              (m, bm, g) \<leftarrow> VAM_Unbind (gl_env env) a (d_vertex_attrib_manager d) bm g;
              let d = d\<lparr>d_vertex_attrib_manager := m\<rparr>;
              (d, bm, g) \<leftarrow>
                (if d_bound_array_buffer d = Some a then do {
                   (bm, g) \<leftarrow> assign_ref (gl_env env) (d_bound_array_buffer d) None bm g;
                   Some (d\<lparr>d_bound_array_buffer := None\<rparr>, bm, g)
                 }
                 else Some (d, bm, g));
              (bm, g) \<leftarrow> RemoveBuffer (gl_env env) client_id bm g;
              Some (d, bm, g)
            }
          });
     DeleteBuffersHelper env client_ids d bm g
   }"

definition bind_target ::
  "'g DecoderEnv \<Rightarrow> u32 \<Rightarrow> nat option \<Rightarrow> u32 \<Rightarrow> Decoder \<Rightarrow> BufferManager \<Rightarrow> 'g \<Rightarrow> (Decoder \<times> BufferManager \<times> 'g) option" where
  "bind_target env target buffer service_id d bm g =
     (if target = GL_ARRAY_BUFFER then do {
        (bm, g) \<leftarrow> assign_ref (gl_env env) (d_bound_array_buffer d) buffer bm g;
        Some (d\<lparr>d_bound_array_buffer := buffer\<rparr>, bm, glBindBuffer env target service_id g)
      }
      else if target = GL_ELEMENT_ARRAY_BUFFER then do {
        (m, bm, g) \<leftarrow> SetElementArrayBuffer (gl_env env) buffer (d_vertex_attrib_manager d) bm g;
        Some (d\<lparr>d_vertex_attrib_manager := m\<rparr>, bm, glBindBuffer env target service_id g)
      }
      else None)"

definition bind_generated ::
  "'g DecoderEnv \<Rightarrow> u32 \<Rightarrow> Decoder \<Rightarrow> BufferManager \<Rightarrow> 'g \<Rightarrow> (Decoder \<times> BufferManager \<times> 'g) option" where
  "bind_generated env client_id d bm g = do {
     let (service_ids, g) = glGenBuffersARB env 1 g;
     bm \<leftarrow> create_buffers [client_id] service_ids bm;
     (_, ids) \<leftarrow> MarkAsUsed client_id (d_buffer_ids d);
     Some (d\<lparr>d_buffer_ids := ids\<rparr>, bm, g)
   }"

definition DoBindBuffer ::
  "'g DecoderEnv \<Rightarrow> u32 \<Rightarrow> u32 \<Rightarrow> Decoder \<Rightarrow> BufferManager \<Rightarrow> 'g \<Rightarrow> (Decoder \<times> BufferManager \<times> 'g) option" where
  "DoBindBuffer env target client_id d bm g =
     (if client_id = 0 then bind_target env target None 0 d bm g
      else if GetBuffer client_id bm = None \<and> \<not> bind_generates_resource env
      then Some (d\<lparr>d_generic_error := True\<rparr>, bm, g)
      else do {
        (d, bm, g) \<leftarrow>
          (if GetBuffer client_id bm = None then bind_generated env client_id d bm g else Some (d, bm, g));
        a \<leftarrow> GetBuffer client_id bm;
        (ok, bm) \<leftarrow> BufferManager_SetTarget a target bm;
        if \<not> ok then do {
          d \<leftarrow> decoder_error GL_INVALID_OPERATION ''buffer bound to more than 1 target'' d;
          Some (d, bm, g)
        }
        else do {
          service_id \<leftarrow> service_id_of bm (Some a);
          bind_target env target (Some a) service_id d bm g
        }
      })"

definition DoIsBuffer :: "u32 \<Rightarrow> BufferManager \<Rightarrow> bool option" where
  "DoIsBuffer client_id bm =
     (case GetBuffer client_id bm of
        None \<Rightarrow> Some False
      | Some a \<Rightarrow> map_option (\<lambda>b. gb_target b \<noteq> 0 \<and> \<not> gb_deleted b) (map_of (bm_objects bm) a))"

definition DoEnableVertexAttribArray ::
  "'g DecoderEnv \<Rightarrow> u32 \<Rightarrow> Decoder \<Rightarrow> 'g \<Rightarrow> (Decoder \<times> 'g) option" where
  "DoEnableVertexAttribArray env index d g =
     (let (ok, m) = VAM_Enable index True (d_vertex_attrib_manager d) in
      if ok then Some (d\<lparr>d_vertex_attrib_manager := m\<rparr>, glEnableVertexAttribArray env index g)
      else map_option (\<lambda>d. (d, g)) (decoder_error GL_INVALID_VALUE ''index out of range'' d))"

definition DoDisableVertexAttribArray ::
  "'g DecoderEnv \<Rightarrow> u32 \<Rightarrow> Decoder \<Rightarrow> 'g \<Rightarrow> (Decoder \<times> 'g) option" where
  "DoDisableVertexAttribArray env index d g =
     (let (ok, m) = VAM_Enable index False (d_vertex_attrib_manager d) in
      if ok then Some (d\<lparr>d_vertex_attrib_manager := m\<rparr>,
                       if index \<noteq> 0 \<or> is_egl_gles2 env then glDisableVertexAttribArray env index g else g)
      else map_option (\<lambda>d. (d, g)) (decoder_error GL_INVALID_VALUE ''index out of range'' d))"

text \<open>
  \<open>HandleVertexAttribPointer\<close>; \<open>is_default\<close> says that the current attribute manager is the default one. The result of \<open>offset % component_size\<close>
  is undefined for a component size of 0. The attribute manager has \<open>max_vertex_attribs\<close> attributes.
\<close>

definition HandleVertexAttribPointer ::
  "'g DecoderEnv \<Rightarrow> bool \<Rightarrow> u32 \<Rightarrow> u32 \<Rightarrow> u32 \<Rightarrow> bool \<Rightarrow> u32 \<Rightarrow> u32 \<Rightarrow> Decoder \<Rightarrow> BufferManager \<Rightarrow> 'g \<Rightarrow>
     (Decoder \<times> BufferManager \<times> 'g) option" where
  "HandleVertexAttribPointer env is_default indx sz type normalized stride offset d bm g = do {
     no_buffer \<leftarrow> (case d_bound_array_buffer d of
                      None \<Rightarrow> Some True
                    | Some a \<Rightarrow> map_option gb_deleted (map_of (bm_objects bm) a));
     let fail = (\<lambda>error msg. map_option (\<lambda>d. (d, bm, g)) (decoder_error error msg d));
     if no_buffer \<and> is_default then fail GL_INVALID_VALUE ''no array buffer bound''
     else if no_buffer \<and> offset \<noteq> 0 then fail GL_INVALID_VALUE ''client side arrays are not allowed''
     else if \<not> vertex_attrib_type_valid env type then
       map_option (\<lambda>d. (d, bm, g)) (decoder_enum_error env type ''type'' d)
     else if \<not> vertex_attrib_size_valid env sz then fail GL_INVALID_VALUE ''size GL_INVALID_VALUE''
     else if length (vertex_attribs (d_vertex_attrib_manager d)) \<le> unat indx then fail GL_INVALID_VALUE ''index out of range''
     else if sint stride < 0 then fail GL_INVALID_VALUE ''stride < 0''
     else if 255 < sint stride then fail GL_INVALID_VALUE ''stride > 255''
     else if sint offset < 0 then fail GL_INVALID_VALUE ''offset < 0''
     else do {
       let component_size = (ucast (GetGLTypeSizeForTexturesAndBuffers type) :: u32);
       dcheck (component_size \<noteq> 0);
       if sint offset mod sint component_size > 0 then fail GL_INVALID_OPERATION ''offset not valid for type''
       else if sint stride mod sint component_size > 0 then fail GL_INVALID_OPERATION ''stride not valid for type''
       else do {
         (m, bm, g) \<leftarrow> SetAttribInfo (gl_env env) indx (d_bound_array_buffer d) sz type normalized stride
                         (if stride \<noteq> 0 then stride else component_size * sz) offset (d_vertex_attrib_manager d) bm g;
         Some (d\<lparr>d_vertex_attrib_manager := m\<rparr>, bm,
               if type \<noteq> GL_FIXED then glVertexAttribPointer env indx sz type normalized stride (BufferOffset offset) g else g)
       }
     }
   }"

definition context_state :: "Decoder \<Rightarrow> ContextState" where
  "context_state d =
     \<lparr>bound_array_buffer = d_bound_array_buffer d,
      element_array_buffer = vam_element_array_buffer (d_vertex_attrib_manager d), cs_error_state = d_error_state d\<rparr>"

definition DoBufferData_call ::
  "'g DecoderEnv \<Rightarrow> u32 \<Rightarrow> u64 \<Rightarrow> byte list option \<Rightarrow> u32 \<Rightarrow> Decoder \<Rightarrow> BufferManager \<Rightarrow> 'g \<Rightarrow> (Decoder \<times> BufferManager \<times> 'g) option" where
  "DoBufferData_call env target sz data usage d bm g = do {
     (cs, bm, g) \<leftarrow> ValidateAndDoBufferData (gl_env env) target sz data usage (context_state d) bm g;
     Some (d\<lparr>d_error_state := cs_error_state cs\<rparr>, bm, g)
   }"

definition DoBufferSubData_call ::
  "'g DecoderEnv \<Rightarrow> u32 \<Rightarrow> u64 \<Rightarrow> u64 \<Rightarrow> byte list \<Rightarrow> Decoder \<Rightarrow> BufferManager \<Rightarrow> 'g \<Rightarrow> (Decoder \<times> BufferManager \<times> 'g) option" where
  "DoBufferSubData_call env target offset sz data d bm g = do {
     (cs, bm, g) \<leftarrow> ValidateAndDoBufferSubData (gl_env env) target offset sz data (context_state d) bm g;
     Some (d\<lparr>d_error_state := cs_error_state cs\<rparr>, bm, g)
   }"

text \<open>
  The checks that precede a draw. \<open>program\<close> is the current program, if there is one; \<open>fb_valid\<close> is what \<open>CheckBoundFramebuffersValid\<close>
  says. The result says whether the draw goes on to the preparation of textures and to the driver.
\<close>

definition IsDrawValid ::
  "'g DecoderEnv \<Rightarrow> (u32 \<Rightarrow> bool) option \<Rightarrow> u32 \<Rightarrow> u32 \<Rightarrow> Decoder \<Rightarrow> BufferManager \<Rightarrow> 'g \<Rightarrow> (bool \<times> Decoder \<times> 'g) option" where
  "IsDrawValid env program max_vertex_accessed primcount d bm g =
     (case program of
        None \<Rightarrow> Some (False, d, g)
      | Some p \<Rightarrow> ValidateBindings env p max_vertex_accessed primcount d bm g)"

definition DrawArrays_check ::
  "'g DecoderEnv \<Rightarrow> (u32 \<Rightarrow> bool) option \<Rightarrow> bool \<Rightarrow> bool \<Rightarrow> u32 \<Rightarrow> u32 \<Rightarrow> u32 \<Rightarrow> u32 \<Rightarrow> Decoder \<Rightarrow> BufferManager \<Rightarrow> 'g \<Rightarrow>
     (bool \<times> Decoder \<times> 'g) option" where
  "DrawArrays_check env program fb_valid instanced mode first_vertex cnt primcount d bm g =
     (let fail = (\<lambda>error msg. map_option (\<lambda>d. (False, d, g)) (decoder_error error msg d)) in
      if \<not> draw_mode_valid env mode then map_option (\<lambda>d. (False, d, g)) (decoder_enum_error env mode ''mode'' d)
      else if sint cnt < 0 then fail GL_INVALID_VALUE ''count < 0''
      else if sint primcount < 0 then fail GL_INVALID_VALUE ''primcount < 0''
      else if \<not> fb_valid then Some (False, d, g)
      else if sint first_vertex < 0 then fail GL_INVALID_VALUE ''first < 0''
      else if cnt = 0 \<or> (instanced \<and> primcount = 0) then Some (False, d, g)
      else IsDrawValid env program (first_vertex + cnt - 1) primcount d bm g)"

definition DrawElements_check ::
  "'g DecoderEnv \<Rightarrow> (u32 \<Rightarrow> bool) option \<Rightarrow> bool \<Rightarrow> bool \<Rightarrow> u32 \<Rightarrow> u32 \<Rightarrow> u32 \<Rightarrow> u32 \<Rightarrow> u32 \<Rightarrow> Decoder \<Rightarrow> BufferManager \<Rightarrow> 'g \<Rightarrow>
     (bool \<times> Decoder \<times> BufferManager \<times> 'g) option" where
  "DrawElements_check env program fb_valid instanced mode cnt type offset primcount d bm g =
     (let fail = (\<lambda>error msg. map_option (\<lambda>d. (False, d, bm, g)) (decoder_error error msg d));
          fail_enum = (\<lambda>v label. map_option (\<lambda>d. (False, d, bm, g)) (decoder_enum_error env v label d)) in
      case vam_element_array_buffer (d_vertex_attrib_manager d) of
        None \<Rightarrow> fail GL_INVALID_OPERATION ''No element array buffer bound''
      | Some a \<Rightarrow>
          if sint cnt < 0 then fail GL_INVALID_VALUE ''count < 0''
          else if sint offset < 0 then fail GL_INVALID_VALUE ''offset < 0''
          else if \<not> draw_mode_valid env mode then fail_enum mode ''mode''
          else if \<not> index_type_valid env type then fail_enum type ''type''
          else if sint primcount < 0 then fail GL_INVALID_VALUE ''primcount < 0''
          else if \<not> fb_valid then Some (False, d, bm, g)
          else if cnt = 0 \<or> (instanced \<and> primcount = 0) then Some (False, d, bm, g)
          else do {
            b \<leftarrow> map_of (bm_objects bm) a;
            (max_vertex_accessed, b) \<leftarrow> GetMaxValueForRange offset cnt type b;
            let bm = set_buffer a b bm;
            case max_vertex_accessed of
              None \<Rightarrow> map_option (\<lambda>d. (False, d, bm, g)) (decoder_error GL_INVALID_OPERATION ''range out of bounds for buffer'' d)
            | Some v \<Rightarrow> do {
                (ok, d, g) \<leftarrow> IsDrawValid env program v primcount d bm g;
                Some (ok, d, bm, g)
              }
          })"

subsection \<open>Pointers to buffers\<close>

definition pointer :: "nat option \<Rightarrow> nat multiset" where
  "pointer p = (case p of None \<Rightarrow> {#} | Some a \<Rightarrow> {#a#})"

lemma pointer_simps [simp]: "pointer None = {#}" "pointer (Some a) = {#a#}"
  by (simp_all add: pointer_def)

definition attrib_pointers :: "VertexAttrib list \<Rightarrow> nat multiset" where
  "attrib_pointers vs = sum_list (map (\<lambda>v. pointer (va_buffer v)) vs)"

lemma attrib_pointers_simps [simp]:
  "attrib_pointers [] = {#}" "attrib_pointers (v # vs) = pointer (va_buffer v) + attrib_pointers vs"
  by (simp_all add: attrib_pointers_def)

lemma attrib_pointers_split:
  assumes "i < length vs"
  shows "\<exists>A. attrib_pointers vs = A + pointer (va_buffer (vs ! i)) \<and>
    (\<forall>v. attrib_pointers (vs[i := v]) = A + pointer (va_buffer v))"
proof -
  have app: "attrib_pointers (xs @ ys) = attrib_pointers xs + attrib_pointers ys" for xs ys by (simp add: attrib_pointers_def)
  have "attrib_pointers (vs[i := v]) = (attrib_pointers (take i vs) + attrib_pointers (drop (Suc i) vs)) + pointer (va_buffer v)" for v
    using assms by (simp add: upd_conv_take_nth_drop app add_ac)
  from this [of "vs ! i"] this show ?thesis by (metis list_update_id)
qed

lemma attrib_pointers_same: "i < length vs \<Longrightarrow> va_buffer v = va_buffer (vs ! i) \<Longrightarrow> attrib_pointers (vs[i := v]) = attrib_pointers vs"
  using attrib_pointers_split [of i vs] by metis

text \<open>The pointers that a decoder holds are the references to buffers outside the manager.\<close>

definition vam_pointers :: "VertexAttribManager \<Rightarrow> nat multiset" where
  "vam_pointers m = pointer (vam_element_array_buffer m) + attrib_pointers (vertex_attribs m)"

definition decoder_pointers :: "Decoder \<Rightarrow> nat multiset" where
  "decoder_pointers d = pointer (d_bound_array_buffer d) + vam_pointers (d_vertex_attrib_manager d)"

lemma refs_live: "manager_ok {} bm \<Longrightarrow> mset (bm_refs bm) = M \<Longrightarrow> a \<in># M \<Longrightarrow> a \<in> fst ` set (bm_objects bm)"
  by (auto simp: manager_ok_def)

lemma buffers_live: "manager_ok {} bm \<Longrightarrow> GetBuffer c bm = Some a \<Longrightarrow> a \<in> fst ` set (bm_objects bm)"
  by (force simp: manager_ok_def GetBuffer_def dest: map_of_SomeD)

lemma assign_ref_ok:
  assumes "manager_ok {} bm" "mset (bm_refs bm) = M + pointer old" "set_option new \<subseteq> fst ` set (bm_objects bm)"
  shows "\<exists>bm' g'. assign_ref env old new bm g = Some (bm', g') \<and> manager_ok {} bm' \<and> mset (bm_refs bm') = M + pointer new \<and>
    bm_buffers bm' = bm_buffers bm"
proof -
  define bm1 where "bm1 = (case new of None \<Rightarrow> bm | Some a \<Rightarrow> take_ref a bm)"
  have 1: "manager_ok {} bm1" "mset (bm_refs bm1) = M + pointer old + pointer new" "bm_buffers bm1 = bm_buffers bm"
    using assms take_ref_ok [OF assms(1)] by (cases new; simp add: bm1_def; simp add: take_ref_def)+
  show ?thesis
  proof (cases old)
    case None
    then show ?thesis using 1 by (simp add: assign_ref_def flip: bm1_def)
  next
    case (Some a)
    then have "a \<in> set (bm_refs bm1)" using 1(2) by (simp flip: set_mset_mset)
    with drop_ref_ok [OF 1(1) this, of env g] show ?thesis using 1 Some
      by (auto simp: assign_ref_def bm1_def [symmetric])
  qed
qed

text \<open>
  Attributes are as \<open>glVertexAttribPointer\<close> has checked them; the lists hold the enabled and the other attributes, each once, and the
  attributes of type \<open>GL_FIXED\<close> are counted.
\<close>

definition attrib_ok :: "VertexAttrib \<Rightarrow> bool" where
  "attrib_ok v \<longleftrightarrow> 0 < sint (va_real_stride v) \<and> 0 \<le> sint (va_offset v) \<and> va_size v \<in> {1, 2, 3, 4} \<and>
     GetGLTypeSizeForTexturesAndBuffers (va_type v) \<noteq> 0"

definition vam_ok :: "VertexAttribManager \<Rightarrow> bool" where
  "vam_ok m \<longleftrightarrow>
     length (vertex_attribs m) < 2 ^ 32 \<and>
     (\<forall>i < length (vertex_attribs m). va_index (vertex_attribs m ! i) = of_nat i \<and> attrib_ok (vertex_attribs m ! i)) \<and>
     distinct (enabled_vertex_attribs m) \<and> distinct (disabled_vertex_attribs m) \<and>
     set (enabled_vertex_attribs m) = {i. i < length (vertex_attribs m) \<and> va_enabled (vertex_attribs m ! i)} \<and>
     set (disabled_vertex_attribs m) = {i. i < length (vertex_attribs m) \<and> \<not> va_enabled (vertex_attribs m ! i)}"

definition decoder_ok :: "nat multiset \<Rightarrow> Decoder \<Rightarrow> BufferManager \<Rightarrow> bool" where
  "decoder_ok F d bm \<longleftrightarrow>
     manager_ok {} bm \<and> mset (bm_refs bm) = F + decoder_pointers d \<and> vam_ok (d_vertex_attrib_manager d)"

lemma vam_ok_update:
  assumes "vam_ok m" "i < length (vertex_attribs m)" "attrib_ok v" "va_index v = va_index (vertex_attribs m ! i)"
    "va_enabled v = va_enabled (vertex_attribs m ! i)"
  shows "vam_ok (m\<lparr>vertex_attribs := (vertex_attribs m)[i := v]\<rparr>)"
proof -
  have e: "va_enabled ((vertex_attribs m)[i := v] ! j) = va_enabled (vertex_attribs m ! j)" for j
    using assms by (cases "j = i") simp_all
  have "va_index ((vertex_attribs m)[i := v] ! j) = of_nat j \<and> attrib_ok ((vertex_attribs m)[i := v] ! j)"
    if "j < length (vertex_attribs m)" for j
    using assms that by (cases "j = i") (simp_all add: vam_ok_def)
  then show ?thesis using assms(1) by (simp add: vam_ok_def e)
qed

lemma vam_ok_fields [simp]:
  "vam_ok (m\<lparr>num_fixed_attribs := n\<rparr>) = vam_ok m" "vam_ok (m\<lparr>vam_element_array_buffer := p\<rparr>) = vam_ok m"
  by (simp_all add: vam_ok_def)

lemma VAM_Enable_ok:
  assumes "vam_ok m" "VAM_Enable index enable m = (ok, m')"
  shows "vam_ok m' \<and> vam_pointers m' = vam_pointers m"
proof (cases "unat index < length (vertex_attribs m) \<and> va_enabled (vertex_attribs m ! unat index) \<noteq> enable")
  case True
  define i where "i = unat index"
  define v where "v = (vertex_attribs m ! i)\<lparr>va_enabled := enable\<rparr>"
  have i: "i < length (vertex_attribs m)" "va_enabled (vertex_attribs m ! i) = (\<not> enable)"
    using True by (auto simp: i_def)
  have m': "m' = SetList enable i (m\<lparr>vertex_attribs := (vertex_attribs m)[i := v]\<rparr>)"
    using assms(2) i by (simp add: VAM_Enable_def Let_def v_def flip: i_def split: if_splits)
  have e: "va_enabled ((vertex_attribs m)[i := v] ! j) = (if j = i then enable else va_enabled (vertex_attribs m ! j))" for j
    using i by (simp add: nth_list_update v_def)
  have "va_index ((vertex_attribs m)[i := v] ! j) = of_nat j \<and> attrib_ok ((vertex_attribs m)[i := v] ! j)"
    if "j < length (vertex_attribs m)" for j
    using assms(1) i that by (cases "j = i") (simp_all add: vam_ok_def v_def attrib_ok_def)
  moreover have "attrib_pointers ((vertex_attribs m)[i := v]) = attrib_pointers (vertex_attribs m)"
    using i by (intro attrib_pointers_same) (simp_all add: v_def)
  ultimately show ?thesis
    using assms(1) i unfolding m' by (auto simp: vam_ok_def vam_pointers_def SetList_def e distinct_removeAll)
next
  case False
  then show ?thesis using assms by (auto simp: VAM_Enable_def Let_def split: if_splits)
qed

lemma GetVertexAttrib_Some:
  "GetVertexAttrib index m = Some v \<longleftrightarrow> unat index < length (vertex_attribs m) \<and> v = vertex_attribs m ! unat index"
  by (auto simp: GetVertexAttrib_def)

lemma SetAttribInfo_ok:
  assumes "manager_ok {} bm" "mset (bm_refs bm) = M + vam_pointers m" "vam_ok m"
    "set_option buffer \<subseteq> fst ` set (bm_objects bm)"
    "0 < sint real_stride" "0 \<le> sint offset" "sz \<in> {1, 2, 3, 4}" "GetGLTypeSizeForTexturesAndBuffers type \<noteq> 0"
  shows "\<exists>m' bm' g'. SetAttribInfo env index buffer sz type normalized gl_stride real_stride offset m bm g = Some (m', bm', g') \<and>
    manager_ok {} bm' \<and> mset (bm_refs bm') = M + vam_pointers m' \<and> vam_ok m' \<and> bm_buffers bm' = bm_buffers bm"
proof (cases "GetVertexAttrib index m")
  case None
  then show ?thesis using assms by (simp add: SetAttribInfo_def)
next
  case (Some v)
  then have i: "unat index < length (vertex_attribs m)" and v: "v = vertex_attribs m ! unat index"
    by (simp_all add: GetVertexAttrib_Some)
  define v' where "v' = v\<lparr>va_buffer := buffer, va_size := sz, va_type := type, va_normalized := normalized, va_gl_stride := gl_stride,
             va_real_stride := real_stride, va_offset := offset\<rparr>"
  have v'_fields: "va_buffer v' = buffer" "va_index v' = va_index v" "va_enabled v' = va_enabled v" "attrib_ok v'"
    using assms(5-8) by (simp_all add: v'_def attrib_ok_def)
  obtain A where A: "attrib_pointers (vertex_attribs m) = A + pointer (va_buffer v)"
    "\<And>v. attrib_pointers ((vertex_attribs m)[unat index := v]) = A + pointer (va_buffer v)"
    using attrib_pointers_split [OF i] unfolding v by blast
  have refs: "mset (bm_refs bm) = (M + pointer (vam_element_array_buffer m) + A) + pointer (va_buffer v)"
    using assms(2) by (simp add: vam_pointers_def A(1) add_ac)
  obtain bm' g' where 1: "assign_ref env (va_buffer v) buffer bm g = Some (bm', g')" "manager_ok {} bm'"
    "mset (bm_refs bm') = M + pointer (vam_element_array_buffer m) + A + pointer buffer" "bm_buffers bm' = bm_buffers bm"
    using assign_ref_ok [OF assms(1) refs assms(4), of env g] by (elim exE conjE)
  have "vam_ok (m\<lparr>vertex_attribs := (vertex_attribs m)[unat index := v']\<rparr>)"
    using assms(3) i v v'_fields by (intro vam_ok_update) simp_all
  then have vam: "vam_ok (m\<lparr>vertex_attribs := (vertex_attribs m)[unat index := v'], num_fixed_attribs := n\<rparr>)" for n by simp
  have "VertexAttrib_SetInfo env buffer sz type normalized gl_stride real_stride offset v bm g = Some (v', bm', g')"
    using 1(1) assms(5) by (simp add: VertexAttrib_SetInfo_def v'_def)
  then have "SetAttribInfo env index buffer sz type normalized gl_stride real_stride offset m bm g =
      Some (m\<lparr>vertex_attribs := (vertex_attribs m)[unat index := v'],
               num_fixed_attribs := num_fixed_attribs m - (if va_type v = GL_FIXED then 1 else 0) + (if type = GL_FIXED then 1 else 0)\<rparr>, bm', g')"
    using Some by (cases m) (simp add: SetAttribInfo_def Let_def)
  moreover have "mset (bm_refs bm') = M + vam_pointers (m\<lparr>vertex_attribs := (vertex_attribs m)[unat index := v'], num_fixed_attribs := n\<rparr>)" for n
    using 1(3) A(2) [of v'] v'_fields(1) by (simp add: vam_pointers_def add_ac)
  ultimately show ?thesis using vam 1(2,4) by blast
qed

lemma SetElementArrayBuffer_ok:
  assumes "manager_ok {} bm" "mset (bm_refs bm) = M + vam_pointers m" "vam_ok m" "set_option buffer \<subseteq> fst ` set (bm_objects bm)"
  shows "\<exists>bm' g'. SetElementArrayBuffer env buffer m bm g = Some (m\<lparr>vam_element_array_buffer := buffer\<rparr>, bm', g') \<and>
    manager_ok {} bm' \<and> mset (bm_refs bm') = M + vam_pointers (m\<lparr>vam_element_array_buffer := buffer\<rparr>) \<and> bm_buffers bm' = bm_buffers bm"
proof -
  have "mset (bm_refs bm) = (M + attrib_pointers (vertex_attribs m)) + pointer (vam_element_array_buffer m)"
    using assms(2) by (simp add: vam_pointers_def add_ac)
  from assign_ref_ok [OF assms(1) this assms(4), of env g] show ?thesis
    by (auto simp: SetElementArrayBuffer_def vam_pointers_def add_ac)
qed

lemma VertexAttrib_Unbind_ok:
  assumes "manager_ok {} bm" "mset (bm_refs bm) = M + pointer (va_buffer v)"
  shows "\<exists>bm' g'. VertexAttrib_Unbind env a v bm g =
      Some (v\<lparr>va_buffer := if va_buffer v = Some a then None else va_buffer v\<rparr>, bm', g') \<and>
    manager_ok {} bm' \<and> mset (bm_refs bm') = M + pointer (if va_buffer v = Some a then None else va_buffer v) \<and>
    bm_buffers bm' = bm_buffers bm"
  using assms assign_ref_ok [OF assms, of None env g] by (auto simp: VertexAttrib_Unbind_def)

lemma Unbind_loop_ok:
  assumes "manager_ok {} bm" "mset (bm_refs bm) = M + attrib_pointers vs"
  shows "\<exists>bm' g'. Unbind_loop env a vs bm g =
      Some (map (\<lambda>v. v\<lparr>va_buffer := if va_buffer v = Some a then None else va_buffer v\<rparr>) vs, bm', g') \<and>
    manager_ok {} bm' \<and>
    mset (bm_refs bm') = M + attrib_pointers (map (\<lambda>v. v\<lparr>va_buffer := if va_buffer v = Some a then None else va_buffer v\<rparr>) vs) \<and>
    bm_buffers bm' = bm_buffers bm"
  using assms
proof (induction vs arbitrary: bm g M)
  case (Cons v vs)
  let ?v = "v\<lparr>va_buffer := if va_buffer v = Some a then None else va_buffer v\<rparr>"
  have "mset (bm_refs bm) = (M + attrib_pointers vs) + pointer (va_buffer v)" using Cons.prems(2) by (simp add: add_ac)
  from VertexAttrib_Unbind_ok [OF Cons.prems(1) this, of env a g]
  obtain bm1 g1 where 1: "VertexAttrib_Unbind env a v bm g = Some (?v, bm1, g1)" "manager_ok {} bm1"
    "mset (bm_refs bm1) = (M + pointer (va_buffer ?v)) + attrib_pointers vs" "bm_buffers bm1 = bm_buffers bm"
    by (auto simp: add_ac)
  from Cons.IH [OF 1(2,3), of g1] 1(1,4) show ?case by (auto simp: add_ac)
qed auto

lemma VAM_Unbind_ok:
  assumes "manager_ok {} bm" "mset (bm_refs bm) = M + vam_pointers m" "vam_ok m"
  shows "\<exists>m' bm' g'. VAM_Unbind env a m bm g = Some (m', bm', g') \<and> manager_ok {} bm' \<and>
    mset (bm_refs bm') = M + vam_pointers m' \<and> vam_ok m' \<and> bm_buffers bm' = bm_buffers bm"
proof -
  let ?un = "\<lambda>v. v\<lparr>va_buffer := if va_buffer v = Some a then None else va_buffer v\<rparr>"
  define m1 where "m1 = (if vam_element_array_buffer m = Some a then m\<lparr>vam_element_array_buffer := None\<rparr> else m)"
  obtain bm1 g1 where 1: "(if vam_element_array_buffer m = Some a then SetElementArrayBuffer env None m bm g else Some (m, bm, g)) =
      Some (m1, bm1, g1)" "manager_ok {} bm1" "mset (bm_refs bm1) = M + vam_pointers m1" "bm_buffers bm1 = bm_buffers bm"
    using SetElementArrayBuffer_ok [OF assms, of None env g] assms(1,2)
    by (cases "vam_element_array_buffer m = Some a") (auto simp: m1_def)
  have "mset (bm_refs bm1) = (M + pointer (vam_element_array_buffer m1)) + attrib_pointers (vertex_attribs m1)"
    using 1(3) by (simp add: vam_pointers_def add_ac)
  from Unbind_loop_ok [OF 1(2) this, of env a g1]
  obtain bm2 g2 where 2: "Unbind_loop env a (vertex_attribs m1) bm1 g1 = Some (map ?un (vertex_attribs m1), bm2, g2)" "manager_ok {} bm2"
    "mset (bm_refs bm2) = (M + pointer (vam_element_array_buffer m1)) + attrib_pointers (map ?un (vertex_attribs m1))"
    "bm_buffers bm2 = bm_buffers bm1" by (elim exE conjE)
  have "vam_ok m1" using assms(3) by (simp add: m1_def)
  then have "vam_ok (m1\<lparr>vertex_attribs := map ?un (vertex_attribs m1)\<rparr>)" by (auto simp: vam_ok_def attrib_ok_def)
  moreover have "VAM_Unbind env a m bm g = Some (m1\<lparr>vertex_attribs := map ?un (vertex_attribs m1)\<rparr>, bm2, g2)"
    unfolding VAM_Unbind_def 1(1) using 2(1) by simp
  ultimately show ?thesis using 2 1(4) by (intro exI [of _ "m1\<lparr>vertex_attribs := map ?un (vertex_attribs m1)\<rparr>"] exI [of _ bm2] exI [of _ g2])
    (simp add: vam_pointers_def add_ac)
qed

subsection \<open>Bytes that a vertex occupies\<close>

definition element_bytes :: "VertexAttrib \<Rightarrow> nat" where
  "element_bytes v = unat (GetGLTypeSizeForTexturesAndBuffers (va_type v)) * unat (va_size v)"

lemma vertices_in_range:
  assumes "(0 :: nat) < s" "0 < e"
  shows "k < u div s + (if e \<le> u mod s then 1 else 0) \<longleftrightarrow> k * s + min e s \<le> u"
proof -
  obtain q r where q: "u div s = q" "u mod s = r" and u: "u = q * s + r" "r < s"
    using assms(1) by (metis div_mult_mod_eq mod_less_divisor)
  consider "k < q" | "k = q" | "q < k" by linarith
  then show ?thesis
  proof cases
    case 1
    then have "(k + 1) * s \<le> q * s" by (intro mult_right_mono) auto
    with 1 u show ?thesis by (auto simp: q min_def)
  next
    case 2
    with u show ?thesis by (auto simp: q min_def)
  next
    case 3
    then have "(q + 1) * s \<le> k * s" by (intro mult_right_mono) auto
    with 3 u assms show ?thesis by (auto simp: q min_def)
  qed
qed

lemma scast_nonneg:
  assumes "unat (x :: u32) < 2 ^ 31"
  shows "(scast x :: u64) = of_nat (unat x)" "unat (scast x :: u64) = unat x"
proof -
  have "(scast x :: u64) = word_of_int (sint x)" by simp
  then show *: "(scast x :: u64) = of_nat (unat x)" using sint_nonneg_u32 [OF assms] by simp
  show "unat (scast x :: u64) = unat x" unfolding * by simp
qed

lemma CanAccess_bytes:
  assumes "va_enabled v" "va_buffer v = Some a" "map_of (bm_objects bm) a = Some b" "gl_buffer_ok b" "attrib_ok v"
  shows "CanAccess bm index v =
    Some (\<not> gb_deleted b \<and>
      unat (va_offset v) + unat index * unat (va_real_stride v) + min (element_bytes v) (unat (va_real_stride v)) \<le> unat (gb_size b))"
proof -
  let ?o = "unat (va_offset v)" and ?s = "unat (va_real_stride v)" and ?size = "unat (gb_size b)" and ?e = "element_bytes v"
  have o: "?o < 2 ^ 31" using assms(5) by (simp add: attrib_ok_def sint_nonneg_u32_iff)
  have s: "0 < ?s" "va_real_stride v \<noteq> 0" using assms(5) by (auto simp: attrib_ok_def unat_gt_0)
  have e: "GetGLTypeSizeForTexturesAndBuffers (va_type v) * scast (va_size v) = of_nat ?e" "0 < ?e" "?e < 2 ^ 32"
    using assms(5) by (auto simp: attrib_ok_def element_bytes_def GetGLTypeSizeForTexturesAndBuffers_def split: if_splits)
  have size: "?size < 2 ^ 32" using assms(4) by (simp add: gl_buffer_ok_def shadow_ok_def)
  have lt: "sint (gb_size b) < sint (va_offset v) \<longleftrightarrow> ?size < ?o"
    using size o sint_nonneg_u64 [of "gb_size b"] sint_nonneg_u32 [of "va_offset v"] by (simp del: of_nat_unat)
  show ?thesis
  proof (cases "gb_deleted b \<or> ?size < ?o")
    case True
    then show ?thesis using assms lt by (auto simp: CanAccess_def)
  next
    case False
    define u where "u = ?size - ?o"
    have ul: "u < 2 ^ 32" using size by (simp add: u_def)
    note scast_nonneg(1) [OF o]
    then have "gb_size b - scast (va_offset v) = of_nat u" using False by (simp add: u_def of_nat_diff)
    then have usable: "unat (ucast (gb_size b - scast (va_offset v)) :: u32) = u"
      using ul unat_of_nat_u64 [of u] by (simp add: unsigned_ucast_eq take_bit_nat_eq_self)
    define usable_size where "usable_size = (ucast (gb_size b - scast (va_offset v)) :: u32)"
    have q: "unat (usable_size div va_real_stride v) = u div ?s" "unat (usable_size mod va_real_stride v) = u mod ?s"
      using usable by (simp_all add: usable_size_def unat_div unat_mod)
    have cmp: "(of_nat ?e \<le> (ucast (usable_size mod va_real_stride v) :: u64)) = (?e \<le> u mod ?s)"
      using e(3) q(2) unat_of_nat_u64 [of ?e] by (simp add: word_le_nat_alt)
    have "u div ?s + (if ?e \<le> u mod ?s then 1 else 0) < 2 ^ 32"
    proof (cases "?e \<le> u mod ?s")
      case True
      then have "2 \<le> ?s" using e(2) mod_less_divisor [OF s(1), of u] by linarith
      then have "u div ?s \<le> u div 2" by (intro div_le_mono2) simp_all
      also have "\<dots> < 2 ^ 31" using ul by simp
      finally show ?thesis using True by simp
    next
      case False
      then show ?thesis using ul div_le_dividend [of u ?s] by (simp del: div_le_dividend)
    qed
    then have "unat (usable_size div va_real_stride v + (if ?e \<le> u mod ?s then 1 else 0)) =
        u div ?s + (if ?e \<le> u mod ?s then 1 else 0)"
      using q(1) by (cases "?e \<le> u mod ?s") (simp_all add: unat_word_ariths)
    then have "index < usable_size div va_real_stride v + (if ?e \<le> u mod ?s then 1 else 0) \<longleftrightarrow>
        unat index * ?s + min ?e ?s \<le> u"
      unfolding word_less_nat_alt using vertices_in_range [OF s(1) e(2)] by simp
    moreover have "unat index * ?s + min ?e ?s \<le> u \<longleftrightarrow> ?o + unat index * ?s + min ?e ?s \<le> ?size"
      using False by (auto simp: u_def)
    ultimately show ?thesis
      using assms(1-3) False lt s(2) e(1) by (simp add: CanAccess_def Let_def cmp flip: usable_size_def)
  qed
qed

end
