(* ===== verification/Draw_Safety.thy ===== *)
theory Draw_Safety
  imports Vertex_Attribs
begin

section \<open>Draw calls read only inside their buffers\<close>

text \<open>
  The loop that checks a draw call, an invariant of a decoder's context and the buffer manager, and what follows for every
  sequence of a client's calls: no buffer is used after it is gone, and a draw that passes the checks reads only vertices inside buffers.
\<close>

subsection \<open>The loop over the enabled attributes\<close>

text \<open>The loop changes nothing of an attribute but the mark of a client-side array.\<close>

definition unmarked :: "VertexAttrib \<Rightarrow> VertexAttrib" where
  "unmarked v = v\<lparr>va_is_client_side_array := False\<rparr>"

definition same_attribs :: "VertexAttribManager \<Rightarrow> VertexAttribManager \<Rightarrow> bool" where
  "same_attribs m m' \<longleftrightarrow>
     m'\<lparr>vertex_attribs := []\<rparr> = m\<lparr>vertex_attribs := []\<rparr> \<and> map unmarked (vertex_attribs m') = map unmarked (vertex_attribs m)"

lemma unmarked_simps [simp]:
  "va_index (unmarked v) = va_index v" "va_enabled (unmarked v) = va_enabled v" "va_buffer (unmarked v) = va_buffer v"
  "va_offset (unmarked v) = va_offset v" "va_real_stride (unmarked v) = va_real_stride v" "va_divisor (unmarked v) = va_divisor v"
  "va_size (unmarked v) = va_size v" "va_type (unmarked v) = va_type v"
  by (simp_all add: unmarked_def)

lemma unmarked_same [simp]:
  "attrib_ok (unmarked v) = attrib_ok v" "CanAccess bm k (unmarked v) = CanAccess bm k v"
  "MaxVertexAccessed p n (unmarked v) = MaxVertexAccessed p n v" "element_bytes (unmarked v) = element_bytes v"
  by (simp_all only: attrib_ok_def CanAccess_def MaxVertexAccessed_def element_bytes_def unmarked_simps)

lemma unmarked_fields:
  assumes "unmarked v = unmarked v'"
  shows "va_index v = va_index v'" "va_enabled v = va_enabled v'" "va_buffer v = va_buffer v'" "attrib_ok v = attrib_ok v'"
  using arg_cong [OF assms, of va_index] arg_cong [OF assms, of va_enabled] arg_cong [OF assms, of va_buffer]
    arg_cong [OF assms, of attrib_ok] by simp_all

lemma same_attribs_nth:
  assumes "same_attribs m m'"
  shows "length (vertex_attribs m') = length (vertex_attribs m)"
    "i < length (vertex_attribs m) \<Longrightarrow> unmarked (vertex_attribs m' ! i) = unmarked (vertex_attribs m ! i)"
  using assms unfolding same_attribs_def by (metis length_map, metis length_map nth_map)

lemma same_attribs_fields:
  assumes "same_attribs m m'"
  shows "enabled_vertex_attribs m' = enabled_vertex_attribs m" "disabled_vertex_attribs m' = disabled_vertex_attribs m"
    "vam_element_array_buffer m' = vam_element_array_buffer m"
  using assms by (cases m; cases m'; simp add: same_attribs_def)+

lemma same_attribs_ok:
  assumes "same_attribs m m'" "vam_ok m"
  shows "vam_ok m' \<and> vam_pointers m' = vam_pointers m"
proof -
  note n = same_attribs_nth [OF assms(1)]
  have f: "va_index (vertex_attribs m' ! i) = va_index (vertex_attribs m ! i)"
     "va_enabled (vertex_attribs m' ! i) = va_enabled (vertex_attribs m ! i)"
     "va_buffer (vertex_attribs m' ! i) = va_buffer (vertex_attribs m ! i)"
     "attrib_ok (vertex_attribs m' ! i) = attrib_ok (vertex_attribs m ! i)" if "i < length (vertex_attribs m)" for i
    using unmarked_fields [OF n(2) [OF that]] by auto
  then have "map (\<lambda>v. pointer (va_buffer v)) (vertex_attribs m') = map (\<lambda>v. pointer (va_buffer v)) (vertex_attribs m)"
    using n(1) by (intro nth_equalityI) auto
  with f show ?thesis
    using assms(2) n(1) same_attribs_fields [OF assms(1)]
    by (simp add: vam_ok_def vam_pointers_def attrib_pointers_def cong: conj_cong)
qed

lemma client_side_attrib_returns:
  assumes "manager_ok {} bm" "set_option (va_buffer v) \<subseteq> fst ` set (bm_objects bm)" "attrib_ok v" "va_enabled v" "CanAccess bm k v = Some True"
  shows "\<exists>v' c' g'. client_side_attrib env bm v c g = Some (v', c', g') \<and> unmarked v' = unmarked v"
proof -
  obtain a where a: "va_buffer v = Some a" "a \<in> fst ` set (bm_objects bm)"
    using assms(2,4,5) by (cases "va_buffer v") (simp_all add: CanAccess_def)
  obtain b where b: "map_of (bm_objects bm) a = Some b" "gl_buffer_ok b" using live_buffer [OF assms(1) a(2)] .
  have "unat (va_offset v) \<le> unat (gb_size b)" using CanAccess_bytes [OF assms(4) a(1) b assms(3), of k] assms(5) by simp
  moreover have "unat (va_offset v) < 2 ^ 31" using assms(3) by (simp add: attrib_ok_def sint_nonneg_u32_iff)
  moreover have "unat (scast (va_offset v) :: u64) = unat (va_offset v)"
    using calculation(2) by (rule scast_nonneg)
  ultimately have "CheckRange (scast (va_offset v)) 0 b"
    using b(2) CheckRange_exact [of b "scast (va_offset v)" 0] by (simp add: gl_buffer_ok_def shadow_ok_def)
  then show ?thesis using a(1) b
    by (auto simp: client_side_attrib_def GetRange_def gl_buffer_ok_def unmarked_def Let_def split: prod.split)
qed

lemma CanAccess_returns:
  assumes "manager_ok {} bm" "set_option (va_buffer v) \<subseteq> fst ` set (bm_objects bm)"
  shows "\<exists>can. CanAccess bm k v = Some can"
proof (cases "va_buffer v")
  case (Some a)
  then obtain b where "map_of (bm_objects bm) a = Some b" using live_buffer [OF assms(1), of a] assms(2) by auto
  then show ?thesis using Some by (auto simp: CanAccess_def Let_def)
qed (auto simp: CanAccess_def)

lemma same_attribs_refl [simp]: "same_attribs m m"
  by (simp add: same_attribs_def)

lemma same_attribs_trans: "same_attribs m m1 \<Longrightarrow> same_attribs m1 m2 \<Longrightarrow> same_attribs m m2"
  by (simp add: same_attribs_def)

lemma same_attribs_update:
  "i < length (vertex_attribs m) \<Longrightarrow> unmarked v = unmarked (vertex_attribs m ! i) \<Longrightarrow>
    same_attribs m (m\<lparr>vertex_attribs := (vertex_attribs m)[i := v]\<rparr>)"
  by (simp add: same_attribs_def map_update) (metis list_update_id length_map nth_map)

lemma attrib_pointer_live:
  assumes "set_mset (vam_pointers m) \<subseteq> L" "i < length (vertex_attribs m)"
  shows "set_option (va_buffer (vertex_attribs m ! i)) \<subseteq> L"
proof -
  obtain A where "attrib_pointers (vertex_attribs m) = A + pointer (va_buffer (vertex_attribs m ! i))"
    using attrib_pointers_split [OF assms(2)] by blast
  then show ?thesis using assms(1) by (cases "va_buffer (vertex_attribs m ! i)") (auto simp: vam_pointers_def)
qed

definition may_access :: "BufferManager \<Rightarrow> (u32 \<Rightarrow> bool) \<Rightarrow> u32 \<Rightarrow> u32 \<Rightarrow> VertexAttrib \<Rightarrow> bool" where
  "may_access bm program max_vertex primcount v \<longleftrightarrow>
     (program (va_index v) \<longrightarrow> CanAccess bm (MaxVertexAccessed primcount max_vertex v) v = Some True)"

lemma may_access_unmarked:
  assumes "unmarked v = unmarked v'"
  shows "may_access bm program max_vertex primcount v = may_access bm program max_vertex primcount v'"
proof -
  have *: "may_access bm program max_vertex primcount (unmarked v) = may_access bm program max_vertex primcount v" for v
    by (simp add: may_access_def)
  show ?thesis using * [of v] * [of v'] assms by simp
qed

lemma ValidateBindings_loop_ok:
  assumes "manager_ok {} bm" "vam_ok m" "set_mset (vam_pointers m) \<subseteq> fst ` set (bm_objects bm)"
    "\<forall>i \<in> set is. i < length (vertex_attribs m) \<and> va_enabled (vertex_attribs m ! i)"
  shows "\<exists>ok dv' c' m' es' g'.
    ValidateBindings_loop env bm program max_vertex primcount is dv c m es g = Some (ok, dv', c', m', es', g') \<and>
    same_attribs m m' \<and> (ok \<longrightarrow> (\<forall>i \<in> set is. may_access bm program max_vertex primcount (vertex_attribs m ! i)))"
  using assms(2-)
proof (induction "is" arbitrary: dv c m es g)
  case (Cons i "is")
  define v where "v = vertex_attribs m ! i"
  have i: "i < length (vertex_attribs m)" "va_enabled v" using Cons.prems(3) by (simp_all add: v_def)
  have v: "attrib_ok v" using Cons.prems(1) i by (simp add: vam_ok_def v_def)
  have live: "set_option (va_buffer v) \<subseteq> fst ` set (bm_objects bm)"
    using attrib_pointer_live [OF Cons.prems(2) i(1)] by (simp add: v_def)
  obtain es1 es2 where error: "SetGLError GL_INVALID_OPERATION (Some (out_of_range_message (va_index v))) es = Some es1"
    "SetGLError GL_INVALID_OPERATION (Some (no_buffer_message (va_index v))) es = Some es2"
    using SetGLError_returns [of GL_INVALID_OPERATION] by (metis gl_errors_def list.set_intros)
  let ?k = "MaxVertexAccessed primcount max_vertex v"
  show ?case
  proof (cases "program (va_index v)")
    case used: True
    obtain can where can: "CanAccess bm ?k v = Some can" using CanAccess_returns [OF assms(1) live] by blast
    show ?thesis
    proof (cases can)
      case False
      then show ?thesis using i used can error by (auto simp: Let_def simp flip: v_def)
    next
      case True
      have "\<exists>v' c' g'. (if use_client_side_arrays_for_stream_buffers env then client_side_attrib env bm v c g else Some (v, c, g)) =
          Some (v', c', g') \<and> unmarked v' = unmarked v"
        using client_side_attrib_returns [OF assms(1) live v i(2), of ?k env c g] can True by simp
      then obtain v' c' g' where v': "(if use_client_side_arrays_for_stream_buffers env then client_side_attrib env bm v c g else Some (v, c, g)) =
          Some (v', c', g')" "unmarked v' = unmarked v" by blast
      let ?m = "m\<lparr>vertex_attribs := (vertex_attribs m)[i := v']\<rparr>"
      have same: "same_attribs m ?m" using i v' by (intro same_attribs_update) (simp_all add: v_def)
      note n = same_attribs_nth [OF same]
      have "\<forall>j \<in> set is. j < length (vertex_attribs ?m) \<and> va_enabled (vertex_attribs ?m ! j)"
        using Cons.prems(3) n unmarked_fields(2) by (metis list.set_intros(2))
      then obtain ok dv2 c2 m2 es2 g2 where rest: "ValidateBindings_loop env bm program max_vertex primcount is (dv \<or> va_divisor v = 0) c' ?m es g' =
          Some (ok, dv2, c2, m2, es2, g2)" "same_attribs ?m m2"
        "ok \<longrightarrow> (\<forall>j \<in> set is. may_access bm program max_vertex primcount (vertex_attribs ?m ! j))"
        using Cons.IH [of ?m "dv \<or> va_divisor v = 0" c' es g'] same_attribs_ok [OF same Cons.prems(1)] Cons.prems(2) by auto
      have "may_access bm program max_vertex primcount v" using can True by (simp add: may_access_def)
      moreover have "may_access bm program max_vertex primcount (vertex_attribs m ! j)" if "ok" "j \<in> set is" for j
        using rest(3) that Cons.prems(3) may_access_unmarked [OF n(2)] by auto
      moreover have "ValidateBindings_loop env bm program max_vertex primcount (i # is) dv c m es g = Some (ok, dv2, c2, m2, es2, g2)"
        using i used can True v'(1) rest(1) by (simp add: Let_def flip: v_def)
      ultimately show ?thesis using same_attribs_trans [OF same rest(2)] by (auto simp: v_def)
    qed
  next
    case unused: False
    then have may: "may_access bm program max_vertex primcount v" by (simp add: may_access_def)
    show ?thesis
    proof (cases "va_buffer v")
      case None
      then show ?thesis using i unused error by (auto simp: Let_def simp flip: v_def)
    next
      case (Some a)
      then obtain b where b: "map_of (bm_objects bm) a = Some b" using live_buffer [OF assms(1), of a] live by auto
      let ?g = "if use_client_side_arrays_for_stream_buffers env \<and> gb_is_client_side_array b \<and> 0 < va_index v
         then glDisableVertexAttribArray env (va_index v) g else g"
      have "ValidateBindings_loop env bm program max_vertex primcount (i # is) dv c m es g =
          ValidateBindings_loop env bm program max_vertex primcount is dv c m es ?g"
        using i unused Some b by (simp add: Let_def flip: v_def)
      then show ?thesis using Cons.IH [OF Cons.prems(1,2), of dv c es ?g] Cons.prems(3) may by (auto simp: v_def)
    qed
  qed
qed auto

subsection \<open>Every sequence of a decoder's calls\<close>

text \<open>
  What is relied on: the driver as in \<open>gl_driver\<close>, \<open>glGenBuffersARB\<close> fills the array it is given, and the validators accept only the
  sizes, types and index types of the tables they are built from.
\<close>

definition decoder_env :: "'g DecoderEnv \<Rightarrow> ('g \<Rightarrow> nat) \<Rightarrow> bool" where
  "decoder_env env pending \<longleftrightarrow>
     gl_driver (gl_env env) pending \<and>
     (\<forall>n g. length (fst (glGenBuffersARB env n g)) = n) \<and>
     (\<forall>t. vertex_attrib_type_valid env t \<longrightarrow> GetGLTypeSizeForTexturesAndBuffers t \<noteq> 0) \<and>
     (\<forall>n. vertex_attrib_size_valid env n \<longrightarrow> n \<in> {1, 2, 3, 4}) \<and>
     (\<forall>t. index_type_valid env t \<longrightarrow> index_width t \<noteq> None)"

definition Decoder_new :: "'g DecoderEnv \<Rightarrow> u32 \<Rightarrow> 'g \<Rightarrow> Decoder \<times> 'g" where
  "Decoder_new env max_vertex_attribs g =
     (let (m, g) = VertexAttribManager_Initialize env max_vertex_attribs True VertexAttribManager_new g in
      (\<lparr>d_bound_array_buffer = None, d_vertex_attrib_manager = m, d_error_state = ErrorState_new, d_buffer_ids = IdAllocator_new,
        d_generic_error = False\<rparr>, g))"

datatype DecoderCall =
    GenBuffers "u32 list"
  | BindBuffer u32 u32
  | DeleteBuffers "u32 list"
  | SetBufferData u32 u64 "byte list option" u32
  | SetBufferSubData u32 u64 u64 "byte list"
  | EnableAttrib u32 bool
  | AttribPointer bool u32 u32 u32 bool u32 u32
  | AttribDivisor u32 u32
  | DrawArrays "(u32 \<Rightarrow> bool) option" bool bool u32 u32 u32 u32
  | DrawElements "(u32 \<Rightarrow> bool) option" bool bool u32 u32 u32 u32 u32

definition decoder_call :: "'g DecoderEnv \<Rightarrow> DecoderCall \<Rightarrow> Decoder \<Rightarrow> BufferManager \<Rightarrow> 'g \<Rightarrow> (Decoder \<times> BufferManager \<times> 'g) option" where
  "decoder_call env call d bm g =
     (case call of
        GenBuffers ids \<Rightarrow> map_option (\<lambda>(ok, bm, g). (d, bm, g)) (GenBuffersHelper env ids bm g)
      | BindBuffer target client_id \<Rightarrow> DoBindBuffer env target client_id d bm g
      | DeleteBuffers ids \<Rightarrow> DeleteBuffersHelper env ids d bm g
      | SetBufferData target sz data usage \<Rightarrow> DoBufferData_call env target sz data usage d bm g
      | SetBufferSubData target offset sz data \<Rightarrow> DoBufferSubData_call env target offset sz data d bm g
      | EnableAttrib index enable \<Rightarrow>
          map_option (\<lambda>(d, g). (d, bm, g))
            (if enable then DoEnableVertexAttribArray env index d g else DoDisableVertexAttribArray env index d g)
      | AttribPointer is_default index sz type normalized stride offset \<Rightarrow>
          HandleVertexAttribPointer env is_default index sz type normalized stride offset d bm g
      | AttribDivisor index divisor \<Rightarrow>
          Some (d\<lparr>d_vertex_attrib_manager := VAM_SetDivisor index divisor (d_vertex_attrib_manager d)\<rparr>, bm, g)
      | DrawArrays program fb instanced mode first_vertex cnt primcount \<Rightarrow>
          map_option (\<lambda>(ok, d, g). (d, bm, g)) (DrawArrays_check env program fb instanced mode first_vertex cnt primcount d bm g)
      | DrawElements program fb instanced mode cnt type offset primcount \<Rightarrow>
          map_option (\<lambda>(ok, d, bm, g). (d, bm, g))
            (DrawElements_check env program fb instanced mode cnt type offset primcount d bm g))"

text \<open>
  What the handlers have checked before: targets are valid, data has the size that the command says, and there are fewer buffers than
  32-bit names. That names to generate are distinct is not checked: a call that repeats a free name fails the check in \<open>CreateBuffer\<close>.
\<close>

definition decoder_call_allowed :: "BufferManager \<Rightarrow> DecoderCall \<Rightarrow> bool" where
  "decoder_call_allowed bm call \<longleftrightarrow>
     (case call of
        GenBuffers ids \<Rightarrow> length (bm_objects bm) + length ids < 2 ^ 32
      | BindBuffer target _ \<Rightarrow> target \<in> {GL_ARRAY_BUFFER, GL_ELEMENT_ARRAY_BUFFER} \<and> length (bm_objects bm) < 2 ^ 32 - 1
      | SetBufferData _ sz data _ \<Rightarrow> (0 \<le> sint sz \<longrightarrow> unat sz < 2 ^ 32) \<and> (case data of None \<Rightarrow> True | Some d \<Rightarrow> length d = unat sz)
      | SetBufferSubData target _ sz data \<Rightarrow> target \<in> {GL_ARRAY_BUFFER, GL_ELEMENT_ARRAY_BUFFER} \<and> length data = unat sz
      | _ \<Rightarrow> True)"

definition repeats_name :: "BufferManager \<Rightarrow> DecoderCall \<Rightarrow> bool" where
  "repeats_name bm call \<longleftrightarrow>
     (case call of GenBuffers ids \<Rightarrow> \<not> distinct ids \<and> (\<forall>c \<in> set ids. GetBuffer c bm = None) | _ \<Rightarrow> False)"

inductive decoder_reachable :: "'g DecoderEnv \<Rightarrow> Decoder \<Rightarrow> BufferManager \<Rightarrow> 'g \<Rightarrow> bool" for env where
  start: "BufferManager_new (gl_env env) csa g = (bm, g1) \<Longrightarrow> Decoder_new env n g1 = (d, g2) \<Longrightarrow> decoder_reachable env d bm g2"
| call: "decoder_reachable env d bm g \<Longrightarrow> decoder_call_allowed bm call \<Longrightarrow> decoder_call env call d bm g = Some (d', bm', g') \<Longrightarrow>
    decoder_reachable env d' bm' g'"

lemma Initialize_loop_ok:
  assumes "length (vertex_attribs m) = n" "k \<le> n" "enabled_vertex_attribs m = []" "disabled_vertex_attribs m = [0..<k]"
    "\<forall>i < n. attrib_ok (vertex_attribs m ! i) \<and> \<not> va_enabled (vertex_attribs m ! i) \<and> va_buffer (vertex_attribs m ! i) = None"
    "\<forall>i < k. va_index (vertex_attribs m ! i) = of_nat i" "vam_element_array_buffer m = None"
  shows "\<exists>m' g'. Initialize_loop env ia [k..<n] m g = (m', g') \<and> length (vertex_attribs m') = n \<and> enabled_vertex_attribs m' = [] \<and>
    disabled_vertex_attribs m' = [0..<n] \<and> vam_element_array_buffer m' = None \<and>
    (\<forall>i < n. attrib_ok (vertex_attribs m' ! i) \<and> \<not> va_enabled (vertex_attribs m' ! i) \<and> va_buffer (vertex_attribs m' ! i) = None \<and>
       va_index (vertex_attribs m' ! i) = of_nat i)"
  using assms
proof (induction "n - k" arbitrary: k m g)
  case (Suc x)
  then have k: "k < n" by simp
  let ?m = "SetList False k (m\<lparr>vertex_attribs := (vertex_attribs m)[k := (vertex_attribs m ! k)\<lparr>va_index := of_nat k\<rparr>]\<rparr>)"
  let ?g = "if \<not> disable_gpu_driver_bug_workarounds env \<and> ia then glVertexAttrib4f env (of_nat k) (0, 0, 0, 1) g else g"
  have v: "vertex_attribs ?m ! i = (if i = k then (vertex_attribs m ! k)\<lparr>va_index := of_nat k\<rparr> else vertex_attribs m ! i)" for i
    using k Suc.prems(1) by (simp add: SetList_def nth_list_update)
  have "Initialize_loop env ia [k..<n] m g = Initialize_loop env ia [Suc k..<n] ?m ?g"
    using k by (simp add: upt_conv_Cons Let_def)
  moreover have "disabled_vertex_attribs ?m = [0..<Suc k]" using Suc.prems(4) by (simp add: SetList_def)
  moreover have "\<forall>i < Suc k. va_index (vertex_attribs ?m ! i) = of_nat i" using Suc.prems(6) by (auto simp: v less_Suc_eq)
  moreover have "\<forall>i < n. attrib_ok (vertex_attribs ?m ! i) \<and> \<not> va_enabled (vertex_attribs ?m ! i) \<and> va_buffer (vertex_attribs ?m ! i) = None"
    using Suc.prems(5) by (auto simp: v attrib_ok_def)
  ultimately show ?case
    using Suc.hyps(1) [of "Suc k" ?m ?g] Suc.hyps(2) Suc.prems k by (simp add: SetList_def)
qed simp

lemma attrib_pointers_none: "\<forall>v \<in> set vs. va_buffer v = None \<Longrightarrow> attrib_pointers vs = {#}"
  by (induction vs) simp_all

lemma VertexAttribManager_Initialize_ok:
  assumes "VertexAttribManager_Initialize env n ia VertexAttribManager_new g = (m, g')"
  shows "vam_ok m \<and> length (vertex_attribs m) = unat n \<and> vam_pointers m = {#}"
proof -
  let ?m = "VertexAttribManager_new\<lparr>vertex_attribs := replicate (unat n) VertexAttrib_new\<rparr>"
  have "attrib_ok VertexAttrib_new"
    by (simp add: attrib_ok_def VertexAttrib_new_def GetGLTypeSizeForTexturesAndBuffers_def)
  moreover have "Initialize_loop env ia [0..<unat n] ?m g = (m, g')"
    using assms by (simp add: VertexAttribManager_Initialize_def VertexAttribManager_new_def Let_def)
  ultimately have i: "length (vertex_attribs m) = unat n" "enabled_vertex_attribs m = []" "disabled_vertex_attribs m = [0..<unat n]"
      "vam_element_array_buffer m = None"
      "\<forall>i < unat n. attrib_ok (vertex_attribs m ! i) \<and> \<not> va_enabled (vertex_attribs m ! i) \<and> va_buffer (vertex_attribs m ! i) = None \<and>
         va_index (vertex_attribs m ! i) = of_nat i"
    using Initialize_loop_ok [of ?m "unat n" 0 env ia g] by (auto simp: VertexAttribManager_new_def VertexAttrib_new_def)
  moreover have "attrib_pointers (vertex_attribs m) = {#}"
    using i(1,5) by (intro attrib_pointers_none) (auto simp: in_set_conv_nth)
  ultimately show ?thesis
    by (auto simp: vam_ok_def vam_pointers_def)
qed

lemma Decoder_new_ok:
  assumes "BufferManager_new (gl_env env) csa g = (bm, g1)" "Decoder_new env n g1 = (d, g2)"
  shows "decoder_ok {#} d bm"
proof -
  have "manager_ok {} bm" "bm_refs bm = []"
    using BufferManager_new_ok [OF assms(1)] assms(1) by (auto simp: BufferManager_new_def split: prod.splits)
  moreover have "vam_ok (d_vertex_attrib_manager d)" "vam_pointers (d_vertex_attrib_manager d) = {#}" "d_bound_array_buffer d = None"
    using assms(2) by (auto simp: Decoder_new_def split: prod.splits dest: VertexAttribManager_Initialize_ok)
  ultimately show ?thesis by (simp add: decoder_ok_def decoder_pointers_def)
qed

text \<open>The calls, one by one.\<close>

lemma create_buffers_ok:
  assumes "manager_ok {} bm" "distinct client_ids" "\<forall>c \<in> set client_ids. GetBuffer c bm = None"
    "length (bm_objects bm) + length client_ids < 2 ^ 32" "length service_ids = length client_ids"
  shows "\<exists>bm'. create_buffers client_ids service_ids bm = Some bm' \<and> manager_ok {} bm' \<and> bm_refs bm' = bm_refs bm \<and>
    dom (map_of (bm_buffers bm')) = set client_ids \<union> dom (map_of (bm_buffers bm))"
  using assms
proof (induction client_ids arbitrary: service_ids bm)
  case (Cons c cs)
  obtain s ss where s: "service_ids = s # ss" using Cons.prems(5) by (cases service_ids) auto
  obtain bm1 where 1: "CreateBuffer c s bm = Some bm1" "manager_ok {} bm1" "bm_refs bm1 = bm_refs bm"
    "length (bm_objects bm1) = Suc (length (bm_objects bm))" "bm_buffers bm1 = (c, bm_next bm) # bm_buffers bm"
    using CreateBuffer_ok [OF Cons.prems(1), of c s] Cons.prems(3,4) by (auto simp: GetBuffer_def)
  have "\<forall>c \<in> set cs. GetBuffer c bm1 = None" using Cons.prems(2,3) 1(5) by (auto simp: GetBuffer_def)
  from Cons.IH [OF 1(2) _ this, of ss] show ?case using Cons.prems(2,4,5) s 1 by auto
qed (auto)

lemma decoder_error_returns:
  assumes "e \<in> set gl_errors"
  shows "\<exists>es. decoder_error e msg d = Some (d\<lparr>d_error_state := es\<rparr>)"
  using SetGLError_returns [OF assms, of "Some msg" "d_error_state d"] by (auto simp: decoder_error_def)

lemma decoder_enum_error_returns: "\<exists>es. decoder_enum_error env v label d = Some (d\<lparr>d_error_state := es\<rparr>)"
proof -
  have "\<exists>es. SetGLErrorInvalidEnum (enum_names (gl_env env)) v label (d_error_state d) = Some es"
    unfolding SetGLErrorInvalidEnum_def by (rule SetGLError_returns) (simp add: gl_errors_def)
  then show ?thesis by (auto simp: decoder_enum_error_def)
qed

lemma decoder_ok_error [simp]: "decoder_ok F (d\<lparr>d_error_state := es\<rparr>) bm = decoder_ok F d bm"
  "decoder_ok F (d\<lparr>d_buffer_ids := ids\<rparr>) bm = decoder_ok F d bm" "decoder_ok F (d\<lparr>d_generic_error := e\<rparr>) bm = decoder_ok F d bm"
  by (simp_all add: decoder_ok_def decoder_pointers_def)

lemma create_buffers_taken:
  "\<exists>c \<in> set ids. GetBuffer c bm \<noteq> None \<Longrightarrow> length service_ids = length ids \<Longrightarrow> create_buffers ids service_ids bm = None"
proof (induction ids arbitrary: service_ids bm)
  case (Cons c ids)
  obtain i js where i: "service_ids = i # js" using Cons.prems(2) by (cases service_ids) auto
  show ?case
  proof (cases "CreateBuffer c i bm")
    case (Some bm1)
    then have "GetBuffer c bm = None" "\<forall>x. GetBuffer x bm \<noteq> None \<longrightarrow> GetBuffer x bm1 \<noteq> None"
      by (auto simp: CreateBuffer_def GlBuffer_new_def StartTracking_def GetBuffer_def Let_def split: if_splits)
    then have "\<exists>c \<in> set ids. GetBuffer c bm1 \<noteq> None" using Cons.prems(1) by (metis set_ConsD)
    then show ?thesis using Cons.IH [of bm1 js] Cons.prems(2) i Some by simp
  qed (simp add: i)
qed simp

lemma create_buffers_repeated:
  "\<not> distinct ids \<Longrightarrow> length service_ids = length ids \<Longrightarrow> create_buffers ids service_ids bm = None"
proof (induction ids arbitrary: service_ids bm)
  case (Cons c ids)
  obtain i js where i: "service_ids = i # js" using Cons.prems(2) by (cases service_ids) auto
  show ?case
  proof (cases "CreateBuffer c i bm")
    case (Some bm1)
    then have "GetBuffer c bm1 \<noteq> None"
      by (auto simp: CreateBuffer_def GlBuffer_new_def StartTracking_def GetBuffer_def Let_def split: if_splits)
    then show ?thesis using create_buffers_taken [of ids bm1 js] Cons.IH [of js bm1] Cons.prems i Some by auto
  qed (simp add: i)
qed simp

lemma GenBuffersHelper_repeated:
  assumes "decoder_env env pending" "\<not> distinct ids" "\<forall>c \<in> set ids. GetBuffer c bm = None"
  shows "GenBuffersHelper env ids bm g = None"
proof -
  obtain service_ids g1 where gen: "glGenBuffersARB env (length ids) g = (service_ids, g1)" by fastforce
  then have "length service_ids = length ids" using assms(1) unfolding decoder_env_def by (metis fst_conv)
  then show ?thesis using create_buffers_repeated [OF assms(2)] assms(3) gen by (simp add: GenBuffersHelper_def)
qed

lemma GenBuffersHelper_ok:
  assumes "decoder_env env pending" "decoder_ok F d bm" "distinct ids \<or> (\<exists>c \<in> set ids. GetBuffer c bm \<noteq> None)"
    "length (bm_objects bm) + length ids < 2 ^ 32"
  shows "\<exists>ok bm' g'. GenBuffersHelper env ids bm g = Some (ok, bm', g') \<and> decoder_ok F d bm'"
proof (cases "\<exists>c \<in> set ids. GetBuffer c bm \<noteq> None")
  case True
  then show ?thesis using assms(2) by (auto simp: GenBuffersHelper_def)
next
  case False
  obtain service_ids g1 where gen: "glGenBuffersARB env (length ids) g = (service_ids, g1)" by fastforce
  then have "length service_ids = length ids" using assms(1) unfolding decoder_env_def by (metis fst_conv)
  then show ?thesis using create_buffers_ok [of bm ids service_ids] assms(2-) False gen
    by (auto simp: GenBuffersHelper_def decoder_ok_def)
qed

lemma bind_target_ok:
  assumes "decoder_ok F d bm" "target \<in> {GL_ARRAY_BUFFER, GL_ELEMENT_ARRAY_BUFFER}" "set_option buffer \<subseteq> fst ` set (bm_objects bm)"
  shows "\<exists>d' bm' g'. bind_target env target buffer service_id d bm g = Some (d', bm', g') \<and> decoder_ok F d' bm'"
proof -
  have ok: "manager_ok {} bm" "mset (bm_refs bm) = F + decoder_pointers d" "vam_ok (d_vertex_attrib_manager d)"
    using assms(1) by (simp_all add: decoder_ok_def)
  have refs: "mset (bm_refs bm) = (F + vam_pointers (d_vertex_attrib_manager d)) + pointer (d_bound_array_buffer d)"
    "mset (bm_refs bm) = (F + pointer (d_bound_array_buffer d)) + vam_pointers (d_vertex_attrib_manager d)"
    using ok(2) by (simp_all add: decoder_pointers_def add_ac)
  show ?thesis
  proof (cases "target = GL_ARRAY_BUFFER")
    case True
    then show ?thesis using assign_ref_ok [OF ok(1) refs(1) assms(3), of "gl_env env" g] ok(3)
      by (auto simp: bind_target_def decoder_ok_def decoder_pointers_def add_ac)
  next
    case False
    then show ?thesis using SetElementArrayBuffer_ok [OF ok(1) refs(2) ok(3) assms(3), of "gl_env env" g] assms(2) ok(3)
      by (auto simp: bind_target_def decoder_ok_def decoder_pointers_def add_ac)
  qed
qed

lemma bind_generated_ok:
  assumes "decoder_env env pending" "decoder_ok F d bm" "client_id \<noteq> 0" "GetBuffer client_id bm = None" "length (bm_objects bm) < 2 ^ 32 - 1"
  shows "\<exists>d' bm' g'. bind_generated env client_id d bm g = Some (d', bm', g') \<and> decoder_ok F d' bm' \<and> GetBuffer client_id bm' \<noteq> None"
proof -
  obtain service_ids g1 where gen: "glGenBuffersARB env 1 g = (service_ids, g1)" by fastforce
  then have "length service_ids = 1" using assms(1) unfolding decoder_env_def by (metis fst_conv)
  then obtain bm' where "create_buffers [client_id] service_ids bm = Some bm'" "manager_ok {} bm'" "bm_refs bm' = bm_refs bm"
    "client_id \<in> dom (map_of (bm_buffers bm'))"
    using create_buffers_ok [of bm "[client_id]" service_ids] assms(2,4,5) by (auto simp: decoder_ok_def)
  moreover have "\<exists>ok ids. MarkAsUsed client_id (d_buffer_ids d) = Some (ok, ids)" using assms(3) by (simp add: MarkAsUsed_def)
  ultimately show ?thesis
    using gen assms(2) unfolding bind_generated_def by (auto simp: decoder_ok_def decoder_pointers_def GetBuffer_def)
qed

lemma DoBindBuffer_ok:
  assumes "decoder_env env pending" "decoder_ok F d bm" "target \<in> {GL_ARRAY_BUFFER, GL_ELEMENT_ARRAY_BUFFER}"
    "length (bm_objects bm) < 2 ^ 32 - 1"
  shows "\<exists>d' bm' g'. DoBindBuffer env target client_id d bm g = Some (d', bm', g') \<and> decoder_ok F d' bm'"
proof -
  consider (zero) "client_id = 0" | (no) "client_id \<noteq> 0" "GetBuffer client_id bm = None" "\<not> bind_generates_resource env"
    | (bind) "client_id \<noteq> 0" "GetBuffer client_id bm \<noteq> None \<or> bind_generates_resource env" by blast
  then show ?thesis
  proof cases
    case zero
    then show ?thesis using bind_target_ok [OF assms(2,3), of None env 0 g] by (simp add: DoBindBuffer_def)
  next
    case no
    then show ?thesis using assms(2) by (simp add: DoBindBuffer_def)
  next
    case bind
    have "\<exists>d1 bm1 g1. (if GetBuffer client_id bm = None then bind_generated env client_id d bm g else Some (d, bm, g)) = Some (d1, bm1, g1) \<and>
        decoder_ok F d1 bm1 \<and> GetBuffer client_id bm1 \<noteq> None"
      using bind_generated_ok [OF assms(1,2) bind(1) _ assms(4), of g] assms(2) by (cases "GetBuffer client_id bm = None") auto
    then obtain d1 bm1 g1 a where 1: "(if GetBuffer client_id bm = None then bind_generated env client_id d bm g else Some (d, bm, g)) =
        Some (d1, bm1, g1)" "decoder_ok F d1 bm1" "GetBuffer client_id bm1 = Some a" by blast
    have ok1: "manager_ok {} bm1" using 1(2) by (simp add: decoder_ok_def)
    obtain ok bm2 where 2: "BufferManager_SetTarget a target bm1 = Some (ok, bm2)" "manager_ok {} bm2" "bm_buffers bm2 = bm_buffers bm1"
      "bm_refs bm2 = bm_refs bm1"
      using SetTarget_ok [OF ok1 buffers_live [OF ok1 1(3)], of target] by blast
    have d: "decoder_ok F d1 bm2" using 1(2) 2 by (simp add: decoder_ok_def)
    have live: "a \<in> fst ` set (bm_objects bm2)" using buffers_live [OF 2(2)] 1(3) 2(3) by (simp add: GetBuffer_def)
    then obtain b where b: "map_of (bm_objects bm2) a = Some b" using live_buffer [OF 2(2)] by blast
    obtain es where es: "decoder_error GL_INVALID_OPERATION ''buffer bound to more than 1 target'' d1 = Some (d1\<lparr>d_error_state := es\<rparr>)"
      using decoder_error_returns [of GL_INVALID_OPERATION] by (metis gl_errors_def list.set_intros)
    have "DoBindBuffer env target client_id d bm g =
        (if \<not> ok then Some (d1\<lparr>d_error_state := es\<rparr>, bm2, g1) else bind_target env target (Some a) (gb_service_id b) d1 bm2 g1)"
      using bind(2) es unfolding DoBindBuffer_def 1(1) by (auto simp: bind(1) 1(3) 2(1) b service_id_of_def)
    then show ?thesis using bind_target_ok [OF d assms(3), of "Some a" env "gb_service_id b" g1] live d by (cases ok) auto
  qed
qed

lemma decoder_refs:
  assumes "decoder_ok F d bm"
  shows "manager_ok {} bm" "vam_ok (d_vertex_attrib_manager d)"
    "mset (bm_refs bm) = (F + vam_pointers (d_vertex_attrib_manager d)) + pointer (d_bound_array_buffer d)"
    "mset (bm_refs bm) = (F + pointer (d_bound_array_buffer d)) + vam_pointers (d_vertex_attrib_manager d)"
  using assms by (simp_all add: decoder_ok_def decoder_pointers_def add_ac)

lemma decoder_live:
  assumes "decoder_ok F d bm"
  shows "set_option (d_bound_array_buffer d) \<subseteq> fst ` set (bm_objects bm)"
    "set_mset (vam_pointers (d_vertex_attrib_manager d)) \<subseteq> fst ` set (bm_objects bm)"
    "set_option (vam_element_array_buffer (d_vertex_attrib_manager d)) \<subseteq> fst ` set (bm_objects bm)"
proof -
  note ok = decoder_refs [OF assms]
  show "set_option (d_bound_array_buffer d) \<subseteq> fst ` set (bm_objects bm)"
    using refs_live [OF ok(1,3)] by (cases "d_bound_array_buffer d") auto
  show "set_mset (vam_pointers (d_vertex_attrib_manager d)) \<subseteq> fst ` set (bm_objects bm)"
    using refs_live [OF ok(1,3)] by auto
  show "set_option (vam_element_array_buffer (d_vertex_attrib_manager d)) \<subseteq> fst ` set (bm_objects bm)"
    using refs_live [OF ok(1,3)] by (cases "vam_element_array_buffer (d_vertex_attrib_manager d)") (auto simp: vam_pointers_def)
qed

lemma unbind_array_buffer_ok:
  assumes "decoder_ok F d bm"
  shows "\<exists>d' bm' g'. (if d_bound_array_buffer d = Some a then do {
                   (bm, g) \<leftarrow> assign_ref env (d_bound_array_buffer d) None bm g;
                   Some (d\<lparr>d_bound_array_buffer := None\<rparr>, bm, g)
                 }
                 else Some (d, bm, g)) = Some (d', bm', g') \<and> decoder_ok F d' bm'"
  using assign_ref_ok [OF decoder_refs(1,3) [OF assms], of None env g] assms decoder_refs(2) [OF assms]
  by (cases "d_bound_array_buffer d = Some a") (auto simp: decoder_ok_def decoder_pointers_def)

lemma DeleteBuffersHelper_ok:
  assumes "decoder_ok F d bm"
  shows "\<exists>d' bm' g'. DeleteBuffersHelper env ids d bm g = Some (d', bm', g') \<and> decoder_ok F d' bm'"
  using assms
proof (induction ids arbitrary: d bm g)
  case (Cons c ids)
  note ok = decoder_refs [OF Cons.prems]
  show ?case
  proof (cases "GetBuffer c bm")
    case None
    then show ?thesis using Cons by simp
  next
    case (Some a)
    obtain b where b: "map_of (bm_objects bm) a = Some b" using live_buffer [OF ok(1) buffers_live [OF ok(1) Some]] by blast
    show ?thesis
    proof (cases "gb_deleted b")
      case True
      then show ?thesis using Cons b Some by simp
    next
      case False
      obtain m1 bm1 g1 where 1: "VAM_Unbind (gl_env env) a (d_vertex_attrib_manager d) bm g = Some (m1, bm1, g1)" "manager_ok {} bm1"
        "mset (bm_refs bm1) = (F + pointer (d_bound_array_buffer d)) + vam_pointers m1" "vam_ok m1"
        using VAM_Unbind_ok [OF ok(1,4,2), of "gl_env env" a g] by (elim exE conjE)
      let ?d = "d\<lparr>d_vertex_attrib_manager := m1\<rparr>"
      have "decoder_ok F ?d bm1" using 1 by (simp add: decoder_ok_def decoder_pointers_def add_ac)
      from unbind_array_buffer_ok [OF this, of a "gl_env env" g1]
      obtain d2 bm2 g2 where 2: "(if d_bound_array_buffer ?d = Some a then do {
                   (bm, g) \<leftarrow> assign_ref (gl_env env) (d_bound_array_buffer ?d) None bm1 g1;
                   Some (?d\<lparr>d_bound_array_buffer := None\<rparr>, bm, g)
                 }
                 else Some (?d, bm1, g1)) = Some (d2, bm2, g2)" "decoder_ok F d2 bm2" by (elim exE conjE)
      obtain bm3 g3 where 3: "RemoveBuffer (gl_env env) c bm2 g2 = Some (bm3, g3)" "manager_ok {} bm3" "bm_refs bm3 = bm_refs bm2"
        using RemoveBuffer_ok [OF decoder_refs(1) [OF 2(2)], of "gl_env env" c g2] by (elim exE conjE)
      have "decoder_ok F d2 bm3" using 2(2) 3 by (simp add: decoder_ok_def)
      moreover have "DeleteBuffersHelper env (c # ids) d bm g = DeleteBuffersHelper env ids d2 bm3 g3"
        using Some b False 1(1) 2(1) 3(1) by (simp add: Let_def)
      ultimately show ?thesis using Cons.IH by simp
    qed
  qed
qed simp

lemma context_bound_live: "decoder_ok F d bm \<Longrightarrow> bound_live (context_state d) bm"
  using decoder_live [of F d bm] by (simp add: bound_live_def context_state_def)

lemma DoBufferData_call_ok:
  assumes "decoder_env env pending" "decoder_ok F d bm"
    "0 \<le> sint sz \<longrightarrow> unat sz < 2 ^ 32" "case data of None \<Rightarrow> True | Some d \<Rightarrow> length d = unat sz"
  shows "\<exists>d' bm' g'. DoBufferData_call env target sz data usage d bm g = Some (d', bm', g') \<and> decoder_ok F d' bm'"
proof -
  have gl: "gl_driver (gl_env env) pending" using assms(1) by (simp add: decoder_env_def)
  show ?thesis
    using ValidateAndDoBufferData_ok [OF gl decoder_refs(1) [OF assms(2)] context_bound_live [OF assms(2)] assms(3,4), of target usage g] assms(2)
    by (auto simp: DoBufferData_call_def decoder_ok_def decoder_pointers_def)
qed

lemma DoBufferSubData_call_ok:
  assumes "decoder_ok F d bm" "target \<in> {GL_ARRAY_BUFFER, GL_ELEMENT_ARRAY_BUFFER}" "length data = unat sz"
  shows "\<exists>d' bm' g'. DoBufferSubData_call env target offset sz data d bm g = Some (d', bm', g') \<and> decoder_ok F d' bm'"
  using ValidateAndDoBufferSubData_ok [OF decoder_refs(1) [OF assms(1)] context_bound_live [OF assms(1)], of target data sz "gl_env env" offset g] assms
  by (auto simp: DoBufferSubData_call_def decoder_ok_def decoder_pointers_def)

lemma enable_ok:
  assumes "decoder_ok F d bm"
  shows "\<exists>d' g'. (if enable then DoEnableVertexAttribArray env index d g else DoDisableVertexAttribArray env index d g) = Some (d', g') \<and>
    decoder_ok F d' bm"
proof -
  obtain ok m where m: "VAM_Enable index enable (d_vertex_attrib_manager d) = (ok, m)" by fastforce
  have "decoder_ok F (d\<lparr>d_vertex_attrib_manager := m\<rparr>) bm"
    using VAM_Enable_ok [OF decoder_refs(2) [OF assms] m] assms by (simp add: decoder_ok_def decoder_pointers_def)
  moreover obtain es where "decoder_error GL_INVALID_VALUE ''index out of range'' d = Some (d\<lparr>d_error_state := es\<rparr>)"
    using decoder_error_returns [of GL_INVALID_VALUE] by (metis gl_errors_def list.set_intros)
  ultimately show ?thesis using m assms
    by (cases enable; cases ok) (simp_all add: DoEnableVertexAttribArray_def DoDisableVertexAttribArray_def)
qed

lemma divisor_ok:
  assumes "decoder_ok F d bm"
  shows "decoder_ok F (d\<lparr>d_vertex_attrib_manager := VAM_SetDivisor index divisor (d_vertex_attrib_manager d)\<rparr>) bm"
proof (cases "GetVertexAttrib index (d_vertex_attrib_manager d)")
  case (Some v)
  let ?m = "d_vertex_attrib_manager d"
  have v: "unat index < length (vertex_attribs ?m)" "v = vertex_attribs ?m ! unat index" using Some by (simp_all add: GetVertexAttrib_Some)
  have "attrib_ok (v\<lparr>va_divisor := divisor\<rparr>)" using decoder_refs(2) [OF assms] v by (simp add: vam_ok_def attrib_ok_def)
  then have "vam_ok (?m\<lparr>vertex_attribs := (vertex_attribs ?m)[unat index := v\<lparr>va_divisor := divisor\<rparr>]\<rparr>)"
    using decoder_refs(2) [OF assms] v by (intro vam_ok_update) simp_all
  moreover have "attrib_pointers ((vertex_attribs ?m)[unat index := v\<lparr>va_divisor := divisor\<rparr>]) = attrib_pointers (vertex_attribs ?m)"
    using v by (intro attrib_pointers_same) simp_all
  ultimately show ?thesis using assms Some by (simp add: decoder_ok_def decoder_pointers_def vam_pointers_def VAM_SetDivisor_def)
qed (use assms in \<open>simp add: decoder_ok_def decoder_pointers_def VAM_SetDivisor_def\<close>)

lemma client_error_kinds: "GL_INVALID_VALUE \<in> set gl_errors" "GL_INVALID_OPERATION \<in> set gl_errors"
  by (simp_all add: gl_errors_def)

lemma type_sizes: "GetGLTypeSizeForTexturesAndBuffers type \<in> {0, 1, 2, 4}"
  by (simp add: GetGLTypeSizeForTexturesAndBuffers_def)

lemma real_stride_positive:
  assumes "GetGLTypeSizeForTexturesAndBuffers type \<noteq> 0" "sz \<in> {1, 2, 3, 4}" "0 \<le> sint stride"
  shows "0 < sint (if stride \<noteq> 0 then stride else (ucast (GetGLTypeSizeForTexturesAndBuffers type) :: u32) * sz)"
proof (cases "stride = 0")
  case True
  then show ?thesis using assms(1,2) type_sizes [of type] by auto
next
  case False
  then have "sint stride \<noteq> 0" by (simp add: signed_eq_0_iff)
  then show ?thesis using assms(3) False by simp
qed

lemma HandleVertexAttribPointer_ok:
  assumes "decoder_env env pending" "decoder_ok F d bm"
  shows "\<exists>d' bm' g'. HandleVertexAttribPointer env is_default index sz type normalized stride offset d bm g = Some (d', bm', g') \<and>
    decoder_ok F d' bm'"
proof -
  note ok = decoder_refs [OF assms(2)] and live = decoder_live(1) [OF assms(2)]
  define returns where "returns r \<longleftrightarrow> (\<exists>d' bm' g'. r = Some (d', bm', g') \<and> decoder_ok F d' bm')" for r :: "(Decoder \<times> BufferManager \<times> 'a) option"
  have err: "returns (map_option (\<lambda>d. (d, bm, g)) (decoder_error e msg d))" if "e \<in> set gl_errors" for e msg
    using decoder_error_returns [OF that, of msg d] assms(2) by (auto simp: returns_def)
  have enum: "returns (map_option (\<lambda>d. (d, bm, g)) (decoder_enum_error env v label d))" for v label
    using decoder_enum_error_returns [of env v label d] assms(2) by (auto simp: returns_def)
  have cond: "returns (if c then r else r')" if "c \<Longrightarrow> returns r" "\<not> c \<Longrightarrow> returns r'" for c r r'
    using that by simp
  obtain no_buffer where nb: "(case d_bound_array_buffer d of None \<Rightarrow> Some True | Some a \<Rightarrow> map_option gb_deleted (map_of (bm_objects bm) a)) =
      Some no_buffer"
    using live live_buffer [OF ok(1)] by (cases "d_bound_array_buffer d") (auto dest!: map_of_live)
  define component_size where "component_size = (ucast (GetGLTypeSizeForTexturesAndBuffers type) :: u32)"
  have set: "returns (SetAttribInfo (gl_env env) index (d_bound_array_buffer d) sz type normalized stride
                         (if stride \<noteq> 0 then stride else component_size * sz) offset (d_vertex_attrib_manager d) bm g \<bind>
       (\<lambda>(m, bm, g). Some (d\<lparr>d_vertex_attrib_manager := m\<rparr>, bm,
               if type \<noteq> GL_FIXED then glVertexAttribPointer env index sz type normalized stride (BufferOffset offset) g else g)))"
    if "vertex_attrib_type_valid env type" "vertex_attrib_size_valid env sz" "\<not> sint stride < 0" "\<not> sint offset < 0"
  proof -
    note checked = that
    have "GetGLTypeSizeForTexturesAndBuffers type \<noteq> 0" "sz \<in> {1, 2, 3, 4}" using assms(1) that unfolding decoder_env_def by blast+
    moreover from this have "0 < sint (if stride \<noteq> 0 then stride else component_size * sz)"
      using that(3) unfolding component_size_def by (intro real_stride_positive) auto
    ultimately obtain m' bm' g' where "SetAttribInfo (gl_env env) index (d_bound_array_buffer d) sz type normalized stride
                         (if stride \<noteq> 0 then stride else component_size * sz) offset (d_vertex_attrib_manager d) bm g = Some (m', bm', g')"
      "manager_ok {} bm'" "mset (bm_refs bm') = (F + pointer (d_bound_array_buffer d)) + vam_pointers m'" "vam_ok m'"
      using SetAttribInfo_ok [OF ok(1,4,2) live, of "if stride \<noteq> 0 then stride else component_size * sz" offset sz type
          "gl_env env" index normalized stride g] checked(4) by (metis linorder_not_less)
    then show ?thesis by (simp add: returns_def decoder_ok_def decoder_pointers_def add_ac)
  qed
  have comp: "component_size \<noteq> 0" if "vertex_attrib_type_valid env type"
  proof -
    have "GetGLTypeSizeForTexturesAndBuffers type \<noteq> 0" using assms(1) that unfolding decoder_env_def by blast
    then show ?thesis using type_sizes [of type] by (auto simp: component_size_def)
  qed
  have "returns (HandleVertexAttribPointer env is_default index sz type normalized stride offset d bm g)"
    unfolding HandleVertexAttribPointer_def nb bind.bind_lunit Let_def component_size_def [symmetric] dcheck_bind
    by (intro cond err enum client_error_kinds) (simp_all add: comp set del: split_paired_Ex)
  then show ?thesis by (simp add: returns_def)
qed

lemma service_id_of_returns:
  assumes "manager_ok {} bm" "set_option p \<subseteq> fst ` set (bm_objects bm)"
  shows "\<exists>i. service_id_of bm p = Some i"
  using assms(2) map_of_live [of _ "bm_objects bm"] by (cases p) (auto simp: service_id_of_def)

lemma RestoreBufferBindings_returns: "decoder_ok F d bm \<Longrightarrow> \<exists>g'. RestoreBufferBindings env d bm g = Some g'"
  using service_id_of_returns [OF decoder_refs(1) decoder_live(1)] service_id_of_returns [OF decoder_refs(1) decoder_live(3)]
  by (fastforce simp: RestoreBufferBindings_def Let_def)

definition enabled_attribs :: "Decoder \<Rightarrow> VertexAttrib set" where
  "enabled_attribs d = {v \<in> set (vertex_attribs (d_vertex_attrib_manager d)). va_enabled v}"

lemma enabled_attribs_list:
  assumes "vam_ok (d_vertex_attrib_manager d)"
  shows "enabled_attribs d = (!) (vertex_attribs (d_vertex_attrib_manager d)) ` set (enabled_vertex_attribs (d_vertex_attrib_manager d))"
  using assms by (auto simp: enabled_attribs_def vam_ok_def in_set_conv_nth)

lemma ValidateBindings_ok:
  assumes "decoder_ok F d bm"
  shows "\<exists>ok d' g'. ValidateBindings env program max_vertex primcount d bm g = Some (ok, d', g') \<and> decoder_ok F d' bm \<and>
    (ok \<longrightarrow> (\<forall>v \<in> enabled_attribs d. may_access bm program max_vertex primcount v))"
proof -
  let ?m = "d_vertex_attrib_manager d"
  note refs = decoder_refs [OF assms]
  have "\<forall>i \<in> set (enabled_vertex_attribs ?m). i < length (vertex_attribs ?m) \<and> va_enabled (vertex_attribs ?m ! i)"
    using refs(2) by (simp add: vam_ok_def)
  from ValidateBindings_loop_ok [OF refs(1,2) decoder_live(2) [OF assms] this, of env program max_vertex primcount False "0xFFFFFFFF" "d_error_state d" g]
  obtain ok dv c m' es g1 where 1: "ValidateBindings_loop env bm program max_vertex primcount (enabled_vertex_attribs ?m) False 0xFFFFFFFF ?m
      (d_error_state d) g = Some (ok, dv, c, m', es, g1)" "same_attribs ?m m'"
    "ok \<longrightarrow> (\<forall>i \<in> set (enabled_vertex_attribs ?m). may_access bm program max_vertex primcount (vertex_attribs ?m ! i))"
    by (elim exE conjE)
  let ?d = "d\<lparr>d_vertex_attrib_manager := m', d_error_state := es\<rparr>"
  have d: "decoder_ok F ?d bm" using same_attribs_ok [OF 1(2) refs(2)] assms by (simp add: decoder_ok_def decoder_pointers_def)
  obtain es' where es': "SetGLError GL_INVALID_OPERATION (Some ''attempt instanced render with all attributes having non-zero divisors'') es = Some es'"
    using SetGLError_returns [OF client_error_kinds(2)] by metis
  obtain g2 where g2: "RestoreBufferBindings env ?d bm g1 = Some g2" using RestoreBufferBindings_returns [OF d] by metis
  have "ValidateBindings env program max_vertex primcount d bm g =
      (if \<not> ok then Some (False, ?d, g1)
       else if primcount \<noteq> 0 \<and> \<not> dv then Some (False, ?d\<lparr>d_error_state := es'\<rparr>, g1)
       else if c \<noteq> 0xFFFFFFFF then Some (True, ?d, g2) else Some (True, ?d, g1))"
    using 1(1) es' g2 by (simp add: ValidateBindings_def Let_def)
  moreover have "ok \<longrightarrow> (\<forall>v \<in> enabled_attribs d. may_access bm program max_vertex primcount v)"
    using 1(3) enabled_attribs_list [OF refs(2)] by simp
  moreover have "decoder_ok F (?d\<lparr>d_error_state := es'\<rparr>) bm" using d by (simp only: decoder_ok_error)
  ultimately show ?thesis using d by (cases ok; cases "primcount \<noteq> 0 \<and> \<not> dv"; cases "c \<noteq> 0xFFFFFFFF") auto
qed

definition draw_checked :: "Decoder \<Rightarrow> BufferManager \<Rightarrow> (u32 \<Rightarrow> bool) option \<Rightarrow> u32 \<Rightarrow> u32 \<Rightarrow> bool" where
  "draw_checked d bm program max_vertex primcount \<longleftrightarrow>
     (\<exists>p. program = Some p \<and> (\<forall>v \<in> enabled_attribs d. may_access bm p max_vertex primcount v))"

lemma IsDrawValid_ok:
  assumes "decoder_ok F d bm"
  shows "\<exists>ok d' g'. IsDrawValid env program max_vertex primcount d bm g = Some (ok, d', g') \<and> decoder_ok F d' bm \<and>
    (ok \<longrightarrow> draw_checked d bm program max_vertex primcount)"
  using ValidateBindings_ok [OF assms, of env _ max_vertex primcount g] assms
  by (cases program) (fastforce simp: IsDrawValid_def draw_checked_def)+

lemma DrawArrays_check_ok:
  assumes "decoder_ok F d bm"
  shows "\<exists>ok d' g'. DrawArrays_check env program fb instanced mode first_vertex cnt primcount d bm g = Some (ok, d', g') \<and>
    decoder_ok F d' bm \<and>
    (ok \<longrightarrow> draw_checked d bm program (first_vertex + cnt - 1) primcount \<and> 0 \<le> sint first_vertex \<and> 0 < sint cnt \<and> 0 \<le> sint primcount)"
proof -
  define returns where "returns r \<longleftrightarrow> (\<exists>ok d' g'. r = Some (ok, d', g') \<and> decoder_ok F d' bm \<and>
    (ok \<longrightarrow> draw_checked d bm program (first_vertex + cnt - 1) primcount \<and> 0 \<le> sint first_vertex \<and> 0 < sint cnt \<and> 0 \<le> sint primcount))"
    for r :: "(bool \<times> Decoder \<times> 'a) option"
  have err: "returns (map_option (\<lambda>d. (False, d, g)) (decoder_error e msg d))" if "e \<in> set gl_errors" for e msg
    using decoder_error_returns [OF that, of msg d] assms by (auto simp: returns_def)
  have enum: "returns (map_option (\<lambda>d. (False, d, g)) (decoder_enum_error env v label d))" for v label
    using decoder_enum_error_returns [of env v label d] assms by (auto simp: returns_def)
  have stop: "returns (Some (False, d, g))" using assms by (auto simp: returns_def)
  have cond: "returns (if c then r else r')" if "c \<Longrightarrow> returns r" "\<not> c \<Longrightarrow> returns r'" for c r r'
    using that by simp
  have draw: "returns (IsDrawValid env program (first_vertex + cnt - 1) primcount d bm g)"
    if "\<not> sint cnt < 0" "\<not> sint primcount < 0" "\<not> sint first_vertex < 0" "\<not> (cnt = 0 \<or> instanced \<and> primcount = 0)"
  proof -
    have "sint cnt \<noteq> 0" using that(4) by (simp add: signed_eq_0_iff)
    then show ?thesis
      using IsDrawValid_ok [OF assms, of env program "first_vertex + cnt - 1" primcount g] that by (force simp: returns_def)
  qed
  have "returns (DrawArrays_check env program fb instanced mode first_vertex cnt primcount d bm g)"
    unfolding DrawArrays_check_def Let_def by (intro cond err enum stop client_error_kinds draw)
  then show ?thesis by (simp add: returns_def)
qed

lemma DrawElements_check_ok:
  assumes "decoder_env env pending" "decoder_ok F d bm"
  shows "\<exists>ok d' bm' g'. DrawElements_check env program fb instanced mode cnt type offset primcount d bm g = Some (ok, d', bm', g') \<and>
    decoder_ok F d' bm' \<and>
    (ok \<longrightarrow> (\<exists>a b rs m. vam_element_array_buffer (d_vertex_attrib_manager d) = Some a \<and> map_of (bm_objects bm) a = Some b \<and>
       bm' = set_buffer a (b\<lparr>gb_range_set := rs\<rparr>) bm \<and>
       largest_index b offset cnt type = Some m \<and> draw_checked d bm' program m primcount \<and> 0 < sint cnt \<and> 0 \<le> sint primcount))"
proof -
  define good where "good ok bm' \<longleftrightarrow> (ok \<longrightarrow> (\<exists>a b rs m. vam_element_array_buffer (d_vertex_attrib_manager d) = Some a \<and> map_of (bm_objects bm) a = Some b \<and>
       bm' = set_buffer a (b\<lparr>gb_range_set := rs\<rparr>) bm \<and>
       largest_index b offset cnt type = Some m \<and> draw_checked d bm' program m primcount \<and> 0 < sint cnt \<and> 0 \<le> sint primcount))" for ok bm'
  define returns where "returns r \<longleftrightarrow> (\<exists>ok d' bm' g'. r = Some (ok, d', bm', g') \<and> decoder_ok F d' bm' \<and> good ok bm')"
    for r :: "(bool \<times> Decoder \<times> BufferManager \<times> 'a) option"
  have err: "returns (map_option (\<lambda>d. (False, d, bm', g)) (decoder_error e msg d))" if "decoder_ok F d bm'" "e \<in> set gl_errors" for e msg bm'
    using decoder_error_returns [OF that(2), of msg d] that(1) by (auto simp: returns_def good_def)
  have enum: "returns (map_option (\<lambda>d. (False, d, bm, g)) (decoder_enum_error env v label d))" for v label
    using decoder_enum_error_returns [of env v label d] assms(2) by (auto simp: returns_def good_def)
  have stop: "returns (Some (False, d, bm, g))" using assms(2) by (auto simp: returns_def good_def)
  have cond: "returns (if c then r else r')" if "c \<Longrightarrow> returns r" "\<not> c \<Longrightarrow> returns r'" for c r r'
    using that by simp
  show ?thesis
  proof (cases "vam_element_array_buffer (d_vertex_attrib_manager d)")
    case None
    then show ?thesis using err [OF assms(2) client_error_kinds(2)] by (simp add: DrawElements_check_def returns_def good_def)
  next
    case (Some a)
    note refs = decoder_refs [OF assms(2)]
    have "a \<in> fst ` set (bm_objects bm)" using decoder_live(3) [OF assms(2)] Some by simp
    then obtain b where b: "map_of (bm_objects bm) a = Some b" "gl_buffer_ok b" using live_buffer [OF refs(1)] by blast
    have draw: "returns (GetMaxValueForRange offset cnt type b \<bind> (\<lambda>(mv, b').
         let bm = set_buffer a b' bm in case mv of
              None \<Rightarrow> map_option (\<lambda>d. (False, d, bm, g)) (decoder_error GL_INVALID_OPERATION ''range out of bounds for buffer'' d)
            | Some v \<Rightarrow> IsDrawValid env program v primcount d bm g \<bind> (\<lambda>(ok, d, g). Some (ok, d, bm, g))))"
      if "index_type_valid env type" "\<not> sint cnt < 0" "\<not> (cnt = 0 \<or> instanced \<and> primcount = 0)" "\<not> sint primcount < 0"
    proof -
      have "sint cnt \<noteq> 0" using that(3) by (simp add: signed_eq_0_iff)
      then have "0 < sint cnt" using that(2) by linarith
      have "index_width type \<noteq> None" using assms(1) that(1) unfolding decoder_env_def by blast
      then obtain rs where rs: "GetMaxValueForRange offset cnt type b = Some (largest_index b offset cnt type, b\<lparr>gb_range_set := rs\<rparr>)"
        "gl_buffer_ok (b\<lparr>gb_range_set := rs\<rparr>)"
        using GetMaxValueForRange_exact [OF b(2), of type _ offset cnt] by auto
      let ?bm = "set_buffer a (b\<lparr>gb_range_set := rs\<rparr>) bm"
      have "manager_ok {} ?bm" using set_buffer_ok [OF refs(1) b(1) rs(2)] by simp
      then have ok: "decoder_ok F d ?bm" using assms(2) by (simp add: decoder_ok_def)
      show ?thesis
      proof (cases "largest_index b offset cnt type")
        case None
        then show ?thesis using rs(1) err [OF ok client_error_kinds(2)] by simp
      next
        case m: (Some m)
        then show ?thesis using rs(1) IsDrawValid_ok [OF ok, of env program m primcount g] Some b(1) \<open>0 < sint cnt\<close> that(4)
          by (fastforce simp: returns_def good_def)
      qed
    qed
    have "returns (DrawElements_check env program fb instanced mode cnt type offset primcount d bm g)"
      unfolding DrawElements_check_def Let_def Some option.case b(1) bind.bind_lunit
      by (intro cond err [OF assms(2)] enum stop client_error_kinds draw [unfolded Let_def]) simp_all
    then show ?thesis by (simp add: returns_def good_def)
  qed
qed

lemma decoder_call_ok:
  assumes "decoder_env env pending" "decoder_ok F d bm" "decoder_call_allowed bm call" "\<not> repeats_name bm call"
  shows "\<exists>d' bm' g'. decoder_call env call d bm g = Some (d', bm', g') \<and> decoder_ok F d' bm'"
proof (cases call)
  case (GenBuffers ids)
  then show ?thesis using GenBuffersHelper_ok [OF assms(1,2), of ids g] assms(3,4)
    by (auto simp: decoder_call_def decoder_call_allowed_def repeats_name_def)
next
  case (BindBuffer target client_id)
  then show ?thesis using DoBindBuffer_ok [OF assms(1,2), of target client_id g] assms(3)
    by (auto simp: decoder_call_def decoder_call_allowed_def)
next
  case (DeleteBuffers ids)
  then show ?thesis using DeleteBuffersHelper_ok [OF assms(2), of env ids g] by (simp add: decoder_call_def)
next
  case (SetBufferData target sz data usage)
  then show ?thesis using DoBufferData_call_ok [OF assms(1,2), of sz data target usage g] assms(3)
    by (auto simp: decoder_call_def decoder_call_allowed_def)
next
  case (SetBufferSubData target offset sz data)
  then show ?thesis using DoBufferSubData_call_ok [OF assms(2), of target data sz env offset g] assms(3)
    by (auto simp: decoder_call_def decoder_call_allowed_def)
next
  case (EnableAttrib index enable)
  then show ?thesis using enable_ok [OF assms(2), of enable env index g] by (auto simp: decoder_call_def)
next
  case (AttribPointer is_default index sz type normalized stride offset)
  then show ?thesis using HandleVertexAttribPointer_ok [OF assms(1,2), of is_default index sz type normalized stride offset g]
    by (simp add: decoder_call_def)
next
  case (AttribDivisor index divisor)
  then show ?thesis using divisor_ok [OF assms(2)] by (simp add: decoder_call_def)
next
  case (DrawArrays program fb instanced mode first_vertex cnt primcount)
  then show ?thesis using DrawArrays_check_ok [OF assms(2), of env program fb instanced mode first_vertex cnt primcount g]
    by (auto simp: decoder_call_def)
next
  case (DrawElements program fb instanced mode cnt type offset primcount)
  obtain ok d' bm' g' where "DrawElements_check env program fb instanced mode cnt type offset primcount d bm g = Some (ok, d', bm', g')"
    "decoder_ok F d' bm'"
    using DrawElements_check_ok [OF assms(1,2), of program fb instanced mode cnt type offset primcount g] by (elim exE conjE)
  then show ?thesis using DrawElements by (simp add: decoder_call_def)
qed

lemma decoder_call_repeats: "decoder_env env pending \<Longrightarrow> repeats_name bm call \<Longrightarrow> decoder_call env call d bm g = None"
  using GenBuffersHelper_repeated [of env pending _ bm g] by (auto simp: repeats_name_def decoder_call_def split: DecoderCall.splits)

lemma reachable_decoder_ok:
  assumes "decoder_env env pending" "decoder_reachable env d bm g"
  shows "decoder_ok {#} d bm"
  using assms(2)
proof (induction rule: decoder_reachable.induct)
  case (start csa g bm g1 n d g2)
  then show ?case by (rule Decoder_new_ok)
next
  case (call d bm g c d' bm' g')
  have "\<not> repeats_name bm c" using decoder_call_repeats [OF assms(1), of bm c d g] call.hyps(3) by auto
  with call show ?case using decoder_call_ok [OF assms(1) call.IH call.hyps(2), of g] by auto
qed

text \<open>
  Which vertices of an attribute a draw fetches for the vertex \<open>k\<close>: the vertex itself or, for an attribute that advances per instance in an instanced
  draw, one for every \<open>divisor\<close> instances. A vertex is inside if the bytes of its element up to the next vertex are: all its bytes
  if the stride is at least the size of an element.
\<close>

definition vertices_fetched :: "u32 \<Rightarrow> VertexAttrib \<Rightarrow> nat \<Rightarrow> nat set" where
  "vertices_fetched primcount v k =
     (if primcount \<noteq> 0 \<and> va_divisor v \<noteq> 0 then (\<lambda>i. i div unat (va_divisor v)) ` {..<unat primcount} else {k})"

definition vertex_inside :: "BufferManager \<Rightarrow> VertexAttrib \<Rightarrow> nat \<Rightarrow> bool" where
  "vertex_inside bm v k \<longleftrightarrow>
     (\<exists>a b. va_buffer v = Some a \<and> map_of (bm_objects bm) a = Some b \<and> \<not> gb_deleted b \<and>
        unat (va_offset v) + k * unat (va_real_stride v) + min (element_bytes v) (unat (va_real_stride v)) \<le> unat (gb_size b))"

lemma sdiv_of_nat: "int a sdiv int b = int (a div b)"
  by (cases "a = 0"; cases "b = 0") (simp_all add: signed_divide_int_def zdiv_int)

lemma vertices_fetched_bound:
  assumes "j \<in> vertices_fetched primcount v k" "k \<le> unat max_vertex" "0 \<le> sint primcount"
  shows "j \<le> unat (MaxVertexAccessed primcount max_vertex v)"
proof (cases "primcount \<noteq> 0 \<and> va_divisor v \<noteq> 0")
  case True
  have p: "unat primcount < 2 ^ 31" "0 < unat primcount"
    using assms(3) True by (simp_all add: sint_nonneg_u32_iff unat_gt_0)
  then have p1: "unat (primcount - 1) = unat primcount - 1"
    by (subst unat_minus_one) (use True in auto)
  obtain i where i: "i < unat primcount" "j = i div unat (va_divisor v)"
    using assms(1) True by (auto simp: vertices_fetched_def)
  show ?thesis
  proof (cases "unat (va_divisor v) < 2 ^ 31")
    case small: True
    have "sint (primcount - 1) = int (unat primcount - 1)" "sint (va_divisor v) = int (unat (va_divisor v))"
      using p p1 small by (simp_all add: sint_nonneg_u32)
    then have "sint (primcount - 1) sdiv sint (va_divisor v) = int ((unat primcount - 1) div unat (va_divisor v))"
      by (simp only: sdiv_of_nat)
    moreover have "(unat primcount - 1) div unat (va_divisor v) < 2 ^ 32"
      using p by (intro le_less_trans [OF div_le_dividend]) simp
    ultimately have "unat (MaxVertexAccessed primcount max_vertex v) = (unat primcount - 1) div unat (va_divisor v)"
      using True by (simp add: MaxVertexAccessed_def unsigned_of_nat take_bit_nat_eq_self)
    then show ?thesis using i by (simp add: div_le_mono)
  next
    case False
    then have "j = 0" using i p by simp
    then show ?thesis by simp
  qed
qed (use assms in \<open>auto simp: vertices_fetched_def MaxVertexAccessed_def\<close>)

lemma checked_vertices:
  assumes "decoder_ok F d bm" "v \<in> enabled_attribs d" "p (va_index v)" "draw_checked d bm (Some p) max_vertex primcount"
    "j \<le> unat (MaxVertexAccessed primcount max_vertex v)"
  shows "vertex_inside bm v j"
proof -
  note refs = decoder_refs [OF assms(1)]
  let ?k = "MaxVertexAccessed primcount max_vertex v"
  have v: "va_enabled v" "attrib_ok v" using assms(2) refs(2) by (auto simp: enabled_attribs_def vam_ok_def in_set_conv_nth)
  have can: "CanAccess bm ?k v = Some True"
    using assms(2,3,4) by (auto simp: draw_checked_def may_access_def)
  then obtain a where a: "va_buffer v = Some a" using v(1) by (cases "va_buffer v") (simp_all add: CanAccess_def)
  have "a \<in> fst ` set (bm_objects bm)"
    using attrib_pointer_live [OF decoder_live(2) [OF assms(1)]] assms(2) a by (fastforce simp: enabled_attribs_def in_set_conv_nth)
  then obtain b where b: "map_of (bm_objects bm) a = Some b" "gl_buffer_ok b" using live_buffer [OF refs(1)] by blast
  have "\<not> gb_deleted b \<and> unat (va_offset v) + unat ?k * unat (va_real_stride v) + min (element_bytes v) (unat (va_real_stride v)) \<le> unat (gb_size b)"
    using CanAccess_bytes [OF v(1) a b v(2), of ?k] can by simp
  moreover have "j * unat (va_real_stride v) \<le> unat ?k * unat (va_real_stride v)" using assms(5) by (rule mult_right_mono) simp
  ultimately have "\<not> gb_deleted b"
      "unat (va_offset v) + j * unat (va_real_stride v) + min (element_bytes v) (unat (va_real_stride v)) \<le> unat (gb_size b)" by linarith+
  then show ?thesis using a b(1) by (auto simp: vertex_inside_def)
qed

lemma vertex_inside_cache:
  assumes "map_of (bm_objects bm) a = Some b"
  shows "vertex_inside (set_buffer a (b\<lparr>gb_range_set := rs\<rparr>) bm) v k = vertex_inside bm v k"
  using assms by (auto simp: vertex_inside_def set_buffer_def update_conv')

lemma DrawElements_vertices:
  assumes "decoder_env env pending" "decoder_ok F d bm" "v \<in> enabled_attribs d" "p (va_index v)"
    "DrawElements_check env (Some p) fb instanced mode cnt type offset primcount d bm g = Some (True, d', bm', g')"
    "vam_element_array_buffer (d_vertex_attrib_manager d) = Some a" "map_of (bm_objects bm) a = Some e" "gb_shadow e = Some data"
    "index_width type = Some w" "i < nat (sint cnt)" "j \<in> vertices_fetched primcount v (element w data (unat offset) i)"
  shows "vertex_inside bm v j"
proof -
  obtain rs m where 1: "bm' = set_buffer a (e\<lparr>gb_range_set := rs\<rparr>) bm" "largest_index e offset cnt type = Some m"
    "draw_checked d bm' (Some p) m primcount" "decoder_ok F d' bm'" "0 \<le> sint primcount"
    using DrawElements_check_ok [OF assms(1,2), of "Some p" fb instanced mode cnt type offset primcount g] assms(5-7) by auto
  have "decoder_ok F d bm'" using assms(2) 1(4) unfolding 1(1) by (simp add: decoder_ok_def)
  have "element w data (unat offset) i \<le> unat m" using largest_index_bound [OF 1(2) assms(8-10)] by simp
  from vertices_fetched_bound [OF assms(11) this 1(5)]
  have "vertex_inside bm' v j"
    by (rule checked_vertices [where p = p, OF \<open>decoder_ok F d bm'\<close> assms(3,4) 1(3)])
  then show ?thesis using vertex_inside_cache [OF assms(7)] 1(1) by simp
qed

lemma DrawArrays_vertices:
  assumes "decoder_ok F d bm" "v \<in> enabled_attribs d" "p (va_index v)"
    and draw: "DrawArrays_check env (Some p) fb instanced mode first_vertex cnt primcount d bm g = Some (True, d', g')" and k: "k < unat cnt"
    and j: "j \<in> vertices_fetched primcount v (unat first_vertex + k)"
  shows "vertex_inside bm v j"
proof -
  have 1: "draw_checked d bm (Some p) (first_vertex + cnt - 1) primcount" "0 \<le> sint first_vertex" "0 < sint cnt" "0 \<le> sint primcount"
    using DrawArrays_check_ok [OF assms(1), of env "Some p" fb instanced mode first_vertex cnt primcount g] draw by auto
  then have "unat first_vertex < 2 ^ 31" "unat cnt < 2 ^ 31"
    using sint_nonneg_u32_iff [of first_vertex] sint_nonneg_u32_iff [of cnt] by linarith+
  then have "unat (first_vertex + cnt) = unat first_vertex + unat cnt" by (simp add: unat_word_ariths)
  moreover have "unat (first_vertex + cnt - 1) = unat (first_vertex + cnt) - 1"
    using k calculation unat_sub_le [where a = "first_vertex + cnt" and b = 1] by simp
  ultimately have "unat first_vertex + k \<le> unat (first_vertex + cnt - 1)" using k by simp
  from vertices_fetched_bound [OF j this 1(4)] show ?thesis by (rule checked_vertices [where p = p, OF assms(1-3) 1(1)])
qed

subsection \<open>Properties\<close>

fun decoder_calls :: "'g DecoderEnv \<Rightarrow> DecoderCall list \<Rightarrow> Decoder \<Rightarrow> BufferManager \<Rightarrow> 'g \<Rightarrow> (Decoder \<times> BufferManager \<times> 'g) option" where
  "decoder_calls env [] d bm g = Some (d, bm, g)"
| "decoder_calls env (call # calls) d bm g = do {
     dcheck (decoder_call_allowed bm call);
     (d, bm, g) \<leftarrow> decoder_call env call d bm g;
     decoder_calls env calls d bm g
   }"

lemma decoder_calls_reachable:
  "decoder_reachable env d bm g \<Longrightarrow> decoder_calls env calls d bm g = Some (d', bm', g') \<Longrightarrow> decoder_reachable env d' bm' g'"
proof (induction calls arbitrary: d bm g)
  case (Cons call calls)
  then obtain d1 bm1 g1 where "decoder_call_allowed bm call" "decoder_call env call d bm g = Some (d1, bm1, g1)"
    "decoder_calls env calls d1 bm1 g1 = Some (d', bm', g')"
    by (auto split: if_splits prod.splits Option.bind_splits)
  then show ?case using Cons.IH decoder_reachable.call [OF Cons.prems(1)] by blast
qed simp

text \<open>An example: one attribute of four floats in a buffer of two vertices, and an index buffer with the indices 1 and 0.\<close>

definition demo_decoder_env :: "unit DecoderEnv" where
  "demo_decoder_env =
     \<lparr>gl_env = demo_gl, glGenBuffersARB = \<lambda>n g. (replicate n 7, g), glBindBuffer = \<lambda>_ _ g. g,
      glEnableVertexAttribArray = \<lambda>_ g. g, glDisableVertexAttribArray = \<lambda>_ g. g, glVertexAttribPointer = \<lambda>_ _ _ _ _ _ g. g,
      glVertexAttrib4f = \<lambda>_ _ g. g, vertex_attrib_type_valid = \<lambda>t. t = GL_FLOAT, vertex_attrib_size_valid = \<lambda>n. n = 4,
      draw_mode_valid = \<lambda>_. True, index_type_valid = \<lambda>t. t = GL_UNSIGNED_BYTE, bind_generates_resource = True,
      disable_gpu_driver_bug_workarounds = False, use_client_side_arrays_for_stream_buffers = False, is_egl_gles2 = False\<rparr>"

definition demo_decoder_calls :: "DecoderCall list" where
  "demo_decoder_calls =
     [BindBuffer GL_ARRAY_BUFFER 1, SetBufferData GL_ARRAY_BUFFER 32 None GL_STATIC_DRAW,
      AttribPointer True 0 4 GL_FLOAT False 0 0, EnableAttrib 0 True,
      BindBuffer GL_ELEMENT_ARRAY_BUFFER 2, SetBufferData GL_ELEMENT_ARRAY_BUFFER 2 (Some [1, 0]) GL_STATIC_DRAW]"

definition demo_attrib :: VertexAttrib where
  "demo_attrib = VertexAttrib_new\<lparr>va_enabled := True, va_buffer := Some 0\<rparr>"

definition demo_gl_decoder :: Decoder where
  "demo_gl_decoder =
     \<lparr>d_bound_array_buffer = Some 0,
      d_vertex_attrib_manager =
        \<lparr>num_fixed_attribs = 0, vertex_attribs = [demo_attrib], vam_element_array_buffer = Some 1,
         enabled_vertex_attribs = [0], disabled_vertex_attribs = []\<rparr>,
      d_error_state = ErrorState_new, d_buffer_ids = \<lparr>used_ids = [1, 2], free_ids = []\<rparr>, d_generic_error = False\<rparr>"

definition demo_vertices :: GlBuffer where
  "demo_vertices = (Buffer_init 7)\<lparr>gb_size := 32, gb_target := GL_ARRAY_BUFFER\<rparr>"

definition demo_indices :: GlBuffer where
  "demo_indices = (Buffer_init 7)\<lparr>gb_size := 2, gb_target := GL_ELEMENT_ARRAY_BUFFER, gb_shadowed := True, gb_shadow := Some [1, 0]\<rparr>"

definition demo_buffers :: BufferManager where
  "demo_buffers =
     \<lparr>bm_memory_tracker = \<lparr>has_done_update = True, mem_represented = 34, mem_represented_at_last_update = 34\<rparr>,
      bm_objects = [(1, demo_indices), (0, demo_vertices)], bm_next = 2, bm_buffers = [(2, 1), (1, 0)], bm_refs = [1, 0, 0],
      bm_allow_buffers_on_multiple_targets = False, bm_buffer_count = 2, bm_have_context = True,
      bm_use_client_side_arrays_for_stream_buffers = False\<rparr>"

lemma demo_decoder_env_ok: "decoder_env demo_decoder_env (\<lambda>_. 0)"
  using demo_gl_driver by (simp add: decoder_env_def demo_decoder_env_def GetGLTypeSizeForTexturesAndBuffers_def index_width_def)

text \<open>The definitions that evaluate a sequence of calls.\<close>

lemmas decoder_eval =
  decoder_call_def decoder_call_allowed_def Decoder_new_def VertexAttribManager_Initialize_def VertexAttribManager_new_def
  VertexAttrib_new_def SetList_def Let_def IdAllocator_new_def MarkAsUsed_def insort_insert_key_def DoBindBuffer_def
  bind_generated_def bind_target_def assign_ref_def drop_ref_def Buffer_Release_def SetElementArrayBuffer_def service_id_of_def
  DoBufferData_call_def context_state_def HandleVertexAttribPointer_def SetAttribInfo_def VertexAttrib_SetInfo_def
  GetVertexAttrib_def DoEnableVertexAttribArray_def VAM_Enable_def BufferManager_new_def MemoryTypeTracker_new_def
  UpdateMemRepresented_def TrackMemFree_def TrackMemAlloc_def EnsureGPUMemoryAvailable_def CreateBuffer_def GlBuffer_new_def
  Buffer_init_def StartTracking_def GetBuffer_def take_ref_def BufferManager_SetTarget_def set_target_def set_buffer_def
  GetBufferInfoForTarget_def ValidateAndDoBufferData_def DoBufferData_def PeekGLError_def IsUsageClientSideArray_def
  BufferManager_SetInfo_def Buffer_SetInfo_def ClearCache_def copy_bytes_def GetGLTypeSizeForTexturesAndBuffers_def
  ErrorState_new_def

lemma demo_decoder_run:
  "decoder_calls demo_decoder_env demo_decoder_calls (fst (Decoder_new demo_decoder_env 1 ())) (fst (BufferManager_new demo_gl False ())) () =
     Some (demo_gl_decoder, demo_buffers, ())"
  by (simp add: decoder_eval demo_decoder_calls_def demo_decoder_env_def demo_gl_decoder_def demo_attrib_def demo_buffers_def demo_vertices_def demo_indices_def demo_gl_def)
    (simp add: word_le_nat_alt)

lemma demo_decoder_reachable: "decoder_reachable demo_decoder_env demo_gl_decoder demo_buffers ()"
proof -
  have "gl_env demo_decoder_env = demo_gl" by (simp add: demo_decoder_env_def)
  then obtain bm where bm: "BufferManager_new (gl_env demo_decoder_env) False () = (bm, ())"
    by (cases "BufferManager_new demo_gl False ()") auto
  obtain d where d: "Decoder_new demo_decoder_env 1 () = (d, ())"
    by (cases "Decoder_new demo_decoder_env 1 ()") auto
  show ?thesis
    using decoder_calls_reachable [OF decoder_reachable.start [OF bm d], of demo_decoder_calls] demo_decoder_run bm d
      \<open>gl_env demo_decoder_env = demo_gl\<close> by simp
qed

lemma demo_draw:
  "demo_attrib \<in> enabled_attribs demo_gl_decoder" "element_bytes demo_attrib = 16" "va_real_stride demo_attrib = 16"
  "va_divisor demo_attrib = 0" "va_buffer demo_attrib = Some 0"
  "vam_element_array_buffer (d_vertex_attrib_manager demo_gl_decoder) = Some 1"
  "map_of (bm_objects demo_buffers) 1 = Some demo_indices" "map_of (bm_objects demo_buffers) 0 = Some demo_vertices"
  by (simp_all add: enabled_attribs_def demo_gl_decoder_def demo_attrib_def VertexAttrib_new_def element_bytes_def
      GetGLTypeSizeForTexturesAndBuffers_def demo_buffers_def)

text \<open>
  C33. What \<open>CanAccess\<close> answers: an enabled attribute can access vertex \<open>k\<close> exactly if its buffer is not deleted and the bytes from the
  start of the vertex on, as many as an element has but at most as many as the stride, lie inside the buffer. For a stride
  smaller than an element the rest of the element may lie behind the end.
\<close>

theorem CanAccess_exact:
  assumes "decoder_env env pending" "decoder_reachable env d bm g" "v \<in> enabled_attribs d" "va_buffer v = Some a"
    "map_of (bm_objects bm) a = Some b"
  shows "CanAccess bm k v =
    Some (\<not> gb_deleted b \<and>
      unat (va_offset v) + unat k * unat (va_real_stride v) + min (element_bytes v) (unat (va_real_stride v)) \<le> unat (gb_size b))"
proof -
  note ok = reachable_decoder_ok [OF assms(1,2)]
  have "va_enabled v" "attrib_ok v"
    using assms(3) decoder_refs(2) [OF ok] by (auto simp: enabled_attribs_def vam_ok_def in_set_conv_nth)
  moreover have "gl_buffer_ok b"
    using decoder_refs(1) [OF ok] map_of_SomeD [OF assms(5)] by (auto simp: manager_ok_def objects_ok_def)
  ultimately show ?thesis using CanAccess_bytes assms(4,5) by blast
qed

theorem CanAccess_exact_witness: "CanAccess demo_buffers 1 demo_attrib = Some True \<and> CanAccess demo_buffers 2 demo_attrib = Some False"
  using CanAccess_exact [OF demo_decoder_env_ok demo_decoder_reachable demo_draw(1,5,8), of 1]
    CanAccess_exact [OF demo_decoder_env_ok demo_decoder_reachable demo_draw(1,5,8), of 2] demo_draw(2,3)
  by (simp add: demo_vertices_def Buffer_init_def demo_attrib_def VertexAttrib_new_def)

end
