(* ===== verification/Vertex_Arrays.thy ===== *)
theory Vertex_Arrays
  imports Draw_Safety
begin

section \<open>Vertex array objects\<close>

text \<open>
  Model of \<^verbatim>\<open>src/gpu/command_buffer/service/vertex_array_manager.{h,cc}\<close> and of the functions of \<^verbatim>\<open>gles2_cmd_decoder.cc\<close> that
  generate, bind and delete vertex arrays. A vertex array is a \<open>VertexAttribManager\<close>; its attributes are the record of \<open>Vertex_Attribs\<close>,
  and this theory adds the object around them. The references to vertex arrays are the entries of the manager's table, \<open>state_.vertex_attrib_manager\<close>
  (the current one) and \<open>default_vertex_attrib_manager_\<close>: an object is destroyed when the last of them goes, and then it lets go of
  its buffers. A call of the decoder that works on attributes works on those of the current vertex array.
  The table is an association list; the order of the list stands for the order of the hash map, which is not specified.
\<close>

record 'g ArrayEnv =
  decoder_gl :: "'g DecoderEnv"
  glGenVertexArraysOES :: "nat \<Rightarrow> 'g \<Rightarrow> u32 list \<times> 'g"
  glDeleteVertexArraysOES :: "u32 \<Rightarrow> 'g \<Rightarrow> 'g"
  glBindVertexArrayOES :: "u32 \<Rightarrow> 'g \<Rightarrow> 'g"
  glVertexAttribDivisorANGLE :: "u32 \<Rightarrow> u32 \<Rightarrow> 'g \<Rightarrow> 'g"
  native_vertex_array_object :: bool
  max_vertex_attribs :: u32

subsection \<open>Vertex arrays and their manager\<close>

record VertexArray =
  vao_attribs :: VertexAttribManager
  vao_has_manager :: bool
  vao_deleted :: bool
  vao_service_id :: u32

record VertexArrayManager =
  vertex_attrib_managers :: "(u32 \<times> nat) list"
  vertex_attrib_manager_count :: u32
  vao_have_context :: bool

record Arrays = VertexArrayManager +
  vao_objects :: "(nat \<times> VertexArray) list"
  vao_next :: nat
  current_vao :: "nat option"
  default_vao :: "nat option"

definition VertexArrayManager_new :: "nat \<Rightarrow> (nat \<times> VertexArray) list \<Rightarrow> nat option \<Rightarrow> nat option \<Rightarrow> Arrays" where
  "VertexArrayManager_new n objects current dflt =
     \<lparr>vertex_attrib_managers = [], vertex_attrib_manager_count = 0, vao_have_context = True,
      vao_objects = objects, vao_next = n, current_vao = current, default_vao = dflt\<rparr>"

definition VAO_StartTracking :: "Arrays \<Rightarrow> Arrays" where
  "VAO_StartTracking s = s\<lparr>vertex_attrib_manager_count := vertex_attrib_manager_count s + 1\<rparr>"

definition VAO_StopTracking :: "Arrays \<Rightarrow> Arrays" where
  "VAO_StopTracking s = s\<lparr>vertex_attrib_manager_count := vertex_attrib_manager_count s - 1\<rparr>"

definition set_vao :: "nat \<Rightarrow> VertexArray \<Rightarrow> Arrays \<Rightarrow> Arrays" where
  "set_vao a v s = s\<lparr>vao_objects := AList.update a v (vao_objects s)\<rparr>"

text \<open>The constructor that the manager uses.\<close>

definition VertexArray_new :: "'g ArrayEnv \<Rightarrow> u32 \<Rightarrow> Arrays \<Rightarrow> 'g \<Rightarrow> nat \<times> Arrays \<times> 'g" where
  "VertexArray_new env service_id s g =
     (let s = VAO_StartTracking s;
          (m, g) = VertexAttribManager_Initialize (decoder_gl env) (max_vertex_attribs env) False VertexAttribManager_new g;
          a = vao_next s
      in (a, s\<lparr>vao_objects := (a, \<lparr>vao_attribs = m, vao_has_manager = True, vao_deleted = False, vao_service_id = service_id\<rparr>) # vao_objects s,
               vao_next := a + 1\<rparr>, g))"

text \<open>The destructor, with those of the members: the attributes and the element array buffer give up their references.\<close>

fun release_attribs :: "'g GlEnv \<Rightarrow> VertexAttrib list \<Rightarrow> BufferManager \<Rightarrow> 'g \<Rightarrow> (BufferManager \<times> 'g) option" where
  "release_attribs env [] bm g = Some (bm, g)"
| "release_attribs env (v # vs) bm g = do {
     (bm, g) \<leftarrow> assign_ref env (va_buffer v) None bm g;
     release_attribs env vs bm g
   }"

definition VertexArray_delete :: "'g ArrayEnv \<Rightarrow> nat \<Rightarrow> Arrays \<Rightarrow> BufferManager \<Rightarrow> 'g \<Rightarrow> (Arrays \<times> BufferManager \<times> 'g) option" where
  "VertexArray_delete env a s bm g = do {
     v \<leftarrow> map_of (vao_objects s) a;
     let g = (if vao_has_manager v \<and> vao_have_context s \<and> vao_service_id v \<noteq> 0
              then glDeleteVertexArraysOES env (vao_service_id v) g else g);
     let s = (if vao_has_manager v then VAO_StopTracking s else s);
     (bm, g) \<leftarrow> assign_ref (gl_env (decoder_gl env)) (vam_element_array_buffer (vao_attribs v)) None bm g;
     (bm, g) \<leftarrow> release_attribs (gl_env (decoder_gl env)) (vertex_attribs (vao_attribs v)) bm g;
     Some (s\<lparr>vao_objects := AList.delete a (vao_objects s)\<rparr>, bm, g)
   }"

text \<open>\<open>Release\<close>, after one reference to \<open>a\<close> has gone.\<close>

definition VertexArray_Release :: "'g ArrayEnv \<Rightarrow> nat \<Rightarrow> Arrays \<Rightarrow> BufferManager \<Rightarrow> 'g \<Rightarrow> (Arrays \<times> BufferManager \<times> 'g) option" where
  "VertexArray_Release env a s bm g =
     (if a \<in> snd ` set (vertex_attrib_managers s) \<or> current_vao s = Some a \<or> default_vao s = Some a then Some (s, bm, g)
      else VertexArray_delete env a s bm g)"

definition set_current_vao :: "'g ArrayEnv \<Rightarrow> nat option \<Rightarrow> Arrays \<Rightarrow> BufferManager \<Rightarrow> 'g \<Rightarrow> (Arrays \<times> BufferManager \<times> 'g) option" where
  "set_current_vao env p s bm g =
     (case current_vao s of
        None \<Rightarrow> Some (s\<lparr>current_vao := p\<rparr>, bm, g)
      | Some a \<Rightarrow> VertexArray_Release env a (s\<lparr>current_vao := p\<rparr>) bm g)"

definition set_default_vao :: "'g ArrayEnv \<Rightarrow> nat option \<Rightarrow> Arrays \<Rightarrow> BufferManager \<Rightarrow> 'g \<Rightarrow> (Arrays \<times> BufferManager \<times> 'g) option" where
  "set_default_vao env p s bm g =
     (case default_vao s of
        None \<Rightarrow> Some (s\<lparr>default_vao := p\<rparr>, bm, g)
      | Some a \<Rightarrow> VertexArray_Release env a (s\<lparr>default_vao := p\<rparr>) bm g)"

definition CreateVertexAttribManager :: "'g ArrayEnv \<Rightarrow> u32 \<Rightarrow> u32 \<Rightarrow> Arrays \<Rightarrow> 'g \<Rightarrow> (Arrays \<times> 'g) option" where
  "CreateVertexAttribManager env client_id service_id s g = do {
     let (a, s, g) = VertexArray_new env service_id s g;
     dcheck (map_of (vertex_attrib_managers s) client_id = None);
     Some (s\<lparr>vertex_attrib_managers := (client_id, a) # vertex_attrib_managers s\<rparr>, g)
   }"

definition GetVertexAttribManager :: "u32 \<Rightarrow> Arrays \<Rightarrow> nat option" where
  "GetVertexAttribManager client_id s = map_of (vertex_attrib_managers s) client_id"

definition RemoveVertexAttribManager ::
  "'g ArrayEnv \<Rightarrow> u32 \<Rightarrow> Arrays \<Rightarrow> BufferManager \<Rightarrow> 'g \<Rightarrow> (Arrays \<times> BufferManager \<times> 'g) option" where
  "RemoveVertexAttribManager env client_id s bm g =
     (case map_of (vertex_attrib_managers s) client_id of
        None \<Rightarrow> Some (s, bm, g)
      | Some a \<Rightarrow> do {
          v \<leftarrow> map_of (vao_objects s) a;
          let s = set_vao a (v\<lparr>vao_deleted := True\<rparr>) s;
          VertexArray_Release env a (s\<lparr>vertex_attrib_managers := AList.delete client_id (vertex_attrib_managers s)\<rparr>) bm g
        })"

fun clear_arrays :: "'g ArrayEnv \<Rightarrow> (u32 \<times> nat) list \<Rightarrow> Arrays \<Rightarrow> BufferManager \<Rightarrow> 'g \<Rightarrow> (Arrays \<times> BufferManager \<times> 'g) option" where
  "clear_arrays env [] s bm g = Some (s\<lparr>vertex_attrib_managers := []\<rparr>, bm, g)"
| "clear_arrays env ((client_id, a) # rest) s bm g = do {
     (s, bm, g) \<leftarrow> VertexArray_Release env a (s\<lparr>vertex_attrib_managers := rest\<rparr>) bm g;
     clear_arrays env rest s bm g
   }"

definition VertexArrayManager_Destroy :: "'g ArrayEnv \<Rightarrow> bool \<Rightarrow> Arrays \<Rightarrow> BufferManager \<Rightarrow> 'g \<Rightarrow> (Arrays \<times> BufferManager \<times> 'g) option" where
  "VertexArrayManager_Destroy env have_context s bm g =
     clear_arrays env (vertex_attrib_managers s) (s\<lparr>vao_have_context := have_context\<rparr>) bm g"

definition VertexArrayManager_delete :: "Arrays \<Rightarrow> unit option" where
  "VertexArrayManager_delete s = do {
     dcheck (vertex_attrib_managers s = []);
     dcheck (vertex_attrib_manager_count s = 0)
   }"

fun find_client_id :: "u32 \<Rightarrow> (u32 \<times> nat) list \<Rightarrow> (nat \<times> VertexArray) list \<Rightarrow> u32 option option" where
  "find_client_id service_id [] objects = Some None"
| "find_client_id service_id ((client_id, a) # rest) objects = do {
     v \<leftarrow> map_of objects a;
     if vao_service_id v = service_id then Some (Some client_id) else find_client_id service_id rest objects
   }"

definition VertexArray_GetClientId :: "u32 \<Rightarrow> Arrays \<Rightarrow> u32 option option" where
  "VertexArray_GetClientId service_id s = find_client_id service_id (vertex_attrib_managers s) (vao_objects s)"

subsection \<open>The calls of the decoder\<close>

fun create_arrays :: "'g ArrayEnv \<Rightarrow> u32 list \<Rightarrow> u32 list \<Rightarrow> Arrays \<Rightarrow> 'g \<Rightarrow> (Arrays \<times> 'g) option" where
  "create_arrays env (client_id # client_ids) (service_id # service_ids) s g = do {
     (s, g) \<leftarrow> CreateVertexAttribManager env client_id service_id s g;
     create_arrays env client_ids service_ids s g
   }"
| "create_arrays env [] _ s g = Some (s, g)"
| "create_arrays env _ [] s g = None"

definition GenVertexArraysOESHelper :: "'g ArrayEnv \<Rightarrow> u32 list \<Rightarrow> Arrays \<Rightarrow> 'g \<Rightarrow> (bool \<times> Arrays \<times> 'g) option" where
  "GenVertexArraysOESHelper env client_ids s g =
     (if \<exists>c \<in> set client_ids. GetVertexAttribManager c s \<noteq> None then Some (False, s, g)
      else do {
        let (service_ids, g) = (if \<not> native_vertex_array_object env then (replicate (length client_ids) 0, g)
                                else glGenVertexArraysOES env (length client_ids) g);
        (s, g) \<leftarrow> create_arrays env client_ids service_ids s g;
        Some (True, s, g)
      })"

fun DeleteVertexArraysOESHelper ::
  "'g ArrayEnv \<Rightarrow> u32 list \<Rightarrow> Arrays \<Rightarrow> BufferManager \<Rightarrow> 'g \<Rightarrow> (Arrays \<times> BufferManager \<times> 'g) option" where
  "DeleteVertexArraysOESHelper env [] s bm g = Some (s, bm, g)"
| "DeleteVertexArraysOESHelper env (c # cs) s bm g =
     (case GetVertexAttribManager c s of
        None \<Rightarrow> DeleteVertexArraysOESHelper env cs s bm g
      | Some vao \<Rightarrow> do {
          v \<leftarrow> map_of (vao_objects s) vao;
          if vao_deleted v then DeleteVertexArraysOESHelper env cs s bm g
          else do {
            (s, bm, g) \<leftarrow> (if current_vao s = Some vao then set_current_vao env (default_vao s) s bm g else Some (s, bm, g));
            (s, bm, g) \<leftarrow> RemoveVertexAttribManager env c s bm g;
            DeleteVertexArraysOESHelper env cs s bm g
          }
        })"

text \<open>Used when \<open>OES_vertex_array_object\<close> isn't natively supported.\<close>

definition RestoreStateForAttrib ::
  "'g ArrayEnv \<Rightarrow> u32 \<Rightarrow> VertexAttribManager \<Rightarrow> Decoder \<Rightarrow> BufferManager \<Rightarrow> 'g \<Rightarrow> 'g option" where
  "RestoreStateForAttrib env attrib_index m d bm g = do {
     let gl = decoder_gl env;
     attrib \<leftarrow> GetVertexAttrib attrib_index m;
     buffer_id \<leftarrow> service_id_of bm (va_buffer attrib);
     let g = glBindBuffer gl GL_ARRAY_BUFFER buffer_id g;
     let g = glVertexAttribPointer gl attrib_index (va_size attrib) (va_type attrib) (va_normalized attrib) (va_gl_stride attrib)
               (BufferOffset (va_offset attrib)) g;
     let g = (if va_divisor attrib \<noteq> 0 then glVertexAttribDivisorANGLE env attrib_index (va_divisor attrib) g else g);
     array_id \<leftarrow> service_id_of bm (d_bound_array_buffer d);
     let g = glBindBuffer gl GL_ARRAY_BUFFER array_id g;
     Some (if attrib_index \<noteq> 0 \<or> is_egl_gles2 gl
           then if va_enabled attrib then glEnableVertexAttribArray gl attrib_index g else glDisableVertexAttribArray gl attrib_index g
           else g)
   }"

fun restore_attribs :: "'g ArrayEnv \<Rightarrow> nat list \<Rightarrow> VertexAttribManager \<Rightarrow> Decoder \<Rightarrow> BufferManager \<Rightarrow> 'g \<Rightarrow> 'g option" where
  "restore_attribs env [] m d bm g = Some g"
| "restore_attribs env (vv # vvs) m d bm g = do {
     g \<leftarrow> RestoreStateForAttrib env (of_nat vv) m d bm g;
     restore_attribs env vvs m d bm g
   }"

definition EmulateVertexArrayState :: "'g ArrayEnv \<Rightarrow> Decoder \<Rightarrow> Arrays \<Rightarrow> BufferManager \<Rightarrow> 'g \<Rightarrow> 'g option" where
  "EmulateVertexArrayState env d s bm g = do {
     a \<leftarrow> current_vao s;
     v \<leftarrow> map_of (vao_objects s) a;
     g \<leftarrow> restore_attribs env [0..<unat (max_vertex_attribs env)] (vao_attribs v) d bm g;
     element_id \<leftarrow> service_id_of bm (vam_element_array_buffer (vao_attribs v));
     Some (glBindBuffer (decoder_gl env) GL_ELEMENT_ARRAY_BUFFER element_id g)
   }"

definition bind_vao ::
  "'g ArrayEnv \<Rightarrow> nat option \<Rightarrow> u32 \<Rightarrow> Decoder \<Rightarrow> Arrays \<Rightarrow> BufferManager \<Rightarrow> 'g \<Rightarrow> (Arrays \<times> BufferManager \<times> 'g) option" where
  "bind_vao env vao service_id d s bm g =
     (if current_vao s \<noteq> vao then do {
        (s, bm, g) \<leftarrow> set_current_vao env vao s bm g;
        g \<leftarrow> (if \<not> native_vertex_array_object env then EmulateVertexArrayState env d s bm g
              else Some (glBindVertexArrayOES env service_id g));
        Some (s, bm, g)
      }
      else Some (s, bm, g))"

definition DoBindVertexArrayOES ::
  "'g ArrayEnv \<Rightarrow> u32 \<Rightarrow> Decoder \<Rightarrow> Arrays \<Rightarrow> BufferManager \<Rightarrow> 'g \<Rightarrow> (Decoder \<times> Arrays \<times> BufferManager \<times> 'g) option" where
  "DoBindVertexArrayOES env client_id d s bm g =
     (if client_id \<noteq> 0 then
        case GetVertexAttribManager client_id s of
          None \<Rightarrow> do {
            d \<leftarrow> decoder_error GL_INVALID_OPERATION ''bad vertex array id.'' d;
            Some (d, s, bm, g)
          }
        | Some vao \<Rightarrow> do {
            v \<leftarrow> map_of (vao_objects s) vao;
            (s, bm, g) \<leftarrow> bind_vao env (Some vao) (vao_service_id v) d s bm g;
            Some (d, s, bm, g)
          }
      else do {
        (s, bm, g) \<leftarrow> bind_vao env (default_vao s) 0 d s bm g;
        Some (d, s, bm, g)
      })"

definition DoIsVertexArrayOES :: "u32 \<Rightarrow> Arrays \<Rightarrow> bool option" where
  "DoIsVertexArrayOES client_id s =
     (case GetVertexAttribManager client_id s of
        None \<Rightarrow> Some False
      | Some vao \<Rightarrow> map_option (\<lambda>v. \<not> vao_deleted v) (map_of (vao_objects s) vao))"

text \<open>
  What \<open>Initialize\<close> and \<open>Destroy\<close> of the decoder do about vertex arrays, and a call that works on the attributes of the current one. The default
  vertex array belongs to no manager.
\<close>

definition Arrays_Initialize :: "'g ArrayEnv \<Rightarrow> Decoder \<Rightarrow> BufferManager \<Rightarrow> 'g \<Rightarrow> (Decoder \<times> Arrays \<times> BufferManager \<times> 'g) option" where
  "Arrays_Initialize env d bm g = do {
     let (m, g) = VertexAttribManager_Initialize (decoder_gl env) (max_vertex_attribs env) True VertexAttribManager_new g;
     let objects = [(0, \<lparr>vao_attribs = m, vao_has_manager = False, vao_deleted = False, vao_service_id = 0\<rparr>)];
     (d, s, bm, g) \<leftarrow> DoBindVertexArrayOES env 0 d (VertexArrayManager_new 1 objects None (Some 0)) bm g;
     Some (d, VertexArrayManager_new (vao_next s) (vao_objects s) (current_vao s) (default_vao s), bm, g)
   }"

definition Arrays_Destroy :: "'g ArrayEnv \<Rightarrow> bool \<Rightarrow> Decoder \<Rightarrow> Arrays \<Rightarrow> BufferManager \<Rightarrow> 'g \<Rightarrow> (Decoder \<times> Arrays \<times> BufferManager \<times> 'g) option" where
  "Arrays_Destroy env have_context d s bm g = do {
     (s, bm, g) \<leftarrow> set_current_vao env None s bm g;
     (s, bm, g) \<leftarrow> set_default_vao env None s bm g;
     (bm, g) \<leftarrow> assign_ref (gl_env (decoder_gl env)) (d_bound_array_buffer d) None bm g;
     (s, bm, g) \<leftarrow> VertexArrayManager_Destroy env have_context s bm g;
     _ \<leftarrow> VertexArrayManager_delete s;
     Some (d\<lparr>d_bound_array_buffer := None\<rparr>, s, bm, g)
   }"

definition current_call :: "Arrays \<Rightarrow> DecoderCall \<Rightarrow> DecoderCall" where
  "current_call s call =
     (case call of
        AttribPointer _ index sz type normalized stride offset \<Rightarrow>
          AttribPointer (current_vao s = default_vao s) index sz type normalized stride offset
      | _ \<Rightarrow> call)"

definition on_current ::
  "'g ArrayEnv \<Rightarrow> DecoderCall \<Rightarrow> Decoder \<Rightarrow> Arrays \<Rightarrow> BufferManager \<Rightarrow> 'g \<Rightarrow> (Decoder \<times> Arrays \<times> BufferManager \<times> 'g) option" where
  "on_current env call d s bm g = do {
     a \<leftarrow> current_vao s;
     v \<leftarrow> map_of (vao_objects s) a;
     (d, bm, g) \<leftarrow> decoder_call (decoder_gl env) (current_call s call) (d\<lparr>d_vertex_attrib_manager := vao_attribs v\<rparr>) bm g;
     Some (d, set_vao a (v\<lparr>vao_attribs := d_vertex_attrib_manager d\<rparr>) s, bm, g)
   }"

subsection \<open>The references are right\<close>

text \<open>
  The buffers that vertex arrays refer to, and the invariant: the objects are those that something refers to, besides the set \<open>D\<close> that is about
  to be released; \<open>P\<close> are the references to buffers outside the vertex arrays. The manager counts its objects.
\<close>

definition array_pointers :: "(nat \<times> VertexArray) list \<Rightarrow> nat multiset" where
  "array_pointers objects = sum_list (map (\<lambda>(a, v). vam_pointers (vao_attribs v)) objects)"

lemma array_pointers_simps [simp]:
  "array_pointers [] = {#}" "array_pointers (p # ps) = vam_pointers (vao_attribs (snd p)) + array_pointers ps"
  by (simp_all add: array_pointers_def case_prod_beta)

definition array_ok :: "nat \<Rightarrow> VertexArray \<Rightarrow> bool" where
  "array_ok n v \<longleftrightarrow> vam_ok (vao_attribs v) \<and> length (vertex_attribs (vao_attribs v)) = n"

definition tracked :: "(nat \<times> VertexArray) list \<Rightarrow> nat" where
  "tracked objects = length (filter (\<lambda>(a, v). vao_has_manager v) objects)"

definition arrays_ok :: "'g ArrayEnv \<Rightarrow> nat set \<Rightarrow> nat multiset \<Rightarrow> Arrays \<Rightarrow> BufferManager \<Rightarrow> bool" where
  "arrays_ok env D P s bm \<longleftrightarrow>
     manager_ok {} bm \<and> mset (bm_refs bm) = P + array_pointers (vao_objects s) \<and>
     distinct (map fst (vao_objects s)) \<and>
     (\<forall>a v. (a, v) \<in> set (vao_objects s) \<longrightarrow> a < vao_next s \<and> array_ok (unat (max_vertex_attribs env)) v \<and> (vao_deleted v \<longrightarrow> a \<in> D)) \<and>
     fst ` set (vao_objects s) = snd ` set (vertex_attrib_managers s) \<union> set_option (current_vao s) \<union> set_option (default_vao s) \<union> D \<and>
     distinct (map fst (vertex_attrib_managers s)) \<and> distinct (map snd (vertex_attrib_managers s)) \<and>
     set_option (default_vao s) \<inter> snd ` set (vertex_attrib_managers s) = {} \<and>
     vertex_attrib_manager_count s = of_nat (tracked (vao_objects s))"

lemma arrays_okD:
  assumes "arrays_ok env D P s bm"
  shows "manager_ok {} bm" "mset (bm_refs bm) = P + array_pointers (vao_objects s)" "distinct (map fst (vao_objects s))"
    "\<And>a v. (a, v) \<in> set (vao_objects s) \<Longrightarrow> a < vao_next s \<and> array_ok (unat (max_vertex_attribs env)) v \<and> (vao_deleted v \<longrightarrow> a \<in> D)"
    "fst ` set (vao_objects s) = snd ` set (vertex_attrib_managers s) \<union> set_option (current_vao s) \<union> set_option (default_vao s) \<union> D"
    "distinct (map fst (vertex_attrib_managers s))" "distinct (map snd (vertex_attrib_managers s))"
    "set_option (default_vao s) \<inter> snd ` set (vertex_attrib_managers s) = {}"
    "vertex_attrib_manager_count s = of_nat (tracked (vao_objects s))"
  using assms by (simp_all add: arrays_ok_def)

lemma arrays_okI:
  assumes "manager_ok {} bm" "mset (bm_refs bm) = P + array_pointers (vao_objects s)" "distinct (map fst (vao_objects s))"
    "\<And>a v. (a, v) \<in> set (vao_objects s) \<Longrightarrow> a < vao_next s \<and> array_ok (unat (max_vertex_attribs env)) v \<and> (vao_deleted v \<longrightarrow> a \<in> D)"
    "fst ` set (vao_objects s) = snd ` set (vertex_attrib_managers s) \<union> set_option (current_vao s) \<union> set_option (default_vao s) \<union> D"
    "distinct (map fst (vertex_attrib_managers s))" "distinct (map snd (vertex_attrib_managers s))"
    "set_option (default_vao s) \<inter> snd ` set (vertex_attrib_managers s) = {}"
    "vertex_attrib_manager_count s = of_nat (tracked (vao_objects s))"
  shows "arrays_ok env D P s bm"
  using assms by (simp add: arrays_ok_def)

lemma array_pointers_delete:
  "distinct (map fst os) \<Longrightarrow> map_of os a = Some v \<Longrightarrow>
    array_pointers os = vam_pointers (vao_attribs v) + array_pointers (AList.delete a os) \<and>
    tracked os = (if vao_has_manager v then 1 else 0) + tracked (AList.delete a os)"
proof (induction os)
  case (Cons p os)
  show ?case
  proof (cases "fst p = a")
    case True
    then have "AList.delete a os = os"
      using Cons.prems by (cases p) (simp add: AList.delete_id)
    with True Cons.prems show ?thesis
      by (cases p) (simp add: tracked_def)
  next
    case False
    with Cons show ?thesis
      by (cases p) (auto simp: tracked_def add_ac)
  qed
qed simp

lemma array_pointers_update:
  "distinct (map fst os) \<Longrightarrow> map_of os a = Some v \<Longrightarrow>
    array_pointers (AList.update a w os) = vam_pointers (vao_attribs w) + array_pointers (AList.delete a os) \<and>
    (vao_has_manager w = vao_has_manager v \<longrightarrow> tracked (AList.update a w os) = tracked os)"
proof (induction os)
  case (Cons p os)
  show ?case
  proof (cases "fst p = a")
    case True
    then have "AList.delete a os = os"
      using Cons.prems by (cases p) (simp add: AList.delete_id)
    with True Cons.prems show ?thesis
      by (cases p) (simp add: tracked_def)
  next
    case False
    with Cons show ?thesis
      by (cases p) (auto simp: tracked_def add_ac)
  qed
qed simp

lemma release_attribs_ok:
  assumes "manager_ok {} bm" "mset (bm_refs bm) = M + attrib_pointers vs"
  shows "\<exists>bm' g'. release_attribs env vs bm g = Some (bm', g') \<and> manager_ok {} bm' \<and> mset (bm_refs bm') = M \<and> bm_buffers bm' = bm_buffers bm"
  using assms
proof (induction vs arbitrary: bm g)
  case (Cons v vs)
  have "mset (bm_refs bm) = (M + attrib_pointers vs) + pointer (va_buffer v)"
    using Cons.prems(2) by (simp add: add_ac)
  from assign_ref_ok [OF Cons.prems(1) this, of None env g]
  obtain bm1 g1 where "assign_ref env (va_buffer v) None bm g = Some (bm1, g1)" "manager_ok {} bm1"
      "mset (bm_refs bm1) = M + attrib_pointers vs" "bm_buffers bm1 = bm_buffers bm"
    by auto
  with Cons.IH [of bm1 g1] show ?case
    by auto
qed auto

lemma VertexArray_delete_ok:
  assumes ok: "arrays_ok env {a} P s bm" and a: "a \<notin> snd ` set (vertex_attrib_managers s)" "current_vao s \<noteq> Some a" "default_vao s \<noteq> Some a"
  shows "\<exists>s' bm' g'. VertexArray_delete env a s bm g = Some (s', bm', g') \<and> arrays_ok env {} P s' bm' \<and>
    vertex_attrib_managers s' = vertex_attrib_managers s \<and> current_vao s' = current_vao s \<and> default_vao s' = default_vao s"
proof -
  have "a \<in> fst ` set (vao_objects s)" and d: "distinct (map fst (vao_objects s))"
    using ok by (simp_all add: arrays_ok_def)
  then obtain v where v: "map_of (vao_objects s) a = Some v"
    by (metis map_of_eq_None_iff not_None_eq)
  note split = array_pointers_delete [OF d v]
  let ?R = "P + array_pointers (AList.delete a (vao_objects s))" and ?env = "gl_env (decoder_gl env)"
  have refs: "manager_ok {} bm" "mset (bm_refs bm) = (?R + attrib_pointers (vertex_attribs (vao_attribs v))) + pointer (vam_element_array_buffer (vao_attribs v))"
    using ok split by (simp_all add: arrays_ok_def vam_pointers_def add_ac)
  define g1 where "g1 = (if vao_has_manager v \<and> vao_have_context s \<and> vao_service_id v \<noteq> 0
              then glDeleteVertexArraysOES env (vao_service_id v) g else g)"
  obtain bm1 g2 where 1: "assign_ref ?env (vam_element_array_buffer (vao_attribs v)) None bm g1 = Some (bm1, g2)" "manager_ok {} bm1"
      "mset (bm_refs bm1) = ?R + attrib_pointers (vertex_attribs (vao_attribs v))"
    using assign_ref_ok [OF refs, of None ?env g1] by auto
  obtain bm2 g3 where 2: "release_attribs ?env (vertex_attribs (vao_attribs v)) bm1 g2 = Some (bm2, g3)" "manager_ok {} bm2" "mset (bm_refs bm2) = ?R"
    using release_attribs_ok [OF 1(2,3), of ?env g2] by auto
  define s' where "s' = (if vao_has_manager v then VAO_StopTracking s else s)\<lparr>vao_objects := AList.delete a (vao_objects s)\<rparr>"
  have "VertexArray_delete env a s bm g = Some (s', bm2, g3)"
    using v 1(1) 2(1) by (simp add: VertexArray_delete_def s'_def g1_def[symmetric] VAO_StopTracking_def)
  moreover have "vertex_attrib_manager_count s' = of_nat (tracked (vao_objects s'))"
    using ok split by (simp add: arrays_ok_def s'_def VAO_StopTracking_def)
  moreover have "fst ` set (vao_objects s') = fst ` set (vao_objects s) - {a}"
    by (simp add: s'_def keys_delete)
  moreover have "distinct (map fst (vao_objects s'))" "set (vao_objects s') \<subseteq> set (vao_objects s)" "vao_next s' = vao_next s"
    and same: "vertex_attrib_managers s' = vertex_attrib_managers s" "current_vao s' = current_vao s" "default_vao s' = default_vao s"
    using d keys_delete(2) [of a "vao_objects s"] by (simp_all add: s'_def distinct_delete VAO_StopTracking_def)
  moreover have "mset (bm_refs bm2) = P + array_pointers (vao_objects s')"
    using 2(3) by (simp add: s'_def)
  ultimately have del: "VertexArray_delete env a s bm g = Some (s', bm2, g3)" and "arrays_ok env {} P s' bm2"
  proof -
    assume *: "set (vao_objects s') \<subseteq> set (vao_objects s)" "vao_next s' = vao_next s" "fst ` set (vao_objects s') = fst ` set (vao_objects s) - {a}"
      "distinct (map fst (vao_objects s'))" "vertex_attrib_manager_count s' = of_nat (tracked (vao_objects s'))"
      "mset (bm_refs bm2) = P + array_pointers (vao_objects s')"
    show "arrays_ok env {} P s' bm2"
    proof (rule arrays_okI)
      fix b v assume b: "(b, v) \<in> set (vao_objects s')"
      then have "b \<noteq> a" "(b, v) \<in> set (vao_objects s)"
        using *(1,3) by force+
      then show "b < vao_next s' \<and> array_ok (unat (max_vertex_attribs env)) v \<and> (vao_deleted v \<longrightarrow> b \<in> {})"
        using arrays_okD(4) [OF ok, of b v] *(2) by simp
    next
      show "fst ` set (vao_objects s') = snd ` set (vertex_attrib_managers s') \<union> set_option (current_vao s') \<union> set_option (default_vao s') \<union> {}"
        using arrays_okD(5) [OF ok] a unfolding *(3) same by auto
    qed (use arrays_okD [OF ok] * 2(2) same in simp_all)
  qed
  then show ?thesis
    using same by blast
qed

lemma arrays_ok_referenced:
  assumes ok: "arrays_ok env {a} P s bm"
    and a: "a \<in> snd ` set (vertex_attrib_managers s) \<or> current_vao s = Some a \<or> default_vao s = Some a"
    and live: "\<And>v. (a, v) \<in> set (vao_objects s) \<Longrightarrow> \<not> vao_deleted v"
  shows "arrays_ok env {} P s bm"
proof (rule arrays_okI)
  show "b < vao_next s \<and> array_ok (unat (max_vertex_attribs env)) v \<and> (vao_deleted v \<longrightarrow> b \<in> {})" if "(b, v) \<in> set (vao_objects s)" for b v
    using arrays_okD(4) [OF ok that] live that by blast
  show "fst ` set (vao_objects s) = snd ` set (vertex_attrib_managers s) \<union> set_option (current_vao s) \<union> set_option (default_vao s) \<union> {}"
    using arrays_okD(5) [OF ok] a by auto
qed (use arrays_okD [OF ok] in simp_all)

lemma VertexArray_Release_ok:
  assumes ok: "arrays_ok env {a} P s bm"
    and live: "\<And>v. a \<in> snd ` set (vertex_attrib_managers s) \<or> current_vao s = Some a \<or> default_vao s = Some a \<Longrightarrow>
      (a, v) \<in> set (vao_objects s) \<Longrightarrow> \<not> vao_deleted v"
  shows "\<exists>s' bm' g'. VertexArray_Release env a s bm g = Some (s', bm', g') \<and> arrays_ok env {} P s' bm' \<and>
    vertex_attrib_managers s' = vertex_attrib_managers s \<and> current_vao s' = current_vao s \<and> default_vao s' = default_vao s"
proof (cases "a \<in> snd ` set (vertex_attrib_managers s) \<or> current_vao s = Some a \<or> default_vao s = Some a")
  case True
  then have "arrays_ok env {} P s bm"
    using arrays_ok_referenced [OF ok True] live by blast
  with True show ?thesis
    by (simp add: VertexArray_Release_def)
next
  case False
  then show ?thesis
    using VertexArray_delete_ok [OF ok, of g] by (simp add: VertexArray_Release_def)
qed

lemma set_current_vao_ok:
  assumes ok: "arrays_ok env {} P s bm" and p: "set_option p \<subseteq> fst ` set (vao_objects s)"
  shows "\<exists>s' bm' g'. set_current_vao env p s bm g = Some (s', bm', g') \<and> arrays_ok env {} P s' bm' \<and>
    vertex_attrib_managers s' = vertex_attrib_managers s \<and> current_vao s' = p \<and> default_vao s' = default_vao s"
proof -
  let ?s = "s\<lparr>current_vao := p\<rparr>"
  have dangling: "arrays_ok env (set_option (current_vao s)) P ?s bm"
    using arrays_okD [OF ok] p by (intro arrays_okI) (simp_all, blast+)
  show ?thesis
  proof (cases "current_vao s")
    case None
    with dangling show ?thesis
      by (simp add: set_current_vao_def)
  next
    case (Some a)
    have "\<not> vao_deleted v" if "(a, v) \<in> set (vao_objects ?s)" for v
      using arrays_okD(4) [OF ok] that by auto
    with VertexArray_Release_ok [of env a P ?s bm g] dangling Some show ?thesis
      by (simp add: set_current_vao_def)
  qed
qed

lemma set_default_vao_ok:
  assumes ok: "arrays_ok env {} P s bm"
  shows "\<exists>s' bm' g'. set_default_vao env None s bm g = Some (s', bm', g') \<and> arrays_ok env {} P s' bm' \<and>
    vertex_attrib_managers s' = vertex_attrib_managers s \<and> current_vao s' = current_vao s \<and> default_vao s' = None"
proof -
  let ?s = "s\<lparr>default_vao := None\<rparr>"
  have dangling: "arrays_ok env (set_option (default_vao s)) P ?s bm"
    using arrays_okD [OF ok] by (intro arrays_okI) simp_all
  show ?thesis
  proof (cases "default_vao s")
    case None
    with dangling show ?thesis
      by (simp add: set_default_vao_def)
  next
    case (Some a)
    have "\<not> vao_deleted v" if "(a, v) \<in> set (vao_objects ?s)" for v
      using arrays_okD(4) [OF ok] that by auto
    with VertexArray_Release_ok [of env a P ?s bm g] dangling Some show ?thesis
      by (simp add: set_default_vao_def)
  qed
qed

lemma CreateVertexAttribManager_ok:
  assumes ok: "arrays_ok env {} P s bm" and c: "GetVertexAttribManager client_id s = None"
  shows "\<exists>s' g'. CreateVertexAttribManager env client_id service_id s g = Some (s', g') \<and> arrays_ok env {} P s' bm \<and>
    current_vao s' = current_vao s \<and> default_vao s' = default_vao s \<and> fst ` set (vao_objects s) \<subseteq> fst ` set (vao_objects s') \<and>
    (\<exists>a. vertex_attrib_managers s' = (client_id, a) # vertex_attrib_managers s \<and> a \<notin> fst ` set (vao_objects s))"
proof -
  obtain m g1 where m: "VertexAttribManager_Initialize (decoder_gl env) (max_vertex_attribs env) False VertexAttribManager_new g = (m, g1)"
    by fastforce
  note m_ok = VertexAttribManager_Initialize_ok [OF m]
  let ?v = "\<lparr>vao_attribs = m, vao_has_manager = True, vao_deleted = False, vao_service_id = service_id\<rparr>"
  let ?s = "s\<lparr>vertex_attrib_manager_count := vertex_attrib_manager_count s + 1, vao_objects := (vao_next s, ?v) # vao_objects s,
    vao_next := vao_next s + 1, vertex_attrib_managers := (client_id, vao_next s) # vertex_attrib_managers s\<rparr>"
  have fresh: "vao_next s \<notin> fst ` set (vao_objects s)"
    using arrays_okD(4) [OF ok] by fastforce
  then have "vao_next s \<notin> snd ` set (vertex_attrib_managers s)" "default_vao s \<noteq> Some (vao_next s)"
    using arrays_okD(5) [OF ok] by auto
  note names = this
  have "arrays_ok env {} P ?s bm"
  proof (rule arrays_okI)
    show "b < vao_next ?s \<and> array_ok (unat (max_vertex_attribs env)) v \<and> (vao_deleted v \<longrightarrow> b \<in> {})" if "(b, v) \<in> set (vao_objects ?s)" for b v
      using arrays_okD(4) [OF ok, of b v] that m_ok by (auto simp: array_ok_def)
    show "fst ` set (vao_objects ?s) = snd ` set (vertex_attrib_managers ?s) \<union> set_option (current_vao ?s) \<union> set_option (default_vao ?s) \<union> {}"
      using arrays_okD(5) [OF ok] by simp
    show "distinct (map fst (vertex_attrib_managers ?s))"
      using arrays_okD(6) [OF ok] c by (simp add: GetVertexAttribManager_def map_of_eq_None_iff)
    show "set_option (default_vao ?s) \<inter> snd ` set (vertex_attrib_managers ?s) = {}"
      using arrays_okD(8) [OF ok] names by (cases "default_vao s") auto
  qed (use arrays_okD [OF ok] m_ok fresh names in \<open>simp_all add: tracked_def\<close>)
  moreover have "CreateVertexAttribManager env client_id service_id s g = Some (?s, g1)"
    using m c by (simp add: CreateVertexAttribManager_def VertexArray_new_def VAO_StartTracking_def GetVertexAttribManager_def Let_def)
  ultimately show ?thesis
    using fresh by auto
qed

lemma create_arrays_ok:
  assumes "arrays_ok env {} P s bm" "distinct client_ids" "\<forall>c \<in> set client_ids. GetVertexAttribManager c s = None"
    "length service_ids = length client_ids"
  shows "\<exists>s' g' xs. create_arrays env client_ids service_ids s g = Some (s', g') \<and> arrays_ok env {} P s' bm \<and>
    current_vao s' = current_vao s \<and> default_vao s' = default_vao s \<and>
    vertex_attrib_managers s' = xs @ vertex_attrib_managers s \<and> map fst xs = rev client_ids \<and> snd ` set xs \<inter> fst ` set (vao_objects s) = {}"
  using assms
proof (induction client_ids arbitrary: service_ids s g)
  case (Cons c cs)
  then obtain i js where i: "service_ids = i # js"
    by (cases service_ids) auto
  obtain s1 g1 a where 1: "CreateVertexAttribManager env c i s g = Some (s1, g1)" "arrays_ok env {} P s1 bm" "current_vao s1 = current_vao s"
      "default_vao s1 = default_vao s" "fst ` set (vao_objects s) \<subseteq> fst ` set (vao_objects s1)"
      "vertex_attrib_managers s1 = (c, a) # vertex_attrib_managers s" "a \<notin> fst ` set (vao_objects s)"
    using CreateVertexAttribManager_ok [OF Cons.prems(1), of c i g] Cons.prems(3) by auto
  have "\<forall>c \<in> set cs. GetVertexAttribManager c s1 = None"
    using Cons.prems(2,3) 1(6) by (auto simp: GetVertexAttribManager_def)
  with Cons.IH [OF 1(2), of js g1] Cons.prems(2,4) i
  obtain s' g' xs where 2: "create_arrays env cs js s1 g1 = Some (s', g')" "arrays_ok env {} P s' bm" "current_vao s' = current_vao s1"
      "default_vao s' = default_vao s1" "vertex_attrib_managers s' = xs @ vertex_attrib_managers s1" "map fst xs = rev cs"
      "snd ` set xs \<inter> fst ` set (vao_objects s1) = {}"
    by auto
  moreover have "snd ` set (xs @ [(c, a)]) \<inter> fst ` set (vao_objects s) = {}"
    using 2(7) 1(5,7) by (simp add: Int_insert_left) blast
  ultimately show ?case
    using i 1 by (intro exI [of _ s'] exI [of _ g'] exI [of _ "xs @ [(c, a)]"]) simp
qed auto

text \<open>The queries return, and find what is there.\<close>

lemma find_client_id_exact:
  assumes "snd ` set xs \<subseteq> fst ` set objects" "distinct (map fst objects)"
  shows "\<exists>r. find_client_id i xs objects = Some r \<and>
    (case r of Some c \<Rightarrow> \<exists>a v. (c, a) \<in> set xs \<and> map_of objects a = Some v \<and> vao_service_id v = i
     | None \<Rightarrow> \<forall>(c, a) \<in> set xs. \<forall>v. map_of objects a = Some v \<longrightarrow> vao_service_id v \<noteq> i)"
  using assms(1)
proof (induction xs)
  case (Cons x xs)
  obtain c a where x: "x = (c, a)"
    by (cases x)
  then obtain v where v: "map_of objects a = Some v"
    using Cons.prems by (auto dest!: weak_map_of_SomeI)
  obtain r where r: "find_client_id i xs objects = Some r"
      "case r of Some c \<Rightarrow> \<exists>a v. (c, a) \<in> set xs \<and> map_of objects a = Some v \<and> vao_service_id v = i
        | None \<Rightarrow> \<forall>(c, a) \<in> set xs. \<forall>v. map_of objects a = Some v \<longrightarrow> vao_service_id v \<noteq> i"
    using Cons by auto
  show ?case
    using x v r by (cases "vao_service_id v = i"; cases r) auto
qed simp

lemma VertexArray_GetClientId_returns:
  assumes "arrays_ok env {} P s bm"
  shows "\<exists>r. VertexArray_GetClientId i s = Some r \<and> (\<forall>c. r = Some c \<longrightarrow> GetVertexAttribManager c s \<noteq> None)"
proof -
  have "snd ` set (vertex_attrib_managers s) \<subseteq> fst ` set (vao_objects s)"
    unfolding arrays_okD(5) [OF assms] by blast
  from find_client_id_exact [OF this arrays_okD(3) [OF assms], of i] show ?thesis
    by (force simp: VertexArray_GetClientId_def GetVertexAttribManager_def map_of_eq_None_iff)
qed

lemma set_update_cases:
  assumes "distinct (map fst os)" "map_of os a = Some v" "(b, w) \<in> set (AList.update a u os)"
  shows "b = a \<and> w = u \<or> b \<noteq> a \<and> (b, w) \<in> set os"
proof -
  have "distinct (map fst (AList.update a u os))"
    using assms(1,2) by (simp add: keys_update)
  with assms(3) have "map_of (AList.update a u os) b = Some w"
    by simp
  with assms(1) show ?thesis
    by (auto simp: update_conv' split: if_splits dest: map_of_SomeD)
qed

lemma names_delete:
  assumes "distinct (map fst xs)" "distinct (map snd xs)" "map_of xs c = Some a"
  shows "snd ` set xs = insert a (snd ` set (AList.delete c xs))" "a \<notin> snd ` set (AList.delete c xs)"
    "distinct (map fst (AList.delete c xs))" "distinct (map snd (AList.delete c xs))"
proof -
  show "snd ` set xs = insert a (snd ` set (AList.delete c xs))"
    using assms(1,3) by (rule values_delete)
  have "(c, a) \<in> set xs"
    using assms(3) by (rule map_of_SomeD)
  then show "a \<notin> snd ` set (AList.delete c xs)"
    using assms(2) by (fastforce simp: AList.delete_eq distinct_map inj_on_def)
  show "distinct (map fst (AList.delete c xs))" "distinct (map snd (AList.delete c xs))"
    using assms(1,2) by (simp_all add: AList.delete_eq distinct_map_filter)
qed

lemma array_live:
  assumes "arrays_ok env D P s bm" "a \<in> fst ` set (vao_objects s)"
  obtains v where "map_of (vao_objects s) a = Some v" "(a, v) \<in> set (vao_objects s)"
  using assms(2) map_of_SomeD by (metis map_of_eq_None_iff not_None_eq)

lemma DoIsVertexArrayOES_exact:
  assumes ok: "arrays_ok env {} P s bm"
  shows "DoIsVertexArrayOES c s = Some (c \<in> fst ` set (vertex_attrib_managers s))"
proof (cases "map_of (vertex_attrib_managers s) c")
  case None
  moreover from this have "c \<notin> fst ` set (vertex_attrib_managers s)"
    by (simp add: map_of_eq_None_iff)
  ultimately show ?thesis
    by (simp add: DoIsVertexArrayOES_def GetVertexAttribManager_def)
next
  case (Some a)
  note named = map_of_SomeD [OF Some]
  then have c: "c \<in> fst ` set (vertex_attrib_managers s)" "a \<in> snd ` set (vertex_attrib_managers s)"
    by (metis fst_conv imageI, metis snd_conv imageI)
  then have "a \<in> fst ` set (vao_objects s)"
    unfolding arrays_okD(5) [OF ok] by blast
  then obtain v where v: "map_of (vao_objects s) a = Some v" "(a, v) \<in> set (vao_objects s)"
    using array_live [OF ok] by blast
  then have "\<not> vao_deleted v"
    using arrays_okD(4) [OF ok v(2)] by simp
  with Some v(1) c(1) show ?thesis
    by (simp add: DoIsVertexArrayOES_def GetVertexAttribManager_def)
qed

lemma set_vao_ok:
  assumes ok: "arrays_ok env D P s bm" and v: "map_of (vao_objects s) a = Some v"
    and w: "array_ok (unat (max_vertex_attribs env)) w" "vao_has_manager w = vao_has_manager v" "vao_deleted w \<Longrightarrow> a \<in> D"
    and bm': "manager_ok {} bm'" "mset (bm_refs bm') = P' + (vam_pointers (vao_attribs w) + array_pointers (AList.delete a (vao_objects s)))"
  shows "arrays_ok env D P' (set_vao a w s) bm'"
proof (rule arrays_okI)
  note d = arrays_okD(3) [OF ok]
  note upd = array_pointers_update [OF d v, of w] keys_update [OF v, of w]
  show "mset (bm_refs bm') = P' + array_pointers (vao_objects (set_vao a w s))"
    using bm'(2) upd by (simp add: set_vao_def)
  show "b < vao_next (set_vao a w s) \<and> array_ok (unat (max_vertex_attribs env)) u \<and> (vao_deleted u \<longrightarrow> b \<in> D)"
    if "(b, u) \<in> set (vao_objects (set_vao a w s))" for b u
    using set_update_cases [OF d v, of b u w] that w arrays_okD(4) [OF ok, of b u] arrays_okD(4) [OF ok, of a v] map_of_SomeD [OF v]
    by (auto simp: set_vao_def)
  have "fst ` set (AList.update a w (vao_objects s)) = fst ` set (vao_objects s)"
    using upd(2) by (metis list.set_map)
  then show "fst ` set (vao_objects (set_vao a w s)) = snd ` set (vertex_attrib_managers (set_vao a w s)) \<union>
      set_option (current_vao (set_vao a w s)) \<union> set_option (default_vao (set_vao a w s)) \<union> D"
    using arrays_okD(5) [OF ok] by (simp add: set_vao_def)
qed (use arrays_okD [OF ok] keys_update [OF v, of w] array_pointers_update [OF arrays_okD(3) [OF ok] v, of w] w(2) bm'(1) in
  \<open>simp_all add: set_vao_def\<close>)

lemma set_vao_names: "(set_vao a v s)\<lparr>vertex_attrib_managers := x\<rparr> = set_vao a v (s\<lparr>vertex_attrib_managers := x\<rparr>)"
    "vertex_attrib_managers (set_vao a v s) = vertex_attrib_managers s"
  by (cases s; simp add: set_vao_def)+

lemma RemoveVertexAttribManager_ok:
  assumes ok: "arrays_ok env {} P s bm" and c: "GetVertexAttribManager client_id s = Some a" and cur: "current_vao s \<noteq> Some a"
  shows "\<exists>s' bm' g'. RemoveVertexAttribManager env client_id s bm g = Some (s', bm', g') \<and> arrays_ok env {} P s' bm' \<and>
    vertex_attrib_managers s' = AList.delete client_id (vertex_attrib_managers s) \<and> current_vao s' = current_vao s \<and> default_vao s' = default_vao s"
proof -
  have c': "map_of (vertex_attrib_managers s) client_id = Some a"
    using c by (simp add: GetVertexAttribManager_def)
  then have "a \<in> snd ` set (vertex_attrib_managers s)"
    by (force dest: map_of_SomeD)
  then have "a \<in> fst ` set (vao_objects s)" and dflt: "default_vao s \<noteq> Some a"
    using arrays_okD(5,8) [OF ok] by auto
  then obtain v where v: "map_of (vao_objects s) a = Some v" "(a, v) \<in> set (vao_objects s)"
    using array_live [OF ok] by blast
  note names = names_delete [OF arrays_okD(6,7) [OF ok] c']
  let ?s = "s\<lparr>vertex_attrib_managers := AList.delete client_id (vertex_attrib_managers s)\<rparr>"
  have "arrays_ok env {a} P ?s bm"
    using arrays_okD [OF ok] names by (intro arrays_okI) simp_all
  then have "arrays_ok env {a} P (set_vao a (v\<lparr>vao_deleted := True\<rparr>) ?s) bm"
    using v(1) arrays_okD(1,2) [OF ok] arrays_okD(4) [OF ok v(2)] array_pointers_delete [OF arrays_okD(3) [OF ok] v(1)]
    by (intro set_vao_ok [where v = v and P = P]) (simp_all add: array_ok_def)
  from VertexArray_Release_ok [OF this, of g] show ?thesis
    using c' v(1) names(2) cur dflt by (simp add: RemoveVertexAttribManager_def set_vao_names) (simp add: set_vao_def)
qed

lemma DeleteVertexArraysOESHelper_step:
  assumes ok: "arrays_ok env {} P s bm" and dflt: "default_vao s \<noteq> None" and c: "GetVertexAttribManager c s = Some a"
  shows "\<exists>s' bm' g'. DeleteVertexArraysOESHelper env (c # cs) s bm g = DeleteVertexArraysOESHelper env cs s' bm' g' \<and> arrays_ok env {} P s' bm' \<and>
    vertex_attrib_managers s' = AList.delete c (vertex_attrib_managers s) \<and> default_vao s' = default_vao s \<and>
    current_vao s' = (if current_vao s = Some a then default_vao s else current_vao s)"
proof -
  have "a \<in> snd ` set (vertex_attrib_managers s)"
    using c by (force simp: GetVertexAttribManager_def dest: map_of_SomeD)
  then have a: "a \<in> fst ` set (vao_objects s)" "default_vao s \<noteq> Some a"
    using arrays_okD(5,8) [OF ok] by auto
  obtain v where v: "map_of (vao_objects s) a = Some v" "\<not> vao_deleted v"
    using array_live [OF ok a(1)] arrays_okD(4) [OF ok] by (metis empty_iff)
  have "set_option (default_vao s) \<subseteq> fst ` set (vao_objects s)"
    using arrays_okD(5) [OF ok] by auto
  then obtain s1 bm1 g1 where 1: "(if current_vao s = Some a then set_current_vao env (default_vao s) s bm g else Some (s, bm, g)) = Some (s1, bm1, g1)"
      "arrays_ok env {} P s1 bm1" "vertex_attrib_managers s1 = vertex_attrib_managers s" "default_vao s1 = default_vao s"
      "current_vao s1 = (if current_vao s = Some a then default_vao s else current_vao s)"
    using set_current_vao_ok [OF ok, of "default_vao s" g] ok by (cases "current_vao s = Some a") auto
  have "GetVertexAttribManager c s1 = Some a" "current_vao s1 \<noteq> Some a"
    using c 1(3,5) a(2) by (simp_all add: GetVertexAttribManager_def)
  from RemoveVertexAttribManager_ok [OF 1(2) this, of g1]
  obtain s2 bm2 g2 where "RemoveVertexAttribManager env c s1 bm1 g1 = Some (s2, bm2, g2)" "arrays_ok env {} P s2 bm2"
      "vertex_attrib_managers s2 = AList.delete c (vertex_attrib_managers s1)" "current_vao s2 = current_vao s1" "default_vao s2 = default_vao s1"
    by auto
  then show ?thesis
    using c v 1 by (intro exI [of _ s2] exI [of _ bm2] exI [of _ g2]) auto
qed

text \<open>Binding: the state that is restored for a driver without vertex arrays points to live buffers only.\<close>

lemma array_buffers_live:
  assumes ok: "arrays_ok env {} (pointer (d_bound_array_buffer d)) s bm" and v: "map_of (vao_objects s) a = Some v"
  shows "set_option (d_bound_array_buffer d) \<subseteq> fst ` set (bm_objects bm)"
    and "set_mset (vam_pointers (vao_attribs v)) \<subseteq> fst ` set (bm_objects bm)"
proof -
  have "mset (bm_refs bm) = pointer (d_bound_array_buffer d) + (vam_pointers (vao_attribs v) + array_pointers (AList.delete a (vao_objects s)))"
    using arrays_okD(2) [OF ok] array_pointers_delete [OF arrays_okD(3) [OF ok] v] by simp
  note live = refs_live [OF arrays_okD(1) [OF ok] this]
  show "set_option (d_bound_array_buffer d) \<subseteq> fst ` set (bm_objects bm)"
    using live by (cases "d_bound_array_buffer d") auto
  show "set_mset (vam_pointers (vao_attribs v)) \<subseteq> fst ` set (bm_objects bm)"
    using live by auto
qed

lemma restore_attribs_returns:
  assumes "manager_ok {} bm" "set_option (d_bound_array_buffer d) \<subseteq> fst ` set (bm_objects bm)"
    "set_mset (vam_pointers m) \<subseteq> fst ` set (bm_objects bm)" "\<forall>i \<in> set vvs. i < length (vertex_attribs m) \<and> i < 2 ^ 32"
  shows "\<exists>g'. restore_attribs env vvs m d bm g = Some g'"
  using assms(4)
proof (induction vvs arbitrary: g)
  case (Cons i vvs)
  then have i: "i < length (vertex_attribs m)" "unat (of_nat i :: u32) = i"
    by (simp_all add: unsigned_of_nat take_bit_nat_eq_self)
  have "set_option (va_buffer (vertex_attribs m ! i)) \<subseteq> fst ` set (bm_objects bm)"
    using attrib_pointer_live [OF assms(3) i(1)] by (cases "va_buffer (vertex_attribs m ! i)") auto
  then obtain b where "service_id_of bm (va_buffer (vertex_attribs m ! i)) = Some b"
    using service_id_of_returns [OF assms(1)] by blast
  moreover obtain c where "service_id_of bm (d_bound_array_buffer d) = Some c"
    using service_id_of_returns [OF assms(1,2)] by blast
  ultimately have "\<exists>g'. RestoreStateForAttrib env (of_nat i) m d bm g = Some g'"
    using i by (simp add: RestoreStateForAttrib_def GetVertexAttrib_def Let_def)
  then show ?case
    using Cons by auto
qed simp

lemma EmulateVertexArrayState_returns:
  assumes ok: "arrays_ok env {} (pointer (d_bound_array_buffer d)) s bm" and a: "current_vao s = Some a"
  shows "\<exists>g'. EmulateVertexArrayState env d s bm g = Some g'"
proof -
  have "a \<in> fst ` set (vao_objects s)"
    using arrays_okD(5) [OF ok] a by simp
  then obtain v where v: "map_of (vao_objects s) a = Some v" "(a, v) \<in> set (vao_objects s)"
    using array_live [OF ok] by blast
  note live = array_buffers_live [OF ok v(1)]
  have n: "i < 2 ^ 32" if "i < unat (max_vertex_attribs env)" for i
    using less_trans [OF that unsigned_less [of "max_vertex_attribs env"]] by simp
  have "\<forall>i \<in> set [0..<unat (max_vertex_attribs env)]. i < length (vertex_attribs (vao_attribs v)) \<and> i < 2 ^ 32"
    using arrays_okD(4) [OF ok v(2)] n by (simp add: array_ok_def)
  from restore_attribs_returns [OF arrays_okD(1) [OF ok] live this, of env g]
  obtain g1 where "restore_attribs env [0..<unat (max_vertex_attribs env)] (vao_attribs v) d bm g = Some g1"
    by (elim exE)
  moreover have "set_option (vam_element_array_buffer (vao_attribs v)) \<subseteq> fst ` set (bm_objects bm)"
    using live(2) by (cases "vam_element_array_buffer (vao_attribs v)") (auto simp: vam_pointers_def)
  then obtain e where "service_id_of bm (vam_element_array_buffer (vao_attribs v)) = Some e"
    using service_id_of_returns [OF arrays_okD(1) [OF ok]] by blast
  ultimately show ?thesis
    using a v(1) by (simp add: EmulateVertexArrayState_def)
qed

lemma bind_vao_ok:
  assumes ok: "arrays_ok env {} (pointer (d_bound_array_buffer d)) s bm" and p: "a \<in> fst ` set (vao_objects s)"
  shows "\<exists>s' bm' g'. bind_vao env (Some a) i d s bm g = Some (s', bm', g') \<and> arrays_ok env {} (pointer (d_bound_array_buffer d)) s' bm' \<and>
    vertex_attrib_managers s' = vertex_attrib_managers s \<and> current_vao s' = Some a \<and> default_vao s' = default_vao s"
proof (cases "current_vao s = Some a")
  case True
  then show ?thesis
    using ok by (simp add: bind_vao_def)
next
  case False
  obtain s' bm' g' where 1: "set_current_vao env (Some a) s bm g = Some (s', bm', g')" "arrays_ok env {} (pointer (d_bound_array_buffer d)) s' bm'"
      "vertex_attrib_managers s' = vertex_attrib_managers s" "current_vao s' = Some a" "default_vao s' = default_vao s"
    using set_current_vao_ok [OF ok, of "Some a" g] p by auto
  then show ?thesis
    using False EmulateVertexArrayState_returns [OF 1(2,4), of g'] by (auto simp: bind_vao_def)
qed

lemma DoBindVertexArrayOES_ok:
  assumes ok: "arrays_ok env {} (pointer (d_bound_array_buffer d)) s bm" "default_vao s \<noteq> None" "current_vao s \<noteq> None \<or> client_id = 0"
  shows "\<exists>d' s' bm' g'. DoBindVertexArrayOES env client_id d s bm g = Some (d', s', bm', g') \<and>
    arrays_ok env {} (pointer (d_bound_array_buffer d')) s' bm' \<and> current_vao s' \<noteq> None \<and> default_vao s' = default_vao s \<and>
    vertex_attrib_managers s' = vertex_attrib_managers s \<and>
    current_vao s' = (if client_id = 0 then default_vao s else if GetVertexAttribManager client_id s = None then current_vao s
      else GetVertexAttribManager client_id s)"
proof -
  consider (dflt) "client_id = 0" | (bad) "client_id \<noteq> 0" "GetVertexAttribManager client_id s = None"
    | (good) a where "client_id \<noteq> 0" "GetVertexAttribManager client_id s = Some a"
    by fastforce
  then show ?thesis
  proof cases
    case dflt
    obtain z where z: "default_vao s = Some z" "z \<in> fst ` set (vao_objects s)"
      using ok(2) arrays_okD(5) [OF ok(1)] by auto
    show ?thesis
      using bind_vao_ok [OF ok(1) z(2), of 0 g] dflt z(1) by (auto simp: DoBindVertexArrayOES_def)
  next
    case bad
    obtain es where "decoder_error GL_INVALID_OPERATION ''bad vertex array id.'' d = Some (d\<lparr>d_error_state := es\<rparr>)"
      using decoder_error_returns [of GL_INVALID_OPERATION "''bad vertex array id.''" d] client_error_kinds by auto
    then show ?thesis
      using bad ok by (simp add: DoBindVertexArrayOES_def)
  next
    case (good a)
    then have a: "a \<in> fst ` set (vao_objects s)"
      using arrays_okD(5) [OF ok(1)] by (force simp: GetVertexAttribManager_def dest: map_of_SomeD)
    then obtain v where v: "map_of (vao_objects s) a = Some v"
      using array_live [OF ok(1)] by blast
    show ?thesis
      using bind_vao_ok [OF ok(1) a, of "vao_service_id v" g] good v by (auto simp: DoBindVertexArrayOES_def)
  qed
qed

text \<open>A call on the current vertex array: the number of attributes stays as it is.\<close>

definition attrib_number :: "Decoder \<Rightarrow> nat" where
  "attrib_number d = length (vertex_attribs (d_vertex_attrib_manager d))"

lemma attrib_number_error:
  "decoder_error e msg d = Some d' \<Longrightarrow> attrib_number d' = attrib_number d"
  "decoder_enum_error env v label d = Some d' \<Longrightarrow> attrib_number d' = attrib_number d"
  by (auto simp: decoder_error_def decoder_enum_error_def attrib_number_def split: Option.bind_splits)

lemma attrib_number_bind_target:
  "bind_target env target p i d bm g = Some (d', bm', g') \<Longrightarrow> attrib_number d' = attrib_number d"
  by (auto simp: bind_target_def SetElementArrayBuffer_def attrib_number_def split: if_splits Option.bind_splits)

lemma attrib_number_DoBindBuffer:
  "DoBindBuffer env target c d bm g = Some (d', bm', g') \<Longrightarrow> attrib_number d' = attrib_number d"
  by (auto simp: DoBindBuffer_def bind_generated_def dest!: attrib_number_bind_target attrib_number_error
      split: if_splits Option.bind_splits prod.splits) (simp_all add: attrib_number_def)

lemma length_Unbind_loop: "Unbind_loop env b vs bm g = Some (vs', bm', g') \<Longrightarrow> length vs' = length vs"
  by (induction vs arbitrary: vs' bm g bm' g') (auto split: Option.bind_splits)

lemma attrib_number_DeleteBuffersHelper:
  "DeleteBuffersHelper env ids d bm g = Some (d', bm', g') \<Longrightarrow> attrib_number d' = attrib_number d"
proof (induction ids arbitrary: d bm g)
  case (Cons c ids)
  have "attrib_number (d\<lparr>d_vertex_attrib_manager := m\<rparr>) = attrib_number d" 
    if "VAM_Unbind (gl_env env) a (d_vertex_attrib_manager d) bm g = Some (m, bm1, g1)" for a m bm1 g1
    using that by (auto simp: attrib_number_def VAM_Unbind_def SetElementArrayBuffer_def dest!: length_Unbind_loop split: if_splits Option.bind_splits)
  moreover have "attrib_number (d\<lparr>d_bound_array_buffer := p\<rparr>) = attrib_number d" for d p
    by (simp add: attrib_number_def)
  ultimately show ?case
    using Cons.prems by (auto simp: Let_def dest!: Cons.IH split: option.splits if_splits Option.bind_splits)
qed simp

lemma attrib_number_data:
  "DoBufferData_call env target sz data usage d bm g = Some (d', bm', g') \<Longrightarrow> attrib_number d' = attrib_number d"
  "DoBufferSubData_call env target offset sz sub d bm g = Some (d', bm', g') \<Longrightarrow> attrib_number d' = attrib_number d"
  by (auto simp: DoBufferData_call_def DoBufferSubData_call_def attrib_number_def split: Option.bind_splits)

lemma attrib_number_enable:
  "DoEnableVertexAttribArray env index d g = Some (d', g') \<Longrightarrow> attrib_number d' = attrib_number d"
  "DoDisableVertexAttribArray env index d g = Some (d', g') \<Longrightarrow> attrib_number d' = attrib_number d"
  by (auto simp: DoEnableVertexAttribArray_def DoDisableVertexAttribArray_def VAM_Enable_def SetList_def Let_def dest!: attrib_number_error
      split: if_splits) (simp_all add: attrib_number_def)

lemma attrib_number_pointer:
  "HandleVertexAttribPointer env dflt index sz type normalized stride offset d bm g = Some (d', bm', g') \<Longrightarrow> attrib_number d' = attrib_number d"
  by (auto simp: HandleVertexAttribPointer_def SetAttribInfo_def Let_def dest!: attrib_number_error
      split: if_splits Option.bind_splits option.splits) (simp_all add: attrib_number_def)

lemma length_ValidateBindings_loop:
  "ValidateBindings_loop env bm program k primcount is dv c m es g = Some (ok, dv', c', m', es', g') \<Longrightarrow>
    length (vertex_attribs m') = length (vertex_attribs m)"
proof (induction "is" arbitrary: dv c m es g)
  case (Cons i "is")
  then show ?case
    by (auto simp: Let_def dest!: Cons.IH split: if_splits Option.bind_splits option.splits)
qed simp

lemma attrib_number_IsDrawValid:
  "IsDrawValid env program k primcount d bm g = Some (ok, d', g') \<Longrightarrow> attrib_number d' = attrib_number d"
  by (auto simp: IsDrawValid_def ValidateBindings_def Let_def attrib_number_def dest!: length_ValidateBindings_loop
      split: option.splits if_splits Option.bind_splits)

lemma attrib_number_draw:
  "DrawArrays_check env program fb instanced mode first_vertex cnt primcount d bm g = Some (ok, d', g') \<Longrightarrow> attrib_number d' = attrib_number d"
  "DrawElements_check env program fb instanced mode cnt type offset primcount d bm g = Some (ok, d', bm', g') \<Longrightarrow> attrib_number d' = attrib_number d"
  by (auto simp: DrawArrays_check_def DrawElements_check_def Let_def dest!: attrib_number_error attrib_number_IsDrawValid
      split: option.splits if_splits Option.bind_splits)

lemma decoder_call_attrib_number:
  assumes "decoder_call env call d bm g = Some (d', bm', g')"
  shows "attrib_number d' = attrib_number d"
proof (cases call)
  case (AttribDivisor index divisor)
  then show ?thesis
    using assms by (auto simp: decoder_call_def VAM_SetDivisor_def attrib_number_def split: option.splits)
next
  case (BindBuffer target c)
  then show ?thesis
    using assms attrib_number_DoBindBuffer by (auto simp: decoder_call_def)
next
  case (DeleteBuffers ids)
  then show ?thesis
    using assms attrib_number_DeleteBuffersHelper by (auto simp: decoder_call_def)
next
  case (AttribPointer is_default index sz type normalized stride offset)
  then show ?thesis
    using assms attrib_number_pointer by (auto simp: decoder_call_def)
qed (use assms in \<open>auto simp: decoder_call_def attrib_number_data dest: attrib_number_enable attrib_number_draw split: if_splits\<close>)

lemma current_call_allowed [simp]:
  "decoder_call_allowed bm (current_call s call) = decoder_call_allowed bm call" "repeats_name bm (current_call s call) = repeats_name bm call"
  by (cases call; simp add: current_call_def decoder_call_allowed_def repeats_name_def)+

lemma arrays_ok_context:
  assumes ok: "arrays_ok env {} (pointer (d_bound_array_buffer d)) s bm" and v: "map_of (vao_objects s) a = Some v"
  shows "decoder_ok (array_pointers (AList.delete a (vao_objects s))) (d\<lparr>d_vertex_attrib_manager := vao_attribs v\<rparr>) bm"
  using arrays_okD(1,2) [OF ok] arrays_okD(4) [OF ok map_of_SomeD [OF v]] array_pointers_delete [OF arrays_okD(3) [OF ok] v]
  by (simp add: decoder_ok_def decoder_pointers_def array_ok_def add_ac)

lemma on_current_ok:
  assumes env: "decoder_env (decoder_gl env) pending" and ok: "arrays_ok env {} (pointer (d_bound_array_buffer d)) s bm"
    and a: "current_vao s = Some a" and allowed: "decoder_call_allowed bm call" "\<not> repeats_name bm call"
  shows "\<exists>d' s' bm' g'. on_current env call d s bm g = Some (d', s', bm', g') \<and>
    arrays_ok env {} (pointer (d_bound_array_buffer d')) s' bm' \<and> current_vao s' = Some a \<and> default_vao s' = default_vao s \<and>
    vertex_attrib_managers s' = vertex_attrib_managers s"
proof -
  have "a \<in> fst ` set (vao_objects s)"
    using arrays_okD(5) [OF ok] a by simp
  then obtain v where v: "map_of (vao_objects s) a = Some v" "(a, v) \<in> set (vao_objects s)"
    using array_live [OF ok] by blast
  let ?F = "array_pointers (AList.delete a (vao_objects s))"
  obtain d' bm' g' where 1: "decoder_call (decoder_gl env) (current_call s call) (d\<lparr>d_vertex_attrib_manager := vao_attribs v\<rparr>) bm g = Some (d', bm', g')"
      "decoder_ok ?F d' bm'"
    using decoder_call_ok [OF env arrays_ok_context [OF ok v(1)], of "current_call s call" g] allowed by auto
  let ?w = "v\<lparr>vao_attribs := d_vertex_attrib_manager d'\<rparr>"
  have "array_ok (unat (max_vertex_attribs env)) ?w"
    using decoder_refs(2) [OF 1(2)] decoder_call_attrib_number [OF 1(1)] arrays_okD(4) [OF ok v(2)] by (simp add: array_ok_def attrib_number_def)
  then have "arrays_ok env {} (pointer (d_bound_array_buffer d')) (set_vao a ?w s) bm'"
    using v arrays_okD(4) [OF ok v(2)] 1(2)
    by (intro set_vao_ok [OF ok v(1)]) (simp_all add: decoder_ok_def decoder_pointers_def add_ac)
  moreover have "current_vao (set_vao a ?w s) = Some a" "default_vao (set_vao a ?w s) = default_vao s"
    "vertex_attrib_managers (set_vao a ?w s) = vertex_attrib_managers s"
    using a by (simp_all add: set_vao_def)
  ultimately show ?thesis
    using a v(1) 1(1) by (simp add: on_current_def)
qed

lemma create_arrays_taken:
  "\<exists>c \<in> set ids. GetVertexAttribManager c s \<noteq> None \<Longrightarrow> length service_ids = length ids \<Longrightarrow> create_arrays env ids service_ids s g = None"
proof (induction ids arbitrary: service_ids s g)
  case (Cons c ids)
  obtain i js where i: "service_ids = i # js"
    using Cons.prems(2) by (cases service_ids) auto
  show ?case
  proof (cases "CreateVertexAttribManager env c i s g")
    case (Some r)
    then obtain s1 g1 where "r = (s1, g1)" "GetVertexAttribManager c s = None" "\<forall>x. GetVertexAttribManager x s \<noteq> None \<longrightarrow> GetVertexAttribManager x s1 \<noteq> None"
      by (auto simp: CreateVertexAttribManager_def VertexArray_new_def VAO_StartTracking_def GetVertexAttribManager_def Let_def
          split: if_splits prod.splits)
    then have "\<exists>c \<in> set ids. GetVertexAttribManager c s1 \<noteq> None" "r = (s1, g1)"
      using Cons.prems(1) by (metis set_ConsD, simp)
    then show ?thesis
      using Cons.IH [of s1 js g1] Cons.prems(2) i Some by simp
  qed (simp add: i)
qed simp

lemma create_arrays_repeated:
  "\<not> distinct ids \<Longrightarrow> length service_ids = length ids \<Longrightarrow> create_arrays env ids service_ids s g = None"
proof (induction ids arbitrary: service_ids s g)
  case (Cons c ids)
  obtain i js where i: "service_ids = i # js"
    using Cons.prems(2) by (cases service_ids) auto
  show ?case
  proof (cases "CreateVertexAttribManager env c i s g")
    case (Some r)
    then obtain s1 g1 where "r = (s1, g1)" "GetVertexAttribManager c s1 \<noteq> None"
      by (auto simp: CreateVertexAttribManager_def VertexArray_new_def VAO_StartTracking_def GetVertexAttribManager_def Let_def
          split: if_splits prod.splits)
    then show ?thesis
      using create_arrays_taken [of ids s1 js env g1] Cons.IH [of js s1 g1] Cons.prems i Some by auto
  qed (simp add: i)
qed simp

text \<open>The service ids that \<open>GenVertexArraysOESHelper\<close> hands out, on a driver with or without vertex arrays.\<close>

lemma generated_ids:
  assumes "\<forall>n g. length (fst (glGenVertexArraysOES env n g)) = n"
  obtains js g1 where "(if \<not> native_vertex_array_object env then (replicate n 0, g) else glGenVertexArraysOES env n g) = (js, g1)" "length js = n"
proof -
  obtain js g1 where 1: "(if \<not> native_vertex_array_object env then (replicate n 0, g) else glGenVertexArraysOES env n g) = (js, g1)"
    by fastforce
  then have "length js = n"
    using assms by (auto split: if_splits) (metis fst_conv)
  with 1 that show thesis
    by blast
qed

lemma GenVertexArraysOESHelper_repeated:
  assumes gen: "\<forall>n g. length (fst (glGenVertexArraysOES env n g)) = n" and ids: "\<not> distinct ids" "\<forall>c \<in> set ids. GetVertexAttribManager c s = None"
  shows "GenVertexArraysOESHelper env ids s g = None"
proof -
  obtain js g1 where 1: "(if \<not> native_vertex_array_object env then (replicate (length ids) 0, g) else glGenVertexArraysOES env (length ids) g) = (js, g1)"
      "length js = length ids"
    by (rule generated_ids [OF gen])
  then show ?thesis
    using create_arrays_repeated [OF ids(1) 1(2), of env s g1] ids(2) unfolding GenVertexArraysOESHelper_def 1(1) by simp
qed

lemma GenVertexArraysOESHelper_ok:
  assumes gen: "\<forall>n g. length (fst (glGenVertexArraysOES env n g)) = n" and ok: "arrays_ok env {} P s bm"
    and ids: "distinct ids \<or> (\<exists>c \<in> set ids. GetVertexAttribManager c s \<noteq> None)"
  shows "\<exists>r s' g' xs. GenVertexArraysOESHelper env ids s g = Some (r, s', g') \<and> arrays_ok env {} P s' bm \<and>
    current_vao s' = current_vao s \<and> default_vao s' = default_vao s \<and> r = (\<forall>c \<in> set ids. GetVertexAttribManager c s = None) \<and>
    vertex_attrib_managers s' = xs @ vertex_attrib_managers s \<and> map fst xs = (if r then rev ids else []) \<and>
    snd ` set xs \<inter> fst ` set (vao_objects s) = {}"
proof (cases "\<exists>c \<in> set ids. GetVertexAttribManager c s \<noteq> None")
  case True
  then show ?thesis
    using ok by (intro exI [of _ False] exI [of _ s] exI [of _ g] exI [of _ "[]"]) (auto simp: GenVertexArraysOESHelper_def)
next
  case False
  then have ids: "distinct ids"
    using ids by blast
  obtain js g1 where 1: "(if \<not> native_vertex_array_object env then (replicate (length ids) 0, g) else glGenVertexArraysOES env (length ids) g) = (js, g1)"
      "length js = length ids"
    by (rule generated_ids [OF gen])
  with create_arrays_ok [OF ok ids _ 1(2), of g1] False
  obtain s' g' xs where "create_arrays env ids js s g1 = Some (s', g')" "arrays_ok env {} P s' bm" "current_vao s' = current_vao s"
      "default_vao s' = default_vao s" "vertex_attrib_managers s' = xs @ vertex_attrib_managers s" "map fst xs = rev ids"
      "snd ` set xs \<inter> fst ` set (vao_objects s) = {}"
    by auto
  with False 1 show ?thesis
    by (intro exI [of _ True] exI [of _ s'] exI [of _ g'] exI [of _ xs]) (auto simp: GenVertexArraysOESHelper_def)
qed

lemma clear_arrays_ok:
  assumes "arrays_ok env {} P s bm" "vertex_attrib_managers s = xs" "current_vao s = None" "default_vao s = None"
  shows "\<exists>s' bm' g'. clear_arrays env xs s bm g = Some (s', bm', g') \<and> arrays_ok env {} P s' bm' \<and> vertex_attrib_managers s' = [] \<and>
    vao_objects s' = []"
  using assms
proof (induction xs arbitrary: s bm g)
  case Nil
  have "arrays_ok env {} P (s\<lparr>vertex_attrib_managers := []\<rparr>) bm"
    using arrays_okD [OF Nil(1)] Nil(2) by (intro arrays_okI) simp_all
  with Nil show ?case
    using arrays_okD(5) [OF Nil(1)] by simp
next
  case (Cons x xs)
  obtain c a where x: "x = (c, a)"
    by (cases x)
  let ?s = "s\<lparr>vertex_attrib_managers := xs\<rparr>"
  have "arrays_ok env {a} P ?s bm"
    using arrays_okD [OF Cons.prems(1)] Cons.prems(2-) x by (intro arrays_okI) simp_all
  moreover have "a \<notin> snd ` set xs"
    using arrays_okD(7) [OF Cons.prems(1)] Cons.prems(2) x by simp
  ultimately obtain s1 bm1 g1 where "VertexArray_Release env a ?s bm g = Some (s1, bm1, g1)" "arrays_ok env {} P s1 bm1"
      "vertex_attrib_managers s1 = xs" "current_vao s1 = None" "default_vao s1 = None"
    using VertexArray_Release_ok [of env a P ?s bm g] Cons.prems by auto
  with Cons.IH [of s1 bm1 g1] x show ?case
    by simp
qed

lemma Arrays_Destroy_ok:
  assumes ok: "arrays_ok env {} (pointer (d_bound_array_buffer d)) s bm"
  shows "\<exists>d' s' bm' g'. Arrays_Destroy env have_context d s bm g = Some (d', s', bm', g') \<and> vao_objects s' = [] \<and>
    manager_ok {} bm' \<and> bm_refs bm' = []"
proof -
  let ?gl = "gl_env (decoder_gl env)"
  obtain s1 bm1 g1 where 1: "set_current_vao env None s bm g = Some (s1, bm1, g1)" "arrays_ok env {} (pointer (d_bound_array_buffer d)) s1 bm1"
      "current_vao s1 = None"
    using set_current_vao_ok [OF ok, of None g] by auto
  obtain s2 bm2 g2 where 2: "set_default_vao env None s1 bm1 g1 = Some (s2, bm2, g2)" "arrays_ok env {} (pointer (d_bound_array_buffer d)) s2 bm2"
      "current_vao s2 = None" "default_vao s2 = None"
    using set_default_vao_ok [OF 1(2), of g1] 1(3) by auto
  have "mset (bm_refs bm2) = array_pointers (vao_objects s2) + pointer (d_bound_array_buffer d)"
    using arrays_okD(2) [OF 2(2)] by (simp add: add_ac)
  from assign_ref_ok [OF arrays_okD(1) [OF 2(2)] this, of None ?gl g2]
  obtain bm3 g3 where 3: "assign_ref ?gl (d_bound_array_buffer d) None bm2 g2 = Some (bm3, g3)" "manager_ok {} bm3"
      "mset (bm_refs bm3) = array_pointers (vao_objects s2)"
    by auto
  let ?s = "s2\<lparr>vao_have_context := have_context\<rparr>"
  have "arrays_ok env {} {#} ?s bm3"
    using arrays_okD [OF 2(2)] 3(2,3) by (intro arrays_okI) simp_all
  from clear_arrays_ok [OF this, of "vertex_attrib_managers s2" g3]
  obtain s4 bm4 g4 where 4: "clear_arrays env (vertex_attrib_managers s2) ?s bm3 g3 = Some (s4, bm4, g4)" "arrays_ok env {} {#} s4 bm4"
      "vertex_attrib_managers s4 = []" "vao_objects s4 = []"
    using 2(3,4) by auto
  have "VertexArrayManager_delete s4 = Some ()"
    using arrays_okD(9) [OF 4(2)] 4(3,4) by (simp add: VertexArrayManager_delete_def tracked_def)
  then show ?thesis
    using 1(1) 2(1) 3(1) 4 arrays_okD(1,2) [OF 4(2)] by (simp add: Arrays_Destroy_def VertexArrayManager_Destroy_def)
qed

lemma Arrays_Initialize_ok:
  assumes "manager_ok {} bm" "bm_refs bm = []" "d_bound_array_buffer d = None"
  shows "\<exists>d' s bm' g'. Arrays_Initialize env d bm g = Some (d', s, bm', g') \<and> arrays_ok env {} (pointer (d_bound_array_buffer d')) s bm' \<and>
    current_vao s \<noteq> None \<and> default_vao s \<noteq> None"
proof -
  obtain m g1 where m: "VertexAttribManager_Initialize (decoder_gl env) (max_vertex_attribs env) True VertexAttribManager_new g = (m, g1)"
    by fastforce
  let ?v = "\<lparr>vao_attribs = m, vao_has_manager = False, vao_deleted = False, vao_service_id = 0\<rparr>"
  let ?s = "VertexArrayManager_new 1 [(0, ?v)] None (Some 0)"
  have ok: "arrays_ok env {} (pointer (d_bound_array_buffer d)) ?s bm"
    using assms VertexAttribManager_Initialize_ok [OF m]
    by (intro arrays_okI) (auto simp: VertexArrayManager_new_def array_ok_def tracked_def)
  obtain s' bm' g' where 1: "bind_vao env (Some 0) 0 d ?s bm g1 = Some (s', bm', g')" "arrays_ok env {} (pointer (d_bound_array_buffer d)) s' bm'"
      "vertex_attrib_managers s' = []" "current_vao s' = Some 0" "default_vao s' = Some 0"
    using bind_vao_ok [OF ok, of 0 0 g1] by (auto simp: VertexArrayManager_new_def)
  have "vertex_attrib_manager_count s' = 0"
    using 1(1) by (auto simp: bind_vao_def set_current_vao_def VertexArrayManager_new_def split: if_splits Option.bind_splits)
  then have "arrays_ok env {} (pointer (d_bound_array_buffer d)) (VertexArrayManager_new (vao_next s') (vao_objects s') (current_vao s') (default_vao s')) bm'"
    using arrays_okD [OF 1(2)] 1(3) by (intro arrays_okI) (simp_all add: VertexArrayManager_new_def)
  then show ?thesis
    using m 1 by (simp add: Arrays_Initialize_def DoBindVertexArrayOES_def VertexArrayManager_new_def)
qed

end
