(* ===== verification/Vertex_Array_Calls.thy ===== *)
theory Vertex_Array_Calls
  imports Vertex_Arrays
begin

section \<open>Sequences of calls on vertex arrays\<close>

text \<open>
  Every sequence of a client's calls, on vertex arrays and on the attributes and buffers of the current one: what a client sees of the vertex
  arrays (which names there are and which one is bound), that no vertex array and no buffer is used after it is gone, and that draws
  with any vertex array read inside its buffers.
\<close>

subsection \<open>Every sequence of calls\<close>

definition Decoder_start :: Decoder where
  "Decoder_start =
     \<lparr>d_bound_array_buffer = None, d_vertex_attrib_manager = VertexAttribManager_new, d_error_state = ErrorState_new,
      d_buffer_ids = IdAllocator_new, d_generic_error = False\<rparr>"

datatype ArrayCall =
    GenArrays "u32 list"
  | DeleteArrays "u32 list"
  | BindArray u32
  | OnCurrent DecoderCall

definition array_call ::
  "'g ArrayEnv \<Rightarrow> ArrayCall \<Rightarrow> Decoder \<Rightarrow> Arrays \<Rightarrow> BufferManager \<Rightarrow> 'g \<Rightarrow> (Decoder \<times> Arrays \<times> BufferManager \<times> 'g) option" where
  "array_call env call d s bm g =
     (case call of
        GenArrays ids \<Rightarrow> map_option (\<lambda>(ok, s, g). (d, s, bm, g)) (GenVertexArraysOESHelper env ids s g)
      | DeleteArrays ids \<Rightarrow> map_option (\<lambda>(s, bm, g). (d, s, bm, g)) (DeleteVertexArraysOESHelper env ids s bm g)
      | BindArray client_id \<Rightarrow> DoBindVertexArrayOES env client_id d s bm g
      | OnCurrent c \<Rightarrow> on_current env c d s bm g)"

text \<open>As for buffers, that the names to generate are distinct is not checked before \<open>CreateVertexAttribManager\<close>.\<close>

definition array_call_allowed :: "BufferManager \<Rightarrow> ArrayCall \<Rightarrow> bool" where
  "array_call_allowed bm call \<longleftrightarrow>
     (case call of OnCurrent c \<Rightarrow> decoder_call_allowed bm c | _ \<Rightarrow> True)"

definition array_call_repeats :: "Arrays \<Rightarrow> BufferManager \<Rightarrow> ArrayCall \<Rightarrow> bool" where
  "array_call_repeats s bm call \<longleftrightarrow>
     (case call of
        GenArrays ids \<Rightarrow> \<not> distinct ids \<and> (\<forall>c \<in> set ids. GetVertexAttribManager c s = None)
      | OnCurrent c \<Rightarrow> repeats_name bm c
      | _ \<Rightarrow> False)"

definition array_env :: "'g ArrayEnv \<Rightarrow> ('g \<Rightarrow> nat) \<Rightarrow> bool" where
  "array_env env pending \<longleftrightarrow>
     decoder_env (decoder_gl env) pending \<and> (\<forall>n g. length (fst (glGenVertexArraysOES env n g)) = n)"

inductive array_reachable :: "'g ArrayEnv \<Rightarrow> Decoder \<Rightarrow> Arrays \<Rightarrow> BufferManager \<Rightarrow> 'g \<Rightarrow> bool" for env where
  start: "BufferManager_new (gl_env (decoder_gl env)) csa g = (bm, g1) \<Longrightarrow>
    Arrays_Initialize env Decoder_start bm g1 = Some (d, s, bm', g2) \<Longrightarrow> array_reachable env d s bm' g2"
| call: "array_reachable env d s bm g \<Longrightarrow> array_call_allowed bm call \<Longrightarrow> array_call env call d s bm g = Some (d', s', bm', g') \<Longrightarrow>
    array_reachable env d' s' bm' g'"

subsection \<open>Names\<close>

text \<open>What a client sees: the names there are, and the name that is bound, if it is not the default vertex array.\<close>

type_synonym array_names = "u32 set \<times> u32 option"

definition array_name :: "Arrays \<Rightarrow> u32 option" where
  "array_name s =
     (case current_vao s of
        None \<Rightarrow> None
      | Some a \<Rightarrow> map_option fst (find (\<lambda>(c, b). b = a) (vertex_attrib_managers s)))"

definition array_names :: "Arrays \<Rightarrow> array_names" where
  "array_names s = (fst ` set (vertex_attrib_managers s), array_name s)"

definition names_gen :: "u32 list \<Rightarrow> array_names \<Rightarrow> array_names" where
  "names_gen ids = (\<lambda>(N, c). (if set ids \<inter> N = {} then N \<union> set ids else N, c))"

definition names_delete_all :: "u32 list \<Rightarrow> array_names \<Rightarrow> array_names" where
  "names_delete_all ids = (\<lambda>(N, c). (N - set ids, if c \<in> Some ` set ids then None else c))"

definition names_bind :: "u32 \<Rightarrow> array_names \<Rightarrow> array_names" where
  "names_bind i = (\<lambda>(N, c). (N, if i = 0 then None else if i \<in> N then Some i else c))"

definition names_call :: "ArrayCall \<Rightarrow> array_names \<Rightarrow> array_names" where
  "names_call call =
     (case call of
        GenArrays ids \<Rightarrow> names_gen ids
      | DeleteArrays ids \<Rightarrow> names_delete_all ids
      | BindArray i \<Rightarrow> names_bind i
      | OnCurrent c \<Rightarrow> id)"

lemma option_extensional: "(\<And>x. (p = Some x) = (q = Some x)) \<Longrightarrow> p = q"
  by (metis option.exhaust)

lemma find_name:
  "distinct (map fst xs) \<Longrightarrow> distinct (map snd xs) \<Longrightarrow>
    map_option fst (find (\<lambda>(c, b). b = a) xs) = Some c \<longleftrightarrow> map_of xs c = Some a"
proof (induction xs)
  case (Cons x xs)
  then show ?case
    by (cases x) (auto simp: image_iff dest: map_of_SomeD)
qed simp

lemma array_name_Some:
  assumes "arrays_ok env D P s bm"
  shows "array_name s = Some c \<longleftrightarrow> (\<exists>a. current_vao s = Some a \<and> map_of (vertex_attrib_managers s) c = Some a)"
  using find_name [OF arrays_okD(6,7) [OF assms]] by (cases "current_vao s") (simp_all add: array_name_def)

lemma array_name_default:
  assumes "arrays_ok env D P s bm" "current_vao s = default_vao s"
  shows "array_name s = None"
proof (rule option_extensional)
  show "(array_name s = Some c) = (None = Some c)" for c
    using array_name_Some [OF assms(1), of c] arrays_okD(8) [OF assms(1)] assms(2) by (force dest: map_of_SomeD)
qed

lemma array_names_same:
  "vertex_attrib_managers s' = vertex_attrib_managers s \<Longrightarrow> current_vao s' = current_vao s \<Longrightarrow> array_names s' = array_names s"
  by (cases "current_vao s") (simp_all add: array_names_def array_name_def)

lemma named_iff: "c \<in> fst ` set (vertex_attrib_managers s) \<longleftrightarrow> GetVertexAttribManager c s \<noteq> None"
  by (simp add: GetVertexAttribManager_def map_of_eq_None_iff)

lemma names_delete_Cons: "names_delete_all (c # cs) N = names_delete_all cs (names_delete_all [c] N)"
  by (cases N) (auto simp: names_delete_all_def)

lemma names_delete_absent:
  assumes "arrays_ok env D P s bm" "GetVertexAttribManager c s = None"
  shows "names_delete_all [c] (array_names s) = array_names s"
  using assms(2) named_iff [of c s] array_name_Some [OF assms(1), of c] by (auto simp: names_delete_all_def array_names_def GetVertexAttribManager_def)

text \<open>Deleting one name: the table loses the name, and if it was bound the default vertex array is bound.\<close>

lemma names_delete_one:
  assumes ok: "arrays_ok env D P s bm" and ok': "arrays_ok env D' P' s' bm'" and c: "GetVertexAttribManager c s = Some a"
    and tbl: "vertex_attrib_managers s' = AList.delete c (vertex_attrib_managers s)" and dflt: "default_vao s' = default_vao s"
    and cur: "current_vao s' = (if current_vao s = Some a then default_vao s else current_vao s)"
  shows "array_names s' = names_delete_all [c] (array_names s)"
proof -
  have a: "map_of (vertex_attrib_managers s) c = Some a"
    using c by (simp add: GetVertexAttribManager_def)
  have "fst ` set (vertex_attrib_managers s') = fst ` set (vertex_attrib_managers s) - {c}"
    using tbl by (simp add: keys_delete)
  moreover have "array_name s' = (if array_name s = Some c then None else array_name s)"
  proof (cases "current_vao s = Some a")
    case True
    then have "array_name s = Some c"
      using array_name_Some [OF ok, of c] a by simp
    then show ?thesis
      using array_name_default [OF ok'] cur dflt True by simp
  next
    case False
    then have "array_name s \<noteq> Some c"
      using array_name_Some [OF ok, of c] a by auto
    moreover have "array_name s' = array_name s"
    proof (rule option_extensional)
      fix c'
      show "(array_name s' = Some c') = (array_name s = Some c')"
        using array_name_Some [OF ok, of c'] array_name_Some [OF ok', of c'] False cur tbl a
        by (cases "c' = c") (auto simp: AList.delete_conv')
    qed
    ultimately show ?thesis
      by simp
  qed
  ultimately show ?thesis
    by (auto simp: array_names_def names_delete_all_def)
qed

lemma DeleteVertexArraysOESHelper_ok:
  assumes "arrays_ok env {} P s bm" "current_vao s \<noteq> None" "default_vao s \<noteq> None"
  shows "\<exists>s' bm' g'. DeleteVertexArraysOESHelper env cs s bm g = Some (s', bm', g') \<and> arrays_ok env {} P s' bm' \<and>
    current_vao s' \<noteq> None \<and> default_vao s' = default_vao s \<and> array_names s' = names_delete_all cs (array_names s)"
  using assms
proof (induction cs arbitrary: s bm g)
  case Nil
  then show ?case
    by (simp add: names_delete_all_def case_prod_beta)
next
  case (Cons c cs)
  show ?case
  proof (cases "GetVertexAttribManager c s")
    case None
    then show ?thesis
      using Cons.IH [OF Cons.prems, of g] names_delete_Cons [of c cs] names_delete_absent [OF Cons.prems(1) None] by simp
  next
    case (Some a)
    obtain s1 bm1 g1 where 1: "DeleteVertexArraysOESHelper env (c # cs) s bm g = DeleteVertexArraysOESHelper env cs s1 bm1 g1" "arrays_ok env {} P s1 bm1"
        "vertex_attrib_managers s1 = AList.delete c (vertex_attrib_managers s)" "default_vao s1 = default_vao s"
        "current_vao s1 = (if current_vao s = Some a then default_vao s else current_vao s)"
      using DeleteVertexArraysOESHelper_step [OF Cons.prems(1,3) Some, of cs g] by (elim exE conjE)
    have "array_names s1 = names_delete_all [c] (array_names s)"
      using names_delete_one [OF Cons.prems(1) 1(2) Some 1(3,4,5)] .
    moreover have "current_vao s1 \<noteq> None" "default_vao s1 \<noteq> None"
      using 1(4,5) Cons.prems(2,3) by simp_all
    ultimately show ?thesis
      using Cons.IH [OF 1(2), of g1] 1(1,4) names_delete_Cons [of c cs] by (simp del: DeleteVertexArraysOESHelper.simps)
  qed
qed

lemma names_gen_ok:
  assumes ok: "arrays_ok env D P s bm" and ok': "arrays_ok env D' P' s' bm'" and cur: "current_vao s' = current_vao s"
    and tbl: "vertex_attrib_managers s' = xs @ vertex_attrib_managers s" and fresh: "snd ` set xs \<inter> fst ` set (vao_objects s) = {}"
  shows "array_names s' = (fst ` set (vertex_attrib_managers s) \<union> fst ` set xs, array_name s)"
proof -
  have "array_name s' = array_name s"
  proof (rule option_extensional)
    fix c
    have "map_of xs c \<noteq> Some a" if "current_vao s = Some a" for a
    proof
      assume "map_of xs c = Some a"
      then have "a \<in> snd ` set xs"
        by (metis map_of_SomeD snd_conv imageI)
      moreover have "a \<in> fst ` set (vao_objects s)"
        using arrays_okD(5) [OF ok] that by simp
      ultimately show False
        using fresh by blast
    qed
    moreover have "map_of (vertex_attrib_managers s) c = None" if "map_of xs c = Some b" for b
    proof -
      have "c \<in> fst ` set xs" "fst ` set xs \<inter> fst ` set (vertex_attrib_managers s) = {}"
        using arrays_okD(6) [OF ok'] that by (metis map_of_SomeD fst_conv imageI, simp add: tbl)
      then show ?thesis
        by (auto simp: map_of_eq_None_iff)
    qed
    ultimately show "(array_name s' = Some c) = (array_name s = Some c)"
      using array_name_Some [OF ok, of c] array_name_Some [OF ok', of c] cur
      by (cases "map_of xs c") (auto simp: tbl map_add_def)
  qed
  then show ?thesis
    by (auto simp: array_names_def tbl image_Un)
qed

lemma names_bind_ok:
  assumes ok: "arrays_ok env D P s bm" and ok': "arrays_ok env D' P' s' bm'" and tbl: "vertex_attrib_managers s' = vertex_attrib_managers s"
    and dflt: "default_vao s' = default_vao s"
    and cur: "current_vao s' = (if i = 0 then default_vao s else if GetVertexAttribManager i s = None then current_vao s else GetVertexAttribManager i s)"
  shows "array_names s' = names_bind i (array_names s)"
proof -
  consider (dflt) "i = 0" | (bad) "i \<noteq> 0" "GetVertexAttribManager i s = None" | (good) a where "i \<noteq> 0" "GetVertexAttribManager i s = Some a"
    by fastforce
  then show ?thesis
  proof cases
    case dflt
    then show ?thesis
      using array_name_default [OF ok'] cur assms(4) tbl by (simp add: array_names_def names_bind_def)
  next
    case bad
    then show ?thesis
      using array_names_same [OF tbl] cur named_iff [of i s] by (simp add: names_bind_def array_names_def)
  next
    case (good a)
    then have "array_name s' = Some i"
      using array_name_Some [OF ok', of i] cur tbl by (simp add: GetVertexAttribManager_def)
    then show ?thesis
      using good named_iff [of i s] tbl by (simp add: names_bind_def array_names_def)
  qed
qed

definition context_ok :: "'g ArrayEnv \<Rightarrow> Decoder \<Rightarrow> Arrays \<Rightarrow> BufferManager \<Rightarrow> bool" where
  "context_ok env d s bm \<longleftrightarrow>
     arrays_ok env {} (pointer (d_bound_array_buffer d)) s bm \<and> current_vao s \<noteq> None \<and> default_vao s \<noteq> None"

lemma array_call_ok:
  assumes env: "array_env env pending" and ok: "context_ok env d s bm" and allowed: "array_call_allowed bm call" "\<not> array_call_repeats s bm call"
  shows "\<exists>d' s' bm' g'. array_call env call d s bm g = Some (d', s', bm', g') \<and> context_ok env d' s' bm' \<and>
    array_names s' = names_call call (array_names s)"
proof (cases call)
  case (GenArrays ids)
  have ok1: "arrays_ok env {} (pointer (d_bound_array_buffer d)) s bm"
    using ok by (simp add: context_ok_def)
  then obtain r s' g' xs where 1: "GenVertexArraysOESHelper env ids s g = Some (r, s', g')" "arrays_ok env {} (pointer (d_bound_array_buffer d)) s' bm"
      "current_vao s' = current_vao s" "default_vao s' = default_vao s" "r = (\<forall>c \<in> set ids. GetVertexAttribManager c s = None)"
      "vertex_attrib_managers s' = xs @ vertex_attrib_managers s" "map fst xs = (if r then rev ids else [])"
      "snd ` set xs \<inter> fst ` set (vao_objects s) = {}"
    using GenVertexArraysOESHelper_ok [OF _ ok1, of ids g] env allowed GenArrays
    by (auto simp: array_env_def array_call_repeats_def del: exE elim!: exE)
  have "fst ` set xs = (if r then set ids else {})"
    using 1(7) by (metis list.set_map set_rev list.set(1))
  moreover have "r \<longleftrightarrow> set ids \<inter> fst ` set (vertex_attrib_managers s) = {}"
    using 1(5) by (simp add: disjoint_iff named_iff Ball_def)
  ultimately have "array_names s' = names_call call (array_names s)"
    using names_gen_ok [OF ok1 1(2,3,6,8)] GenArrays by (auto simp: names_call_def names_gen_def array_names_def)
  then show ?thesis
    using 1 ok GenArrays by (simp add: array_call_def context_ok_def)
next
  case (DeleteArrays ids)
  then show ?thesis
    using DeleteVertexArraysOESHelper_ok [of env "pointer (d_bound_array_buffer d)" s bm ids g] ok
    by (auto simp: context_ok_def array_call_def names_call_def)
next
  case (BindArray c)
  have ok1: "arrays_ok env {} (pointer (d_bound_array_buffer d)) s bm" "default_vao s \<noteq> None" "current_vao s \<noteq> None"
    using ok by (simp_all add: context_ok_def)
  from DoBindVertexArrayOES_ok [OF ok1(1,2) disjI1 [OF ok1(3)], of c g]
  obtain d' s' bm' g' where 1: "DoBindVertexArrayOES env c d s bm g = Some (d', s', bm', g')"
      "arrays_ok env {} (pointer (d_bound_array_buffer d')) s' bm'" "current_vao s' \<noteq> None" "default_vao s' = default_vao s"
      "vertex_attrib_managers s' = vertex_attrib_managers s"
      "current_vao s' = (if c = 0 then default_vao s else if GetVertexAttribManager c s = None then current_vao s else GetVertexAttribManager c s)"
    by (elim exE conjE) simp
  then show ?thesis
    using names_bind_ok [OF ok1(1) 1(2,5,4,6)] ok1(2) BindArray by (simp add: array_call_def context_ok_def names_call_def)
next
  case (OnCurrent c)
  obtain a where a: "current_vao s = Some a" "default_vao s \<noteq> None"
    using ok by (auto simp: context_ok_def)
  have "decoder_env (decoder_gl env) pending" "arrays_ok env {} (pointer (d_bound_array_buffer d)) s bm" "decoder_call_allowed bm c"
      "\<not> repeats_name bm c"
    using env ok allowed OnCurrent by (simp_all add: array_env_def context_ok_def array_call_allowed_def array_call_repeats_def)
  from on_current_ok [OF this(1,2) a(1) this(3,4), of g]
  obtain d' s' bm' g' where 1: "on_current env c d s bm g = Some (d', s', bm', g')" "arrays_ok env {} (pointer (d_bound_array_buffer d')) s' bm'"
      "current_vao s' = Some a" "default_vao s' = default_vao s" "vertex_attrib_managers s' = vertex_attrib_managers s"
    by (elim exE conjE)
  have "array_names s' = array_names s"
    using array_names_same [OF 1(5)] 1(3) a(1) by simp
  then show ?thesis
    using 1 a(2) OnCurrent by (simp add: array_call_def context_ok_def names_call_def)
qed

lemma array_call_repeats_None:
  assumes "array_env env pending" "array_call_repeats s bm call"
  shows "array_call env call d s bm g = None"
proof (cases call)
  case (GenArrays ids)
  then show ?thesis
    using GenVertexArraysOESHelper_repeated [of env ids s g] assms by (simp add: array_env_def array_call_repeats_def array_call_def)
next
  case (OnCurrent c)
  have "decoder_call (decoder_gl env) (current_call s c) d' bm g = None" for d'
    using decoder_call_repeats [of "decoder_gl env" pending bm "current_call s c" d' g] assms OnCurrent
    by (simp add: array_env_def array_call_repeats_def)
  then show ?thesis
    using OnCurrent by (simp add: array_call_def on_current_def split: Option.bind_splits)
qed (use assms in \<open>simp_all add: array_call_repeats_def\<close>)

lemma reachable_context_ok:
  assumes "array_env env pending" "array_reachable env d s bm g"
  shows "context_ok env d s bm"
  using assms(2)
proof (induction rule: array_reachable.induct)
  case (start csa g bm g1 d s bm' g2)
  have "manager_ok {} bm" "bm_refs bm = []"
    using BufferManager_new_ok [OF start(1)] start(1) by (auto simp: BufferManager_new_def split: prod.splits)
  then show ?case
    using Arrays_Initialize_ok [of bm Decoder_start env g1] start(2) by (auto simp: context_ok_def Decoder_start_def)
next
  case (call d s bm g c d' s' bm' g')
  have "\<not> array_call_repeats s bm c"
    using array_call_repeats_None [OF assms(1), of s bm c d g] call.hyps(3) by auto
  with call show ?case
    using array_call_ok [OF assms(1) call.IH call.hyps(2), of g] by auto
qed

fun array_calls ::
  "'g ArrayEnv \<Rightarrow> ArrayCall list \<Rightarrow> Decoder \<Rightarrow> Arrays \<Rightarrow> BufferManager \<Rightarrow> 'g \<Rightarrow> (Decoder \<times> Arrays \<times> BufferManager \<times> 'g) option" where
  "array_calls env [] d s bm g = Some (d, s, bm, g)"
| "array_calls env (call # calls) d s bm g = do {
     dcheck (array_call_allowed bm call);
     (d, s, bm, g) \<leftarrow> array_call env call d s bm g;
     array_calls env calls d s bm g
   }"

lemma array_calls_reachable:
  "array_reachable env d s bm g \<Longrightarrow> array_calls env calls d s bm g = Some (d', s', bm', g') \<Longrightarrow> array_reachable env d' s' bm' g'"
proof (induction calls arbitrary: d s bm g)
  case (Cons call calls)
  then obtain d1 s1 bm1 g1 where "array_call_allowed bm call" "array_call env call d s bm g = Some (d1, s1, bm1, g1)"
      "array_calls env calls d1 s1 bm1 g1 = Some (d', s', bm', g')"
    by (auto split: if_splits prod.splits Option.bind_splits)
  then show ?case
    using Cons.IH array_reachable.call [OF Cons.prems(1)] by blast
qed simp


subsection \<open>Properties\<close>

text \<open>An example: two vertex arrays on a driver that has none, the second with the attribute and the index buffer of the example for draws.\<close>

definition demo_array_env :: "unit ArrayEnv" where
  "demo_array_env =
     \<lparr>decoder_gl = demo_decoder_env, glGenVertexArraysOES = \<lambda>n g. (replicate n 5, g), glDeleteVertexArraysOES = \<lambda>_ g. g,
      glBindVertexArrayOES = \<lambda>_ g. g, glVertexAttribDivisorANGLE = \<lambda>_ _ g. g, native_vertex_array_object = False, max_vertex_attribs = 1\<rparr>"

definition demo_array_calls :: "ArrayCall list" where
  "demo_array_calls = [GenArrays [3, 4], BindArray 4] @ map OnCurrent demo_decoder_calls"

lemma demo_array_env_ok: "array_env demo_array_env (\<lambda>_. 0)"
  using demo_decoder_env_ok by (simp add: array_env_def demo_array_env_def)

definition demo_arrays :: Arrays where
  "demo_arrays =
     \<lparr>vertex_attrib_managers = [(4, 2), (3, 1)], vertex_attrib_manager_count = 2, vao_have_context = True,
      vao_objects =
        [(2, \<lparr>vao_attribs = d_vertex_attrib_manager demo_gl_decoder, vao_has_manager = True, vao_deleted = False, vao_service_id = 0\<rparr>),
         (1, \<lparr>vao_attribs = fst (VertexAttribManager_Initialize demo_decoder_env 1 False VertexAttribManager_new ()),
              vao_has_manager = True, vao_deleted = False, vao_service_id = 0\<rparr>),
         (0, \<lparr>vao_attribs = fst (VertexAttribManager_Initialize demo_decoder_env 1 True VertexAttribManager_new ()),
              vao_has_manager = False, vao_deleted = False, vao_service_id = 0\<rparr>)],
      vao_next = 3, current_vao = Some 2, default_vao = Some 0\<rparr>"

lemmas array_eval =
  Arrays_Initialize_def VertexArrayManager_new_def DoBindVertexArrayOES_def bind_vao_def set_current_vao_def EmulateVertexArrayState_def
  RestoreStateForAttrib_def array_call_def array_call_allowed_def GenVertexArraysOESHelper_def CreateVertexAttribManager_def
  VertexArray_new_def VAO_StartTracking_def GetVertexAttribManager_def VertexArray_Release_def on_current_def current_call_def set_vao_def
  Decoder_start_def

lemma demo_array_run:
  "Arrays_Initialize demo_array_env Decoder_start (fst (BufferManager_new demo_gl False ())) () \<bind>
     (\<lambda>(d, s, bm, g). array_calls demo_array_env demo_array_calls d s bm g) = Some (demo_gl_decoder, demo_arrays, demo_buffers, ())"
  by (simp add: array_eval decoder_eval demo_array_env_def demo_array_calls_def demo_arrays_def demo_decoder_calls_def demo_decoder_env_def
      demo_gl_decoder_def demo_attrib_def demo_buffers_def demo_vertices_def demo_indices_def demo_gl_def)
    (simp add: word_le_nat_alt)

lemma demo_array_reachable: "array_reachable demo_array_env demo_gl_decoder demo_arrays demo_buffers ()"
proof -
  obtain d s bm where 1: "Arrays_Initialize demo_array_env Decoder_start (fst (BufferManager_new demo_gl False ())) () = Some (d, s, bm, ())"
      "array_calls demo_array_env demo_array_calls d s bm () = Some (demo_gl_decoder, demo_arrays, demo_buffers, ())"
    using demo_array_run by (auto split: Option.bind_splits)
  have "gl_env (decoder_gl demo_array_env) = demo_gl"
    by (simp add: demo_array_env_def demo_decoder_env_def)
  moreover obtain bm0 where "BufferManager_new demo_gl False () = (bm0, ())"
    by (cases "BufferManager_new demo_gl False ()") auto
  ultimately have "array_reachable demo_array_env d s bm ()"
    using 1(1) array_reachable.start [of demo_array_env False "()" bm0 "()" d s bm "()"] by simp
  then show ?thesis
    using 1(2) by (rule array_calls_reachable)
qed




text \<open>
  C9. No vertex array and no buffer is used after it is gone, and nothing leaks. In every state that calls of a client lead to (vertex arrays
  generated, bound and deleted, and every call on the buffers and the attributes of the current one, on a driver with or
  without vertex arrays) every further call that its handler lets through (with a valid target, data of the size it says, and fewer than \<open>2 ^ 32\<close>
  buffers) returns, with one exception: generating names, of buffers or vertex arrays, of which none is in use and one
  appears twice fails the \<open>DCHECK\<close> on the insertion into the table. The vertex arrays that are alive are exactly those with a name, the current and the
  default one; the references to buffers are exactly the bound array buffer and the pointers in vertex arrays, the ones that are not
  current included, and each refers to a buffer that is alive. When the decoder is destroyed, with or without its GL context, the manager finds no vertex array left over, and
  no reference to a buffer is left.
\<close>

theorem vertex_arrays_safe:
  assumes "array_env env pending" "array_reachable env d s bm g"
  shows "(array_call_allowed bm call \<longrightarrow> (array_call env call d s bm g = None \<longleftrightarrow> array_call_repeats s bm call)) \<and>
    fst ` set (vao_objects s) = snd ` set (vertex_attrib_managers s) \<union> set_option (current_vao s) \<union> set_option (default_vao s) \<and>
    mset (bm_refs bm) = pointer (d_bound_array_buffer d) + array_pointers (vao_objects s) \<and>
    set_mset (pointer (d_bound_array_buffer d) + array_pointers (vao_objects s)) \<subseteq> fst ` set (bm_objects bm) \<and>
    (\<exists>d' s' bm' g'. Arrays_Destroy env have_context d s bm g = Some (d', s', bm', g') \<and> vao_objects s' = [] \<and> bm_refs bm' = [])"
proof (intro conjI impI)
  note ctx = reachable_context_ok [OF assms]
  then have ok: "arrays_ok env {} (pointer (d_bound_array_buffer d)) s bm"
    by (simp add: context_ok_def)
  show "array_call env call d s bm g = None \<longleftrightarrow> array_call_repeats s bm call" if allowed: "array_call_allowed bm call"
  proof (cases "array_call_repeats s bm call")
    case True
    then show ?thesis
      using array_call_repeats_None [OF assms(1)] by simp
  next
    case False
    then obtain r where "array_call env call d s bm g = Some r"
      using array_call_ok [OF assms(1) ctx allowed False, of g] by blast
    with False show ?thesis
      by simp
  qed
  show "fst ` set (vao_objects s) = snd ` set (vertex_attrib_managers s) \<union> set_option (current_vao s) \<union> set_option (default_vao s)"
    using arrays_okD(5) [OF ok] by simp
  show refs: "mset (bm_refs bm) = pointer (d_bound_array_buffer d) + array_pointers (vao_objects s)"
    by (rule arrays_okD(2) [OF ok])
  show "set_mset (pointer (d_bound_array_buffer d) + array_pointers (vao_objects s)) \<subseteq> fst ` set (bm_objects bm)"
    using refs_live [OF arrays_okD(1) [OF ok] refs] by blast
  show "\<exists>d' s' bm' g'. Arrays_Destroy env have_context d s bm g = Some (d', s', bm', g') \<and> vao_objects s' = [] \<and> bm_refs bm' = []"
    using Arrays_Destroy_ok [OF ok, of have_context g] by (elim exE conjE) (intro exI conjI)
qed

theorem vertex_arrays_safe_witness:
  "array_call demo_array_env (DeleteArrays [4, 4, 9]) demo_gl_decoder demo_arrays demo_buffers () \<noteq> None \<and>
   array_call demo_array_env (OnCurrent (GenBuffers [7, 7])) demo_gl_decoder demo_arrays demo_buffers () = None \<and>
   array_pointers (vao_objects demo_arrays) = {#0, 1#}"
proof -
  have "array_call_allowed demo_buffers (DeleteArrays [4, 4, 9])" "\<not> array_call_repeats demo_arrays demo_buffers (DeleteArrays [4, 4, 9])"
      "array_call_allowed demo_buffers (OnCurrent (GenBuffers [7, 7]))" "array_call_repeats demo_arrays demo_buffers (OnCurrent (GenBuffers [7, 7]))"
      "mset (bm_refs demo_buffers) = {#0#} + {#0, 1#}" "d_bound_array_buffer demo_gl_decoder = Some 0"
    by (simp_all add: array_call_allowed_def array_call_repeats_def decoder_call_allowed_def repeats_name_def GetBuffer_def demo_buffers_def
        demo_gl_decoder_def)
  then show ?thesis
    using vertex_arrays_safe [OF demo_array_env_ok demo_array_reachable, of "DeleteArrays [4, 4, 9]" True]
      vertex_arrays_safe [OF demo_array_env_ok demo_array_reachable, of "OnCurrent (GenBuffers [7, 7])" True] by simp
qed

text \<open>
  C10. What a client sees of its vertex arrays is a set of names and the name that is bound. Each call that does not repeat a free name to generate changes them as the extension says:
  generating names adds all of them or, if one is taken, none; deleting names removes those there are and ignores the others, and binds the default vertex array
  if the bound one is among them; binding 0 binds the default one, binding a name binds it, and an unknown name changes nothing. Every other call leaves them
  alone. \<open>glIsVertexArrayOES\<close> answers whether there is such a name.
\<close>

theorem vertex_array_calls_refine_names:
  assumes "array_env env pending" "array_reachable env d s bm g" "array_call_allowed bm call" "\<not> array_call_repeats s bm call"
  shows "(\<exists>d' s' bm' g'. array_call env call d s bm g = Some (d', s', bm', g') \<and> array_names s' = names_call call (array_names s)) \<and>
    DoIsVertexArrayOES c s = Some (c \<in> fst (array_names s))"
proof
  note ctx = reachable_context_ok [OF assms(1,2)]
  show "\<exists>d' s' bm' g'. array_call env call d s bm g = Some (d', s', bm', g') \<and> array_names s' = names_call call (array_names s)"
    using array_call_ok [OF assms(1) ctx assms(3,4), of g] by (elim exE conjE) (intro exI conjI)
  have "arrays_ok env {} (pointer (d_bound_array_buffer d)) s bm"
    using ctx by (simp add: context_ok_def)
  from DoIsVertexArrayOES_exact [OF this] show "DoIsVertexArrayOES c s = Some (c \<in> fst (array_names s))"
    by (simp add: array_names_def)
qed

theorem vertex_array_calls_refine_names_witness:
  "(\<exists>d' s' bm' g'. array_call demo_array_env (DeleteArrays [4, 9]) demo_gl_decoder demo_arrays demo_buffers () = Some (d', s', bm', g') \<and>
     array_names s' = ({3}, None)) \<and> DoIsVertexArrayOES 3 demo_arrays = Some True"
proof -
  have "array_call_allowed demo_buffers (DeleteArrays [4, 9])" "\<not> array_call_repeats demo_arrays demo_buffers (DeleteArrays [4, 9])"
      "names_call (DeleteArrays [4, 9]) (array_names demo_arrays) = ({3}, None)" "3 \<in> fst (array_names demo_arrays)"
    by (auto simp: array_call_allowed_def array_call_repeats_def names_call_def names_delete_all_def array_names_def array_name_def demo_arrays_def)
  then show ?thesis
    using vertex_array_calls_refine_names [OF demo_array_env_ok demo_array_reachable, of "DeleteArrays [4, 9]" 3] by simp
qed

end
