(* ===== verification/Token_Fence.thy ===== *)
theory Token_Fence
  imports Prelude
begin

section \<open>The interface between the allocators and the command buffer helper\<close>

text \<open>
  The client-side allocators reuse memory only after the service has read a token. They see
  the \<open>CommandBufferHelper\<close> through two calls: \<open>WaitForToken\<close> (here \<open>wait\<close>, \<^const>\<open>None\<close> if it
  does not return) and \<open>last_token_read\<close> (here \<open>last\<close>, which also returns the helper because
  reading the state bumps its generation). \<open>passed h t\<close> says that no command inserted before
  token \<open>t\<close> can still be executed by the service.
\<close>

locale token_fence =
  fixes wait :: "u32 \<Rightarrow> 'h \<Rightarrow> 'h option"
    and last :: "'h \<Rightarrow> u32 \<times> 'h"
    and h_inv :: "'h \<Rightarrow> bool"
    and passed :: "'h \<Rightarrow> u32 \<Rightarrow> bool"
  assumes wait_total: "h_inv h \<Longrightarrow> \<exists>h'. wait t h = Some h'"
    and wait_inv: "h_inv h \<Longrightarrow> wait t h = Some h' \<Longrightarrow> h_inv h'"
    and wait_passed: "h_inv h \<Longrightarrow> wait t h = Some h' \<Longrightarrow> passed h' t"
    and wait_mono: "h_inv h \<Longrightarrow> wait t h = Some h' \<Longrightarrow> passed h u \<Longrightarrow> passed h' u"
    and last_inv: "h_inv h \<Longrightarrow> last h = (k, h') \<Longrightarrow> h_inv h'"
    and last_passed: "h_inv h \<Longrightarrow> last h = (k, h') \<Longrightarrow> 0 \<le> sint t \<Longrightarrow> sint t \<le> sint k \<Longrightarrow> passed h' t"
    and last_mono: "h_inv h \<Longrightarrow> last h = (k, h') \<Longrightarrow> passed h u \<Longrightarrow> passed h' u"

end
