(* ===== verification/Fenced_Allocator.thy ===== *)
theory Fenced_Allocator
  imports Token_Fence Shared_Memory
begin

section \<open>FencedAllocator: the client's allocator of shared memory\<close>

text \<open>
  Model of \<^verbatim>\<open>src/gpu/command_buffer/client/fenced_allocator.{h,cc}\<close>.
\<close>

subsection \<open>Data\<close>

datatype State = IN_USE | FREE | FREE_PENDING_TOKEN

record Block =
  blk_state :: State
  blk_offset :: u32
  blk_size :: u32
  blk_token :: u32

record FencedAllocator =
  fa_blocks :: "Block list"
  fa_bytes_in_use :: u64

definition kInvalidOffset :: u32 where "kInvalidOffset = 0xffffffff"

definition kUnusedToken :: u32 where "kUnusedToken = 0"

definition kAllocAlignment :: u32 where "kAllocAlignment = 16"

definition RoundDown :: "u32 \<Rightarrow> u32" where
  "RoundDown sz = sz AND NOT (kAllocAlignment - 1)"

definition RoundUp :: "u32 \<Rightarrow> u32" where
  "RoundUp sz = (sz + (kAllocAlignment - 1)) AND NOT (kAllocAlignment - 1)"

subsection \<open>Operations\<close>

definition FencedAllocator_new :: "u32 \<Rightarrow> FencedAllocator" where
  "FencedAllocator_new sz =
     \<lparr>fa_blocks = [\<lparr>blk_state = FREE, blk_offset = 0, blk_size = RoundDown sz,
                     blk_token = kUnusedToken\<rparr>],
      fa_bytes_in_use = 0\<rparr>"

definition CollapseFreeBlock :: "Block list \<Rightarrow> nat \<Rightarrow> Block list \<times> nat" where
  "CollapseFreeBlock bs index =
     (let bs1 =
            (if index + 1 < length bs \<and> blk_state (bs ! (index + 1)) = FREE
             then erase_at (index + 1)
                    (bs[index := (bs ! index)\<lparr>blk_size := blk_size (bs ! index) +
                                                     blk_size (bs ! (index + 1))\<rparr>])
             else bs)
      in if 0 < index \<and> blk_state (bs1 ! (index - 1)) = FREE
         then (erase_at index
                 (bs1[index - 1 := (bs1 ! (index - 1))\<lparr>blk_size :=
                        blk_size (bs1 ! (index - 1)) + blk_size (bs1 ! index)\<rparr>]),
               index - 1)
         else (bs1, index))"

definition WaitForTokenAndFreeBlock ::
  "(u32 \<Rightarrow> 'h \<Rightarrow> 'h option) \<Rightarrow> Block list \<Rightarrow> nat \<Rightarrow> 'h \<Rightarrow> (Block list \<times> nat \<times> 'h) option" where
  "WaitForTokenAndFreeBlock wait bs index h = do {
     dcheck (blk_state (bs ! index) = FREE_PENDING_TOKEN);
     h \<leftarrow> wait (blk_token (bs ! index)) h;
     let (bs, index) = CollapseFreeBlock (bs[index := (bs ! index)\<lparr>blk_state := FREE\<rparr>]) index;
     Some (bs, index, h)
   }"

definition AllocInBlock :: "FencedAllocator \<Rightarrow> nat \<Rightarrow> u32 \<Rightarrow> (u32 \<times> FencedAllocator) option" where
  "AllocInBlock a index sz = do {
     let block = fa_blocks a ! index;
     dcheck (sz \<le> blk_size block);
     dcheck (blk_state block = FREE);
     let offset = blk_offset block;
     let a = a\<lparr>fa_bytes_in_use := fa_bytes_in_use a + ucast sz\<rparr>;
     if blk_size block = sz
     then Some (offset, a\<lparr>fa_blocks := (fa_blocks a)[index := block\<lparr>blk_state := IN_USE\<rparr>]\<rparr>)
     else
       let newblock = \<lparr>blk_state = FREE, blk_offset = offset + sz,
                       blk_size = blk_size block - sz, blk_token = kUnusedToken\<rparr>;
           bs = (fa_blocks a)[index := block\<lparr>blk_state := IN_USE, blk_size := sz\<rparr>]
       in Some (offset, a\<lparr>fa_blocks := insert_at (index + 1) newblock bs\<rparr>)
   }"

definition count_pending :: "Block list \<Rightarrow> nat" where
  "count_pending bs = length (filter (\<lambda>b. blk_state b = FREE_PENDING_TOKEN) bs)"

lemma count_pending_simps [simp]:
  "count_pending [] = 0"
  "count_pending (xs @ ys) = count_pending xs + count_pending ys"
  "count_pending (b # xs) =
     (if blk_state b = FREE_PENDING_TOKEN then 1 else 0) + count_pending xs"
  by (simp_all add: count_pending_def)

text \<open>Collapsing, seen as an equation on lists.\<close>

fun join_next :: "Block \<Rightarrow> Block list \<Rightarrow> Block list" where
  "join_next b [] = [b]"
| "join_next b (c # cs) =
     (if blk_state c = FREE then b\<lparr>blk_size := blk_size b + blk_size c\<rparr> # cs else b # c # cs)"

lemma join_next_length [simp]:
  "join_next b cs \<noteq> []" "0 < length (join_next b cs)" "length (join_next b cs) \<le> Suc (length cs)"
  by (cases cs; simp)+

lemma CollapseFreeBlock_Nil: "CollapseFreeBlock (b # cs) 0 = (join_next b cs, 0)"
  by (cases cs) (auto simp: CollapseFreeBlock_def erase_at_def)

lemma CollapseFreeBlock_snoc:
  assumes "blk_state b = FREE"
  shows "CollapseFreeBlock (as @ p # b # cs) (Suc (length as)) =
     (if blk_state p = FREE
      then (as @ join_next p (join_next b cs), length as)
      else (as @ p # join_next b cs, Suc (length as)))"
proof -
  have *: "(as @ p # b # cs) ! Suc (Suc (length as)) = cs ! 0" if "cs \<noteq> []"
    using that by (simp add: nth_append)
  have e: "erase_at (Suc (Suc (length as))) (as @ p # b' # c # ds) = as @ p # b' # ds" for b' c ds
    by (simp add: erase_at_def)
  show ?thesis
    using assms by (cases cs) (auto simp: CollapseFreeBlock_def Let_def e nth_append list_update_append)
qed

lemma CollapseFreeBlock_cases:
  assumes "i < length bs" "blk_state (bs ! i) = FREE"
  obtains (first) b cs where "bs = b # cs" "i = 0" "CollapseFreeBlock bs i = (join_next b cs, 0)"
  | (kept) as p b cs where "bs = as @ p # b # cs" "i = Suc (length as)" "blk_state p \<noteq> FREE"
      "CollapseFreeBlock bs i = (as @ p # join_next b cs, Suc (length as))"
  | (merged) as p b cs where "bs = as @ p # b # cs" "i = Suc (length as)" "blk_state p = FREE"
      "CollapseFreeBlock bs i = (as @ join_next p (join_next b cs), length as)"
proof (cases i)
  case 0
  with assms that(1) show ?thesis by (cases bs) (auto simp: CollapseFreeBlock_Nil)
next
  case (Suc k)
  with assms obtain as p r where r: "bs = as @ p # r" "length as = k"
    by (metis Suc_lessD split_at_index)
  with assms Suc obtain b cs where "r = b # cs" by (cases r) auto
  with r Suc that(2,3) assms(2) show ?thesis
    by (cases "blk_state p = FREE") (auto simp: CollapseFreeBlock_snoc)
qed

lemma count_pending_join_next:
  "blk_state b = FREE \<Longrightarrow> count_pending (join_next b cs) = count_pending cs"
  by (cases cs) auto

lemma count_pending_Collapse:
  assumes "CollapseFreeBlock bs i = (bs', i')" "i < length bs" "blk_state (bs ! i) = FREE"
  shows "count_pending bs' = count_pending bs"
  using assms(2,3)
  by (cases rule: CollapseFreeBlock_cases)
     (use assms in \<open>auto simp: count_pending_join_next nth_append\<close>)

lemma CollapseFreeBlock_measure:
  assumes "CollapseFreeBlock bs i = (bs', i')" "i < length bs" "blk_state (bs ! i) = FREE"
  shows "i' < length bs'" "length bs' - i' \<le> length bs - i"
proof -
  have "i' < length bs' \<and> length bs' - i' \<le> length bs - i"
    using assms(2,3)
  proof (cases rule: CollapseFreeBlock_cases)
    case (merged as p b cs)
    moreover have "length (join_next p (join_next b cs)) = length (join_next b cs)"
      using merged assms(3) by (cases cs) auto
    ultimately show ?thesis using assms(1) join_next_length(3) [of b cs] by auto
  qed (use assms(1) in auto)
  then show "i' < length bs'" "length bs' - i' \<le> length bs - i" by auto
qed

lemma WaitForTokenAndFreeBlock_measure:
  assumes "WaitForTokenAndFreeBlock wait bs i h = Some (bs', i', h')" "i < length bs"
  shows "i' < length bs'" "length bs' - i' \<le> length bs - i"
proof -
  from assms(1) have "CollapseFreeBlock (bs[i := (bs ! i)\<lparr>blk_state := FREE\<rparr>]) i = (bs', i')"
    by (cases "CollapseFreeBlock (bs[i := (bs ! i)\<lparr>blk_state := FREE\<rparr>]) i")
       (auto simp: WaitForTokenAndFreeBlock_def bind_eq_Some_conv split: if_splits)
  from CollapseFreeBlock_measure [OF this] assms(2)
  show "i' < length bs'" "length bs' - i' \<le> length bs - i" by auto
qed

text \<open>The second loop of \<open>Alloc\<close>: free the blocks that wait for a token, in order, until one fits.\<close>

function Alloc_pending_loop ::
  "(u32 \<Rightarrow> 'h \<Rightarrow> 'h option) \<Rightarrow> FencedAllocator \<Rightarrow> u32 \<Rightarrow> nat \<Rightarrow> 'h \<Rightarrow> (u32 \<times> FencedAllocator \<times> 'h) option" where
  "Alloc_pending_loop wait a sz i h =
     (if i < length (fa_blocks a) then
        if blk_state (fa_blocks a ! i) \<noteq> FREE_PENDING_TOKEN
        then Alloc_pending_loop wait a sz (i + 1) h
        else case WaitForTokenAndFreeBlock wait (fa_blocks a) i h of
               None \<Rightarrow> None
             | Some (bs, i', h') \<Rightarrow>
                 if sz \<le> blk_size (bs ! i')
                 then map_option (\<lambda>(off, a'). (off, a', h')) (AllocInBlock (a\<lparr>fa_blocks := bs\<rparr>) i' sz)
                 else Alloc_pending_loop wait (a\<lparr>fa_blocks := bs\<rparr>) sz (i' + 1) h'
      else Some (kInvalidOffset, a, h))"
  by pat_completeness auto
termination
proof (relation "measure (\<lambda>(wait, a, sz, i, h). length (fa_blocks a) - i)", goal_cases)
  case (3 wait a sz i h r bs r' i' h')
  then have "WaitForTokenAndFreeBlock wait (fa_blocks a) i h = Some (bs, i', h')" by simp
  from WaitForTokenAndFreeBlock_measure [OF this] 3 show ?case by auto
qed auto

declare Alloc_pending_loop.simps [simp del]

definition FencedAllocator_Alloc ::
  "(u32 \<Rightarrow> 'h \<Rightarrow> 'h option) \<Rightarrow> FencedAllocator \<Rightarrow> u32 \<Rightarrow> 'h \<Rightarrow> (u32 \<times> FencedAllocator \<times> 'h) option" where
  "FencedAllocator_Alloc wait a sz h =
     (if sz = 0 then Some (kInvalidOffset, a, h)
      else
        let sz = RoundUp sz in
        case find_index (\<lambda>b. blk_state b = FREE \<and> sz \<le> blk_size b) (fa_blocks a) of
          Some i \<Rightarrow> map_option (\<lambda>(off, a'). (off, a', h)) (AllocInBlock a i sz)
        | None \<Rightarrow> Alloc_pending_loop wait a sz 0 h)"

text \<open>
  \<open>std::lower_bound\<close> returns the first element that is not ordered before the key; the blocks
  are ordered by offset.
\<close>

definition GetBlockByOffset :: "Block list \<Rightarrow> u32 \<Rightarrow> nat option" where
  "GetBlockByOffset bs offset = do {
     let it = length (takeWhile (\<lambda>b. blk_offset b < offset) bs);
     dcheck (it \<noteq> length bs \<and> blk_offset (bs ! it) = offset);
     Some it
   }"

definition FencedAllocator_Free :: "FencedAllocator \<Rightarrow> u32 \<Rightarrow> FencedAllocator option" where
  "FencedAllocator_Free a offset = do {
     index \<leftarrow> GetBlockByOffset (fa_blocks a) offset;
     let block = fa_blocks a ! index;
     dcheck (blk_state block \<noteq> FREE);
     let a = (if blk_state block = IN_USE
              then a\<lparr>fa_bytes_in_use := fa_bytes_in_use a - ucast (blk_size block)\<rparr> else a);
     let bs = (fa_blocks a)[index := block\<lparr>blk_state := FREE\<rparr>];
     Some (a\<lparr>fa_blocks := fst (CollapseFreeBlock bs index)\<rparr>)
   }"

definition FencedAllocator_FreePendingToken ::
  "FencedAllocator \<Rightarrow> u32 \<Rightarrow> u32 \<Rightarrow> FencedAllocator option" where
  "FencedAllocator_FreePendingToken a offset token = do {
     index \<leftarrow> GetBlockByOffset (fa_blocks a) offset;
     let block = fa_blocks a ! index;
     let a = (if blk_state block = IN_USE
              then a\<lparr>fa_bytes_in_use := fa_bytes_in_use a - ucast (blk_size block)\<rparr> else a);
     Some (a\<lparr>fa_blocks := (fa_blocks a)[index :=
                block\<lparr>blk_state := FREE_PENDING_TOKEN, blk_token := token\<rparr>]\<rparr>)
   }"

text \<open>The loop of \<open>FreeUnused\<close>; tokens are compared as signed integers.\<close>

definition token_read :: "u32 \<Rightarrow> u32 \<Rightarrow> bool" where
  "token_read token last_token_read \<longleftrightarrow> sint token \<le> sint last_token_read"

function FreeUnused_loop :: "u32 \<Rightarrow> Block list \<Rightarrow> nat \<Rightarrow> Block list" where
  "FreeUnused_loop last_token_read bs i =
     (if i < length bs then
        if blk_state (bs ! i) = FREE_PENDING_TOKEN \<and> token_read (blk_token (bs ! i)) last_token_read
        then (case CollapseFreeBlock (bs[i := (bs ! i)\<lparr>blk_state := FREE\<rparr>]) i of
                (bs', i') \<Rightarrow> FreeUnused_loop last_token_read bs' i')
        else FreeUnused_loop last_token_read bs (i + 1)
      else bs)"
  by pat_completeness auto

termination
proof (relation "measure (\<lambda>(t, bs, i). count_pending bs + (length bs - i))", goal_cases)
  case (2 t bs i bs' i')
  then have c: "CollapseFreeBlock (bs[i := (bs ! i)\<lparr>blk_state := FREE\<rparr>]) i = (bs', i')" by simp
  from 2 obtain as b cs where bs: "bs = as @ b # cs" "length as = i" "blk_state b = FREE_PENDING_TOKEN"
    by (metis split_at_index)
  have "count_pending bs' = count_pending (bs[i := (bs ! i)\<lparr>blk_state := FREE\<rparr>])"
    using count_pending_Collapse [OF c] 2 by simp
  also have "\<dots> < count_pending bs" using bs by (auto simp: list_update_append)
  finally show ?case using CollapseFreeBlock_measure(2) [OF c] 2(1) by (simp add: c)
qed auto

declare FreeUnused_loop.simps [simp del]

definition FencedAllocator_FreeUnused ::
  "('h \<Rightarrow> u32 \<times> 'h) \<Rightarrow> FencedAllocator \<Rightarrow> 'h \<Rightarrow> FencedAllocator \<times> 'h" where
  "FencedAllocator_FreeUnused last_token_read a h =
     (let (last, h) = last_token_read h
      in (a\<lparr>fa_blocks := FreeUnused_loop last (fa_blocks a) 0\<rparr>, h))"

fun largest_free_loop :: "Block list \<Rightarrow> u32 \<Rightarrow> u32" where
  "largest_free_loop [] max_size = max_size"
| "largest_free_loop (b # bs) max_size =
     largest_free_loop bs (if blk_state b = FREE then max max_size (blk_size b) else max_size)"

definition GetLargestFreeSize ::
  "('h \<Rightarrow> u32 \<times> 'h) \<Rightarrow> FencedAllocator \<Rightarrow> 'h \<Rightarrow> u32 \<times> FencedAllocator \<times> 'h" where
  "GetLargestFreeSize last_token_read a h =
     (let (a, h) = FencedAllocator_FreeUnused last_token_read a h
      in (largest_free_loop (fa_blocks a) 0, a, h))"

fun largest_free_or_pending_loop :: "Block list \<Rightarrow> u32 \<Rightarrow> u32 \<Rightarrow> u32" where
  "largest_free_or_pending_loop [] max_size current_size = max max_size current_size"
| "largest_free_or_pending_loop (b # bs) max_size current_size =
     (if blk_state b = IN_USE
      then largest_free_or_pending_loop bs (max max_size current_size) 0
      else largest_free_or_pending_loop bs max_size (current_size + blk_size b))"

definition GetLargestFreeOrPendingSize :: "FencedAllocator \<Rightarrow> u32" where
  "GetLargestFreeOrPendingSize a = largest_free_or_pending_loop (fa_blocks a) 0 0"

fun CheckConsistency_loop :: "Block list \<Rightarrow> bool" where
  "CheckConsistency_loop (current # next # bs) =
     (if blk_offset next \<le> blk_offset current then False
      else if blk_offset next \<noteq> blk_offset current + blk_size current then False
      else if blk_state current = FREE \<and> blk_state next = FREE then False
      else CheckConsistency_loop (next # bs))"
| "CheckConsistency_loop _ = True"

definition CheckConsistency :: "FencedAllocator \<Rightarrow> bool" where
  "CheckConsistency a =
     (if length (fa_blocks a) < 1 then False else CheckConsistency_loop (fa_blocks a))"

definition FencedAllocator_InUse :: "FencedAllocator \<Rightarrow> bool" where
  "FencedAllocator_InUse a \<longleftrightarrow>
     length (fa_blocks a) \<noteq> 1 \<or> blk_state (fa_blocks a ! 0) \<noteq> FREE"

text \<open>The destructor waits for every pending block.\<close>

function FencedAllocator_delete_loop ::
  "(u32 \<Rightarrow> 'h \<Rightarrow> 'h option) \<Rightarrow> Block list \<Rightarrow> nat \<Rightarrow> 'h \<Rightarrow> (Block list \<times> 'h) option" where
  "FencedAllocator_delete_loop wait bs i h =
     (if i < length bs then
        if blk_state (bs ! i) = FREE_PENDING_TOKEN
        then (case WaitForTokenAndFreeBlock wait bs i h of
                None \<Rightarrow> None
              | Some (bs', i', h') \<Rightarrow> FencedAllocator_delete_loop wait bs' (i' + 1) h')
        else FencedAllocator_delete_loop wait bs (i + 1) h
      else Some (bs, h))"
  by pat_completeness auto
termination
proof (relation "measure (\<lambda>(wait, bs, i, h). length bs - i)", goal_cases)
  case (2 wait bs i h r bs' r' i' h')
  then have "WaitForTokenAndFreeBlock wait bs i h = Some (bs', i', h')" by simp
  from WaitForTokenAndFreeBlock_measure [OF this] 2 show ?case by auto
qed auto

declare FencedAllocator_delete_loop.simps [simp del]

definition FencedAllocator_delete ::
  "(u32 \<Rightarrow> 'h \<Rightarrow> 'h option) \<Rightarrow> FencedAllocator \<Rightarrow> 'h \<Rightarrow> (FencedAllocator \<times> 'h) option" where
  "FencedAllocator_delete wait a h =
     map_option (\<lambda>(bs, h). (a\<lparr>fa_blocks := bs\<rparr>, h)) (FencedAllocator_delete_loop wait (fa_blocks a) 0 h)"

text \<open>
  \<open>FencedAllocatorWrapper\<close>: the same interface with pointers into the memory at \<open>base\<close>;
  \<open>NULL\<close> is \<^const>\<open>None\<close>.
\<close>

definition GetPointer :: "Ptr \<Rightarrow> u32 \<Rightarrow> Ptr option" where
  "GetPointer base offset = (if offset = kInvalidOffset then None else Some (ptr_add base (unat offset)))"

definition GetOffset :: "Ptr \<Rightarrow> Ptr option \<Rightarrow> u32" where
  "GetOffset base pointer =
     (case pointer of
        Some p \<Rightarrow> word_of_int (int (snd p) - int (snd base))
      | None \<Rightarrow> kInvalidOffset)"

definition FAW_Alloc ::
  "(u32 \<Rightarrow> 'h \<Rightarrow> 'h option) \<Rightarrow> Ptr \<Rightarrow> FencedAllocator \<Rightarrow> u32 \<Rightarrow> 'h \<Rightarrow>
     (Ptr option \<times> FencedAllocator \<times> 'h) option" where
  "FAW_Alloc wait base a sz h =
     map_option (\<lambda>(offset, a, h). (GetPointer base offset, a, h)) (FencedAllocator_Alloc wait a sz h)"

definition FAW_Free :: "Ptr \<Rightarrow> FencedAllocator \<Rightarrow> Ptr option \<Rightarrow> FencedAllocator option" where
  "FAW_Free base a pointer = do {
     dcheck (pointer \<noteq> None);
     FencedAllocator_Free a (GetOffset base pointer)
   }"

definition FAW_FreePendingToken ::
  "Ptr \<Rightarrow> FencedAllocator \<Rightarrow> Ptr option \<Rightarrow> u32 \<Rightarrow> FencedAllocator option" where
  "FAW_FreePendingToken base a pointer token = do {
     dcheck (pointer \<noteq> None);
     FencedAllocator_FreePendingToken a (GetOffset base pointer) token
   }"

subsection \<open>Well-formedness and the abstract view\<close>

text \<open>
  \<open>tiles lo bs hi\<close>: the blocks cover the interval from \<open>lo\<close> to \<open>hi\<close> without gap or overlap,
  each is non-empty and a multiple of the alignment.
\<close>

fun tiles :: "nat \<Rightarrow> Block list \<Rightarrow> nat \<Rightarrow> bool" where
  "tiles lo [] hi \<longleftrightarrow> lo = hi"
| "tiles lo (b # bs) hi \<longleftrightarrow>
     unat (blk_offset b) = lo \<and> 0 < unat (blk_size b) \<and> 16 dvd unat (blk_size b) \<and>
     tiles (lo + unat (blk_size b)) bs hi"

definition not_both_free :: "Block \<Rightarrow> Block \<Rightarrow> bool" where
  "not_both_free b c \<longleftrightarrow> \<not> (blk_state b = FREE \<and> blk_state c = FREE)"

definition in_use_bytes :: "Block list \<Rightarrow> nat" where
  "in_use_bytes bs = sum_list (map (unat \<circ> blk_size) (filter (\<lambda>b. blk_state b = IN_USE) bs))"

definition fa_wf :: "nat \<Rightarrow> FencedAllocator \<Rightarrow> bool" where
  "fa_wf cap a \<longleftrightarrow>
     0 < cap \<and> cap < 2 ^ 32 \<and> tiles 0 (fa_blocks a) cap \<and>
     successively not_both_free (fa_blocks a) \<and>
     unat (fa_bytes_in_use a) = in_use_bytes (fa_blocks a)"

text \<open>
  What a client can rely on: the allocated regions (start and length) and the regions that
  were freed behind a token that has not been waited for.
\<close>

definition live :: "Block list \<Rightarrow> (nat \<times> nat) set" where
  "live bs = {(unat (blk_offset b), unat (blk_size b)) | b. b \<in> set bs \<and> blk_state b = IN_USE}"

definition pending :: "Block list \<Rightarrow> (nat \<times> nat \<times> u32) set" where
  "pending bs = {(unat (blk_offset b), unat (blk_size b), blk_token b) | b.
                  b \<in> set bs \<and> blk_state b = FREE_PENDING_TOKEN}"

lemma live_simps [simp]:
  "live [] = {}"
  "live (xs @ ys) = live xs \<union> live ys"
  "live (b # xs) = (if blk_state b = IN_USE then {(unat (blk_offset b), unat (blk_size b))} else {}) \<union> live xs"
  by (auto simp: live_def)

lemma pending_simps [simp]:
  "pending [] = {}"
  "pending (xs @ ys) = pending xs \<union> pending ys"
  "pending (b # xs) =
     (if blk_state b = FREE_PENDING_TOKEN
      then {(unat (blk_offset b), unat (blk_size b), blk_token b)} else {}) \<union> pending xs"
  by (auto simp: pending_def)

lemma in_use_bytes_simps [simp]:
  "in_use_bytes [] = 0"
  "in_use_bytes (xs @ ys) = in_use_bytes xs + in_use_bytes ys"
  "in_use_bytes (b # xs) = (if blk_state b = IN_USE then unat (blk_size b) else 0) + in_use_bytes xs"
  by (simp_all add: in_use_bytes_def)

lemma tiles_append: "tiles lo (xs @ ys) hi \<longleftrightarrow> (\<exists>m. tiles lo xs m \<and> tiles m ys hi)"
  by (induction xs arbitrary: lo) auto

lemma tiles_le: "tiles lo bs hi \<Longrightarrow> lo \<le> hi"
  by (induction bs arbitrary: lo) force+

lemma tiles_block:
  "tiles lo bs hi \<Longrightarrow> b \<in> set bs \<Longrightarrow>
     lo \<le> unat (blk_offset b) \<and> unat (blk_offset b) + unat (blk_size b) \<le> hi \<and>
     0 < unat (blk_size b) \<and> 16 dvd unat (blk_size b)"
proof (induction bs arbitrary: lo)
  case (Cons c bs)
  show ?case
  proof (cases "b = c")
    case True
    with Cons.prems tiles_le [of "lo + unat (blk_size c)" bs hi] show ?thesis by auto
  next
    case False
    with Cons show ?thesis by fastforce
  qed
qed simp

lemma in_use_bytes_le: "tiles lo bs hi \<Longrightarrow> in_use_bytes bs + lo \<le> hi"
  by (induction bs arbitrary: lo) (force simp: tiles_le)+

lemma tiles_offset_dvd: "tiles lo bs hi \<Longrightarrow> 16 dvd lo \<Longrightarrow> b \<in> set bs \<Longrightarrow> 16 dvd unat (blk_offset b)"
  by (induction bs arbitrary: lo) auto

text \<open>Two different regions of a tiling are disjoint.\<close>

definition region :: "nat \<times> nat \<Rightarrow> nat set" where
  "region r = {fst r ..< fst r + snd r}"

lemma region_disjoint_iff:
  "region (p, n) \<inter> region (q, m) = {} \<longleftrightarrow> n = 0 \<or> m = 0 \<or> p + n \<le> q \<or> q + m \<le> p"
proof
  assume d: "region (p, n) \<inter> region (q, m) = {}"
  show "n = 0 \<or> m = 0 \<or> p + n \<le> q \<or> q + m \<le> p"
  proof (rule ccontr)
    assume "\<not> ?thesis"
    then have "max p q \<in> region (p, n) \<inter> region (q, m)" by (auto simp: region_def)
    with d show False by simp
  qed
qed (auto simp: region_def)

lemma tiles_disjoint:
  assumes "tiles lo (as @ b # cs) hi" "c \<in> set as \<union> set cs"
  shows "region (unat (blk_offset b), unat (blk_size b)) \<inter>
         region (unat (blk_offset c), unat (blk_size c)) = {}"
proof -
  from assms(1) obtain m where m: "tiles lo as m" "unat (blk_offset b) = m"
    "tiles (m + unat (blk_size b)) cs hi" by (auto simp: tiles_append)
  from assms(2) show ?thesis
  proof
    assume "c \<in> set as"
    with m(1) tiles_block [of lo as m c] m(2) show ?thesis by (auto simp: region_def)
  next
    assume "c \<in> set cs"
    with m(3) tiles_block [of _ cs hi c] m(2) show ?thesis by (force simp: region_def)
  qed
qed

subsection \<open>Collapsing keeps the structure\<close>

lemma tiles_join_next:
  assumes "tiles lo (b # cs) hi" "hi < 2 ^ 32"
  shows "tiles lo (join_next b cs) hi"
proof (cases cs)
  case (Cons c ds)
  with assms tiles_le [of _ ds hi] have "unat (blk_size b + blk_size c) = unat (blk_size b) + unat (blk_size c)"
    by (intro unat_add_less) fastforce
  with assms Cons show ?thesis by (auto simp: add.assoc)
qed (use assms in simp)

lemma join_next_props:
  assumes "blk_state b = FREE"
  shows "live (join_next b cs) = live cs" "pending (join_next b cs) = pending cs"
    "in_use_bytes (join_next b cs) = in_use_bytes cs"
    "successively not_both_free cs \<Longrightarrow> successively not_both_free (join_next b cs)"
    "blk_state (hd (join_next b cs)) = FREE" "blk_offset (hd (join_next b cs)) = blk_offset b"
  using assms by (cases cs; auto simp: not_both_free_def successively_Cons; fail)+

lemma hd_join_next_size:
  assumes "tiles lo (b # cs) hi" "hi < 2 ^ 32"
  shows "unat (blk_size b) \<le> unat (blk_size (hd (join_next b cs)))"
proof (cases cs)
  case (Cons c ds)
  with assms tiles_le [of _ ds hi] have "unat (blk_size b + blk_size c) = unat (blk_size b) + unat (blk_size c)"
    by (intro unat_add_less) fastforce
  with Cons show ?thesis by simp
qed simp

lemma not_both_free_append_join:
  assumes "blk_state b = FREE" "successively not_both_free as" "successively not_both_free cs"
    "as = [] \<or> blk_state (last as) \<noteq> FREE"
  shows "successively not_both_free (as @ join_next b cs)"
  using assms join_next_props(4) [OF assms(1), of cs]
  by (auto simp: successively_append_iff not_both_free_def)

lemma tiles_append_join:
  assumes "tiles lo (as @ b # cs) hi" "hi < 2 ^ 32"
  shows "tiles lo (as @ join_next b cs) hi"
  using assms tiles_join_next [of _ b cs hi] by (auto simp: tiles_append)

lemma nth_append_join [simp]: "(as @ join_next b cs) ! length as = hd (join_next b cs)"
  by (simp add: nth_append hd_conv_nth)

text \<open>
  The contract of \<open>CollapseFreeBlock\<close>: the block at \<open>i\<close> has just become free, every other pair
  of neighbours is fine, and after the call no two neighbours are free.
\<close>

lemma CollapseFreeBlock_correct:
  assumes c: "CollapseFreeBlock bs i = (bs', i')" and i: "i < length bs"
    and free: "blk_state (bs ! i) = FREE"
    and t: "tiles lo bs hi" "hi < 2 ^ 32"
    and adj: "successively not_both_free (take i bs)" "successively not_both_free (drop (Suc i) bs)"
  shows "tiles lo bs' hi \<and> successively not_both_free bs' \<and>
    live bs' = live bs \<and> pending bs' = pending bs \<and> in_use_bytes bs' = in_use_bytes bs \<and>
    blk_state (bs' ! i') = FREE \<and> unat (blk_size (bs ! i)) \<le> unat (blk_size (bs' ! i'))"
  using i free
proof (cases rule: CollapseFreeBlock_cases)
  case (first b cs)
  then have b: "blk_state b = FREE" using free by simp
  have "(bs' ! 0) = hd (join_next b cs)" "bs' = [] @ join_next b cs" "i' = 0"
    using first c by (auto simp: hd_conv_nth)
  with first b t adj show ?thesis
    using join_next_props [OF b, of cs] tiles_append_join [of lo "[]" b cs hi]
      not_both_free_append_join [OF b, of "[]" cs] hd_join_next_size [of lo b cs hi] by simp
next
  case (kept as p b cs)
  then have b: "blk_state b = FREE" and bs': "bs' = (as @ [p]) @ join_next b cs" "i' = length (as @ [p])"
    using free c by auto
  from kept t obtain m where "tiles m (b # cs) hi"
    by (metis append_Cons append_Nil append_assoc tiles_append)
  from hd_join_next_size [OF this t(2)] kept bs' t adj b show ?thesis
    using join_next_props [OF b, of cs] tiles_append_join [of lo "as @ [p]" b cs hi]
      not_both_free_append_join [OF b, of "as @ [p]" cs] nth_append_join [of "as @ [p]" b cs]
    by simp
next
  case (merged as p b cs)
  let ?js = "join_next b cs"
  from merged have b: "blk_state b = FREE" and p: "blk_state p = FREE"
    and bs': "bs' = as @ join_next p ?js" "i' = length as" using free c by auto
  have 1: "tiles lo ((as @ [p]) @ ?js) hi"
    using tiles_append_join [of lo "as @ [p]" b cs hi] merged t by simp
  have as: "successively not_both_free as" "as = [] \<or> blk_state (last as) \<noteq> FREE"
    using merged adj p by (auto simp: successively_append_iff not_both_free_def)
  have js: "successively not_both_free ?js" using merged adj join_next_props(4) [OF b] by simp
  from 1 obtain m k where m: "tiles m (p # ?js) hi" "tiles k ?js hi" by (auto simp: tiles_append)
  from m(2) t(2) tiles_join_next merged t(1) obtain k' where "tiles k' (b # cs) hi"
    by (metis append_Cons append_Nil append_assoc tiles_append)
  then have "unat (blk_size b) \<le> unat (blk_size (hd ?js))" using t(2) by (rule hd_join_next_size)
  also have "\<dots> \<le> unat (blk_size (hd (join_next p ?js)))"
    using m(1) t(2) join_next_props(5) [OF b, of cs] tiles_le
    by (cases ?js) (fastforce simp: unat_add_less)+
  finally show ?thesis
    using merged bs' 1 b p t(2) as js tiles_append_join [of lo as p ?js hi]
      not_both_free_append_join [OF p, of as ?js]
      join_next_props [OF b, of cs] join_next_props [OF p, of ?js] by simp
qed

subsection \<open>Rounding\<close>

lemma alignment_mask: "kAllocAlignment - 1 = mask 4"
  by (simp add: kAllocAlignment_def mask_eq_exp_minus_1)

lemma unat_RoundDown: "unat (RoundDown sz) = unat sz div 16 * 16"
  by (simp add: RoundDown_def alignment_mask unat_and_not_mask)

lemma unat_RoundUp:
  assumes "unat sz \<le> 0xFFFFFFF0"
  shows "unat (RoundUp sz) = (unat sz + 15) div 16 * 16"
proof -
  have "unat (sz + 15) = unat sz + 15" using assms by (subst unat_add_less) auto
  then show ?thesis
    by (simp add: RoundUp_def alignment_mask unat_and_not_mask)
       (simp add: mask_eq_exp_minus_1)
qed

lemma RoundUp_props:
  assumes "unat sz \<le> 0xFFFFFFF0"
  shows "unat sz \<le> unat (RoundUp sz)" "16 dvd unat (RoundUp sz)" "unat (RoundUp sz) < unat sz + 16"
    "sz \<noteq> 0 \<Longrightarrow> 0 < unat (RoundUp sz)"
proof -
  show 1: "unat sz \<le> unat (RoundUp sz)" and "unat (RoundUp sz) < unat sz + 16"
    using unat_RoundUp [OF assms] by linarith+
  show "16 dvd unat (RoundUp sz)" using unat_RoundUp [OF assms] by simp
  assume "sz \<noteq> 0"
  then have "0 < unat sz" by (simp add: unat_gt_0)
  with 1 show "0 < unat (RoundUp sz)" by linarith
qed

subsection \<open>Allocating in a free block\<close>

definition fresh_in :: "nat \<times> nat \<Rightarrow> Block list \<Rightarrow> bool" where
  "fresh_in r bs \<longleftrightarrow>
     (\<forall>off n. (off, n) \<in> live bs \<longrightarrow> region r \<inter> region (off, n) = {}) \<and>
     (\<forall>off n t. (off, n, t) \<in> pending bs \<longrightarrow> region r \<inter> region (off, n) = {})"

lemma fresh_in_block:
  assumes t: "tiles lo (as @ b # cs) hi" and b: "blk_state b = FREE" and n: "n \<le> unat (blk_size b)"
  shows "fresh_in (unat (blk_offset b), n) (as @ b # cs)"
proof -
  have "region (unat (blk_offset b), n) \<inter> region (unat (blk_offset c), unat (blk_size c)) = {}"
    if "c \<in> set (as @ b # cs)" "blk_state c \<noteq> FREE" for c
  proof -
    from that b have "c \<in> set as \<union> set cs" by auto
    from tiles_disjoint [OF t this] n show ?thesis by (auto simp: region_def)
  qed
  then show ?thesis
    unfolding fresh_in_def live_def pending_def by (fastforce simp: b)
qed

lemma AllocInBlock_eq:
  assumes "fa_blocks a = as @ b # cs" "length as = i" "blk_state b = FREE" "sz \<le> blk_size b"
  shows "AllocInBlock a i sz =
    Some (blk_offset b, a\<lparr>fa_bytes_in_use := fa_bytes_in_use a + ucast sz,
      fa_blocks := as @ b\<lparr>blk_state := IN_USE, blk_size := sz\<rparr> #
        (if blk_size b = sz then cs
         else \<lparr>blk_state = FREE, blk_offset = blk_offset b + sz, blk_size = blk_size b - sz,
                blk_token = kUnusedToken\<rparr> # cs)\<rparr>)"
  using assms by (auto simp: AllocInBlock_def list_update_append Let_def)

lemma bytes_in_use_less: "fa_wf cap a \<Longrightarrow> unat (fa_bytes_in_use a) < 2 ^ 32"
  using in_use_bytes_le [of 0 "fa_blocks a" cap] by (simp add: fa_wf_def)

lemma bytes_in_use_add:
  assumes "fa_wf cap a"
  shows "unat (fa_bytes_in_use a + ucast (sz :: u32)) = unat (fa_bytes_in_use a) + unat sz"
proof -
  from add_strict_mono [OF bytes_in_use_less [OF assms] unat_u32_less [of sz]]
  have "unat (fa_bytes_in_use a) + unat (ucast sz :: u64) < 2 ^ LENGTH(64)" by simp
  then show ?thesis by (simp add: unat_add_less)
qed

lemma AllocInBlock_correct:
  assumes wf: "fa_wf cap a" and i: "i < length (fa_blocks a)"
    and free: "blk_state (fa_blocks a ! i) = FREE" and sz: "sz \<le> blk_size (fa_blocks a ! i)"
    and pos: "0 < unat sz" "16 dvd unat sz"
  obtains off a' where "AllocInBlock a i sz = Some (off, a')" "fa_wf cap a'"
    "live (fa_blocks a') = insert (unat off, unat sz) (live (fa_blocks a))"
    "pending (fa_blocks a') = pending (fa_blocks a)"
    "unat off + unat sz \<le> cap" "16 dvd unat off" "fresh_in (unat off, unat sz) (fa_blocks a)"
proof -
  from i obtain as b cs where bs: "fa_blocks a = as @ b # cs" "length as = i" and bi: "b = fa_blocks a ! i"
    by (rule split_at_index)
  have b: "blk_state b = FREE" "sz \<le> blk_size b" using free sz by (simp_all add: bi)
  then have bn: "unat sz \<le> unat (blk_size b)" by (simp add: word_le_nat_alt)
  from wf bs obtain m where cap: "cap < 2 ^ 32" "0 < cap" and m: "tiles 0 as m" "unat (blk_offset b) = m"
    "0 < unat (blk_size b)" "16 dvd unat (blk_size b)" "tiles (m + unat (blk_size b)) cs cap"
    by (auto simp: fa_wf_def tiles_append)
  have le: "m + unat (blk_size b) \<le> cap" using m(5) by (rule tiles_le)
  have adj: "successively not_both_free (as @ b # cs)" using wf bs by (simp add: fa_wf_def)
  have dvd: "16 dvd unat (blk_offset b)"
    using wf bs tiles_offset_dvd [of 0 "fa_blocks a" cap b] by (simp add: fa_wf_def)
  have fr: "fresh_in (unat (blk_offset b), unat sz) (fa_blocks a)"
    using fresh_in_block [of 0 as b cs cap "unat sz"] wf b bn bs by (simp add: fa_wf_def)
  obtain a' where a': "AllocInBlock a i sz = Some (blk_offset b, a')"
    and eq: "a' = a\<lparr>fa_bytes_in_use := fa_bytes_in_use a + ucast sz,
      fa_blocks := as @ b\<lparr>blk_state := IN_USE, blk_size := sz\<rparr> #
        (if blk_size b = sz then cs
         else \<lparr>blk_state = FREE, blk_offset = blk_offset b + sz, blk_size = blk_size b - sz,
                blk_token = kUnusedToken\<rparr> # cs)\<rparr>"
    using AllocInBlock_eq [OF bs b] by blast
  have n: "unat (blk_offset b + sz) = m + unat sz"
    "unat (blk_size b - sz) = unat (blk_size b) - unat sz"
    using m le bn cap by (auto simp: unat_add_less unat_sub_le)
  have ne: "unat sz < unat (blk_size b)" if "blk_size b \<noteq> sz"
    using that bn by (metis order_le_less word_unat_eq_iff)
  have "fa_wf cap a'"
    using wf bs b m cap bytes_in_use_add [OF wf, of sz] adj n ne pos bn
    by (auto simp: eq fa_wf_def tiles_append successively_append_iff successively_Cons not_both_free_def
        dvd_diff_nat)
  then show thesis using that [OF a'] bs b m le bn dvd fr by (auto simp: eq)
qed

subsection \<open>Allocation, over any helper that keeps the token contract\<close>

text \<open>
  What \<open>Alloc\<close> promises: nothing that is allocated moves or disappears, the new region lies in
  the buffer, is aligned and overlaps no allocated region, and a region that waits for a token
  is reused only if that token has passed.
\<close>

definition alloc_post ::
  "('h \<Rightarrow> u32 \<Rightarrow> bool) \<Rightarrow> nat \<Rightarrow> u32 \<Rightarrow> FencedAllocator \<Rightarrow> u32 \<Rightarrow> FencedAllocator \<Rightarrow> 'h \<Rightarrow> bool" where
  "alloc_post passed cap sz a off a' h' \<longleftrightarrow>
     fa_wf cap a' \<and>
     pending (fa_blocks a') \<subseteq> pending (fa_blocks a) \<and>
     (\<forall>o' n t. (o', n, t) \<in> pending (fa_blocks a) - pending (fa_blocks a') \<longrightarrow> passed h' t) \<and>
     (if off = kInvalidOffset then live (fa_blocks a') = live (fa_blocks a)
      else
        live (fa_blocks a') = insert (unat off, unat sz) (live (fa_blocks a)) \<and>
        unat off + unat sz \<le> cap \<and> 16 dvd unat off \<and>
        (\<forall>o' n. (o', n) \<in> live (fa_blocks a) \<longrightarrow> region (unat off, unat sz) \<inter> region (o', n) = {}) \<and>
        (\<forall>o' n t. (o', n, t) \<in> pending (fa_blocks a) \<longrightarrow>
           passed h' t \<or> region (unat off, unat sz) \<inter> region (o', n) = {}))"

lemma kInvalidOffset_not_allocated:
  assumes "fa_wf cap a" "unat off + unat sz \<le> cap" "0 < unat sz"
  shows "off \<noteq> kInvalidOffset"
  using assms by (auto simp: fa_wf_def kInvalidOffset_def)

lemma alloc_post_in_block:
  assumes "fa_wf cap a" "i < length (fa_blocks a)" "blk_state (fa_blocks a ! i) = FREE"
    "sz \<le> blk_size (fa_blocks a ! i)" "0 < unat sz" "16 dvd unat sz"
  shows "\<exists>off a'. AllocInBlock a i sz = Some (off, a') \<and> off \<noteq> kInvalidOffset \<and>
    (\<forall>h'. alloc_post passed cap sz a off a' h')"
proof -
  from assms obtain off a' where *: "AllocInBlock a i sz = Some (off, a')" "fa_wf cap a'"
    "live (fa_blocks a') = insert (unat off, unat sz) (live (fa_blocks a))"
    "pending (fa_blocks a') = pending (fa_blocks a)"
    "unat off + unat sz \<le> cap" "16 dvd unat off" "fresh_in (unat off, unat sz) (fa_blocks a)"
    by (rule AllocInBlock_correct)
  have "alloc_post passed cap sz a off a' h'" for h'
    using * kInvalidOffset_not_allocated [OF *(2,5) assms(5)]
    by (simp add: alloc_post_def fresh_in_def) blast
  with * kInvalidOffset_not_allocated [OF *(2,5) assms(5)] show ?thesis by blast
qed

text \<open>A step that turns one pending block into a free one composes with the rest of the search.\<close>

lemma alloc_post_step:
  assumes "live (fa_blocks a1) = live (fa_blocks a)"
    and "pending (fa_blocks a) = insert (o1, n1, t1) (pending (fa_blocks a1))"
    and "passed h' t1"
    and "alloc_post passed cap sz a1 off a' h'"
  shows "alloc_post passed cap sz a off a' h'"
  using assms unfolding alloc_post_def by auto

context token_fence
begin

lemma wait_and_free:
  assumes wf: "fa_wf cap a" and h: "h_inv h" and i: "i < length (fa_blocks a)"
    and st: "blk_state (fa_blocks a ! i) = FREE_PENDING_TOKEN"
  obtains bs' i' h' where "WaitForTokenAndFreeBlock wait (fa_blocks a) i h = Some (bs', i', h')"
    "h_inv h'" "\<forall>u. passed h u \<longrightarrow> passed h' u" "passed h' (blk_token (fa_blocks a ! i))"
    "fa_wf cap (a\<lparr>fa_blocks := bs'\<rparr>)" "i' < length bs'" "blk_state (bs' ! i') = FREE"
    "live bs' = live (fa_blocks a)"
    "pending (fa_blocks a) = insert (unat (blk_offset (fa_blocks a ! i)),
        unat (blk_size (fa_blocks a ! i)), blk_token (fa_blocks a ! i)) (pending bs')"
proof -
  from i obtain as b cs where bs: "fa_blocks a = as @ b # cs" "length as = i" and bi: "b = fa_blocks a ! i"
    by (rule split_at_index)
  have b: "blk_state b = FREE_PENDING_TOKEN" using st by (simp add: bi)
  let ?bs = "as @ b\<lparr>blk_state := FREE\<rparr> # cs"
  obtain h' where h': "wait (blk_token b) h = Some h'" using wait_total [OF h] by blast
  obtain bs' i' where c: "CollapseFreeBlock ?bs i = (bs', i')" by fastforce
  have upd: "(fa_blocks a)[i := (fa_blocks a ! i)\<lparr>blk_state := FREE\<rparr>] = ?bs"
    using bs by (auto simp: list_update_append)
  have "tiles 0 ?bs cap" "cap < 2 ^ 32" "successively not_both_free (take i ?bs)"
    "successively not_both_free (drop (Suc i) ?bs)"
    using wf bs by (auto simp: fa_wf_def tiles_append successively_append_iff successively_Cons)
  note cc = CollapseFreeBlock_correct [OF c _ _ this]
  have "fa_wf cap (a\<lparr>fa_blocks := bs'\<rparr>)" "live bs' = live (fa_blocks a)" "blk_state (bs' ! i') = FREE"
    "pending (fa_blocks a) = insert (unat (blk_offset b), unat (blk_size b), blk_token b) (pending bs')"
    using cc wf bs b by (auto simp: fa_wf_def nth_append)
  moreover have "WaitForTokenAndFreeBlock wait (fa_blocks a) i h = Some (bs', i', h')"
    using st h' c by (simp add: WaitForTokenAndFreeBlock_def upd bi)
  moreover have "i' < length bs'"
    using CollapseFreeBlock_measure(1) [OF c] bs by (simp add: nth_append)
  ultimately show thesis
    using that wait_inv [OF h h'] wait_mono [OF h h'] wait_passed [OF h h'] by (simp add: bi)
qed

lemma Alloc_pending_loop_post:
  assumes "fa_wf cap a" "h_inv h" "0 < unat sz" "16 dvd unat sz"
  shows "\<exists>off a' h'. Alloc_pending_loop wait a sz i h = Some (off, a', h') \<and> h_inv h' \<and>
           (\<forall>u. passed h u \<longrightarrow> passed h' u) \<and> alloc_post passed cap sz a off a' h'"
  using assms
proof (induction "length (fa_blocks a) - i" arbitrary: a i h rule: less_induct)
  case less
  note wf = \<open>fa_wf cap a\<close> and h = \<open>h_inv h\<close> and sz = \<open>0 < unat sz\<close> \<open>16 dvd unat sz\<close>
  consider (stop) "\<not> i < length (fa_blocks a)"
    | (skip) "i < length (fa_blocks a)" "blk_state (fa_blocks a ! i) \<noteq> FREE_PENDING_TOKEN"
    | (wait) "i < length (fa_blocks a)" "blk_state (fa_blocks a ! i) = FREE_PENDING_TOKEN"
    by blast
  then show ?case
  proof cases
    case stop
    with wf h show ?thesis by (simp add: Alloc_pending_loop.simps [of wait a] alloc_post_def)
  next
    case skip
    with less.hyps [of a "i + 1" h] wf h sz show ?thesis
      by (simp add: Alloc_pending_loop.simps [of wait a sz i h])
  next
    case wait
    let ?b = "fa_blocks a ! i"
    from wf h wait obtain bs' i' h' where
      w: "WaitForTokenAndFreeBlock wait (fa_blocks a) i h = Some (bs', i', h')" and h': "h_inv h'"
      and mono: "\<forall>u. passed h u \<longrightarrow> passed h' u" and tok: "passed h' (blk_token ?b)"
      and wf': "fa_wf cap (a\<lparr>fa_blocks := bs'\<rparr>)" and i': "i' < length bs'" "blk_state (bs' ! i') = FREE"
      and lp: "live bs' = live (fa_blocks a)"
        "pending (fa_blocks a) = insert (unat (blk_offset ?b), unat (blk_size ?b), blk_token ?b) (pending bs')"
      by (rule wait_and_free)
    let ?a = "a\<lparr>fa_blocks := bs'\<rparr>"
    have step: "alloc_post passed cap sz a off a' h''"
      if "alloc_post passed cap sz ?a off a' h''" "passed h'' (blk_token ?b)" for off a' h''
      using alloc_post_step [of ?a a _ _ _ passed h'' cap sz off a'] lp that by simp
    show ?thesis
    proof (cases "sz \<le> blk_size (bs' ! i')")
      case True
      with wf' i' sz obtain off a' where "AllocInBlock ?a i' sz = Some (off, a')"
        "\<forall>h'. alloc_post passed cap sz ?a off a' h'"
        using alloc_post_in_block [of cap ?a i' sz passed] by auto
      with True wait w h' mono tok step show ?thesis
        by (auto simp: Alloc_pending_loop.simps [of wait a sz i h])
    next
      case False
      have "length (fa_blocks ?a) - (i' + 1) < length (fa_blocks a) - i"
        using WaitForTokenAndFreeBlock_measure [OF w wait(1)] wait(1) by simp
      from less.hyps [OF this wf' h' sz] False wait w mono tok step show ?thesis
        by (fastforce simp: Alloc_pending_loop.simps [of wait a sz i h])
    qed
  qed
qed

lemma Alloc_post:
  assumes "fa_wf cap a" "h_inv h" "unat sz \<le> 0xFFFFFFF0" "sz \<noteq> 0"
  shows "\<exists>off a' h'. FencedAllocator_Alloc wait a sz h = Some (off, a', h') \<and> h_inv h' \<and>
           (\<forall>u. passed h u \<longrightarrow> passed h' u) \<and> alloc_post passed cap (RoundUp sz) a off a' h'"
proof (cases "find_index (\<lambda>b. blk_state b = FREE \<and> RoundUp sz \<le> blk_size b) (fa_blocks a)")
  case None
  with Alloc_pending_loop_post [of cap a h "RoundUp sz" 0] assms RoundUp_props [OF assms(3)]
  show ?thesis by (simp add: FencedAllocator_Alloc_def Let_def)
next
  case (Some i)
  from find_index_Some [OF this] assms RoundUp_props [OF assms(3)]
    alloc_post_in_block [of cap a i "RoundUp sz" passed]
  obtain off a' where "AllocInBlock a i (RoundUp sz) = Some (off, a')"
    "\<forall>h'. alloc_post passed cap (RoundUp sz) a off a' h'" by auto
  with Some assms show ?thesis by (auto simp: FencedAllocator_Alloc_def Let_def)
qed

end

subsection \<open>Allocation fails only when there is no room\<close>

text \<open>\<open>room cap bs n\<close>: some \<open>n\<close> consecutive bytes of the buffer are in no allocated region.\<close>

definition avoids :: "nat \<Rightarrow> nat \<Rightarrow> Block list \<Rightarrow> bool" where
  "avoids p n bs \<longleftrightarrow> (\<forall>o' m. (o', m) \<in> live bs \<longrightarrow> region (p, n) \<inter> region (o', m) = {})"

definition room :: "nat \<Rightarrow> Block list \<Rightarrow> nat \<Rightarrow> bool" where
  "room cap bs n \<longleftrightarrow> (\<exists>p. p + n \<le> cap \<and> avoids p n bs)"

lemma tiles_block_at:
  assumes "tiles lo bs hi" "lo \<le> x" "x < hi"
  obtains as b cs where "bs = as @ b # cs" "unat (blk_offset b) \<le> x"
    "x < unat (blk_offset b) + unat (blk_size b)"
proof -
  have "\<exists>as b cs. bs = as @ b # cs \<and> unat (blk_offset b) \<le> x \<and> x < unat (blk_offset b) + unat (blk_size b)"
    using assms
  proof (induction bs arbitrary: lo)
    case (Cons b bs)
    show ?case
    proof (cases "x < lo + unat (blk_size b)")
      case True
      with Cons.prems show ?thesis
        by (intro exI [of _ "[]"] exI [of _ b] exI [of _ bs]) auto
    next
      case False
      with Cons.prems Cons.IH [of "lo + unat (blk_size b)"] obtain as c cs where
        "bs = as @ c # cs" "unat (blk_offset c) \<le> x" "x < unat (blk_offset c) + unat (blk_size c)" by auto
      then show ?thesis
        by (intro exI [of _ "b # as"] exI [of _ c] exI [of _ cs]) auto
    qed
  qed simp
  with that show thesis by blast
qed

text \<open>If no block waits for a token and every free block is smaller than \<open>n\<close>, there is no room.\<close>

lemma no_room:
  assumes t: "tiles 0 bs cap" and adj: "successively not_both_free bs"
    and np: "\<forall>b \<in> set bs. blk_state b \<noteq> FREE_PENDING_TOKEN"
    and small: "\<forall>b \<in> set bs. blk_state b = FREE \<longrightarrow> unat (blk_size b) < n" and n: "0 < n"
  shows "\<not> room cap bs n"
proof
  assume "room cap bs n"
  then obtain lo where lo: "lo + n \<le> cap" "\<And>o' m. (o', m) \<in> live bs \<Longrightarrow> region (lo, n) \<inter> region (o', m) = {}"
    by (auto simp: room_def avoids_def)
  have free: "blk_state b = FREE"
    if "b \<in> set bs" "lo \<le> x" "x < lo + n" "unat (blk_offset b) \<le> x" "x < unat (blk_offset b) + unat (blk_size b)" for b x
  proof (rule ccontr)
    assume "blk_state b \<noteq> FREE"
    with np that(1) have "(unat (blk_offset b), unat (blk_size b)) \<in> live bs"
      by (cases "blk_state b") (auto simp: live_def)
    from lo(2) [OF this] that show False by (auto simp: region_def disjoint_iff)
  qed
  from t lo(1) n obtain as b cs where b: "bs = as @ b # cs" "unat (blk_offset b) \<le> lo"
    "lo < unat (blk_offset b) + unat (blk_size b)" using tiles_block_at [of 0 bs cap lo] by auto
  then have bf: "blk_state b = FREE" using free [of b lo] n by simp
  with small b have "unat (blk_size b) < n" by simp
  moreover from t b obtain m where m: "tiles m cs cap" "m = unat (blk_offset b) + unat (blk_size b)"
    by (auto simp: tiles_append)
  ultimately have m2: "lo < m" "m < lo + n" using b by auto
  with m lo(1) obtain c ds where c: "cs = c # ds" "unat (blk_offset c) = m" "0 < unat (blk_size c)"
    by (cases cs) auto
  then have "blk_state c = FREE" using free [of c m] b m2 by simp
  with bf adj b c show False by (auto simp: successively_append_iff not_both_free_def)
qed

text \<open>Waiting for a block only changes that block and its neighbours.\<close>

lemma CollapseFreeBlock_frame:
  assumes "CollapseFreeBlock bs i = (bs', i')" "i < length bs" "blk_state (bs ! i) = FREE"
  shows "set (take i' bs') \<subseteq> set (take i bs) \<and>
    set bs' \<subseteq> insert (bs' ! i') (set (take i bs) \<union> set (drop (Suc i) bs))"
proof -
  have tl: "set (tl (join_next b cs)) \<subseteq> set cs" for b cs by (cases cs) auto
  have hd: "set (join_next b cs) \<subseteq> insert (hd (join_next b cs)) (set cs)" for b cs by (cases cs) auto
  have h0: "join_next b cs ! 0 = hd (join_next b cs)" for b cs by (simp add: hd_conv_nth)
  from assms(2,3) show ?thesis
  proof (cases rule: CollapseFreeBlock_cases)
    case (first b cs)
    with assms(1) hd [of b cs] h0 [of b cs] show ?thesis by auto
  next
    case (kept as p b cs)
    with assms(1) hd [of b cs] h0 [of b cs] show ?thesis by (auto simp: nth_append)
  next
    case (merged as p b cs)
    then have "set (join_next p (join_next b cs)) \<subseteq> insert (hd (join_next p (join_next b cs))) (set cs)"
      using assms(3) by (cases cs) auto
    with merged assms(1) h0 [of p "join_next b cs"] show ?thesis by (auto simp: nth_append)
  qed
qed

lemma WaitForTokenAndFreeBlock_frame:
  assumes "WaitForTokenAndFreeBlock wait bs i h = Some (bs', i', h')" "i < length bs"
  shows "set (take i' bs') \<subseteq> set (take i bs) \<and>
    set bs' \<subseteq> insert (bs' ! i') (set (take i bs) \<union> set (drop (Suc i) bs))"
proof -
  from assms(1) have "CollapseFreeBlock (bs[i := (bs ! i)\<lparr>blk_state := FREE\<rparr>]) i = (bs', i')"
    by (cases "CollapseFreeBlock (bs[i := (bs ! i)\<lparr>blk_state := FREE\<rparr>]) i")
       (auto simp: WaitForTokenAndFreeBlock_def bind_eq_Some_conv split: if_splits)
  from CollapseFreeBlock_frame [OF this] assms(2) show ?thesis by auto
qed

context token_fence
begin

lemma Alloc_pending_loop_finds:
  assumes "fa_wf cap a" "h_inv h" "0 < unat sz" "16 dvd unat sz" "room cap (fa_blocks a) (unat sz)"
    "\<forall>b \<in> set (take i (fa_blocks a)). blk_state b \<noteq> FREE_PENDING_TOKEN"
    "\<forall>b \<in> set (fa_blocks a). blk_state b = FREE \<longrightarrow> unat (blk_size b) < unat sz"
    "Alloc_pending_loop wait a sz i h = Some (off, a', h')"
  shows "off \<noteq> kInvalidOffset"
  using assms
proof (induction "length (fa_blocks a) - i" arbitrary: a i h rule: less_induct)
  case less
  note wf = \<open>fa_wf cap a\<close> and h = \<open>h_inv h\<close> and room = \<open>room cap (fa_blocks a) (unat sz)\<close>
    and before = \<open>\<forall>b \<in> set (take i (fa_blocks a)). blk_state b \<noteq> FREE_PENDING_TOKEN\<close>
    and small = \<open>\<forall>b \<in> set (fa_blocks a). blk_state b = FREE \<longrightarrow> unat (blk_size b) < unat sz\<close>
    and loop = \<open>Alloc_pending_loop wait a sz i h = Some (off, a', h')\<close>
  have i: "i < length (fa_blocks a)"
  proof (rule ccontr)
    assume "\<not> ?thesis"
    with no_room [of "fa_blocks a" cap "unat sz"] wf room before small less.prems(3)
    show False by (simp add: fa_wf_def)
  qed
  show ?case
  proof (cases "blk_state (fa_blocks a ! i) = FREE_PENDING_TOKEN")
    case False
    with loop i have "Alloc_pending_loop wait a sz (i + 1) h = Some (off, a', h')"
      by (simp add: Alloc_pending_loop.simps [of wait a sz i h])
    moreover have "\<forall>b \<in> set (take (i + 1) (fa_blocks a)). blk_state b \<noteq> FREE_PENDING_TOKEN"
      using before False i by (auto simp: take_Suc_conv_app_nth)
    ultimately show ?thesis using less.hyps [of a "i + 1" h] less.prems i by simp
  next
    case True
    obtain bs' i' h1 where w: "WaitForTokenAndFreeBlock wait (fa_blocks a) i h = Some (bs', i', h1)"
      and h1: "h_inv h1" and wf': "fa_wf cap (a\<lparr>fa_blocks := bs'\<rparr>)"
      and i': "i' < length bs'" "blk_state (bs' ! i') = FREE" and lp: "live bs' = live (fa_blocks a)"
      using wait_and_free [OF wf h i True] by metis
    let ?a = "a\<lparr>fa_blocks := bs'\<rparr>"
    show ?thesis
    proof (cases "sz \<le> blk_size (bs' ! i')")
      case fits: True
      from alloc_post_in_block [of cap ?a i' sz passed] wf' i' fits less.prems(3,4)
      obtain off1 a1 where "AllocInBlock ?a i' sz = Some (off1, a1)" "off1 \<noteq> kInvalidOffset" by auto
      with loop i True w fits show ?thesis by (simp add: Alloc_pending_loop.simps [of wait a sz i h])
    next
      case no: False
      with loop i True w have loop': "Alloc_pending_loop wait ?a sz (i' + 1) h1 = Some (off, a', h')"
        by (simp add: Alloc_pending_loop.simps [of wait a sz i h])
      note fr = WaitForTokenAndFreeBlock_frame [OF w i]
      have 1: "\<forall>b \<in> set (take (i' + 1) (fa_blocks ?a)). blk_state b \<noteq> FREE_PENDING_TOKEN"
        using fr before i' by (auto simp: take_Suc_conv_app_nth)
      have 2: "\<forall>b \<in> set (fa_blocks ?a). blk_state b = FREE \<longrightarrow> unat (blk_size b) < unat sz"
        using fr small no in_set_takeD in_set_dropD by (fastforce simp: word_le_nat_alt)
      have 3: "room cap (fa_blocks ?a) (unat sz)" using room lp by (simp add: room_def avoids_def)
      have 4: "length (fa_blocks ?a) - (i' + 1) < length (fa_blocks a) - i"
        using WaitForTokenAndFreeBlock_measure [OF w i] i by simp
      from less.hyps [OF 4 wf' h1 less.prems(3,4) 3 1 2 loop'] show ?thesis .
    qed
  qed
qed

lemma Alloc_finds:
  assumes "fa_wf cap a" "h_inv h" "unat sz \<le> 0xFFFFFFF0" "sz \<noteq> 0"
    "room cap (fa_blocks a) (unat (RoundUp sz))"
    "FencedAllocator_Alloc wait a sz h = Some (off, a', h')"
  shows "off \<noteq> kInvalidOffset"
proof (cases "find_index (\<lambda>b. blk_state b = FREE \<and> RoundUp sz \<le> blk_size b) (fa_blocks a)")
  case None
  then have "\<forall>b \<in> set (fa_blocks a). blk_state b = FREE \<longrightarrow> unat (blk_size b) < unat (RoundUp sz)"
    by (auto simp: find_index_None word_le_nat_alt)
  from Alloc_pending_loop_finds [OF assms(1,2) _ _ assms(5) _ this, of 0] assms None
    RoundUp_props [OF assms(3)]
  show ?thesis by (auto simp: FencedAllocator_Alloc_def Let_def)
next
  case (Some i)
  from find_index_Some [OF this] assms RoundUp_props [OF assms(3)]
    alloc_post_in_block [of cap a i "RoundUp sz" passed] Some
  show ?thesis by (auto simp: FencedAllocator_Alloc_def Let_def)
qed

end

subsection \<open>Freeing\<close>

lemma tiles_unique:
  assumes "tiles lo (as @ b # cs) hi" "c \<in> set as \<union> set cs"
  shows "unat (blk_offset c) \<noteq> unat (blk_offset b)"
proof -
  from assms have "0 < unat (blk_size b)" "0 < unat (blk_size c)"
    using tiles_block [OF assms(1)] by auto
  with tiles_disjoint [OF assms] show ?thesis by (auto simp: region_def disjoint_iff)
qed

lemma GetBlockByOffset_tiles:
  assumes "tiles lo (as @ b # cs) hi"
  shows "GetBlockByOffset (as @ b # cs) (blk_offset b) = Some (length as)"
proof -
  from assms obtain m where m: "tiles lo as m" "unat (blk_offset b) = m" by (auto simp: tiles_append)
  have "blk_offset c < blk_offset b" if "c \<in> set as" for c
    using tiles_block [OF m(1) that] m(2) by (simp add: word_less_nat_alt)
  then have "takeWhile (\<lambda>c. blk_offset c < blk_offset b) (as @ b # cs) = as"
    by (simp add: takeWhile_append2)
  then show ?thesis by (simp add: GetBlockByOffset_def)
qed

lemma live_split:
  assumes "tiles 0 bs cap" "(unat off, n) \<in> live bs"
  obtains as b cs where "bs = as @ b # cs" "blk_state b = IN_USE" "blk_offset b = off" "unat (blk_size b) = n"
    "GetBlockByOffset bs off = Some (length as)"
    "live as \<union> live cs = live bs - {(unat off, n)}"
proof -
  from assms(2) obtain b where b: "b \<in> set bs" "blk_state b = IN_USE" "blk_offset b = off" "unat (blk_size b) = n"
    by (auto simp: live_def word_unat_eq_iff)
  then obtain as cs where bs: "bs = as @ b # cs" by (meson split_list)
  have "(unat off, n) \<notin> live as \<union> live cs"
    using tiles_unique [of 0 as b cs cap] assms(1) bs b(3) by (fastforce simp: live_def)
  then have "live as \<union> live cs = live bs - {(unat off, n)}" using bs b by auto
  with that bs b GetBlockByOffset_tiles [of 0 as b cs cap] assms(1) show thesis by auto
qed

lemma bytes_in_use_sub:
  assumes "fa_wf cap a" "fa_blocks a = as @ b # cs" "blk_state b = IN_USE"
  shows "unat (fa_bytes_in_use a - ucast (blk_size b)) = in_use_bytes as + in_use_bytes cs"
  using assms by (subst unat_sub_le) (auto simp: fa_wf_def)

lemma Free_live:
  assumes wf: "fa_wf cap a" and off: "(unat off, n) \<in> live (fa_blocks a)"
  shows "\<exists>a'. FencedAllocator_Free a off = Some a' \<and> fa_wf cap a' \<and>
    live (fa_blocks a') = live (fa_blocks a) - {(unat off, n)} \<and>
    pending (fa_blocks a') = pending (fa_blocks a)"
proof -
  have t: "tiles 0 (fa_blocks a) cap" using wf by (simp add: fa_wf_def)
  obtain as b cs where bs: "fa_blocks a = as @ b # cs" and b: "blk_state b = IN_USE" "blk_offset b = off"
    and g: "GetBlockByOffset (fa_blocks a) off = Some (length as)"
    and lv: "live as \<union> live cs = live (fa_blocks a) - {(unat off, n)}"
    using live_split [OF t off] by metis
  let ?bs = "as @ b\<lparr>blk_state := FREE\<rparr> # cs"
  obtain bs' i' where c: "CollapseFreeBlock ?bs (length as) = (bs', i')" by fastforce
  have "FencedAllocator_Free a off = Some (a\<lparr>fa_bytes_in_use := fa_bytes_in_use a - ucast (blk_size b),
      fa_blocks := bs'\<rparr>)"
    using g bs b c by (simp add: FencedAllocator_Free_def list_update_append)
  moreover have cc: "tiles 0 ?bs cap" "cap < 2 ^ 32" "successively not_both_free (take (length as) ?bs)"
    "successively not_both_free (drop (Suc (length as)) ?bs)"
    using wf bs by (auto simp: fa_wf_def tiles_append successively_append_iff successively_Cons)
  have "tiles 0 bs' cap" "successively not_both_free bs'" "live bs' = live as \<union> live cs"
    "pending bs' = pending as \<union> pending cs" "in_use_bytes bs' = in_use_bytes as + in_use_bytes cs"
    using CollapseFreeBlock_correct [OF c _ _ cc] by auto
  moreover have "unat (fa_bytes_in_use a - ucast (blk_size b)) = in_use_bytes as + in_use_bytes cs"
    by (rule bytes_in_use_sub [OF wf bs b(1)])
  moreover have "pending (fa_blocks a) = pending as \<union> pending cs" using bs b by simp
  ultimately show ?thesis using wf lv by (simp add: fa_wf_def)
qed

lemma FreePendingToken_live:
  assumes wf: "fa_wf cap a" and off: "(unat off, n) \<in> live (fa_blocks a)"
  shows "\<exists>a'. FencedAllocator_FreePendingToken a off t = Some a' \<and> fa_wf cap a' \<and>
    live (fa_blocks a') = live (fa_blocks a) - {(unat off, n)} \<and>
    pending (fa_blocks a') = insert (unat off, n, t) (pending (fa_blocks a))"
proof -
  have tl: "tiles 0 (fa_blocks a) cap" using wf by (simp add: fa_wf_def)
  obtain as b cs where bs: "fa_blocks a = as @ b # cs" and b: "blk_state b = IN_USE" "blk_offset b = off"
      "unat (blk_size b) = n"
    and g: "GetBlockByOffset (fa_blocks a) off = Some (length as)"
    and lv: "live as \<union> live cs = live (fa_blocks a) - {(unat off, n)}"
    using live_split [OF tl off] by metis
  have "FencedAllocator_FreePendingToken a off t =
    Some (a\<lparr>fa_bytes_in_use := fa_bytes_in_use a - ucast (blk_size b),
            fa_blocks := as @ b\<lparr>blk_state := FREE_PENDING_TOKEN, blk_token := t\<rparr> # cs\<rparr>)"
    using g bs b by (simp add: FencedAllocator_FreePendingToken_def list_update_append)
  moreover have "unat (fa_bytes_in_use a - ucast (blk_size b)) = in_use_bytes as + in_use_bytes cs"
    by (rule bytes_in_use_sub [OF wf bs b(1)])
  moreover have "tiles 0 (as @ b\<lparr>blk_state := FREE_PENDING_TOKEN, blk_token := t\<rparr> # cs) cap"
    "successively not_both_free (as @ b\<lparr>blk_state := FREE_PENDING_TOKEN, blk_token := t\<rparr> # cs)"
    using wf bs by (auto simp: fa_wf_def tiles_append successively_append_iff successively_Cons not_both_free_def)
  moreover have "pending (fa_blocks a) = pending as \<union> pending cs" using bs b by simp
  ultimately show ?thesis using wf b lv by (simp add: fa_wf_def)
qed

lemma FreeUnused_loop_correct:
  assumes "tiles 0 bs cap" "cap < 2 ^ 32" "successively not_both_free bs"
    "\<forall>b \<in> set (take i bs). \<not> (blk_state b = FREE_PENDING_TOKEN \<and> token_read (blk_token b) k)"
  shows "tiles 0 (FreeUnused_loop k bs i) cap \<and> successively not_both_free (FreeUnused_loop k bs i) \<and>
    live (FreeUnused_loop k bs i) = live bs \<and>
    pending (FreeUnused_loop k bs i) = {(o', n, t) \<in> pending bs. \<not> token_read t k} \<and>
    in_use_bytes (FreeUnused_loop k bs i) = in_use_bytes bs"
  using assms
proof (induction k bs i rule: FreeUnused_loop.induct)
  case (1 k bs i)
  consider (stop) "\<not> i < length bs"
    | (free) "i < length bs" "blk_state (bs ! i) = FREE_PENDING_TOKEN" "token_read (blk_token (bs ! i)) k"
    | (skip) "i < length bs" "\<not> (blk_state (bs ! i) = FREE_PENDING_TOKEN \<and> token_read (blk_token (bs ! i)) k)"
    by blast
  then show ?case
  proof cases
    case stop
    with "1.prems" show ?thesis by (auto simp: FreeUnused_loop.simps [of k bs i] pending_def)
  next
    case skip
    moreover have "\<forall>b \<in> set (take (i + 1) bs). \<not> (blk_state b = FREE_PENDING_TOKEN \<and> token_read (blk_token b) k)"
      using skip "1.prems"(4) by (auto simp: take_Suc_conv_app_nth)
    moreover have "FreeUnused_loop k bs i = FreeUnused_loop k bs (i + 1)"
      using skip by (subst FreeUnused_loop.simps) auto
    ultimately show ?thesis using "1.IH"(2) "1.prems" by simp
  next
    case free
    obtain as b cs where bs: "bs = as @ b # cs" "length as = i" and bi: "b = bs ! i"
      using free(1) by (rule split_at_index)
    let ?bs = "bs[i := (bs ! i)\<lparr>blk_state := FREE\<rparr>]"
    obtain bs' i' where c: "CollapseFreeBlock ?bs i = (bs', i')" by fastforce
    have u: "?bs = as @ b\<lparr>blk_state := FREE\<rparr> # cs" using bs by (auto simp: list_update_append)
    have "tiles 0 ?bs cap" "successively not_both_free (take i ?bs)"
      "successively not_both_free (drop (Suc i) ?bs)"
      using "1.prems" bs by (auto simp: u tiles_append successively_append_iff successively_Cons)
    note cc = CollapseFreeBlock_correct [OF c _ _ this(1) "1.prems"(2) this(2,3)]
    have before: "\<forall>b \<in> set (take i' bs'). \<not> (blk_state b = FREE_PENDING_TOKEN \<and> token_read (blk_token b) k)"
      using CollapseFreeBlock_frame [OF c] "1.prems"(4) free(1) by auto
    have st: "blk_state b = FREE_PENDING_TOKEN" "token_read (blk_token b) k" using free by (simp_all add: bi)
    have eq: "FreeUnused_loop k bs i = FreeUnused_loop k bs' i'"
      using free c by (simp add: FreeUnused_loop.simps [of k bs i])
    have cc': "tiles 0 bs' cap" "successively not_both_free bs'" "live bs' = live bs"
      "in_use_bytes bs' = in_use_bytes bs"
      "{(o', n, t) \<in> pending bs'. \<not> token_read t k} = {(o', n, t) \<in> pending bs. \<not> token_read t k}"
      using cc free(1) st bs by (auto simp: u)
    from "1.IH"(1) [OF free(1) conjI [OF free(2,3)] c [symmetric] cc'(1) "1.prems"(2) cc'(2) before]
    show ?thesis unfolding eq cc' .
  qed
qed

lemma FreeUnused_correct:
  assumes "fa_wf cap a" "FencedAllocator_FreeUnused last_token_read a h = (a', h')"
    "last_token_read h = (k, h1)"
  shows "h' = h1 \<and> fa_wf cap a' \<and> live (fa_blocks a') = live (fa_blocks a) \<and>
    pending (fa_blocks a') = {(o', n, t) \<in> pending (fa_blocks a). \<not> token_read t k}"
  using assms FreeUnused_loop_correct [of "fa_blocks a" cap 0 k]
  by (auto simp: FencedAllocator_FreeUnused_def fa_wf_def)

subsection \<open>Sizes\<close>

lemma largest_free_loop_ge:
  "m \<le> largest_free_loop bs m \<and> (\<forall>b \<in> set bs. blk_state b = FREE \<longrightarrow> blk_size b \<le> largest_free_loop bs m)"
proof (induction bs arbitrary: m)
  case (Cons b bs)
  from Cons.IH [of "max m (blk_size b)"] Cons.IH [of m] show ?case by auto
qed simp

lemma largest_free_loop_attained:
  "largest_free_loop bs m = m \<or> (\<exists>b \<in> set bs. blk_state b = FREE \<and> blk_size b = largest_free_loop bs m)"
proof (induction bs arbitrary: m)
  case (Cons b bs)
  from Cons.IH [of "max m (blk_size b)"] Cons.IH [of m] show ?case by (auto simp: max_def split: if_splits)
qed simp

text \<open>
  The run of blocks that are not in use: \<open>n\<close> is at most the result iff \<open>n\<close> consecutive bytes
  are free of allocations.
\<close>

lemma largest_free_or_pending_loop_iff:
  assumes "tiles lo bs hi" "hi < 2 ^ 32" "unat cur \<le> lo" "0 < n"
  shows "n \<le> unat (largest_free_or_pending_loop bs mx cur) \<longleftrightarrow>
    n \<le> unat mx \<or> (\<exists>p. lo - unat cur \<le> p \<and> p + n \<le> hi \<and> avoids p n bs)"
  using assms
proof (induction bs arbitrary: lo mx cur)
  case Nil
  then show ?case
    by (auto simp: max_def word_le_nat_alt avoids_def intro!: exI [of _ "lo - unat cur"])
next
  case (Cons b bs)
  let ?s = "unat (blk_size b)" and ?lo = "lo + unat (blk_size b)"
  from Cons.prems have tl: "tiles ?lo bs hi" and b: "unat (blk_offset b) = lo" "0 < ?s" by auto
  have lv: "?lo \<le> o'" if "(o', m) \<in> live bs" for o' m
    using that tiles_block [OF tl] by (auto simp: live_def)
  show ?case
  proof (cases "blk_state b = IN_USE")
    case True
    have "avoids p n (b # bs) \<longleftrightarrow> (p + n \<le> lo \<or> ?lo \<le> p) \<and> avoids p n bs" for p
      using True b Cons.prems(4) by (auto simp: avoids_def region_disjoint_iff)
    moreover have "avoids p n bs" if "p + n \<le> lo" for p
      using that lv by (fastforce simp: avoids_def region_disjoint_iff)
    ultimately have "(\<exists>p. lo - unat cur \<le> p \<and> p + n \<le> hi \<and> avoids p n (b # bs)) \<longleftrightarrow>
        (\<exists>p. lo - unat cur \<le> p \<and> p + n \<le> lo) \<or> (\<exists>p. ?lo \<le> p \<and> p + n \<le> hi \<and> avoids p n bs)"
      using tiles_le [OF tl] by fastforce
    also have "(\<exists>p. lo - unat cur \<le> p \<and> p + n \<le> lo) \<longleftrightarrow> n \<le> unat cur"
      using Cons.prems(3) by (auto intro: exI [of _ "lo - unat cur"])
    finally have "(\<exists>p. lo - unat cur \<le> p \<and> p + n \<le> hi \<and> avoids p n (b # bs)) \<longleftrightarrow>
        n \<le> unat cur \<or> (\<exists>p. ?lo \<le> p \<and> p + n \<le> hi \<and> avoids p n bs)" .
    with True Cons.IH [OF tl Cons.prems(2), of 0 "max mx cur"] Cons.prems(4) show ?thesis
      by (auto simp: max_def word_le_nat_alt)
  next
    case False
    have "unat (cur + blk_size b) = unat cur + ?s"
      using Cons.prems tiles_le [OF tl] by (intro unat_add_less) auto
    with False Cons.IH [OF tl Cons.prems(2), of "cur + blk_size b" mx] Cons.prems show ?thesis
      by (simp add: avoids_def)
  qed
qed

lemma GetLargestFreeOrPendingSize_iff:
  assumes "fa_wf cap a" "0 < n"
  shows "n \<le> unat (GetLargestFreeOrPendingSize a) \<longleftrightarrow> room cap (fa_blocks a) n"
  using largest_free_or_pending_loop_iff [of 0 "fa_blocks a" cap 0 n 0] assms
  by (simp add: fa_wf_def GetLargestFreeOrPendingSize_def room_def)

lemma GetLargestFreeOrPendingSize_dvd:
  assumes "fa_wf cap a"
  shows "16 dvd unat (GetLargestFreeOrPendingSize a)"
proof -
  have "16 dvd unat (largest_free_or_pending_loop bs mx cur)"
    if "tiles lo bs hi" "hi < 2 ^ 32" "unat cur \<le> lo" "16 dvd unat mx" "16 dvd unat cur" for lo bs hi mx cur
    using that
  proof (induction bs arbitrary: lo mx cur)
    case (Cons b bs)
    have "unat (cur + blk_size b) = unat cur + unat (blk_size b)"
      using Cons.prems tiles_le [of "lo + unat (blk_size b)" bs hi] by (intro unat_add_less) auto
    with Cons show ?case by (auto simp: max_def)
  qed (auto simp: max_def)
  from this [of 0 "fa_blocks a" cap 0 0] assms show ?thesis
    by (simp add: fa_wf_def GetLargestFreeOrPendingSize_def)
qed

subsection \<open>Consistency and emptiness\<close>

lemma CheckConsistency_loop_tiles:
  assumes "tiles lo bs hi" "hi < 2 ^ 32" "successively not_both_free bs"
  shows "CheckConsistency_loop bs"
  using assms
proof (induction bs arbitrary: lo rule: CheckConsistency_loop.induct)
  case (1 b c bs)
  have "unat (blk_offset b + blk_size b) = unat (blk_offset b) + unat (blk_size b)"
    using "1.prems" tiles_le [of _ bs hi] by (intro unat_add_less) fastforce
  with "1.prems" have "blk_offset c = blk_offset b + blk_size b" "blk_offset b < blk_offset c"
    by (auto simp: word_unat_eq_iff word_less_nat_alt)
  with 1 show ?case by (auto simp: not_both_free_def not_le)
qed auto

lemma fa_wf_CheckConsistency: "fa_wf cap a \<Longrightarrow> CheckConsistency a"
  using CheckConsistency_loop_tiles [of 0 "fa_blocks a" cap]
  by (auto simp: fa_wf_def CheckConsistency_def)

lemma fa_wf_InUse:
  assumes "fa_wf cap a"
  shows "\<not> FencedAllocator_InUse a \<longleftrightarrow> live (fa_blocks a) = {} \<and> pending (fa_blocks a) = {}"
proof
  assume "\<not> FencedAllocator_InUse a"
  then obtain b where "fa_blocks a = [b]" "blk_state b = FREE"
    by (cases "fa_blocks a") (auto simp: FencedAllocator_InUse_def)
  then show "live (fa_blocks a) = {} \<and> pending (fa_blocks a) = {}" by simp
next
  assume e: "live (fa_blocks a) = {} \<and> pending (fa_blocks a) = {}"
  have free: "blk_state b = FREE" if "b \<in> set (fa_blocks a)" for b
    using e that by (cases "blk_state b") (auto simp: live_def pending_def)
  obtain b bs where b: "fa_blocks a = b # bs" using assms by (cases "fa_blocks a") (auto simp: fa_wf_def)
  have "bs = []"
  proof (cases bs)
    case (Cons c cs)
    have "successively not_both_free (fa_blocks a)" using assms by (simp add: fa_wf_def)
    then have "not_both_free b c" by (simp add: b Cons)
    moreover have "b \<in> set (fa_blocks a)" "c \<in> set (fa_blocks a)" by (simp_all add: b Cons)
    then have "blk_state b = FREE" "blk_state c = FREE" by (auto dest: free)
    ultimately show ?thesis by (simp add: not_both_free_def)
  qed
  moreover have "blk_state b = FREE" by (rule free) (simp add: b)
  ultimately show "\<not> FencedAllocator_InUse a" by (simp add: FencedAllocator_InUse_def b)
qed

lemma fa_wf_empty:
  assumes "fa_wf cap a" "live (fa_blocks a) = {}" "pending (fa_blocks a) = {}"
  shows "\<exists>b. fa_blocks a = [b] \<and> blk_state b = FREE \<and> blk_offset b = 0 \<and> unat (blk_size b) = cap"
proof -
  from assms fa_wf_InUse [OF assms(1)] have "\<not> FencedAllocator_InUse a" by simp
  then obtain b where b: "fa_blocks a = [b]" "blk_state b = FREE"
    by (cases "fa_blocks a") (auto simp: FencedAllocator_InUse_def)
  with assms(1) show ?thesis by (auto simp: fa_wf_def word_unat_eq_iff)
qed

lemma FencedAllocator_new_wf:
  assumes "16 \<le> unat sz"
  shows "fa_wf (unat (RoundDown sz)) (FencedAllocator_new sz)"
    "live (fa_blocks (FencedAllocator_new sz)) = {}" "pending (fa_blocks (FencedAllocator_new sz)) = {}"
proof -
  have "0 < unat (RoundDown sz)" "16 dvd unat (RoundDown sz)"
    using assms by (simp_all add: unat_RoundDown)
  then show "fa_wf (unat (RoundDown sz)) (FencedAllocator_new sz)"
    by (simp add: fa_wf_def FencedAllocator_new_def)
qed (simp_all add: FencedAllocator_new_def)

context token_fence
begin

lemma delete_loop_correct:
  assumes "fa_wf cap a" "h_inv h" "\<forall>b \<in> set (take i (fa_blocks a)). blk_state b \<noteq> FREE_PENDING_TOKEN"
  shows "\<exists>bs' h'. FencedAllocator_delete_loop wait (fa_blocks a) i h = Some (bs', h') \<and>
    fa_wf cap (a\<lparr>fa_blocks := bs'\<rparr>) \<and> h_inv h' \<and> live bs' = live (fa_blocks a) \<and> pending bs' = {}"
  using assms
proof (induction "length (fa_blocks a) - i" arbitrary: a i h rule: less_induct)
  case less
  note eq = FencedAllocator_delete_loop.simps [of wait "fa_blocks a" i h]
  consider (stop) "\<not> i < length (fa_blocks a)"
    | (skip) "i < length (fa_blocks a)" "blk_state (fa_blocks a ! i) \<noteq> FREE_PENDING_TOKEN"
    | (wait) "i < length (fa_blocks a)" "blk_state (fa_blocks a ! i) = FREE_PENDING_TOKEN"
    by blast
  then show ?case
  proof cases
    case stop
    with less.prems eq show ?thesis by (auto simp: pending_def)
  next
    case skip
    then have "\<forall>b \<in> set (take (i + 1) (fa_blocks a)). blk_state b \<noteq> FREE_PENDING_TOKEN"
      using less.prems(3) by (auto simp: take_Suc_conv_app_nth)
    with less.hyps [of a "i + 1" h] less.prems skip eq show ?thesis by simp
  next
    case wait
    obtain bs' i' h' where w: "WaitForTokenAndFreeBlock wait (fa_blocks a) i h = Some (bs', i', h')"
      and h': "h_inv h'" and wf': "fa_wf cap (a\<lparr>fa_blocks := bs'\<rparr>)"
      and i': "i' < length bs'" "blk_state (bs' ! i') = FREE" and lp: "live bs' = live (fa_blocks a)"
      using wait_and_free [OF less.prems(1,2) wait] by metis
    let ?a = "a\<lparr>fa_blocks := bs'\<rparr>"
    have "\<forall>b \<in> set (take (i' + 1) (fa_blocks ?a)). blk_state b \<noteq> FREE_PENDING_TOKEN"
      using WaitForTokenAndFreeBlock_frame [OF w wait(1)] less.prems(3) i' by (auto simp: take_Suc_conv_app_nth)
    moreover have "length (fa_blocks ?a) - (i' + 1) < length (fa_blocks a) - i"
      using WaitForTokenAndFreeBlock_measure [OF w wait(1)] wait(1) by simp
    ultimately show ?thesis using less.hyps [of ?a "i' + 1" h'] wf' h' lp wait w eq by auto
  qed
qed

lemma delete_correct:
  assumes "fa_wf cap a" "h_inv h"
  shows "\<exists>a' h'. FencedAllocator_delete wait a h = Some (a', h') \<and> fa_wf cap a' \<and> h_inv h' \<and>
    live (fa_blocks a') = live (fa_blocks a) \<and> pending (fa_blocks a') = {}"
  using delete_loop_correct [of cap a h 0] assms by (auto simp: FencedAllocator_delete_def)

lemma FreeUnused_passed:
  assumes "fa_wf cap a" "h_inv h" "FencedAllocator_FreeUnused last a h = (a', h')"
    "\<forall>o' n t. (o', n, t) \<in> pending (fa_blocks a) \<longrightarrow> 0 \<le> sint t"
  shows "fa_wf cap a' \<and> h_inv h' \<and> live (fa_blocks a') = live (fa_blocks a) \<and>
    pending (fa_blocks a') \<subseteq> pending (fa_blocks a) \<and>
    (\<forall>o' n t. (o', n, t) \<in> pending (fa_blocks a) - pending (fa_blocks a') \<longrightarrow> passed h' t)"
proof -
  obtain k h1 where k: "last h = (k, h1)" by fastforce
  from FreeUnused_correct [OF assms(1,3) k] last_inv [OF assms(2) k] last_passed [OF assms(2) k] assms(4)
  show ?thesis by (auto simp: token_read_def)
qed

end

subsection \<open>The pointer interface\<close>

lemma GetOffset_GetPointer:
  "GetOffset base (GetPointer base off) = off"
  by (simp add: GetPointer_def GetOffset_def)

end
