(* ===== verification/Ring_Buffer.thy ===== *)
theory Ring_Buffer
  imports Token_Fence
begin

section \<open>RingBuffer: short-lived client allocations in order\<close>

text \<open>
  Model of \<^verbatim>\<open>src/gpu/command_buffer/client/ring_buffer.{h,cc}\<close>. Blocks are taken at
  \<open>free_offset_\<close> and released at \<open>in_use_offset_\<close>, both modulo the buffer size; a padding block
  fills the space that is too small before the end.
\<close>

subsection \<open>Data\<close>

datatype RB_State = RB_IN_USE | RB_PADDING | RB_FREE_PENDING_TOKEN

record RB_Block =
  rb_offset :: u32
  rb_size :: u32
  rb_token :: u32
  rb_state :: RB_State

record RingBuffer =
  rbuf_blocks :: "RB_Block list"
  rbuf_base_offset :: u32
  rbuf_size :: u32
  rbuf_free_offset :: u32
  rbuf_in_use_offset :: u32

definition RB_Block_new :: "u32 \<Rightarrow> u32 \<Rightarrow> RB_State \<Rightarrow> RB_Block" where
  "RB_Block_new off sz st = \<lparr>rb_offset = off, rb_size = sz, rb_token = 0, rb_state = st\<rparr>"

definition RingBuffer_new :: "u32 \<Rightarrow> u32 \<Rightarrow> RingBuffer" where
  "RingBuffer_new base_offset sz =
     \<lparr>rbuf_blocks = [], rbuf_base_offset = base_offset, rbuf_size = sz,
      rbuf_free_offset = 0, rbuf_in_use_offset = 0\<rparr>"

subsection \<open>Operations\<close>

definition FreeOldestBlock ::
  "(u32 \<Rightarrow> 'h \<Rightarrow> 'h option) \<Rightarrow> RingBuffer \<Rightarrow> 'h \<Rightarrow> (RingBuffer \<times> 'h) option" where
  "FreeOldestBlock wait r h = do {
     dcheck (rbuf_blocks r \<noteq> []);
     let block = hd (rbuf_blocks r);
     dcheck (rb_state block \<noteq> RB_IN_USE);
     h \<leftarrow> (if rb_state block = RB_FREE_PENDING_TOKEN then wait (rb_token block) h else Some h);
     let in_use = rbuf_in_use_offset r + rb_size block;
     let in_use = (if in_use = rbuf_size r then 0 else in_use);
     let r = (if in_use = rbuf_free_offset r
              then r\<lparr>rbuf_in_use_offset := 0, rbuf_free_offset := 0\<rparr>
              else r\<lparr>rbuf_in_use_offset := in_use\<rparr>);
     Some (r\<lparr>rbuf_blocks := tl (rbuf_blocks r)\<rparr>, h)
   }"

lemma FreeOldestBlock_length:
  "FreeOldestBlock wait r h = Some (r', h') \<Longrightarrow> length (rbuf_blocks r') < length (rbuf_blocks r)"
  by (cases "rbuf_blocks r") (auto simp: FreeOldestBlock_def Let_def bind_eq_Some_conv split: if_splits)

text \<open>The loop at the head of \<open>GetLargestFreeSizeNoWaiting\<close>; tokens are compared unsigned.\<close>

function FreeReadBlocks_loop ::
  "(u32 \<Rightarrow> 'h \<Rightarrow> 'h option) \<Rightarrow> u32 \<Rightarrow> RingBuffer \<Rightarrow> 'h \<Rightarrow> (RingBuffer \<times> 'h) option" where
  "FreeReadBlocks_loop wait last_token_read r h =
     (case rbuf_blocks r of
        [] \<Rightarrow> Some (r, h)
      | block # _ \<Rightarrow>
          if last_token_read < rb_token block \<or> rb_state block = RB_IN_USE then Some (r, h)
          else (case FreeOldestBlock wait r h of
                  None \<Rightarrow> None
                | Some (r', h') \<Rightarrow> FreeReadBlocks_loop wait last_token_read r' h'))"
  by pat_completeness auto
termination
  by (relation "measure (\<lambda>(wait, k, r, h). length (rbuf_blocks r))") (auto dest: FreeOldestBlock_length)

declare FreeReadBlocks_loop.simps [simp del]

definition GetLargestFreeSizeNoWaiting ::
  "(u32 \<Rightarrow> 'h \<Rightarrow> 'h option) \<Rightarrow> ('h \<Rightarrow> u32 \<times> 'h) \<Rightarrow> RingBuffer \<Rightarrow> 'h \<Rightarrow> (u32 \<times> RingBuffer \<times> 'h) option" where
  "GetLargestFreeSizeNoWaiting wait last_token_read r h = do {
     let (k, h) = last_token_read h;
     (r, h) \<leftarrow> FreeReadBlocks_loop wait k r h;
     if rbuf_free_offset r = rbuf_in_use_offset r then
       if rbuf_blocks r = [] then do {
         dcheck (rbuf_free_offset r = 0);
         Some (rbuf_size r, r, h)
       } else Some (0, r, h)
     else if rbuf_in_use_offset r < rbuf_free_offset r
     then Some (max (rbuf_size r - rbuf_free_offset r) (rbuf_in_use_offset r), r, h)
     else Some (rbuf_in_use_offset r - rbuf_free_offset r, r, h)
   }"

lemma FreeReadBlocks_loop_length:
  "FreeReadBlocks_loop wait k r h = Some (r', h') \<Longrightarrow> length (rbuf_blocks r') \<le> length (rbuf_blocks r)"
proof (induction wait k r h rule: FreeReadBlocks_loop.induct)
  case (1 wait k r h)
  then show ?case
    by (auto simp: FreeReadBlocks_loop.simps [of wait k r h] split: list.splits if_splits option.splits)
       (fastforce dest: FreeOldestBlock_length)
qed

lemma GetLargestFreeSizeNoWaiting_length:
  "GetLargestFreeSizeNoWaiting wait lt r h = Some (n, r', h') \<Longrightarrow>
     length (rbuf_blocks r') \<le> length (rbuf_blocks r)"
  by (cases "lt h")
     (auto simp: GetLargestFreeSizeNoWaiting_def bind_eq_Some_conv dest!: FreeReadBlocks_loop_length
        split: if_splits)

text \<open>\<open>while (size > GetLargestFreeSizeNoWaiting()) FreeOldestBlock();\<close>\<close>

function Alloc_wait_loop ::
  "(u32 \<Rightarrow> 'h \<Rightarrow> 'h option) \<Rightarrow> ('h \<Rightarrow> u32 \<times> 'h) \<Rightarrow> u32 \<Rightarrow> RingBuffer \<Rightarrow> 'h \<Rightarrow> (RingBuffer \<times> 'h) option" where
  "Alloc_wait_loop wait last_token_read sz r h =
     (case GetLargestFreeSizeNoWaiting wait last_token_read r h of
        None \<Rightarrow> None
      | Some (largest, r1, h1) \<Rightarrow>
          if largest < sz
          then (case FreeOldestBlock wait r1 h1 of
                  None \<Rightarrow> None
                | Some (r2, h2) \<Rightarrow> Alloc_wait_loop wait last_token_read sz r2 h2)
          else Some (r1, h1))"
  by pat_completeness auto
termination
  by (relation "measure (\<lambda>(wait, k, sz, r, h). length (rbuf_blocks r))")
     (auto dest!: FreeOldestBlock_length GetLargestFreeSizeNoWaiting_length)

declare Alloc_wait_loop.simps [simp del]

definition RingBuffer_Alloc ::
  "(u32 \<Rightarrow> 'h \<Rightarrow> 'h option) \<Rightarrow> ('h \<Rightarrow> u32 \<times> 'h) \<Rightarrow> RingBuffer \<Rightarrow> u32 \<Rightarrow> 'h \<Rightarrow>
    (u32 \<times> RingBuffer \<times> 'h) option" where
  "RingBuffer_Alloc wait last_token_read r sz h = do {
     dcheck (sz \<le> rbuf_size r);
     dcheck (rbuf_blocks r = [] \<or> rb_state (last (rbuf_blocks r)) \<noteq> RB_IN_USE);
     let sz = (if sz = 0 then 1 else sz);
     (r, h) \<leftarrow> Alloc_wait_loop wait last_token_read sz r h;
     let r = (if rbuf_size r < sz + rbuf_free_offset r
              then r\<lparr>rbuf_blocks := rbuf_blocks r @
                       [RB_Block_new (rbuf_free_offset r) (rbuf_size r - rbuf_free_offset r) RB_PADDING],
                     rbuf_free_offset := 0\<rparr>
              else r);
     let offset = rbuf_free_offset r;
     let free = rbuf_free_offset r + sz;
     let r = r\<lparr>rbuf_blocks := rbuf_blocks r @ [RB_Block_new offset sz RB_IN_USE],
               rbuf_free_offset := (if free = rbuf_size r then 0 else free)\<rparr>;
     Some (offset + rbuf_base_offset r, r, h)
   }"

text \<open>The search of \<open>FreePendingToken\<close> runs from the newest block to the oldest.\<close>

definition RingBuffer_FreePendingToken :: "RingBuffer \<Rightarrow> u32 \<Rightarrow> u32 \<Rightarrow> RingBuffer option" where
  "RingBuffer_FreePendingToken r offset token = do {
     let offset = offset - rbuf_base_offset r;
     dcheck (rbuf_blocks r \<noteq> []);
     j \<leftarrow> find_index (\<lambda>b. rb_offset b = offset) (rev (rbuf_blocks r));
     let i = length (rbuf_blocks r) - 1 - j;
     let block = rbuf_blocks r ! i;
     dcheck (rb_state block = RB_IN_USE);
     Some (r\<lparr>rbuf_blocks := (rbuf_blocks r)[i :=
               block\<lparr>rb_token := token, rb_state := RB_FREE_PENDING_TOKEN\<rparr>]\<rparr>)
   }"

definition RingBuffer_GetLargestFreeOrPendingSize :: "RingBuffer \<Rightarrow> u32" where
  "RingBuffer_GetLargestFreeOrPendingSize r = rbuf_size r"

function RingBuffer_delete ::
  "(u32 \<Rightarrow> 'h \<Rightarrow> 'h option) \<Rightarrow> RingBuffer \<Rightarrow> 'h \<Rightarrow> (RingBuffer \<times> 'h) option" where
  "RingBuffer_delete wait r h =
     (if rbuf_blocks r = [] then Some (r, h)
      else (case FreeOldestBlock wait r h of
              None \<Rightarrow> None
            | Some (r', h') \<Rightarrow> RingBuffer_delete wait r' h'))"
  by pat_completeness auto
termination
  by (relation "measure (\<lambda>(wait, r, h). length (rbuf_blocks r))") (auto dest: FreeOldestBlock_length)

declare RingBuffer_delete.simps [simp del]

subsection \<open>The invariant\<close>

text \<open>
  \<open>lin s bs e\<close>: the blocks \<open>bs\<close> tile the bytes from \<open>s\<close> to \<open>e\<close>. The used part of the ring is either
  one such run (\<open>rb_straight\<close>) or a run up to the end of the buffer followed by one that starts
  again at offset 0 (\<open>rb_wrapped\<close>). Only the newest block can be in use by the client.
\<close>

fun lin :: "nat \<Rightarrow> RB_Block list \<Rightarrow> nat \<Rightarrow> bool" where
  "lin s [] e \<longleftrightarrow> s = e"
| "lin s (b # bs) e \<longleftrightarrow> unat (rb_offset b) = s \<and> 0 < unat (rb_size b) \<and> lin (s + unat (rb_size b)) bs e"

definition rb_straight :: "nat \<Rightarrow> RB_Block list \<Rightarrow> nat \<Rightarrow> nat \<Rightarrow> bool" where
  "rb_straight S bs iu fo \<longleftrightarrow> lin iu bs fo \<and> fo < S \<and> (bs = [] \<longrightarrow> iu = 0)"

definition rb_wrapped :: "nat \<Rightarrow> RB_Block list \<Rightarrow> nat \<Rightarrow> nat \<Rightarrow> bool" where
  "rb_wrapped S bs iu fo \<longleftrightarrow>
     (\<exists>xs ys. bs = xs @ ys \<and> xs \<noteq> [] \<and> lin iu xs S \<and> lin 0 ys fo \<and> fo \<le> iu)"

definition rb_layout :: "nat \<Rightarrow> RB_Block list \<Rightarrow> nat \<Rightarrow> nat \<Rightarrow> bool" where
  "rb_layout S bs iu fo \<longleftrightarrow> rb_straight S bs iu fo \<or> rb_wrapped S bs iu fo"

definition rb_wf :: "RingBuffer \<Rightarrow> bool" where
  "rb_wf r \<longleftrightarrow>
     0 < rbuf_size r \<and> unat (rbuf_size r) \<le> 2 ^ 31 \<and>
     rb_layout (unat (rbuf_size r)) (rbuf_blocks r) (unat (rbuf_in_use_offset r))
       (unat (rbuf_free_offset r)) \<and>
     (\<forall>b \<in> set (butlast (rbuf_blocks r)). rb_state b \<noteq> RB_IN_USE)"

definition rb_region :: "RB_Block \<Rightarrow> nat set" where
  "rb_region b = {unat (rb_offset b) ..< unat (rb_offset b) + unat (rb_size b)}"

definition rb_idle :: "RingBuffer \<Rightarrow> bool" where
  "rb_idle r \<longleftrightarrow> (\<forall>b \<in> set (rbuf_blocks r). rb_state b \<noteq> RB_IN_USE)"

lemma lin_append: "lin s (xs @ ys) e \<longleftrightarrow> (\<exists>m. lin s xs m \<and> lin m ys e)"
  by (induction xs arbitrary: s) auto

lemma lin_le: "lin s bs e \<Longrightarrow> s \<le> e \<and> (bs \<noteq> [] \<longrightarrow> s < e)"
  by (induction bs arbitrary: s) fastforce+

lemma lin_region: "lin s bs e \<Longrightarrow> b \<in> set bs \<Longrightarrow> rb_region b \<subseteq> {s..<e}"
proof (induction bs arbitrary: s)
  case (Cons c bs)
  then show ?case using lin_le [of "s + unat (rb_size c)" bs e] by (fastforce simp: rb_region_def)
qed simp

lemma rb_layout_region:
  assumes "rb_layout S bs iu fo" "b \<in> set bs"
  shows "rb_region b \<subseteq> {0..<S}"
proof -
  have sub: "rb_region b \<subseteq> {0..<S}" if "lin s xs e" "b \<in> set xs" "e \<le> S" for s e xs
    using lin_region [OF that(1,2)] that(3) by fastforce
  from assms(1) consider "lin iu bs fo" "fo < S"
    | xs ys where "bs = xs @ ys" "xs \<noteq> []" "lin iu xs S" "lin 0 ys fo" "fo \<le> iu"
    by (auto simp: rb_layout_def rb_straight_def rb_wrapped_def)
  then show ?thesis
  proof cases
    case 2
    then have "fo \<le> S" using lin_le [of iu xs S] by simp
    with 2 assms(2) show ?thesis by (auto dest: sub)
  qed (use assms(2) in \<open>auto dest: sub\<close>)
qed

lemma rb_layout_pop:
  assumes "rb_layout S (b # bs) iu fo"
  defines "iu' \<equiv> if iu + unat (rb_size b) = S then 0 else iu + unat (rb_size b)"
  shows "if iu' = fo then rb_layout S bs 0 0 else rb_layout S bs iu' fo"
    and "iu + unat (rb_size b) \<le> S"
proof -
  from assms(1) consider "rb_straight S (b # bs) iu fo"
    | xs where "b # bs = (b # xs) @ drop (length xs) bs" "lin iu (b # xs) S"
        "lin 0 (drop (length xs) bs) fo" "fo \<le> iu"
    by (force simp: rb_layout_def rb_wrapped_def append_eq_Cons_conv Cons_eq_append_conv)
  then have "(if iu' = fo then rb_layout S bs 0 0 else rb_layout S bs iu' fo) \<and> iu + unat (rb_size b) \<le> S"
  proof cases
    case 1
    then show ?thesis using lin_le [of "iu + unat (rb_size b)" bs fo]
      by (cases bs) (auto simp: rb_straight_def rb_layout_def iu'_def)
  next
    case 2
    let ?ys = "drop (length xs) bs"
    have le: "iu + unat (rb_size b) \<le> S" "0 < unat (rb_size b)" "xs \<noteq> [] \<Longrightarrow> iu + unat (rb_size b) < S"
      using 2(2) lin_le [of "iu + unat (rb_size b)" xs S] by auto
    show ?thesis
    proof (cases "xs = []")
      case True
      with 2 le lin_le [OF 2(3)] show ?thesis
        by (cases bs) (auto simp: iu'_def rb_layout_def rb_straight_def)
    next
      case False
      have "rb_wrapped S bs (iu + unat (rb_size b)) fo"
        unfolding rb_wrapped_def
        by (rule exI [of _ xs], rule exI [of _ ?ys]) (use False 2 le in auto)
      with False 2 le show ?thesis by (auto simp: iu'_def rb_layout_def)
    qed
  qed
  then show "if iu' = fo then rb_layout S bs 0 0 else rb_layout S bs iu' fo"
    "iu + unat (rb_size b) \<le> S" by auto
qed

text \<open>Pushing a block at the free offset, where it fits.\<close>

definition rb_advance :: "nat \<Rightarrow> nat \<Rightarrow> nat" where
  "rb_advance S fo = (if fo = S then 0 else fo)"

lemma rb_straight_push:
  assumes "rb_straight S bs iu fo" "unat (rb_offset b) = fo" "0 < unat (rb_size b)"
    and "fo + unat (rb_size b) \<le> S"
  shows "rb_layout S (bs @ [b]) iu (rb_advance S (fo + unat (rb_size b)))"
proof (cases "fo + unat (rb_size b) = S")
  case True
  with assms have "rb_wrapped S (bs @ [b]) iu 0"
    unfolding rb_wrapped_def
    by (intro exI [of _ "bs @ [b]"] exI [of _ "[]"]) (auto simp: rb_straight_def lin_append)
  with True show ?thesis by (simp add: rb_layout_def rb_advance_def)
next
  case False
  with assms show ?thesis by (auto simp: rb_layout_def rb_straight_def lin_append rb_advance_def)
qed

lemma rb_wrapped_push:
  assumes "rb_wrapped S bs iu fo" "unat (rb_offset b) = fo" "0 < unat (rb_size b)"
    and "fo + unat (rb_size b) \<le> iu"
  shows "rb_layout S (bs @ [b]) iu (rb_advance S (fo + unat (rb_size b)))"
proof -
  obtain xs ys where xy: "bs = xs @ ys" "xs \<noteq> []" "lin iu xs S" "lin 0 ys fo"
    using assms(1) by (auto simp: rb_wrapped_def)
  then have "rb_wrapped S (bs @ [b]) iu (fo + unat (rb_size b))"
    unfolding rb_wrapped_def
    by (intro exI [of _ xs] exI [of _ "ys @ [b]"]) (use assms in \<open>auto simp: lin_append\<close>)
  moreover have "iu < S" using xy lin_le [of iu xs S] by simp
  ultimately show ?thesis using assms(4) by (simp add: rb_layout_def rb_advance_def)
qed

lemma rb_straight_disjoint:
  assumes "rb_straight S bs iu fo" "c \<in> set bs" "unat (rb_offset b) = fo"
  shows "rb_region b \<inter> rb_region c = {}"
proof -
  have "rb_region c \<subseteq> {iu..<fo}" using assms(1) by (intro lin_region [OF _ assms(2)]) (simp add: rb_straight_def)
  then show ?thesis using assms(3) by (fastforce simp: rb_region_def)
qed

lemma rb_wrapped_disjoint:
  assumes "rb_wrapped S bs iu fo" "c \<in> set bs" "unat (rb_offset b) = fo"
    and "fo + unat (rb_size b) \<le> iu"
  shows "rb_region b \<inter> rb_region c = {}"
proof -
  from assms(1,2) have "rb_region c \<subseteq> {iu..<S} \<union> {0..<fo}"
    using lin_region by (fastforce simp: rb_wrapped_def)
  then show ?thesis using assms(3,4) by (fastforce simp: rb_region_def)
qed

subsection \<open>Freeing the oldest block\<close>

lemma butlast_tl_subset: "set (butlast (tl xs)) \<subseteq> set (butlast xs)"
  by (cases xs) auto

definition fo_step :: "RingBuffer \<Rightarrow> RingBuffer" where
  "fo_step r =
     (let in_use = rbuf_in_use_offset r + rb_size (hd (rbuf_blocks r));
          in_use = (if in_use = rbuf_size r then 0 else in_use);
          r = (if in_use = rbuf_free_offset r
               then r\<lparr>rbuf_in_use_offset := 0, rbuf_free_offset := 0\<rparr>
               else r\<lparr>rbuf_in_use_offset := in_use\<rparr>)
      in r\<lparr>rbuf_blocks := tl (rbuf_blocks r)\<rparr>)"

lemma fo_step_simps [simp]:
  "rbuf_blocks (fo_step r) = tl (rbuf_blocks r)" "rbuf_size (fo_step r) = rbuf_size r"
  "rbuf_base_offset (fo_step r) = rbuf_base_offset r"
  by (auto simp: fo_step_def Let_def)

lemma fo_step_wf:
  assumes "rb_wf r" "rbuf_blocks r \<noteq> []"
  shows "rb_wf (fo_step r)"
proof -
  obtain b bs where b: "rbuf_blocks r = b # bs" using assms(2) by (cases "rbuf_blocks r") auto
  let ?S = "unat (rbuf_size r)" and ?iu = "unat (rbuf_in_use_offset r)" and ?fo = "unat (rbuf_free_offset r)"
  have lay: "rb_layout ?S (b # bs) ?iu ?fo" and S: "?S \<le> 2 ^ 31" using assms(1) b by (auto simp: rb_wf_def)
  note pop = rb_layout_pop [OF lay]
  have iu: "unat (rbuf_in_use_offset r + rb_size b) = ?iu + unat (rb_size b)"
    using pop(2) S by (intro unat_add_less) simp
  have "rb_layout ?S bs (unat (rbuf_in_use_offset (fo_step r))) (unat (rbuf_free_offset (fo_step r)))"
    using pop(1) b iu by (auto simp: fo_step_def Let_def word_unat_eq_iff split: if_splits)
  then show ?thesis
    using assms(1) b butlast_tl_subset [of "rbuf_blocks r"] by (fastforce simp: rb_wf_def)
qed

lemma FreeOldestBlock_eq:
  "FreeOldestBlock wait r h =
     (if rbuf_blocks r = [] \<or> rb_state (hd (rbuf_blocks r)) = RB_IN_USE then None
      else if rb_state (hd (rbuf_blocks r)) = RB_FREE_PENDING_TOKEN
      then map_option (\<lambda>h. (fo_step r, h)) (wait (rb_token (hd (rbuf_blocks r))) h)
      else Some (fo_step r, h))"
  by (auto simp: FreeOldestBlock_def fo_step_def Let_def split: bind_split option.splits)

text \<open>
  \<open>rb_frees passed r h r' h'\<close>: \<open>r'\<close> is \<open>r\<close> after some of its oldest blocks were released, and none
  of them was in use by the client or can still be read by the service.
\<close>

definition rb_released :: "('h \<Rightarrow> u32 \<Rightarrow> bool) \<Rightarrow> 'h \<Rightarrow> RB_Block \<Rightarrow> bool" where
  "rb_released passed h b \<longleftrightarrow>
     rb_state b \<noteq> RB_IN_USE \<and> (rb_state b = RB_FREE_PENDING_TOKEN \<longrightarrow> passed h (rb_token b))"

definition rb_frees :: "('h \<Rightarrow> u32 \<Rightarrow> bool) \<Rightarrow> RingBuffer \<Rightarrow> RingBuffer \<Rightarrow> 'h \<Rightarrow> bool" where
  "rb_frees passed r r' h' \<longleftrightarrow>
     rb_wf r' \<and> rbuf_size r' = rbuf_size r \<and> rbuf_base_offset r' = rbuf_base_offset r \<and>
     (\<exists>k. rbuf_blocks r' = drop k (rbuf_blocks r) \<and>
          (\<forall>b \<in> set (take k (rbuf_blocks r)). rb_released passed h' b))"

lemma rb_frees_refl: "rb_wf r \<Longrightarrow> rb_frees passed r r h"
  by (auto simp: rb_frees_def intro: exI [of _ 0])

lemma rb_frees_trans:
  assumes "rb_frees passed r1 r2 h2" "rb_frees passed r2 r3 h3"
    and mono: "\<And>t. passed h2 t \<Longrightarrow> passed h3 t"
  shows "rb_frees passed r1 r3 h3"
proof -
  from assms(1,2) obtain k m where
    "rbuf_blocks r2 = drop k (rbuf_blocks r1)" "rbuf_blocks r3 = drop m (rbuf_blocks r2)"
    "\<forall>b \<in> set (take k (rbuf_blocks r1)). rb_released passed h2 b"
    "\<forall>b \<in> set (take m (rbuf_blocks r2)). rb_released passed h3 b"
    by (auto simp: rb_frees_def)
  with mono have "rbuf_blocks r3 = drop (k + m) (rbuf_blocks r1) \<and>
      (\<forall>b \<in> set (take (k + m) (rbuf_blocks r1)). rb_released passed h3 b)"
    by (auto simp: take_add rb_released_def add.commute)
  with assms(1,2) show ?thesis unfolding rb_frees_def by auto
qed

lemma rb_frees_idle: "rb_frees passed r r' h' \<Longrightarrow> rb_idle r \<Longrightarrow> rb_idle r'"
  by (fastforce simp: rb_frees_def rb_idle_def dest: in_set_dropD)

lemma rb_freesD:
  assumes "rb_frees passed r r' h'"
  shows "rb_wf r'" "rbuf_size r' = rbuf_size r" "rbuf_base_offset r' = rbuf_base_offset r"
  using assms by (auto simp: rb_frees_def)

context token_fence
begin

lemma FreeOldestBlock_frees:
  assumes "rb_wf r" "h_inv h" "FreeOldestBlock wait r h = Some (r', h')"
  shows "rb_frees passed r r' h'" "h_inv h'" "\<And>t. passed h t \<Longrightarrow> passed h' t"
proof -
  have ne: "rbuf_blocks r \<noteq> []" using assms(3) by (auto simp: FreeOldestBlock_eq)
  have r': "r' = fo_step r" and h': "h_inv h'" "\<And>t. passed h t \<Longrightarrow> passed h' t"
    and rel: "rb_released passed h' (hd (rbuf_blocks r))"
    using assms(2,3) wait_inv wait_mono wait_passed
    by (auto simp: FreeOldestBlock_eq rb_released_def split: if_splits)
  show "rb_frees passed r r' h'"
    using fo_step_wf [OF assms(1) ne] rel ne unfolding r' rb_frees_def
    by (auto intro!: exI [of _ 1] simp: drop_Suc take_Suc)
  show "h_inv h'" "\<And>t. passed h t \<Longrightarrow> passed h' t" by fact+
qed

lemma FreeOldestBlock_total:
  assumes "h_inv h" "rbuf_blocks r \<noteq> []" "rb_state (hd (rbuf_blocks r)) \<noteq> RB_IN_USE"
  shows "\<exists>r' h'. FreeOldestBlock wait r h = Some (r', h')"
  using assms wait_total by (fastforce simp: FreeOldestBlock_eq)

lemma FreeReadBlocks_loop_frees:
  assumes "rb_wf r" "h_inv h"
  shows "\<exists>r' h'. FreeReadBlocks_loop wait k r h = Some (r', h') \<and> rb_frees passed r r' h' \<and> h_inv h' \<and>
    (\<forall>t. passed h t \<longrightarrow> passed h' t)"
  using assms
proof (induction "length (rbuf_blocks r)" arbitrary: r h rule: less_induct)
  case less
  show ?case
  proof (cases "rbuf_blocks r = [] \<or> k < rb_token (hd (rbuf_blocks r)) \<or>
      rb_state (hd (rbuf_blocks r)) = RB_IN_USE")
    case True
    with less.prems show ?thesis
      by (auto simp: FreeReadBlocks_loop.simps [of wait k r h] rb_frees_refl split: list.splits)
  next
    case False
    then obtain r1 h1 where f: "FreeOldestBlock wait r h = Some (r1, h1)"
      using FreeOldestBlock_total less.prems by blast
    note one = FreeOldestBlock_frees [OF less.prems f]
    have "length (rbuf_blocks r1) < length (rbuf_blocks r)" by (rule FreeOldestBlock_length [OF f])
    moreover have "rb_wf r1" using one(1) by (simp add: rb_frees_def)
    ultimately obtain r2 h2 where two: "FreeReadBlocks_loop wait k r1 h1 = Some (r2, h2)"
      "rb_frees passed r1 r2 h2" "h_inv h2" "\<forall>t. passed h1 t \<longrightarrow> passed h2 t"
      using less.hyps one(2) by blast
    have "FreeReadBlocks_loop wait k r h = Some (r2, h2)"
      using False f two(1) by (auto simp: FreeReadBlocks_loop.simps [of wait k r h] split: list.splits)
    moreover have "rb_frees passed r r2 h2" using rb_frees_trans [OF one(1) two(2)] two(4) by blast
    ultimately show ?thesis using two one by blast
  qed
qed

end

subsection \<open>Allocation\<close>

definition rb_largest :: "RingBuffer \<Rightarrow> u32" where
  "rb_largest r =
     (if rbuf_free_offset r = rbuf_in_use_offset r then
        if rbuf_blocks r = [] then rbuf_size r else 0
      else if rbuf_in_use_offset r < rbuf_free_offset r
      then max (rbuf_size r - rbuf_free_offset r) (rbuf_in_use_offset r)
      else rbuf_in_use_offset r - rbuf_free_offset r)"

lemma rb_wf_empty:
  assumes "rb_wf r" "rbuf_blocks r = []"
  shows "rbuf_free_offset r = 0" "rbuf_in_use_offset r = 0"
  using assms by (auto simp: rb_wf_def rb_layout_def rb_straight_def rb_wrapped_def word_unat_eq_iff)

text \<open>The two ways a block of \<open>sz\<close> bytes fits at the place where \<open>Alloc\<close> puts it.\<close>

definition rb_push :: "u32 \<Rightarrow> RingBuffer \<Rightarrow> RingBuffer" where
  "rb_push sz r = r\<lparr>rbuf_blocks := rbuf_blocks r @ [RB_Block_new (rbuf_free_offset r) sz RB_IN_USE],
     rbuf_free_offset := (if rbuf_free_offset r + sz = rbuf_size r then 0 else rbuf_free_offset r + sz)\<rparr>"

definition rb_pad :: "RingBuffer \<Rightarrow> RingBuffer" where
  "rb_pad r = r\<lparr>rbuf_blocks := rbuf_blocks r @
       [RB_Block_new (rbuf_free_offset r) (rbuf_size r - rbuf_free_offset r) RB_PADDING],
     rbuf_free_offset := 0\<rparr>"

lemma RingBuffer_Alloc_eq:
  "RingBuffer_Alloc wait lt r sz h =
    (if rbuf_size r < sz \<or> rbuf_blocks r \<noteq> [] \<and> rb_state (last (rbuf_blocks r)) = RB_IN_USE then None
     else let sz = (if sz = 0 then 1 else sz) in
       map_option (\<lambda>(r, h).
         let r = (if rbuf_size r < sz + rbuf_free_offset r then rb_pad r else r)
         in (rbuf_free_offset r + rbuf_base_offset r, rb_push sz r, h))
       (Alloc_wait_loop wait lt sz r h))"
  by (auto simp: RingBuffer_Alloc_def rb_pad_def rb_push_def Let_def split: bind_split option.splits)

lemma RB_Block_new_simps [simp]:
  "rb_offset (RB_Block_new off sz st) = off" "rb_size (RB_Block_new off sz st) = sz"
  "rb_state (RB_Block_new off sz st) = st" "rb_token (RB_Block_new off sz st) = 0"
  by (simp_all add: RB_Block_new_def)

definition rb_fits :: "RingBuffer \<Rightarrow> u32 \<Rightarrow> bool" where
  "rb_fits r sz \<longleftrightarrow>
     (let S = unat (rbuf_size r); iu = unat (rbuf_in_use_offset r); fo = unat (rbuf_free_offset r)
      in rb_straight S (rbuf_blocks r) iu fo \<and> fo + unat sz \<le> S \<or>
         rb_wrapped S (rbuf_blocks r) iu fo \<and> fo + unat sz \<le> iu \<and> iu \<le> S)"

lemma rb_push_fits:
  assumes "rb_fits r sz" "0 < sz" "unat (rbuf_size r) \<le> 2 ^ 31"
  defines "new \<equiv> RB_Block_new (rbuf_free_offset r) sz RB_IN_USE"
  shows "rb_layout (unat (rbuf_size r)) (rbuf_blocks r @ [new]) (unat (rbuf_in_use_offset r))
      (unat (rbuf_free_offset (rb_push sz r)))" (is ?lay)
    and "c \<in> set (rbuf_blocks r) \<Longrightarrow> rb_region new \<inter> rb_region c = {}"
proof -
  let ?fo = "unat (rbuf_free_offset r)" and ?S = "unat (rbuf_size r)"
  have z: "0 < unat (rb_size new)" "unat (rb_offset new) = ?fo" "rb_size new = sz"
    using assms(2) by (simp_all add: word_less_nat_alt new_def)
  have le: "?fo + unat sz \<le> ?S" using assms(1) by (auto simp: rb_fits_def Let_def)
  have adv: "unat (rbuf_free_offset (rb_push sz r)) = rb_advance ?S (?fo + unat sz)"
    using le assms(3) unat_add_less [of "rbuf_free_offset r" sz]
    by (auto simp: rb_advance_def rb_push_def word_unat_eq_iff)
  from assms(1) consider
      "rb_straight ?S (rbuf_blocks r) (unat (rbuf_in_use_offset r)) ?fo"
    | "rb_wrapped ?S (rbuf_blocks r) (unat (rbuf_in_use_offset r)) ?fo" "?fo + unat sz \<le> unat (rbuf_in_use_offset r)"
    by (auto simp: rb_fits_def Let_def)
  then have "?lay \<and> (c \<in> set (rbuf_blocks r) \<longrightarrow> rb_region new \<inter> rb_region c = {})"
  proof cases
    case 1
    with z le show ?thesis unfolding adv
      using rb_straight_push [OF 1, of new] rb_straight_disjoint [OF 1, of c new] by simp
  next
    case 2
    with z show ?thesis unfolding adv
      using rb_wrapped_push [OF 2(1), of new] rb_wrapped_disjoint [OF 2(1), of c new] by simp
  qed
  then show ?lay "c \<in> set (rbuf_blocks r) \<Longrightarrow> rb_region new \<inter> rb_region c = {}" by auto
qed

text \<open>If the largest free run has room, the block fits where \<open>Alloc\<close> puts it.\<close>

lemma rb_largest_fits:
  assumes wf: "rb_wf r" and sz: "0 < sz" "sz \<le> rb_largest r"
  shows "rb_fits (if rbuf_size r < sz + rbuf_free_offset r then rb_pad r else r) sz"
proof -
  let ?S = "unat (rbuf_size r)" and ?iu = "unat (rbuf_in_use_offset r)" and ?fo = "unat (rbuf_free_offset r)"
  note unats = word_unat_eq_iff word_less_nat_alt word_le_nat_alt
  have S: "?S \<le> 2 ^ 31" and lay: "rb_layout ?S (rbuf_blocks r) ?iu ?fo" using wf by (auto simp: rb_wf_def)
  from lay consider (straight) "rb_straight ?S (rbuf_blocks r) ?iu ?fo"
    | (wrapped) "rb_wrapped ?S (rbuf_blocks r) ?iu ?fo" by (auto simp: rb_layout_def)
  then show ?thesis
  proof cases
    case wrapped
    then have iu: "?fo \<le> ?iu" "?iu < ?S" "rbuf_blocks r \<noteq> []"
      by (auto simp: rb_wrapped_def dest: lin_le)
    with sz have room: "?fo + unat sz \<le> ?iu"
      by (auto simp: rb_largest_def unats unat_sub_le split: if_splits)
    moreover have "\<not> rbuf_size r < sz + rbuf_free_offset r"
      using room iu S unat_add_less [of sz "rbuf_free_offset r"] by (simp add: unats)
    ultimately show ?thesis using wrapped iu by (simp add: rb_fits_def)
  next
    case straight
    then have iu: "?iu \<le> ?fo" "?fo < ?S" "?iu = ?fo \<longrightarrow> rbuf_blocks r = [] \<and> ?fo = 0"
      using lin_le [of ?iu "rbuf_blocks r" ?fo] by (auto simp: rb_straight_def)
    have szS: "unat sz \<le> ?S"
      using sz iu by (auto simp: rb_largest_def unats unat_sub_le max_def split: if_splits)
    have add: "unat (sz + rbuf_free_offset r) = unat sz + ?fo"
      using szS iu S by (intro unat_add_less) simp
    show ?thesis
    proof (cases "?S < unat sz + ?fo")
      case False
      with straight add show ?thesis by (auto simp: rb_fits_def Let_def unats)
    next
      case True
      then have le: "unat sz \<le> ?iu"
        using sz iu szS by (auto simp: rb_largest_def unats unat_sub_le max_def split: if_splits)
      let ?pad = "RB_Block_new (rbuf_free_offset r) (rbuf_size r - rbuf_free_offset r) RB_PADDING"
      have "rb_wrapped ?S (rbuf_blocks r @ [?pad]) ?iu 0"
        unfolding rb_wrapped_def
        by (rule exI [of _ "rbuf_blocks r @ [?pad]"], rule exI [of _ "[]"])
           (use straight iu in \<open>auto simp: rb_straight_def lin_append unat_sub_le\<close>)
      with True add le iu show ?thesis by (auto simp: rb_fits_def rb_pad_def unats)
    qed
  qed
qed

text \<open>
  The contract of \<open>Alloc\<close>. The old blocks that go are released ones; the new block has the
  requested size (one byte for none), lies in the buffer and does not meet a block that stays.
\<close>

definition rb_alloc_post ::
  "('h \<Rightarrow> u32 \<Rightarrow> bool) \<Rightarrow> RingBuffer \<Rightarrow> u32 \<Rightarrow> u32 \<Rightarrow> RingBuffer \<Rightarrow> 'h \<Rightarrow> bool" where
  "rb_alloc_post passed r sz off r' h' \<longleftrightarrow>
     rbuf_size r' = rbuf_size r \<and> rbuf_base_offset r' = rbuf_base_offset r \<and>
     (\<exists>k pad new.
        rbuf_blocks r' = drop k (rbuf_blocks r) @ pad @ [new] \<and>
        (\<forall>p \<in> set pad. rb_state p = RB_PADDING) \<and>
        (\<forall>b \<in> set (take k (rbuf_blocks r)). rb_released passed h' b) \<and>
        (\<forall>b \<in> set (drop k (rbuf_blocks r) @ pad). rb_region new \<inter> rb_region b = {}) \<and>
        rb_state new = RB_IN_USE \<and> rb_size new = max 1 sz \<and>
        off = rb_offset new + rbuf_base_offset r \<and>
        unat (rb_offset new) + unat (rb_size new) \<le> unat (rbuf_size r))"

context token_fence
begin

lemma GetLargestFreeSizeNoWaiting_frees:
  assumes "rb_wf r" "h_inv h"
  shows "\<exists>r' h'. GetLargestFreeSizeNoWaiting wait last r h = Some (rb_largest r', r', h') \<and>
    rb_frees passed r r' h' \<and> h_inv h' \<and> (\<forall>t. passed h t \<longrightarrow> passed h' t)"
proof -
  obtain k h1 where k: "last h = (k, h1)" by (cases "last h")
  with last_inv last_mono assms(2) have h1: "h_inv h1" "\<And>t. passed h t \<Longrightarrow> passed h1 t" by auto
  from FreeReadBlocks_loop_frees [OF assms(1) h1(1)] obtain r' h' where
    l: "FreeReadBlocks_loop wait k r h1 = Some (r', h')" "rb_frees passed r r' h'" "h_inv h'"
      "\<forall>t. passed h1 t \<longrightarrow> passed h' t" by blast
  have "rb_wf r'" using l(2) by (simp add: rb_frees_def)
  then have "GetLargestFreeSizeNoWaiting wait last r h = Some (rb_largest r', r', h')"
    using l(1) k by (auto simp: GetLargestFreeSizeNoWaiting_def rb_largest_def rb_wf_empty)
  with l h1 show ?thesis by blast
qed

lemma Alloc_wait_loop_total:
  assumes "rb_wf r" "rb_idle r" "h_inv h" "sz \<le> rbuf_size r"
  shows "\<exists>r' h'. Alloc_wait_loop wait last sz r h = Some (r', h') \<and> sz \<le> rb_largest r' \<and>
    rb_frees passed r r' h' \<and> h_inv h' \<and> (\<forall>t. passed h t \<longrightarrow> passed h' t)"
  using assms
proof (induction "length (rbuf_blocks r)" arbitrary: r h rule: less_induct)
  case less
  obtain r1 h1 where g: "GetLargestFreeSizeNoWaiting wait last r h = Some (rb_largest r1, r1, h1)"
      "rb_frees passed r r1 h1" "h_inv h1" "\<forall>t. passed h t \<longrightarrow> passed h1 t"
    using GetLargestFreeSizeNoWaiting_frees less.prems by blast
  have r1: "rb_wf r1" "rb_idle r1" "rbuf_size r1 = rbuf_size r"
    using rb_freesD [OF g(2)] rb_frees_idle [OF g(2)] less.prems by auto
  show ?case
  proof (cases "rb_largest r1 < sz")
    case False
    with g show ?thesis by (auto simp: Alloc_wait_loop.simps [of wait last sz r h])
  next
    case True
    have ne: "rbuf_blocks r1 \<noteq> []"
      using True r1 less.prems rb_wf_empty [OF r1(1)] by (auto simp: rb_largest_def)
    then obtain r2 h2 where f: "FreeOldestBlock wait r1 h1 = Some (r2, h2)"
      using FreeOldestBlock_total [OF g(3) ne] r1(2) by (auto simp: rb_idle_def)
    note two = FreeOldestBlock_frees [OF r1(1) g(3) f]
    have "length (rbuf_blocks r2) < length (rbuf_blocks r)"
      using FreeOldestBlock_length [OF f] GetLargestFreeSizeNoWaiting_length [OF g(1)] by simp
    moreover have "rb_wf r2" "rb_idle r2" "sz \<le> rbuf_size r2"
      using two(1) rb_frees_idle [OF two(1) r1(2)] r1 less.prems by (auto simp: rb_frees_def)
    ultimately obtain r3 h3 where three: "Alloc_wait_loop wait last sz r2 h2 = Some (r3, h3)"
      "sz \<le> rb_largest r3" "rb_frees passed r2 r3 h3" "h_inv h3" "\<forall>t. passed h2 t \<longrightarrow> passed h3 t"
      using less.hyps two(2) by blast
    have "rb_frees passed r r3 h3"
      using rb_frees_trans [OF rb_frees_trans [OF g(2) two(1)] three(3)] two(3) three(5) by blast
    with three two(3) g True f show ?thesis by (auto simp: Alloc_wait_loop.simps [of wait last sz r h])
  qed
qed

lemma RingBuffer_Alloc_total:
  assumes "rb_wf r" "rb_idle r" "h_inv h" "sz \<le> rbuf_size r"
  shows "\<exists>off r' h'. RingBuffer_Alloc wait last r sz h = Some (off, r', h') \<and>
     rb_wf r' \<and> h_inv h' \<and> (\<forall>t. passed h t \<longrightarrow> passed h' t) \<and> rb_alloc_post passed r sz off r' h'"
proof -
  define z where "z = (if sz = 0 then 1 else sz)"
  have z: "0 < z" "z = max 1 sz" "z \<le> rbuf_size r"
    using assms(1,4) by (auto simp: z_def max_def rb_wf_def word_le_nat_alt word_less_nat_alt)
      (metis One_nat_def Suc_leI le_antisym unat_eq_zero neq0_conv)+
  obtain r1 h1 where w0: "Alloc_wait_loop wait last z r h = Some (r1, h1)" "z \<le> rb_largest r1"
      "rb_frees passed r r1 h1" "h_inv h1" "\<forall>t. passed h t \<longrightarrow> passed h1 t"
    using Alloc_wait_loop_total [OF assms(1,2,3) z(3)] by blast
  obtain k where k: "rbuf_blocks r1 = drop k (rbuf_blocks r)"
      "\<forall>b \<in> set (take k (rbuf_blocks r)). rb_released passed h1 b"
    using w0(3) by (auto simp: rb_frees_def)
  note w = w0(1,2) rb_freesD(1) [OF w0(3)] w0(4,5) rb_frees_idle [OF w0(3) assms(2)]
    rb_freesD(2,3) [OF w0(3)] k
  define r2 where "r2 = (if rbuf_size r1 < z + rbuf_free_offset r1 then rb_pad r1 else r1)"
  define pad where "pad = drop (length (rbuf_blocks r1)) (rbuf_blocks r2)"
  define new where "new = RB_Block_new (rbuf_free_offset r2) z RB_IN_USE"
  have r2: "rbuf_size r2 = rbuf_size r" "rbuf_base_offset r2 = rbuf_base_offset r"
     "rbuf_blocks r2 = rbuf_blocks r1 @ pad" "\<forall>p \<in> set pad. rb_state p = RB_PADDING"
     "rbuf_in_use_offset r2 = rbuf_in_use_offset r1"
    using w(7,8) by (auto simp: r2_def rb_pad_def pad_def)
  have S: "unat (rbuf_size r2) \<le> 2 ^ 31" using assms(1) r2(1) by (simp add: rb_wf_def)
  note fit = rb_push_fits [OF rb_largest_fits [OF w(3) z(1) w(2), folded r2_def] z(1) S, folded new_def]
  have push: "rbuf_blocks (rb_push z r2) = rbuf_blocks r2 @ [new]" "rbuf_size (rb_push z r2) = rbuf_size r"
      "rbuf_base_offset (rb_push z r2) = rbuf_base_offset r"
      "rbuf_in_use_offset (rb_push z r2) = rbuf_in_use_offset r2"
    using r2 by (auto simp: rb_push_def new_def)
  have "rb_wf (rb_push z r2)"
    using fit(1) assms(1) w(6) r2 push by (auto simp: rb_wf_def rb_idle_def butlast_append)
  moreover have "unat (rb_offset new) + unat (rb_size new) \<le> unat (rbuf_size r)"
    using rb_layout_region [OF fit(1), of new] r2(1) z(1)
    by (fastforce simp: rb_region_def new_def word_less_nat_alt)
  moreover have "RingBuffer_Alloc wait last r sz h =
      Some (rb_offset new + rbuf_base_offset r, rb_push z r2, h1)"
    using assms(2,4) w(1) r2 by (auto simp: RingBuffer_Alloc_eq rb_idle_def z_def Let_def r2_def new_def
       split: if_splits)
  moreover have "rb_size new = max 1 sz" "rb_state new = RB_IN_USE" using z by (simp_all add: new_def)
  moreover have "\<forall>b \<in> set (drop k (rbuf_blocks r) @ pad). rb_region new \<inter> rb_region b = {}"
    using fit(2) unfolding r2(3) w(9) by blast
  moreover have "rbuf_blocks (rb_push z r2) = drop k (rbuf_blocks r) @ pad @ [new]"
    using push(1) r2(3) w(9) by simp
  ultimately have "rb_alloc_post passed r sz (rb_offset new + rbuf_base_offset r) (rb_push z r2) h1"
    unfolding rb_alloc_post_def using push(2,3) r2(4) w(10) by blast
  with \<open>rb_wf (rb_push z r2)\<close> \<open>RingBuffer_Alloc wait last r sz h = _\<close> w(4,5) show ?thesis by blast
qed

lemma RingBuffer_delete_total:
  assumes "rb_wf r" "rb_idle r" "h_inv h"
  shows "\<exists>r' h'. RingBuffer_delete wait r h = Some (r', h') \<and> rbuf_blocks r' = [] \<and>
    rb_frees passed r r' h' \<and> h_inv h' \<and> (\<forall>t. passed h t \<longrightarrow> passed h' t)"
  using assms
proof (induction "length (rbuf_blocks r)" arbitrary: r h rule: less_induct)
  case less
  show ?case
  proof (cases "rbuf_blocks r = []")
    case True
    with less.prems show ?thesis by (auto simp: RingBuffer_delete.simps [of wait r h] rb_frees_refl)
  next
    case False
    then obtain r1 h1 where f: "FreeOldestBlock wait r h = Some (r1, h1)"
      using FreeOldestBlock_total less.prems by (metis hd_in_set rb_idle_def)
    note one = FreeOldestBlock_frees [OF less.prems(1,3) f]
    moreover have "rb_wf r1" "rb_idle r1"
      using rb_freesD [OF one(1)] rb_frees_idle [OF one(1)] less.prems(2) by auto
    ultimately obtain r2 h2 where two: "RingBuffer_delete wait r1 h1 = Some (r2, h2)" "rbuf_blocks r2 = []"
      "rb_frees passed r1 r2 h2" "h_inv h2" "\<forall>t. passed h1 t \<longrightarrow> passed h2 t"
      using less.hyps FreeOldestBlock_length [OF f] by blast
    have "rb_frees passed r r2 h2" using rb_frees_trans [OF one(1) two(3)] two(5) by blast
    with two one(3) False f show ?thesis by (auto simp: RingBuffer_delete.simps [of wait r h])
  qed
qed

end

subsection \<open>Freeing pending a token\<close>

lemma find_index_rev_snoc:
  "find_index P (rev (xs @ [x])) = (if P x then Some 0 else map_option Suc (find_index P (rev xs)))"
  by simp

lemma RingBuffer_FreePendingToken_iff:
  assumes "rb_wf r"
  shows "RingBuffer_FreePendingToken r off t = Some r' \<longleftrightarrow>
     (\<exists>bs b. rbuf_blocks r = bs @ [b] \<and> rb_state b = RB_IN_USE \<and>
        off = rb_offset b + rbuf_base_offset r \<and>
        r' = r\<lparr>rbuf_blocks := bs @ [b\<lparr>rb_token := t, rb_state := RB_FREE_PENDING_TOKEN\<rparr>]\<rparr>)"
proof (cases "rbuf_blocks r" rule: rev_cases)
  case Nil
  then show ?thesis by (simp add: RingBuffer_FreePendingToken_def)
next
  case (snoc bs b)
  have old: "rb_state (bs ! (length bs - Suc j)) \<noteq> RB_IN_USE" if "j < length bs" for j
    using assms snoc that by (auto simp: rb_wf_def)
  have j: "j < length bs" if "find_index P (rev bs) = Some j" for j P
    using find_index_Some [OF that] by simp
  show ?thesis
  proof (cases "rb_offset b = off - rbuf_base_offset r")
    case True
    with snoc show ?thesis
      by (auto simp: RingBuffer_FreePendingToken_def Let_def)
  next
    case False
    have "RingBuffer_FreePendingToken r off t = None"
    proof (cases "find_index (\<lambda>b. rb_offset b = off - rbuf_base_offset r) (rev bs)")
      case (Some i)
      then have "length bs - Suc i < length bs" using j by fastforce
      with Some snoc False old [OF j [OF Some]] show ?thesis
        by (simp add: RingBuffer_FreePendingToken_def nth_append Let_def)
    qed (use snoc False in \<open>simp add: RingBuffer_FreePendingToken_def\<close>)
    with snoc False show ?thesis by auto
  qed
qed

lemma RingBuffer_FreePendingToken_wf:
  assumes "rb_wf r" "RingBuffer_FreePendingToken r off t = Some r'"
  shows "rb_wf r'" "rb_idle r'"
proof -
  have lin: "lin s (xs @ [b\<lparr>rb_token := t, rb_state := st\<rparr>]) e = lin s (xs @ [b]) e" for s xs b st e
    by (simp add: lin_append)
  have upd: "rb_layout S (bs @ [b\<lparr>rb_token := t, rb_state := st\<rparr>]) iu fo" if "rb_layout S (bs @ [b]) iu fo"
    for S bs b st iu fo
  proof -
    have "rb_wrapped S (bs @ [b\<lparr>rb_token := t, rb_state := st\<rparr>]) iu fo" if w: "rb_wrapped S (bs @ [b]) iu fo"
    proof -
      from w obtain xs ys where xy: "bs @ [b] = xs @ ys" "xs \<noteq> []" "lin iu xs S" "lin 0 ys fo" "fo \<le> iu"
        by (auto simp: rb_wrapped_def)
      show ?thesis
      proof (cases ys rule: rev_cases)
        case Nil
        with xy lin show ?thesis unfolding rb_wrapped_def
          by (intro exI [of _ "bs @ [b\<lparr>rb_token := t, rb_state := st\<rparr>]"] exI [of _ "[]"]) auto
      next
        case (snoc zs z)
        with xy lin show ?thesis unfolding rb_wrapped_def
          by (intro exI [of _ xs] exI [of _ "zs @ [b\<lparr>rb_token := t, rb_state := st\<rparr>]"]) auto
      qed
    qed
    with that lin show ?thesis by (auto simp: rb_layout_def rb_straight_def)
  qed
  from assms show "rb_wf r'" "rb_idle r'"
    by (auto simp: RingBuffer_FreePendingToken_iff rb_wf_def rb_idle_def upd)
qed

lemma RingBuffer_new_wf:
  assumes "0 < sz" "unat sz \<le> 2 ^ 31"
  shows "rb_wf (RingBuffer_new base sz)" "rb_idle (RingBuffer_new base sz)"
  using assms by (auto simp: RingBuffer_new_def rb_wf_def rb_idle_def rb_layout_def rb_straight_def word_less_nat_alt)

end
