(* ===== verification/Transfer_Buffer_Manager.thy ===== *)
theory Transfer_Buffer_Manager
  imports Cmd_Parser
begin

section \<open>TransferBufferManager: the registered shared memory buffers\<close>

text \<open>
  Model of \<^verbatim>\<open>src/gpu/command_buffer/service/transfer_buffer_manager.{h,cc}\<close> and of
  \<^verbatim>\<open>src/gpu/command_buffer/common/buffer.h\<close>. The hash map of buffers is an association list
  with one entry for an id. What the operating system answers (\<open>ShareToProcess\<close>, \<open>Map\<close>) is an
  argument of the operation.
\<close>

record Buffer =
  buf_ptr :: "Ptr option"
  buf_size :: u64
  buf_shared_memory :: "nat option"

definition Buffer_new :: Buffer where
  "Buffer_new = \<lparr>buf_ptr = None, buf_size = 0, buf_shared_memory = None\<rparr>"

record TransferBufferManager = CommandParser +
  registered_buffers :: "(u32 \<times> Buffer) list"
  shared_memory_bytes_allocated :: u64

definition TransferBufferManager_new ::
  "'a TransferBufferManager_scheme \<Rightarrow> 'a TransferBufferManager_scheme" where
  "TransferBufferManager_new w = w\<lparr>registered_buffers := [], shared_memory_bytes_allocated := 0\<rparr>"

definition RegisterTransferBuffer ::
  "bool \<Rightarrow> bool \<Rightarrow> u32 \<Rightarrow> nat \<Rightarrow> u64 \<Rightarrow> 'a TransferBufferManager_scheme \<Rightarrow>
     bool \<times> 'a TransferBufferManager_scheme" where
  "RegisterTransferBuffer share_ok map_ok bid shared_memory sz w =
     (if sint bid \<le> 0 then (False, w)
      else if map_of (registered_buffers w) bid \<noteq> None then (False, w)
      else if \<not> share_ok then (False, w)
      else if \<not> map_ok then (False, w)
      else
        let buffer = \<lparr>buf_ptr = Some (shared_memory, 0), buf_size = sz,
                      buf_shared_memory = Some shared_memory\<rparr>
        in (True, w\<lparr>shared_memory_bytes_allocated := shared_memory_bytes_allocated w + sz,
                    registered_buffers := (bid, buffer) # registered_buffers w\<rparr>))"

definition DestroyTransferBuffer ::
  "u32 \<Rightarrow> 'a TransferBufferManager_scheme \<Rightarrow> 'a TransferBufferManager_scheme option" where
  "DestroyTransferBuffer bid w =
     (case map_of (registered_buffers w) bid of
        None \<Rightarrow> Some w
      | Some buffer \<Rightarrow> do {
          dcheck (buf_size buffer \<le> shared_memory_bytes_allocated w);
          Some (w\<lparr>shared_memory_bytes_allocated := shared_memory_bytes_allocated w - buf_size buffer,
                  registered_buffers := filter (\<lambda>(i, _). i \<noteq> bid) (registered_buffers w)\<rparr>)
        })"

definition GetTransferBuffer :: "u32 \<Rightarrow> 'a TransferBufferManager_scheme \<Rightarrow> Buffer" where
  "GetTransferBuffer bid w =
     (if bid = 0 then Buffer_new
      else case map_of (registered_buffers w) bid of
             None \<Rightarrow> Buffer_new
           | Some buffer \<Rightarrow> buffer)"

text \<open>The destructor: the loop that erases the first buffer until there is none.\<close>

fun TransferBufferManager_delete_loop :: "(u32 \<times> Buffer) list \<Rightarrow> u64 \<Rightarrow> u64 option" where
  "TransferBufferManager_delete_loop [] bytes = Some bytes"
| "TransferBufferManager_delete_loop ((bid, buffer) # bs) bytes = do {
     dcheck (buf_size buffer \<le> bytes);
     TransferBufferManager_delete_loop bs (bytes - buf_size buffer)
   }"

definition TransferBufferManager_delete ::
  "'a TransferBufferManager_scheme \<Rightarrow> 'a TransferBufferManager_scheme option" where
  "TransferBufferManager_delete w = do {
     bytes \<leftarrow> TransferBufferManager_delete_loop (registered_buffers w) (shared_memory_bytes_allocated w);
     dcheck (bytes = 0);
     Some (w\<lparr>registered_buffers := [], shared_memory_bytes_allocated := bytes\<rparr>)
   }"

subsection \<open>The invariant\<close>

text \<open>
  Ids are positive and used once, every buffer lies in its region, and the counter is the
  sum of the sizes, which fits the address space.
\<close>

definition total_size :: "(u32 \<times> Buffer) list \<Rightarrow> nat" where
  "total_size bs = (\<Sum>b \<leftarrow> bs. unat (buf_size (snd b)))"

definition buffer_ok :: "byte list list \<Rightarrow> Buffer \<Rightarrow> bool" where
  "buffer_ok m b \<longleftrightarrow>
     (case buf_ptr b of None \<Rightarrow> False
      | Some (r, off) \<Rightarrow> off = 0 \<and> r < length m \<and> unat (buf_size b) \<le> length (m ! r) \<and>
          buf_shared_memory b = Some r)"

definition tbm_wf :: "'a TransferBufferManager_scheme \<Rightarrow> bool" where
  "tbm_wf w \<longleftrightarrow>
     distinct (map fst (registered_buffers w)) \<and>
     (\<forall>(bid, b) \<in> set (registered_buffers w). 0 < sint bid \<and> buffer_ok (shm w) b) \<and>
     total_size (registered_buffers w) < 2 ^ 64 \<and>
     shared_memory_bytes_allocated w = of_nat (total_size (registered_buffers w))"

lemma total_size_simps [simp]:
  "total_size [] = 0" "total_size (b # bs) = unat (buf_size (snd b)) + total_size bs"
  by (simp_all add: total_size_def)

lemma total_size_filter:
  assumes "distinct (map fst bs)" "map_of bs bid = Some b"
  shows "total_size bs = unat (buf_size b) + total_size (filter (\<lambda>(i, _). i \<noteq> bid) bs)"
  using assms
proof (induction bs)
  case (Cons x bs)
  show ?case
  proof (cases "fst x = bid")
    case True
    then have "filter (\<lambda>(i, _). i \<noteq> bid) bs = bs"
      using Cons.prems(1) by (fastforce simp: filter_id_conv image_iff)
    with True Cons.prems show ?thesis by (cases x) auto
  qed (use Cons in \<open>cases x; auto\<close>)
qed simp

lemma map_of_filter_neq: "map_of (filter (\<lambda>(i, _). i \<noteq> k) bs) = (map_of bs)(k := None)"
  by (induction bs) (auto simp: fun_eq_iff)

lemma tbm_bytes:
  assumes "tbm_wf w"
  shows "unat (shared_memory_bytes_allocated w) = total_size (registered_buffers w)"
  using assms by (simp add: tbm_wf_def unat_of_nat take_bit_nat_eq_self)

lemma GetTransferBuffer_ok:
  assumes "tbm_wf w" "buf_ptr (GetTransferBuffer bid w) \<noteq> None"
  shows "buffer_ok (shm w) (GetTransferBuffer bid w)"
  using assms
  by (auto simp: GetTransferBuffer_def tbm_wf_def Buffer_new_def split: if_splits option.splits
      dest!: map_of_SomeD)

lemma RegisterTransferBuffer_wf:
  assumes "tbm_wf w" "RegisterTransferBuffer share_ok map_ok bid r sz w = (b, w')"
    and "map_ok \<Longrightarrow> r < length (shm w) \<and> unat sz \<le> length (shm w ! r)"
    and "map_ok \<Longrightarrow> total_size (registered_buffers w) + unat sz < 2 ^ 64"
  shows "tbm_wf w'"
proof (cases b)
  case True
  with assms(2) have ok: "map_ok" "0 < sint bid" "map_of (registered_buffers w) bid = None"
    and w': "registered_buffers w' = (bid, \<lparr>buf_ptr = Some (r, 0), buf_size = sz, buf_shared_memory = Some r\<rparr>)
       # registered_buffers w" "shm w' = shm w"
      "shared_memory_bytes_allocated w' = shared_memory_bytes_allocated w + sz"
    by (auto simp: RegisterTransferBuffer_def split: if_splits)
  from ok(3) have "bid \<notin> fst ` set (registered_buffers w)" by (simp add: map_of_eq_None_iff)
  with ok assms(1) assms(3,4) [OF ok(1)] show ?thesis
    by (auto simp: tbm_wf_def w' buffer_ok_def ac_simps)
next
  case False
  with assms(1,2) show ?thesis by (auto simp: RegisterTransferBuffer_def split: if_splits)
qed

lemma DestroyTransferBuffer_wf:
  assumes "tbm_wf w"
  shows "\<exists>w'. DestroyTransferBuffer bid w = Some w' \<and> tbm_wf w' \<and> shm w' = shm w \<and>
    map_of (registered_buffers w') = (map_of (registered_buffers w))(bid := None)"
proof (cases "map_of (registered_buffers w) bid")
  case None
  with assms show ?thesis by (auto simp: DestroyTransferBuffer_def fun_upd_idem)
next
  case (Some b)
  let ?bs = "registered_buffers w" and ?f = "filter (\<lambda>(i, _). i \<noteq> bid) (registered_buffers w)"
  let ?w = "w\<lparr>shared_memory_bytes_allocated := shared_memory_bytes_allocated w - buf_size b,
                  registered_buffers := ?f\<rparr>"
  have sum: "total_size ?bs = unat (buf_size b) + total_size ?f"
    using assms Some by (intro total_size_filter) (simp_all add: tbm_wf_def)
  have le: "buf_size b \<le> shared_memory_bytes_allocated w"
    using sum tbm_bytes [OF assms] by (simp add: word_le_nat_alt)
  have "unat (shared_memory_bytes_allocated w - buf_size b) = total_size ?f"
    using le sum tbm_bytes [OF assms] by (simp add: unat_sub_le word_le_nat_alt)
  then have "shared_memory_bytes_allocated w - buf_size b = of_nat (total_size ?f)"
    by (metis of_nat_unat word_of_nat_eq_iff ucast_id unat_of_nat)
  moreover have "distinct (map fst ?f)" using assms by (simp add: tbm_wf_def distinct_map_filter)
  ultimately have "tbm_wf ?w" using assms sum by (auto simp: tbm_wf_def)
  moreover have "map_of ?f = (map_of ?bs)(bid := None)"
    by (rule map_of_filter_neq)
  ultimately show ?thesis using Some le by (auto simp: DestroyTransferBuffer_def)
qed

lemma TransferBufferManager_delete_loop_sum:
  "unat bytes = total_size bs \<Longrightarrow> TransferBufferManager_delete_loop bs bytes = Some 0"
  by (induction bs bytes rule: TransferBufferManager_delete_loop.induct)
     (auto simp: unat_sub_le word_le_nat_alt unat_eq_zero)

end
