(* ===== verification/Command_Buffer_Service.thy ===== *)
theory Command_Buffer_Service
  imports Transfer_Buffer_Manager
begin

section \<open>CommandBufferService: the service side of the command buffer\<close>

text \<open>
  Model of \<^verbatim>\<open>src/gpu/command_buffer/service/command_buffer_service.{h,cc}\<close> and of the \<open>State\<close> of
  \<^verbatim>\<open>src/gpu/command_buffer/common/command_buffer.h\<close>. The callbacks are parameters of the operations
  that run them, \<^const>\<open>None\<close> for one that was not set. The copy of the state in shared memory
  (\<open>shared_state_\<close>) is the last state written, if there is one. The outcome of the calls of
  \<open>base::SharedMemory\<close> is an argument, within the limits of
  \<^verbatim>\<open>src/base/memory/shared_memory_posix.cc\<close>.
\<close>

record CB_State =
  cs_num_entries :: u32
  cs_get_offset :: u32
  cs_put_offset :: u32
  cs_token :: u32
  cs_error :: Error
  cs_context_lost_reason :: ContextLostReason
  cs_generation :: u32

definition CB_State_new :: CB_State where
  "CB_State_new = \<lparr>cs_num_entries = 0, cs_get_offset = 0, cs_put_offset = 0, cs_token = - 1,
     cs_error = kNoError, cs_context_lost_reason = kUnknown, cs_generation = 0\<rparr>"

record CommandBufferService = TransferBufferManager +
  ring_buffer_id :: u32
  ring_buffer :: Buffer
  shared_state :: "CB_State option"
  num_entries :: u32
  get_offset :: u32
  put_offset :: u32
  cbs_token :: u32
  cbs_generation :: u32
  cbs_error :: Error
  cbs_context_lost_reason :: ContextLostReason
  next_id :: u32

type_synonym 'w callback = "('w \<Rightarrow> 'w option) option"

fun run_callback :: "'w callback \<Rightarrow> 'w \<Rightarrow> 'w option" where
  "run_callback None w = Some w"
| "run_callback (Some f) w = f w"

definition CommandBufferService_new ::
  "'a CommandBufferService_scheme \<Rightarrow> 'a CommandBufferService_scheme" where
  "CommandBufferService_new w = w\<lparr>ring_buffer_id := - 1, ring_buffer := Buffer_new,
     shared_state := None, num_entries := 0, get_offset := 0, put_offset := 0, cbs_token := 0,
     cbs_generation := 0, cbs_error := kNoError, cbs_context_lost_reason := kUnknown\<rparr>"

definition GetState ::
  "'a CommandBufferService_scheme \<Rightarrow> CB_State \<times> 'a CommandBufferService_scheme" where
  "GetState w =
     (let gen = cbs_generation w + 1 in
      (\<lparr>cs_num_entries = num_entries w, cs_get_offset = get_offset w, cs_put_offset = put_offset w,
        cs_token = cbs_token w, cs_error = cbs_error w,
        cs_context_lost_reason = cbs_context_lost_reason w, cs_generation = gen\<rparr>,
       w\<lparr>cbs_generation := gen\<rparr>))"

definition GetLastState ::
  "'a CommandBufferService_scheme \<Rightarrow> CB_State \<times> 'a CommandBufferService_scheme" where
  "GetLastState w = GetState w"

definition GetLastToken ::
  "'a CommandBufferService_scheme \<Rightarrow> u32 \<times> 'a CommandBufferService_scheme" where
  "GetLastToken w = (let (state, w) = GetState w in (cs_token state, w))"

definition GetLastError ::
  "'a CommandBufferService_scheme \<Rightarrow> Error \<times> 'a CommandBufferService_scheme" where
  "GetLastError w = (let (state, w) = GetLastState w in (cs_error state, w))"

definition CBS_UpdateState :: "'a CommandBufferService_scheme \<Rightarrow> 'a CommandBufferService_scheme" where
  "CBS_UpdateState w =
     (if shared_state w \<noteq> None then let (state, w) = GetState w in w\<lparr>shared_state := Some state\<rparr>
      else w)"

definition CBS_FlushSync ::
  "'a CommandBufferService_scheme callback \<Rightarrow> u32 \<Rightarrow> u32 \<Rightarrow> 'a CommandBufferService_scheme \<Rightarrow>
     (CB_State \<times> 'a CommandBufferService_scheme) option" where
  "CBS_FlushSync put_offset_change_callback put last_known_get w =
     (if sint put < 0 \<or> sint (num_entries w) < sint put
      then Some (GetState (w\<lparr>cbs_error := kOutOfBounds\<rparr>))
      else do {
        w \<leftarrow> run_callback put_offset_change_callback (w\<lparr>put_offset := put\<rparr>);
        Some (GetState w)
      })"

definition CBS_Flush ::
  "'a CommandBufferService_scheme callback \<Rightarrow> u32 \<Rightarrow> 'a CommandBufferService_scheme \<Rightarrow>
     'a CommandBufferService_scheme option" where
  "CBS_Flush put_offset_change_callback put w =
     (if sint put < 0 \<or> sint (num_entries w) < sint put
      then Some (w\<lparr>cbs_error := kOutOfBounds\<rparr>)
      else run_callback put_offset_change_callback (w\<lparr>put_offset := put\<rparr>))"

definition CBS_SetGetOffset ::
  "u32 \<Rightarrow> 'a CommandBufferService_scheme \<Rightarrow> 'a CommandBufferService_scheme option" where
  "CBS_SetGetOffset get w = do {
     dcheck (0 \<le> sint get \<and> sint get < sint (num_entries w));
     Some (w\<lparr>get_offset := get\<rparr>)
   }"

definition CBS_SetGetBuffer ::
  "(u32 \<Rightarrow> 'a CommandBufferService_scheme \<Rightarrow> (bool \<times> 'a CommandBufferService_scheme) option) option \<Rightarrow>
     u32 \<Rightarrow> 'a CommandBufferService_scheme \<Rightarrow> 'a CommandBufferService_scheme option" where
  "CBS_SetGetBuffer get_buffer_change_callback transfer_buffer_id w = do {
     dcheck (ring_buffer_id w = - 1);
     dcheck (put_offset w = get_offset w);
     let w = w\<lparr>ring_buffer := GetTransferBuffer transfer_buffer_id w\<rparr>;
     dcheck (buf_ptr (ring_buffer w) \<noteq> None);
     let w = w\<lparr>ring_buffer_id := transfer_buffer_id,
               num_entries := ucast (buf_size (ring_buffer w) div 4), put_offset := 0\<rparr>;
     w \<leftarrow> CBS_SetGetOffset 0 w;
     w \<leftarrow> (case get_buffer_change_callback of
             None \<Rightarrow> Some w
           | Some run \<Rightarrow> map_option snd (run (ring_buffer_id w) w));
     Some (CBS_UpdateState w)
   }"

text \<open>\<open>Map\<close> refuses a size of more than \<open>INT_MAX\<close> bytes; otherwise the answer is the system's.\<close>

definition SharedMemory_Map :: "bool \<Rightarrow> u64 \<Rightarrow> bool" where
  "SharedMemory_Map os_ok sz \<longleftrightarrow> sz \<le> 0x7FFFFFFF \<and> os_ok"

text \<open>\<open>CreateAnonymous\<close>: a new region of zeroes, or nothing.\<close>

definition SharedMemory_CreateAnonymous ::
  "bool \<Rightarrow> u64 \<Rightarrow> 'a Memory_scheme \<Rightarrow> (nat \<times> 'a Memory_scheme) option" where
  "SharedMemory_CreateAnonymous os_ok sz w =
     (if sz = 0 \<or> 0x7FFFFFFF < sz \<or> \<not> os_ok then None
      else Some (length (shm w), w\<lparr>shm := shm w @ [replicate (unat sz) 0]\<rparr>))"

definition SetSharedStateBuffer ::
  "bool \<Rightarrow> 'a CommandBufferService_scheme \<Rightarrow> bool \<times> 'a CommandBufferService_scheme" where
  "SetSharedStateBuffer map_ok w =
     (if \<not> map_ok then (False, w)
      else (True, CBS_UpdateState (w\<lparr>shared_state := Some CB_State_new\<rparr>)))"

text \<open>
  \<open>CreateTransferBuffer\<close>; \<open>os = (create_ok, share_ok, map_ok)\<close>. The static counter \<open>next_id\<close>
  is a field of the state.
\<close>

definition CreateTransferBuffer ::
  "bool \<times> bool \<times> bool \<Rightarrow> u64 \<Rightarrow> 'a CommandBufferService_scheme \<Rightarrow>
     (Buffer \<times> u32) \<times> 'a CommandBufferService_scheme" where
  "CreateTransferBuffer os sz w =
     (case os of (create_ok, share_ok, map_ok) \<Rightarrow>
      case SharedMemory_CreateAnonymous create_ok sz w of
        None \<Rightarrow> ((Buffer_new, - 1), w)
      | Some (r, w) \<Rightarrow>
          let bid = next_id w;
              w = w\<lparr>next_id := next_id w + 1\<rparr>;
              (ok, w) = RegisterTransferBuffer share_ok (SharedMemory_Map map_ok sz) bid r sz w
          in if \<not> ok then ((Buffer_new, - 1), w)
             else ((GetTransferBuffer bid w, bid), w))"

definition CBS_DestroyTransferBuffer ::
  "u32 \<Rightarrow> 'a CommandBufferService_scheme \<Rightarrow> 'a CommandBufferService_scheme option" where
  "CBS_DestroyTransferBuffer bid w = do {
     w \<leftarrow> DestroyTransferBuffer bid w;
     Some (if bid = ring_buffer_id w
           then w\<lparr>ring_buffer_id := - 1, ring_buffer := Buffer_new, num_entries := 0,
                  get_offset := 0, put_offset := 0\<rparr>
           else w)
   }"

definition CBS_SetToken ::
  "u32 \<Rightarrow> 'a CommandBufferService_scheme \<Rightarrow> 'a CommandBufferService_scheme" where
  "CBS_SetToken token w = CBS_UpdateState (w\<lparr>cbs_token := token\<rparr>)"

definition SetParseError ::
  "'a CommandBufferService_scheme callback \<Rightarrow> Error \<Rightarrow> 'a CommandBufferService_scheme \<Rightarrow>
     'a CommandBufferService_scheme option" where
  "SetParseError parse_error_callback error w =
     (if cbs_error w = kNoError then run_callback parse_error_callback (w\<lparr>cbs_error := error\<rparr>)
      else Some w)"

definition SetContextLostReason ::
  "ContextLostReason \<Rightarrow> 'a CommandBufferService_scheme \<Rightarrow> 'a CommandBufferService_scheme" where
  "SetContextLostReason reason w = w\<lparr>cbs_context_lost_reason := reason\<rparr>"

subsection \<open>The accounting of transfer buffers\<close>

text \<open>
  A buffer made by \<open>CreateTransferBuffer\<close> has at most \<open>INT_MAX\<close> bytes and a positive id, so that
  the sum of all sizes cannot wrap.
\<close>

definition small_buffers :: "'a TransferBufferManager_scheme \<Rightarrow> bool" where
  "small_buffers w \<longleftrightarrow> (\<forall>(bid, b) \<in> set (registered_buffers w). unat (buf_size b) \<le> 2 ^ 31)"

lemma registered_buffers_few:
  assumes "distinct (map fst bs)" "\<forall>(bid, b) \<in> set bs. 0 < sint (bid :: u32)"
  shows "length bs \<le> 2 ^ 31"
proof -
  have "unat i < 2 ^ 31" if "i \<in> fst ` set bs" for i
    using that assms(2) sint_nonneg_u32_iff [of i] by fastforce
  then have "unat ` set (map fst bs) \<subseteq> {..<2 ^ 31}" by auto
  moreover have "card (unat ` set (map fst bs)) = length bs"
    using distinct_card [OF assms(1)] by (subst card_image) (auto simp: inj_on_def word_unat_eq_iff)
  ultimately show ?thesis by (metis card_lessThan card_mono finite_lessThan)
qed

lemma total_size_le: "\<forall>(bid, b) \<in> set bs. unat (buf_size b) \<le> k \<Longrightarrow> total_size bs \<le> length bs * k"
  by (induction bs) auto

lemma small_buffers_total:
  assumes "tbm_wf w" "small_buffers w"
  shows "total_size (registered_buffers w) \<le> 2 ^ 62"
proof -
  have "length (registered_buffers w) \<le> 2 ^ 31"
    using assms(1) by (intro registered_buffers_few) (auto simp: tbm_wf_def)
  then have "length (registered_buffers w) * 2 ^ 31 \<le> 2 ^ 62" by simp
  with total_size_le [of "registered_buffers w" "2 ^ 31"] assms(2)
  show ?thesis unfolding small_buffers_def by (meson le_trans)
qed

lemma tbm_wf_grow:
  assumes "tbm_wf w" "shm w' = shm w @ ms" "registered_buffers w' = registered_buffers w"
    and "shared_memory_bytes_allocated w' = shared_memory_bytes_allocated w"
  shows "tbm_wf w'"
proof -
  have "buffer_ok (shm w') b" if "buffer_ok (shm w) b" for b
    using that by (auto simp: buffer_ok_def assms(2) nth_append split: option.splits)
  with assms show ?thesis by (auto simp: tbm_wf_def)
qed

lemma CreateTransferBuffer_wf:
  assumes "tbm_wf w" "small_buffers w" "CreateTransferBuffer os sz w = (res, w')"
  shows "tbm_wf w' \<and> small_buffers w'"
proof -
  obtain c sh mp where os: "os = (c, sh, mp)" by (cases os) auto
  show ?thesis
  proof (cases "SharedMemory_CreateAnonymous c sz w")
    case None
    with assms os show ?thesis by (simp add: CreateTransferBuffer_def)
  next
    case (Some rw)
    then have sz: "sz \<le> 0x7FFFFFFF" and rw: "rw = (length (shm w), w\<lparr>shm := shm w @ [replicate (unat sz) 0]\<rparr>)"
      by (auto simp: SharedMemory_CreateAnonymous_def not_less split: if_splits)
    let ?w = "w\<lparr>shm := shm w @ [replicate (unat sz) 0], next_id := next_id w + 1\<rparr>"
    have wf: "tbm_wf ?w" by (rule tbm_wf_grow [OF assms(1)]) simp_all
    have small: "small_buffers ?w" using assms(2) by (simp add: small_buffers_def)
    obtain ok v where reg: "RegisterTransferBuffer sh (SharedMemory_Map mp sz) (next_id w) (length (shm w)) sz ?w = (ok, v)"
      by fastforce
    have v: "w' = v" using assms(3) os Some rw reg by (auto simp: CreateTransferBuffer_def Let_def split: if_splits)
    have u: "unat sz \<le> 2 ^ 31" using sz by (simp add: word_le_nat_alt)
    then have "tbm_wf v"
      using small_buffers_total [OF wf small] by (intro RegisterTransferBuffer_wf [OF wf reg]) auto
    moreover have "small_buffers v"
      using reg small u by (auto simp: RegisterTransferBuffer_def small_buffers_def Let_def split: if_splits)
    ultimately show ?thesis by (simp add: v)
  qed
qed

lemma CBS_DestroyTransferBuffer_wf:
  assumes "tbm_wf w" "small_buffers w"
  shows "\<exists>w'. CBS_DestroyTransferBuffer bid w = Some w' \<and> tbm_wf w' \<and> small_buffers w'"
proof -
  obtain v where v: "DestroyTransferBuffer bid w = Some v" "tbm_wf v" using DestroyTransferBuffer_wf [OF assms(1)] by blast
  have "small_buffers v"
    using v(1) assms(2) by (auto simp: DestroyTransferBuffer_def small_buffers_def split: option.splits if_splits)
  let ?v = "v\<lparr>ring_buffer_id := - 1, ring_buffer := Buffer_new, num_entries := 0, get_offset := 0, put_offset := 0\<rparr>"
  have "tbm_wf ?v" by (rule tbm_wf_grow [OF v(2), where ms = "[]"]) simp_all
  moreover have "small_buffers ?v" using \<open>small_buffers v\<close> by (simp add: small_buffers_def)
  ultimately show ?thesis using v \<open>small_buffers v\<close> by (simp add: CBS_DestroyTransferBuffer_def)
qed

datatype BufferOp = DoCreate "bool \<times> bool \<times> bool" u64 | DoDestroy u32

fun run_buffer_op :: "BufferOp \<Rightarrow> 'a CommandBufferService_scheme \<Rightarrow> 'a CommandBufferService_scheme option" where
  "run_buffer_op (DoCreate os sz) w = Some (snd (CreateTransferBuffer os sz w))"
| "run_buffer_op (DoDestroy bid) w = CBS_DestroyTransferBuffer bid w"

fun run_buffer_ops :: "BufferOp list \<Rightarrow> 'a CommandBufferService_scheme \<Rightarrow> 'a CommandBufferService_scheme option" where
  "run_buffer_ops [] w = Some w"
| "run_buffer_ops (x # xs) w = run_buffer_op x w \<bind> run_buffer_ops xs"

lemma run_buffer_op_wf:
  assumes "tbm_wf w" "small_buffers w"
  shows "\<exists>w'. run_buffer_op x w = Some w' \<and> tbm_wf w' \<and> small_buffers w'"
proof (cases x)
  case (DoCreate os sz)
  with CreateTransferBuffer_wf [OF assms, of os sz] show ?thesis
    by (cases "CreateTransferBuffer os sz w") simp
qed (use CBS_DestroyTransferBuffer_wf [OF assms] in simp)

lemma run_buffer_ops_wf:
  "tbm_wf w \<Longrightarrow> small_buffers w \<Longrightarrow> \<exists>w'. run_buffer_ops xs w = Some w' \<and> tbm_wf w' \<and> small_buffers w'"
proof (induction xs arbitrary: w)
  case (Cons x xs)
  with run_buffer_op_wf [OF Cons.prems, of x] show ?case by fastforce
qed auto

text \<open>
  C20. Creating and destroying transfer buffers in any order, with any ids and sizes and whatever the
  operating system answers, fails no check of the manager: every call returns, the byte counter
  is the sum of the sizes of the registered buffers, every registered buffer lies in its region, and the
  destructor ends with a counter of 0.
\<close>

theorem transfer_buffer_accounting:
  "\<exists>w. run_buffer_ops ops (TransferBufferManager_new v) = Some w \<and>
     unat (shared_memory_bytes_allocated w) = total_size (registered_buffers w) \<and>
     (\<forall>bid. GetTransferBuffer bid w = Buffer_new \<or> buffer_ok (shm w) (GetTransferBuffer bid w)) \<and>
     TransferBufferManager_delete w = Some (w\<lparr>registered_buffers := [], shared_memory_bytes_allocated := 0\<rparr>)"
proof -
  have "tbm_wf (TransferBufferManager_new v)" "small_buffers (TransferBufferManager_new v)"
    by (simp_all add: tbm_wf_def small_buffers_def TransferBufferManager_new_def)
  then obtain w where w: "run_buffer_ops ops (TransferBufferManager_new v) = Some w" "tbm_wf w"
    using run_buffer_ops_wf by blast
  moreover have "GetTransferBuffer bid w = Buffer_new \<or> buffer_ok (shm w) (GetTransferBuffer bid w)" for bid
  proof (cases "buf_ptr (GetTransferBuffer bid w)")
    case None
    then show ?thesis
      using w(2) by (auto simp: GetTransferBuffer_def tbm_wf_def buffer_ok_def split: if_splits option.splits
          dest!: map_of_SomeD)
  qed (simp add: GetTransferBuffer_ok [OF w(2)])
  ultimately show ?thesis
    using tbm_bytes [OF w(2)]
    by (auto simp: TransferBufferManager_delete_def TransferBufferManager_delete_loop_sum)
qed

text \<open>
  C21. A registered buffer is found under its id until it is destroyed; destroying it restores every
  lookup and the byte counter, and ids that are not positive or already taken are refused without effect.
\<close>

theorem register_lookup_destroy:
  assumes "tbm_wf w" "RegisterTransferBuffer share_ok map_ok bid r sz w = (ok, w')"
    and "r < length (shm w)" "unat sz \<le> length (shm w ! r)"
    and "total_size (registered_buffers w) + unat sz < 2 ^ 64"
  shows "(ok \<longleftrightarrow> 0 < sint bid \<and> map_of (registered_buffers w) bid = None \<and> share_ok \<and> map_ok) \<and>
    (if ok then
       (\<forall>i. GetTransferBuffer i w' =
          (if i = bid then \<lparr>buf_ptr = Some (r, 0), buf_size = sz, buf_shared_memory = Some r\<rparr> else GetTransferBuffer i w)) \<and>
       (\<exists>w''. DestroyTransferBuffer bid w' = Some w'' \<and> (\<forall>i. GetTransferBuffer i w'' = GetTransferBuffer i w) \<and>
          shared_memory_bytes_allocated w'' = shared_memory_bytes_allocated w)
     else w' = w)"
proof (cases ok)
  case True
  have wf: "tbm_wf w'" by (rule RegisterTransferBuffer_wf [OF assms(1,2)]) (use assms in simp_all)
  let ?b = "\<lparr>buf_ptr = Some (r, 0), buf_size = sz, buf_shared_memory = Some r\<rparr>"
  have ok: "0 < sint bid" "map_of (registered_buffers w) bid = None" "share_ok" "map_ok"
    and w': "registered_buffers w' = (bid, ?b) # registered_buffers w"
      "shared_memory_bytes_allocated w' = shared_memory_bytes_allocated w + sz"
    using assms(2) True by (auto simp: RegisterTransferBuffer_def split: if_splits)
  obtain w'' where w'': "DestroyTransferBuffer bid w' = Some w''"
    "map_of (registered_buffers w'') = (map_of (registered_buffers w'))(bid := None)"
    using DestroyTransferBuffer_wf [OF wf] by blast
  have "bid \<noteq> 0" using ok(1) by auto
  then have "\<forall>i. GetTransferBuffer i w' = (if i = bid then ?b else GetTransferBuffer i w)"
    by (simp add: GetTransferBuffer_def w')
  moreover have "shared_memory_bytes_allocated w'' = shared_memory_bytes_allocated w"
    using w''(1) w' by (auto simp: DestroyTransferBuffer_def split: if_splits)
  moreover have "GetTransferBuffer i w'' = GetTransferBuffer i w" for i
    using w''(2) w'(1) ok(2) by (simp add: GetTransferBuffer_def)
  ultimately show ?thesis using True ok w''(1) by auto
qed (use assms(2) in \<open>auto simp: RegisterTransferBuffer_def not_le split: if_splits\<close>)

theorem register_lookup_destroy_witness:
  "\<exists>w'. RegisterTransferBuffer True True 7 0 16
       \<lparr>shm = [replicate 16 0], cp_get = 0, cp_put = 0, cp_buffer = None, cp_entry_count = 0,
        registered_buffers = [], shared_memory_bytes_allocated = 0\<rparr> = (True, w') \<and>
     buf_size (GetTransferBuffer 7 w') = 16 \<and> DestroyTransferBuffer 7 w' \<noteq> None"
proof -
  let ?w = "\<lparr>shm = [replicate 16 0], cp_get = 0, cp_put = 0, cp_buffer = None, cp_entry_count = 0,
        registered_buffers = [], shared_memory_bytes_allocated = 0\<rparr>"
  obtain w' where w': "RegisterTransferBuffer True True 7 0 16 ?w = (True, w')"
    by (simp add: RegisterTransferBuffer_def)
  have "tbm_wf ?w" by (simp add: tbm_wf_def)
  from register_lookup_destroy [OF this w'] w' show ?thesis by auto
qed

end
