(* ===== verification/Common_Decoder.thy ===== *)
theory Common_Decoder
  imports Command_Buffer_Service
begin

section \<open>CommonDecoder: the common commands\<close>

text \<open>
  Model of \<^verbatim>\<open>src/gpu/command_buffer/service/common_decoder.{h,cc}\<close>: the buckets, the checked access to
  shared memory and the handlers of the seven common commands. The engine is the scheduler,
  whose \<open>GetSharedMemoryBuffer\<close> and \<open>set_token\<close> forward to the command buffer service.
  A bucket's data is \<^const>\<open>None\<close> for the null pointer.
\<close>

subsection \<open>Buckets\<close>

record Bucket =
  bkt_size :: u64
  bkt_data :: "byte list option"

definition Bucket_new :: Bucket where
  "Bucket_new = \<lparr>bkt_size = 0, bkt_data = None\<rparr>"

definition OffsetSizeValid :: "u64 \<Rightarrow> u64 \<Rightarrow> Bucket \<Rightarrow> bool" where
  "OffsetSizeValid offset sz b \<longleftrightarrow>
     (let temp = offset + sz in temp \<le> bkt_size b \<and> offset \<le> temp)"

text \<open>The pointer that \<open>GetData\<close> returns, as an offset into the data; null if the data is.\<close>

definition Bucket_GetData :: "u64 \<Rightarrow> u64 \<Rightarrow> Bucket \<Rightarrow> nat option" where
  "Bucket_GetData offset sz b =
     (if OffsetSizeValid offset sz b then map_option (\<lambda>_. unat offset) (bkt_data b) else None)"

definition Bucket_SetSize :: "u64 \<Rightarrow> Bucket \<Rightarrow> Bucket" where
  "Bucket_SetSize sz b =
     (if sz \<noteq> bkt_size b
      then b\<lparr>bkt_data := (if sz \<noteq> 0 then Some (replicate (unat sz) 0) else None), bkt_size := sz\<rparr>
      else b)"

text \<open>\<open>src\<close> is the bytes that \<open>memcpy\<close> reads, so its length is the size.\<close>

definition Bucket_SetData :: "byte list \<Rightarrow> u64 \<Rightarrow> u64 \<Rightarrow> Bucket \<Rightarrow> bool \<times> Bucket" where
  "Bucket_SetData src offset sz b =
     (if OffsetSizeValid offset sz b
      then (True, b\<lparr>bkt_data := map_option (\<lambda>d. take (unat offset) d @ take (unat sz) src @
                                drop (unat offset + unat sz) d) (bkt_data b)\<rparr>)
      else (False, b))"

text \<open>A C string is the bytes before its terminator.\<close>

definition Bucket_SetFromString :: "byte list option \<Rightarrow> Bucket \<Rightarrow> Bucket" where
  "Bucket_SetFromString str b =
     (case str of
        None \<Rightarrow> Bucket_SetSize 0 b
      | Some s \<Rightarrow>
          let sz = of_nat (length s) + 1;
              b = Bucket_SetSize sz b
          in snd (Bucket_SetData (s @ [0]) 0 sz b))"

definition Bucket_GetAsString :: "Bucket \<Rightarrow> byte list option" where
  "Bucket_GetAsString b =
     (if bkt_size b = 0 then None
      else map_option (\<lambda>d. take (unat (bkt_size b) - 1) d) (bkt_data b))"

subsection \<open>The decoder\<close>

record CommonDecoder = CommandBufferService +
  engine_set :: bool
  buckets :: "u32 \<rightharpoonup> Bucket"

definition CommonDecoder_new :: "'a CommonDecoder_scheme \<Rightarrow> 'a CommonDecoder_scheme" where
  "CommonDecoder_new w = w\<lparr>engine_set := False, buckets := Map.empty\<rparr>"

definition GetSharedMemoryBuffer :: "u32 \<Rightarrow> 'a CommonDecoder_scheme \<Rightarrow> Buffer" where
  "GetSharedMemoryBuffer shm_id w = GetTransferBuffer shm_id w"

definition GetAddressAndCheckSize ::
  "u32 \<Rightarrow> u32 \<Rightarrow> u32 \<Rightarrow> 'a CommonDecoder_scheme \<Rightarrow> Ptr option option" where
  "GetAddressAndCheckSize shm_id offset sz w = do {
     dcheck (engine_set w);
     let buffer = GetSharedMemoryBuffer shm_id w;
     Some (case buf_ptr buffer of
             None \<Rightarrow> None
           | Some p \<Rightarrow>
               let end = offset + sz in
               if buf_size buffer < ucast end \<or> end < offset then None
               else Some (ptr_add p (unat offset)))
   }"

definition GetBucket :: "u32 \<Rightarrow> 'a CommonDecoder_scheme \<Rightarrow> Bucket option" where
  "GetBucket bucket_id w = buckets w bucket_id"

definition CreateBucket :: "u32 \<Rightarrow> 'a CommonDecoder_scheme \<Rightarrow> Bucket \<times> 'a CommonDecoder_scheme" where
  "CreateBucket bucket_id w =
     (case GetBucket bucket_id w of
        Some bucket \<Rightarrow> (bucket, w)
      | None \<Rightarrow> (Bucket_new, w\<lparr>buckets := (buckets w)(bucket_id \<mapsto> Bucket_new)\<rparr>))"

text \<open>The fields of the structure at \<open>cmd_data\<close>, as a function of the entry index.\<close>

fun load_args :: "byte list list \<Rightarrow> Ptr \<Rightarrow> nat \<Rightarrow> (nat \<Rightarrow> u32) option" where
  "load_args m p 0 = Some (\<lambda>_. 0)"
| "load_args m p (Suc n) = do {
     f \<leftarrow> load_args m p n;
     e \<leftarrow> load32 m (ptr_add p (4 * n));
     Some (f(n := e))
   }"

definition HandleNoop ::
  "u32 \<Rightarrow> Ptr \<Rightarrow> 'a CommonDecoder_scheme \<Rightarrow> (Error \<times> 'a CommonDecoder_scheme) option" where
  "HandleNoop immediate_data_size cmd_data w = Some (kNoError, w)"

definition HandleSetToken ::
  "u32 \<Rightarrow> Ptr \<Rightarrow> 'a CommonDecoder_scheme \<Rightarrow> (Error \<times> 'a CommonDecoder_scheme) option" where
  "HandleSetToken immediate_data_size cmd_data w = do {
     f \<leftarrow> load_args (shm w) cmd_data 2;
     let args = SetToken_at f;
     Some (kNoError, CBS_SetToken (st_token args) w)
   }"

definition HandleSetBucketSize ::
  "u32 \<Rightarrow> Ptr \<Rightarrow> 'a CommonDecoder_scheme \<Rightarrow> (Error \<times> 'a CommonDecoder_scheme) option" where
  "HandleSetBucketSize immediate_data_size cmd_data w = do {
     f \<leftarrow> load_args (shm w) cmd_data 3;
     let args = SetBucketSize_at f;
     let bucket_id = sbs_bucket_id args;
     let sz = sbs_size args;
     let (bucket, w) = CreateBucket bucket_id w;
     Some (kNoError, w\<lparr>buckets := (buckets w)(bucket_id \<mapsto> Bucket_SetSize (ucast sz) bucket)\<rparr>)
   }"

definition HandleSetBucketData ::
  "u32 \<Rightarrow> Ptr \<Rightarrow> 'a CommonDecoder_scheme \<Rightarrow> (Error \<times> 'a CommonDecoder_scheme) option" where
  "HandleSetBucketData immediate_data_size cmd_data w = do {
     f \<leftarrow> load_args (shm w) cmd_data 6;
     let args = SetBucketData_at f;
     let bucket_id = sbd_bucket_id args;
     let offset = sbd_offset args;
     let sz = sbd_size args;
     data \<leftarrow> GetAddressAndCheckSize (sbd_shared_memory_id args) (sbd_shared_memory_offset args) sz w;
     (case data of
        None \<Rightarrow> Some (kInvalidArguments, w)
      | Some p \<Rightarrow>
          (case GetBucket bucket_id w of
             None \<Rightarrow> Some (kInvalidArguments, w)
           | Some bucket \<Rightarrow> do {
               src \<leftarrow> mem_load (shm w) p (unat sz);
               let (ok, bucket) = Bucket_SetData src (ucast offset) (ucast sz) bucket;
               if \<not> ok then Some (kInvalidArguments, w)
               else Some (kNoError, w\<lparr>buckets := (buckets w)(bucket_id \<mapsto> bucket)\<rparr>)
             }))
   }"

definition HandleSetBucketDataImmediate ::
  "u32 \<Rightarrow> Ptr \<Rightarrow> 'a CommonDecoder_scheme \<Rightarrow> (Error \<times> 'a CommonDecoder_scheme) option" where
  "HandleSetBucketDataImmediate immediate_data_size cmd_data w = do {
     f \<leftarrow> load_args (shm w) cmd_data 4;
     let args = SetBucketDataImmediate_at f;
     let data = ptr_add cmd_data (unat (sizeof_cmd kSetBucketDataImmediate));
     let bucket_id = sbi_bucket_id args;
     let offset = sbi_offset args;
     let sz = sbi_size args;
     if immediate_data_size < sz then Some (kInvalidArguments, w)
     else (case GetBucket bucket_id w of
             None \<Rightarrow> Some (kInvalidArguments, w)
           | Some bucket \<Rightarrow> do {
               src \<leftarrow> mem_load (shm w) data (unat sz);
               let (ok, bucket) = Bucket_SetData src (ucast offset) (ucast sz) bucket;
               if \<not> ok then Some (kInvalidArguments, w)
               else Some (kNoError, w\<lparr>buckets := (buckets w)(bucket_id \<mapsto> bucket)\<rparr>)
             })
   }"

text \<open>The bytes that \<open>memcpy\<close> reads from the pointer \<open>GetData\<close> gave (none, if that is null).\<close>

definition bucket_bytes :: "Bucket \<Rightarrow> nat option \<Rightarrow> nat \<Rightarrow> byte list" where
  "bucket_bytes b src n =
     (case (src, bkt_data b) of (Some i, Some d) \<Rightarrow> take n (drop i d) | _ \<Rightarrow> [])"

definition HandleGetBucketStart ::
  "u32 \<Rightarrow> Ptr \<Rightarrow> 'a CommonDecoder_scheme \<Rightarrow> (Error \<times> 'a CommonDecoder_scheme) option" where
  "HandleGetBucketStart immediate_data_size cmd_data w = do {
     f \<leftarrow> load_args (shm w) cmd_data 7;
     let args = GetBucketStart_at f;
     let bucket_id = gbs_bucket_id args;
     result \<leftarrow> GetAddressAndCheckSize (gbs_result_memory_id args) (gbs_result_memory_offset args) 4 w;
     let data_memory_id = gbs_data_memory_id args;
     let data_memory_offset = gbs_data_memory_offset args;
     let data_memory_size = gbs_data_memory_size args;
     let wants_data = (data_memory_size \<noteq> 0 \<or> data_memory_id \<noteq> 0 \<or> data_memory_offset \<noteq> 0);
     data \<leftarrow> (if wants_data
              then GetAddressAndCheckSize data_memory_id data_memory_offset data_memory_size w
              else Some None);
     if wants_data \<and> data = None then Some (kInvalidArguments, w)
     else (case result of
        None \<Rightarrow> Some (kInvalidArguments, w)
      | Some r \<Rightarrow> do {
          old \<leftarrow> load32 (shm w) r;
          if old \<noteq> 0 then Some (kInvalidArguments, w)
          else (case GetBucket bucket_id w of
             None \<Rightarrow> Some (kInvalidArguments, w)
           | Some bucket \<Rightarrow> do {
               let bucket_size = (ucast (bkt_size bucket) :: u32);
               m \<leftarrow> store32 (shm w) r bucket_size;
               m \<leftarrow> (case data of
                       None \<Rightarrow> Some m
                     | Some p \<Rightarrow>
                         let sz = min data_memory_size bucket_size
                         in mem_store m p (bucket_bytes bucket (Bucket_GetData 0 (ucast sz) bucket) (unat sz)));
               Some (kNoError, w\<lparr>shm := m\<rparr>)
             })
        })
   }"

definition HandleGetBucketData ::
  "u32 \<Rightarrow> Ptr \<Rightarrow> 'a CommonDecoder_scheme \<Rightarrow> (Error \<times> 'a CommonDecoder_scheme) option" where
  "HandleGetBucketData immediate_data_size cmd_data w = do {
     f \<leftarrow> load_args (shm w) cmd_data 6;
     let args = GetBucketData_at f;
     let bucket_id = gbd_bucket_id args;
     let offset = gbd_offset args;
     let sz = gbd_size args;
     data \<leftarrow> GetAddressAndCheckSize (gbd_shared_memory_id args) (gbd_shared_memory_offset args) sz w;
     (case data of
        None \<Rightarrow> Some (kInvalidArguments, w)
      | Some p \<Rightarrow>
          (case GetBucket bucket_id w of
             None \<Rightarrow> Some (kInvalidArguments, w)
           | Some bucket \<Rightarrow>
               let src = Bucket_GetData (ucast offset) (ucast sz) bucket in
               if src = None then Some (kInvalidArguments, w)
               else do {
                 m \<leftarrow> mem_store (shm w) p (bucket_bytes bucket src (unat sz));
                 Some (kNoError, w\<lparr>shm := m\<rparr>)
               }))
   }"

definition g_command_info :: "(ArgFlags \<times> u32) list" where
  "g_command_info = map (\<lambda>c. (kArgFlags c, ucast (sizeof_cmd c div 4 - 1))) common_commands"

fun Handle ::
  "CommandId \<Rightarrow> u32 \<Rightarrow> Ptr \<Rightarrow> 'a CommonDecoder_scheme \<Rightarrow> (Error \<times> 'a CommonDecoder_scheme) option" where
  "Handle kNoop = HandleNoop"
| "Handle kSetToken = HandleSetToken"
| "Handle kSetBucketSize = HandleSetBucketSize"
| "Handle kSetBucketData = HandleSetBucketData"
| "Handle kSetBucketDataImmediate = HandleSetBucketDataImmediate"
| "Handle kGetBucketStart = HandleGetBucketStart"
| "Handle kGetBucketData = HandleGetBucketData"

definition DoCommonCommand :: "'a CommonDecoder_scheme DoCommand" where
  "DoCommonCommand command arg_count cmd_data w =
     (if unat command < length g_command_info then
        let (arg_flags, info_arg_count) = g_command_info ! unat command in
        if (arg_flags = kFixed \<and> arg_count = info_arg_count) \<or>
           (arg_flags = kAtLeastN \<and> info_arg_count \<le> arg_count)
        then
          let immediate_data_size = (arg_count - info_arg_count) * 4
          in Handle (common_commands ! unat command) immediate_data_size cmd_data w
        else Some (kInvalidArguments, w)
      else Some (kUnknownCommand, w))"

subsection \<open>Invariants\<close>

definition bkt_wf :: "Bucket \<Rightarrow> bool" where
  "bkt_wf b \<longleftrightarrow>
     (case bkt_data b of None \<Rightarrow> bkt_size b = 0 | Some d \<Rightarrow> d \<noteq> [] \<and> length d = unat (bkt_size b))"

definition dec_wf :: "'a CommonDecoder_scheme \<Rightarrow> bool" where
  "dec_wf w \<longleftrightarrow> tbm_wf w \<and> engine_set w \<and> (\<forall>b \<in> ran (buckets w). bkt_wf b)"

text \<open>The memory a client has shared with the service.\<close>

definition registered_regions :: "'a TransferBufferManager_scheme \<Rightarrow> nat set" where
  "registered_regions w = {r. \<exists>b \<in> snd ` set (registered_buffers w). buf_shared_memory b = Some r}"

text \<open>
  What a command may change: buckets, the token (with its copy in the shared state), and
  bytes of registered buffers, whose size stays.
\<close>

definition dec_step :: "'a CommonDecoder_scheme \<Rightarrow> 'a CommonDecoder_scheme \<Rightarrow> bool" where
  "dec_step w w' \<longleftrightarrow>
     (\<exists>m bk t g s.
        w' = w\<lparr>shm := m, buckets := bk, cbs_token := t, cbs_generation := g, shared_state := s\<rparr> \<and>
        length m = length (shm w) \<and> (\<forall>r. length (m ! r) = length (shm w ! r)) \<and>
        (\<forall>r. r \<notin> registered_regions w \<longrightarrow> m ! r = shm w ! r))"

lemma load_args_total:
  assumes "in_bounds m p (4 * n)"
  obtains f where "load_args m p n = Some f" "\<And>i. i < n \<Longrightarrow> load32 m (ptr_add p (4 * i)) = Some (f i)"
proof -
  have "\<exists>f. load_args m p n = Some f \<and> (\<forall>i < n. load32 m (ptr_add p (4 * i)) = Some (f i))"
    using assms
  proof (induction n)
    case (Suc n)
    then obtain f where f: "load_args m p n = Some f" "\<forall>i < n. load32 m (ptr_add p (4 * i)) = Some (f i)"
      by (auto simp: in_bounds_def)
    moreover obtain e where "load32 m (ptr_add p (4 * n)) = Some e"
      using load32_total [of "ptr_add p (4 * n)" m] Suc.prems by (auto simp: in_bounds_def)
    ultimately show ?case by (auto simp: less_Suc_eq)
  qed simp
  with that show thesis by blast
qed

lemma load_args_Some:
  assumes "in_bounds m p k" "4 * n \<le> k"
  shows "\<exists>f. load_args m p n = Some f"
  by (rule load_args_total [of m p n]) (use assms in \<open>auto simp: in_bounds_def\<close>)

subsection \<open>Buckets keep their invariant\<close>

lemma Bucket_new_wf [simp]: "bkt_wf Bucket_new"
  by (simp add: bkt_wf_def Bucket_new_def)

lemma Bucket_SetSize_wf [simp]: "bkt_wf b \<Longrightarrow> bkt_wf (Bucket_SetSize sz b)"
  by (auto simp: Bucket_SetSize_def bkt_wf_def unat_eq_zero)

lemma OffsetSizeValid_iff:
  "OffsetSizeValid offset sz b \<longleftrightarrow> unat offset + unat sz \<le> unat (bkt_size b)"
proof -
  have "offset \<le> offset + sz \<longleftrightarrow> unat offset + unat sz < 2 ^ 64"
    using no_olen_add_nat [of offset sz] by simp
  moreover have "unat (bkt_size b) < 2 ^ 64" using unsigned_less [of "bkt_size b"] by simp
  ultimately show ?thesis
    using unat_add_less [of offset sz]
    by (auto simp: OffsetSizeValid_def Let_def word_le_nat_alt)
qed

lemma Bucket_SetData_wf:
  assumes "bkt_wf b" "length src = unat sz" "Bucket_SetData src offset sz b = (ok, b')"
  shows "bkt_wf b'"
proof (cases "OffsetSizeValid offset sz b")
  case True
  with assms have "b' = b\<lparr>bkt_data := map_option (\<lambda>d. take (unat offset) d @ src @
      drop (unat offset + unat sz) d) (bkt_data b)\<rparr>" by (simp add: Bucket_SetData_def)
  with True assms(1,2) show ?thesis
    by (auto simp: bkt_wf_def OffsetSizeValid_iff split: option.splits)
next
  case False
  with assms show ?thesis by (simp add: Bucket_SetData_def)
qed

lemma length_bucket_bytes:
  assumes "bkt_wf b"
  shows "length (bucket_bytes b (Bucket_GetData offset sz b) (unat sz)) \<le> unat sz"
    and "Bucket_GetData offset sz b \<noteq> None \<Longrightarrow>
      length (bucket_bytes b (Bucket_GetData offset sz b) (unat sz)) = unat sz"
  using assms
  by (auto simp: bucket_bytes_def Bucket_GetData_def OffsetSizeValid_iff bkt_wf_def
      split: option.splits if_splits)

subsection \<open>Checked access to shared memory\<close>

lemma add_le_self_u32: "(offset :: u32) \<le> offset + sz \<longleftrightarrow> unat offset + unat sz < 2 ^ 32"
  using no_olen_add_nat [of offset sz] by simp

lemma GetAddressAndCheckSize_iff:
  assumes "engine_set w"
  shows "GetAddressAndCheckSize shm_id offset sz w = Some (Some q) \<longleftrightarrow>
    (\<exists>p. buf_ptr (GetTransferBuffer shm_id w) = Some p \<and> q = ptr_add p (unat offset) \<and>
       unat offset + unat sz \<le> unat (buf_size (GetTransferBuffer shm_id w)) \<and>
       unat offset + unat sz < 2 ^ 32)"
proof -
  have "\<not> (buf_size b < ucast (offset + sz) \<or> offset + sz < offset) \<longleftrightarrow>
      unat offset + unat sz \<le> unat (buf_size b) \<and> unat offset + unat sz < 2 ^ 32" for b
    using add_le_self_u32 [of offset sz] unat_add_less [of offset sz]
    by (auto simp: not_less word_le_nat_alt)
  then show ?thesis
    using assms
    by (auto simp: GetAddressAndCheckSize_def GetSharedMemoryBuffer_def Let_def split: option.splits)
qed

lemma GetAddressAndCheckSize_total:
  assumes "engine_set w"
  shows "\<exists>q. GetAddressAndCheckSize shm_id offset sz w = Some q"
  using assms by (simp add: GetAddressAndCheckSize_def Let_def)

lemma GetAddressAndCheckSize_ok:
  assumes "dec_wf w" "GetAddressAndCheckSize shm_id offset sz w = Some (Some q)"
  shows "in_bounds (shm w) q (unat sz)" "fst q \<in> registered_regions w"
proof -
  have e: "engine_set w" "tbm_wf w" using assms(1) by (auto simp: dec_wf_def)
  obtain p where p: "buf_ptr (GetTransferBuffer shm_id w) = Some p" "q = ptr_add p (unat offset)"
      "unat offset + unat sz \<le> unat (buf_size (GetTransferBuffer shm_id w))"
    using assms(2) by (auto simp: GetAddressAndCheckSize_iff [OF e(1)])
  have "buffer_ok (shm w) (GetTransferBuffer shm_id w)" using GetTransferBuffer_ok [OF e(2)] p(1) by simp
  with p show "in_bounds (shm w) q (unat sz)"
    by (auto simp: buffer_ok_def in_bounds_def split: prod.splits)
  have "GetTransferBuffer shm_id w \<in> snd ` set (registered_buffers w)"
    using p(1) by (force simp: GetTransferBuffer_def Buffer_new_def split: if_splits option.splits
        dest: map_of_SomeD)
  with p \<open>buffer_ok _ _\<close> show "fst q \<in> registered_regions w"
    unfolding registered_regions_def buffer_ok_def by (fastforce split: prod.splits)
qed

subsection \<open>What every handler guarantees\<close>

text \<open>
  \<open>handled w r\<close>: the handler returned, kept the invariant, changed only what a command may,
  and changed nothing if it reports an error.
\<close>

definition handled :: "'a CommonDecoder_scheme \<Rightarrow> (Error \<times> 'a CommonDecoder_scheme) option \<Rightarrow> bool" where
  "handled w r \<longleftrightarrow>
     (\<exists>e w'. r = Some (e, w') \<and> dec_wf w' \<and> dec_step w w' \<and> (e \<noteq> kNoError \<longrightarrow> w' = w) \<and>
        e \<in> {kNoError, kInvalidArguments, kUnknownCommand})"

lemma dec_step_refl: "dec_step w w"
  unfolding dec_step_def
  by (rule exI [of _ "shm w"], rule exI [of _ "buckets w"], rule exI [of _ "cbs_token w"],
      rule exI [of _ "cbs_generation w"], rule exI [of _ "shared_state w"]) simp

lemma handled_same [simp]:
  "dec_wf w \<Longrightarrow> handled w (Some (kNoError, w))" "dec_wf w \<Longrightarrow> handled w (Some (kInvalidArguments, w))"
  "dec_wf w \<Longrightarrow> handled w (Some (kUnknownCommand, w))"
  by (auto simp: handled_def dec_step_refl)

lemma tbm_wf_cong:
  assumes "registered_buffers w' = registered_buffers w" "length (shm w') = length (shm w)"
    and "\<forall>r. length (shm w' ! r) = length (shm w ! r)"
    and "shared_memory_bytes_allocated w' = shared_memory_bytes_allocated w"
  shows "tbm_wf w' = tbm_wf w"
proof -
  have "buffer_ok (shm w') b = buffer_ok (shm w) b" for b
    using assms(2,3) by (auto simp: buffer_ok_def split: option.splits)
  with assms(1,4) show ?thesis by (simp add: tbm_wf_def)
qed

lemma handled_buckets:
  assumes "dec_wf w" "bkt_wf b"
  shows "handled w (Some (kNoError, w\<lparr>buckets := (buckets w)(i \<mapsto> b)\<rparr>))"
proof -
  let ?w = "w\<lparr>buckets := (buckets w)(i \<mapsto> b)\<rparr>"
  have "tbm_wf ?w = tbm_wf w" by (rule tbm_wf_cong) simp_all
  then have "dec_wf ?w" using assms by (auto simp: dec_wf_def ran_def)
  moreover have "dec_step w ?w"
    unfolding dec_step_def
    by (rule exI [of _ "shm w"], rule exI [of _ "(buckets w)(i \<mapsto> b)"], rule exI [of _ "cbs_token w"],
        rule exI [of _ "cbs_generation w"], rule exI [of _ "shared_state w"]) simp
  ultimately show ?thesis by (simp add: handled_def)
qed

lemma handled_memory:
  assumes "dec_wf w" "length m = length (shm w)" "\<forall>r. length (m ! r) = length (shm w ! r)"
    and "\<forall>r. r \<notin> registered_regions w \<longrightarrow> m ! r = shm w ! r"
  shows "handled w (Some (kNoError, w\<lparr>shm := m\<rparr>))"
proof -
  let ?w = "w\<lparr>shm := m\<rparr>"
  have "tbm_wf ?w = tbm_wf w" using assms by (intro tbm_wf_cong) simp_all
  then have "dec_wf ?w" using assms(1) by (simp add: dec_wf_def)
  moreover have "dec_step w ?w"
    unfolding dec_step_def
    by (rule exI [of _ m], rule exI [of _ "buckets w"], rule exI [of _ "cbs_token w"],
        rule exI [of _ "cbs_generation w"], rule exI [of _ "shared_state w"]) (use assms in simp)
  ultimately show ?thesis by (simp add: handled_def)
qed

lemma CBS_SetToken_eq:
  "\<exists>g s. CBS_SetToken t w = w\<lparr>cbs_token := t, cbs_generation := g, shared_state := s\<rparr>"
proof (cases "shared_state w")
  case None
  then have "CBS_SetToken t w =
      w\<lparr>cbs_token := t, cbs_generation := cbs_generation w, shared_state := shared_state w\<rparr>"
    by (simp add: CBS_SetToken_def CBS_UpdateState_def)
  then show ?thesis by blast
next
  case (Some s)
  then have "\<exists>st. CBS_SetToken t w =
      w\<lparr>cbs_token := t, cbs_generation := cbs_generation w + 1, shared_state := Some st\<rparr>"
    by (auto simp: CBS_SetToken_def CBS_UpdateState_def GetState_def Let_def)
  then show ?thesis by blast
qed

lemma handled_SetToken:
  assumes "dec_wf (w :: 'a CommonDecoder_scheme)"
  shows "handled w (Some (kNoError, CBS_SetToken t w))"
proof -
  obtain g s where eq: "CBS_SetToken t w = w\<lparr>cbs_token := t, cbs_generation := g, shared_state := s\<rparr>"
    using CBS_SetToken_eq by blast
  let ?w = "w\<lparr>cbs_token := t, cbs_generation := g, shared_state := s\<rparr>"
  have "tbm_wf ?w = tbm_wf w" by (rule tbm_wf_cong) simp_all
  then have "dec_wf ?w" using assms by (simp add: dec_wf_def)
  moreover have "dec_step w ?w"
    unfolding dec_step_def
    by (rule exI [of _ "shm w"], rule exI [of _ "buckets w"], rule exI [of _ t],
        rule exI [of _ g], rule exI [of _ s]) simp
  ultimately show ?thesis by (simp add: handled_def eq)
qed

subsection \<open>The handlers\<close>

lemma bucket_wf: "dec_wf w \<Longrightarrow> GetBucket i w = Some b \<Longrightarrow> bkt_wf b"
  by (auto simp: dec_wf_def GetBucket_def ran_def)

lemma HandleSetBucketSize_handled:
  assumes "dec_wf w" "in_bounds (shm w) p 12"
  shows "handled w (HandleSetBucketSize n p w)"
proof -
  obtain f where f: "load_args (shm w) p 3 = Some f" using load_args_Some [OF assms(2), of 3] by auto
  let ?i = "sbs_bucket_id (SetBucketSize_at f)" and ?sz = "ucast (sbs_size (SetBucketSize_at f)) :: u64"
  let ?b = "case GetBucket ?i w of Some b \<Rightarrow> b | None \<Rightarrow> Bucket_new"
  have "HandleSetBucketSize n p w =
      Some (kNoError, w\<lparr>buckets := (buckets w)(?i \<mapsto> Bucket_SetSize ?sz ?b)\<rparr>)"
    using f by (auto simp: HandleSetBucketSize_def CreateBucket_def Let_def split: option.splits)
  moreover have "bkt_wf ?b" using bucket_wf [OF assms(1)] by (auto split: option.splits)
  ultimately show ?thesis using handled_buckets [OF assms(1)] by simp
qed

lemma SetData_handled:
  assumes "dec_wf w" "in_bounds (shm w) q (unat (sz :: u32))" "GetBucket i w = Some bucket"
  shows "handled w (do {
       src \<leftarrow> mem_load (shm w) q (unat sz);
       let (ok, bucket) = Bucket_SetData src (ucast (offset :: u32)) (ucast sz) bucket;
       if \<not> ok then Some (kInvalidArguments, w)
       else Some (kNoError, w\<lparr>buckets := (buckets w)(i \<mapsto> bucket)\<rparr>)
     })"
proof -
  obtain src where src: "mem_load (shm w) q (unat sz) = Some src" "length src = unat sz"
    using in_bounds_load [OF assms(2)] by blast
  obtain ok b' where sd: "Bucket_SetData src (ucast offset) (ucast sz) bucket = (ok, b')" by fastforce
  have "bkt_wf b'"
    using Bucket_SetData_wf [OF bucket_wf [OF assms(1,3)] _ sd] src(2) by simp
  with src sd assms(1) handled_buckets [OF assms(1)] show ?thesis by auto
qed

lemma HandleSetBucketData_handled:
  assumes "dec_wf w" "in_bounds (shm w) p 24"
  shows "handled w (HandleSetBucketData n p w)"
proof -
  obtain f where f: "load_args (shm w) p 6 = Some f" using load_args_Some [OF assms(2), of 6] by auto
  let ?a = "SetBucketData_at f"
  obtain d where d: "GetAddressAndCheckSize (sbd_shared_memory_id ?a) (sbd_shared_memory_offset ?a) (sbd_size ?a) w = Some d"
    using GetAddressAndCheckSize_total assms(1) unfolding dec_wf_def by blast
  show ?thesis
  proof (cases d)
    case None
    with f d assms(1) show ?thesis by (simp add: HandleSetBucketData_def)
  next
    case (Some q)
    note q = GetAddressAndCheckSize_ok(1) [OF assms(1) d [unfolded Some]]
    show ?thesis
    proof (cases "GetBucket (sbd_bucket_id ?a) w")
      case None
      with Some f d assms(1) show ?thesis by (simp add: HandleSetBucketData_def)
    next
      case (Some bucket)
      with SetData_handled [OF assms(1) q Some, of "sbd_offset ?a"] f d \<open>d = Some q\<close> show ?thesis
        by (simp add: HandleSetBucketData_def Let_def)
    qed
  qed
qed

lemma HandleSetBucketDataImmediate_handled:
  assumes "dec_wf w" "in_bounds (shm w) p (16 + unat n)"
  shows "handled w (HandleSetBucketDataImmediate n p w)"
proof -
  obtain f where f: "load_args (shm w) p 4 = Some f" using load_args_Some [OF assms(2), of 4] by auto
  let ?a = "SetBucketDataImmediate_at f"
  show ?thesis
  proof (cases "n < sbi_size ?a")
    case True
    with f assms(1) show ?thesis by (simp add: HandleSetBucketDataImmediate_def)
  next
    case False
    then have "in_bounds (shm w) (ptr_add p 16) (unat (sbi_size ?a))"
      using assms(2) by (auto simp: in_bounds_def not_less word_le_nat_alt)
    note h = SetData_handled [OF assms(1) this, of "sbi_bucket_id ?a" _ "sbi_offset ?a"]
    show ?thesis
      using False f assms(1) h
      by (cases "GetBucket (sbi_bucket_id ?a) w") (simp_all add: HandleSetBucketDataImmediate_def Let_def)
  qed
qed

lemma HandleGetBucketData_handled:
  assumes "dec_wf w" "in_bounds (shm w) p 24"
  shows "handled w (HandleGetBucketData n p w)"
proof -
  obtain f where f: "load_args (shm w) p 6 = Some f" using load_args_Some [OF assms(2), of 6] by auto
  let ?a = "GetBucketData_at f"
  obtain d where d: "GetAddressAndCheckSize (gbd_shared_memory_id ?a) (gbd_shared_memory_offset ?a) (gbd_size ?a) w = Some d"
    using GetAddressAndCheckSize_total assms(1) unfolding dec_wf_def by blast
  show ?thesis
  proof (cases "\<exists>q bucket. d = Some q \<and> GetBucket (gbd_bucket_id ?a) w = Some bucket \<and>
      Bucket_GetData (ucast (gbd_offset ?a)) (ucast (gbd_size ?a)) bucket \<noteq> None")
    case False
    with f d assms(1) show ?thesis by (auto simp: HandleGetBucketData_def Let_def split: option.splits)
  next
    case True
    then obtain q bucket where q: "d = Some q" "GetBucket (gbd_bucket_id ?a) w = Some bucket"
        "Bucket_GetData (ucast (gbd_offset ?a)) (ucast (gbd_size ?a)) bucket \<noteq> None" by blast
    note ok = GetAddressAndCheckSize_ok [OF assms(1) d [unfolded q(1)]]
    let ?bs = "bucket_bytes bucket (Bucket_GetData (ucast (gbd_offset ?a)) (ucast (gbd_size ?a)) bucket) (unat (gbd_size ?a))"
    have "length ?bs = unat (gbd_size ?a)"
      using length_bucket_bytes(2) [OF bucket_wf [OF assms(1) q(2)] q(3)] by simp
    then obtain m where m: "mem_store (shm w) q ?bs = Some m" using in_bounds_store ok(1) by metis
    have "handled w (Some (kNoError, w\<lparr>shm := m\<rparr>))"
      using mem_store_shape [OF m] ok(2) by (intro handled_memory [OF assms(1)]) (auto, metis)
    with f d q m assms(1) show ?thesis by (simp add: HandleGetBucketData_def Let_def)
  qed
qed

lemma handled_bind: "m = Some x \<Longrightarrow> handled w (f x) \<Longrightarrow> handled w (m \<bind> f)"
  by simp

lemma handled_if:
  "(c \<Longrightarrow> handled w a) \<Longrightarrow> (\<not> c \<Longrightarrow> handled w b) \<Longrightarrow> handled w (if c then a else b)"
  by simp

lemma handled_case:
  "(x = None \<Longrightarrow> handled w a) \<Longrightarrow> (\<And>y. x = Some y \<Longrightarrow> handled w (f y)) \<Longrightarrow>
     handled w (case x of None \<Rightarrow> a | Some y \<Rightarrow> f y)"
  by (cases x) simp_all

text \<open>The two stores of \<open>GetBucketStart\<close>: the size, then the part of the bucket that fits.\<close>

lemma GetBucketStart_stores:
  assumes "dec_wf w" "bkt_wf bucket" "in_bounds (shm w) r 4" "fst r \<in> registered_regions w"
    and data: "\<And>q. data = Some q \<Longrightarrow> in_bounds (shm w) q (unat (mx :: u32)) \<and> fst q \<in> registered_regions w"
  shows "handled w (store32 (shm w) r bsz \<bind> (\<lambda>m.
      (case data of None \<Rightarrow> Some m
       | Some p \<Rightarrow> mem_store m p (bucket_bytes bucket
           (Bucket_GetData 0 (ucast (min mx bsz)) bucket) (unat (min mx bsz)))) \<bind>
      (\<lambda>m. Some (kNoError, w\<lparr>shm := m\<rparr>))))"
proof -
  obtain m1 where m1: "mem_store (shm w) r (le_bytes bsz) = Some m1"
    using in_bounds_store [of "shm w" r "le_bytes bsz"] assms(3) by auto
  note shape1 = mem_store_shape [OF m1]
  show ?thesis
  proof (cases data)
    case None
    have "handled w (Some (kNoError, w\<lparr>shm := m1\<rparr>))"
      using shape1 assms(4) by (intro handled_memory [OF assms(1)]) (auto, metis)
    with None m1 show ?thesis by (simp add: store32_def)
  next
    case (Some q)
    let ?n = "min mx bsz"
    let ?bs = "bucket_bytes bucket (Bucket_GetData 0 (ucast ?n) bucket) (unat ?n)"
    have "length ?bs \<le> unat mx"
      using length_bucket_bytes(1) [OF assms(2), of 0 "ucast ?n"]
      by (auto simp: min_def word_le_nat_alt split: if_splits)
    then have "in_bounds m1 q (length ?bs)"
      using data [OF Some] shape1(1,2) by (auto simp: in_bounds_def)
    then obtain m2 where m2: "mem_store m1 q ?bs = Some m2" using in_bounds_store by blast
    have "handled w (Some (kNoError, w\<lparr>shm := m2\<rparr>))"
      using shape1 mem_store_shape [OF m2] assms(4) data [OF Some]
      by (intro handled_memory [OF assms(1)]) (auto, metis)
    with Some m1 m2 show ?thesis by (simp add: store32_def)
  qed
qed

lemma HandleGetBucketStart_handled:
  assumes "dec_wf w" "in_bounds (shm w) p 28"
  shows "handled w (HandleGetBucketStart n p w)"
proof -
  obtain f where f: "load_args (shm w) p 7 = Some f" using load_args_Some [OF assms(2), of 7] by auto
  let ?a = "GetBucketStart_at f"
  let ?wants = "gbs_data_memory_size ?a \<noteq> 0 \<or> gbs_data_memory_id ?a \<noteq> 0 \<or> gbs_data_memory_offset ?a \<noteq> 0"
  let ?get = "\<lambda>i off sz. GetAddressAndCheckSize i off sz w"
  have e: "engine_set w" using assms(1) by (simp add: dec_wf_def)
  obtain res where res: "?get (gbs_result_memory_id ?a) (gbs_result_memory_offset ?a) 4 = Some res"
    using GetAddressAndCheckSize_total [OF e] by blast
  obtain data where data: "(if ?wants then ?get (gbs_data_memory_id ?a) (gbs_data_memory_offset ?a)
      (gbs_data_memory_size ?a) else Some None) = Some data"
  proof (cases ?wants)
    case True
    with GetAddressAndCheckSize_total [OF e] that show thesis by (metis (full_types))
  qed (use that in auto)
  have data_ok: "in_bounds (shm w) q (unat (gbs_data_memory_size ?a)) \<and> fst q \<in> registered_regions w"
    if "data = Some q" for q
    using data GetAddressAndCheckSize_ok [OF assms(1)] that by (auto split: if_splits)
  have res_ok: "in_bounds (shm w) r 4" "fst r \<in> registered_regions w" if "res = Some r" for r
    using GetAddressAndCheckSize_ok [OF assms(1) res [unfolded that]] by simp_all
  have old: "\<exists>x. load32 (shm w) r = Some x" if "res = Some r" for r
    using res_ok(1) [OF that] by (auto simp: in_bounds_def intro: load32_total)
  show ?thesis
    unfolding HandleGetBucketStart_def Let_def
    apply (rule handled_bind [OF f])
    apply (rule handled_bind [OF res])
    apply (rule handled_bind [OF data])
    apply (rule handled_if, simp add: assms(1))
    apply (rule handled_case, simp add: assms(1))
    subgoal for r
      using old [of r] assms(1)
      by (auto intro!: handled_if handled_case GetBucketStart_stores res_ok data_ok
          dest: bucket_wf [OF assms(1)])
    done
qed

lemma ucast_sizes: "g_command_info =
  [(kAtLeastN, 0), (kFixed, 1), (kFixed, 2), (kFixed, 5), (kAtLeastN, 3), (kFixed, 6), (kFixed, 5)]"
  by (simp add: g_command_info_def common_commands_def)

text \<open>
  The decoder is safe on every command that lies in its buffer, whatever its contents.
\<close>

lemma immediate_size:
  assumes "3 \<le> arg_count" "unat (arg_count :: u32) < 2 ^ 21"
  shows "unat ((arg_count - 3) * 4) = 4 * unat arg_count - 12"
proof -
  define x where "x = arg_count - 3"
  have x: "unat x = unat arg_count - 3"
    unfolding x_def using assms(1) by (subst unat_sub_le) (auto simp: word_le_nat_alt)
  have "unat (x * 4) = unat x * 4" using x assms(2) by (simp add: unat_word_ariths)
  with x show ?thesis unfolding x_def by (simp add: diff_mult_distrib2)
qed

lemma Handle_handled:
  assumes "dec_wf w" "in_bounds (shm w) p (4 * (1 + unat arg_count))" "unat arg_count < 2 ^ 21"
    and info: "g_command_info ! unat (cmd_id c) = (flags, info)"
    and "flags = kFixed \<and> arg_count = info \<or> flags = kAtLeastN \<and> info \<le> arg_count"
  shows "handled w (Handle c ((arg_count - info) * 4) p w)"
proof (cases c)
  case kSetToken
  with assms have "in_bounds (shm w) p 8" by (auto simp: ucast_sizes)
  then obtain f where "load_args (shm w) p 2 = Some f" using load_args_Some [of _ _ _ 2] by fastforce
  with kSetToken show ?thesis by (simp add: HandleSetToken_def handled_SetToken [OF assms(1)])
next
  case kSetBucketDataImmediate
  with info assms(5) have i: "info = 3" "3 \<le> arg_count" by (auto simp: ucast_sizes)
  then have "in_bounds (shm w) p (16 + unat ((arg_count - info) * 4))"
    using assms(2) immediate_size [OF i(2) assms(3)] by (auto simp: in_bounds_def word_le_nat_alt)
  with kSetBucketDataImmediate assms(1) show ?thesis by (simp add: HandleSetBucketDataImmediate_handled)
qed (use assms in \<open>auto simp: ucast_sizes HandleNoop_def intro!: HandleSetBucketSize_handled
      HandleSetBucketData_handled HandleGetBucketStart_handled HandleGetBucketData_handled\<close>)

lemma DoCommonCommand_handled:
  assumes "dec_wf w" "in_bounds (shm w) p (4 * (1 + unat arg_count))" "unat arg_count < 2 ^ 21"
  shows "handled w (DoCommonCommand command arg_count p w)"
proof (cases "unat command < length g_command_info")
  case True
  then have k: "unat command < length common_commands" by (simp add: g_command_info_def)
  define c where "c = common_commands ! unat command"
  have "unat command \<in> set [0..<length common_commands]" using k by simp
  then have "unat (cmd_id c) = unat command"
    by (auto simp: c_def common_commands_def upt_rec)
  moreover obtain flags info where "g_command_info ! unat command = (flags, info)" by fastforce
  ultimately show ?thesis
    using True assms(1) Handle_handled [OF assms, of c flags info]
    by (auto simp: DoCommonCommand_def Let_def c_def)
next
  case False
  with assms(1) show ?thesis by (simp add: DoCommonCommand_def)
qed

text \<open>Only \<open>SetToken\<close> changes the token.\<close>

lemma handled_token:
  assumes "c \<noteq> kSetToken" "Handle c n p w = Some (e, w')"
  shows "cbs_token w' = cbs_token w"
  using assms
  by (cases c)
     (auto simp: HandleNoop_def HandleSetBucketSize_def HandleSetBucketData_def
        HandleSetBucketDataImmediate_def HandleGetBucketStart_def HandleGetBucketData_def
        CreateBucket_def Let_def elim!: bind_SomeE split: option.splits if_splits prod.splits)

subsection \<open>The decoder as the parser's handler\<close>

interpretation common: async_api DoCommonCommand dec_wf
proof
  show "\<exists>e w'. DoCommonCommand c n p w = Some (e, w') \<and> dec_wf w' \<and> same_shape w w' \<and> cp_get w' = cp_get w \<and>
    cp_put w' = cp_put w \<and> cp_buffer w' = cp_buffer w \<and> cp_entry_count w' = cp_entry_count w"
    if "dec_wf w" "in_bounds (shm w) p (4 * (1 + unat n))" "unat n < 2 ^ 21"
    for c n p and w :: "'a CommonDecoder_scheme"
    using DoCommonCommand_handled [OF that, of c] by (auto simp: handled_def dec_step_def same_shape_def)
  show "dec_wf (w\<lparr>cp_get := g\<rparr>)" if "dec_wf w" for g and w :: "'a CommonDecoder_scheme"
  proof -
    have "tbm_wf (w\<lparr>cp_get := g\<rparr>) = tbm_wf w" by (rule tbm_wf_cong) simp_all
    with that show ?thesis by (simp add: dec_wf_def)
  qed
qed

text \<open>The buffers a command may write to.\<close>

fun write_ids :: "CommandId \<Rightarrow> (nat \<Rightarrow> u32) \<Rightarrow> u32 set" where
  "write_ids kGetBucketStart f =
     {gbs_result_memory_id (GetBucketStart_at f), gbs_data_memory_id (GetBucketStart_at f)}"
| "write_ids kGetBucketData f = {gbd_shared_memory_id (GetBucketData_at f)}"
| "write_ids _ f = {}"

definition avoids_region :: "nat \<Rightarrow> 'a TransferBufferManager_scheme \<Rightarrow> u32 \<Rightarrow> bool" where
  "avoids_region r w i \<longleftrightarrow> buf_shared_memory (GetTransferBuffer i w) \<noteq> Some r"

lemma GetAddressAndCheckSize_region:
  assumes "dec_wf w" "GetAddressAndCheckSize i off sz w = Some (Some q)" "avoids_region r w i"
  shows "fst q \<noteq> r"
proof -
  have e: "engine_set w" "tbm_wf w" using assms(1) by (auto simp: dec_wf_def)
  obtain p where p: "buf_ptr (GetTransferBuffer i w) = Some p" "q = ptr_add p (unat off)"
    using assms(2) by (auto simp: GetAddressAndCheckSize_iff [OF e(1)])
  have "buffer_ok (shm w) (GetTransferBuffer i w)" using GetTransferBuffer_ok [OF e(2)] p(1) by simp
  with p assms(3) show ?thesis by (auto simp: buffer_ok_def avoids_region_def)
qed

lemma mem_store_frame: "mem_store m q bs = Some m' \<Longrightarrow> fst q \<noteq> r \<Longrightarrow> m' ! r = m ! r"
  using mem_store_shape(3) by metis

definition keeps :: "nat \<Rightarrow> 'a CommonDecoder_scheme \<Rightarrow> (Error \<times> 'a CommonDecoder_scheme) option \<Rightarrow> bool" where
  "keeps r w res \<longleftrightarrow> (\<forall>e w'. res = Some (e, w') \<longrightarrow> shm w' ! r = shm w ! r)"

lemma keeps_intros:
  "keeps r w None"
  "keeps r w (Some (e, w))"
  "m ! r = shm w ! r \<Longrightarrow> keeps r w (Some (e, w\<lparr>shm := m\<rparr>))"
  "(\<And>x. m' = Some x \<Longrightarrow> keeps r w (f x)) \<Longrightarrow> keeps r w (m' \<bind> f)"
  "(c \<Longrightarrow> keeps r w a) \<Longrightarrow> (\<not> c \<Longrightarrow> keeps r w b) \<Longrightarrow> keeps r w (if c then a else b)"
  "(x = None \<Longrightarrow> keeps r w a) \<Longrightarrow> (\<And>y. x = Some y \<Longrightarrow> keeps r w (g y)) \<Longrightarrow>
     keeps r w (case x of None \<Rightarrow> a | Some y \<Rightarrow> g y)"
  by (auto simp: keeps_def split: option.splits elim!: bind_SomeE)

lemma HandleGetBucketStart_frame:
  assumes "dec_wf w" "load_args (shm w) p 7 = Some f"
    and "\<forall>i \<in> write_ids kGetBucketStart f. avoids_region r w i"
  shows "keeps r w (HandleGetBucketStart n p w)"
proof -
  let ?a = "GetBucketStart_at f"
  have reg: "fst q \<noteq> r" if "GetAddressAndCheckSize i off sz w = Some (Some q)"
      "i = gbs_result_memory_id ?a \<or> i = gbs_data_memory_id ?a" for i off sz q
    using GetAddressAndCheckSize_region [OF assms(1) that(1), of r] that(2) assms(3) by auto
  have data: "m' ! r = m ! r"
    if "(if c then GetAddressAndCheckSize (gbs_data_memory_id ?a) off sz w else Some None) = Some data"
      "(case data of None \<Rightarrow> Some m | Some q \<Rightarrow> mem_store m q bs) = Some m'" for c off sz data m m' bs
  proof (cases data)
    case (Some q)
    with that(1) have "fst q \<noteq> r" using reg [of "gbs_data_memory_id ?a" off sz q] by (simp split: if_splits)
    with that(2) Some show ?thesis by (simp add: mem_store_frame)
  qed (use that in simp)
  have res: "m' ! r = m ! r"
    if "GetAddressAndCheckSize (gbs_result_memory_id ?a) off sz w = Some (Some q)" "mem_store m q bs = Some m'"
    for off sz q m m' bs
    using mem_store_frame [OF that(2)] reg [OF that(1)] by simp
  show ?thesis
    unfolding HandleGetBucketStart_def Let_def store32_def
    apply (rule keeps_intros(4))+
    subgoal for f' rs ds
      using assms(2) data [of _ _ _ ds] res by (intro keeps_intros) (simp, metis)
    done
qed

lemma HandleGetBucketData_frame:
  assumes "dec_wf w" "load_args (shm w) p 6 = Some f"
    and "\<forall>i \<in> write_ids kGetBucketData f. avoids_region r w i"
  shows "keeps r w (HandleGetBucketData n p w)"
proof -
  have reg: "fst q \<noteq> r" if "GetAddressAndCheckSize (gbd_shared_memory_id (GetBucketData_at f)) off sz w = Some (Some q)" for off sz q
    using GetAddressAndCheckSize_region [OF assms(1) that, of r] assms(3) by auto
  show ?thesis
    unfolding HandleGetBucketData_def Let_def
    by (intro keeps_intros) (use assms(2) reg mem_store_frame in fastforce)+
qed

text \<open>
  The command with the given number, if it has the number of arguments its structure has, does not ask for a
  write to region \<open>r\<close>.
\<close>

definition cmd_avoids :: "nat \<Rightarrow> 'a CommonDecoder_scheme \<Rightarrow> u32 \<Rightarrow> u32 \<Rightarrow> Ptr \<Rightarrow> bool" where
  "cmd_avoids r w command arg_count p \<longleftrightarrow>
     (\<forall>c f. cmd_id c = command \<longrightarrow> arg_count = ucast (sizeof_cmd c div 4 - 1) \<longrightarrow>
        load_args (shm w) p (unat (sizeof_cmd c div 4)) = Some f \<longrightarrow>
        (\<forall>i \<in> write_ids c f. avoids_region r w i))"

lemma Handle_frame:
  assumes "dec_wf w" "Handle c n p w = Some (e, w')"
    and "\<forall>f. load_args (shm w) p (unat (sizeof_cmd c div 4)) = Some f \<longrightarrow> (\<forall>i \<in> write_ids c f. avoids_region r w i)"
  shows "shm w' ! r = shm w ! r"
proof (cases "c = kGetBucketStart \<or> c = kGetBucketData")
  case True
  then have "\<exists>f. load_args (shm w) p (unat (sizeof_cmd c div 4)) = Some f"
    using assms(2) by (auto simp: HandleGetBucketStart_def HandleGetBucketData_def elim!: bind_SomeE)
  then obtain f where f: "load_args (shm w) p (unat (sizeof_cmd c div 4)) = Some f" by blast
  with assms(3) have "\<forall>i \<in> write_ids c f. avoids_region r w i" by simp
  with True f assms(1,2) show ?thesis
    using HandleGetBucketStart_frame [OF assms(1), of p f r n] HandleGetBucketData_frame [OF assms(1), of p f r n]
    by (auto simp: keeps_def)
next
  case False
  have "shm (CBS_SetToken t w) = shm w" for t using CBS_SetToken_eq [of t w] by auto
  with False assms(2) show ?thesis
    by (cases c)
       (auto simp: HandleNoop_def HandleSetToken_def HandleSetBucketSize_def HandleSetBucketData_def
          HandleSetBucketDataImmediate_def CreateBucket_def Let_def
          elim!: bind_SomeE split: option.splits if_splits prod.splits)
qed

lemma common_commands_iff:
  "unat command < length g_command_info \<Longrightarrow> cmd_id (common_commands ! unat command) = command"
proof -
  assume "unat command < length g_command_info"
  then have "unat command \<in> {0,1,2,3,4,5,6}" by (auto simp: g_command_info_def common_commands_def)
  then have "(of_nat (unat command) :: u32) \<in> {0,1,2,3,4,5,6}" by (elim insertE emptyE) simp_all
  then have "command \<in> {0,1,2,3,4,5,6}" by (simp only: of_nat_unat ucast_id)
  then show ?thesis by (auto simp: common_commands_def)
qed

lemma DoCommonCommand_frame:
  assumes "dec_wf w" "DoCommonCommand command n p w = Some (e, w')" "cmd_avoids r w command n p"
  shows "shm w' ! r = shm w ! r"
proof (cases "w' = w")
  case False
  define c where "c = common_commands ! unat command"
  have k: "unat command < length g_command_info"
    and h: "\<exists>k. Handle c k p w = Some (e, w')"
    and n: "kArgFlags c = kFixed \<longrightarrow> n = ucast (sizeof_cmd c div 4 - 1)"
    using assms(2) False unfolding DoCommonCommand_def c_def
    by (auto simp: Let_def g_command_info_def split: if_splits prod.splits)
  have c: "cmd_id c = command" using common_commands_iff [OF k] by (simp add: c_def)
  have "kArgFlags c = kFixed \<or> write_ids c f = {}" for f by (cases c) simp_all
  with h Handle_frame [OF assms(1), of c _ p e w' r] assms(3) c n show ?thesis
    unfolding cmd_avoids_def by blast
qed simp

text \<open>What a common command does to the token.\<close>

lemma DoCommonCommand_token:
  assumes "DoCommonCommand command n p w = Some (e, w')" "command \<noteq> cmd_id kSetToken"
  shows "cbs_token w' = cbs_token w"
proof (cases "w' = w")
  case False
  then have k: "unat command < length g_command_info"
    and h: "\<exists>k. Handle (common_commands ! unat command) k p w = Some (e, w')"
    using assms(1) by (auto simp: DoCommonCommand_def Let_def split: if_splits prod.splits)
  with handled_token [of "common_commands ! unat command"] assms(2) common_commands_iff [OF k]
  show ?thesis by metis
qed simp

lemma DoCommonCommand_SetToken:
  assumes "load32 (shm w) (ptr_add p 4) = Some t" "load32 (shm w) p = Some e0"
  shows "DoCommonCommand (cmd_id kSetToken) 1 p w = Some (kNoError, CBS_SetToken t w)"
  using assms
  by (simp add: DoCommonCommand_def ucast_sizes common_commands_def HandleSetToken_def SetToken_at_def
      numeral_2_eq_2 ptr_add_def)

subsection \<open>Properties\<close>

text \<open>
  C2. The decoder is safe on every command, whatever its number, size and bytes: if the command lies in
  memory, \<open>DoCommonCommand\<close> returns; all its reads and writes are in bounds; it keeps the invariant of the
  service, writes only to registered shared memory, resizes nothing, and a command that
  is refused (unknown, wrong number of arguments, invalid arguments) changes nothing.
\<close>

theorem DoCommonCommand_safe:
  assumes "dec_wf w" "in_bounds (shm w) p (4 * (1 + unat arg_count))" "unat arg_count < 2 ^ 21"
  shows "\<exists>e w'. DoCommonCommand command arg_count p w = Some (e, w') \<and> dec_wf w' \<and> dec_step w w' \<and>
    e \<in> {kNoError, kInvalidArguments, kUnknownCommand} \<and> (e \<noteq> kNoError \<longrightarrow> w' = w)"
  using DoCommonCommand_handled [OF assms, of command] unfolding handled_def by blast

definition decoder_example :: "byte list \<Rightarrow> CommonDecoder" where
  "decoder_example bs =
     \<lparr>shm = [bs], cp_get = 0, cp_put = 0, cp_buffer = Some (0, 0), cp_entry_count = of_nat (length bs div 4),
      registered_buffers = [(1, \<lparr>buf_ptr = Some (0, 0), buf_size = of_nat (length bs), buf_shared_memory = Some 0\<rparr>)],
      shared_memory_bytes_allocated = of_nat (length bs),
      ring_buffer_id = 1, ring_buffer = Buffer_new, shared_state = None, num_entries = of_nat (length bs div 4),
      get_offset = 0, put_offset = 0, cbs_token = 0, cbs_generation = 0, cbs_error = kNoError,
      cbs_context_lost_reason = kUnknown, next_id = 2, engine_set = True, buckets = Map.empty\<rparr>"

lemma decoder_example_wf: "length bs \<le> 64 \<Longrightarrow> dec_wf (decoder_example bs)"
  by (simp add: decoder_example_def dec_wf_def tbm_wf_def buffer_ok_def unsigned_of_nat take_bit_nat_eq_self)

theorem DoCommonCommand_safe_witness:
  "\<exists>e w'. DoCommonCommand 5 6 (0, 0) (decoder_example (replicate 28 255)) = Some (e, w') \<and> dec_wf w'"
  using DoCommonCommand_safe [of "decoder_example (replicate 28 255)" "(0, 0)" 6 5]
    decoder_example_wf [of "replicate 28 255"]
  by (auto simp: in_bounds_def decoder_example_def)

text \<open>
  C5. The parser with the common decoder never faults on a malformed ring: whatever the bytes of the
  buffer and whatever \<open>put_\<close>, \<open>ProcessCommand\<close> returns without reading outside the buffer, keeps the
  decoder's and the parser's invariants (so \<open>get_\<close> stays inside), and leaves the layout of the memory, \<open>put_\<close>
  and the buffer alone.
\<close>

theorem ProcessCommand_never_faults:
  assumes "dec_wf w" "parser_wf w"
  shows "\<exists>e w'. ProcessCommand DoCommonCommand w = Some (e, w') \<and> dec_wf w' \<and> parser_wf w' \<and> same_shape w w' \<and>
    cp_put w' = cp_put w \<and> cp_buffer w' = cp_buffer w \<and> cp_entry_count w' = cp_entry_count w"
  using assms by (rule common.ProcessCommand_safe)

theorem ProcessCommand_never_faults_witness:
  "\<exists>e w'. ProcessCommand DoCommonCommand ((decoder_example (replicate 28 255))\<lparr>cp_put := 3\<rparr>) = Some (e, w') \<and> parser_wf w'"
proof -
  let ?w = "(decoder_example (replicate 28 255))\<lparr>cp_put := 3\<rparr>"
  have "dec_wf ?w"
    using decoder_example_wf [of "replicate 28 255"] by (simp add: dec_wf_def tbm_wf_def)
  moreover have "parser_wf ?w" by (simp add: parser_wf_def decoder_example_def in_bounds_def)
  ultimately show ?thesis using ProcessCommand_never_faults [of ?w] by blast
qed

text \<open>
  C34. The errors of the parser: at a command whose header has size 0 it reports \<open>kInvalidSize\<close>, at one that
  reaches over the end of the buffer \<open>kOutOfBounds\<close>, in both cases without calling the handler or moving; otherwise
  the decoder is called with the command number, the number of arguments and the address of the command, its answer is the one
  reported, and the state is the one it leaves with \<open>get_\<close> moved past the command, wrapping at the end of the buffer.
\<close>

theorem ProcessCommand_errors:
  assumes "dec_wf w" "parser_wf w" "cp_get w \<noteq> cp_put w" "header_at w (unat (cp_get w)) = Some h"
    and "ProcessCommand DoCommonCommand w = Some (e, w')"
  shows "(hdr_size h = 0 \<longrightarrow> e = kInvalidSize \<and> w' = w) \<and>
    (hdr_size h \<noteq> 0 \<and> unat (cp_entry_count w) < unat (cp_get w) + unat (hdr_size h) \<longrightarrow> e = kOutOfBounds \<and> w' = w) \<and>
    (hdr_size h \<noteq> 0 \<and> unat (cp_get w) + unat (hdr_size h) \<le> unat (cp_entry_count w) \<longrightarrow>
       e \<in> {kNoError, kInvalidArguments, kUnknownCommand} \<and>
       unat (cp_get w') = (unat (cp_get w) + unat (hdr_size h)) mod unat (cp_entry_count w) \<and>
       (\<exists>p v. cp_buffer w = Some p \<and> w' = v\<lparr>cp_get := cp_get w'\<rparr> \<and>
          DoCommonCommand (ucast (hdr_command h)) (ucast (hdr_size h) - 1) (ptr_add p (4 * unat (cp_get w))) w = Some (e, v)))"
proof (cases "hdr_size h \<noteq> 0 \<and> unat (cp_get w) + unat (hdr_size h) \<le> unat (cp_entry_count w)")
  case True
  obtain p where p: "cp_buffer w = Some p" "in_bounds (shm w) p (4 * unat (cp_entry_count w))"
      "unat (cp_entry_count w) \<le> 2 ^ 29" "unat (cp_get w) < unat (cp_entry_count w)"
    using assms(2) by (auto simp: parser_wf_def)
  let ?s = "ucast (hdr_size h) :: u32" and ?q = "ptr_add p (4 * unat (cp_get w))"
  have "unat ?s < 2 ^ 21" "0 < unat ?s" using hdr_size_bounds True by auto
  then have n: "1 + unat (?s - 1) = unat ?s" "unat (?s - 1) < 2 ^ 21" by (subst unat_minus_one; force)+
  have "in_bounds (shm w) ?q (4 * (1 + unat (?s - 1)))"
    unfolding n using p True by (auto simp: in_bounds_def unat_hdr_size)
  then have "handled w (DoCommonCommand (ucast (hdr_command h)) (?s - 1) ?q w)"
    using DoCommonCommand_handled [OF assms(1) _ n(2)] by blast
  then obtain r v where v: "DoCommonCommand (ucast (hdr_command h)) (?s - 1) ?q w = Some (r, v)"
      "r \<in> {kNoError, kInvalidArguments, kUnknownCommand}" "cp_get v = cp_get w" "cp_entry_count v = cp_entry_count w"
    by (auto simp: handled_def dec_step_def)
  have "int32_rem (cp_get w + ?s) (cp_entry_count w) =
      Some (of_nat ((unat (cp_get w) + unat (hdr_size h)) mod unat (cp_entry_count w)))"
    by (rule next_get) (use True p in auto)
  with v p True assms(5) ProcessCommand_cases [OF assms(2,4,3), of DoCommonCommand]
  have e: "e = r" and w': "w' = v\<lparr>cp_get := of_nat ((unat (cp_get w) + unat (hdr_size h)) mod unat (cp_entry_count w))\<rparr>"
    by (auto simp: not_less)
  have "unat (cp_get w') = (unat (cp_get w) + unat (hdr_size h)) mod unat (cp_entry_count w)"
    using p(4) by (simp add: w' unat_of_nat_mod)
  moreover have "w' = v\<lparr>cp_get := cp_get w'\<rparr>" by (simp add: w')
  ultimately show ?thesis using v(1,2) True p(1) by (auto simp: e)
next
  case False
  with assms(5) ProcessCommand_cases [OF assms(2,4,3), of DoCommonCommand] show ?thesis by (auto split: if_splits)
qed

theorem ProcessCommand_errors_witness:
  "(\<exists>w'. ProcessCommand DoCommonCommand ((decoder_example (replicate 28 0))\<lparr>cp_put := 3\<rparr>) = Some (kInvalidSize, w')) \<and>
   (\<exists>w' v. ProcessCommand DoCommonCommand ((decoder_example (1 # replicate 27 0))\<lparr>cp_put := 3\<rparr>) = Some (kNoError, w') \<and>
      DoCommonCommand 0 0 (0, 0) ((decoder_example (1 # replicate 27 0))\<lparr>cp_put := 3\<rparr>) = Some (kNoError, v) \<and>
      w' = v\<lparr>cp_get := cp_get w'\<rparr> \<and> unat (cp_get w') = 1)"
proof -
  let ?w = "\<lambda>bs. (decoder_example bs)\<lparr>cp_put := 3\<rparr>" and ?zero = "replicate 28 0" and ?noop = "1 # replicate 27 0"
  have wf: "dec_wf (?w bs)" "parser_wf (?w bs)" "cp_get (?w bs) \<noteq> cp_put (?w bs)" if "length bs = 28" for bs
    using decoder_example_wf [of bs] that
    by (simp_all add: dec_wf_def tbm_wf_def parser_wf_def decoder_example_def in_bounds_def)
  have hd: "header_at (?w ?zero) (unat (cp_get (?w ?zero))) = Some \<lparr>hdr_size = 0, hdr_command = 0\<rparr>"
    "header_at (?w ?noop) (unat (cp_get (?w ?noop))) = Some \<lparr>hdr_size = 1, hdr_command = 0\<rparr>"
    by code_simp+
  obtain e v where 0: "ProcessCommand DoCommonCommand (?w ?zero) = Some (e, v)"
    using common.ProcessCommand_safe [OF wf(1,2), of ?zero] by auto
  obtain w' where 1: "ProcessCommand DoCommonCommand (?w ?noop) = Some (kNoError, w')"
  proof -
    have "map_option fst (ProcessCommand DoCommonCommand (?w ?noop)) = Some kNoError" by code_simp
    then show ?thesis using that by auto
  qed
  have buf: "cp_buffer (?w ?noop) = Some (0, 0)" "cp_entry_count (?w ?noop) = 7" "cp_get (?w ?noop) = 0"
    by (simp_all add: decoder_example_def)
  show ?thesis
    using ProcessCommand_errors [OF wf hd(1) 0] 0 ProcessCommand_errors [OF wf hd(2) 1] 1 buf by (auto simp: ptr_add_def)
qed

text \<open>
  C22. \<open>GetAddressAndCheckSize\<close>, which guards every access of a command to shared memory, accepts exactly the
  ranges that lie in the buffer and whose end is below \<open>2 ^ 32\<close>: no offset and size make the check wrap.
  The address it returns is that of the offset in the registered memory.
\<close>

theorem GetAddressAndCheckSize_exact:
  assumes "dec_wf w"
  shows "(GetAddressAndCheckSize shm_id offset sz w = Some (Some q) \<longleftrightarrow>
      (\<exists>r. buf_ptr (GetTransferBuffer shm_id w) = Some (r, 0) \<and> q = (r, unat offset) \<and>
        unat offset + unat sz \<le> unat (buf_size (GetTransferBuffer shm_id w)) \<and> unat offset + unat sz < 2 ^ 32)) \<and>
    (GetAddressAndCheckSize shm_id offset sz w = Some (Some q) \<longrightarrow>
      in_bounds (shm w) q (unat sz) \<and> fst q \<in> registered_regions w)"
proof -
  have e: "engine_set w" "tbm_wf w" using assms by (auto simp: dec_wf_def)
  have "snd p = 0" if "buf_ptr (GetTransferBuffer shm_id w) = Some p" for p
    using GetTransferBuffer_ok [OF e(2), of shm_id] that by (auto simp: buffer_ok_def split: prod.splits)
  then show ?thesis
    using GetAddressAndCheckSize_ok [OF assms, of shm_id offset sz q]
    by (auto simp: GetAddressAndCheckSize_iff [OF e(1)] ptr_add_def)
qed

theorem GetAddressAndCheckSize_exact_witness:
  "GetAddressAndCheckSize 1 4 24 (decoder_example (replicate 28 0)) = Some (Some (0, 4)) \<and>
   GetAddressAndCheckSize 1 0xFFFFFFFC 8 (decoder_example (replicate 28 0)) \<noteq> Some (Some (0, 0))"
  using GetAddressAndCheckSize_exact [of "decoder_example (replicate 28 0)" 1 4 24 "(0, 4)"]
    GetAddressAndCheckSize_exact [of "decoder_example (replicate 28 0)" 1 "0xFFFFFFFC" 8 "(0, 0)"]
    decoder_example_wf [of "replicate 28 0"]
  by (simp add: decoder_example_def GetTransferBuffer_def)

text \<open>
  C35. What a bucket holds: \<open>SetData\<close> succeeds exactly on the ranges inside the bucket, then \<open>GetData\<close> of that range reads
  back the bytes, the rest of the bucket is unchanged, and the size stays. A string set with \<open>SetFromString\<close> is read
  back by \<open>GetAsString\<close>.
\<close>

theorem bucket_roundtrip:
  assumes "bkt_wf b" "length src = unat sz" "length s < 2 ^ 64 - 1"
  shows "(case Bucket_SetData src offset sz b of (ok, b') \<Rightarrow>
      (ok \<longleftrightarrow> unat offset + unat sz \<le> unat (bkt_size b)) \<and> bkt_size b' = bkt_size b \<and>
      (if ok then bucket_bytes b' (Bucket_GetData offset sz b') (unat sz) = src \<and>
          (\<forall>i d d'. bkt_data b = Some d \<longrightarrow> bkt_data b' = Some d' \<longrightarrow>
             (i < unat offset \<or> unat offset + unat sz \<le> i) \<longrightarrow> i < length d \<longrightarrow> d' ! i = d ! i)
       else b' = b)) \<and>
    Bucket_GetAsString (Bucket_SetFromString (Some s) b) = Some s"
proof -
  have set: "case Bucket_SetData src offset sz b of (ok, b') \<Rightarrow>
      (ok \<longleftrightarrow> unat offset + unat sz \<le> unat (bkt_size b)) \<and> bkt_size b' = bkt_size b \<and>
      (if ok then bucket_bytes b' (Bucket_GetData offset sz b') (unat sz) = src \<and>
          (\<forall>i d d'. bkt_data b = Some d \<longrightarrow> bkt_data b' = Some d' \<longrightarrow>
             (i < unat offset \<or> unat offset + unat sz \<le> i) \<longrightarrow> i < length d \<longrightarrow> d' ! i = d ! i)
       else b' = b)"
    using assms(1,2)
    by (auto simp: Bucket_SetData_def OffsetSizeValid_iff bucket_bytes_def Bucket_GetData_def bkt_wf_def
        nth_append min_def split: option.splits)
  let ?n = "of_nat (length s) + 1 :: u64"
  have n: "unat ?n = length s + 1"
  proof -
    have "?n = of_nat (length s + 1)" by simp
    then show ?thesis using assms(3) by (simp only: unsigned_of_nat) (simp add: take_bit_nat_eq_self)
  qed
  then have nz: "?n \<noteq> 0" by (metis add_eq_0_iff_both_eq_0 unat_0 zero_neq_one)
  have sz: "bkt_size (Bucket_SetSize ?n b) = ?n" by (simp add: Bucket_SetSize_def)
  have "bkt_wf (Bucket_SetSize ?n b)" using assms(1) by simp
  then obtain d where d: "bkt_data (Bucket_SetSize ?n b) = Some d" "length d = unat ?n"
    using nz sz by (auto simp: bkt_wf_def split: option.splits)
  have "Bucket_GetAsString (Bucket_SetFromString (Some s) b) = Some s"
    using d n nz sz
    by (simp add: Bucket_SetFromString_def Bucket_GetAsString_def Bucket_SetData_def OffsetSizeValid_iff Let_def)
  with set show ?thesis by blast
qed

theorem bucket_roundtrip_witness:
  "Bucket_GetAsString (Bucket_SetFromString (Some [104, 105]) Bucket_new) = Some [104, 105]"
  using bucket_roundtrip [of Bucket_new "[]" 0 "[104, 105]"] by simp

text \<open>
  C39. A \<open>put\<close> offset equal to the number of entries is not a place in the ring, but \<open>Flush\<close> and \<open>FlushSync\<close> accept it. A parser
  whose ring is filled by one \<open>Noop\<close> then comes back to the very state it started in, with no error and commands left, so that
  \<open>ProcessAllCommands\<close> never returns.
\<close>

theorem put_at_end_never_returns:
  assumes "dec_wf w" "parser_wf w" "cp_get w = 0" "cp_put w = cp_entry_count w" "num_entries w = cp_entry_count w"
    and "header_at w 0 = Some \<lparr>hdr_size = s, hdr_command = 0\<rparr>" "unat s = unat (cp_entry_count w)"
  shows "CBS_Flush None (num_entries w) w = Some (w\<lparr>put_offset := cp_entry_count w\<rparr>) \<and>
    ProcessCommand DoCommonCommand w = Some (kNoError, w) \<and> \<not> IsEmpty w \<and> ProcessAllCommands DoCommonCommand w = None"
proof -
  let ?N = "unat (cp_entry_count w)"
  have N: "0 < ?N" "?N \<le> 2 ^ 29" using assms(2,3) by (auto simp: parser_wf_def)
  have ne: "cp_get w \<noteq> cp_put w" using N assms(3,4) by auto
  obtain p where p: "cp_buffer w = Some p" using assms(2) by (auto simp: parser_wf_def)
  have s0: "s \<noteq> 0" using assms(7) N(1) by auto
  have noop: "DoCommonCommand 0 n q w = Some (kNoError, w)" for n q
    by (simp add: DoCommonCommand_def Let_def ucast_sizes common_commands_def HandleNoop_def)
  have "int32_rem (cp_get w + ucast s) (cp_entry_count w) = Some 0"
    using next_get [of "cp_get w" "\<lparr>hdr_size = s, hdr_command = 0\<rparr>" "cp_entry_count w"] assms(3,7) N by simp
  then have pc: "ProcessCommand DoCommonCommand w = Some (kNoError, w)"
    using ProcessCommand_cases [OF assms(2) _ ne, of _ DoCommonCommand] assms(3,6,7) p s0 noop by simp
  have "do_cmd = DoCommonCommand \<longrightarrow> v \<noteq> w" if "ProcessAllCommands do_cmd v = Some y" for do_cmd v y
    by (rule ProcessAllCommands.raw_induct [OF _ that, where P = "\<lambda>do_cmd v _. do_cmd = DoCommonCommand \<longrightarrow> v \<noteq> w"])
       (use pc ne in \<open>fastforce simp: IsEmpty_def\<close>)
  then have "ProcessAllCommands DoCommonCommand w = None" by (metis not_None_eq)
  moreover have "sint (cp_entry_count w) = int ?N" using N by (intro sint_nonneg_u32) simp
  ultimately show ?thesis using pc ne assms(4,5) by (simp add: IsEmpty_def CBS_Flush_def)
qed

theorem put_at_end_never_returns_witness:
  "ProcessAllCommands DoCommonCommand ((decoder_example [4, 0, 0, 0, 0, 0, 0, 0, 0, 0, 0, 0, 0, 0, 0, 0])\<lparr>cp_put := 4\<rparr>) = None"
proof -
  let ?w = "(decoder_example [4, 0, 0, 0, 0, 0, 0, 0, 0, 0, 0, 0, 0, 0, 0, 0])\<lparr>cp_put := 4\<rparr>"
  have "dec_wf ?w" using decoder_example_wf [of "[4, 0, 0, 0, 0, 0, 0, 0, 0, 0, 0, 0, 0, 0, 0, 0]"] by (simp add: dec_wf_def tbm_wf_def)
  moreover have "parser_wf ?w" by (simp add: parser_wf_def decoder_example_def in_bounds_def)
  moreover have "header_at ?w 0 = Some \<lparr>hdr_size = 4, hdr_command = 0\<rparr>" by code_simp
  ultimately show ?thesis using put_at_end_never_returns [of ?w 4] by (simp add: decoder_example_def)
qed

end
