(* ===== verification/Gpu_Scheduler.thy ===== *)
theory Gpu_Scheduler
  imports Common_Decoder
begin

section \<open>GpuScheduler: running the flushed commands\<close>

text \<open>
  Model of \<^verbatim>\<open>src/gpu/command_buffer/service/gpu_scheduler.{h,cc}\<close> for a build without \<open>OS_WIN\<close> (no
  delayed task is posted). What the scheduler only calls is the record \<open>SchedulerEnv\<close>: the command
  handler, the GLES2 decoder (\<^const>\<open>None\<close> for the null pointer), the callbacks, the fence and the
  clock. A closure that waits for a fence is a number that \<open>run_task\<close> interprets.
  Tracing and the time statistics are left out.
\<close>

record UnscheduleFence =
  uf_fence :: "nat option"
  uf_issue_time :: int
  uf_task :: nat

record GpuScheduler = CommonDecoder +
  has_parser :: bool
  unscheduled_count :: u32
  rescheduled_count :: u32
  unschedule_fences :: "UnscheduleFence list"
  preemption_flag :: "u32 option"
  was_preempted :: bool

record 'w GLES2Decoder =
  WasContextLost :: "'w \<Rightarrow> bool"
  GetContextLostReason :: "'w \<Rightarrow> ContextLostReason"
  ProcessPendingQueries :: "'w \<Rightarrow> bool \<times> 'w"
  decoder_HasMoreIdleWork :: "'w \<Rightarrow> bool"
  decoder_PerformIdleWork :: "'w \<Rightarrow> 'w option"

record 'w SchedulerEnv =
  handler :: "'w DoCommand"
  decoder :: "'w GLES2Decoder option"
  scheduling_changed_callback :: "(bool \<Rightarrow> 'w \<Rightarrow> 'w option) option"
  command_processed_callback :: "'w callback"
  parse_error_callback :: "'w callback"
  run_task :: "nat \<Rightarrow> 'w \<Rightarrow> 'w option"
  HasCompleted :: "nat \<Rightarrow> 'w \<Rightarrow> bool"
  Now :: "'w \<Rightarrow> int"

definition kUnscheduleFenceTimeOutDelay :: int where "kUnscheduleFenceTimeOutDelay = 10000"

subsection \<open>The preemption flag\<close>

definition PreemptionFlag_IsSet :: "u32 \<Rightarrow> bool" where "PreemptionFlag_IsSet flag \<longleftrightarrow> flag \<noteq> 0"

definition PreemptionFlag_Set :: "u32 \<Rightarrow> u32" where "PreemptionFlag_Set flag = flag + 1"

definition PreemptionFlag_Reset :: "u32 \<Rightarrow> u32" where "PreemptionFlag_Reset flag = 0"

definition SetPreemptByFlag :: "u32 option \<Rightarrow> 'a GpuScheduler_scheme \<Rightarrow> 'a GpuScheduler_scheme" where
  "SetPreemptByFlag flag w = w\<lparr>preemption_flag := flag\<rparr>"

definition IsPreempted :: "'a GpuScheduler_scheme \<Rightarrow> bool \<times> 'a GpuScheduler_scheme" where
  "IsPreempted w =
     (case preemption_flag w of
        None \<Rightarrow> (False, w)
      | Some flag \<Rightarrow>
          let w = (if \<not> was_preempted w \<and> PreemptionFlag_IsSet flag then w\<lparr>was_preempted := True\<rparr>
                   else if was_preempted w \<and> \<not> PreemptionFlag_IsSet flag then w\<lparr>was_preempted := False\<rparr>
                   else w)
          in (PreemptionFlag_IsSet flag, w))"

subsection \<open>Scheduling\<close>

definition GpuScheduler_new :: "'a GpuScheduler_scheme \<Rightarrow> 'a GpuScheduler_scheme" where
  "GpuScheduler_new w = w\<lparr>has_parser := False, unscheduled_count := 0, rescheduled_count := 0,
     unschedule_fences := [], preemption_flag := None, was_preempted := False\<rparr>"

definition IsScheduled :: "'a GpuScheduler_scheme \<Rightarrow> bool" where
  "IsScheduled w \<longleftrightarrow> unscheduled_count w = 0"

definition scheduling_changed ::
  "'a GpuScheduler_scheme SchedulerEnv \<Rightarrow> bool \<Rightarrow> 'a GpuScheduler_scheme \<Rightarrow> 'a GpuScheduler_scheme option" where
  "scheduling_changed env b w =
     (case scheduling_changed_callback env of None \<Rightarrow> Some w | Some run \<Rightarrow> run b w)"

definition SetScheduled ::
  "'a GpuScheduler_scheme SchedulerEnv \<Rightarrow> bool \<Rightarrow> 'a GpuScheduler_scheme \<Rightarrow> 'a GpuScheduler_scheme option" where
  "SetScheduled env scheduled w =
     (if scheduled then
        if 0 < sint (rescheduled_count w)
        then Some (w\<lparr>rescheduled_count := rescheduled_count w - 1\<rparr>)
        else do {
          let w = w\<lparr>unscheduled_count := unscheduled_count w - 1\<rparr>;
          dcheck (0 \<le> sint (unscheduled_count w));
          if unscheduled_count w = 0 then scheduling_changed env True w else Some w
        }
      else
        let w = w\<lparr>unscheduled_count := unscheduled_count w + 1\<rparr> in
        if unscheduled_count w = 1 then scheduling_changed env False w else Some w)"

definition sched_HasMoreIdleWork ::
  "'a GpuScheduler_scheme SchedulerEnv \<Rightarrow> 'a GpuScheduler_scheme \<Rightarrow> bool" where
  "sched_HasMoreIdleWork env w =
     (case decoder env of None \<Rightarrow> False | Some d \<Rightarrow> decoder_HasMoreIdleWork d w)"

definition sched_PerformIdleWork ::
  "'a GpuScheduler_scheme SchedulerEnv \<Rightarrow> 'a GpuScheduler_scheme \<Rightarrow> 'a GpuScheduler_scheme option" where
  "sched_PerformIdleWork env w =
     (case decoder env of None \<Rightarrow> Some w | Some d \<Rightarrow> decoder_PerformIdleWork d w)"

text \<open>\<open>HasMoreWork\<close>; the disjunction is evaluated from left to right and stops at the first truth.\<close>

definition HasMoreWork ::
  "'a GpuScheduler_scheme SchedulerEnv \<Rightarrow> 'a GpuScheduler_scheme \<Rightarrow> bool \<times> 'a GpuScheduler_scheme" where
  "HasMoreWork env w =
     (if unschedule_fences w \<noteq> [] then (True, w)
      else
        let (queries, w) = (case decoder env of None \<Rightarrow> (False, w) | Some d \<Rightarrow> ProcessPendingQueries d w)
        in if queries then (True, w) else (sched_HasMoreIdleWork env w, w))"

definition sched_set_token :: "u32 \<Rightarrow> 'a GpuScheduler_scheme \<Rightarrow> 'a GpuScheduler_scheme" where
  "sched_set_token token w = CBS_SetToken token w"

definition sched_GetSharedMemoryBuffer :: "u32 \<Rightarrow> 'a GpuScheduler_scheme \<Rightarrow> Buffer" where
  "sched_GetSharedMemoryBuffer shm_id w = GetTransferBuffer shm_id w"

text \<open>\<open>parser_\<close> is dereferenced without a test: a null pointer aborts.\<close>

definition sched_SetGetOffset ::
  "u32 \<Rightarrow> 'a GpuScheduler_scheme \<Rightarrow> (bool \<times> 'a GpuScheduler_scheme) option" where
  "sched_SetGetOffset offset w = do {
     dcheck (has_parser w);
     let (ok, w) = set_get offset w;
     if ok then do { w \<leftarrow> CBS_SetGetOffset (cp_get w) w; Some (True, w) }
     else Some (False, w)
   }"

definition sched_GetGetOffset :: "'a GpuScheduler_scheme \<Rightarrow> u32 option" where
  "sched_GetGetOffset w = do { dcheck (has_parser w); Some (cp_get w) }"

definition sched_SetGetBuffer ::
  "u32 \<Rightarrow> 'a GpuScheduler_scheme \<Rightarrow> (bool \<times> 'a GpuScheduler_scheme) option" where
  "sched_SetGetBuffer transfer_buffer_id w =
     (let ring_buffer = GetTransferBuffer transfer_buffer_id w in
      case buf_ptr ring_buffer of
        None \<Rightarrow> Some (False, w)
      | Some p \<Rightarrow> do {
          let w = (if has_parser w then w else (CommandParser_new w)\<lparr>has_parser := True\<rparr>);
          w \<leftarrow> SetBuffer p (buf_size ring_buffer) 0 (buf_size ring_buffer) w;
          (_, w) \<leftarrow> sched_SetGetOffset 0 w;
          Some (True, w)
        })"

subsection \<open>Fences\<close>

definition DeferToFence ::
  "'a GpuScheduler_scheme SchedulerEnv \<Rightarrow> nat option \<Rightarrow> nat \<Rightarrow> 'a GpuScheduler_scheme \<Rightarrow>
     'a GpuScheduler_scheme option" where
  "DeferToFence env fence task w =
     SetScheduled env False (w\<lparr>unschedule_fences := unschedule_fences w @
       [\<lparr>uf_fence = fence, uf_issue_time = Now env w, uf_task = task\<rparr>]\<rparr>)"

text \<open>
  The loops of \<open>PollUnscheduleFences\<close>. A task may push further fences, so that nothing bounds
  them. \<open>fence.fence->HasCompleted()\<close> on a null fence aborts.
\<close>

partial_function (option) Poll_fence_loop ::
  "'a GpuScheduler_scheme SchedulerEnv \<Rightarrow> int \<Rightarrow> 'a GpuScheduler_scheme \<Rightarrow> (bool \<times> 'a GpuScheduler_scheme) option" where
  "Poll_fence_loop env now w =
     (case unschedule_fences w of
        [] \<Rightarrow> Some (True, w)
      | f # _ \<Rightarrow>
          (case uf_fence f of
             None \<Rightarrow> None
           | Some fence \<Rightarrow>
               if HasCompleted env fence w \<or> kUnscheduleFenceTimeOutDelay < now - uf_issue_time f
               then do {
                 w \<leftarrow> run_task env (uf_task f) w;
                 let w = w\<lparr>unschedule_fences := tl (unschedule_fences w)\<rparr>;
                 w \<leftarrow> SetScheduled env True w;
                 Poll_fence_loop env now w
               }
               else Some (False, w)))"

partial_function (option) Poll_finish_loop ::
  "'a GpuScheduler_scheme SchedulerEnv \<Rightarrow> 'a GpuScheduler_scheme \<Rightarrow> (bool \<times> 'a GpuScheduler_scheme) option" where
  "Poll_finish_loop env w =
     (case unschedule_fences w of
        [] \<Rightarrow> Some (True, w)
      | f # _ \<Rightarrow> do {
          w \<leftarrow> run_task env (uf_task f) w;
          let w = w\<lparr>unschedule_fences := tl (unschedule_fences w)\<rparr>;
          w \<leftarrow> SetScheduled env True w;
          Poll_finish_loop env w
        })"

definition PollUnscheduleFences ::
  "'a GpuScheduler_scheme SchedulerEnv \<Rightarrow> 'a GpuScheduler_scheme \<Rightarrow> (bool \<times> 'a GpuScheduler_scheme) option" where
  "PollUnscheduleFences env w =
     (case unschedule_fences w of
        [] \<Rightarrow> Some (True, w)
      | f # _ \<Rightarrow>
          if uf_fence f \<noteq> None then Poll_fence_loop env (Now env w) w else Poll_finish_loop env w)"

partial_function (option) Reschedule_loop ::
  "'a GpuScheduler_scheme SchedulerEnv \<Rightarrow> 'a GpuScheduler_scheme \<Rightarrow> 'a GpuScheduler_scheme option" where
  "Reschedule_loop env w =
     (if unscheduled_count w \<noteq> 0
      then do { w \<leftarrow> SetScheduled env True w; Reschedule_loop env w }
      else Some w)"

definition RescheduleTimeOut ::
  "'a GpuScheduler_scheme SchedulerEnv \<Rightarrow> 'a GpuScheduler_scheme \<Rightarrow> 'a GpuScheduler_scheme option" where
  "RescheduleTimeOut env w = do {
     let new_count = unscheduled_count w + rescheduled_count w;
     w \<leftarrow> Reschedule_loop env (w\<lparr>rescheduled_count := 0\<rparr>);
     Some (w\<lparr>rescheduled_count := new_count\<rparr>)
   }"

subsection \<open>Processing\<close>

text \<open>\<open>decoder_->GetContextLostReason()\<close> with a null decoder aborts.\<close>

definition report_error ::
  "'a GpuScheduler_scheme SchedulerEnv \<Rightarrow> Error \<Rightarrow> 'a GpuScheduler_scheme \<Rightarrow> 'a GpuScheduler_scheme option" where
  "report_error env error w = do {
     d \<leftarrow> decoder env;
     SetParseError (parse_error_callback env) error (SetContextLostReason (GetContextLostReason d w) w)
   }"

partial_function (option) PutChanged_loop ::
  "'a GpuScheduler_scheme SchedulerEnv \<Rightarrow> Error \<Rightarrow> 'a GpuScheduler_scheme \<Rightarrow>
     (Error \<times> 'a GpuScheduler_scheme) option" where
  "PutChanged_loop env error w =
     (if IsEmpty w then Some (error, w)
      else let (preempted, w) = IsPreempted w in
        if preempted then Some (error, w)
        else if \<not> IsScheduled w \<or> unschedule_fences w \<noteq> [] then None
        else
          case ProcessCommand (handler env) w of
            None \<Rightarrow> None
          | Some (error, w) \<Rightarrow>
              if error = kDeferCommandUntilLater
              then (if 0 < sint (unscheduled_count w) then Some (error, w) else None)
              else
                case CBS_SetGetOffset (cp_get w) w of
                  None \<Rightarrow> None
                | Some w \<Rightarrow>
                    if IsError error then map_option (\<lambda>w. (error, w)) (report_error env error w)
                    else
                      case run_callback (command_processed_callback env) w of
                        None \<Rightarrow> None
                      | Some w \<Rightarrow>
                          if 0 < sint (unscheduled_count w) then Some (error, w)
                          else PutChanged_loop env error w)"

definition PutChanged ::
  "'a GpuScheduler_scheme SchedulerEnv \<Rightarrow> 'a GpuScheduler_scheme \<Rightarrow> 'a GpuScheduler_scheme option" where
  "PutChanged env w =
     (let (state, w) = GetState w in
      if \<not> has_parser w then do {
        dcheck (cs_get_offset state = cs_put_offset state);
        Some w
      }
      else
        let w = set_put (cs_put_offset state) w in
        if cs_error state \<noteq> kNoError then Some w
        else do {
          (ok, w) \<leftarrow> PollUnscheduleFences env w;
          if \<not> ok then Some w
          else if \<not> IsScheduled w then Some w
          else do {
            (error, w) \<leftarrow> PutChanged_loop env kNoError w;
            (case decoder env of
               None \<Rightarrow> Some w
             | Some d \<Rightarrow>
                 if \<not> IsError error \<and> WasContextLost d w
                 then report_error env kLostContext w
                 else Some w)
          }
        })"

end
