(* ===== verification/Cmd_Buffer_Helper.thy ===== *)
theory Cmd_Buffer_Helper
  imports Command_Buffer_Service
begin

section \<open>CommandBufferHelper: the client side of the command buffer\<close>

text \<open>
  Model of \<^verbatim>\<open>src/gpu/command_buffer/client/cmd_buffer_helper.{h,cc}\<close> for a build that is not
  \<open>OS_ANDROID\<close>. The helper talks to a \<open>CommandBuffer\<close> through virtual functions; the record
  \<open>CommandBufferOps\<close> is that table of functions, over the state of the command buffer, and has the
  C clock as a further entry. The state of the command buffer contains the shared memory, to
  which the helper writes its commands. Reading the state bumps its generation, so that even
  \<open>get_offset()\<close> returns a new state. The loops that wait for the service have no bound of their
  own: \<^const>\<open>None\<close> is also the value of a wait that does not end.
\<close>

subsection \<open>State\<close>

record 's CommandBufferOps =
  cb_GetState :: "'s \<Rightarrow> CB_State \<times> 's"
  cb_GetLastState :: "'s \<Rightarrow> CB_State \<times> 's"
  cb_GetLastToken :: "'s \<Rightarrow> u32 \<times> 's"
  cb_GetLastError :: "'s \<Rightarrow> Error \<times> 's"
  cb_Flush :: "u32 \<Rightarrow> 's \<Rightarrow> 's option"
  cb_FlushSync :: "u32 \<Rightarrow> u32 \<Rightarrow> 's \<Rightarrow> (CB_State \<times> 's) option"
  cb_SetGetBuffer :: "u32 \<Rightarrow> 's \<Rightarrow> 's option"
  cb_CreateTransferBuffer :: "u64 \<Rightarrow> 's \<Rightarrow> (Buffer \<times> u32) \<times> 's"
  cb_DestroyTransferBuffer :: "u32 \<Rightarrow> 's \<Rightarrow> 's option"
  cb_clock :: "'s \<Rightarrow> int"

record 's CommandBufferHelper =
  command_buffer :: 's
  h_ring_buffer_id :: u32
  h_ring_buffer_size :: u32
  h_ring_buffer :: Buffer
  entries :: "Ptr option"
  total_entry_count :: u32
  h_token :: u32
  h_put :: u32
  last_put_sent :: u32
  commands_issued :: u32
  usable :: bool
  context_lost :: bool
  flush_automatically :: bool
  last_flush_time :: int

definition kCommandsPerFlushCheck :: u32 where "kCommandsPerFlushCheck = 100"

text \<open>
  \<open>elapsed > kFlushDelay * CLOCKS_PER_SEC\<close>, with \<open>kFlushDelay = 1.0 / (5.0 * 60.0)\<close> and a million
  ticks in a second, on whole ticks.
\<close>

definition flush_delay_passed :: "int \<Rightarrow> bool" where
  "flush_delay_passed elapsed \<longleftrightarrow> 1000000 < 300 * elapsed"

definition CommandBufferHelper_new :: "'s \<Rightarrow> 's CommandBufferHelper" where
  "CommandBufferHelper_new cb =
     \<lparr>command_buffer = cb, h_ring_buffer_id = - 1, h_ring_buffer_size = 0, h_ring_buffer = Buffer_new,
      entries = None, total_entry_count = 0, h_token = 0, h_put = 0, last_put_sent = 0,
      commands_issued = 0, usable = True, context_lost = False, flush_automatically = True,
      last_flush_time = 0\<rparr>"

definition SetAutomaticFlushes :: "bool \<Rightarrow> 's CommandBufferHelper \<Rightarrow> 's CommandBufferHelper" where
  "SetAutomaticFlushes enabled h = h\<lparr>flush_automatically := enabled\<rparr>"

definition HaveRingBuffer :: "'s CommandBufferHelper \<Rightarrow> bool" where
  "HaveRingBuffer h \<longleftrightarrow> h_ring_buffer_id h \<noteq> - 1"

definition ClearUsable :: "'s CommandBufferHelper \<Rightarrow> 's CommandBufferHelper" where
  "ClearUsable h = h\<lparr>usable := False\<rparr>"

definition last_token_read ::
  "'s CommandBufferOps \<Rightarrow> 's CommandBufferHelper \<Rightarrow> u32 \<times> 's CommandBufferHelper" where
  "last_token_read ops h =
     (let (t, cb) = cb_GetLastToken ops (command_buffer h) in (t, h\<lparr>command_buffer := cb\<rparr>))"

definition h_get_offset ::
  "'s CommandBufferOps \<Rightarrow> 's CommandBufferHelper \<Rightarrow> u32 \<times> 's CommandBufferHelper" where
  "h_get_offset ops h =
     (let (st, cb) = cb_GetLastState ops (command_buffer h) in (cs_get_offset st, h\<lparr>command_buffer := cb\<rparr>))"

definition IsContextLost ::
  "'s CommandBufferOps \<Rightarrow> 's CommandBufferHelper \<Rightarrow> bool \<times> 's CommandBufferHelper" where
  "IsContextLost ops h =
     (if context_lost h then (True, h)
      else
        let (error, cb) = cb_GetLastError ops (command_buffer h)
        in (IsError error, h\<lparr>command_buffer := cb, context_lost := IsError error\<rparr>))"

subsection \<open>The ring buffer\<close>

definition AllocateRingBuffer ::
  "'s CommandBufferOps \<Rightarrow> 's CommandBufferHelper \<Rightarrow> (bool \<times> 's CommandBufferHelper) option" where
  "AllocateRingBuffer ops h =
     (if \<not> usable h then Some (False, h)
      else if HaveRingBuffer h then Some (True, h)
      else
        let ((buffer, bid), cb) = cb_CreateTransferBuffer ops (scast (h_ring_buffer_size h)) (command_buffer h);
            h = h\<lparr>command_buffer := cb\<rparr>
        in if sint bid < 0 then Some (False, ClearUsable h)
           else do {
             let h = h\<lparr>h_ring_buffer := buffer, h_ring_buffer_id := bid\<rparr>;
             cb \<leftarrow> cb_SetGetBuffer ops bid (command_buffer h);
             let (state, cb) = cb_GetState ops cb;
             let h = h\<lparr>command_buffer := cb, entries := buf_ptr (h_ring_buffer h)\<rparr>;
             let num_ring_buffer_entries = (ucast ((scast (h_ring_buffer_size h) :: u64) div 4) :: u32);
             if sint (cs_num_entries state) < sint num_ring_buffer_entries
             then Some (False, ClearUsable h)
             else Some (True, h\<lparr>total_entry_count := num_ring_buffer_entries,
                                h_put := cs_put_offset state\<rparr>)
           })"

definition FreeResources ::
  "'s CommandBufferOps \<Rightarrow> 's CommandBufferHelper \<Rightarrow> 's CommandBufferHelper option" where
  "FreeResources ops h =
     (if HaveRingBuffer h then do {
        cb \<leftarrow> cb_DestroyTransferBuffer ops (h_ring_buffer_id h) (command_buffer h);
        Some (h\<lparr>command_buffer := cb, h_ring_buffer_id := - 1\<rparr>)
      } else Some h)"

definition FreeRingBuffer ::
  "'s CommandBufferOps \<Rightarrow> 's CommandBufferHelper \<Rightarrow> 's CommandBufferHelper option" where
  "FreeRingBuffer ops h = do {
     let (get, h) = h_get_offset ops h;
     let (idle, h) =
       (if h_put h = get then (True, h)
        else let (st, cb) = cb_GetLastState ops (command_buffer h)
             in (IsError (cs_error st), h\<lparr>command_buffer := cb\<rparr>));
     dcheck idle;
     FreeResources ops h
   }"

definition CBH_Initialize ::
  "'s CommandBufferOps \<Rightarrow> u32 \<Rightarrow> 's CommandBufferHelper \<Rightarrow> (bool \<times> 's CommandBufferHelper) option" where
  "CBH_Initialize ops ring_buffer_size h =
     AllocateRingBuffer ops (h\<lparr>h_ring_buffer_size := ring_buffer_size\<rparr>)"

definition CommandBufferHelper_delete ::
  "'s CommandBufferOps \<Rightarrow> 's CommandBufferHelper \<Rightarrow> 's CommandBufferHelper option" where
  "CommandBufferHelper_delete ops h = FreeResources ops h"

subsection \<open>Flushing\<close>

definition CBH_FlushSync ::
  "'s CommandBufferOps \<Rightarrow> 's CommandBufferHelper \<Rightarrow> (bool \<times> 's CommandBufferHelper) option" where
  "CBH_FlushSync ops h =
     (if \<not> usable h then Some (False, h)
      else do {
        let h = h\<lparr>last_flush_time := cb_clock ops (command_buffer h), last_put_sent := h_put h\<rparr>;
        let (get, h) = h_get_offset ops h;
        (state, cb) \<leftarrow> cb_FlushSync ops (h_put h) get (command_buffer h);
        Some (cs_error state = kNoError, h\<lparr>command_buffer := cb\<rparr>)
      })"

definition CBH_Flush ::
  "'s CommandBufferOps \<Rightarrow> 's CommandBufferHelper \<Rightarrow> 's CommandBufferHelper option" where
  "CBH_Flush ops h =
     (if usable h \<and> last_put_sent h \<noteq> h_put h then do {
        let h = h\<lparr>last_flush_time := cb_clock ops (command_buffer h), last_put_sent := h_put h\<rparr>;
        cb \<leftarrow> cb_Flush ops (h_put h) (command_buffer h);
        Some (h\<lparr>command_buffer := cb\<rparr>)
      } else Some h)"

partial_function (option) Finish_loop ::
  "'s CommandBufferOps \<Rightarrow> 's CommandBufferHelper \<Rightarrow> (bool \<times> 's CommandBufferHelper) option" where
  "Finish_loop ops h = do {
     (ok, h) \<leftarrow> CBH_FlushSync ops h;
     if \<not> ok then Some (False, h)
     else
       let (get, h) = h_get_offset ops h
       in if h_put h \<noteq> get then Finish_loop ops h else Some (True, h)
   }"

definition Finish ::
  "'s CommandBufferOps \<Rightarrow> 's CommandBufferHelper \<Rightarrow> (bool \<times> 's CommandBufferHelper) option" where
  "Finish ops h =
     (if \<not> usable h then Some (False, h)
      else
        let (get, h) = h_get_offset ops h in
        if h_put h = get then Some (True, h)
        else do {
          dcheck (HaveRingBuffer h);
          Finish_loop ops h
        })"

subsection \<open>Waiting for a token\<close>

partial_function (option) WaitForToken_loop ::
  "'s CommandBufferOps \<Rightarrow> u32 \<Rightarrow> 's CommandBufferHelper \<Rightarrow> 's CommandBufferHelper option" where
  "WaitForToken_loop ops token h =
     (let (t, h) = last_token_read ops h in
      if sint t < sint token then
        let (get, h) = h_get_offset ops h in
        if get = h_put h then None
        else do {
          (ok, h) \<leftarrow> CBH_FlushSync ops h;
          if \<not> ok then Some h else WaitForToken_loop ops token h
        }
      else Some h)"

definition WaitForToken ::
  "'s CommandBufferOps \<Rightarrow> u32 \<Rightarrow> 's CommandBufferHelper \<Rightarrow> 's CommandBufferHelper option" where
  "WaitForToken ops token h =
     (if \<not> usable h \<or> \<not> HaveRingBuffer h then Some h
      else if sint token < 0 then Some h
      else if sint (h_token h) < sint token then Some h
      else WaitForToken_loop ops token h)"

subsection \<open>Waiting for space\<close>

text \<open>\<open>a || b\<close> on two readings of \<open>get_offset()\<close>: the second only happens if \<open>a\<close> is false.\<close>

definition get_blocks_wrap ::
  "'s CommandBufferOps \<Rightarrow> 's CommandBufferHelper \<Rightarrow> bool \<times> 's CommandBufferHelper" where
  "get_blocks_wrap ops h =
     (let (get, h) = h_get_offset ops h in
      if sint (h_put h) < sint get then (True, h)
      else let (get, h) = h_get_offset ops h in (get = 0, h))"

text \<open>The result of the waiting loops tells whether the flush failed and the caller returns.\<close>

partial_function (option) WaitWrap_loop ::
  "'s CommandBufferOps \<Rightarrow> 's CommandBufferHelper \<Rightarrow> (bool \<times> 's CommandBufferHelper) option" where
  "WaitWrap_loop ops h =
     (let (blocked, h) = get_blocks_wrap ops h in
      if blocked then do {
        (ok, h) \<leftarrow> CBH_FlushSync ops h;
        if \<not> ok then Some (False, h) else WaitWrap_loop ops h
      }
      else Some (True, h))"

text \<open>The loop runs only if a first reading finds the wrap blocked.\<close>

definition WaitWrap ::
  "'s CommandBufferOps \<Rightarrow> 's CommandBufferHelper \<Rightarrow> (bool \<times> 's CommandBufferHelper) option" where
  "WaitWrap ops h =
     (let (blocked, h) = get_blocks_wrap ops h in
      if blocked then WaitWrap_loop ops h else Some (True, h))"

definition entry_at :: "'s CommandBufferHelper \<Rightarrow> u32 \<Rightarrow> Ptr option" where
  "entry_at h i = do {
     p \<leftarrow> entries h;
     dcheck (0 \<le> sint i);
     Some (ptr_add p (4 * nat (sint i)))
   }"

text \<open>The loop that fills the rest of the buffer with \<open>Noop\<close>s; \<open>n\<close> is \<open>num_entries\<close>.\<close>

function FillNoops_loop ::
  "u32 \<Rightarrow> 'a Memory_scheme CommandBufferHelper \<Rightarrow> 'a Memory_scheme CommandBufferHelper option" where
  "FillNoops_loop n h =
     (if 0 < sint n then
        let num_to_skip = (if sint n < sint kMaxSize then n else kMaxSize) in
        case entry_at h (h_put h) of
          None \<Rightarrow> None
        | Some p \<Rightarrow>
            case Noop_Set 0 num_to_skip of
              None \<Rightarrow> None
            | Some (es, _) \<Rightarrow>
                case store_entries (shm (command_buffer h)) p es of
                  None \<Rightarrow> None
                | Some m \<Rightarrow>
                    FillNoops_loop (n - num_to_skip)
                      (h\<lparr>command_buffer := (command_buffer h)\<lparr>shm := m\<rparr>, h_put := h_put h + num_to_skip\<rparr>)
      else Some h)"
  by pat_completeness auto
termination
proof (relation "measure (\<lambda>(n, h). unat n)", goal_cases)
  case (2 n h k p r es x m)
  then have n: "0 < sint n" "unat n < 2 ^ 31" using sint_nonneg_u32_iff [of n] by auto
  have "0 < unat n" using n by (metis gr0I sint_0 unat_eq_zero less_irrefl)
  then have "unat k \<le> unat n" "0 < unat k"
    using 2(2) n sint_less_u32(1) [of n kMaxSize] sint_nonneg_u32 [of n]
    by (auto simp: kMaxSize_eq split: if_splits)
  then show ?case by (simp add: unat_sub_le)
qed simp

declare FillNoops_loop.simps [simp del]

definition AvailableEntries ::
  "'s CommandBufferOps \<Rightarrow> 's CommandBufferHelper \<Rightarrow> (u32 \<times> 's CommandBufferHelper) option" where
  "AvailableEntries ops h = do {
     let (get, h) = h_get_offset ops h;
     n \<leftarrow> int32_rem (get - h_put h - 1 + total_entry_count h) (total_entry_count h);
     Some (n, h)
   }"

partial_function (option) WaitAvailable_loop ::
  "'s CommandBufferOps \<Rightarrow> u32 \<Rightarrow> 's CommandBufferHelper \<Rightarrow> (bool \<times> 's CommandBufferHelper) option" where
  "WaitAvailable_loop ops count h = do {
     (n, h) \<leftarrow> AvailableEntries ops h;
     if sint n < sint count then do {
       (ok, h) \<leftarrow> CBH_FlushSync ops h;
       if \<not> ok then Some (False, h) else WaitAvailable_loop ops count h
     }
     else Some (True, h)
   }"

definition WaitAvailable ::
  "'s CommandBufferOps \<Rightarrow> u32 \<Rightarrow> 's CommandBufferHelper \<Rightarrow> (bool \<times> 's CommandBufferHelper) option" where
  "WaitAvailable ops count h = do {
     (n, h) \<leftarrow> AvailableEntries ops h;
     if sint n < sint count then WaitAvailable_loop ops count h else Some (True, h)
   }"

text \<open>The flush at the end of \<open>WaitForAvailableEntries\<close>.\<close>

definition AutoFlush ::
  "'s CommandBufferOps \<Rightarrow> 's CommandBufferHelper \<Rightarrow> 's CommandBufferHelper option" where
  "AutoFlush ops h = do {
     pending \<leftarrow> int32_rem (h_put h + total_entry_count h - last_put_sent h) (total_entry_count h);
     let (get, h) = h_get_offset ops h;
     let limit = (word_of_int (sint (total_entry_count h) div (if get = last_put_sent h then 16 else 2)) :: u32);
     if sint limit < sint pending then CBH_Flush ops h
     else do {
       r \<leftarrow> int32_rem (commands_issued h) kCommandsPerFlushCheck;
       if flush_automatically h \<and> r = 0 \<and>
          flush_delay_passed (cb_clock ops (command_buffer h) - last_flush_time h)
       then CBH_Flush ops h
       else Some h
     }
   }"

definition WaitForAvailableEntries ::
  "'a Memory_scheme CommandBufferOps \<Rightarrow> u32 \<Rightarrow> 'a Memory_scheme CommandBufferHelper \<Rightarrow>
     'a Memory_scheme CommandBufferHelper option" where
  "WaitForAvailableEntries ops count h = do {
     (_, h) \<leftarrow> AllocateRingBuffer ops h;
     if \<not> usable h then Some h
     else do {
       dcheck (HaveRingBuffer h);
       dcheck (sint count < sint (total_entry_count h));
       (ok, h) \<leftarrow>
         (if sint (total_entry_count h) < sint (h_put h + count) then do {
            dcheck (1 \<le> sint (h_put h));
            (ok, h) \<leftarrow> WaitWrap ops h;
            if \<not> ok then Some (False, h)
            else do {
              h \<leftarrow> FillNoops_loop (total_entry_count h - h_put h) h;
              Some (True, h\<lparr>h_put := 0\<rparr>)
            }
          }
          else Some (True, h));
       if \<not> ok then Some h
       else do {
         (ok, h) \<leftarrow> WaitAvailable ops count h;
         if \<not> ok then Some h else AutoFlush ops h
       }
     }
   }"

definition GetSpace ::
  "'a Memory_scheme CommandBufferOps \<Rightarrow> u32 \<Rightarrow> 'a Memory_scheme CommandBufferHelper \<Rightarrow>
     (Ptr option \<times> 'a Memory_scheme CommandBufferHelper) option" where
  "GetSpace ops n h = do {
     (_, h) \<leftarrow> AllocateRingBuffer ops h;
     if \<not> usable h then Some (None, h)
     else do {
       dcheck (HaveRingBuffer h);
       let h = h\<lparr>commands_issued := commands_issued h + 1\<rparr>;
       h \<leftarrow> WaitForAvailableEntries ops n h;
       space \<leftarrow> entry_at h (h_put h);
       let put = h_put h + n;
       dcheck (sint put \<le> sint (total_entry_count h));
       Some (Some space, h\<lparr>h_put := (if put = total_entry_count h then 0 else put)\<rparr>)
     }
   }"

subsection \<open>Commands\<close>

definition GetCmdSpace ::
  "'a Memory_scheme CommandBufferOps \<Rightarrow> u64 \<Rightarrow> 'a Memory_scheme CommandBufferHelper \<Rightarrow>
     (Ptr option \<times> 'a Memory_scheme CommandBufferHelper) option" where
  "GetCmdSpace ops sizeof_T h = GetSpace ops (ComputeNumEntries sizeof_T) h"

definition GetImmediateCmdSpace ::
  "'a Memory_scheme CommandBufferOps \<Rightarrow> u64 \<Rightarrow> u64 \<Rightarrow> 'a Memory_scheme CommandBufferHelper \<Rightarrow>
     (Ptr option \<times> 'a Memory_scheme CommandBufferHelper) option" where
  "GetImmediateCmdSpace ops sizeof_T data_space h =
     GetSpace ops (ComputeNumEntries (sizeof_T + data_space)) h"

definition GetImmediateCmdSpaceTotalSize ::
  "'a Memory_scheme CommandBufferOps \<Rightarrow> u64 \<Rightarrow> 'a Memory_scheme CommandBufferHelper \<Rightarrow>
     (Ptr option \<times> 'a Memory_scheme CommandBufferHelper) option" where
  "GetImmediateCmdSpaceTotalSize ops total_space h = GetSpace ops (ComputeNumEntries total_space) h"

text \<open>\<open>if (cmd) cmd->Init(...)\<close>: nothing is written through a null pointer.\<close>

definition init_cmd ::
  "Ptr option \<Rightarrow> u32 list option \<Rightarrow> 'a Memory_scheme CommandBufferHelper \<Rightarrow>
     'a Memory_scheme CommandBufferHelper option" where
  "init_cmd cmd es h =
     (case cmd of
        None \<Rightarrow> Some h
      | Some p \<Rightarrow> do {
          es \<leftarrow> es;
          m \<leftarrow> store_entries (shm (command_buffer h)) p es;
          Some (h\<lparr>command_buffer := (command_buffer h)\<lparr>shm := m\<rparr>\<rparr>)
        })"

definition InsertToken ::
  "'a Memory_scheme CommandBufferOps \<Rightarrow> 'a Memory_scheme CommandBufferHelper \<Rightarrow>
     (u32 \<times> 'a Memory_scheme CommandBufferHelper) option" where
  "InsertToken ops h = do {
     (_, h) \<leftarrow> AllocateRingBuffer ops h;
     if \<not> usable h then Some (h_token h, h)
     else do {
       dcheck (HaveRingBuffer h);
       let h = h\<lparr>h_token := (h_token h + 1) AND 0x7FFFFFFF\<rparr>;
       (cmd, h) \<leftarrow> GetCmdSpace ops (sizeof_cmd kSetToken) h;
       if cmd = None then Some (h_token h, h)
       else do {
         h \<leftarrow> init_cmd cmd (map_option SetToken_entries (SetToken_Init (h_token h))) h;
         if h_token h = 0 then do {
           (_, h) \<leftarrow> Finish ops h;
           let (t, h) = last_token_read ops h;
           dcheck (h_token h = t);
           Some (h_token h, h)
         }
         else Some (h_token h, h)
       }
     }
   }"

definition CBH_Noop ::
  "'a Memory_scheme CommandBufferOps \<Rightarrow> u32 \<Rightarrow> 'a Memory_scheme CommandBufferHelper \<Rightarrow>
     'a Memory_scheme CommandBufferHelper option" where
  "CBH_Noop ops skip_count h = do {
     (cmd, h) \<leftarrow> GetImmediateCmdSpace ops (sizeof_cmd kNoop) (ucast (skip_count - 1) * 4) h;
     init_cmd cmd (map_option Noop_entries (Noop_Init skip_count)) h
   }"

definition CBH_SetToken ::
  "'a Memory_scheme CommandBufferOps \<Rightarrow> u32 \<Rightarrow> 'a Memory_scheme CommandBufferHelper \<Rightarrow>
     'a Memory_scheme CommandBufferHelper option" where
  "CBH_SetToken ops token h = do {
     (cmd, h) \<leftarrow> GetCmdSpace ops (sizeof_cmd kSetToken) h;
     init_cmd cmd (map_option SetToken_entries (SetToken_Init token)) h
   }"

definition CBH_SetBucketSize ::
  "'a Memory_scheme CommandBufferOps \<Rightarrow> u32 \<Rightarrow> u32 \<Rightarrow> 'a Memory_scheme CommandBufferHelper \<Rightarrow>
     'a Memory_scheme CommandBufferHelper option" where
  "CBH_SetBucketSize ops bucket_id sz h = do {
     (cmd, h) \<leftarrow> GetCmdSpace ops (sizeof_cmd kSetBucketSize) h;
     init_cmd cmd (map_option SetBucketSize_entries (SetBucketSize_Init bucket_id sz)) h
   }"

definition CBH_SetBucketData ::
  "'a Memory_scheme CommandBufferOps \<Rightarrow> u32 \<Rightarrow> u32 \<Rightarrow> u32 \<Rightarrow> u32 \<Rightarrow> u32 \<Rightarrow>
     'a Memory_scheme CommandBufferHelper \<Rightarrow> 'a Memory_scheme CommandBufferHelper option" where
  "CBH_SetBucketData ops bucket_id offset sz shared_memory_id shared_memory_offset h = do {
     (cmd, h) \<leftarrow> GetCmdSpace ops (sizeof_cmd kSetBucketData) h;
     init_cmd cmd (map_option SetBucketData_entries
       (SetBucketData_Init bucket_id offset sz shared_memory_id shared_memory_offset)) h
   }"

definition CBH_SetBucketDataImmediate ::
  "'a Memory_scheme CommandBufferOps \<Rightarrow> u32 \<Rightarrow> u32 \<Rightarrow> byte list \<Rightarrow> u32 \<Rightarrow>
     'a Memory_scheme CommandBufferHelper \<Rightarrow> 'a Memory_scheme CommandBufferHelper option" where
  "CBH_SetBucketDataImmediate ops bucket_id offset data sz h = do {
     (cmd, h) \<leftarrow> GetImmediateCmdSpace ops (sizeof_cmd kSetBucketDataImmediate) (ucast sz) h;
     h \<leftarrow> init_cmd cmd (map_option SetBucketDataImmediate_entries
       (SetBucketDataImmediate_Init bucket_id offset sz)) h;
     (case cmd of
        None \<Rightarrow> Some h
      | Some p \<Rightarrow> do {
          m \<leftarrow> mem_store (shm (command_buffer h))
                 (fst p, ImmediateDataAddress (sizeof_cmd kSetBucketDataImmediate) (snd p))
                 (take (unat sz) data);
          Some (h\<lparr>command_buffer := (command_buffer h)\<lparr>shm := m\<rparr>\<rparr>)
        })
   }"

definition CBH_GetBucketStart ::
  "'a Memory_scheme CommandBufferOps \<Rightarrow> u32 \<Rightarrow> u32 \<Rightarrow> u32 \<Rightarrow> u32 \<Rightarrow> u32 \<Rightarrow> u32 \<Rightarrow>
     'a Memory_scheme CommandBufferHelper \<Rightarrow> 'a Memory_scheme CommandBufferHelper option" where
  "CBH_GetBucketStart ops bucket_id result_memory_id result_memory_offset
       data_memory_size data_memory_id data_memory_offset h = do {
     (cmd, h) \<leftarrow> GetCmdSpace ops (sizeof_cmd kGetBucketStart) h;
     init_cmd cmd (map_option GetBucketStart_entries
       (GetBucketStart_Init bucket_id result_memory_id result_memory_offset
          data_memory_size data_memory_id data_memory_offset)) h
   }"

definition CBH_GetBucketData ::
  "'a Memory_scheme CommandBufferOps \<Rightarrow> u32 \<Rightarrow> u32 \<Rightarrow> u32 \<Rightarrow> u32 \<Rightarrow> u32 \<Rightarrow>
     'a Memory_scheme CommandBufferHelper \<Rightarrow> 'a Memory_scheme CommandBufferHelper option" where
  "CBH_GetBucketData ops bucket_id offset sz shared_memory_id shared_memory_offset h = do {
     (cmd, h) \<leftarrow> GetCmdSpace ops (sizeof_cmd kGetBucketData) h;
     init_cmd cmd (map_option GetBucketData_entries
       (GetBucketData_Init bucket_id offset sz shared_memory_id shared_memory_offset)) h
   }"

end
