(* ===== verification/Mapped_Memory.thy ===== *)
theory Mapped_Memory
  imports Fenced_Allocator Cmd_Buffer_Helper
begin

section \<open>MappedMemoryManager: chunks of shared memory\<close>

text \<open>
  Model of \<^verbatim>\<open>src/gpu/command_buffer/client/mapped_memory.{h,cc}\<close>. The allocator of a chunk is the
  fenced allocator over the chunk's transfer buffer; tokens and buffers come from the helper.
  The vector owns its chunks, so that erasing one runs the destructor of its allocator.
\<close>

record MemoryChunk =
  chunk_shm_id :: u32
  chunk_shm :: Buffer
  chunk_allocator :: FencedAllocator

record MappedMemoryManager =
  chunk_size_multiple :: u32
  chunks :: "MemoryChunk list"
  allocated_memory :: u64
  max_free_bytes :: u64

definition kNoLimit :: u64 where "kNoLimit = 0"

definition MemoryChunk_new :: "u32 \<Rightarrow> Buffer \<Rightarrow> MemoryChunk" where
  "MemoryChunk_new shm_id buffer =
     \<lparr>chunk_shm_id = shm_id, chunk_shm = buffer,
      chunk_allocator = FencedAllocator_new (ucast (buf_size buffer))\<rparr>"

definition chunk_GetSize :: "MemoryChunk \<Rightarrow> u32" where
  "chunk_GetSize c = ucast (buf_size (chunk_shm c))"

definition IsInChunk :: "MemoryChunk \<Rightarrow> Ptr \<Rightarrow> bool" where
  "IsInChunk c pointer =
     (case buf_ptr (chunk_shm c) of
        None \<Rightarrow> False
      | Some base \<Rightarrow> fst pointer = fst base \<and> snd base \<le> snd pointer \<and>
                      snd pointer < snd base + unat (buf_size (chunk_shm c)))"

definition MappedMemoryManager_new :: "u64 \<Rightarrow> MappedMemoryManager" where
  "MappedMemoryManager_new unused_memory_reclaim_limit =
     \<lparr>chunk_size_multiple = 1, chunks = [], allocated_memory = 0,
      max_free_bytes = unused_memory_reclaim_limit\<rparr>"

definition set_chunk_size_multiple :: "u32 \<Rightarrow> MappedMemoryManager \<Rightarrow> MappedMemoryManager" where
  "set_chunk_size_multiple multiple m = m\<lparr>chunk_size_multiple := multiple\<rparr>"

text \<open>The common tail of the three ways to allocate; the base of a chunk is not null.\<close>

definition alloc_from_chunk ::
  "'s CommandBufferOps \<Rightarrow> MemoryChunk \<Rightarrow> u32 \<Rightarrow> 's CommandBufferHelper \<Rightarrow>
     ((Ptr \<times> u32 \<times> u32) \<times> MemoryChunk \<times> 's CommandBufferHelper) option" where
  "alloc_from_chunk ops c sz h = do {
     base \<leftarrow> buf_ptr (chunk_shm c);
     (mem, a, h) \<leftarrow> FAW_Alloc (WaitForToken ops) base (chunk_allocator c) sz h;
     p \<leftarrow> mem;
     Some ((p, chunk_shm_id c, GetOffset base mem), c\<lparr>chunk_allocator := a\<rparr>, h)
   }"

text \<open>The first loop: a chunk with room that needs no waiting. \<open>front\<close> are the chunks behind.\<close>

fun Alloc_scan ::
  "'s CommandBufferOps \<Rightarrow> u32 \<Rightarrow> MemoryChunk list \<Rightarrow> MemoryChunk list \<Rightarrow> u64 \<Rightarrow> 's CommandBufferHelper \<Rightarrow>
     ((Ptr \<times> u32 \<times> u32) option \<times> MemoryChunk list \<times> u64 \<times> 's CommandBufferHelper) option" where
  "Alloc_scan ops sz front [] tot h = Some (None, front, tot, h)"
| "Alloc_scan ops sz front (c # cs) tot h =
     (let (a, h) = FencedAllocator_FreeUnused (last_token_read ops) (chunk_allocator c) h;
          tot = tot + fa_bytes_in_use a;
          (largest, a, h) = GetLargestFreeSize (last_token_read ops) a h;
          c = c\<lparr>chunk_allocator := a\<rparr>
      in if sz \<le> largest then do {
           (r, c, h) \<leftarrow> alloc_from_chunk ops c sz h;
           Some (Some r, front @ c # cs, tot, h)
         }
         else Alloc_scan ops sz (front @ [c]) cs tot h)"

text \<open>The second loop: a chunk with room once its pending blocks are waited for.\<close>

fun Alloc_scan_wait ::
  "'s CommandBufferOps \<Rightarrow> u32 \<Rightarrow> MemoryChunk list \<Rightarrow> MemoryChunk list \<Rightarrow> 's CommandBufferHelper \<Rightarrow>
     ((Ptr \<times> u32 \<times> u32) option \<times> MemoryChunk list \<times> 's CommandBufferHelper) option" where
  "Alloc_scan_wait ops sz front [] h = Some (None, front, h)"
| "Alloc_scan_wait ops sz front (c # cs) h =
     (if sz \<le> GetLargestFreeOrPendingSize (chunk_allocator c) then do {
        (r, c, h) \<leftarrow> alloc_from_chunk ops c sz h;
        Some (Some r, front @ c # cs, h)
      }
      else Alloc_scan_wait ops sz (front @ [c]) cs h)"

definition Alloc_new_chunk ::
  "'s CommandBufferOps \<Rightarrow> u32 \<Rightarrow> MappedMemoryManager \<Rightarrow> 's CommandBufferHelper \<Rightarrow>
     ((Ptr \<times> u32 \<times> u32) option \<times> MappedMemoryManager \<times> 's CommandBufferHelper) option" where
  "Alloc_new_chunk ops sz m h = do {
     dcheck (chunk_size_multiple m \<noteq> 0);
     let chunk_size = (sz + chunk_size_multiple m - 1) div chunk_size_multiple m * chunk_size_multiple m;
     let ((buffer, bid), cb) = cb_CreateTransferBuffer ops (ucast chunk_size) (command_buffer h);
     let h = h\<lparr>command_buffer := cb\<rparr>;
     if sint bid < 0 then Some (None, m, h)
     else do {
       let mc = MemoryChunk_new bid buffer;
       (r, mc', h) \<leftarrow> alloc_from_chunk ops mc sz h;
       Some (Some r, m\<lparr>allocated_memory := allocated_memory m + ucast (chunk_GetSize mc),
                       chunks := chunks m @ [mc']\<rparr>, h)
     }
   }"

definition MMM_Alloc ::
  "'s CommandBufferOps \<Rightarrow> u32 \<Rightarrow> MappedMemoryManager \<Rightarrow> 's CommandBufferHelper \<Rightarrow>
     ((Ptr \<times> u32 \<times> u32) option \<times> MappedMemoryManager \<times> 's CommandBufferHelper) option" where
  "MMM_Alloc ops sz m h =
     (if ucast sz \<le> allocated_memory m then do {
        (r, cs, total_bytes_in_use, h) \<leftarrow> Alloc_scan ops sz [] (chunks m) 0 h;
        let m = m\<lparr>chunks := cs\<rparr>;
        if r \<noteq> None then Some (r, m, h)
        else if max_free_bytes m \<noteq> kNoLimit \<and> max_free_bytes m \<le> allocated_memory m - total_bytes_in_use
        then do {
          (r, cs, h) \<leftarrow> Alloc_scan_wait ops sz [] (chunks m) h;
          let m = m\<lparr>chunks := cs\<rparr>;
          if r \<noteq> None then Some (r, m, h) else Alloc_new_chunk ops sz m h
        }
        else Alloc_new_chunk ops sz m h
      }
      else Alloc_new_chunk ops sz m h)"

definition MMM_Free :: "Ptr \<Rightarrow> MappedMemoryManager \<Rightarrow> MappedMemoryManager option" where
  "MMM_Free pointer m = do {
     ii \<leftarrow> find_index (\<lambda>c. IsInChunk c pointer) (chunks m);
     let c = chunks m ! ii;
     base \<leftarrow> buf_ptr (chunk_shm c);
     a \<leftarrow> FAW_Free base (chunk_allocator c) (Some pointer);
     Some (m\<lparr>chunks := (chunks m)[ii := c\<lparr>chunk_allocator := a\<rparr>]\<rparr>)
   }"

definition MMM_FreePendingToken :: "Ptr \<Rightarrow> u32 \<Rightarrow> MappedMemoryManager \<Rightarrow> MappedMemoryManager option" where
  "MMM_FreePendingToken pointer token m = do {
     ii \<leftarrow> find_index (\<lambda>c. IsInChunk c pointer) (chunks m);
     let c = chunks m ! ii;
     base \<leftarrow> buf_ptr (chunk_shm c);
     a \<leftarrow> FAW_FreePendingToken base (chunk_allocator c) (Some pointer) token;
     Some (m\<lparr>chunks := (chunks m)[ii := c\<lparr>chunk_allocator := a\<rparr>]\<rparr>)
   }"

text \<open>The loop of \<open>FreeUnused\<close>.\<close>

fun MMM_FreeUnused_loop ::
  "'s CommandBufferOps \<Rightarrow> MemoryChunk list \<Rightarrow> MemoryChunk list \<Rightarrow> u64 \<Rightarrow> 's CommandBufferHelper \<Rightarrow>
     (MemoryChunk list \<times> u64 \<times> 's CommandBufferHelper) option" where
  "MMM_FreeUnused_loop ops front [] allocated h = Some (front, allocated, h)"
| "MMM_FreeUnused_loop ops front (c # cs) allocated h =
     (let (a, h) = FencedAllocator_FreeUnused (last_token_read ops) (chunk_allocator c) h;
          c = c\<lparr>chunk_allocator := a\<rparr>
      in if \<not> FencedAllocator_InUse a then do {
           cb \<leftarrow> cb_DestroyTransferBuffer ops (chunk_shm_id c) (command_buffer h);
           let h = h\<lparr>command_buffer := cb\<rparr>;
           (_, h) \<leftarrow> FencedAllocator_delete (WaitForToken ops) a h;
           MMM_FreeUnused_loop ops front cs (allocated - ucast (chunk_GetSize c)) h
         }
         else MMM_FreeUnused_loop ops (front @ [c]) cs allocated h)"

definition MMM_FreeUnused ::
  "'s CommandBufferOps \<Rightarrow> MappedMemoryManager \<Rightarrow> 's CommandBufferHelper \<Rightarrow>
     (MappedMemoryManager \<times> 's CommandBufferHelper) option" where
  "MMM_FreeUnused ops m h = do {
     (cs, allocated, h) \<leftarrow> MMM_FreeUnused_loop ops [] (chunks m) (allocated_memory m) h;
     Some (m\<lparr>chunks := cs, allocated_memory := allocated\<rparr>, h)
   }"

text \<open>The destructor destroys the transfer buffers, then the chunks with their allocators.\<close>

fun MMM_destroy_buffers ::
  "'s CommandBufferOps \<Rightarrow> MemoryChunk list \<Rightarrow> 's CommandBufferHelper \<Rightarrow> 's CommandBufferHelper option" where
  "MMM_destroy_buffers ops [] h = Some h"
| "MMM_destroy_buffers ops (c # cs) h = do {
     cb \<leftarrow> cb_DestroyTransferBuffer ops (chunk_shm_id c) (command_buffer h);
     MMM_destroy_buffers ops cs (h\<lparr>command_buffer := cb\<rparr>)
   }"

fun MMM_delete_chunks ::
  "'s CommandBufferOps \<Rightarrow> MemoryChunk list \<Rightarrow> 's CommandBufferHelper \<Rightarrow> 's CommandBufferHelper option" where
  "MMM_delete_chunks ops [] h = Some h"
| "MMM_delete_chunks ops (c # cs) h = do {
     (_, h) \<leftarrow> FencedAllocator_delete (WaitForToken ops) (chunk_allocator c) h;
     MMM_delete_chunks ops cs h
   }"

definition MappedMemoryManager_delete ::
  "'s CommandBufferOps \<Rightarrow> MappedMemoryManager \<Rightarrow> 's CommandBufferHelper \<Rightarrow> 's CommandBufferHelper option" where
  "MappedMemoryManager_delete ops m h = do {
     h \<leftarrow> MMM_destroy_buffers ops (chunks m) h;
     MMM_delete_chunks ops (chunks m) h
   }"

end
