(* ===== verification/Transfer_Buffer.thy ===== *)
theory Transfer_Buffer
  imports Ring_Buffer Cmd_Buffer_Helper
begin

section \<open>TransferBuffer: the client's ring of shared memory\<close>

text \<open>
  Model of \<^verbatim>\<open>src/gpu/command_buffer/client/transfer_buffer.{h,cc}\<close> and of the \<open>RingBufferWrapper\<close> of
  \<^verbatim>\<open>ring_buffer.h\<close>. The wrapper's \<open>base_\<close> is the address that corresponds to offset 0.
\<close>

record AlignedRingBuffer =
  arb_allocator :: RingBuffer
  arb_base :: Ptr
  arb_alignment :: u32
  arb_shm_id :: u32

record TransferBuffer =
  tb_ring_buffer :: "AlignedRingBuffer option"
  result_size :: u32
  default_buffer_size :: u32
  min_buffer_size :: u32
  max_buffer_size :: u32
  alignment :: u32
  size_to_flush :: u32
  bytes_since_last_flush :: u32
  tb_buffer :: Buffer
  buffer_id :: u32
  result_buffer :: "Ptr option"
  result_shm_offset :: u32
  tb_usable :: bool

subsection \<open>AlignedRingBuffer\<close>

definition AlignedRingBuffer_new :: "u32 \<Rightarrow> u32 \<Rightarrow> u32 \<Rightarrow> u32 \<Rightarrow> Ptr \<Rightarrow> AlignedRingBuffer" where
  "AlignedRingBuffer_new align shm_id base_offset sz base =
     \<lparr>arb_allocator = RingBuffer_new base_offset sz, arb_base = (fst base, snd base - unat base_offset),
      arb_alignment = align, arb_shm_id = shm_id\<rparr>"

definition RoundToAlignment :: "u32 \<Rightarrow> u32 \<Rightarrow> u32" where
  "RoundToAlignment align sz = (sz + align - 1) AND NOT (align - 1)"

definition RBW_GetPointer :: "AlignedRingBuffer \<Rightarrow> u32 \<Rightarrow> Ptr" where
  "RBW_GetPointer r offset = ptr_add (arb_base r) (unat offset)"

definition RBW_GetOffset :: "AlignedRingBuffer \<Rightarrow> Ptr \<Rightarrow> u32" where
  "RBW_GetOffset r pointer = word_of_int (int (snd pointer) - int (snd (arb_base r)))"

definition ARB_Alloc ::
  "'s CommandBufferOps \<Rightarrow> AlignedRingBuffer \<Rightarrow> u32 \<Rightarrow> 's CommandBufferHelper \<Rightarrow>
     (Ptr \<times> AlignedRingBuffer \<times> 's CommandBufferHelper) option" where
  "ARB_Alloc ops r sz h = do {
     (offset, a, h) \<leftarrow> RingBuffer_Alloc (WaitForToken ops) (last_token_read ops) (arb_allocator r)
                        (RoundToAlignment (arb_alignment r) sz) h;
     Some (RBW_GetPointer r offset, r\<lparr>arb_allocator := a\<rparr>, h)
   }"

definition RBW_FreePendingToken :: "AlignedRingBuffer \<Rightarrow> Ptr \<Rightarrow> u32 \<Rightarrow> AlignedRingBuffer option" where
  "RBW_FreePendingToken r pointer token = do {
     a \<leftarrow> RingBuffer_FreePendingToken (arb_allocator r) (RBW_GetOffset r pointer) token;
     Some (r\<lparr>arb_allocator := a\<rparr>)
   }"

subsection \<open>Sizes\<close>

text \<open>The loop \<open>for (int i = 4; i >= 0; --i)\<close> over \<open>value\<close> and \<open>log\<close>.\<close>

fun Log2Floor_loop :: "nat \<Rightarrow> u32 \<Rightarrow> nat \<Rightarrow> u32 \<times> nat" where
  "Log2Floor_loop 0 v l = (v, l)"
| "Log2Floor_loop (Suc i) v l =
     (let shift = 2 ^ i;
          x = drop_bit shift v
      in if x \<noteq> 0 then Log2Floor_loop i x (l + shift) else Log2Floor_loop i v l)"

definition Log2Floor :: "u32 \<Rightarrow> int option" where
  "Log2Floor n =
     (if n = 0 then Some (- 1)
      else do {
        let (v, l) = Log2Floor_loop 5 n 0;
        dcheck (v = 1);
        Some (int l)
      })"

definition Log2Ceiling :: "u32 \<Rightarrow> int option" where
  "Log2Ceiling n = (if n = 0 then Some (- 1) else map_option (\<lambda>l. 1 + l) (Log2Floor (n - 1)))"

text \<open>\<open>1 << n\<close> is undefined for a shift of 32 or more.\<close>

definition ComputePOTSize :: "u32 \<Rightarrow> u32 option" where
  "ComputePOTSize dimension =
     (if dimension = 0 then Some 0
      else do {
        l \<leftarrow> Log2Ceiling dimension;
        dcheck (0 \<le> l \<and> l < 32);
        Some (push_bit (nat l) 1)
      })"

subsection \<open>TransferBuffer\<close>

definition TransferBuffer_new :: TransferBuffer where
  "TransferBuffer_new =
     \<lparr>tb_ring_buffer = None, result_size = 0, default_buffer_size = 0, min_buffer_size = 0,
      max_buffer_size = 0, alignment = 0, size_to_flush = 0, bytes_since_last_flush = 0,
      tb_buffer = Buffer_new, buffer_id = - 1, result_buffer = None, result_shm_offset = 0,
      tb_usable = True\<rparr>"

definition HaveBuffer :: "TransferBuffer \<Rightarrow> bool" where
  "HaveBuffer t \<longleftrightarrow> buffer_id t \<noteq> - 1"

definition TB_Free ::
  "'s CommandBufferOps \<Rightarrow> TransferBuffer \<Rightarrow> 's CommandBufferHelper \<Rightarrow>
     (TransferBuffer \<times> 's CommandBufferHelper) option" where
  "TB_Free ops t h =
     (if HaveBuffer t then do {
        (_, h) \<leftarrow> Finish ops h;
        cb \<leftarrow> cb_DestroyTransferBuffer ops (buffer_id t) (command_buffer h);
        let h = h\<lparr>command_buffer := cb\<rparr>;
        h \<leftarrow> (case tb_ring_buffer t of
                None \<Rightarrow> Some h
              | Some r \<Rightarrow> map_option snd (RingBuffer_delete (WaitForToken ops) (arb_allocator r) h));
        Some (t\<lparr>buffer_id := - 1, tb_buffer := (tb_buffer t)\<lparr>buf_ptr := None, buf_size := 0\<rparr>,
                result_buffer := None, result_shm_offset := 0, tb_ring_buffer := None,
                bytes_since_last_flush := 0\<rparr>, h)
      } else Some (t, h))"

text \<open>
  \<open>AllocateRingBuffer\<close>: with a minimum size of 0 the loop \<open>for (;size >= min_buffer_size_; size /= 2)\<close>
  does not end if the service refuses every buffer.
\<close>

partial_function (option) TB_AllocateRingBuffer ::
  "'s CommandBufferOps \<Rightarrow> u32 \<Rightarrow> TransferBuffer \<Rightarrow> 's CommandBufferHelper \<Rightarrow>
     (TransferBuffer \<times> 's CommandBufferHelper) option" where
  "TB_AllocateRingBuffer ops sz t h =
     (if min_buffer_size t \<le> sz then
        let ((buffer, bid), cb) = cb_CreateTransferBuffer ops (ucast sz) (command_buffer h);
            h = h\<lparr>command_buffer := cb\<rparr>
        in if bid \<noteq> - 1 then
             (case buf_ptr buffer of
                None \<Rightarrow> None
              | Some p \<Rightarrow>
                  Some (t\<lparr>tb_buffer := buffer,
                          tb_ring_buffer := Some (AlignedRingBuffer_new (alignment t) bid (result_size t)
                             (ucast (buf_size buffer - ucast (result_size t))) (ptr_add p (unat (result_size t)))),
                          buffer_id := bid, result_buffer := Some p, result_shm_offset := 0\<rparr>, h))
           else TB_AllocateRingBuffer ops (sz div 2) (t\<lparr>max_buffer_size := sz div 2\<rparr>) h
      else Some (t\<lparr>tb_usable := False\<rparr>, h))"

definition ReallocateRingBuffer ::
  "'s CommandBufferOps \<Rightarrow> u32 \<Rightarrow> TransferBuffer \<Rightarrow> 's CommandBufferHelper \<Rightarrow>
     (TransferBuffer \<times> 's CommandBufferHelper) option" where
  "ReallocateRingBuffer ops sz t h = do {
     needed \<leftarrow> ComputePOTSize (sz + result_size t);
     let needed = max needed (min_buffer_size t);
     let needed = max needed (default_buffer_size t);
     let needed = min needed (max_buffer_size t);
     if tb_usable t \<and> (\<not> HaveBuffer t \<or> buf_size (tb_buffer t) < ucast needed) then do {
       (t, h) \<leftarrow> (if HaveBuffer t then TB_Free ops t h else Some (t, h));
       TB_AllocateRingBuffer ops needed t h
     }
     else Some (t, h)
   }"

definition TB_Initialize ::
  "'s CommandBufferOps \<Rightarrow> u32 \<Rightarrow> u32 \<Rightarrow> u32 \<Rightarrow> u32 \<Rightarrow> u32 \<Rightarrow> u32 \<Rightarrow> TransferBuffer \<Rightarrow>
     's CommandBufferHelper \<Rightarrow> (bool \<times> TransferBuffer \<times> 's CommandBufferHelper) option" where
  "TB_Initialize ops default_sz result_sz min_sz max_sz align flush_sz t h = do {
     let t = t\<lparr>result_size := result_sz, default_buffer_size := default_sz, min_buffer_size := min_sz,
               max_buffer_size := max_sz, alignment := align, size_to_flush := flush_sz\<rparr>;
     (t, h) \<leftarrow> ReallocateRingBuffer ops (default_buffer_size t - result_sz) t h;
     Some (HaveBuffer t, t, h)
   }"

text \<open>\<open>ring_buffer_\<close> is dereferenced without a test.\<close>

definition TB_GetOffset :: "TransferBuffer \<Rightarrow> Ptr \<Rightarrow> u32 option" where
  "TB_GetOffset t pointer = do { r \<leftarrow> tb_ring_buffer t; Some (RBW_GetOffset r pointer) }"

definition TB_FreePendingToken ::
  "'s CommandBufferOps \<Rightarrow> Ptr \<Rightarrow> u32 \<Rightarrow> TransferBuffer \<Rightarrow> 's CommandBufferHelper \<Rightarrow>
     (TransferBuffer \<times> 's CommandBufferHelper) option" where
  "TB_FreePendingToken ops p token t h = do {
     r \<leftarrow> tb_ring_buffer t;
     r \<leftarrow> RBW_FreePendingToken r p token;
     let t = t\<lparr>tb_ring_buffer := Some r\<rparr>;
     if size_to_flush t \<le> bytes_since_last_flush t \<and> 0 < size_to_flush t then do {
       h \<leftarrow> CBH_Flush ops h;
       Some (t\<lparr>bytes_since_last_flush := 0\<rparr>, h)
     }
     else Some (t, h)
   }"

definition TB_AllocUpTo ::
  "'s CommandBufferOps \<Rightarrow> u32 \<Rightarrow> TransferBuffer \<Rightarrow> 's CommandBufferHelper \<Rightarrow>
     ((Ptr \<times> u32) option \<times> TransferBuffer \<times> 's CommandBufferHelper) option" where
  "TB_AllocUpTo ops sz t h = do {
     (t, h) \<leftarrow> ReallocateRingBuffer ops sz t h;
     if \<not> HaveBuffer t then Some (None, t, h)
     else do {
       r \<leftarrow> tb_ring_buffer t;
       let max_size = RingBuffer_GetLargestFreeOrPendingSize (arb_allocator r);
       let size_allocated = min max_size sz;
       let t = t\<lparr>bytes_since_last_flush := bytes_since_last_flush t + size_allocated\<rparr>;
       (p, r, h) \<leftarrow> ARB_Alloc ops r size_allocated h;
       Some (Some (p, size_allocated), t\<lparr>tb_ring_buffer := Some r\<rparr>, h)
     }
   }"

definition TB_Alloc ::
  "'s CommandBufferOps \<Rightarrow> u32 \<Rightarrow> TransferBuffer \<Rightarrow> 's CommandBufferHelper \<Rightarrow>
     (Ptr option \<times> TransferBuffer \<times> 's CommandBufferHelper) option" where
  "TB_Alloc ops sz t h = do {
     (t, h) \<leftarrow> ReallocateRingBuffer ops sz t h;
     if \<not> HaveBuffer t then Some (None, t, h)
     else do {
       r \<leftarrow> tb_ring_buffer t;
       let max_size = RingBuffer_GetLargestFreeOrPendingSize (arb_allocator r);
       if max_size < sz then Some (None, t, h)
       else do {
         let t = t\<lparr>bytes_since_last_flush := bytes_since_last_flush t + sz\<rparr>;
         (p, r, h) \<leftarrow> ARB_Alloc ops r sz h;
         Some (Some p, t\<lparr>tb_ring_buffer := Some r\<rparr>, h)
       }
     }
   }"

definition GetResultBuffer ::
  "'s CommandBufferOps \<Rightarrow> TransferBuffer \<Rightarrow> 's CommandBufferHelper \<Rightarrow>
     (Ptr option \<times> TransferBuffer \<times> 's CommandBufferHelper) option" where
  "GetResultBuffer ops t h = do {
     (t, h) \<leftarrow> ReallocateRingBuffer ops (result_size t) t h;
     Some (result_buffer t, t, h)
   }"

definition GetResultOffset ::
  "'s CommandBufferOps \<Rightarrow> TransferBuffer \<Rightarrow> 's CommandBufferHelper \<Rightarrow>
     (u32 \<times> TransferBuffer \<times> 's CommandBufferHelper) option" where
  "GetResultOffset ops t h = do {
     (t, h) \<leftarrow> ReallocateRingBuffer ops (result_size t) t h;
     Some (result_shm_offset t, t, h)
   }"

definition GetShmId ::
  "'s CommandBufferOps \<Rightarrow> TransferBuffer \<Rightarrow> 's CommandBufferHelper \<Rightarrow>
     (u32 \<times> TransferBuffer \<times> 's CommandBufferHelper) option" where
  "GetShmId ops t h = do {
     (t, h) \<leftarrow> ReallocateRingBuffer ops (result_size t) t h;
     Some (buffer_id t, t, h)
   }"

definition GetCurrentMaxAllocationWithoutRealloc :: "TransferBuffer \<Rightarrow> u32 option" where
  "GetCurrentMaxAllocationWithoutRealloc t =
     (if HaveBuffer t
      then do { r \<leftarrow> tb_ring_buffer t; Some (RingBuffer_GetLargestFreeOrPendingSize (arb_allocator r)) }
      else Some 0)"

definition GetMaxAllocation :: "TransferBuffer \<Rightarrow> u32" where
  "GetMaxAllocation t = (if HaveBuffer t then max_buffer_size t - result_size t else 0)"

subsection \<open>ScopedTransferBufferPtr\<close>

record ScopedTransferBufferPtr =
  scoped_buffer :: "Ptr option"
  scoped_size :: u32

definition Scoped_Release ::
  "'a Memory_scheme CommandBufferOps \<Rightarrow> ScopedTransferBufferPtr \<Rightarrow> TransferBuffer \<Rightarrow>
     'a Memory_scheme CommandBufferHelper \<Rightarrow>
     (ScopedTransferBufferPtr \<times> TransferBuffer \<times> 'a Memory_scheme CommandBufferHelper) option" where
  "Scoped_Release ops s t h =
     (case scoped_buffer s of
        None \<Rightarrow> Some (s, t, h)
      | Some p \<Rightarrow> do {
          (token, h) \<leftarrow> InsertToken ops h;
          (t, h) \<leftarrow> TB_FreePendingToken ops p token t h;
          Some (s\<lparr>scoped_buffer := None, scoped_size := 0\<rparr>, t, h)
        })"

definition Scoped_Reset ::
  "'a Memory_scheme CommandBufferOps \<Rightarrow> u32 \<Rightarrow> ScopedTransferBufferPtr \<Rightarrow> TransferBuffer \<Rightarrow>
     'a Memory_scheme CommandBufferHelper \<Rightarrow>
     (ScopedTransferBufferPtr \<times> TransferBuffer \<times> 'a Memory_scheme CommandBufferHelper) option" where
  "Scoped_Reset ops new_size s t h = do {
     (s, t, h) \<leftarrow> Scoped_Release ops s t h;
     (r, t, h) \<leftarrow> TB_AllocUpTo ops new_size t h;
     Some (case r of
             None \<Rightarrow> s\<lparr>scoped_buffer := None\<rparr>
           | Some (p, n) \<Rightarrow> s\<lparr>scoped_buffer := Some p, scoped_size := n\<rparr>, t, h)
   }"

definition Scoped_new ::
  "'a Memory_scheme CommandBufferOps \<Rightarrow> u32 \<Rightarrow> TransferBuffer \<Rightarrow> 'a Memory_scheme CommandBufferHelper \<Rightarrow>
     (ScopedTransferBufferPtr \<times> TransferBuffer \<times> 'a Memory_scheme CommandBufferHelper) option" where
  "Scoped_new ops sz t h = Scoped_Reset ops sz \<lparr>scoped_buffer = None, scoped_size = 0\<rparr> t h"

end
