(* ===== verification/Ring_Chain.thy ===== *)
theory Ring_Chain
  imports Common_Decoder
begin

section \<open>The commands in the ring\<close>

text \<open>
  The description of the part of the ring that the client has written and the service has not read yet: \<open>chain\<close>, a
  sequence of complete commands with the tokens they set, and what keeps it (writes elsewhere in the ring, the execution
  of commands that do not write to the ring, further commands at its end).
\<close>

subsection \<open>Harmless commands\<close>

text \<open>
  A command is harmless if it does not ask the service to write into the ring itself (whose id is \<open>rid\<close>); its
  tokens are what it makes the service acknowledge.
\<close>

definition entry_safe :: "byte list list \<Rightarrow> u32 \<Rightarrow> CommandHeader \<Rightarrow> Ptr \<Rightarrow> bool" where
  "entry_safe m rid h p \<longleftrightarrow>
     (\<forall>c f. cmd_id c = ucast (hdr_command h) \<longrightarrow> unat (hdr_size h) = unat (sizeof_cmd c div 4) \<longrightarrow>
        load_args m p (unat (hdr_size h)) = Some f \<longrightarrow> rid \<notin> write_ids c f)"

definition entry_tokens :: "byte list list \<Rightarrow> CommandHeader \<Rightarrow> Ptr \<Rightarrow> u32 list" where
  "entry_tokens m h p =
     (if ucast (hdr_command h) = cmd_id kSetToken \<and> unat (hdr_size h) = 2
      then case load32 m (ptr_add p 4) of Some t \<Rightarrow> [t] | None \<Rightarrow> [] else [])"

text \<open>
  \<open>chain m b N rid g d ts\<close>: the \<open>d\<close> entries from entry \<open>g\<close> on, of the ring of \<open>N\<close> entries at \<open>b\<close>, are complete harmless
  commands, none of which reaches over the end of the ring; \<open>ts\<close> are their tokens in order.
\<close>

inductive chain :: "byte list list \<Rightarrow> Ptr \<Rightarrow> nat \<Rightarrow> u32 \<Rightarrow> nat \<Rightarrow> nat \<Rightarrow> u32 list \<Rightarrow> bool"
  for m b N rid where
  chain_nil: "chain m b N rid g 0 []"
| chain_cons: "load32 m (ptr_add b (4 * g)) = Some (header_entry h) \<Longrightarrow> 0 < unat (hdr_size h) \<Longrightarrow>
    unat (hdr_size h) \<le> d \<Longrightarrow> g + unat (hdr_size h) \<le> N \<Longrightarrow> entry_safe m rid h (ptr_add b (4 * g)) \<Longrightarrow>
    chain m b N rid ((g + unat (hdr_size h)) mod N) (d - unat (hdr_size h)) ts \<Longrightarrow>
    chain m b N rid g d (entry_tokens m h (ptr_add b (4 * g)) @ ts)"

inductive_cases chain_SucE: "chain m b N rid g (Suc d) ts"
inductive_cases chain_0E: "chain m b N rid g 0 ts"

lemma chain_0 [simp]: "chain m b N rid g 0 ts \<longleftrightarrow> ts = []"
  by (auto elim: chain_0E intro: chain_nil)

lemma load_args_cong:
  "\<forall>k < n. load32 m' (ptr_add p (4 * k)) = load32 m (ptr_add p (4 * k)) \<Longrightarrow> load_args m' p n = load_args m p n"
  by (induction n) simp_all

lemma ptr_add_add [simp]: "ptr_add (ptr_add p i) j = ptr_add p (i + j)"
  by (simp add: ptr_add_def)

lemma entry_cong:
  assumes "\<forall>k < unat (hdr_size h). load32 m' (ptr_add p (4 * k)) = load32 m (ptr_add p (4 * k))"
  shows "entry_safe m' rid h p = entry_safe m rid h p" "entry_tokens m' h p = entry_tokens m h p"
  using load_args_cong [OF assms] assms [rule_format, of 1] unfolding entry_safe_def entry_tokens_def
  by (metis, auto)

lemma chain_cong:
  assumes "chain m b N rid g d ts" "g < N"
    and "\<forall>k < d. load32 m' (ptr_add b (4 * ((g + k) mod N))) = load32 m (ptr_add b (4 * ((g + k) mod N)))"
  shows "chain m' b N rid g d ts"
  using assms
proof (induction rule: chain.induct)
  case (chain_cons g h d ts)
  let ?n = "unat (hdr_size h)" and ?p = "ptr_add b (4 * g)"
  have loc: "load32 m' (ptr_add ?p (4 * k)) = load32 m (ptr_add ?p (4 * k))" if "k < ?n" for k
  proof -
    have "(g + k) mod N = g + k" using that chain_cons.hyps(4) by simp
    with chain_cons.prems(2) chain_cons.hyps(3) that show ?thesis by (metis less_le_trans ptr_add_add distrib_left)
  qed
  have "load32 m' (ptr_add b (4 * (((g + ?n) mod N + k) mod N))) = load32 m (ptr_add b (4 * (((g + ?n) mod N + k) mod N)))"
    if "k < d - ?n" for k
    using chain_cons.prems(2) [rule_format, of "?n + k"] that by (simp add: mod_add_left_eq add.assoc)
  then have "chain m' b N rid ((g + ?n) mod N) (d - ?n) ts"
    using chain_cons.IH chain_cons.prems(1) by simp
  with chain.chain_cons [of m' b g h d N rid ts] loc [of 0] chain_cons.hyps entry_cong [of h m' ?p m] loc
  show ?case by simp
qed simp

lemma chain_append:
  assumes "chain m b N rid g d ts" "chain m b N rid ((g + d) mod N) d' ts'" "g < N"
  shows "chain m b N rid g (d + d') (ts @ ts')"
  using assms
proof (induction rule: chain.induct)
  case (chain_cons g h d ts)
  let ?n = "unat (hdr_size h)"
  have "((g + ?n) mod N + (d - ?n)) mod N = (g + ?n + (d - ?n)) mod N" by (rule mod_add_left_eq)
  also have "g + ?n + (d - ?n) = g + d" using chain_cons.hyps(3) by simp
  finally have "((g + ?n) mod N + (d - ?n)) mod N = (g + d) mod N" .
  then have "chain m b N rid ((g + ?n) mod N) (d - ?n + d') (ts @ ts')"
    using chain_cons.IH chain_cons.prems by simp
  with chain.chain_cons [of m b g h "d + d'" N rid "ts @ ts'"] chain_cons.hyps show ?case by simp
qed simp

lemma chain_single:
  assumes "load32 m (ptr_add b (4 * g)) = Some (header_entry h)" "0 < unat (hdr_size h)" "g + unat (hdr_size h) \<le> N"
    and "entry_safe m rid h (ptr_add b (4 * g))"
  shows "chain m b N rid g (unat (hdr_size h)) (entry_tokens m h (ptr_add b (4 * g)))"
proof -
  have "chain m b N rid ((g + unat (hdr_size h)) mod N) (unat (hdr_size h) - unat (hdr_size h)) []"
    by (simp only: diff_self_eq_0 chain_0)
  from chain_cons [OF assms(1,2) order.refl assms(3,4) this] show ?thesis by (simp only: append_Nil2)
qed

lemma load32_region: "length m' = length m \<Longrightarrow> m' ! fst p = m ! fst p \<Longrightarrow> load32 m' p = load32 m p"
  by (simp add: load32_def mem_load_def)

lemma chain_region:
  assumes "chain m b N rid g d ts" "g < N" "length m' = length m" "m' ! fst b = m ! fst b"
  shows "chain m' b N rid g d ts"
  by (rule chain_cong [OF assms(1,2)]) (intro allI impI load32_region, simp_all add: assms(3,4))

lemma chain_unique:
  "chain m b N rid g d ts \<Longrightarrow> chain m b N rid g d us \<Longrightarrow> us = ts"
proof (induction arbitrary: us rule: chain.induct)
  case (chain_cons g h d ts)
  from chain_cons.prems chain_cons.hyps(2,3) obtain h' us' where
    h': "load32 m (ptr_add b (4 * g)) = Some (header_entry h')" "us = entry_tokens m h' (ptr_add b (4 * g)) @ us'"
      "chain m b N rid ((g + unat (hdr_size h')) mod N) (d - unat (hdr_size h')) us'"
    by (cases rule: chain.cases) auto
  have "h' = h" using h'(1) chain_cons.hyps(1) by (metis option.inject value_header_entry)
  with h' chain_cons.IH show ?case by simp
qed simp

end
