(* ===== verification/In_Process.thy ===== *)
theory In_Process
  imports Ring_Chain Gpu_Scheduler Cmd_Buffer_Helper Fenced_Allocator Ring_Buffer
begin

section \<open>The client and the service in one process\<close>

text \<open>
  The composition that \<^verbatim>\<open>src/gpu/command_buffer/tests/gl_manager.cc\<close> sets up: the client's
  \<open>CommandBufferHelper\<close> calls the \<open>CommandBufferService\<close> directly, whose put-offset callback is
  \<open>GLManager::PumpCommands\<close> and whose get-buffer callback is \<open>GLManager::GetBufferChanged\<close>. The scheduler gets the GLES2
  decoder both as its handler and as its decoder. The commands are the common
  commands; what the GLES2 decoder answers to the scheduler's questions is arbitrary.

  From the description of the unread part of the ring follow that a flush executes all of it, that waiting for a token ends, and
  that a token that was waited for has been passed.
\<close>

subsection \<open>The wiring\<close>

definition common_env :: "'a GpuScheduler_scheme GLES2Decoder \<Rightarrow> 'a GpuScheduler_scheme SchedulerEnv" where
  "common_env d = \<lparr>handler = DoCommonCommand, decoder = Some d, scheduling_changed_callback = None,
     command_processed_callback = None, parse_error_callback = None, run_task = (\<lambda>_ w. Some w),
     HasCompleted = (\<lambda>_ _. True), Now = (\<lambda>_. 0)\<rparr>"

text \<open>
  \<open>PumpCommands\<close>: making the GL context current does not touch the service, and its result is not looked at; the assertion on the error
  that follows reading the state only reports.
\<close>

definition PumpCommands :: "'a GpuScheduler_scheme GLES2Decoder \<Rightarrow> 'a GpuScheduler_scheme \<Rightarrow> 'a GpuScheduler_scheme option" where
  "PumpCommands d w = do {
     w \<leftarrow> PutChanged (common_env d) w;
     let (state, w) = GetState w;
     Some w
   }"

definition GetBufferChanged :: "u32 \<Rightarrow> 'a GpuScheduler_scheme \<Rightarrow> (bool \<times> 'a GpuScheduler_scheme) option" where
  "GetBufferChanged transfer_buffer_id w = sched_SetGetBuffer transfer_buffer_id w"

definition in_process_ops ::
  "'a GpuScheduler_scheme GLES2Decoder \<Rightarrow> ('a GpuScheduler_scheme \<Rightarrow> bool \<times> bool \<times> bool) \<Rightarrow>
     ('a GpuScheduler_scheme \<Rightarrow> int) \<Rightarrow> 'a GpuScheduler_scheme CommandBufferOps" where
  "in_process_ops d os now =
     \<lparr>cb_GetState = GetState, cb_GetLastState = GetLastState, cb_GetLastToken = GetLastToken,
      cb_GetLastError = GetLastError,
      cb_Flush = CBS_Flush (Some (PumpCommands d)),
      cb_FlushSync = CBS_FlushSync (Some (PumpCommands d)),
      cb_SetGetBuffer = CBS_SetGetBuffer (Some GetBufferChanged),
      cb_CreateTransferBuffer = (\<lambda>sz w. CreateTransferBuffer (os w) sz w),
      cb_DestroyTransferBuffer = CBS_DestroyTransferBuffer, cb_clock = now\<rparr>"

subsection \<open>Executing one command of the ring\<close>

text \<open>
  The service with the ring in region \<open>r\<close>: scheduled, not preempted, the parser on the ring, and no other
  registered buffer in the ring's region.
\<close>

definition svc_ring :: "nat \<Rightarrow> nat \<Rightarrow> u32 \<Rightarrow> 'a GpuScheduler_scheme \<Rightarrow> bool" where
  "svc_ring r N rid w \<longleftrightarrow>
     dec_wf w \<and> has_parser w \<and> unscheduled_count w = 0 \<and> unschedule_fences w = [] \<and> preemption_flag w = None \<and>
     cp_buffer w = Some (r, 0) \<and> unat (cp_entry_count w) = N \<and> num_entries w = cp_entry_count w \<and> N \<le> 2 ^ 29 \<and>
     in_bounds (shm w) (r, 0) (4 * N) \<and> (\<forall>i. i \<noteq> rid \<longrightarrow> avoids_region r w i) \<and>
     get_offset w = cp_get w \<and> unat (cp_get w) < N"

text \<open>What the execution of harmless commands leaves alone.\<close>

definition svc_frame :: "nat \<Rightarrow> 'a GpuScheduler_scheme \<Rightarrow> 'a GpuScheduler_scheme \<Rightarrow> bool" where
  "svc_frame r w w' \<longleftrightarrow>
     same_shape w w' \<and> shm w' ! r = shm w ! r \<and> registered_buffers w' = registered_buffers w \<and>
     shared_memory_bytes_allocated w' = shared_memory_bytes_allocated w \<and>
     num_entries w' = num_entries w \<and> put_offset w' = put_offset w \<and> ring_buffer_id w' = ring_buffer_id w \<and>
     ring_buffer w' = ring_buffer w \<and> next_id w' = next_id w \<and> cp_buffer w' = cp_buffer w \<and>
     cp_entry_count w' = cp_entry_count w \<and> cp_put w' = cp_put w \<and> has_parser w' = has_parser w \<and>
     unscheduled_count w' = unscheduled_count w \<and> unschedule_fences w' = unschedule_fences w \<and>
     preemption_flag w' = preemption_flag w"

lemma svc_frame_refl [simp]: "svc_frame r w w"
  by (simp add: svc_frame_def)

lemma svc_frame_trans [trans]: "svc_frame r w w' \<Longrightarrow> svc_frame r w' w'' \<Longrightarrow> svc_frame r w w''"
  by (simp add: svc_frame_def same_shape_def)

lemma svc_ring_frame:
  assumes "svc_ring r N rid w" "svc_frame r w w'" "dec_wf w'" "get_offset w' = cp_get w'" "unat (cp_get w') < N"
  shows "svc_ring r N rid w'"
proof -
  have "avoids_region r w' i = avoids_region r w i" for i
    using assms(2) by (simp add: avoids_region_def GetTransferBuffer_def svc_frame_def)
  moreover have "in_bounds (shm w') (r, 0) (4 * N) = in_bounds (shm w) (r, 0) (4 * N)"
    using assms(2) by (intro in_bounds_same_shape) (simp add: svc_frame_def)
  ultimately show ?thesis using assms by (simp add: svc_ring_def svc_frame_def)
qed

lemma svc_ring_parser_wf: "svc_ring r N rid w \<Longrightarrow> parser_wf w"
  by (auto simp: svc_ring_def parser_wf_def)

lemma arg_count_size:
  assumes "0 < unat (hdr_size h)" "ucast (hdr_size h) - 1 = (ucast (sizeof_cmd c div 4 - 1) :: u32)"
  shows "unat (hdr_size h) = unat (sizeof_cmd c div 4)"
proof -
  have "(ucast (sizeof_cmd c div 4 - 1) :: u32) + 1 = ucast (sizeof_cmd c div 4)" by (cases c) simp_all
  with assms(2) have "(ucast (hdr_size h) :: u32) = ucast (sizeof_cmd c div 4)" by (metis diff_add_cancel)
  then have "unat (ucast (hdr_size h) :: u32) = unat (ucast (sizeof_cmd c div 4) :: u32)" by simp
  moreover have "unat (ucast (sizeof_cmd c div 4) :: u32) = unat (sizeof_cmd c div 4)" by (cases c) simp_all
  ultimately show ?thesis by (simp add: unat_hdr_size)
qed

lemma entry_safe_avoids:
  assumes "svc_ring r N rid w" "entry_safe (shm w) rid h p" "0 < unat (hdr_size h)"
  shows "cmd_avoids r w (ucast (hdr_command h)) (ucast (hdr_size h) - 1) p"
  unfolding cmd_avoids_def
proof (intro allI impI ballI)
  fix c f i
  assume c: "cmd_id c = ucast (hdr_command h)" "ucast (hdr_size h) - 1 = (ucast (sizeof_cmd c div 4 - 1) :: u32)"
    "load_args (shm w) p (unat (sizeof_cmd c div 4)) = Some f" "i \<in> write_ids c f"
  have "unat (hdr_size h) = unat (sizeof_cmd c div 4)" by (rule arg_count_size [OF assms(3) c(2)])
  with assms(2) c have "i \<noteq> rid" unfolding entry_safe_def by metis
  with assms(1) show "avoids_region r w i" by (simp add: svc_ring_def)
qed

lemma ring_step:
  fixes w :: "'a GpuScheduler_scheme"
  assumes w: "svc_ring r N rid w" and ne: "cp_get w \<noteq> cp_put w"
    and e: "load32 (shm w) (ptr_add (r, 0) (4 * unat (cp_get w))) = Some (header_entry h)"
    and n: "0 < unat (hdr_size h)" "unat (cp_get w) + unat (hdr_size h) \<le> N"
    and safe: "entry_safe (shm w) rid h (ptr_add (r, 0) (4 * unat (cp_get w)))"
  defines "ts \<equiv> entry_tokens (shm w) h (ptr_add (r, 0) (4 * unat (cp_get w)))"
  shows "\<exists>e w'. ProcessCommand DoCommonCommand w = Some (e, w') \<and> svc_frame r w w' \<and> dec_wf w' \<and>
    unat (cp_get w') = (unat (cp_get w) + unat (hdr_size h)) mod N \<and> get_offset w' = get_offset w \<and>
    cbs_error w' = cbs_error w \<and> e \<in> {kNoError, kInvalidArguments, kUnknownCommand} \<and>
    cbs_token w' = last (cbs_token w # ts)"
proof -
  let ?g = "unat (cp_get w)" and ?s = "ucast (hdr_size h) :: u32"
  let ?p = "ptr_add (r, 0) (4 * ?g)"
  have wf: "dec_wf w" "cp_buffer w = Some (r, 0)" "unat (cp_entry_count w) = N" "N \<le> 2 ^ 29"
    "in_bounds (shm w) (r, 0) (4 * N)" "?g < N" using w by (auto simp: svc_ring_def)
  have hd: "header_at w ?g = Some h" using e wf(2) by (simp add: header_at_def)
  have s: "unat ?s = unat (hdr_size h)" "unat ?s < 2 ^ 21" using hdr_size_bounds(1) by (simp_all add: unat_hdr_size)
  have args: "1 + unat (?s - 1) = unat ?s" "unat (?s - 1) < 2 ^ 21" using s n by (subst unat_minus_one; force)+
  have "in_bounds (shm w) ?p (4 * (1 + unat (?s - 1)))"
    unfolding args s using wf n by (auto simp: in_bounds_def)
  from DoCommonCommand_handled [OF wf(1) this args(2), of "ucast (hdr_command h)"]
  obtain e v where v: "DoCommonCommand (ucast (hdr_command h)) (?s - 1) ?p w = Some (e, v)" "dec_wf v" "dec_step w v"
    "e \<in> {kNoError, kInvalidArguments, kUnknownCommand}"
    by (auto simp: handled_def)
  have fr: "shm v ! r = shm w ! r"
    using DoCommonCommand_frame [OF wf(1) v(1)] entry_safe_avoids [OF w safe n(1)] by blast
  have frame: "svc_frame r w v" "cp_get v = cp_get w" "get_offset v = get_offset w" "cbs_error v = cbs_error w"
    using v(3) fr by (auto simp: dec_step_def svc_frame_def same_shape_def)
  have tok: "cbs_token v = last (cbs_token w # ts)"
  proof (cases "ucast (hdr_command h) = cmd_id kSetToken")
    case False
    then have "ts = []" by (simp only: ts_def entry_tokens_def if_False simp_thms)
    with DoCommonCommand_token [OF v(1) False] show ?thesis by simp
  next
    case tok: True
    show ?thesis
    proof (cases "unat (hdr_size h) = 2")
      case False
      then have "ts = []" by (simp add: ts_def entry_tokens_def)
      moreover have "?s - 1 \<noteq> 1"
        using False s args by (metis One_nat_def numeral_2_eq_2 plus_1_eq_Suc unat_1)
      then have "v = w"
        using v(1) unfolding tok by (simp add: DoCommonCommand_def ucast_sizes)
      ultimately show ?thesis by simp
    next
      case True
      then have one: "?s - 1 = 1" using args s by (metis One_nat_def add_left_cancel nat_1_add_1 unat_1 word_unat_eq_iff)
      have "in_bounds (shm w) (ptr_add ?p 4) 4" using wf n True by (auto simp: in_bounds_def)
      then obtain t where t: "load32 (shm w) (ptr_add ?p 4) = Some t"
        using load32_total [of "ptr_add ?p 4" "shm w"] by (auto simp: in_bounds_def)
      have "ts = [t]" using tok True t by (simp add: ts_def entry_tokens_def)
      moreover have "v = CBS_SetToken t w"
        using v(1) DoCommonCommand_SetToken [OF t e] unfolding tok one by simp
      moreover have "cbs_token (CBS_SetToken t w) = t" using CBS_SetToken_eq [of t w] by auto
      ultimately show ?thesis by simp
    qed
  qed
  let ?g' = "of_nat ((?g + unat (hdr_size h)) mod N) :: u32"
  have "int32_rem (cp_get w + ?s) (cp_entry_count w) = Some ?g'"
    using next_get [of "cp_get w" h "cp_entry_count w"] wf n by simp
  moreover have "cp_entry_count v = cp_entry_count w" using frame(1) by (simp add: svc_frame_def)
  ultimately have "ProcessCommand DoCommonCommand w = Some (e, v\<lparr>cp_get := ?g'\<rparr>)"
    using ProcessCommand_cases [OF svc_ring_parser_wf [OF w] hd ne, of DoCommonCommand] v wf n frame(2) by auto
  moreover have "svc_frame r w (v\<lparr>cp_get := ?g'\<rparr>)" using frame(1) by (simp add: svc_frame_def same_shape_def)
  moreover have "unat ?g' = (?g + unat (hdr_size h)) mod N"
    using unat_of_nat_mod [of "cp_entry_count w"] wf by auto
  moreover have "dec_wf (v\<lparr>cp_get := ?g'\<rparr>)" using v(2) by (rule common.set_get_ok)
  ultimately show ?thesis using v(4) frame tok by auto
qed

subsection \<open>A flush executes the unread commands\<close>

lemma ring_ahead:
  assumes "(g + d) mod N = (g :: nat)" "g < N" "d < N"
  shows "d = 0"
proof (rule ccontr)
  assume "d \<noteq> 0"
  show False
  proof (cases "g + d < N")
    case False
    then have "(g + d) mod N = g + d - N" using assms(2,3) by (simp add: le_mod_geq)
    with False \<open>d \<noteq> 0\<close> assms show False by simp
  qed (use assms \<open>d \<noteq> 0\<close> in simp)
qed

lemma CBS_SetGetOffset_ok:
  assumes "unat get < unat (num_entries w)" "unat (num_entries w) \<le> 2 ^ 29"
  shows "CBS_SetGetOffset get w = Some (w\<lparr>get_offset := get\<rparr>)"
proof -
  have "sint get = int (unat get)" "sint (num_entries w) = int (unat (num_entries w))"
    using assms by (simp_all add: sint_nonneg_u32)
  then have "0 \<le> sint get" "sint get < sint (num_entries w)" using assms(1) by linarith+
  then show ?thesis by (simp add: CBS_SetGetOffset_def)
qed

lemma dec_wf_fields:
  "dec_wf w \<Longrightarrow> dec_wf (w\<lparr>get_offset := a\<rparr>)" "dec_wf w \<Longrightarrow> dec_wf (w\<lparr>cp_put := a\<rparr>)"
  "dec_wf w \<Longrightarrow> dec_wf (w\<lparr>put_offset := a\<rparr>)" "dec_wf w \<Longrightarrow> dec_wf (w\<lparr>cbs_error := er\<rparr>)"
  "dec_wf w \<Longrightarrow> dec_wf (w\<lparr>cbs_context_lost_reason := re\<rparr>)" "dec_wf w \<Longrightarrow> dec_wf (w\<lparr>cbs_generation := gn\<rparr>)"
  by (simp_all add: dec_wf_def tbm_wf_def)

lemma svc_frame_fields [simp]:
  "svc_frame r w (w\<lparr>get_offset := a\<rparr>)" "svc_frame r w (w\<lparr>cp_get := a\<rparr>)" "svc_frame r w (w\<lparr>cbs_error := er\<rparr>)"
  "svc_frame r w (w\<lparr>cbs_context_lost_reason := re\<rparr>)" "svc_frame r w (w\<lparr>cbs_generation := gn\<rparr>)"
  by (simp_all add: svc_frame_def same_shape_def)

text \<open>\<open>report_error\<close> on a service without an error records the error.\<close>

definition failed :: "Error \<Rightarrow> ContextLostReason \<Rightarrow> 'a GpuScheduler_scheme \<Rightarrow> 'a GpuScheduler_scheme" where
  "failed e re w = w\<lparr>cbs_context_lost_reason := re, cbs_error := e\<rparr>"

lemma report_error_eq:
  "cbs_error w = kNoError \<Longrightarrow> report_error (common_env d) e w = Some (failed e (GetContextLostReason d w) w)"
  by (simp add: report_error_def common_env_def SetParseError_def SetContextLostReason_def failed_def)

lemma failed_simps [simp]:
  "svc_frame r w (failed e re w)" "cp_get (failed e re w) = cp_get w" "get_offset (failed e re w) = get_offset w"
  "cbs_error (failed e re w) = e" "cbs_token (failed e re w) = cbs_token w" "shm (failed e re w) = shm w"
  "cp_put (failed e re w) = cp_put w" "dec_wf w \<Longrightarrow> dec_wf (failed e re w)"
  by (simp_all add: failed_def svc_frame_def same_shape_def dec_wf_fields)

lemma svc_ring_failed: "svc_ring r N rid w \<Longrightarrow> svc_ring r N rid (failed e re w)"
  by (rule svc_ring_frame) (auto simp: svc_ring_def)

text \<open>
  \<open>executed m r N rid w ts d w'\<close>: the service went from \<open>w\<close> through a first part of the commands whose tokens are
  \<open>ts\<close>; \<open>d\<close> entries are left, none if there is no error.
\<close>

definition executed :: "byte list list \<Rightarrow> nat \<Rightarrow> nat \<Rightarrow> u32 \<Rightarrow> 'a GpuScheduler_scheme \<Rightarrow> u32 list \<Rightarrow> nat \<Rightarrow>
    'a GpuScheduler_scheme \<Rightarrow> bool" where
  "executed m r N rid w ts d w' \<longleftrightarrow>
     svc_ring r N rid w' \<and> svc_frame r w w' \<and>
     (\<exists>ts1 ts2 d'. ts = ts1 @ ts2 \<and> chain m (r, 0) N rid (unat (cp_get w')) d' ts2 \<and> d' \<le> d \<and>
        (unat (cp_get w') + d') mod N = (unat (cp_get w) + d) mod N \<and>
        cbs_token w' = last (cbs_token w # ts1) \<and> (cbs_error w' = kNoError \<longrightarrow> d' = 0))"

lemma executed_step:
  assumes "executed m r N rid w' ts d' w''" "svc_frame r w w'" "d' \<le> d"
    and "(unat (cp_get w') + d') mod N = (unat (cp_get w) + d) mod N" "cbs_token w' = last (cbs_token w # us)"
  shows "executed m r N rid w (us @ ts) d w''"
proof -
  obtain ts1 ts2 k where k: "ts = ts1 @ ts2" "chain m (r, 0) N rid (unat (cp_get w'')) k ts2" "k \<le> d'"
    "(unat (cp_get w'') + k) mod N = (unat (cp_get w') + d') mod N" "cbs_token w'' = last (cbs_token w' # ts1)"
    "cbs_error w'' = kNoError \<longrightarrow> k = 0"
    using assms(1) by (auto simp: executed_def)
  have "cbs_token w'' = last (cbs_token w # (us @ ts1))" using k(5) assms(5) by (cases ts1) auto
  with k assms show ?thesis
    unfolding executed_def
    by (intro conjI exI [of _ "us @ ts1"] exI [of _ ts2] exI [of _ k])
       (auto simp: executed_def intro: svc_frame_trans)
qed

lemma PutChanged_loop_executes:
  assumes "chain m (r, 0) N rid g d ts" "svc_ring r N rid w" "g = unat (cp_get w)" "unat (cp_put w) = (g + d) mod N"
    and "d < N" "shm w ! r = m ! r" "length (shm w) = length m" "cbs_error w = kNoError" "\<not> IsError e0"
  shows "\<exists>e w'. PutChanged_loop (common_env dec) e0 w = Some (e, w') \<and> executed m r N rid w ts d w' \<and>
    (IsError e \<longleftrightarrow> cbs_error w' \<noteq> kNoError)"
  using assms
proof (induction arbitrary: w e0 rule: chain.induct)
  case (chain_nil g)
  then have "IsEmpty w" by (auto simp: IsEmpty_def svc_ring_def word_unat_eq_iff)
  then show ?case
    using chain_nil by (subst PutChanged_loop.simps) (auto simp: executed_def)
next
  case (chain_cons g h d ts)
  let ?n = "unat (hdr_size h)" and ?p = "ptr_add (r, 0) (4 * g)"
  note g = chain_cons.prems(2) [symmetric]
  have ent: "load32 (shm w) (ptr_add ?p (4 * k)) = load32 m (ptr_add ?p (4 * k))" for k
    by (rule load32_region) (use chain_cons.prems in simp_all)
  have ne: "cp_get w \<noteq> cp_put w"
  proof
    assume "cp_get w = cp_put w"
    then have "(g + d) mod N = g" using chain_cons.prems by simp
    moreover have "g < N" using chain_cons.prems(1,2) by (auto simp: svc_ring_def)
    ultimately have "d = 0" using ring_ahead chain_cons.prems by blast
    with chain_cons.hyps show False by simp
  qed
  have hd: "load32 (shm w) (ptr_add (r, 0) (4 * unat (cp_get w))) = Some (header_entry h)"
    using ent [of 0] chain_cons.hyps(1) g by simp
  have safe: "entry_safe (shm w) rid h (ptr_add (r, 0) (4 * unat (cp_get w)))"
    using entry_cong(1) [of h "shm w" ?p m rid] ent chain_cons.hyps(5) g by simp
  have toks: "entry_tokens (shm w) h ?p = entry_tokens m h ?p" using entry_cong(2) [of h "shm w" ?p m] ent by simp
  obtain e v where v: "ProcessCommand DoCommonCommand w = Some (e, v)" "svc_frame r w v" "dec_wf v"
    "unat (cp_get v) = (g + ?n) mod N" "cbs_error v = kNoError" "e \<in> {kNoError, kInvalidArguments, kUnknownCommand}"
    "cbs_token v = last (cbs_token w # entry_tokens m h ?p)"
    using ring_step [OF chain_cons.prems(1) ne hd chain_cons.hyps(2) _ safe] chain_cons.hyps(4) chain_cons.prems(7) toks
    by (auto simp: g)
  have N: "unat (num_entries v) = N" "N \<le> 2 ^ 29" "0 < N"
    using v(2) chain_cons.prems(1) by (auto simp: svc_ring_def svc_frame_def)
  let ?v = "v\<lparr>get_offset := cp_get v\<rparr>"
  have set: "CBS_SetGetOffset (cp_get v) v = Some ?v" by (rule CBS_SetGetOffset_ok) (use N v(4) in simp_all)
  have fv: "svc_frame r w ?v" using v(2) svc_frame_trans svc_frame_fields(1) by blast
  have ring: "svc_ring r N rid ?v"
    by (rule svc_ring_frame [OF chain_cons.prems(1) fv]) (use v N in \<open>simp_all add: dec_wf_fields\<close>)
  have pre: "\<not> IsEmpty w" "IsPreempted w = (False, w)" "IsScheduled w" "unschedule_fences w = []"
    using ne chain_cons.prems(1) by (auto simp: IsEmpty_def IsPreempted_def IsScheduled_def svc_ring_def)
  have sched: "\<not> 0 < sint (unscheduled_count ?v)" using ring by (simp add: svc_ring_def)
  have loop: "PutChanged_loop (common_env dec) e0 w =
      (if IsError e then map_option (\<lambda>w. (e, w)) (report_error (common_env dec) e ?v)
       else PutChanged_loop (common_env dec) e ?v)"
    using pre v(1,6) set sched
    by (subst PutChanged_loop.simps) (auto simp: common_env_def)
  have dist: "((g + ?n) mod N + (d - ?n)) mod N = (g + d) mod N"
    using chain_cons.hyps(3) by (metis add.assoc le_add_diff_inverse mod_add_left_eq)
  have pos: "(unat (cp_get ?v) + (d - ?n)) mod N = (unat (cp_get w) + d) mod N" using v(4) dist g by simp
  show ?case
  proof (cases "IsError e")
    case True
    let ?f = "failed e (GetContextLostReason dec ?v) ?v"
    have "svc_ring r N rid ?f" using ring by (rule svc_ring_failed)
    then have "executed m r N rid ?v ts (d - ?n) ?f"
      using chain_cons.hyps(6) v(4) True unfolding executed_def
      by (intro conjI exI [of _ "[]"] exI [of _ ts] exI [of _ "d - ?n"]) (auto simp: IsError_def)
    then have "executed m r N rid w (entry_tokens m h ?p @ ts) d ?f"
      by (rule executed_step [OF _ fv]) (use pos v(7) in simp_all)
    moreover have "cbs_error ?v = kNoError" using v(5) by simp
    then have "PutChanged_loop (common_env dec) e0 w = Some (e, ?f)" using loop True by (simp add: report_error_eq)
    ultimately show ?thesis using True by (auto simp: IsError_def)
  next
    case False
    have "shm ?v ! r = m ! r" "length (shm ?v) = length m" "cp_put ?v = cp_put w"
      using fv chain_cons.prems by (simp_all add: svc_frame_def same_shape_def)
    moreover have "unat (cp_put ?v) = ((g + ?n) mod N + (d - ?n)) mod N"
      using chain_cons.prems(3) dist calculation by simp
    moreover have "d - ?n < N" using chain_cons.prems(4) by simp
    ultimately obtain e' w' where w': "PutChanged_loop (common_env dec) e ?v = Some (e', w')"
      "executed m r N rid ?v ts (d - ?n) w'" "IsError e' \<longleftrightarrow> cbs_error w' \<noteq> kNoError"
      using chain_cons.IH [OF ring, of e] v False by auto
    have "executed m r N rid w (entry_tokens m h ?p @ ts) d w'"
      by (rule executed_step [OF w'(2) fv]) (use pos v(7) in simp_all)
    with w' loop False show ?thesis by auto
  qed
qed

lemma PollUnscheduleFences_none: "unschedule_fences w = [] \<Longrightarrow> PollUnscheduleFences env w = Some (True, w)"
  by (simp add: PollUnscheduleFences_def)

lemma avoids_region_fields [simp]:
  "avoids_region r (w\<lparr>cp_put := a\<rparr>) i = avoids_region r w i" "avoids_region r (w\<lparr>put_offset := a\<rparr>) i = avoids_region r w i"
  "avoids_region r (w\<lparr>shm := m\<rparr>) i = avoids_region r w i"
  by (simp_all add: avoids_region_def GetTransferBuffer_def)

lemma dec_wf_put [simp]: "dec_wf (w\<lparr>cp_put := a\<rparr>) = dec_wf w" "dec_wf (w\<lparr>put_offset := a\<rparr>) = dec_wf w"
  by (simp_all add: dec_wf_def tbm_wf_def)

lemma svc_ring_put [simp]:
  "svc_ring r N rid (w\<lparr>cp_put := a\<rparr>) = svc_ring r N rid w" "svc_ring r N rid (w\<lparr>put_offset := a\<rparr>) = svc_ring r N rid w"
  by (simp_all add: svc_ring_def)

text \<open>What reading the state costs: its generation.\<close>

definition bumped :: "'a GpuScheduler_scheme \<Rightarrow> 'a GpuScheduler_scheme" where
  "bumped w = w\<lparr>cbs_generation := cbs_generation w + 1\<rparr>"

lemma bumped_simps [simp]:
  "svc_frame r w (bumped w)" "cp_get (bumped w) = cp_get w" "get_offset (bumped w) = get_offset w"
  "cbs_error (bumped w) = cbs_error w" "cbs_token (bumped w) = cbs_token w" "shm (bumped w) = shm w"
  "cp_put (bumped w) = cp_put w" "dec_wf w \<Longrightarrow> dec_wf (bumped w)" "num_entries (bumped w) = num_entries w"
  by (simp_all add: bumped_def dec_wf_fields)

lemma svc_ring_bumped: "svc_ring r N rid w \<Longrightarrow> svc_ring r N rid (bumped w)"
  by (rule svc_ring_frame) (auto simp: svc_ring_def)

lemma GetState_eq:
  "GetState w = (\<lparr>cs_num_entries = num_entries w, cs_get_offset = get_offset w, cs_put_offset = put_offset w,
     cs_token = cbs_token w, cs_error = cbs_error w, cs_context_lost_reason = cbs_context_lost_reason w,
     cs_generation = cbs_generation w + 1\<rparr>, bumped w)"
  by (simp add: GetState_def bumped_def Let_def)

lemma executed_extend:
  assumes "executed m r N rid w ts d w'" "svc_frame r w' w''" "dec_wf w''" "cp_get w'' = cp_get w'"
    "get_offset w'' = get_offset w'" "cbs_token w'' = cbs_token w'" "cbs_error w'' = kNoError \<longrightarrow> cbs_error w' = kNoError"
  shows "executed m r N rid w ts d w''"
proof -
  obtain ts1 ts2 k where k: "ts = ts1 @ ts2" "chain m (r, 0) N rid (unat (cp_get w')) k ts2" "k \<le> d"
    "(unat (cp_get w') + k) mod N = (unat (cp_get w) + d) mod N" "cbs_token w' = last (cbs_token w # ts1)"
    "cbs_error w' = kNoError \<longrightarrow> k = 0" and w': "svc_ring r N rid w'" "svc_frame r w w'"
    using assms(1) unfolding executed_def by blast
  have "svc_ring r N rid w''"
    by (rule svc_ring_frame [OF w'(1) assms(2,3)]) (use assms(4,5) w'(1) in \<open>simp_all add: svc_ring_def\<close>)
  with k w' assms(2-7) show ?thesis
    unfolding executed_def
    by (intro conjI exI [of _ ts1] exI [of _ ts2] exI [of _ k]) (auto intro: svc_frame_trans)
qed

lemma PutChanged_executes:
  assumes c: "chain (shm w) (r, 0) N rid (unat (cp_get w)) d ts" and w: "svc_ring r N rid w"
    and p: "unat (put_offset w) = (unat (cp_get w) + d) mod N" "d < N" and e: "cbs_error w = kNoError"
  shows "\<exists>w'. PutChanged (common_env dec) w = Some w' \<and>
    executed (shm w) r N rid (w\<lparr>cp_put := put_offset w\<rparr>) ts d w'"
proof -
  let ?v = "set_put (put_offset w) (bumped w)" and ?u = "w\<lparr>cp_put := put_offset w\<rparr>"
  have v: "shm ?v = shm w" "cp_get ?v = cp_get w" "cbs_error ?v = kNoError" "cp_put ?v = put_offset w"
    using e by (simp_all add: set_put_def bumped_def)
  have ring: "svc_ring r N rid ?v"
    using svc_ring_bumped [OF w] by (simp add: set_put_def)
  obtain e' w' where w': "PutChanged_loop (common_env dec) kNoError ?v = Some (e', w')"
    "executed (shm w) r N rid ?v ts d w'" "IsError e' \<longleftrightarrow> cbs_error w' \<noteq> kNoError"
    using PutChanged_loop_executes [OF c ring, of kNoError dec] v p by (auto simp: IsError_def)
  have ex: "executed (shm w) r N rid ?u ts d w'"
    using executed_step [OF w'(2), of ?u d "[]"]
    by (simp add: set_put_def bumped_def svc_frame_def same_shape_def)
  have "PutChanged (common_env dec) w =
      (if \<not> IsError e' \<and> WasContextLost dec w' then report_error (common_env dec) kLostContext w' else Some w')"
    using ring e w'(1) w
    by (simp add: PutChanged_def GetState_eq Let_def PollUnscheduleFences_none svc_ring_def IsScheduled_def set_put_def
        bumped_def common_env_def)
  moreover have "executed (shm w) r N rid ?u ts d (failed kLostContext re w')" if "\<not> IsError e'" for re
    by (rule executed_extend [OF ex]) (use ex that w'(3) in \<open>auto simp: executed_def svc_ring_def\<close>)
  ultimately show ?thesis
    using ex w'(3) by (auto simp: report_error_eq)
qed

lemma PutChanged_error:
  assumes "svc_ring r N rid w" "cbs_error w \<noteq> kNoError"
  shows "PutChanged (common_env dec) w = Some (set_put (put_offset w) (bumped w))"
  using assms by (simp add: PutChanged_def GetState_eq Let_def svc_ring_def bumped_def)

lemma PumpCommands_eq: "PumpCommands dec w = map_option bumped (PutChanged (common_env dec) w)"
  by (cases "PutChanged (common_env dec) w") (simp_all add: PumpCommands_def GetState_eq)

lemma PumpCommands_executes:
  assumes "chain (shm w) (r, 0) N rid (unat (cp_get w)) d ts" "svc_ring r N rid w"
    "unat (put_offset w) = (unat (cp_get w) + d) mod N" "d < N" "cbs_error w = kNoError"
  shows "\<exists>w'. PumpCommands dec w = Some w' \<and> executed (shm w) r N rid (w\<lparr>cp_put := put_offset w\<rparr>) ts d w'"
proof -
  obtain v where v: "PutChanged (common_env dec) w = Some v" "executed (shm w) r N rid (w\<lparr>cp_put := put_offset w\<rparr>) ts d v"
    using PutChanged_executes [OF assms] by blast
  have "executed (shm w) r N rid (w\<lparr>cp_put := put_offset w\<rparr>) ts d (bumped v)"
    by (rule executed_extend [OF v(2)]) (use v(2) in \<open>simp_all add: executed_def svc_ring_def\<close>)
  with v(1) show ?thesis by (simp add: PumpCommands_eq)
qed

subsection \<open>The client's invariant\<close>

text \<open>
  The helper has the service's ring, of at least two entries; \<open>put_\<close> is in it. As long as the service has no error, the
  entries from the service's \<open>get\<close> to the client's \<open>put_\<close> are a \<open>chain\<close>, whose tokens lie after the token
  read last, and the last of them (the one read last if there is none) is \<open>T\<close>.
\<close>

definition tokens_up_to :: "u32 \<Rightarrow> u32 list \<Rightarrow> u32 \<Rightarrow> bool" where
  "tokens_up_to read ts T \<longleftrightarrow>
     0 \<le> sint read \<and> last (read # ts) = T \<and> sorted_wrt (<) (map sint (read # ts))"

definition ring_dist :: "nat \<Rightarrow> nat \<Rightarrow> nat \<Rightarrow> nat" where
  "ring_dist N g p = (p + N - g) mod N"

definition has_ring :: "nat \<Rightarrow> nat \<Rightarrow> 'a GpuScheduler_scheme CommandBufferHelper \<Rightarrow> bool" where
  "has_ring r N h \<longleftrightarrow>
     svc_ring r N (h_ring_buffer_id h) (command_buffer h) \<and> HaveRingBuffer h \<and> entries h = Some (r, 0) \<and>
     unat (total_entry_count h) = N \<and> unat (h_put h) < N"

definition unread :: "nat \<Rightarrow> nat \<Rightarrow> 'a GpuScheduler_scheme CommandBufferHelper \<Rightarrow> u32 list \<Rightarrow> bool" where
  "unread r N h ts \<longleftrightarrow>
     chain (shm (command_buffer h)) (r, 0) N (h_ring_buffer_id h) (unat (cp_get (command_buffer h)))
       (ring_dist N (unat (cp_get (command_buffer h))) (unat (h_put h))) ts"

definition ring_inv :: "u32 \<Rightarrow> 'a GpuScheduler_scheme CommandBufferHelper \<Rightarrow> bool" where
  "ring_inv T h \<longleftrightarrow>
     (\<exists>r N. has_ring r N h \<and>
        (if cbs_error (command_buffer h) = kNoError
         then \<exists>ts. unread r N h ts \<and> tokens_up_to (cbs_token (command_buffer h)) ts T
         else cp_get (command_buffer h) = h_put h \<longrightarrow> cbs_token (command_buffer h) = T))"

lemma ring_invI:
  assumes "has_ring r N h"
    and "cbs_error (command_buffer h) = kNoError \<Longrightarrow>
      \<exists>ts. unread r N h ts \<and> tokens_up_to (cbs_token (command_buffer h)) ts T"
    and "cbs_error (command_buffer h) \<noteq> kNoError \<Longrightarrow> cp_get (command_buffer h) = h_put h \<Longrightarrow>
      cbs_token (command_buffer h) = T"
  shows "ring_inv T h"
  using assms unfolding ring_inv_def by auto

lemma ring_dist_props:
  assumes "g < N" "p < N"
  shows "ring_dist N g p < N" "(g + ring_dist N g p) mod N = p" "ring_dist N g p = 0 \<longleftrightarrow> g = p"
    "ring_dist N g p = (if g \<le> p then p - g else p + N - g)"
proof -
  show d: "ring_dist N g p = (if g \<le> p then p - g else p + N - g)"
    using assms by (auto simp: ring_dist_def le_mod_geq)
  show "ring_dist N g p < N" "(g + ring_dist N g p) mod N = p" "ring_dist N g p = 0 \<longleftrightarrow> g = p"
    unfolding d using assms by auto
qed

lemma ring_dist_unique:
  assumes "g < N" "p < N" "d < N" "(g + d) mod N = p"
  shows "d = ring_dist N g p"
proof (cases "g + d < N")
  case True
  with assms show ?thesis by (simp add: ring_dist_props(4))
next
  case False
  then have "p = g + d - N" using assms by (simp add: le_mod_geq)
  with False assms show ?thesis by (simp add: ring_dist_props(4))
qed

lemma tokens_up_to_suffix:
  assumes "tokens_up_to read (ts1 @ ts2) T"
  shows "tokens_up_to (last (read # ts1)) ts2 T"
proof (cases ts1 rule: rev_cases)
  case (snoc us u)
  have "0 \<le> sint u" using assms by (auto simp: tokens_up_to_def snoc sorted_wrt_append)
  with assms show ?thesis by (cases ts2) (auto simp: tokens_up_to_def snoc sorted_wrt_append)
qed (use assms in simp)

lemma tokens_up_to_bounds:
  assumes "tokens_up_to read ts T"
  shows "0 \<le> sint read" "sint read \<le> sint T" "t \<in> set ts \<Longrightarrow> sint read < sint t \<and> sint t \<le> sint T" "ts = [] \<Longrightarrow> read = T"
  using assms by (cases ts rule: rev_cases; force simp: tokens_up_to_def sorted_wrt_append)+

text \<open>What no operation of the client but writing a command changes.\<close>

definition same_client :: "'a CommandBufferHelper \<Rightarrow> 'a CommandBufferHelper \<Rightarrow> bool" where
  "same_client h h' \<longleftrightarrow>
     h_put h' = h_put h \<and> h_token h' = h_token h \<and> h_ring_buffer_id h' = h_ring_buffer_id h \<and>
     h_ring_buffer h' = h_ring_buffer h \<and> h_ring_buffer_size h' = h_ring_buffer_size h \<and>
     entries h' = entries h \<and> total_entry_count h' = total_entry_count h \<and> usable h' = usable h \<and>
     commands_issued h' = commands_issued h \<and> flush_automatically h' = flush_automatically h"

lemma same_client_refl [simp]: "same_client h h" by (simp add: same_client_def)

lemma same_client_trans [trans]: "same_client h h' \<Longrightarrow> same_client h' h'' \<Longrightarrow> same_client h h''"
  by (simp add: same_client_def)

text \<open>
  \<open>drained T h h'\<close>: the service worked off a part of the ring; the commands that were unread and still are keep
  their tokens, and an error stays.
\<close>

definition unread_tokens :: "'a GpuScheduler_scheme CommandBufferHelper \<Rightarrow> u32 list \<Rightarrow> bool" where
  "unread_tokens h ts \<longleftrightarrow> (\<exists>r N. has_ring r N h \<and> unread r N h ts)"

definition drained :: "u32 \<Rightarrow> 'a GpuScheduler_scheme CommandBufferHelper \<Rightarrow> 'a GpuScheduler_scheme CommandBufferHelper \<Rightarrow> bool" where
  "drained T h h' \<longleftrightarrow>
     ring_inv T h' \<and> same_client h h' \<and>
     (cbs_error (command_buffer h) \<noteq> kNoError \<longrightarrow> cbs_error (command_buffer h') \<noteq> kNoError) \<and>
     (\<forall>r N. has_ring r N h \<longrightarrow> svc_frame r ((command_buffer h)\<lparr>cp_put := 0, put_offset := 0\<rparr>)
        ((command_buffer h')\<lparr>cp_put := 0, put_offset := 0\<rparr>)) \<and>
     (\<forall>r N. has_ring r N h \<longrightarrow>
        ring_dist N (unat (cp_get (command_buffer h'))) (unat (h_put h)) \<le>
        ring_dist N (unat (cp_get (command_buffer h))) (unat (h_put h))) \<and>
     (cbs_error (command_buffer h') = kNoError \<longrightarrow>
        (\<forall>ts'. unread_tokens h' ts' \<longrightarrow> (\<exists>us. unread_tokens h (us @ ts'))))"

lemma drained_inv: "drained T h h' \<Longrightarrow> ring_inv T h'" by (simp add: drained_def)

lemma has_ring_unique:
  "has_ring r N h \<Longrightarrow> has_ring r' N' h \<Longrightarrow> r' = r \<and> N' = N"
  by (auto simp: has_ring_def)

lemma unread_tokens_iff: "has_ring r N h \<Longrightarrow> unread_tokens h ts \<longleftrightarrow> unread r N h ts"
  using has_ring_unique unfolding unread_tokens_def by blast

lemma drained_fields:
  assumes "drained T h h'"
  shows "h_put h' = h_put h" "usable h' = usable h" "total_entry_count h' = total_entry_count h" "h_token h' = h_token h"
    "HaveRingBuffer h' = HaveRingBuffer h"
  using assms by (auto simp: drained_def same_client_def HaveRingBuffer_def)

text \<open>Draining never takes space away.\<close>

lemma drained_dist:
  assumes "drained T h h'" "has_ring r N h"
  shows "ring_dist N (unat (cp_get (command_buffer h'))) (unat (h_put h')) \<le>
    ring_dist N (unat (cp_get (command_buffer h))) (unat (h_put h))"
  using assms by (auto simp: drained_def same_client_def)

lemma drained_refl: "ring_inv T h \<Longrightarrow> drained T h h"
  by (auto simp: drained_def intro: exI [of _ "[]"])

lemma svc_frame_has_ring:
  assumes "has_ring r N h" "same_client h h'" "svc_ring r N (h_ring_buffer_id h) (command_buffer h')"
  shows "has_ring r N h'"
  using assms by (simp add: has_ring_def same_client_def HaveRingBuffer_def)

lemma drained_trans:
  assumes "ring_inv T h" "drained T h h'" "drained T h' h''"
  shows "drained T h h''"
proof -
  obtain r N where r: "has_ring r N h" using assms(1) by (auto simp: ring_inv_def)
  obtain r' N' where r': "has_ring r' N' h'" using assms(2) by (auto simp: drained_def ring_inv_def)
  have "r' = r" "N' = N" using r r' assms(2) by (auto simp: has_ring_def drained_def same_client_def)
  then have r': "has_ring r N h'" using r' by simp
  show ?thesis
    unfolding drained_def
  proof (intro conjI impI allI)
    show "ring_inv T h''" "same_client h h''" using assms same_client_trans by (auto simp: drained_def)
    show "svc_frame q ((command_buffer h)\<lparr>cp_put := 0, put_offset := 0\<rparr>)
        ((command_buffer h'')\<lparr>cp_put := 0, put_offset := 0\<rparr>)" if "has_ring q M h" for q M
      using has_ring_unique [OF r that] r r' assms svc_frame_trans unfolding drained_def by blast
    show "ring_dist M (unat (cp_get (command_buffer h''))) (unat (h_put h)) \<le>
        ring_dist M (unat (cp_get (command_buffer h))) (unat (h_put h))" if "has_ring q M h" for q M
      using has_ring_unique [OF r that] drained_dist [OF assms(2) r] drained_dist [OF assms(3) r']
        drained_fields(1) [OF assms(2)] drained_fields(1) [OF assms(3)] by simp
    show "cbs_error (command_buffer h'') \<noteq> kNoError" if "cbs_error (command_buffer h) \<noteq> kNoError"
      using that assms by (auto simp: drained_def)
    show "\<exists>us. unread_tokens h (us @ ts')" if "cbs_error (command_buffer h'') = kNoError" "unread_tokens h'' ts'" for ts'
      using that assms unfolding drained_def by (metis append.assoc)
  qed
qed

lemma sint_put_ok:
  assumes "has_ring r N h"
  shows "\<not> sint (h_put h) < 0" "\<not> sint (num_entries (command_buffer h)) < sint (h_put h)"
proof -
  have "unat (h_put h) < unat (num_entries (command_buffer h))" "unat (num_entries (command_buffer h)) \<le> 2 ^ 29"
    using assms by (auto simp: has_ring_def svc_ring_def)
  then have "sint (h_put h) = int (unat (h_put h))"
    "sint (num_entries (command_buffer h)) = int (unat (num_entries (command_buffer h)))"
    "unat (h_put h) < unat (num_entries (command_buffer h))"
    by (simp_all add: sint_nonneg_u32)
  then show "\<not> sint (h_put h) < 0" "\<not> sint (num_entries (command_buffer h)) < sint (h_put h)" by linarith+
qed

text \<open>The service's part of a flush, on the state \<open>w\<close> it finds.\<close>

lemma flush_executes:
  assumes ring: "has_ring r N h" and inv: "ring_inv T h"
    and w: "w = command_buffer h \<or> w = bumped (command_buffer h)"
  shows "\<exists>w'. PumpCommands dec (w\<lparr>put_offset := h_put h\<rparr>) = Some w' \<and>
    (\<forall>f. drained T h (h\<lparr>command_buffer := w', last_flush_time := f, last_put_sent := h_put h\<rparr>) \<and>
         drained T h (h\<lparr>command_buffer := bumped w', last_flush_time := f, last_put_sent := h_put h\<rparr>)) \<and>
    (cbs_error w' = kNoError \<longrightarrow> cp_get w' = h_put h)"
proof -
  let ?w = "command_buffer h" and ?rid = "h_ring_buffer_id h" and ?g = "unat (cp_get (command_buffer h))"
  let ?v = "w\<lparr>put_offset := h_put h\<rparr>"
  have v: "svc_ring r N ?rid ?v" "shm ?v = shm ?w" "cp_get ?v = cp_get ?w" "cbs_error ?v = cbs_error ?w"
      "cbs_token ?v = cbs_token ?w" "put_offset ?v = h_put h"
    using ring w svc_ring_bumped by (auto simp: has_ring_def)
  have fr: "svc_frame r (?w\<lparr>cp_put := 0, put_offset := 0\<rparr>) (x\<lparr>cp_put := 0, put_offset := 0\<rparr>)"
    if "svc_frame r (?v\<lparr>cp_put := h_put h\<rparr>) x" for x
    using that w by (auto simp: svc_frame_def same_shape_def bumped_def)
  have g: "?g < N" "unat (h_put h) < N" using ring by (auto simp: has_ring_def svc_ring_def)
  note d = ring_dist_props(1,2) [OF g]
  have ring': "has_ring r N (h\<lparr>command_buffer := x, last_flush_time := f, last_put_sent := h_put h\<rparr>)"
    if "svc_ring r N ?rid x" for x f
    by (rule svc_frame_has_ring [OF ring]) (simp_all add: same_client_def that)
  show ?thesis
  proof (cases "cbs_error ?w = kNoError")
    case True
    then obtain ts where ts: "unread r N h ts" "tokens_up_to (cbs_token ?w) ts T"
      using inv ring has_ring_unique unfolding ring_inv_def by metis
    have c: "chain (shm ?v) (r, 0) N ?rid (unat (cp_get ?v)) (ring_dist N ?g (unat (h_put h))) ts"
      using ts(1) v by (simp add: unread_def)
    obtain w' where w': "PumpCommands dec ?v = Some w'"
      "executed (shm ?v) r N ?rid (?v\<lparr>cp_put := h_put h\<rparr>) ts (ring_dist N ?g (unat (h_put h))) w'"
      using PumpCommands_executes [OF c v(1)] v d True by auto
    let ?u = "?v\<lparr>cp_put := h_put h\<rparr>"
    have u: "cp_get ?u = cp_get ?w" "cbs_token ?u = cbs_token ?w" using v by simp_all
    obtain ts1 ts2 k where k: "ts = ts1 @ ts2" "chain (shm ?w) (r, 0) N ?rid (unat (cp_get w')) k ts2"
      "k \<le> ring_dist N ?g (unat (h_put h))" "(unat (cp_get w') + k) mod N = unat (h_put h)"
      "cbs_token w' = last (cbs_token ?w # ts1)" "cbs_error w' = kNoError \<longrightarrow> k = 0"
      and sw: "svc_ring r N ?rid w'" "svc_frame r ?u w'"
      using w'(2) unfolding executed_def u v(2) d(2) by blast
    have g': "unat (cp_get w') < N" using sw(1) by (simp add: svc_ring_def)
    have kd: "k = ring_dist N (unat (cp_get w')) (unat (h_put h))"
      by (rule ring_dist_unique) (use g g' k(3,4) d(1) in simp_all)
    have mem: "length (shm w') = length (shm ?w)" "shm w' ! r = shm ?w ! r"
      using sw(2) v(2) by (simp_all add: svc_frame_def same_shape_def)
    have ch: "chain (shm w') (r, 0) N ?rid (unat (cp_get w')) k ts2"
      by (rule chain_region [OF k(2) g']) (simp_all add: mem)
    have tk: "tokens_up_to (cbs_token w') ts2 T" using tokens_up_to_suffix [of "cbs_token ?w" ts1 ts2 T] ts(2) k(1,5) by simp
    have k0: "k = 0 \<longleftrightarrow> cp_get w' = h_put h" using ring_dist_props(3) [OF g' g(2)] kd by (simp add: word_unat_eq_iff)
    have ex: "drained T h (h\<lparr>command_buffer := x, last_flush_time := f, last_put_sent := h_put h\<rparr>)"
      if x: "svc_ring r N ?rid x" "shm x = shm w'" "cp_get x = cp_get w'" "cbs_error x = cbs_error w'" "cbs_token x = cbs_token w'"
        "svc_frame r w' x" for x f
    proof -
      let ?h = "h\<lparr>command_buffer := x, last_flush_time := f, last_put_sent := h_put h\<rparr>"
      have un: "unread r N ?h ts2" using ch kd x by (simp add: unread_def)
      have "ring_inv T ?h"
      proof (rule ring_invI [OF ring' [OF x(1)]])
        have "ts2 = []" if "cp_get w' = h_put h" using ch that k0 by simp
        then show "cbs_token (command_buffer ?h) = T" if "cp_get (command_buffer ?h) = h_put ?h"
          using tokens_up_to_bounds(4) [OF tk] x that by simp
      qed (use un tk x in auto)
      moreover have "svc_frame q (?w\<lparr>cp_put := 0, put_offset := 0\<rparr>) (x\<lparr>cp_put := 0, put_offset := 0\<rparr>)"
        if "has_ring q M h" for q M
        using has_ring_unique [OF ring that] fr [OF svc_frame_trans [OF sw(2) x(6)]] by simp
      moreover have "us' = ts2" if "unread_tokens ?h us'" for us'
        using that un unread_tokens_iff [OF ring' [OF x(1)]] chain_unique unfolding unread_def by blast
      moreover have "ring_dist M (unat (cp_get x)) (unat (h_put h)) \<le> ring_dist M ?g (unat (h_put h))"
        if "has_ring q M h" for q M
        using has_ring_unique [OF ring that] k(3) kd x(3) by simp
      ultimately show ?thesis
        using k(1) ts(1) True unread_tokens_iff [OF ring] x(4)
        by (auto simp: drained_def same_client_def)
    qed
    have "drained T h (h\<lparr>command_buffer := w', last_flush_time := f, last_put_sent := h_put h\<rparr>)" for f
      by (rule ex) (simp_all add: sw)
    moreover have "drained T h (h\<lparr>command_buffer := bumped w', last_flush_time := f, last_put_sent := h_put h\<rparr>)" for f
      by (rule ex) (simp_all add: svc_ring_bumped sw)
    ultimately show ?thesis using w'(1) k0 k(6) by blast
  next
    case False
    let ?x = "bumped (set_put (h_put h) (bumped ?v))"
    have pc: "PumpCommands dec ?v = Some ?x" using PutChanged_error [OF v(1)] False v by (simp add: PumpCommands_eq)
    have x: "svc_ring r N ?rid ?x" using svc_ring_bumped [OF v(1)] by (intro svc_ring_bumped) (simp add: set_put_def)
    have ex: "drained T h (h\<lparr>command_buffer := y, last_flush_time := f, last_put_sent := h_put h\<rparr>)"
      if y: "y = ?x \<or> y = bumped ?x" for y f
    proof -
      have sy: "svc_ring r N ?rid y" "cp_get y = cp_get ?w" "cbs_error y = cbs_error ?w" "cbs_token y = cbs_token ?w"
        using y x svc_ring_bumped [OF x] v by (auto simp: set_put_def bumped_def)
      have "svc_frame r (?v\<lparr>cp_put := h_put h\<rparr>) y" using y by (auto simp: svc_frame_def same_shape_def set_put_def bumped_def)
      then have "svc_frame q (?w\<lparr>cp_put := 0, put_offset := 0\<rparr>) (y\<lparr>cp_put := 0, put_offset := 0\<rparr>)"
        if "has_ring q M h" for q M
        using has_ring_unique [OF ring that] fr by simp
      moreover have "cp_get ?w = h_put h \<longrightarrow> cbs_token ?w = T" using inv False unfolding ring_inv_def by auto
      ultimately show ?thesis
        using ring' [OF sy(1)] sy False
        by (auto simp: drained_def same_client_def intro!: ring_invI)
    qed
    have "cbs_error ?x \<noteq> kNoError" using False v by (simp add: set_put_def bumped_def)
    with pc ex show ?thesis by blast
  qed
qed

subsection \<open>The helper on the in-process command buffer\<close>

lemma in_process_simps [simp]:
  "cb_GetState (in_process_ops d os now) = GetState" "cb_GetLastState (in_process_ops d os now) = GetLastState"
  "cb_GetLastToken (in_process_ops d os now) = GetLastToken" "cb_GetLastError (in_process_ops d os now) = GetLastError"
  "cb_Flush (in_process_ops d os now) = CBS_Flush (Some (PumpCommands d))"
  "cb_FlushSync (in_process_ops d os now) = CBS_FlushSync (Some (PumpCommands d))"
  "cb_SetGetBuffer (in_process_ops d os now) = CBS_SetGetBuffer (Some GetBufferChanged)"
  "cb_CreateTransferBuffer (in_process_ops d os now) = (\<lambda>sz w. CreateTransferBuffer (os w) sz w)"
  "cb_DestroyTransferBuffer (in_process_ops d os now) = CBS_DestroyTransferBuffer"
  "cb_clock (in_process_ops d os now) = now"
  by (simp_all add: in_process_ops_def)

definition reread :: "'a GpuScheduler_scheme CommandBufferHelper \<Rightarrow> 'a GpuScheduler_scheme CommandBufferHelper" where
  "reread h = h\<lparr>command_buffer := bumped (command_buffer h)\<rparr>"

lemma reread_simps [simp]:
  "same_client h (reread h)" "command_buffer (reread h) = bumped (command_buffer h)" "h_put (reread h) = h_put h"
  "h_token (reread h) = h_token h" "usable (reread h) = usable h" "total_entry_count (reread h) = total_entry_count h"
  "entries (reread h) = entries h" "h_ring_buffer_id (reread h) = h_ring_buffer_id h"
  "last_put_sent (reread h) = last_put_sent h" "HaveRingBuffer (reread h) = HaveRingBuffer h"
  by (simp_all add: reread_def same_client_def HaveRingBuffer_def)

lemma h_get_offset_eq [simp]:
  "h_get_offset (in_process_ops d os now) h = (get_offset (command_buffer h), reread h)"
  by (simp add: h_get_offset_def GetLastState_def GetState_eq reread_def)

lemma last_token_read_eq [simp]:
  "last_token_read (in_process_ops d os now) h = (cbs_token (command_buffer h), reread h)"
  by (simp add: last_token_read_def GetLastToken_def GetState_eq reread_def)

lemma has_ring_reread: "has_ring r N h \<Longrightarrow> has_ring r N (reread h)"
  by (rule svc_frame_has_ring) (auto simp: has_ring_def intro: svc_ring_bumped)

lemma unread_reread: "unread r N (reread h) ts = unread r N h ts"
  by (simp add: unread_def)

lemma drained_reread:
  assumes "ring_inv T h"
  shows "drained T h (reread h)"
proof -
  obtain r N where r: "has_ring r N h" using assms by (auto simp: ring_inv_def)
  note r' = has_ring_reread [OF r]
  have "ring_inv T (reread h)"
  proof (rule ring_invI [OF r'])
    show "\<exists>ts. unread r N (reread h) ts \<and> tokens_up_to (cbs_token (command_buffer (reread h))) ts T"
      if "cbs_error (command_buffer (reread h)) = kNoError"
      using assms that has_ring_unique [OF r] by (auto simp: ring_inv_def unread_reread)
    show "cbs_token (command_buffer (reread h)) = T"
      if "cbs_error (command_buffer (reread h)) \<noteq> kNoError" "cp_get (command_buffer (reread h)) = h_put (reread h)"
      using assms that by (auto simp: ring_inv_def)
  qed
  moreover have "unread_tokens (reread h) ts \<longleftrightarrow> unread_tokens h ts" for ts
    using unread_tokens_iff [OF r] unread_tokens_iff [OF r'] by (simp add: unread_reread)
  moreover have "svc_frame q ((command_buffer h)\<lparr>cp_put := 0, put_offset := 0\<rparr>)
      ((bumped (command_buffer h))\<lparr>cp_put := 0, put_offset := 0\<rparr>)" for q
    by (simp add: svc_frame_def same_shape_def bumped_def)
  ultimately show ?thesis by (auto simp: drained_def intro: exI [of _ "[]"])
qed

lemma CBH_FlushSync_ring:
  assumes "ring_inv T h" "usable h"
  shows "\<exists>ok h'. CBH_FlushSync (in_process_ops d os now) h = Some (ok, h') \<and> drained T h h' \<and>
    last_put_sent h' = h_put h \<and>
    (ok \<longleftrightarrow> cbs_error (command_buffer h') = kNoError) \<and> (ok \<longrightarrow> cp_get (command_buffer h') = h_put h')"
proof -
  obtain r N where r: "has_ring r N h" using assms(1) by (auto simp: ring_inv_def)
  let ?w = "bumped (command_buffer h)" and ?f = "now (command_buffer h)"
  obtain w' where w': "PumpCommands d (?w\<lparr>put_offset := h_put h\<rparr>) = Some w'"
    "drained T h (h\<lparr>command_buffer := bumped w', last_flush_time := ?f, last_put_sent := h_put h\<rparr>)"
    "cbs_error w' = kNoError \<longrightarrow> cp_get w' = h_put h"
    using flush_executes [OF r assms(1), of ?w d] by blast
  have "CBH_FlushSync (in_process_ops d os now) h = Some (cbs_error w' = kNoError,
      h\<lparr>command_buffer := bumped w', last_flush_time := ?f, last_put_sent := h_put h\<rparr>)"
    using assms(2) w'(1) sint_put_ok [OF r]
    by (simp add: CBH_FlushSync_def Let_def reread_def CBS_FlushSync_def GetState_eq)
  with w' show ?thesis by auto
qed

lemma CBH_Flush_ring:
  assumes "ring_inv T h"
  shows "\<exists>h'. CBH_Flush (in_process_ops d os now) h = Some h' \<and> drained T h h'"
proof (cases "usable h \<and> last_put_sent h \<noteq> h_put h")
  case True
  obtain r N where r: "has_ring r N h" using assms(1) by (auto simp: ring_inv_def)
  let ?f = "now (command_buffer h)"
  obtain w' where w': "PumpCommands d ((command_buffer h)\<lparr>put_offset := h_put h\<rparr>) = Some w'"
    "drained T h (h\<lparr>command_buffer := w', last_flush_time := ?f, last_put_sent := h_put h\<rparr>)"
    using flush_executes [OF r assms(1), of "command_buffer h" d] by blast
  have "CBH_Flush (in_process_ops d os now) h =
      Some (h\<lparr>command_buffer := w', last_flush_time := ?f, last_put_sent := h_put h\<rparr>)"
    using True w'(1) sint_put_ok [OF r] by (simp add: CBH_Flush_def Let_def CBS_Flush_def)
  with w' show ?thesis by auto
next
  case False
  with drained_refl [OF assms] show ?thesis by (auto simp: CBH_Flush_def)
qed

subsection \<open>Waiting for a token\<close>

text \<open>
  A token has been passed if the service will not execute a command that the client wrote before it: there is
  no working ring, or the token is not among the unread ones.
\<close>

definition passed :: "'a GpuScheduler_scheme CommandBufferHelper \<Rightarrow> u32 \<Rightarrow> bool" where
  "passed h t \<longleftrightarrow>
     \<not> usable h \<or> \<not> HaveRingBuffer h \<or> cbs_error (command_buffer h) \<noteq> kNoError \<or>
     (\<forall>ts. unread_tokens h ts \<longrightarrow> t \<notin> set ts)"

definition h_inv :: "'a GpuScheduler_scheme CommandBufferHelper \<Rightarrow> bool" where
  "h_inv h \<longleftrightarrow> usable h \<and> HaveRingBuffer h \<longrightarrow> ring_inv (h_token h) h"

lemma drained_usable: "drained T h h' \<Longrightarrow> usable h' = usable h \<and> HaveRingBuffer h' = HaveRingBuffer h \<and> h_token h' = h_token h"
  by (auto simp: drained_def same_client_def HaveRingBuffer_def)

lemma drained_passed:
  assumes "drained T h h'" "passed h t"
  shows "passed h' t"
  using assms(2) drained_usable [OF assms(1)] assms(1)
  unfolding passed_def drained_def by (metis UnCI set_append)

lemma read_passed:
  assumes "ring_inv T h" "sint t \<le> sint (cbs_token (command_buffer h)) \<or> sint T < sint t"
  shows "passed h t"
proof (cases "cbs_error (command_buffer h) = kNoError")
  case True
  then obtain r N ts where r: "has_ring r N h" and ts: "unread r N h ts" "tokens_up_to (cbs_token (command_buffer h)) ts T"
    using assms(1) unfolding ring_inv_def by auto
  have "us = ts" if "unread_tokens h us" for us
    using that unread_tokens_iff [OF r] ts(1) chain_unique unfolding unread_def by blast
  moreover have "t \<notin> set ts" using tokens_up_to_bounds(3) [OF ts(2), of t] assms(2) by auto
  ultimately show ?thesis by (auto simp: passed_def)
qed (simp add: passed_def)

lemma WaitForToken_loop_ring:
  assumes inv: "ring_inv T h" and u: "usable h" and t: "sint t \<le> sint T"
  shows "\<exists>h'. WaitForToken_loop (in_process_ops d os now) t h = Some h' \<and> drained T h h' \<and> passed h' t"
proof (cases "sint (cbs_token (command_buffer h)) < sint t")
  case False
  then have "WaitForToken_loop (in_process_ops d os now) t h = Some (reread h)"
    by (subst WaitForToken_loop.simps) simp
  moreover have "passed h t" using read_passed [OF inv] False by auto
  ultimately show ?thesis using drained_reread [OF inv] drained_passed by blast
next
  case True
  obtain r N where r: "has_ring r N h" using inv by (auto simp: ring_inv_def)
  let ?h = "reread (reread h)"
  have d: "drained T h ?h" using drained_trans [OF inv drained_reread [OF inv] drained_reread] drained_reread [OF inv]
    by (auto simp: drained_def)
  have get: "get_offset (command_buffer h) = cp_get (command_buffer h)" using r by (simp add: has_ring_def svc_ring_def)
  have ne: "cp_get (command_buffer h) \<noteq> h_put h"
  proof
    assume eq: "cp_get (command_buffer h) = h_put h"
    have "cbs_token (command_buffer h) = T"
    proof (cases "cbs_error (command_buffer h) = kNoError")
      case True
      then obtain ts where ts: "unread r N h ts" "tokens_up_to (cbs_token (command_buffer h)) ts T"
        using inv has_ring_unique [OF r] unfolding ring_inv_def by auto
      have "ring_dist N (unat (cp_get (command_buffer h))) (unat (h_put h)) = 0"
        using r eq by (subst ring_dist_props(3)) (auto simp: has_ring_def svc_ring_def)
      with ts tokens_up_to_bounds(4) [OF ts(2)] show ?thesis by (simp add: unread_def)
    qed (use inv eq in \<open>auto simp: ring_inv_def\<close>)
    with True t show False by simp
  qed
  have inv': "ring_inv T ?h" using d by (simp add: drained_def)
  obtain ok h' where h': "CBH_FlushSync (in_process_ops d os now) ?h = Some (ok, h')" "drained T ?h h'"
    "ok \<longleftrightarrow> cbs_error (command_buffer h') = kNoError" "ok \<longrightarrow> cp_get (command_buffer h') = h_put h'"
    using CBH_FlushSync_ring [OF inv', of d os now] u by auto
  have dh': "drained T h h'" using drained_trans [OF inv d h'(2)] .
  have loop: "WaitForToken_loop (in_process_ops d os now) t h =
      (if \<not> ok then Some h' else WaitForToken_loop (in_process_ops d os now) t h')"
    using True ne get h'(1) by (subst WaitForToken_loop.simps) simp
  show ?thesis
  proof (cases ok)
    case False
    with loop dh' h'(3) show ?thesis by (auto simp: passed_def)
  next
    case ok: True
    have inv2: "ring_inv T h'" using dh' by (simp add: drained_def)
    then obtain r' N' ts where r': "has_ring r' N' h'" and ts: "unread r' N' h' ts" "tokens_up_to (cbs_token (command_buffer h')) ts T"
      using ok h'(3) unfolding ring_inv_def by auto
    have "ring_dist N' (unat (cp_get (command_buffer h'))) (unat (h_put h')) = 0"
      using r' h'(4) ok by (subst ring_dist_props(3)) (auto simp: has_ring_def svc_ring_def)
    with ts have "cbs_token (command_buffer h') = T" using tokens_up_to_bounds(4) [OF ts(2)] by (simp add: unread_def)
    with t have "\<not> sint (cbs_token (command_buffer h')) < sint t" by simp
    then have "WaitForToken_loop (in_process_ops d os now) t h' = Some (reread h')" "passed h' t"
      using read_passed [OF inv2] by (subst WaitForToken_loop.simps, auto)
    with loop ok drained_reread [OF inv2] drained_trans [OF inv dh'] drained_passed show ?thesis by auto
  qed
qed

lemma WaitForToken_ring:
  assumes "h_inv h"
  shows "\<exists>h'. WaitForToken (in_process_ops d os now) t h = Some h' \<and> h_inv h' \<and> passed h' t \<and>
    (\<forall>u. passed h u \<longrightarrow> passed h' u) \<and> (usable h \<and> HaveRingBuffer h \<longrightarrow> drained (h_token h) h h')"
proof (cases "usable h \<and> HaveRingBuffer h")
  case False
  then show ?thesis using assms by (auto simp: WaitForToken_def passed_def)
next
  case True
  then have inv: "ring_inv (h_token h) h" using assms by (simp add: h_inv_def)
  have *: ?thesis if "WaitForToken (in_process_ops d os now) t h = Some h'" "drained (h_token h) h h'" "passed h' t" for h'
    using that drained_passed drained_usable [OF that(2)] by (auto simp: h_inv_def drained_def)
  show ?thesis
  proof (cases "sint t < 0 \<or> sint (h_token h) < sint t")
    case out: True
    have "passed h t"
    proof (cases "sint t < 0")
      case neg: True
      show ?thesis
      proof (cases "cbs_error (command_buffer h) = kNoError")
        case True
        then obtain ts where "tokens_up_to (cbs_token (command_buffer h)) ts (h_token h)"
          using inv unfolding ring_inv_def by auto
        with neg tokens_up_to_bounds(1) have "sint t \<le> sint (cbs_token (command_buffer h))" by fastforce
        then show ?thesis using read_passed [OF inv] by blast
      qed (auto simp: passed_def)
    qed (use out read_passed [OF inv] in auto)
    moreover have "WaitForToken (in_process_ops d os now) t h = Some h" using out True by (auto simp: WaitForToken_def)
    ultimately show ?thesis using * drained_refl [OF inv] by blast
  next
    case False
    then obtain h' where "WaitForToken_loop (in_process_ops d os now) t h = Some h'" "drained (h_token h) h h'" "passed h' t"
      using WaitForToken_loop_ring [OF inv] True by (meson not_less)
    with * [of h'] False True show ?thesis by (simp add: WaitForToken_def)
  qed
qed

interpretation in_process: token_fence
  "WaitForToken (in_process_ops d os now)" "last_token_read (in_process_ops d os now)" h_inv passed
  for d :: "'a GpuScheduler_scheme GLES2Decoder" and os now
proof
  fix h h' :: "'a GpuScheduler_scheme CommandBufferHelper" and t u k
  let ?wait = "WaitForToken (in_process_ops d os now)" and ?last = "last_token_read (in_process_ops d os now)"
  assume h: "h_inv h"
  obtain v where v: "?wait t h = Some v" "h_inv v" "passed v t" "\<forall>u. passed h u \<longrightarrow> passed v u"
    using WaitForToken_ring [OF h] by blast
  then show "\<exists>h'. ?wait t h = Some h'" by blast
  show "h_inv h'" "passed h' t" "passed h u \<Longrightarrow> passed h' u" if "?wait t h = Some h'" using that v by auto
  have d: "drained (h_token h) h (reread h)" if "usable h" "HaveRingBuffer h"
    using drained_reread h that by (auto simp: h_inv_def)
  have mono: "passed (reread h) u" if "passed h u" for u
  proof (cases "usable h \<and> HaveRingBuffer h")
    case True
    show ?thesis by (rule drained_passed [OF d that]) (use True in simp_all)
  qed (auto simp: passed_def)
  have "h_inv (reread h)" using drained_inv [OF d] by (simp add: h_inv_def)
  then show "h_inv h'" if "?last h = (k, h')" using that by simp
  show "passed h' u" if "?last h = (k, h')" "passed h u" using that mono by auto
  show "passed h' t" if "?last h = (k, h')" "0 \<le> sint t" "sint t \<le> sint k"
  proof -
    have "passed h t"
    proof (cases "usable h \<and> HaveRingBuffer h")
      case True
      with h have "ring_inv (h_token h) h" by (simp add: h_inv_def)
      with that show ?thesis by (intro read_passed) simp_all
    qed (auto simp: passed_def)
    with that(1) mono show ?thesis by simp
  qed
qed

end
