(* ===== verification/Client_Commands.thy ===== *)
theory Client_Commands
  imports In_Process
begin

section \<open>Writing commands into the ring\<close>

text \<open>
  What \<open>CommandBufferHelper\<close> does before it hands out space: it waits until the space is free, fills
  the end of the ring with \<open>Noop\<close>s when it wraps, and flushes when much is pending. All of it is shown to return,
  and the invariant of \<open>In_Process\<close> to survive, with the new command at the end of the unread ones.
\<close>

subsection \<open>Waiting for space\<close>

lemma AllocateRingBuffer_have: "usable h \<Longrightarrow> HaveRingBuffer h \<Longrightarrow> AllocateRingBuffer ops h = Some (True, h)"
  by (simp add: AllocateRingBuffer_def)

lemma has_ring_bounds:
  assumes "has_ring r N h"
  shows "get_offset (command_buffer h) = cp_get (command_buffer h)" "unat (cp_get (command_buffer h)) < N"
    "unat (h_put h) < N" "N \<le> 2 ^ 29" "HaveRingBuffer h" "unat (total_entry_count h) = N"
    "sint (h_put h) = int (unat (h_put h))" "sint (cp_get (command_buffer h)) = int (unat (cp_get (command_buffer h)))"
    "sint (total_entry_count h) = int N"
    "sint (h_put h) < sint (cp_get (command_buffer h)) \<longleftrightarrow> unat (h_put h) < unat (cp_get (command_buffer h))"
proof -
  show "get_offset (command_buffer h) = cp_get (command_buffer h)" and g: "unat (cp_get (command_buffer h)) < N"
    and p: "unat (h_put h) < N" and N: "N \<le> 2 ^ 29" and "HaveRingBuffer h" and t: "unat (total_entry_count h) = N"
    using assms by (auto simp: has_ring_def svc_ring_def)
  show "sint (h_put h) < sint (cp_get (command_buffer h)) \<longleftrightarrow> unat (h_put h) < unat (cp_get (command_buffer h))"
    using g p N by (intro sint_less_u32) simp_all
  show "sint (h_put h) = int (unat (h_put h))" "sint (cp_get (command_buffer h)) = int (unat (cp_get (command_buffer h)))"
    using g p N by (simp_all add: sint_nonneg_u32)
  show "sint (total_entry_count h) = int N" using t N by (subst sint_nonneg_u32) simp_all
qed

lemma drained_has_ring:
  assumes "drained T h h'" "has_ring r N h"
  shows "has_ring r N h'"
proof -
  obtain r' N' where r': "has_ring r' N' h'" using assms(1) by (auto simp: drained_def ring_inv_def)
  have "r' = r" "N' = N" using assms r' by (auto simp: has_ring_def drained_def same_client_def)
  with r' show ?thesis by simp
qed

lemma WaitWrap_loop_ring:
  assumes inv: "ring_inv T h" and u: "usable h" and r: "has_ring r N h" and p: "0 < unat (h_put h)"
  shows "\<exists>ok h'. WaitWrap_loop (in_process_ops d os now) h = Some (ok, h') \<and> drained T h h' \<and>
    (ok \<longrightarrow> 0 < unat (cp_get (command_buffer h')) \<and> unat (cp_get (command_buffer h')) \<le> unat (h_put h')) \<and>
    (\<not> ok \<longrightarrow> cbs_error (command_buffer h') \<noteq> kNoError)"
proof -
  let ?ops = "in_process_ops d os now"
  define gb where "gb h = (if unat (h_put h) < unat (cp_get (command_buffer h)) then (True, reread h)
      else (cp_get (command_buffer h) = 0, reread (reread h)))" for h :: "'a GpuScheduler_scheme CommandBufferHelper"
  have blocks: "get_blocks_wrap ?ops x = gb x" if "has_ring r N x" for x
    using has_ring_bounds(1,10) [OF that] by (simp add: get_blocks_wrap_def gb_def)
  have free: "WaitWrap_loop ?ops x = Some (True, reread (reread x))"
    if "has_ring r N x" "unat (cp_get (command_buffer x)) \<le> unat (h_put x)" "0 < unat (cp_get (command_buffer x))" for x
    using blocks [OF that(1)] that(2,3) by (subst WaitWrap_loop.simps) (auto simp: gb_def)
  have rr: "drained T x (reread (reread x))" if "ring_inv T x" for x
    using drained_trans [OF that drained_reread [OF that] drained_reread] drained_inv [OF drained_reread [OF that]] by blast
  show ?thesis
  proof (cases "unat (cp_get (command_buffer h)) \<le> unat (h_put h) \<and> 0 < unat (cp_get (command_buffer h))")
    case True
    with free [OF r] rr [OF inv] show ?thesis by auto
  next
    case False
    then have b: "fst (gb h)" by (auto simp: gb_def not_le unat_eq_zero)
    define h1 where "h1 = snd (gb h)"
    have h1: "drained T h h1" unfolding h1_def gb_def using rr [OF inv] drained_reread [OF inv] by simp
    obtain ok h2 where h2: "CBH_FlushSync ?ops h1 = Some (ok, h2)" "drained T h1 h2"
      "ok \<longleftrightarrow> cbs_error (command_buffer h2) = kNoError" "ok \<longrightarrow> cp_get (command_buffer h2) = h_put h2"
      using CBH_FlushSync_ring [OF drained_inv [OF h1]] drained_fields [OF h1] u by blast
    note d2 = drained_trans [OF inv h1 h2(2)]
    have loop: "WaitWrap_loop ?ops h = (if \<not> ok then Some (False, h2) else WaitWrap_loop ?ops h2)"
      using b h2(1) blocks [OF r] by (subst WaitWrap_loop.simps) (auto simp: h1_def split: prod.splits)
    show ?thesis
    proof (cases ok)
      case True
      have "WaitWrap_loop ?ops h2 = Some (True, reread (reread h2))"
        by (rule free [OF drained_has_ring [OF d2 r]]) (use h2(4) True p drained_fields [OF d2] in simp_all)
      with loop True drained_trans [OF inv d2 rr [OF drained_inv [OF d2]]] h2(4) p drained_fields [OF d2]
      show ?thesis by auto
    qed (use loop d2 h2(3) in auto)
  qed
qed

lemma WaitWrap_ring:
  assumes inv: "ring_inv T h" and u: "usable h" and r: "has_ring r N h" and p: "0 < unat (h_put h)"
  shows "\<exists>ok h'. WaitWrap (in_process_ops d os now) h = Some (ok, h') \<and> drained T h h' \<and>
    (ok \<longrightarrow> 0 < unat (cp_get (command_buffer h')) \<and> unat (cp_get (command_buffer h')) \<le> unat (h_put h')) \<and>
    (\<not> ok \<longrightarrow> cbs_error (command_buffer h') \<noteq> kNoError)"
proof -
  let ?ops = "in_process_ops d os now"
  obtain blocked h1 where h1: "get_blocks_wrap ?ops h = (blocked, h1)" by fastforce
  note b = has_ring_bounds [OF r] and d1 = drained_reread [OF inv]
  have d: "drained T h h1" and fr: "\<not> blocked \<Longrightarrow> 0 < unat (cp_get (command_buffer h1)) \<and>
      unat (cp_get (command_buffer h1)) \<le> unat (h_put h1)"
    using h1 d1 drained_trans [OF inv d1 drained_reread [OF drained_inv [OF d1]]] b(1,10)
    by (auto simp: get_blocks_wrap_def unat_gt_0 split: if_splits)
  show ?thesis
  proof (cases blocked)
    case True
    note h1r = drained_inv [OF d] drained_has_ring [OF d r]
    obtain ok h2 where h2: "WaitWrap_loop ?ops h1 = Some (ok, h2)" "drained T h1 h2"
      "(ok \<longrightarrow> 0 < unat (cp_get (command_buffer h2)) \<and> unat (cp_get (command_buffer h2)) \<le> unat (h_put h2)) \<and>
       (\<not> ok \<longrightarrow> cbs_error (command_buffer h2) \<noteq> kNoError)"
      using WaitWrap_loop_ring [OF h1r(1) _ h1r(2)] drained_fields [OF d] u p by (metis (no_types, lifting))
    with True h1 drained_trans [OF inv d h2(2)] show ?thesis by (simp add: WaitWrap_def)
  qed (use h1 d fr in \<open>auto simp: WaitWrap_def\<close>)
qed

lemma AvailableEntries_ring:
  assumes "has_ring r N h"
  shows "\<exists>n. AvailableEntries (in_process_ops d os now) h = Some (n, reread h) \<and>
    sint n = int (N - 1 - ring_dist N (unat (cp_get (command_buffer h))) (unat (h_put h)))"
proof -
  note b = has_ring_bounds [OF assms]
  let ?g = "cp_get (command_buffer h)" and ?p = "h_put h" and ?t = "total_entry_count h"
  let ?x = "?g - ?p - 1 + ?t"
  have "?x = ?g + (?t - ?p - 1)" by simp
  moreover have tp: "unat (?t - ?p - 1) = N - unat ?p - 1"
  proof -
    have "unat (?t - ?p) = N - unat ?p" using b by (simp add: unat_sub_le)
    then show ?thesis using b(3) by (subst unat_sub_le) simp_all
  qed
  ultimately have x: "unat ?x = unat ?g + (N - unat ?p - 1)"
    using b tp by (subst \<open>?x = _\<close>, subst unat_add_less) simp_all
  have "int32_rem ?x ?t = Some (of_nat (unat ?x mod unat ?t))"
    by (rule int32_rem_unat) (use x b in auto)
  moreover have "unat ?x mod unat ?t = N - 1 - ring_dist N (unat ?g) (unat ?p)"
    using b(2,3) unfolding x b(6) ring_dist_props(4) [OF b(2,3)] by (auto simp: le_mod_geq)
  moreover have "sint (of_nat k :: u32) = int k" if "k < 2 ^ 29" for k
  proof -
    have "unat (of_nat k :: u32) = k" using that by (simp add: unsigned_of_nat take_bit_nat_eq_self)
    then show ?thesis using that by (subst sint_nonneg_u32) simp_all
  qed
  moreover have "N - 1 - ring_dist N (unat ?g) (unat ?p) < 2 ^ 29" using b(2,4) by linarith
  ultimately show ?thesis using b(1) by (simp add: AvailableEntries_def)
qed

lemma WaitAvailable_loop_ring:
  assumes inv: "ring_inv T h" and u: "usable h" and r: "has_ring r N h" and n: "unat n < N"
  shows "\<exists>ok h'. WaitAvailable_loop (in_process_ops d os now) n h = Some (ok, h') \<and> drained T h h' \<and>
    (ok \<longrightarrow> unat n + ring_dist N (unat (cp_get (command_buffer h'))) (unat (h_put h')) < N) \<and>
    (\<not> ok \<longrightarrow> cbs_error (command_buffer h') \<noteq> kNoError)"
proof -
  let ?ops = "in_process_ops d os now"
  define fits where "fits h \<longleftrightarrow> unat n + ring_dist N (unat (cp_get (command_buffer h))) (unat (h_put h)) < N"
    for h :: "'a GpuScheduler_scheme CommandBufferHelper"
  have sn: "sint n = int (unat n)" using n has_ring_bounds(4) [OF r] by (intro sint_nonneg_u32) simp
  have avail: "\<exists>k. AvailableEntries ?ops x = Some (k, reread x) \<and> (\<not> sint k < sint n \<longleftrightarrow> fits x)" if ring: "has_ring r N x" for x
  proof -
    obtain k where k: "AvailableEntries ?ops x = Some (k, reread x)"
      "sint k = int (N - 1 - ring_dist N (unat (cp_get (command_buffer x))) (unat (h_put x)))"
      using AvailableEntries_ring [OF ring] by blast
    have "\<not> sint k < sint n \<longleftrightarrow> fits x" unfolding k(2) sn fits_def of_nat_less_iff
      using n ring_dist_props(1) [OF has_ring_bounds(2,3) [OF ring]] by linarith
    with k(1) show ?thesis by blast
  qed
  have free: "WaitAvailable_loop ?ops n x = Some (True, reread x)" if "has_ring r N x" "fits x" for x
    using avail [OF that(1)] that(2) by (subst WaitAvailable_loop.simps) auto
  have fits_reread: "fits (reread x) = fits x" for x by (simp add: fits_def)
  show ?thesis
  proof (cases "fits h")
    case True
    with free [OF r] drained_reread [OF inv] fits_reread show ?thesis unfolding fits_def by blast
  next
    case False
    note d1 = drained_reread [OF inv]
    obtain ok h2 where h2: "CBH_FlushSync ?ops (reread h) = Some (ok, h2)" "drained T (reread h) h2"
      "ok \<longleftrightarrow> cbs_error (command_buffer h2) = kNoError" "ok \<longrightarrow> cp_get (command_buffer h2) = h_put h2"
      using CBH_FlushSync_ring [OF drained_inv [OF d1]] drained_fields [OF d1] u by blast
    note d2 = drained_trans [OF inv d1 h2(2)]
    have loop: "WaitAvailable_loop ?ops n h = (if \<not> ok then Some (False, h2) else WaitAvailable_loop ?ops n h2)"
      using avail [OF r] False h2(1) by (subst WaitAvailable_loop.simps) auto
    show ?thesis
    proof (cases ok)
      case True
      note r2 = drained_has_ring [OF d2 r]
      have "fits h2" using h2(4) True n ring_dist_props(3) [OF has_ring_bounds(2,3) [OF r2]] by (simp add: fits_def)
      with free [OF r2] loop True drained_trans [OF inv d2 drained_reread [OF drained_inv [OF d2]]] fits_reread
      show ?thesis unfolding fits_def by auto
    qed (use loop d2 h2(3) in auto)
  qed
qed

lemma WaitAvailable_ring:
  assumes inv: "ring_inv T h" and u: "usable h" and r: "has_ring r N h" and n: "unat n < N"
  shows "\<exists>ok h'. WaitAvailable (in_process_ops d os now) n h = Some (ok, h') \<and> drained T h h' \<and>
    (ok \<longrightarrow> unat n + ring_dist N (unat (cp_get (command_buffer h'))) (unat (h_put h')) < N) \<and>
    (\<not> ok \<longrightarrow> cbs_error (command_buffer h') \<noteq> kNoError)"
proof -
  let ?ops = "in_process_ops d os now"
  obtain k where k: "AvailableEntries ?ops h = Some (k, reread h)"
    "sint k = int (N - 1 - ring_dist N (unat (cp_get (command_buffer h))) (unat (h_put h)))"
    using AvailableEntries_ring [OF r] by blast
  have sn: "sint n = int (unat n)" using n has_ring_bounds(4) [OF r] by (intro sint_nonneg_u32) simp
  note d1 = drained_reread [OF inv]
  show ?thesis
  proof (cases "sint k < sint n")
    case True
    obtain ok h2 where h2: "WaitAvailable_loop ?ops n (reread h) = Some (ok, h2)" "drained T (reread h) h2"
      "(ok \<longrightarrow> unat n + ring_dist N (unat (cp_get (command_buffer h2))) (unat (h_put h2)) < N) \<and>
       (\<not> ok \<longrightarrow> cbs_error (command_buffer h2) \<noteq> kNoError)"
      using WaitAvailable_loop_ring [OF drained_inv [OF d1] _ has_ring_reread [OF r] n] u by (metis reread_simps(5))
    with True k(1) drained_trans [OF inv d1 h2(2)] show ?thesis by (simp add: WaitAvailable_def)
  next
    case False
    then have "unat n \<le> N - 1 - ring_dist N (unat (cp_get (command_buffer h))) (unat (h_put h))"
      unfolding k(2) sn not_less of_nat_le_iff .
    then have "unat n + ring_dist N (unat (cp_get (command_buffer h))) (unat (h_put h)) < N"
      using ring_dist_props(1) [OF has_ring_bounds(2,3) [OF r]] by linarith
    with False k(1) d1 show ?thesis by (auto simp: WaitAvailable_def)
  qed
qed

subsection \<open>Storing a command\<close>

lemma svc_ring_shm:
  assumes "svc_ring r N rid w" "length m = length (shm w)" "\<forall>q. length (m ! q) = length (shm w ! q)"
  shows "svc_ring r N rid (w\<lparr>shm := m\<rparr>)"
proof -
  have "tbm_wf (w\<lparr>shm := m\<rparr>) = tbm_wf w" by (rule tbm_wf_cong) (simp_all add: assms)
  moreover have "in_bounds m (r, 0) (4 * N) = in_bounds (shm w) (r, 0) (4 * N)"
    by (rule in_bounds_shape) (use assms in simp_all)
  ultimately show ?thesis using assms(1) by (simp add: svc_ring_def dec_wf_def)
qed

text \<open>Entries that do not overlap the stored ones read as before.\<close>

lemma ring_entry_other:
  assumes "store_entries m (ptr_add b (4 * p)) es = Some m'" "i < p \<or> p + length es \<le> i"
  shows "load32 m' (ptr_add b (4 * i)) = load32 m (ptr_add b (4 * i))"
proof (rule load32_store_entries_other [OF assms(1)])
  have "4 * i + 4 \<le> 4 * p \<or> 4 * p + 4 * length es \<le> 4 * i" using assms(2) by linarith
  then show "fst (ptr_add b (4 * i)) \<noteq> fst (ptr_add b (4 * p)) \<or>
    snd (ptr_add b (4 * i)) + 4 \<le> snd (ptr_add b (4 * p)) \<or>
    snd (ptr_add b (4 * p)) + 4 * length es \<le> snd (ptr_add b (4 * i))" by auto
qed

text \<open>A command stored at the end of a chain extends it, if it does not reach the chain's beginning.\<close>

lemma chain_store:
  assumes c: "chain m b N rid g d ts" and g: "g < N" "(g + d) mod N = p"
    and st: "store_entries m (ptr_add b (4 * p)) (header_entry hd0 # es) = Some m'"
    and sz: "length es < unat (hdr_size hd0)" "p + unat (hdr_size hd0) \<le> N" "d + unat (hdr_size hd0) \<le> N"
    and safe: "entry_safe m' rid hd0 (ptr_add b (4 * p))"
  shows "chain m' b N rid g (d + unat (hdr_size hd0)) (ts @ entry_tokens m' hd0 (ptr_add b (4 * p)))"
proof (rule chain_append)
  show "chain m' b N rid g d ts"
  proof (rule chain_cong [OF c g(1)], intro allI impI)
    fix k assume k: "k < d"
    have "(g + k) mod N < p \<or> p + unat (hdr_size hd0) \<le> (g + k) mod N"
    proof (cases "g + d < N")
      case True
      with g(2) k show ?thesis by simp
    next
      case False
      then have p: "p = g + d - N" using g sz by (simp add: le_mod_geq)
      show ?thesis
      proof (cases "g + k < N")
        case True
        then show ?thesis using p sz(3) False by (simp, linarith)
      next
        case False
        then have "(g + k) mod N = g + k - N" using g k sz by (simp add: le_mod_geq)
        then show ?thesis using p k False by linarith
      qed
    qed
    then show "load32 m' (ptr_add b (4 * ((g + k) mod N))) = load32 m (ptr_add b (4 * ((g + k) mod N)))"
      using sz(1) by (intro ring_entry_other [OF st]) auto
  qed
  have "load32 m' (ptr_add b (4 * p)) = Some (header_entry hd0)" using load32_store_entries [OF st, of 0] by simp
  then show "chain m' b N rid ((g + d) mod N) (unat (hdr_size hd0)) (entry_tokens m' hd0 (ptr_add b (4 * p)))"
    unfolding g(2) using chain_single [OF _ _ sz(2) safe] sz(1) by simp
  show "g < N" by (rule g(1))
qed

lemma entry_safe_Noop [simp]: "entry_safe m rid \<lparr>hdr_size = n, hdr_command = 0\<rparr> p"
  unfolding entry_safe_def
proof (intro allI impI)
  fix c f
  assume "cmd_id c = ucast (hdr_command \<lparr>hdr_size = n, hdr_command = 0\<rparr>)"
  then have "c = kNoop" by (intro cmd_id_inj) simp
  then show "rid \<notin> write_ids c f" by simp
qed

lemma entry_tokens_Noop [simp]: "entry_tokens m \<lparr>hdr_size = n, hdr_command = 0\<rparr> p = []"
  by (simp add: entry_tokens_def)

subsection \<open>Filling the end of the ring\<close>

lemma Noop_Set_eq:
  assumes "0 < unat k" "unat k < 2 ^ 21"
  shows "Noop_Set 0 k = Some ([header_entry \<lparr>hdr_size = ucast k, hdr_command = 0\<rparr>],
    NextImmediateCmdAddress (sizeof_cmd kNoop) 0 (k * 4))"
proof -
  have "0 < k" using assms(1) by (simp add: word_less_nat_alt)
  with assms show ?thesis
    by (simp add: Noop_Set_def Noop_Init_def Noop_SetHeader_def CommandHeader_Init_small Noop_entries_def)
qed

lemma FillNoops_loop_ring:
  assumes "chain (shm (command_buffer h)) (r, 0) N rid g d ts" "g < N" "g + d = unat (h_put h)"
    and "svc_ring r N rid (command_buffer h)" "entries h = Some (r, 0)" "unat (h_put h) + unat n = N"
  shows "\<exists>m. FillNoops_loop n h =
      Some (h\<lparr>command_buffer := (command_buffer h)\<lparr>shm := m\<rparr>, h_put := h_put h + n\<rparr>) \<and>
    svc_ring r N rid ((command_buffer h)\<lparr>shm := m\<rparr>) \<and> (\<forall>q. q \<noteq> r \<longrightarrow> m ! q = shm (command_buffer h) ! q) \<and>
    length m = length (shm (command_buffer h)) \<and> (\<forall>q. length (m ! q) = length (shm (command_buffer h) ! q)) \<and>
    chain m (r, 0) N rid g (d + unat n) ts"
  using assms
proof (induction "unat n" arbitrary: n h d rule: less_induct)
  case less
  let ?w = "command_buffer h" and ?p = "unat (h_put h)"
  have N: "N \<le> 2 ^ 29" "in_bounds (shm ?w) (r, 0) (4 * N)" using less.prems(4) by (auto simp: svc_ring_def)
  have n31: "unat n < 2 ^ 31" using less.prems(6) N(1) by simp
  have sn: "sint n = int (unat n)" using n31 by (rule sint_nonneg_u32)
  show ?case
  proof (cases "unat n = 0")
    case True
    then have "n = 0" by (simp add: unat_eq_zero)
    with less.prems show ?thesis by (subst FillNoops_loop.simps) (auto intro!: exI [of _ "shm ?w"])
  next
    case False
    define k where "k = (if sint n < sint kMaxSize then n else kMaxSize)"
    have "unat kMaxSize = 2 ^ 21 - 1" by (simp add: kMaxSize_eq)
    moreover have "sint n < sint kMaxSize \<longleftrightarrow> unat n < unat kMaxSize"
      using n31 by (intro sint_less_u32) (simp_all add: kMaxSize_eq)
    ultimately have k: "0 < unat k" "unat k < 2 ^ 21" "unat k \<le> unat n" using False by (auto simp: k_def)
    let ?hd = "\<lparr>hdr_size = ucast k, hdr_command = 0\<rparr> :: CommandHeader" and ?q = "ptr_add (r, 0) (4 * ?p)"
    have hs: "unat (hdr_size ?hd) = unat k" using k(2) by (simp add: unat_ucast_21)
    have sp: "sint (h_put h) = int ?p" using less.prems(6) N by (intro sint_nonneg_u32) simp
    have ent: "entry_at h (h_put h) = Some ?q" using less.prems(5) sp by (simp add: entry_at_def)
    obtain m1 where m1: "store_entries (shm ?w) ?q [header_entry ?hd] = Some m1"
      using store_entries_ok [of ?q "shm ?w" "[header_entry ?hd]"] N(2) less.prems(6) False
      by (auto simp: in_bounds_def)
    note sh = store_entries_shape [OF m1]
    let ?h1 = "h\<lparr>command_buffer := ?w\<lparr>shm := m1\<rparr>, h_put := h_put h + k\<rparr>"
    have put1: "unat (h_put h + k) = ?p + unat k" using less.prems(6) k N by (intro unat_add_less) simp
    have n1: "unat (n - k) = unat n - unat k" using k(3) by (rule unat_sub_le)
    have "chain m1 (r, 0) N rid g (d + unat (hdr_size ?hd)) (ts @ entry_tokens m1 ?hd ?q)"
      by (rule chain_store [OF less.prems(1,2) _ m1]) (use less.prems(3,6) k hs False in simp_all)
    then have c1: "chain (shm (command_buffer ?h1)) (r, 0) N rid g (d + unat k) ts" using hs by simp
    have s1: "svc_ring r N rid (command_buffer ?h1)" using svc_ring_shm [OF less.prems(4) sh(1)] sh(2) by simp
    have "unat (n - k) < unat n" using n1 k by simp
    from less.hyps [OF this c1 less.prems(2) _ s1] obtain m where
      m: "FillNoops_loop (n - k) ?h1 = Some (?h1\<lparr>command_buffer := (command_buffer ?h1)\<lparr>shm := m\<rparr>,
          h_put := h_put ?h1 + (n - k)\<rparr>)" "svc_ring r N rid ((command_buffer ?h1)\<lparr>shm := m\<rparr>)"
        "\<forall>q. q \<noteq> r \<longrightarrow> m ! q = m1 ! q" "length m = length m1" "\<forall>q. length (m ! q) = length (m1 ! q)"
        "chain m (r, 0) N rid g (d + unat k + unat (n - k)) ts"
      using less.prems(3,5,6) k put1 n1 by auto
    have "FillNoops_loop n h = FillNoops_loop (n - k) ?h1"
    proof -
      have "0 < sint n" using sn False by linarith
      with ent m1 Noop_Set_eq [OF k(1,2)] show ?thesis
        unfolding FillNoops_loop.simps [of n h] k_def [symmetric] Let_def by simp
    qed
    with m sh k n1 show ?thesis by (auto simp: add.assoc)
  qed
qed

subsection \<open>Making room for a command\<close>

text \<open>What every step of the client keeps: the invariant, its ring and token, the tokens that passed, and errors.\<close>

definition advanced :: "u32 \<Rightarrow> 'a GpuScheduler_scheme CommandBufferHelper \<Rightarrow> 'a GpuScheduler_scheme CommandBufferHelper \<Rightarrow> bool" where
  "advanced T h h' \<longleftrightarrow>
     ring_inv T h' \<and> usable h' = usable h \<and> h_token h' = h_token h \<and> h_ring_buffer_id h' = h_ring_buffer_id h \<and>
     (\<forall>r N. has_ring r N h \<longrightarrow> has_ring r N h') \<and> (\<forall>t. passed h t \<longrightarrow> passed h' t) \<and>
     (cbs_error (command_buffer h) \<noteq> kNoError \<longrightarrow> cbs_error (command_buffer h') \<noteq> kNoError)"

lemma drained_advanced:
  assumes d: "drained T h h'"
  shows "advanced T h h'"
proof -
  have "h_ring_buffer_id h' = h_ring_buffer_id h"
    "cbs_error (command_buffer h) \<noteq> kNoError \<Longrightarrow> cbs_error (command_buffer h') \<noteq> kNoError"
    using d by (auto simp: drained_def same_client_def)
  then show ?thesis
    unfolding advanced_def
    by (intro conjI allI impI drained_inv [OF d] drained_fields [OF d] drained_has_ring [OF d] drained_passed [OF d])
qed

lemma advanced_trans [trans]: "advanced T h h' \<Longrightarrow> advanced T h' h'' \<Longrightarrow> advanced T h h''"
  by (auto simp: advanced_def)

lemma advanced_refl: "ring_inv T h \<Longrightarrow> advanced T h h" by (simp add: advanced_def)

lemma advanced_inv: "advanced T h h' \<Longrightarrow> ring_inv T h'" by (simp add: advanced_def)

lemma ring_inv_unread:
  assumes "ring_inv T h" "has_ring r N h" "cbs_error (command_buffer h) = kNoError"
  obtains ts where "unread r N h ts" "tokens_up_to (cbs_token (command_buffer h)) ts T"
    "\<forall>us. unread_tokens h us \<longleftrightarrow> us = ts"
proof -
  obtain ts where ts: "unread r N h ts" "tokens_up_to (cbs_token (command_buffer h)) ts T"
    using assms has_ring_unique unfolding ring_inv_def by metis
  moreover have "unread_tokens h us \<longleftrightarrow> us = ts" for us
    using ts(1) unread_tokens_iff [OF assms(2)] chain_unique unfolding unread_def by blast
  ultimately show thesis using that by blast
qed

text \<open>
  The client writes to the free part of the ring and moves \<open>put_\<close>: \<open>us\<close> are the tokens of what it wrote.
\<close>

lemma written_advanced:
  assumes inv: "ring_inv T h" and r: "has_ring r N h"
    and r': "svc_ring r N (h_ring_buffer_id h) ((command_buffer h)\<lparr>shm := m\<rparr>)" "unat p < N"
    and c: "\<And>ts. cbs_error (command_buffer h) = kNoError \<Longrightarrow> unread r N h ts \<Longrightarrow>
      unread r N (h\<lparr>command_buffer := (command_buffer h)\<lparr>shm := m\<rparr>, h_put := p\<rparr>) ts"
    and e: "cbs_error (command_buffer h) \<noteq> kNoError \<Longrightarrow> cp_get (command_buffer h) \<noteq> p"
  shows "advanced T h (h\<lparr>command_buffer := (command_buffer h)\<lparr>shm := m\<rparr>, h_put := p\<rparr>)"
proof -
  let ?h = "h\<lparr>command_buffer := (command_buffer h)\<lparr>shm := m\<rparr>, h_put := p\<rparr>"
  have ring: "has_ring r N ?h" using r r' by (simp add: has_ring_def HaveRingBuffer_def)
  have "ring_inv T ?h"
  proof (rule ring_invI [OF ring])
    assume "cbs_error (command_buffer ?h) = kNoError"
    then have ok: "cbs_error (command_buffer h) = kNoError" by simp
    obtain ts where "unread r N h ts" "tokens_up_to (cbs_token (command_buffer h)) ts T"
      by (rule ring_inv_unread [OF inv r ok])
    with c [OF ok] show "\<exists>ts. unread r N ?h ts \<and> tokens_up_to (cbs_token (command_buffer ?h)) ts T" by auto
  qed (use e in simp)
  moreover have "passed ?h t" if t: "passed h t" for t
  proof (cases "cbs_error (command_buffer h) = kNoError")
    case True
    obtain ts where ts: "unread r N h ts" "\<forall>us. unread_tokens h us \<longleftrightarrow> us = ts" by (rule ring_inv_unread [OF inv r True])
    have "us = ts" if "unread_tokens ?h us" for us
      using that c [OF True ts(1)] unread_tokens_iff [OF ring] chain_unique unfolding unread_def by blast
    with t ts show ?thesis by (auto simp: passed_def HaveRingBuffer_def)
  qed (simp add: passed_def)
  moreover have "has_ring q M ?h" if "has_ring q M h" for q M using has_ring_unique [OF r that] ring by simp
  ultimately show ?thesis by (simp add: advanced_def)
qed

lemma FillNoops_advanced:
  assumes inv: "ring_inv T h" and r: "has_ring r N h"
    and g: "0 < unat (cp_get (command_buffer h))" "unat (cp_get (command_buffer h)) \<le> unat (h_put h)"
  shows "\<exists>h'. FillNoops_loop (total_entry_count h - h_put h) h = Some h' \<and> advanced T h (h'\<lparr>h_put := 0\<rparr>) \<and>
    cp_get (command_buffer h') = cp_get (command_buffer h) \<and> cbs_error (command_buffer h') = cbs_error (command_buffer h)"
proof -
  let ?w = "command_buffer h" and ?g = "unat (cp_get (command_buffer h))" and ?p = "unat (h_put h)"
  let ?n = "total_entry_count h - h_put h" and ?rid = "h_ring_buffer_id h"
  note b = has_ring_bounds [OF r]
  have n: "?p + unat ?n = N" using b(3,6) by (subst unat_sub_le) simp_all
  have ring: "svc_ring r N ?rid ?w" "entries h = Some (r, 0)" using r by (auto simp: has_ring_def)
  have dist: "ring_dist N ?g ?p = ?p - ?g" "ring_dist N ?g 0 = N - ?g"
    using ring_dist_props(4) [OF b(2,3)] ring_dist_props(4) [OF b(2), of 0] b(2) g by auto
  have fill: "\<exists>m. FillNoops_loop ?n h = Some (h\<lparr>command_buffer := ?w\<lparr>shm := m\<rparr>, h_put := h_put h + ?n\<rparr>) \<and>
      svc_ring r N ?rid (?w\<lparr>shm := m\<rparr>) \<and> chain m (r, 0) N ?rid x (d + unat ?n) ts"
    if "chain (shm ?w) (r, 0) N ?rid x d ts" "x + d = ?p" "x < N" for x d ts
    using FillNoops_loop_ring [OF that(1,3,2) ring n] by blast
  obtain m where m: "FillNoops_loop ?n h = Some (h\<lparr>command_buffer := ?w\<lparr>shm := m\<rparr>, h_put := h_put h + ?n\<rparr>)"
    "svc_ring r N ?rid (?w\<lparr>shm := m\<rparr>)"
    using fill [of ?p 0 "[]"] b(3) by auto
  have "unread r N (h\<lparr>command_buffer := ?w\<lparr>shm := m\<rparr>, h_put := 0\<rparr>) ts" if "unread r N h ts" for ts
  proof -
    have c: "chain (shm ?w) (r, 0) N ?rid ?g (?p - ?g) ts" using that dist by (simp add: unread_def)
    obtain m' where m': "FillNoops_loop ?n h = Some (h\<lparr>command_buffer := ?w\<lparr>shm := m'\<rparr>, h_put := h_put h + ?n\<rparr>)"
      "chain m' (r, 0) N ?rid ?g (?p - ?g + unat ?n) ts"
      using fill [OF c] g(2) b(2) by auto
    have "h\<lparr>command_buffer := ?w\<lparr>shm := m'\<rparr>, h_put := h_put h + ?n\<rparr> =
        h\<lparr>command_buffer := ?w\<lparr>shm := m\<rparr>, h_put := h_put h + ?n\<rparr>"
      using m(1) m'(1) by simp
    then have "shm (command_buffer (h\<lparr>command_buffer := ?w\<lparr>shm := m'\<rparr>, h_put := h_put h + ?n\<rparr>)) =
        shm (command_buffer (h\<lparr>command_buffer := ?w\<lparr>shm := m\<rparr>, h_put := h_put h + ?n\<rparr>))" by (rule arg_cong)
    then have "m' = m" by simp
    moreover have "?p - ?g + unat ?n = N - ?g" using n g(2) by simp
    ultimately show ?thesis using m'(2) dist(2) by (simp add: unread_def)
  qed
  then have "advanced T h (h\<lparr>command_buffer := ?w\<lparr>shm := m\<rparr>, h_put := 0\<rparr>)"
    using b(2) g(1) by (intro written_advanced [OF inv r m(2)]) auto
  with m(1) show ?thesis by auto
qed

lemma int32_rem_total: "b \<noteq> 0 \<Longrightarrow> \<exists>x. int32_rem a b = Some x"
  by (simp add: int32_rem_def)

lemma AutoFlush_ring:
  assumes inv: "ring_inv T h" and r: "has_ring r N h"
  shows "\<exists>h'. AutoFlush (in_process_ops d os now) h = Some h' \<and> drained T h h'"
proof -
  let ?ops = "in_process_ops d os now"
  have "total_entry_count h \<noteq> 0" using has_ring_bounds(2,6) [OF r] by auto
  then obtain x where x: "int32_rem (h_put h + total_entry_count h - last_put_sent h) (total_entry_count h) = Some x"
    using int32_rem_total by blast
  obtain y where y: "int32_rem (commands_issued h) kCommandsPerFlushCheck = Some y"
    using int32_rem_total [of kCommandsPerFlushCheck] by (auto simp: kCommandsPerFlushCheck_def)
  note d1 = drained_reread [OF inv]
  obtain h' where h': "CBH_Flush ?ops (reread h) = Some h'" "drained T (reread h) h'"
    using CBH_Flush_ring [OF drained_inv [OF d1]] by blast
  have "commands_issued (reread h) = commands_issued h" by (simp add: reread_def)
  then have "AutoFlush ?ops h = Some h' \<or> AutoFlush ?ops h = Some (reread h)"
    using x y h'(1) by (simp add: AutoFlush_def Let_def)
  with d1 drained_trans [OF inv d1 h'(2)] show ?thesis by blast
qed

text \<open>
  \<open>roomy n h\<close>: \<open>n\<close> entries fit between \<open>put_\<close> and the end of the ring without reaching the unread ones.
\<close>

definition roomy :: "nat \<Rightarrow> nat \<Rightarrow> 'a GpuScheduler_scheme CommandBufferHelper \<Rightarrow> bool" where
  "roomy N n h \<longleftrightarrow> unat (h_put h) + n \<le> N \<and>
     n + ring_dist N (unat (cp_get (command_buffer h))) (unat (h_put h)) < N"

lemma sint_sum:
  assumes "unat (a :: u32) < 2 ^ 29" "unat b < 2 ^ 29"
  shows "sint (a + b) = int (unat a + unat b)"
proof -
  have "unat (a + b) = unat a + unat b" using assms by (intro unat_add_less) simp
  then show ?thesis using assms by (subst sint_nonneg_u32) simp_all
qed

lemma wrap_phase:
  assumes inv: "ring_inv T h" and u: "usable h" and r: "has_ring r N h" and n: "unat n < N"
  shows "\<exists>ok h'. (if sint (total_entry_count h) < sint (h_put h + n) then do {
            dcheck (1 \<le> sint (h_put h));
            (ok, h) \<leftarrow> WaitWrap (in_process_ops d os now) h;
            if \<not> ok then Some (False, h)
            else do {
              h \<leftarrow> FillNoops_loop (total_entry_count h - h_put h) h;
              Some (True, h\<lparr>h_put := 0\<rparr>)
            }
          }
          else Some (True, h)) = Some (ok, h') \<and> advanced T h h' \<and>
    (if ok then unat (h_put h') + unat n \<le> N else cbs_error (command_buffer h') \<noteq> kNoError)"
proof -
  let ?ops = "in_process_ops d os now"
  note b = has_ring_bounds [OF r]
  have "sint (h_put h + n) = int (unat (h_put h) + unat n)" using b n by (intro sint_sum) simp_all
  then have cond: "sint (total_entry_count h) < sint (h_put h + n) \<longleftrightarrow> N < unat (h_put h) + unat n"
    using b(9) by linarith
  show ?thesis
  proof (cases "N < unat (h_put h) + unat n")
    case False
    with cond advanced_refl [OF inv] show ?thesis by auto
  next
    case True
    then have p: "0 < unat (h_put h)" "1 \<le> sint (h_put h)" using n b(7) by linarith+
    obtain ok h1 where h1: "WaitWrap ?ops h = Some (ok, h1)" "drained T h h1"
      "ok \<longrightarrow> 0 < unat (cp_get (command_buffer h1)) \<and> unat (cp_get (command_buffer h1)) \<le> unat (h_put h1)"
      "\<not> ok \<longrightarrow> cbs_error (command_buffer h1) \<noteq> kNoError"
      using WaitWrap_ring [OF inv u r p(1)] by blast
    note a1 = drained_advanced [OF h1(2)]
    show ?thesis
    proof (cases ok)
      case ok: True
      then have g: "0 < unat (cp_get (command_buffer h1))" "unat (cp_get (command_buffer h1)) \<le> unat (h_put h1)"
        using h1(3) by auto
      obtain h2 where h2: "FillNoops_loop (total_entry_count h1 - h_put h1) h1 = Some h2" "advanced T h1 (h2\<lparr>h_put := 0\<rparr>)"
        using FillNoops_advanced [OF drained_inv [OF h1(2)] drained_has_ring [OF h1(2) r] g] by blast
      have "advanced T h (h2\<lparr>h_put := 0\<rparr>)" using a1 h2(2) by (rule advanced_trans)
      with True cond p(2) h1(1) h2(1) n ok show ?thesis by auto
    qed (use True cond p(2) h1 a1 in auto)
  qed
qed

lemma WaitForAvailableEntries_ring:
  assumes inv: "ring_inv T h" and u: "usable h" and r: "has_ring r N h" and n: "unat n < N"
  shows "\<exists>h'. WaitForAvailableEntries (in_process_ops d os now) n h = Some h' \<and> advanced T h h' \<and>
    (cbs_error (command_buffer h') = kNoError \<longrightarrow> roomy N (unat n) h')"
proof -
  let ?ops = "in_process_ops d os now"
  note b = has_ring_bounds [OF r]
  have sn: "sint n = int (unat n)" using n b(4) by (intro sint_nonneg_u32) simp
  have pre: "AllocateRingBuffer ?ops h = Some (True, h)" "sint n < sint (total_entry_count h)"
    using AllocateRingBuffer_have [OF u b(5)] sn n b(9) by (simp, linarith)
  obtain ok h1 where h1: "(if sint (total_entry_count h) < sint (h_put h + n) then do {
            dcheck (1 \<le> sint (h_put h));
            (ok, h) \<leftarrow> WaitWrap ?ops h;
            if \<not> ok then Some (False, h)
            else do {
              h \<leftarrow> FillNoops_loop (total_entry_count h - h_put h) h;
              Some (True, h\<lparr>h_put := 0\<rparr>)
            }
          }
          else Some (True, h)) = Some (ok, h1)" "advanced T h h1"
      "if ok then unat (h_put h1) + unat n \<le> N else cbs_error (command_buffer h1) \<noteq> kNoError"
    using wrap_phase [OF inv u r n] by blast
  have eq: "WaitForAvailableEntries ?ops n h =
      (if \<not> ok then Some h1 else do {
         (ok, h) \<leftarrow> WaitAvailable ?ops n h1;
         if \<not> ok then Some h else AutoFlush ?ops h })"
    unfolding WaitForAvailableEntries_def pre(1) using u b(5) pre(2) h1(1) by simp
  show ?thesis
  proof (cases ok)
    case ok: True
    have r1: "has_ring r N h1" "usable h1" using h1(2) r u by (auto simp: advanced_def)
    obtain ok2 h2 where h2: "WaitAvailable ?ops n h1 = Some (ok2, h2)" "drained T h1 h2"
      "ok2 \<longrightarrow> unat n + ring_dist N (unat (cp_get (command_buffer h2))) (unat (h_put h2)) < N"
      "\<not> ok2 \<longrightarrow> cbs_error (command_buffer h2) \<noteq> kNoError"
      using WaitAvailable_ring [OF advanced_inv [OF h1(2)] r1(2,1) n] by blast
    have a2: "advanced T h h2" using h1(2) drained_advanced [OF h2(2)] by (rule advanced_trans)
    show ?thesis
    proof (cases ok2)
      case ok2: True
      obtain h3 where h3: "AutoFlush ?ops h2 = Some h3" "drained T h2 h3"
        using AutoFlush_ring [OF drained_inv [OF h2(2)] drained_has_ring [OF h2(2) r1(1)]] by blast
      have "roomy N (unat n) h3"
        using h2(3) ok2 drained_dist [OF h3(2) drained_has_ring [OF h2(2) r1(1)]] h1(3) ok
          drained_fields(1) [OF h2(2)] drained_fields(1) [OF h3(2)] by (simp add: roomy_def)
      with eq ok ok2 h2(1) h3 advanced_trans [OF a2 drained_advanced [OF h3(2)]] show ?thesis by auto
    qed (use eq ok h2 a2 in auto)
  qed (use eq h1 in auto)
qed

lemma GetSpace_ring:
  assumes inv: "ring_inv T h" and u: "usable h" and r: "has_ring r N h" and n: "unat n < N"
  shows "\<exists>h1. WaitForAvailableEntries (in_process_ops d os now) n (h\<lparr>commands_issued := commands_issued h + 1\<rparr>) = Some h1 \<and>
    advanced T h h1 \<and>
    (cbs_error (command_buffer h1) = kNoError \<longrightarrow> roomy N (unat n) h1 \<and>
       GetSpace (in_process_ops d os now) n h =
         Some (Some (ptr_add (r, 0) (4 * unat (h_put h1))),
               h1\<lparr>h_put := of_nat ((unat (h_put h1) + unat n) mod N)\<rparr>))"
proof -
  let ?ops = "in_process_ops d os now" and ?h = "h\<lparr>commands_issued := commands_issued h + 1\<rparr>"
  have c: "has_ring q M ?h = has_ring q M h" "unread q M ?h ts = unread q M h ts" for q M ts
    by (simp_all add: has_ring_def unread_def HaveRingBuffer_def)
  have "ring_inv T ?h = ring_inv T h" by (simp add: ring_inv_def c)
  then have inv': "ring_inv T ?h" using inv by simp
  have "unread_tokens ?h ts = unread_tokens h ts" for ts by (simp add: unread_tokens_def c)
  then have a: "advanced T h ?h" using inv' by (simp add: advanced_def c passed_def HaveRingBuffer_def)
  have h0: "usable ?h" "has_ring r N ?h" using u r c by simp_all
  obtain h1 where h1: "WaitForAvailableEntries ?ops n ?h = Some h1" "advanced T ?h h1"
    "cbs_error (command_buffer h1) = kNoError \<longrightarrow> roomy N (unat n) h1"
    using WaitForAvailableEntries_ring [OF inv' h0 n] by blast
  have a1: "advanced T h h1" using a h1(2) by (rule advanced_trans)
  then have r1: "has_ring r N h1" using r by (auto simp: advanced_def)
  note b = has_ring_bounds [OF r1]
  have "GetSpace ?ops n h = Some (Some (ptr_add (r, 0) (4 * unat (h_put h1))),
      h1\<lparr>h_put := of_nat ((unat (h_put h1) + unat n) mod N)\<rparr>)" if room: "roomy N (unat n) h1"
  proof -
    have "entries h1 = Some (r, 0)" using r1 by (simp add: has_ring_def)
    then have sp: "entry_at h1 (h_put h1) = Some (ptr_add (r, 0) (4 * unat (h_put h1)))"
      using b(7) by (simp add: entry_at_def)
    have un: "unat (h_put h1 + n) = unat (h_put h1) + unat n" using b n by (intro unat_add_less) simp
    have "sint (h_put h1 + n) = int (unat (h_put h1) + unat n)" using b n by (intro sint_sum) simp_all
    then have le: "sint (h_put h1 + n) \<le> sint (total_entry_count h1)" using room b(9) unfolding roomy_def by linarith
    have "(if h_put h1 + n = total_entry_count h1 then 0 else h_put h1 + n) = of_nat ((unat (h_put h1) + unat n) mod N)"
    proof (cases "unat (h_put h1) + unat n = N")
      case True
      then have "h_put h1 + n = total_entry_count h1" using un b(6) by (simp add: word_unat_eq_iff)
      with True show ?thesis by simp
    next
      case False
      then have lt: "unat (h_put h1) + unat n < N" using room by (simp add: roomy_def)
      have "h_put h1 + n \<noteq> total_entry_count h1" using un b(6) False by auto
      moreover have "h_put h1 + n = of_nat (unat (h_put h1) + unat n)" by simp
      moreover have "(unat (h_put h1) + unat n) mod N = unat (h_put h1) + unat n" using lt by (rule mod_less)
      ultimately show ?thesis by (simp only: if_False)
    qed
    then show ?thesis
      unfolding GetSpace_def AllocateRingBuffer_have [OF u has_ring_bounds(5) [OF r], of ?ops]
      using u has_ring_bounds(5) [OF r] h1(1) sp le by (simp add: Let_def)
  qed
  with h1 a1 show ?thesis by blast
qed

subsection \<open>Writing the command\<close>

lemma tokens_up_to_snoc: "tokens_up_to read ts T \<Longrightarrow> sint T < sint t \<Longrightarrow> tokens_up_to read (ts @ [t]) t"
  by (cases ts rule: rev_cases) (auto simp: tokens_up_to_def sorted_wrt_append)

text \<open>The state after a command was stored in the space that \<open>GetSpace\<close> made.\<close>

definition wrote :: "nat \<Rightarrow> nat \<Rightarrow> byte list list \<Rightarrow> 'a GpuScheduler_scheme CommandBufferHelper \<Rightarrow> 'a GpuScheduler_scheme CommandBufferHelper" where
  "wrote N n m h = h\<lparr>command_buffer := (command_buffer h)\<lparr>shm := m\<rparr>, h_put := of_nat ((unat (h_put h) + n) mod N)\<rparr>"

lemma wrote_simps [simp]:
  "cbs_error (command_buffer (wrote N n m h)) = cbs_error (command_buffer h)"
  "cbs_token (command_buffer (wrote N n m h)) = cbs_token (command_buffer h)"
  "cp_get (command_buffer (wrote N n m h)) = cp_get (command_buffer h)" "usable (wrote N n m h) = usable h"
  "h_token (wrote N n m h) = h_token h" "HaveRingBuffer (wrote N n m h) = HaveRingBuffer h"
  "shm (command_buffer (wrote N n m h)) = m"
  by (simp_all add: wrote_def HaveRingBuffer_def)

lemma write_command:
  fixes h0 :: CommandHeader
  assumes inv: "ring_inv T h" and r: "has_ring r N h" and ok: "cbs_error (command_buffer h) = kNoError"
    and room: "roomy N n h" and n: "n = unat (hdr_size h0)" "length es < n"
    and st: "store_entries (shm (command_buffer h)) (ptr_add (r, 0) (4 * unat (h_put h))) (header_entry h0 # es) = Some m"
    and safe: "entry_safe m (h_ring_buffer_id h) h0 (ptr_add (r, 0) (4 * unat (h_put h)))"
    and toks: "\<And>ts read. tokens_up_to read ts T \<Longrightarrow>
      tokens_up_to read (ts @ entry_tokens m h0 (ptr_add (r, 0) (4 * unat (h_put h)))) T'"
  shows "ring_inv T' (wrote N n m h) \<and> has_ring r N (wrote N n m h) \<and>
    (\<forall>us. unread_tokens (wrote N n m h) us \<longleftrightarrow>
       (\<exists>ts. unread_tokens h ts \<and> us = ts @ entry_tokens m h0 (ptr_add (r, 0) (4 * unat (h_put h)))))"
proof -
  let ?w = "command_buffer h" and ?g = "unat (cp_get (command_buffer h))" and ?p = "unat (h_put h)"
  let ?h = "wrote N n m h" and ?d = "ring_dist N (unat (cp_get (command_buffer h))) (unat (h_put h))"
  let ?us = "entry_tokens m h0 (ptr_add (r, 0) (4 * ?p))"
  note b = has_ring_bounds [OF r]
  note sh = store_entries_shape [OF st]
  have Npos: "0 < N" using b(2) by simp
  have put: "unat (h_put ?h) = (?p + n) mod N"
    using unat_of_nat_mod [of "total_entry_count h" "?p + n"] b(6) Npos by (simp add: wrote_def)
  have "svc_ring r N (h_ring_buffer_id h) (?w\<lparr>shm := m\<rparr>)"
    using r sh by (intro svc_ring_shm) (simp_all add: has_ring_def)
  then have ring: "has_ring r N ?h"
    using r put Npos by (simp add: has_ring_def wrote_def HaveRingBuffer_def)
  obtain ts where ts: "unread r N h ts" "tokens_up_to (cbs_token ?w) ts T" "\<forall>us. unread_tokens h us \<longleftrightarrow> us = ts"
    by (rule ring_inv_unread [OF inv r ok])
  have "chain m (r, 0) N (h_ring_buffer_id h) ?g (?d + n) (ts @ ?us)"
    unfolding n(1)
    by (rule chain_store [OF ts(1) [unfolded unread_def] b(2) _ st _ _ _ safe])
       (use room n ring_dist_props(2) [OF b(2,3)] in \<open>simp_all add: roomy_def\<close>)
  moreover have "?d + n = ring_dist N ?g ((?p + n) mod N)"
  proof (rule ring_dist_unique)
    have "(?g + (?d + n)) mod N = ((?g + ?d) mod N + n) mod N" by (simp add: mod_add_left_eq add.assoc)
    then show "(?g + (?d + n)) mod N = (?p + n) mod N" using ring_dist_props(2) [OF b(2,3)] by simp
  qed (use room b(2) Npos in \<open>simp_all add: roomy_def\<close>)
  ultimately have un: "unread r N ?h (ts @ ?us)" using put by (simp add: unread_def wrote_def)
  have "ring_inv T' ?h"
  proof (rule ring_invI [OF ring])
    show "\<exists>ts. unread r N ?h ts \<and> tokens_up_to (cbs_token (command_buffer ?h)) ts T'"
      by (rule exI [of _ "ts @ ?us"]) (simp add: un toks [OF ts(2)])
  qed (simp add: ok)
  moreover have "unread_tokens ?h us \<longleftrightarrow> us = ts @ ?us" for us
    using un unread_tokens_iff [OF ring] chain_unique unfolding unread_def by blast
  ultimately show ?thesis by (simp add: ring ts(3))
qed

subsection \<open>Inserting a token\<close>

lemma entry_safe_SetToken:
  assumes "ucast (hdr_command h0) = cmd_id kSetToken"
  shows "entry_safe m rid h0 p"
  unfolding entry_safe_def
proof (intro allI impI)
  fix c f
  assume "cmd_id c = ucast (hdr_command h0)"
  then have "c = kSetToken" using assms by (intro cmd_id_inj) simp
  then show "rid \<notin> write_ids c f" by simp
qed

text \<open>
  \<open>InsertToken\<close> on a service that has no error, short of the wrap-around of tokens. Unless the service fails while
  space is made, the call returns the next token, which is the last one unread, and every other token stays as it was.
\<close>

lemma InsertToken_ring:
  fixes h :: "'a GpuScheduler_scheme CommandBufferHelper" and d os now
  defines "ops \<equiv> in_process_ops d os now"
  assumes inv: "ring_inv (h_token h) h" and u: "usable h" and r: "has_ring r N h" and N: "2 < N"
    and t: "0 \<le> sint (h_token h)" "sint (h_token h) < 2 ^ 31 - 1"
  shows "(\<exists>h1. WaitForAvailableEntries ops 2
        (h\<lparr>h_token := h_token h + 1, commands_issued := commands_issued h + 1\<rparr>) = Some h1 \<and>
        cbs_error (command_buffer h1) \<noteq> kNoError) \<or>
    (\<exists>h'. InsertToken ops h = Some (h_token h + 1, h') \<and> h_inv h' \<and> usable h' \<and> has_ring r N h' \<and>
        h_token h' = h_token h + 1 \<and> cbs_error (command_buffer h') = kNoError \<and> \<not> passed h' (h_token h + 1) \<and>
        (\<forall>u. passed h u \<longrightarrow> u \<noteq> h_token h + 1 \<longrightarrow> passed h' u))"
proof -
  let ?t = "h_token h + 1" and ?h = "h\<lparr>h_token := h_token h + 1\<rparr>"
  have un31: "unat (h_token h) < 2 ^ 31" using t(1) by (simp only: sint_nonneg_u32_iff)
  then have "int (unat (h_token h)) < 2 ^ 31 - 1" using sint_nonneg_u32 [of "h_token h"] t(2) by simp
  then have "int (unat (h_token h) + 1) < int (2 ^ 31)" by simp
  then have un: "unat (h_token h) < 2 ^ 31" "unat (h_token h) + 1 < 2 ^ 31" using un31 by (simp, simp only: of_nat_less_iff)
  have ut: "unat ?t = unat (h_token h) + 1" using un by (subst unat_add_less) simp_all
  have st: "sint (h_token h) < sint ?t"
    using sint_less_u32(1) [of "h_token h" ?t] ut un by simp
  have "?t AND 0x7FFFFFFF = take_bit 31 ?t" by (simp add: take_bit_eq_mask mask_eq_exp_minus_1)
  also have "\<dots> = ?t"
    using un ut by (simp add: word_unat_eq_iff unsigned_take_bit_eq take_bit_nat_eq_self)
  finally have mask: "?t AND 0x7FFFFFFF = ?t" .
  have nz: "?t \<noteq> 0" using ut by (metis Suc_eq_plus1 nat.simps(3) unat_0)
  have c: "has_ring q M ?h = has_ring q M h" "unread q M ?h ts = unread q M h ts" for q M ts
    by (simp_all add: has_ring_def unread_def HaveRingBuffer_def)
  have "ring_inv (h_token h) ?h = ring_inv (h_token h) h" by (simp add: ring_inv_def c)
  then have inv': "ring_inv (h_token h) ?h" using inv by simp
  have pas: "passed ?h u = passed h u" for u by (simp add: passed_def unread_tokens_def c HaveRingBuffer_def)
  have h0: "usable ?h" "has_ring r N ?h" "unat (2 :: u32) < N" using u r c N by simp_all
  obtain h1 where h1: "WaitForAvailableEntries ops 2 (?h\<lparr>commands_issued := commands_issued ?h + 1\<rparr>) = Some h1"
    "advanced (h_token h) ?h h1"
    "cbs_error (command_buffer h1) = kNoError \<longrightarrow> roomy N (unat (2 :: u32)) h1 \<and>
       GetSpace ops 2 ?h = Some (Some (ptr_add (r, 0) (4 * unat (h_put h1))),
         h1\<lparr>h_put := of_nat ((unat (h_put h1) + unat (2 :: u32)) mod N)\<rparr>)"
    unfolding ops_def using GetSpace_ring [OF inv' h0] by blast
  show ?thesis
  proof (cases "cbs_error (command_buffer h1) = kNoError")
    case False
    with h1(1) show ?thesis by auto
  next
    case ok: True
    have r1: "has_ring r N h1" "usable h1" "h_token h1 = ?t" using h1(2) h0 by (auto simp: advanced_def)
    note b = has_ring_bounds [OF r1(1)]
    let ?p = "ptr_add (r, 0) (4 * unat (h_put h1))"
    let ?hd = "\<lparr>hdr_size = 2, hdr_command = 1\<rparr> :: CommandHeader"
    have room: "roomy N 2 h1" using h1(3) ok by simp
    have "in_bounds (shm (command_buffer h1)) (r, 0) (4 * N)" using r1(1) by (simp add: has_ring_def svc_ring_def)
    then obtain m where m: "store_entries (shm (command_buffer h1)) ?p [header_entry ?hd, ?t] = Some m"
      using store_entries_ok [of ?p "shm (command_buffer h1)" "[header_entry ?hd, ?t]"] room
      by (auto simp: in_bounds_def roomy_def)
    have toks: "entry_tokens m ?hd ?p = [?t]"
      using load32_store_entries [OF m, of 1] by (simp add: entry_tokens_def)
    have w: "ring_inv ?t (wrote N 2 m h1)" "has_ring r N (wrote N 2 m h1)"
      "\<And>us. unread_tokens (wrote N 2 m h1) us \<longleftrightarrow> (\<exists>ts. unread_tokens h1 ts \<and> us = ts @ [?t])"
      using write_command [OF advanced_inv [OF h1(2)] r1(1) ok room _ _ m, of ?t] toks st tokens_up_to_snoc
        entry_safe_SetToken [of ?hd] by auto
    obtain ts where ts: "\<forall>us. unread_tokens h1 us \<longleftrightarrow> us = ts" by (rule ring_inv_unread [OF advanced_inv [OF h1(2)] r1(1) ok])
    have cmd: "SetToken_Init ?t = Some \<lparr>st_header = ?hd, st_token = ?t\<rparr>"
      by (simp add: SetToken_Init_def SetCmd_def CommandHeader_Init_small)
    have "InsertToken ops h = Some (?t, wrote N 2 m h1)"
      unfolding InsertToken_def AllocateRingBuffer_have [OF u has_ring_bounds(5) [OF r], of ops]
      using u has_ring_bounds(5) [OF r] h1(3) ok r1(3) m cmd nz mask
      by (simp add: Let_def GetCmdSpace_def init_cmd_def SetToken_entries_def wrote_def)
    moreover have "h_inv (wrote N 2 m h1)" using w(1) r1(3) by (simp add: h_inv_def)
    moreover have "\<not> passed (wrote N 2 m h1) ?t"
      using w(3) ts r1(2) b(5) ok by (auto simp: passed_def)
    moreover have "passed (wrote N 2 m h1) v" if "passed h v" "v \<noteq> ?t" for v
    proof -
      have "passed h1 v" using that(1) h1(2) pas by (auto simp: advanced_def)
      with that(2) w(3) ok show ?thesis by (auto simp: passed_def)
    qed
    ultimately show ?thesis using w(2) r1 ok by auto
  qed
qed

subsection \<open>Finishing\<close>

lemma Finish_ring:
  assumes inv: "ring_inv T h" and u: "usable h"
  shows "\<exists>ok h'. Finish (in_process_ops d os now) h = Some (ok, h') \<and> drained T h h' \<and>
    (if ok then cp_get (command_buffer h') = h_put h' else cbs_error (command_buffer h') \<noteq> kNoError)"
proof -
  let ?ops = "in_process_ops d os now"
  obtain r N where r: "has_ring r N h" using inv by (auto simp: ring_inv_def)
  note b = has_ring_bounds [OF r] and d1 = drained_reread [OF inv]
  show ?thesis
  proof (cases "h_put h = cp_get (command_buffer h)")
    case True
    then have "Finish ?ops h = Some (True, reread h)" using u b(1) by (simp add: Finish_def)
    with True d1 show ?thesis by auto
  next
    case False
    obtain ok h2 where h2: "CBH_FlushSync ?ops (reread h) = Some (ok, h2)" "drained T (reread h) h2"
      "ok \<longleftrightarrow> cbs_error (command_buffer h2) = kNoError" "ok \<longrightarrow> cp_get (command_buffer h2) = h_put h2"
      using CBH_FlushSync_ring [OF drained_inv [OF d1]] drained_fields [OF d1] u by blast
    note d2 = drained_trans [OF inv d1 h2(2)]
    have r2: "has_ring r N h2" by (rule drained_has_ring [OF d2 r])
    have "Finish_loop ?ops (reread h) = (if ok then Some (True, reread h2) else Some (False, h2))"
      using h2(1,4) has_ring_bounds(1) [OF r2] by (subst Finish_loop.simps) simp
    then have "Finish ?ops h = (if ok then Some (True, reread h2) else Some (False, h2))"
      using False u b(1,5) by (simp add: Finish_def)
    with h2 d2 drained_trans [OF inv d2 drained_reread [OF drained_inv [OF d2]]] show ?thesis by auto
  qed
qed

subsection \<open>Setting up\<close>

text \<open>
  What \<open>GLManager::Initialize\<close> creates before the helper: the transfer buffer manager of the context group, the decoder, the command
  buffer service and the scheduler, which becomes the decoder's engine; \<open>w\<close> holds the static counter of buffer ids and the memory.
\<close>

definition GLManager_Initialize :: "'a GpuScheduler_scheme \<Rightarrow> 'a GpuScheduler_scheme" where
  "GLManager_Initialize w =
     (GpuScheduler_new (CommandBufferService_new (CommonDecoder_new (TransferBufferManager_new w))))\<lparr>engine_set := True\<rparr>"

lemma SetBuffer_ok:
  assumes "unat sz mod 4 = 0"
  shows "SetBuffer (r, 0) sz 0 sz w =
    Some (w\<lparr>cp_get := 0, cp_put := 0, cp_buffer := Some (r, 0), cp_entry_count := ucast (sz div 4)\<rparr>)"
proof -
  have "sz mod 4 = 0" using assms by (simp add: word_unat_eq_iff unat_mod)
  then show ?thesis by (simp add: SetBuffer_def)
qed

lemma Initialize_ring:
  fixes w0 :: "'a GpuScheduler_scheme" and d os now
  defines "w \<equiv> GLManager_Initialize w0"
  assumes sz: "8 \<le> unat sz" "unat sz mod 4 = 0" "unat sz \<le> 0x7FFFFFFF" and os: "os w = (True, True, True)"
    and id: "0 < sint (next_id w0)"
  shows "\<exists>h. CBH_Initialize (in_process_ops d os now) sz (CommandBufferHelper_new w) = Some (True, h) \<and>
    has_ring (length (shm w0)) (unat sz div 4) h \<and> h_inv h \<and> usable h \<and> h_token h = 0 \<and>
    cbs_error (command_buffer h) = kNoError \<and> unread_tokens h []"
proof -
  let ?z = "scast sz :: u64" and ?r = "length (shm w0)" and ?N = "unat sz div 4"
  let ?buf = "\<lparr>buf_ptr = Some (?r, 0), buf_size = ?z, buf_shared_memory = Some ?r\<rparr>"
  have uz: "unat ?z = unat sz"
  proof -
    have "unat sz < 2 ^ 31" using sz(3) by simp
    then have "sint sz = uint sz" using sint_nonneg_u32 [of sz] by simp
    then have "(scast sz :: u64) = ucast sz" by (simp only: scast_eq ucast_eq)
    then show ?thesis by (simp only: unat_ucast_u64)
  qed
  have zne: "?z \<noteq> 0" "\<not> 0x7FFFFFFF < ?z" using uz sz by (auto simp: word_less_nat_alt)
  have bid: "next_id w0 \<noteq> 0" "next_id w0 \<noteq> - 1" "\<not> sint (next_id w0) \<le> 0" "\<not> sint (next_id w0) < 0" using id by auto
  have wfields: "shm w = shm w0" "next_id w = next_id w0" "registered_buffers w = []" "shared_memory_bytes_allocated w = 0"
    "ring_buffer_id w = - 1" "put_offset w = 0" "get_offset w = 0" "has_parser w = False" "shared_state w = None"
    "cbs_error w = kNoError" "cbs_token w = 0" "unscheduled_count w = 0" "unschedule_fences w = []" "preemption_flag w = None"
    "engine_set w" "buckets w = Map.empty"
    by (simp_all add: w_def GLManager_Initialize_def GpuScheduler_new_def CommonDecoder_new_def CommandBufferService_new_def
        TransferBufferManager_new_def)
  define w1 where "w1 = w\<lparr>shm := shm w0 @ [replicate (unat sz) 0], next_id := next_id w0 + 1,
     shared_memory_bytes_allocated := ?z, registered_buffers := [(next_id w0, ?buf)]\<rparr>"
  have c: "CreateTransferBuffer (os w) ?z w = ((?buf, next_id w0), w1)"
    using zne uz bid wfields
    by (simp add: os CreateTransferBuffer_def SharedMemory_CreateAnonymous_def SharedMemory_Map_def RegisterTransferBuffer_def
        GetTransferBuffer_def Let_def w1_def not_less)
  have n4: "unat (ucast (?z div 4) :: u32) = ?N"
  proof -
    have "unat (?z div 4) = ?N" by (simp add: unat_div uz)
    moreover have "?N < 2 ^ 32" using sz(3) by simp
    ultimately show ?thesis by (simp add: unsigned_ucast_eq take_bit_nat_eq_self)
  qed
  let ?n = "ucast (?z div 4) :: u32"
  have N: "2 \<le> ?N" "?N \<le> 2 ^ 29" using sz by (simp_all add: div_le_mono)
  define w2 where "w2 = w1\<lparr>ring_buffer := ?buf, ring_buffer_id := next_id w0, num_entries := ?n, put_offset := 0,
     get_offset := 0, cp_get := 0, cp_put := 0, cp_buffer := Some (?r, 0), cp_entry_count := ?n, has_parser := True\<rparr>"
  have sn: "0 < sint ?n" using sint_nonneg_u32 [of ?n] n4 N by simp
  have g: "GetTransferBuffer (next_id w0) w1 = ?buf" using bid by (simp add: GetTransferBuffer_def w1_def)
  have s: "CBS_SetGetBuffer (Some GetBufferChanged) (next_id w0) w1 = Some w2"
    using sn sz(2) wfields bid
    by (simp add: CBS_SetGetBuffer_def CBS_SetGetOffset_def GetBufferChanged_def sched_SetGetBuffer_def sched_SetGetOffset_def set_get_def
        CommandParser_new_def CBS_UpdateState_def GetTransferBuffer_def SetBuffer_ok uz Let_def w1_def w2_def)
  define h where "h = (CommandBufferHelper_new w)\<lparr>command_buffer := bumped w2, h_ring_buffer_size := sz,
     h_ring_buffer := ?buf, h_ring_buffer_id := next_id w0, entries := Some (?r, 0), total_entry_count := ?n, h_put := 0\<rparr>"
  have init: "CBH_Initialize (in_process_ops d os now) sz (CommandBufferHelper_new w) = Some (True, h)"
    using c s bid
    by (simp add: CBH_Initialize_def AllocateRingBuffer_def CommandBufferHelper_new_def HaveRingBuffer_def GetState_eq Let_def
        h_def w2_def ClearUsable_def)
  have bufs: "registered_buffers w2 = [(next_id w0, ?buf)]" "shm w2 = shm w0 @ [replicate (unat sz) 0]"
    "shared_memory_bytes_allocated w2 = ?z" "engine_set w2" "buckets w2 = Map.empty"
    by (simp_all add: w2_def w1_def wfields)
  have "tbm_wf w2"
    unfolding tbm_wf_def
  proof (intro conjI)
    have "total_size (registered_buffers w2) = unat sz" by (simp add: bufs uz)
    moreover have "of_nat (unat sz) = ?z" by (metis uz of_nat_unat ucast_id)
    moreover have "unat sz < 2 ^ 64" using sz(3) by simp
    ultimately show "total_size (registered_buffers w2) < 2 ^ 64"
      "shared_memory_bytes_allocated w2 = of_nat (total_size (registered_buffers w2))" by (simp_all only: bufs(3))
  qed (use id uz in \<open>simp_all add: bufs buffer_ok_def\<close>)
  then have "dec_wf w2" by (simp add: dec_wf_def bufs)
  moreover have "avoids_region ?r w2 i" if "i \<noteq> next_id w0" for i
    using that by (simp add: avoids_region_def GetTransferBuffer_def bufs Buffer_new_def)
  moreover have "in_bounds (shm w2) (?r, 0) (4 * ?N)" using sz(2) by (simp add: in_bounds_def bufs)
  ultimately have "svc_ring ?r ?N (next_id w0) w2"
    using N n4 by (simp add: svc_ring_def w2_def w1_def wfields)
  then have ring: "has_ring ?r ?N h"
    using svc_ring_bumped n4 N bid by (simp add: has_ring_def h_def HaveRingBuffer_def)
  have cb: "cp_get (command_buffer h) = 0" "h_put h = 0" "cbs_error (command_buffer h) = kNoError"
    "cbs_token (command_buffer h) = 0" "h_token h = 0" "usable h"
    by (simp_all add: h_def w2_def w1_def wfields CommandBufferHelper_new_def)
  have un: "unread ?r ?N h []" using N by (simp add: unread_def cb ring_dist_def)
  have "ring_inv 0 h" by (rule ring_invI [OF ring]) (use un in \<open>auto simp: cb tokens_up_to_def\<close>)
  with init ring cb un unread_tokens_iff [OF ring] show ?thesis by (auto simp: h_inv_def)
qed

end
