(* ===== verification/Client_Session.thy ===== *)
theory Client_Session
  imports Client_Commands
begin

text \<open>
  What a client sees of the whole chain (\<open>CommandBufferHelper\<close>, \<open>CommandBufferService\<close>, \<open>GpuScheduler\<close>,
  \<open>CommandParser\<close>, \<open>CommonDecoder\<close>) in one process: sessions of calls on the helper that return, waits for tokens,
  flushes, space for commands, and what happens to that space once the service has failed.
\<close>

subsection \<open>The other commands\<close>

lemma load_args_nth: "load_args m p n = Some f \<Longrightarrow> i < n \<Longrightarrow> load32 m (ptr_add p (4 * i)) = Some (f i)"
  by (induction n arbitrary: f) (auto simp: less_Suc_eq elim!: bind_SomeE)

text \<open>The entries that were stored are the arguments the decoder reads.\<close>

lemma stored_args:
  assumes "store_entries m p es = Some m'" "load_args m' p (length es) = Some f" "i < length es"
  shows "f i = es ! i"
  using load_args_nth [OF assms(2,3)] load32_store_entries [OF assms(1,3)] by simp

text \<open>The ways in which the service can fail while the client waits for space.\<close>

definition space_fails ::
  "'a GpuScheduler_scheme CommandBufferOps \<Rightarrow> u32 \<Rightarrow> 'a GpuScheduler_scheme CommandBufferHelper \<Rightarrow> bool" where
  "space_fails ops n h \<longleftrightarrow>
     (case WaitForAvailableEntries ops n (h\<lparr>commands_issued := commands_issued h + 1\<rparr>) of
        None \<Rightarrow> False
      | Some h' \<Rightarrow> cbs_error (command_buffer h') \<noteq> kNoError)"

text \<open>Putting a command of fixed size: its space, then its entries.\<close>

lemma put_command_ring:
  fixes h :: "'a GpuScheduler_scheme CommandBufferHelper" and d os now
  defines "ops \<equiv> in_process_ops d os now"
  assumes inv: "ring_inv T h" and u: "usable h" and r: "has_ring r N h" and n: "unat n < N" "unat n = Suc (length es)"
    and cmd: "ucast (hdr_command h0) = cmd_id c" "c \<noteq> kSetToken" "unat (hdr_size h0) = unat n"
    and safe: "\<And>f. \<forall>i < unat n. f i = (header_entry h0 # es) ! i \<Longrightarrow> h_ring_buffer_id h \<notin> write_ids c f"
    and ok: "\<not> space_fails ops n h"
  shows "\<exists>h'. (do { (cmd, h) \<leftarrow> GetSpace ops n h; init_cmd cmd (Some (header_entry h0 # es)) h }) = Some h' \<and>
    advanced T h h' \<and> cbs_error (command_buffer h') = kNoError"
proof -
  obtain h1 where h1: "WaitForAvailableEntries ops n (h\<lparr>commands_issued := commands_issued h + 1\<rparr>) = Some h1"
    "advanced T h h1"
    "cbs_error (command_buffer h1) = kNoError \<longrightarrow> roomy N (unat n) h1 \<and>
       GetSpace ops n h = Some (Some (ptr_add (r, 0) (4 * unat (h_put h1))),
         h1\<lparr>h_put := of_nat ((unat (h_put h1) + unat n) mod N)\<rparr>)"
    unfolding ops_def using GetSpace_ring [OF inv u r n(1)] by blast
  have no: "cbs_error (command_buffer h1) = kNoError" using ok h1(1) by (auto simp: space_fails_def)
  have r1: "has_ring r N h1" "h_ring_buffer_id h1 = h_ring_buffer_id h" using h1(2) r by (auto simp: advanced_def)
  have room: "roomy N (unat n) h1" using h1(3) no by simp
  let ?p = "ptr_add (r, 0) (4 * unat (h_put h1))"
  have "in_bounds (shm (command_buffer h1)) (r, 0) (4 * N)" using r1(1) by (simp add: has_ring_def svc_ring_def)
  then obtain m where m: "store_entries (shm (command_buffer h1)) ?p (header_entry h0 # es) = Some m"
    using store_entries_ok [of ?p "shm (command_buffer h1)" "header_entry h0 # es"] room n(2)
    by (fastforce simp: in_bounds_def roomy_def)
  have "entry_safe m (h_ring_buffer_id h1) h0 ?p"
    unfolding entry_safe_def
  proof (intro allI impI)
    fix c' f
    assume a: "cmd_id c' = ucast (hdr_command h0)" "load_args m ?p (unat (hdr_size h0)) = Some f"
    have "c' = c" using a(1) cmd(1) by (intro cmd_id_inj) simp
    moreover have "\<forall>i < unat n. f i = (header_entry h0 # es) ! i"
      using stored_args [OF m] a(2) cmd(3) n(2) by simp
    ultimately show "h_ring_buffer_id h1 \<notin> write_ids c' f" using safe r1(2) by simp
  qed
  moreover have toks: "entry_tokens m h0 ?p = []"
  proof -
    have "cmd_id c \<noteq> cmd_id kSetToken" using cmd(2) cmd_id_inj by blast
    then show ?thesis using cmd(1) by (simp add: entry_tokens_def)
  qed
  ultimately have w: "ring_inv T (wrote N (unat n) m h1)" "has_ring r N (wrote N (unat n) m h1)"
    "\<And>us. unread_tokens (wrote N (unat n) m h1) us \<longleftrightarrow> unread_tokens h1 us"
    using write_command [OF advanced_inv [OF h1(2)] r1(1) no room _ _ m, of T] cmd(3) n(2) by auto
  have "passed (wrote N (unat n) m h1) t" if "passed h1 t" for t
    using that by (simp add: passed_def w(3))
  moreover have "h_ring_buffer_id (wrote N (unat n) m h1) = h_ring_buffer_id h1" by (simp add: wrote_def)
  moreover have "has_ring q M (wrote N (unat n) m h1)" if "has_ring q M h1" for q M
    using has_ring_unique [OF r1(1) that] w(2) by simp
  ultimately have "advanced T h1 (wrote N (unat n) m h1)" using w(1) by (simp add: advanced_def)
  moreover have "(do { (cmd, h) \<leftarrow> GetSpace ops n h; init_cmd cmd (Some (header_entry h0 # es)) h }) =
      Some (wrote N (unat n) m h1)"
    using h1(3) no m by (simp add: init_cmd_def wrote_def del: store_entries.simps)
  ultimately show ?thesis using advanced_trans [OF h1(2)] no by auto
qed

text \<open>The calls of a client, with the commands whose size is fixed.\<close>

datatype ClientCall =
    Call_InsertToken
  | Call_WaitForToken u32
  | Call_Flush
  | Call_Finish
  | Call_SetBucketSize u32 u32
  | Call_SetBucketData u32 u32 u32 u32 u32
  | Call_GetBucketStart u32 u32 u32 u32 u32 u32
  | Call_GetBucketData u32 u32 u32 u32 u32

fun client_call ::
  "'a Memory_scheme CommandBufferOps \<Rightarrow> ClientCall \<Rightarrow> 'a Memory_scheme CommandBufferHelper \<Rightarrow>
     'a Memory_scheme CommandBufferHelper option" where
  "client_call ops Call_InsertToken h = map_option snd (InsertToken ops h)"
| "client_call ops (Call_WaitForToken t) h = WaitForToken ops t h"
| "client_call ops Call_Flush h = CBH_Flush ops h"
| "client_call ops Call_Finish h = map_option snd (Finish ops h)"
| "client_call ops (Call_SetBucketSize i sz) h = CBH_SetBucketSize ops i sz h"
| "client_call ops (Call_SetBucketData i off sz sid soff) h = CBH_SetBucketData ops i off sz sid soff h"
| "client_call ops (Call_GetBucketStart i rid roff dsz did doff) h = CBH_GetBucketStart ops i rid roff dsz did doff h"
| "client_call ops (Call_GetBucketData i off sz sid soff) h = CBH_GetBucketData ops i off sz sid soff h"

text \<open>
  A client must not ask the service to write into the ring itself, and its tokens are below the wrap-around.
  \<open>call_space\<close> is the number of entries the call asks for.
\<close>

fun call_ok :: "ClientCall \<Rightarrow> 's CommandBufferHelper \<Rightarrow> bool" where
  "call_ok Call_InsertToken h \<longleftrightarrow> 0 \<le> sint (h_token h) \<and> sint (h_token h) < 2 ^ 31 - 1"
| "call_ok (Call_GetBucketStart i rid roff dsz did doff) h \<longleftrightarrow> rid \<noteq> h_ring_buffer_id h \<and> did \<noteq> h_ring_buffer_id h"
| "call_ok (Call_GetBucketData i off sz sid soff) h \<longleftrightarrow> sid \<noteq> h_ring_buffer_id h"
| "call_ok _ h \<longleftrightarrow> True"

fun call_space :: "ClientCall \<Rightarrow> u32" where
  "call_space Call_InsertToken = 2"
| "call_space (Call_SetBucketSize i sz) = 3"
| "call_space (Call_SetBucketData i off sz sid soff) = 6"
| "call_space (Call_GetBucketStart i rid roff dsz did doff) = 7"
| "call_space (Call_GetBucketData i off sz sid soff) = 6"
| "call_space _ = 0"

lemma drained_h_inv: "drained (h_token h) h h' \<Longrightarrow> h_inv h'"
  using drained_inv [of "h_token h" h h'] drained_fields(4) [of "h_token h" h h'] by (simp add: h_inv_def)

lemma advanced_h_inv: "advanced (h_token h) h h' \<Longrightarrow> h_inv h'"
  by (simp add: advanced_def h_inv_def)

lemma cmd_headers:
  "SetBucketSize_Init i sz = Some \<lparr>sbs_header = \<lparr>hdr_size = 3, hdr_command = 2\<rparr>, sbs_bucket_id = i, sbs_size = sz\<rparr>"
  "SetBucketData_Init i off sz sid soff = Some \<lparr>sbd_header = \<lparr>hdr_size = 6, hdr_command = 3\<rparr>, sbd_bucket_id = i,
     sbd_offset = off, sbd_size = sz, sbd_shared_memory_id = sid, sbd_shared_memory_offset = soff\<rparr>"
  "GetBucketStart_Init i rid roff dsz did doff = Some \<lparr>gbs_header = \<lparr>hdr_size = 7, hdr_command = 5\<rparr>, gbs_bucket_id = i,
     gbs_result_memory_id = rid, gbs_result_memory_offset = roff, gbs_data_memory_size = dsz, gbs_data_memory_id = did,
     gbs_data_memory_offset = doff\<rparr>"
  "GetBucketData_Init i off sz sid soff = Some \<lparr>gbd_header = \<lparr>hdr_size = 6, hdr_command = 6\<rparr>, gbd_bucket_id = i,
     gbd_offset = off, gbd_size = sz, gbd_shared_memory_id = sid, gbd_shared_memory_offset = soff\<rparr>"
  by (simp_all add: SetBucketSize_Init_def SetBucketData_Init_def GetBucketStart_Init_def GetBucketData_Init_def SetCmd_def
      CommandHeader_Init_small)


text \<open>The state in which the call asks for its space.\<close>

fun call_prepared :: "ClientCall \<Rightarrow> 's CommandBufferHelper \<Rightarrow> 's CommandBufferHelper" where
  "call_prepared Call_InsertToken h = h\<lparr>h_token := h_token h + 1\<rparr>"
| "call_prepared _ h = h"

lemma client_call_ring:
  fixes h :: "'a GpuScheduler_scheme CommandBufferHelper" and d os now
  defines "ops \<equiv> in_process_ops d os now"
  assumes inv: "h_inv h" and u: "usable h" and r: "has_ring r N h" and N: "7 < N" and ok: "call_ok c h"
    and sp: "\<not> space_fails ops (call_space c) (call_prepared c h)" and ne: "cbs_error (command_buffer h) = kNoError"
  shows "\<exists>h'. client_call ops c h = Some h' \<and> h_inv h' \<and> usable h' \<and> has_ring r N h' \<and>
    (\<forall>t. passed h t \<longrightarrow> t = h_token h + 1 \<or> passed h' t)"
proof -
  have ri: "ring_inv (h_token h) h" using inv u has_ring_bounds(5) [OF r] by (simp add: h_inv_def)
  have adv: ?thesis if "client_call ops c h = Some h'" "advanced (h_token h) h h'" for h'
    using that advanced_h_inv [OF that(2)] u r by (auto simp: advanced_def)
  have put: "\<exists>h'. (do { (cmd, h) \<leftarrow> GetSpace ops n h; init_cmd cmd (Some (header_entry h0 # es)) h }) = Some h' \<and>
      advanced (h_token h) h h'"
    if "unat n < N" "unat n = Suc (length es)" "ucast (hdr_command h0) = cmd_id k" "k \<noteq> kSetToken"
      "unat (hdr_size h0) = unat n" "\<not> space_fails ops n h"
      "\<And>f. \<forall>i < unat n. f i = (header_entry h0 # es) ! i \<Longrightarrow> h_ring_buffer_id h \<notin> write_ids k f" for n h0 es k
    using put_command_ring [OF ri u r that(1,2,3,4,5,7)] that(6) unfolding ops_def by blast
  show ?thesis
  proof (cases c)
    case Call_InsertToken
    have "\<not> (\<exists>h1. WaitForAvailableEntries ops 2 (h\<lparr>h_token := h_token h + 1, commands_issued := commands_issued h + 1\<rparr>) = Some h1 \<and>
        cbs_error (command_buffer h1) \<noteq> kNoError)"
      using sp Call_InsertToken by (auto simp: space_fails_def)
    then show ?thesis
      using InsertToken_ring [OF ri u r, of d os now] N ok unfolding ops_def Call_InsertToken by auto
  next
    case (Call_WaitForToken t)
    obtain h' where "WaitForToken ops t h = Some h'" "drained (h_token h) h h'"
      using WaitForToken_ring [OF inv, of d os now t] u has_ring_bounds(5) [OF r] unfolding ops_def by blast
    with adv [of h'] drained_advanced [of "h_token h" h h'] Call_WaitForToken show ?thesis by simp
  next
    case Call_Flush
    obtain h' where "CBH_Flush ops h = Some h'" "drained (h_token h) h h'"
      using CBH_Flush_ring [OF ri, of d os now] unfolding ops_def by blast
    with adv [of h'] drained_advanced [of "h_token h" h h'] Call_Flush show ?thesis by simp
  next
    case Call_Finish
    obtain b h' where "Finish ops h = Some (b, h')" "drained (h_token h) h h'"
      using Finish_ring [OF ri u, of d os now] unfolding ops_def by blast
    with adv [of h'] drained_advanced [of "h_token h" h h'] Call_Finish show ?thesis by simp
  next
    case (Call_SetBucketSize i sz)
    with sp N put [of 3 "[i, sz]" "\<lparr>hdr_size = 3, hdr_command = 2\<rparr>" kSetBucketSize] adv show ?thesis
      by (auto simp: CBH_SetBucketSize_def GetCmdSpace_def cmd_headers SetBucketSize_entries_def)
  next
    case (Call_SetBucketData i off sz sid soff)
    with sp N put [of 6 "[i, off, sz, sid, soff]" "\<lparr>hdr_size = 6, hdr_command = 3\<rparr>" kSetBucketData] adv show ?thesis
      by (auto simp: CBH_SetBucketData_def GetCmdSpace_def cmd_headers SetBucketData_entries_def)
  next
    case (Call_GetBucketStart i rid roff dsz did doff)
    with sp N ok put [of 7 "[i, rid, roff, dsz, did, doff]" "\<lparr>hdr_size = 7, hdr_command = 5\<rparr>" kGetBucketStart] adv show ?thesis
      by (auto simp: CBH_GetBucketStart_def GetCmdSpace_def cmd_headers GetBucketStart_entries_def GetBucketStart_at_def)
  next
    case (Call_GetBucketData i off sz sid soff)
    with sp N ok put [of 6 "[i, off, sz, sid, soff]" "\<lparr>hdr_size = 6, hdr_command = 6\<rparr>" kGetBucketData] adv show ?thesis
      by (auto simp: CBH_GetBucketData_def GetCmdSpace_def cmd_headers GetBucketData_entries_def GetBucketData_at_def)
  qed
qed

text \<open>
  A session: calls in any order, up to the first one during which the service reports an error (after which a client
  has to give up the context); a call that is not allowed is left out.
\<close>

fun client_run ::
  "'a GpuScheduler_scheme CommandBufferOps \<Rightarrow> ClientCall list \<Rightarrow> 'a GpuScheduler_scheme CommandBufferHelper \<Rightarrow>
     'a GpuScheduler_scheme CommandBufferHelper option" where
  "client_run ops [] h = Some h"
| "client_run ops (c # cs) h =
     (if cbs_error (command_buffer h) \<noteq> kNoError \<or> space_fails ops (call_space c) (call_prepared c h) then Some h
      else if \<not> call_ok c h then client_run ops cs h
      else client_call ops c h \<bind> client_run ops cs)"

lemma client_run_ring:
  assumes "h_inv h" "usable h" "has_ring r N h" "7 < N"
  shows "\<exists>h'. client_run (in_process_ops d os now) cs h = Some h' \<and> h_inv h' \<and> usable h' \<and> has_ring r N h'"
  using assms
proof (induction cs arbitrary: h)
  case (Cons c cs)
  show ?case
  proof (cases "cbs_error (command_buffer h) = kNoError \<and> call_ok c h \<and>
      \<not> space_fails (in_process_ops d os now) (call_space c) (call_prepared c h)")
    case True
    then obtain h' where "client_call (in_process_ops d os now) c h = Some h'" "h_inv h'" "usable h'" "has_ring r N h'"
      using client_call_ring [OF Cons.prems] by blast
    with True Cons.IH [of h'] Cons.prems(4) show ?thesis by auto
  qed (use Cons in auto)
qed auto

subsection \<open>Properties\<close>

text \<open>A concrete system for the examples: a ring of 16 entries, and a decoder that never loses its context.\<close>

definition demo_decoder :: "GpuScheduler GLES2Decoder" where
  "demo_decoder = \<lparr>WasContextLost = (\<lambda>_. False), GetContextLostReason = (\<lambda>_. kUnknown),
     ProcessPendingQueries = (\<lambda>w. (False, w)), decoder_HasMoreIdleWork = (\<lambda>_. False), decoder_PerformIdleWork = Some\<rparr>"

definition demo_world :: GpuScheduler where
  "demo_world =
     \<lparr>shm = [], cp_get = 0, cp_put = 0, cp_buffer = None, cp_entry_count = 0, registered_buffers = [],
      shared_memory_bytes_allocated = 0, ring_buffer_id = 0, ring_buffer = Buffer_new, shared_state = None, num_entries = 0,
      get_offset = 0, put_offset = 0, cbs_token = 0, cbs_generation = 0, cbs_error = kNoError,
      cbs_context_lost_reason = kUnknown, next_id = 1, engine_set = False, buckets = Map.empty, has_parser = False,
      unscheduled_count = 0, rescheduled_count = 0, unschedule_fences = [], preemption_flag = None, was_preempted = False\<rparr>"

abbreviation demo_ops :: "GpuScheduler CommandBufferOps" where
  "demo_ops \<equiv> in_process_ops demo_decoder (\<lambda>_. (True, True, True)) (\<lambda>_. 0)"

lemma demo_helper:
  obtains h where "CBH_Initialize demo_ops 64 (CommandBufferHelper_new (GLManager_Initialize demo_world)) = Some (True, h)"
    "has_ring 0 16 h" "h_inv h" "usable h" "h_token h = 0" "cbs_error (command_buffer h) = kNoError"
    "unread_tokens h []"
  using Initialize_ring [of 64 "\<lambda>_. (True, True, True)" demo_world demo_decoder "\<lambda>_. 0"]
  by (auto simp: demo_world_def)

lemma demo_space:
  "map_option (\<lambda>(b, h). space_fails demo_ops 2 (h\<lparr>h_token := h_token h + 1\<rparr>))
     (CBH_Initialize demo_ops 64 (CommandBufferHelper_new (GLManager_Initialize demo_world))) = Some False"
  "map_option (\<lambda>(b, h). space_fails demo_ops 15 h)
     (CBH_Initialize demo_ops 64 (CommandBufferHelper_new (GLManager_Initialize demo_world))) = Some False"
  by code_simp+

lemma demo_get:
  "map_option (\<lambda>(b, h). get_offset (command_buffer h))
     (CBH_Initialize demo_ops 64 (CommandBufferHelper_new (GLManager_Initialize demo_world))) = Some 0"
  by code_simp

text \<open>
  C1. A client session never gets stuck: once the helper has set up a ring on a service in the same process, any
  sequence of insertions of tokens, waits for tokens, flushes, finishes and bucket commands that do not address
  the ring itself returns, call by call, up to the first call during which the service reports an error. No check
  of the helper, of the service, of the scheduler, of the parser or of the decoder fails, no loop runs forever, and
  no wait finds an empty ring.
\<close>

theorem client_session_returns:
  assumes "32 \<le> unat sz" "unat sz mod 4 = 0" "unat sz \<le> 0x7FFFFFFF" "0 < sint (next_id w)"
    and "os (GLManager_Initialize w) = (True, True, True)"
  shows "\<exists>h h'. CBH_Initialize (in_process_ops d os now) sz (CommandBufferHelper_new (GLManager_Initialize w)) = Some (True, h) \<and>
    client_run (in_process_ops d os now) calls h = Some h' \<and> h_inv h'"
proof -
  obtain h where h: "CBH_Initialize (in_process_ops d os now) sz (CommandBufferHelper_new (GLManager_Initialize w)) = Some (True, h)"
    "has_ring (length (shm w)) (unat sz div 4) h" "h_inv h" "usable h"
    using Initialize_ring [of sz os w d now] assms by auto
  have "7 < unat sz div 4" using assms(1,2) by linarith
  with client_run_ring [OF h(3,4,2)] h(1) show ?thesis by blast
qed

theorem client_session_returns_witness:
  "\<exists>h h'. CBH_Initialize demo_ops 64 (CommandBufferHelper_new (GLManager_Initialize demo_world)) = Some (True, h) \<and>
    client_run demo_ops [Call_InsertToken, Call_SetBucketSize 1 20, Call_InsertToken, Call_WaitForToken 2,
      Call_GetBucketData 1 0 20 5 0, Call_Finish] h = Some h' \<and> h_inv h'"
  by (rule client_session_returns) (simp_all add: demo_world_def)

text \<open>
  C6. Waiting for a token returns, and afterwards the token has been passed: the service has no error-free command left
  to execute that was written before the token. Tokens that had been passed stay passed.
\<close>

theorem WaitForToken_returns:
  assumes "h_inv h"
  shows "\<exists>h'. WaitForToken (in_process_ops d os now) t h = Some h' \<and> h_inv h' \<and> passed h' t \<and>
    (\<forall>u. passed h u \<longrightarrow> passed h' u)"
  using WaitForToken_ring [OF assms] by blast

theorem WaitForToken_returns_witness:
  "\<exists>h h'. CBH_Initialize demo_ops 64 (CommandBufferHelper_new (GLManager_Initialize demo_world)) = Some (True, h) \<and>
     WaitForToken demo_ops 0 h = Some h' \<and> passed h' 0"
proof -
  obtain h where h: "CBH_Initialize demo_ops 64 (CommandBufferHelper_new (GLManager_Initialize demo_world)) = Some (True, h)"
    "h_inv h" by (rule demo_helper)
  with WaitForToken_returns [OF h(2)] show ?thesis by blast
qed

text \<open>
  C11. A synchronous flush executes all that was written: unless it reports an error, the service's \<open>get\<close> has reached
  the client's \<open>put_\<close>, nothing is left unread and the token read last is the one inserted last.
\<close>

theorem FlushSync_executes_everything:
  assumes "h_inv h" "usable h" "HaveRingBuffer h"
  shows "\<exists>ok h'. CBH_FlushSync (in_process_ops d os now) h = Some (ok, h') \<and> h_inv h' \<and>
    (ok \<longleftrightarrow> cbs_error (command_buffer h') = kNoError) \<and>
    (ok \<longrightarrow> get_offset (command_buffer h') = h_put h' \<and> unread_tokens h' [] \<and> cbs_token (command_buffer h') = h_token h')"
proof -
  have inv: "ring_inv (h_token h) h" using assms by (simp add: h_inv_def)
  obtain ok h' where h': "CBH_FlushSync (in_process_ops d os now) h = Some (ok, h')" "drained (h_token h) h h'"
    "ok \<longleftrightarrow> cbs_error (command_buffer h') = kNoError" "ok \<longrightarrow> cp_get (command_buffer h') = h_put h'"
    using CBH_FlushSync_ring [OF inv assms(2)] by blast
  obtain r N where r: "has_ring r N h'" using drained_inv [OF h'(2)] by (auto simp: ring_inv_def)
  have "get_offset (command_buffer h') = h_put h' \<and> unread_tokens h' [] \<and> cbs_token (command_buffer h') = h_token h'" if k: ok
  proof -
    have ne: "cbs_error (command_buffer h') = kNoError" using k h'(3) by simp
    obtain ts where ts: "unread r N h' ts" "tokens_up_to (cbs_token (command_buffer h')) ts (h_token h)"
        "\<forall>us. unread_tokens h' us \<longleftrightarrow> us = ts"
      by (rule ring_inv_unread [OF drained_inv [OF h'(2)] r ne])
    have "ring_dist N (unat (cp_get (command_buffer h'))) (unat (h_put h')) = 0"
      using k h'(4) has_ring_bounds(2,3) [OF r] by (subst ring_dist_props(3)) auto
    then have "ts = []" using ts(1) by (simp add: unread_def)
    with ts k h'(4) has_ring_bounds(1) [OF r] drained_fields(4) [OF h'(2)] tokens_up_to_bounds(4) [OF ts(2)]
    show ?thesis by simp
  qed
  with h' drained_h_inv [OF h'(2)] show ?thesis by blast
qed

theorem FlushSync_executes_everything_witness:
  "\<exists>h ok h'. CBH_Initialize demo_ops 64 (CommandBufferHelper_new (GLManager_Initialize demo_world)) = Some (True, h) \<and>
     CBH_FlushSync demo_ops h = Some (ok, h') \<and> (ok \<longleftrightarrow> cbs_error (command_buffer h') = kNoError)"
proof -
  obtain h where h: "CBH_Initialize demo_ops 64 (CommandBufferHelper_new (GLManager_Initialize demo_world)) = Some (True, h)"
    "has_ring 0 16 h" "h_inv h" "usable h" by (rule demo_helper)
  with FlushSync_executes_everything [OF h(3,4) has_ring_bounds(5) [OF h(2)]] show ?thesis by blast
qed

text \<open>
  C18. \<open>InsertToken\<close>, unless the service fails while space is made for the command, returns the successor of the last token;
  the new token is not passed yet, all tokens passed before stay passed.
\<close>

theorem InsertToken_not_passed_yet:
  assumes "h_inv h" "usable h" "has_ring r N h" "2 < N" "cbs_error (command_buffer h) = kNoError"
    and "0 \<le> sint (h_token h)" "sint (h_token h) < 2 ^ 31 - 1"
    and "\<not> space_fails (in_process_ops d os now) 2 (h\<lparr>h_token := h_token h + 1\<rparr>)"
  shows "\<exists>h'. InsertToken (in_process_ops d os now) h = Some (h_token h + 1, h') \<and> h_inv h' \<and>
    h_token h' = h_token h + 1 \<and> \<not> passed h' (h_token h + 1) \<and>
    (\<forall>u. passed h u \<longrightarrow> u \<noteq> h_token h + 1 \<longrightarrow> passed h' u)"
proof -
  have ri: "ring_inv (h_token h) h" using assms(1,2) has_ring_bounds(5) [OF assms(3)] by (simp add: h_inv_def)
  from InsertToken_ring [OF ri assms(2,3,4,6,7), of d os now] assms(8) show ?thesis
    unfolding space_fails_def by (auto split: option.splits)
qed

theorem InsertToken_not_passed_yet_witness:
  "\<exists>h h'. CBH_Initialize demo_ops 64 (CommandBufferHelper_new (GLManager_Initialize demo_world)) = Some (True, h) \<and>
     InsertToken demo_ops h = Some (1, h') \<and> h_inv h' \<and> \<not> passed h' 1"
proof -
  obtain h where h: "CBH_Initialize demo_ops 64 (CommandBufferHelper_new (GLManager_Initialize demo_world)) = Some (True, h)"
    "has_ring 0 16 h" "h_inv h" "usable h" "h_token h = 0" "cbs_error (command_buffer h) = kNoError" by (rule demo_helper)
  have "\<not> space_fails demo_ops 2 (h\<lparr>h_token := h_token h + 1\<rparr>)" using demo_space(1) h(1) by simp
  with InsertToken_not_passed_yet [of h 0 16 demo_decoder] h show ?thesis by fastforce
qed

text \<open>
  C7. The space that \<open>GetSpace\<close> hands out is free: unless the service fails while the client waits, the call returns the address of \<open>n\<close>
  consecutive entries of the ring, none of which the service has still to read (from its \<open>get\<close> to the old \<open>put_\<close> there are
  \<open>used\<close> entries, and \<open>used + n\<close> stays below the size of the ring).
\<close>

theorem GetSpace_is_free:
  assumes "h_inv h" "usable h" "has_ring r N h" "unat n < N" "\<not> space_fails (in_process_ops d os now) n h"
  shows "\<exists>p h'. GetSpace (in_process_ops d os now) n h = Some (Some (ptr_add (r, 0) (4 * p)), h') \<and>
    p + unat n \<le> N \<and> in_bounds (shm (command_buffer h')) (ptr_add (r, 0) (4 * p)) (4 * unat n) \<and>
    unat (h_put h') = (p + unat n) mod N \<and>
    (let get = unat (get_offset (command_buffer h')); used = ring_dist N get p in
       used + unat n < N \<and> (\<forall>k < used. (get + k) mod N \<notin> {p ..< p + unat n}))"
proof -
  have ri: "ring_inv (h_token h) h" using assms(1,2) has_ring_bounds(5) [OF assms(3)] by (simp add: h_inv_def)
  obtain h1 where h1: "WaitForAvailableEntries (in_process_ops d os now) n (h\<lparr>commands_issued := commands_issued h + 1\<rparr>) = Some h1"
    "advanced (h_token h) h h1"
    "cbs_error (command_buffer h1) = kNoError \<longrightarrow> roomy N (unat n) h1 \<and>
       GetSpace (in_process_ops d os now) n h = Some (Some (ptr_add (r, 0) (4 * unat (h_put h1))),
         h1\<lparr>h_put := of_nat ((unat (h_put h1) + unat n) mod N)\<rparr>)"
    using GetSpace_ring [OF ri assms(2,3,4)] by blast
  have ok: "cbs_error (command_buffer h1) = kNoError" using assms(5) h1(1) by (auto simp: space_fails_def)
  have r1: "has_ring r N h1" using h1(2) assms(3) by (auto simp: advanced_def)
  note b = has_ring_bounds [OF r1]
  let ?p = "unat (h_put h1)" and ?g = "unat (cp_get (command_buffer h1))"
  have room: "?p + unat n \<le> N" "unat n + ring_dist N ?g ?p < N" using h1(3) ok by (auto simp: roomy_def)
  have "in_bounds (shm (command_buffer h1)) (r, 0) (4 * N)" using r1 by (simp add: has_ring_def svc_ring_def)
  then have "in_bounds (shm (command_buffer h1)) (ptr_add (r, 0) (4 * ?p)) (4 * unat n)"
    using room(1) by (auto simp: in_bounds_def)
  moreover have "unat (of_nat ((?p + unat n) mod N) :: u32) = (?p + unat n) mod N"
    using unat_of_nat_mod [of "total_entry_count h1"] b(2,6) by auto
  moreover have "(?g + k) mod N \<notin> {?p ..< ?p + unat n}" if "k < ring_dist N ?g ?p" for k
    using that room b(2,3) unfolding ring_dist_props(4) [OF b(2,3)] by (auto simp: mod_if split: if_splits)
  ultimately show ?thesis using h1(3) ok b(1) room
    by (intro exI [of _ ?p] exI [of _ "h1\<lparr>h_put := of_nat ((?p + unat n) mod N)\<rparr>"]) (simp add: Let_def add.commute)
qed

theorem GetSpace_is_free_witness:
  "\<exists>h p h'. CBH_Initialize demo_ops 64 (CommandBufferHelper_new (GLManager_Initialize demo_world)) = Some (True, h) \<and>
     GetSpace demo_ops 15 h = Some (Some (ptr_add (0, 0) (4 * p)), h') \<and> p + 15 \<le> 16"
proof -
  obtain h where h: "CBH_Initialize demo_ops 64 (CommandBufferHelper_new (GLManager_Initialize demo_world)) = Some (True, h)"
    "has_ring 0 16 h" "h_inv h" "usable h" by (rule demo_helper)
  have "\<not> space_fails demo_ops 15 h" using demo_space(2) h(1) by simp
  with GetSpace_is_free [OF h(3,4,2), of 15 demo_decoder] h(1) show ?thesis by fastforce
qed

lemma get_blocks_wrap_eq:
  assumes "has_ring r N h"
  shows "get_blocks_wrap (in_process_ops d os now) h =
    (if unat (h_put h) < unat (cp_get (command_buffer h)) then (True, reread h)
     else (cp_get (command_buffer h) = 0, reread (reread h)))"
  using has_ring_bounds(1,10) [OF assms] by (simp add: get_blocks_wrap_def)

text \<open>Once the service has an error, a client that has to wait for the wrap gives up without having moved \<open>put_\<close>.\<close>

lemma WaitWrap_gives_up:
  fixes h :: "'a GpuScheduler_scheme CommandBufferHelper"
  assumes r: "has_ring r N h" and u: "usable h" and e: "cbs_error (command_buffer h) \<noteq> kNoError" and p: "0 < unat (h_put h)"
    and b: "unat (h_put h) < unat (cp_get (command_buffer h)) \<or> cp_get (command_buffer h) = 0"
  shows "\<exists>h'. WaitWrap (in_process_ops d os now) h = Some (False, h') \<and> drained 0 h h' "
proof -
  let ?ops = "in_process_ops d os now"
  have ri: "ring_inv 0 x" if "has_ring r N x" "cbs_error (command_buffer x) \<noteq> kNoError" "h_put x = h_put h"
      "cp_get (command_buffer x) = cp_get (command_buffer h)" for x :: "'a GpuScheduler_scheme CommandBufferHelper"
    using that b p by (intro ring_invI [OF that(1)]) auto
  have step: "\<exists>h'. get_blocks_wrap ?ops x = (True, h') \<and> drained 0 x h' \<and> has_ring r N h' \<and> h_put h' = h_put h \<and>
      cp_get (command_buffer h') = cp_get (command_buffer h) \<and> cbs_error (command_buffer h') \<noteq> kNoError"
    if x: "has_ring r N x" "cbs_error (command_buffer x) \<noteq> kNoError" "h_put x = h_put h"
      "cp_get (command_buffer x) = cp_get (command_buffer h)" for x
  proof -
    note i = ri [OF x]
    have d: "drained 0 x (reread x)" using drained_reread [OF i] .
    have d2: "drained 0 x (reread (reread x))" using drained_trans [OF i d drained_reread [OF drained_inv [OF d]]] .
    show ?thesis
      using get_blocks_wrap_eq [OF x(1), of d os now] b x d d2 drained_has_ring [OF d x(1)] drained_has_ring [OF d2 x(1)]
      by (auto simp: reread_def)
  qed
  obtain h1 where h1: "get_blocks_wrap ?ops h = (True, h1)" "drained 0 h h1" "has_ring r N h1" "h_put h1 = h_put h"
    "cp_get (command_buffer h1) = cp_get (command_buffer h)" "cbs_error (command_buffer h1) \<noteq> kNoError"
    using step [OF r e] by blast
  obtain h2 where h2: "get_blocks_wrap ?ops h1 = (True, h2)" "drained 0 h1 h2" "cbs_error (command_buffer h2) \<noteq> kNoError"
    using step [OF h1(3,6,4,5)] by blast
  have "usable h2" using drained_fields(2) [OF h1(2)] drained_fields(2) [OF h2(2)] u by simp
  then obtain ok h3 where h3: "CBH_FlushSync ?ops h2 = Some (ok, h3)" "drained 0 h2 h3"
    "ok \<longleftrightarrow> cbs_error (command_buffer h3) = kNoError"
    using CBH_FlushSync_ring [OF drained_inv [OF h2(2)]] by blast
  have "\<not> ok" using h3(2,3) h2(3) by (simp add: drained_def)
  then have "WaitWrap ?ops h = Some (False, h3)" using h1(1) h2(1) h3(1) by (simp add: WaitWrap_def WaitWrap_loop.simps)
  moreover have "drained 0 h h3"
    using drained_trans [OF ri [OF r e refl refl] h1(2)]
      drained_trans [OF drained_inv [OF h1(2)] h2(2) h3(2)] by blast
  ultimately show ?thesis by blast
qed

text \<open>
  C38. After an error of the service, a command that does not fit in front of the end of the ring is not refused: when the
  wrap is blocked, \<open>WaitForAvailableEntries\<close> gives up with \<open>put_\<close> where it was, and \<open>GetSpace\<close>, which does not
  notice, moves \<open>put_\<close> past the end of the ring, so that its check fails.
\<close>

theorem GetSpace_overruns_after_error:
  assumes "has_ring r N h" "usable h" "cbs_error (command_buffer h) \<noteq> kNoError" "unat n < N" "N < unat (h_put h) + unat n"
    and "unat (h_put h) < unat (get_offset (command_buffer h)) \<or> get_offset (command_buffer h) = 0"
  shows "\<exists>h'. WaitForAvailableEntries (in_process_ops d os now) n (h\<lparr>commands_issued := commands_issued h + 1\<rparr>) = Some h' \<and>
    h_put h' = h_put h \<and> unat (total_entry_count h') < unat (h_put h') + unat n \<and>
    GetSpace (in_process_ops d os now) n h = None"
proof -
  let ?h = "h\<lparr>commands_issued := commands_issued h + 1\<rparr>"
  have r: "has_ring r N ?h" using assms(1) by (simp add: has_ring_def HaveRingBuffer_def)
  note b = has_ring_bounds [OF assms(1)]
  have p: "0 < unat (h_put ?h)" using assms(4,5) by simp
  obtain h1 where h1: "WaitWrap (in_process_ops d os now) ?h = Some (False, h1)" "drained 0 ?h h1"
    using WaitWrap_gives_up [OF r _ _ p, of d os now] assms(2,3,6) b(1) by auto
  have f: "h_put h1 = h_put h" "total_entry_count h1 = total_entry_count h" using drained_fields [OF h1(2)] by simp_all
  have s: "sint (h_put h + n) = int (unat (h_put h) + unat n)" using b assms(4) by (intro sint_sum) simp_all
  have n: "sint n = int (unat n)" using b(4) assms(4) by (subst sint_nonneg_u32) simp_all
  have c: "sint (total_entry_count h) < sint (h_put h + n)" "sint n < sint (total_entry_count h)" "1 \<le> sint (h_put h)"
    using s n p b(7,9) assms(4,5) by (simp_all del: of_nat_unat add: of_nat_less_iff flip: of_nat_add)
  have "WaitForAvailableEntries (in_process_ops d os now) n ?h = Some h1"
    using h1(1) c b(5) assms(2) by (simp add: WaitForAvailableEntries_def AllocateRingBuffer_def HaveRingBuffer_def)
  moreover have "GetSpace (in_process_ops d os now) n h = None"
    using calculation c b(5) assms(2) f by (simp add: GetSpace_def AllocateRingBuffer_def HaveRingBuffer_def split: Option.bind_splits)
  ultimately show ?thesis using f b(6) assms(5) by auto
qed

theorem GetSpace_overruns_after_error_witness:
  "\<exists>h. CBH_Initialize demo_ops 64 (CommandBufferHelper_new (GLManager_Initialize demo_world)) = Some (True, h) \<and>
     GetSpace demo_ops 2 (h\<lparr>command_buffer := (command_buffer h)\<lparr>cbs_error := kLostContext\<rparr>, h_put := 15\<rparr>) = None"
proof -
  obtain h where h: "CBH_Initialize demo_ops 64 (CommandBufferHelper_new (GLManager_Initialize demo_world)) = Some (True, h)"
    "has_ring 0 16 h" "usable h" by (rule demo_helper)
  let ?h = "h\<lparr>command_buffer := (command_buffer h)\<lparr>cbs_error := kLostContext\<rparr>, h_put := 15\<rparr>"
  have "svc_ring r N rid (w\<lparr>cbs_error := e\<rparr>) = svc_ring r N rid w" for r N rid e and w :: GpuScheduler
    by (simp add: svc_ring_def dec_wf_def tbm_wf_def avoids_region_def GetTransferBuffer_def)
  then have "has_ring 0 16 ?h" using h(2) by (simp add: has_ring_def HaveRingBuffer_def)
  moreover have "get_offset (command_buffer h) = 0" using demo_get h(1) by simp
  ultimately show ?thesis using GetSpace_overruns_after_error [of 0 16 ?h 2 demo_decoder] h by auto
qed

end
