(* ===== verification/Client_Allocators.thy ===== *)
theory Client_Allocators
  imports Client_Session
begin

text \<open>
  The allocators of the client on top of the command buffer helper: \<open>FencedAllocator\<close> and \<open>RingBuffer\<close> wait for tokens
  with \<open>CommandBufferHelper::WaitForToken\<close> and read them with \<open>last_token_read\<close>. The interpretation of \<open>token_fence\<close>
  on the helper turns their lemmas into facts on the whole chain from allocator to decoder.
\<close>

subsection \<open>Clients of the fenced allocator\<close>

text \<open>
  The states a client can bring an allocator and its helper into: any allocation below the size at which rounding
  wraps around, freeing what is allocated, at once or behind a token, and, in between, any use of the helper.
\<close>

inductive allocator_run ::
  "'a GpuScheduler_scheme CommandBufferOps \<Rightarrow> u32 \<Rightarrow> FencedAllocator \<Rightarrow> 'a GpuScheduler_scheme CommandBufferHelper \<Rightarrow> bool"
  for ops sz where
  start: "h_inv h \<Longrightarrow> allocator_run ops sz (FencedAllocator_new sz) h"
| helper: "allocator_run ops sz a h \<Longrightarrow> h_inv h' \<Longrightarrow> allocator_run ops sz a h'"
| alloc: "allocator_run ops sz a h \<Longrightarrow> unat n \<le> 0xFFFFFFF0 \<Longrightarrow>
    FencedAllocator_Alloc (WaitForToken ops) a n h = Some (off, a', h') \<Longrightarrow> allocator_run ops sz a' h'"
| free: "allocator_run ops sz a h \<Longrightarrow> (unat off, n) \<in> live (fa_blocks a) \<Longrightarrow>
    FencedAllocator_Free a off = Some a' \<Longrightarrow> allocator_run ops sz a' h"
| free_pending: "allocator_run ops sz a h \<Longrightarrow> (unat off, n) \<in> live (fa_blocks a) \<Longrightarrow>
    FencedAllocator_FreePendingToken a off t = Some a' \<Longrightarrow> 0 \<le> sint t \<Longrightarrow> allocator_run ops sz a' h"
| free_unused: "allocator_run ops sz a h \<Longrightarrow>
    FencedAllocator_FreeUnused (last_token_read ops) a h = (a', h') \<Longrightarrow> allocator_run ops sz a' h'"

lemma alloc_post_wf:
  "alloc_post passed cap sz a off a' h' \<Longrightarrow> fa_wf cap a' \<and> pending (fa_blocks a') \<subseteq> pending (fa_blocks a)"
  by (simp add: alloc_post_def)

definition tokens_nonneg :: "FencedAllocator \<Rightarrow> bool" where
  "tokens_nonneg a \<longleftrightarrow> (\<forall>o' n t. (o', n, t) \<in> pending (fa_blocks a) \<longrightarrow> 0 \<le> sint t)"

lemma allocator_run_inv:
  assumes "allocator_run (in_process_ops d os now) sz a h" "16 \<le> unat sz"
  shows "fa_wf (unat (RoundDown sz)) a \<and> h_inv h \<and> tokens_nonneg a"
  using assms
proof (induction rule: allocator_run.induct)
  case (start h)
  then show ?case using FencedAllocator_new_wf [of sz] by (simp add: tokens_nonneg_def)
next
  case (alloc a h n off a' h')
  show ?case
  proof (cases "n = 0")
    case True
    with alloc show ?thesis by (simp add: FencedAllocator_Alloc_def)
  next
    case False
    with alloc in_process.Alloc_post [of "unat (RoundDown sz)" a h n d os now]
    have "alloc_post passed (unat (RoundDown sz)) (RoundUp n) a off a' h'" "h_inv h'" by auto
    with alloc alloc_post_wf show ?thesis by (fastforce simp: tokens_nonneg_def)
  qed
next
  case (free a h off n a')
  with Free_live [of "unat (RoundDown sz)" a off n] show ?case by (auto simp: tokens_nonneg_def)
next
  case (free_pending a h off n t a')
  with FreePendingToken_live [of "unat (RoundDown sz)" a off n t] show ?case by (auto simp: tokens_nonneg_def)
next
  case (free_unused a h a' h')
  with in_process.FreeUnused_passed [of "unat (RoundDown sz)" a h d os now a' h'] show ?case
    by (fastforce simp: tokens_nonneg_def)
qed auto

lemma live_disjoint:
  assumes "fa_wf cap a" "(o1, n1) \<in> live (fa_blocks a)" "(o2, n2) \<in> live (fa_blocks a)" "(o1, n1) \<noteq> (o2, n2)"
  shows "region (o1, n1) \<inter> region (o2, n2) = {}"
proof -
  obtain b1 b2 where b: "b1 \<in> set (fa_blocks a)" "o1 = unat (blk_offset b1)" "n1 = unat (blk_size b1)"
    "b2 \<in> set (fa_blocks a)" "o2 = unat (blk_offset b2)" "n2 = unat (blk_size b2)"
    using assms(2,3) by (auto simp: live_def)
  obtain as cs where "fa_blocks a = as @ b1 # cs" using b(1) by (meson split_list)
  moreover have "b2 \<in> set as \<union> set cs" using calculation b(4) b assms(4) by auto
  ultimately show ?thesis using tiles_disjoint [of 0 as b1 cs cap b2] assms(1) b by (auto simp: fa_wf_def)
qed


lemma live_in_buffer:
  assumes "fa_wf cap a" "(o', n) \<in> live (fa_blocks a)"
  shows "0 < n" "o' + n \<le> cap" "16 dvd o'" "16 dvd n"
proof -
  obtain b where b: "b \<in> set (fa_blocks a)" "o' = unat (blk_offset b)" "n = unat (blk_size b)"
    using assms(2) by (auto simp: live_def)
  with assms(1) tiles_block [of 0 "fa_blocks a" cap b] tiles_offset_dvd [of 0 "fa_blocks a" cap b]
  show "0 < n" "o' + n \<le> cap" "16 dvd o'" "16 dvd n" by (auto simp: fa_wf_def)
qed

subsection \<open>Properties of the fenced allocator\<close>

text \<open>
  C12. Whatever a client does with an allocator and its helper, the check that the code makes of itself
  (\<open>CheckConsistency\<close>) holds; the regions in use are aligned, lie inside the buffer and are pairwise disjoint; and
  \<open>bytes_in_use_\<close> is the sum of their sizes.
\<close>

theorem allocator_always_consistent:
  assumes "allocator_run (in_process_ops d os now) sz a h" "16 \<le> unat sz"
  shows "CheckConsistency a \<and> unat (fa_bytes_in_use a) = in_use_bytes (fa_blocks a) \<and>
    (\<forall>(o1, n1) \<in> live (fa_blocks a). 0 < n1 \<and> o1 + n1 \<le> unat sz \<and> 16 dvd o1 \<and>
       (\<forall>(o2, n2) \<in> live (fa_blocks a). (o1, n1) \<noteq> (o2, n2) \<longrightarrow> region (o1, n1) \<inter> region (o2, n2) = {}))"
proof -
  have wf: "fa_wf (unat (RoundDown sz)) a" using allocator_run_inv [OF assms] by simp
  have "unat (RoundDown sz) \<le> unat sz" by (simp add: unat_RoundDown)
  then have "0 < n1 \<and> o1 + n1 \<le> unat sz \<and> 16 dvd o1" if "(o1, n1) \<in> live (fa_blocks a)" for o1 n1
    using live_in_buffer [OF wf that] by linarith
  moreover have "unat (fa_bytes_in_use a) = in_use_bytes (fa_blocks a)" using wf by (simp add: fa_wf_def)
  ultimately show ?thesis using live_disjoint [OF wf] fa_wf_CheckConsistency [OF wf] by blast
qed

lemma demo_allocator: "h_inv h \<Longrightarrow> allocator_run demo_ops 1024 (FencedAllocator_new 1024) h"
  by (rule allocator_run.start)

theorem allocator_always_consistent_witness:
  "\<exists>h a' h'. CBH_Initialize demo_ops 64 (CommandBufferHelper_new (GLManager_Initialize demo_world)) = Some (True, h) \<and>
     FencedAllocator_Alloc (WaitForToken demo_ops) (FencedAllocator_new 1024) 100 h = Some (0, a', h') \<and> CheckConsistency a'"
proof -
  obtain h where h: "CBH_Initialize demo_ops 64 (CommandBufferHelper_new (GLManager_Initialize demo_world)) = Some (True, h)"
    "h_inv h" by (rule demo_helper)
  obtain a' where a: "FencedAllocator_Alloc (WaitForToken demo_ops) (FencedAllocator_new 1024) 100 h = Some (0, a', h)"
    by (simp add: FencedAllocator_Alloc_def FencedAllocator_new_def AllocInBlock_def RoundUp_def RoundDown_def kAllocAlignment_def)
  have "allocator_run demo_ops 1024 a' h" using allocator_run.alloc [OF demo_allocator [OF h(2)] _ a] by simp
  from allocator_always_consistent [OF this] have "CheckConsistency a'" by simp
  with a h(1) show ?thesis by blast
qed

text \<open>
  C3. The contract of \<open>Alloc\<close> in every state a client can reach: the call returns. It fails exactly if
  \<open>GetLargestFreeOrPendingSize\<close> is below the rounded size. Otherwise the region is aligned, of the rounded size, inside the
  buffer, disjoint from all regions in use, and meets a region freed behind a token only if that token has passed;
  no other region in use changes.
\<close>

theorem FencedAllocator_Alloc_contract:
  assumes "allocator_run (in_process_ops d os now) sz a h" "16 \<le> unat sz" "n \<noteq> 0" "unat n \<le> 0xFFFFFFF0"
  shows "\<exists>off a' h'. FencedAllocator_Alloc (WaitForToken (in_process_ops d os now)) a n h = Some (off, a', h') \<and>
    (off = kInvalidOffset \<longleftrightarrow> unat (GetLargestFreeOrPendingSize a) < unat (RoundUp n)) \<and>
    alloc_post passed (unat (RoundDown sz)) (RoundUp n) a off a' h'"
proof -
  let ?wait = "WaitForToken (in_process_ops d os now)"
  have wf: "fa_wf (unat (RoundDown sz)) a" and h: "h_inv h" using allocator_run_inv [OF assms(1,2)] by simp_all
  obtain off a' h' where r: "FencedAllocator_Alloc ?wait a n h = Some (off, a', h')"
      "alloc_post passed (unat (RoundDown sz)) (RoundUp n) a off a' h'"
    using in_process.Alloc_post [OF wf h assms(4,3)] by blast
  have pos: "0 < unat (RoundUp n)" using RoundUp_props(4) [OF assms(4,3)] .
  have "off \<noteq> kInvalidOffset" if "room (unat (RoundDown sz)) (fa_blocks a) (unat (RoundUp n))"
    using in_process.Alloc_finds [OF wf h assms(4,3) that r(1)] .
  moreover have "room (unat (RoundDown sz)) (fa_blocks a) (unat (RoundUp n))" if "off \<noteq> kInvalidOffset"
    using r(2) that by (auto simp: alloc_post_def room_def avoids_def)
  ultimately show ?thesis using r GetLargestFreeOrPendingSize_iff [OF wf pos] by (auto simp: not_less)
qed

theorem FencedAllocator_Alloc_contract_witness:
  "\<exists>h off a' h'. CBH_Initialize demo_ops 64 (CommandBufferHelper_new (GLManager_Initialize demo_world)) = Some (True, h) \<and>
     FencedAllocator_Alloc (WaitForToken demo_ops) (FencedAllocator_new 1024) 1024 h = Some (off, a', h') \<and>
     off \<noteq> kInvalidOffset \<and> live (fa_blocks a') = {(unat off, 1024)}"
proof -
  obtain h where h: "CBH_Initialize demo_ops 64 (CommandBufferHelper_new (GLManager_Initialize demo_world)) = Some (True, h)"
    "h_inv h" by (rule demo_helper)
  have "unat (GetLargestFreeOrPendingSize (FencedAllocator_new 1024)) = 1024" "unat (RoundUp 1024) = 1024" by code_simp+
  moreover have "live (fa_blocks (FencedAllocator_new 1024)) = {}" by (simp add: FencedAllocator_new_def)
  ultimately show ?thesis
    using FencedAllocator_Alloc_contract [OF demo_allocator [OF h(2)], of 1024] h(1) by (auto simp: alloc_post_def)
qed

text \<open>
  C19. \<open>Free\<close> and \<open>FreePendingToken\<close> on the offset of a region in use return, whatever happened before: no check fails,
  exactly that region is given up, and in the second case it is remembered with its token.
\<close>

theorem FencedAllocator_free_contract:
  assumes "allocator_run (in_process_ops d os now) sz a h" "16 \<le> unat sz" "(unat off, n) \<in> live (fa_blocks a)"
  shows "\<exists>a1 a2. FencedAllocator_Free a off = Some a1 \<and> FencedAllocator_FreePendingToken a off t = Some a2 \<and>
    live (fa_blocks a1) = live (fa_blocks a) - {(unat off, n)} \<and> pending (fa_blocks a1) = pending (fa_blocks a) \<and>
    live (fa_blocks a2) = live (fa_blocks a) - {(unat off, n)} \<and>
    pending (fa_blocks a2) = insert (unat off, n, t) (pending (fa_blocks a))"
proof -
  have wf: "fa_wf (unat (RoundDown sz)) a" using allocator_run_inv [OF assms(1,2)] by simp
  obtain a1 where 1: "FencedAllocator_Free a off = Some a1" "live (fa_blocks a1) = live (fa_blocks a) - {(unat off, n)}"
    "pending (fa_blocks a1) = pending (fa_blocks a)" using Free_live [OF wf assms(3)] by blast
  obtain a2 where 2: "FencedAllocator_FreePendingToken a off t = Some a2"
    "live (fa_blocks a2) = live (fa_blocks a) - {(unat off, n)}"
    "pending (fa_blocks a2) = insert (unat off, n, t) (pending (fa_blocks a))"
    using FreePendingToken_live [OF wf assms(3)] by blast
  from 1 2 show ?thesis by (intro exI [of _ a1] exI [of _ a2] conjI)
qed

theorem FencedAllocator_free_contract_witness:
  "\<exists>h a' a1. CBH_Initialize demo_ops 64 (CommandBufferHelper_new (GLManager_Initialize demo_world)) = Some (True, h) \<and>
     FencedAllocator_Alloc (WaitForToken demo_ops) (FencedAllocator_new 1024) 100 h = Some (0, a', h) \<and>
     FencedAllocator_Free a' 0 = Some a1 \<and> live (fa_blocks a1) = {}"
proof -
  obtain h where h: "CBH_Initialize demo_ops 64 (CommandBufferHelper_new (GLManager_Initialize demo_world)) = Some (True, h)"
    "h_inv h" by (rule demo_helper)
  obtain a' where a: "FencedAllocator_Alloc (WaitForToken demo_ops) (FencedAllocator_new 1024) 100 h = Some (0, a', h)"
    "live (fa_blocks a') = {(0, 112)}"
    by (simp add: FencedAllocator_Alloc_def FencedAllocator_new_def AllocInBlock_def RoundUp_def RoundDown_def kAllocAlignment_def
        insert_at_def)
  have "allocator_run demo_ops 1024 a' h" using allocator_run.alloc [OF demo_allocator [OF h(2)] _ a(1)] by simp
  from FencedAllocator_free_contract [OF this, of 0 112 0] a(2)
  obtain a1 where "FencedAllocator_Free a' 0 = Some a1" "live (fa_blocks a1) = {}" by auto
  with a h(1) show ?thesis by blast
qed

text \<open>
  The destructor of the allocator returns: no region that was freed behind a token
  is pending afterwards, and the regions in use are the same.
\<close>

lemma FencedAllocator_delete_returns:
  assumes "allocator_run (in_process_ops d os now) sz a h" "16 \<le> unat sz"
  shows "\<exists>a' h'. FencedAllocator_delete (WaitForToken (in_process_ops d os now)) a h = Some (a', h') \<and>
    pending (fa_blocks a') = {} \<and> live (fa_blocks a') = live (fa_blocks a) \<and> h_inv h'"
  using allocator_run_inv [OF assms] in_process.delete_correct by blast

text \<open>
  C40. A request above 0xFFFFFFF0 bytes is not refused: rounding it up to the alignment wraps around to 0, so a fresh
  allocator hands out offset 0 with a block of no bytes, and \<open>CheckConsistency\<close> fails from then on.
\<close>

theorem FencedAllocator_Alloc_wraps:
  assumes "0xFFFFFFF0 < unat n" "16 \<le> unat sz"
  shows "\<exists>a'. FencedAllocator_Alloc wait (FencedAllocator_new sz) n h = Some (0, a', h) \<and>
    live (fa_blocks a') = {(0, 0)} \<and> \<not> CheckConsistency a'"
proof -
  have "unat n < 2 ^ 32" using unsigned_less [of n] by simp
  then have "(unat n + 15) mod 2 ^ 32 = unat n + 15 - 2 ^ 32" using assms(1)
    by (subst le_mod_geq) (simp, rule mod_less, linarith)
  moreover have "unat (n + 15) = (unat n + 15) mod 2 ^ 32" by (simp add: unat_word_ariths)
  ultimately have "unat (n + 15) < 16" using \<open>unat n < 2 ^ 32\<close> by linarith
  then have "unat (RoundUp n) = 0"
    using mask_eq_exp_minus_1 [of 4, where ?'a = u32] unfolding RoundUp_def alignment_mask unat_and_not_mask by simp
  then have r: "RoundUp n = 0" by (simp add: unat_eq_zero)
  have "unat (RoundDown sz) \<noteq> 0" using assms(2) by (simp add: unat_RoundDown)
  then have "RoundDown sz \<noteq> 0" by auto
  moreover have "n \<noteq> 0" using assms(1) by auto
  ultimately show ?thesis using r
    by (simp add: FencedAllocator_Alloc_def FencedAllocator_new_def AllocInBlock_def insert_at_def CheckConsistency_def)
qed

theorem FencedAllocator_Alloc_wraps_witness:
  "\<exists>a'. FencedAllocator_Alloc (\<lambda>_. Some) (FencedAllocator_new 1024) 0xFFFFFFFF () = Some (0, a', ()) \<and>
    live (fa_blocks a') = {(0, 0)} \<and> \<not> CheckConsistency a'"
  using FencedAllocator_Alloc_wraps [of "0xFFFFFFFF" 1024 "\<lambda>_. Some" "()"] by simp

subsection \<open>Clients of the ring buffer\<close>

text \<open>The states a client can bring a ring buffer and its helper into; at most one block is in use at a time.\<close>

inductive ring_run ::
  "'a GpuScheduler_scheme CommandBufferOps \<Rightarrow> u32 \<Rightarrow> u32 \<Rightarrow> RingBuffer \<Rightarrow> 'a GpuScheduler_scheme CommandBufferHelper \<Rightarrow> bool"
  for ops base sz where
  start: "h_inv h \<Longrightarrow> ring_run ops base sz (RingBuffer_new base sz) h"
| helper: "ring_run ops base sz r h \<Longrightarrow> h_inv h' \<Longrightarrow> ring_run ops base sz r h'"
| alloc: "ring_run ops base sz r h \<Longrightarrow> rb_idle r \<Longrightarrow> n \<le> sz \<Longrightarrow>
    RingBuffer_Alloc (WaitForToken ops) (last_token_read ops) r n h = Some (off, r', h') \<Longrightarrow> ring_run ops base sz r' h'"
| free_pending: "ring_run ops base sz r h \<Longrightarrow> RingBuffer_FreePendingToken r off t = Some r' \<Longrightarrow> ring_run ops base sz r' h"
| largest: "ring_run ops base sz r h \<Longrightarrow>
    GetLargestFreeSizeNoWaiting (WaitForToken ops) (last_token_read ops) r h = Some (n, r', h') \<Longrightarrow>
    ring_run ops base sz r' h'"

lemma ring_run_inv:
  assumes "ring_run (in_process_ops d os now) base sz r h" "0 < sz" "unat sz \<le> 2 ^ 31"
  shows "rb_wf r \<and> h_inv h \<and> rbuf_size r = sz \<and> rbuf_base_offset r = base"
  using assms
proof (induction rule: ring_run.induct)
  case (start h)
  then show ?case using RingBuffer_new_wf(1) [of sz base] by (simp add: RingBuffer_new_def)
next
  case (alloc r h n off r' h')
  then obtain off1 r1 h1 where "RingBuffer_Alloc (WaitForToken (in_process_ops d os now))
      (last_token_read (in_process_ops d os now)) r n h = Some (off1, r1, h1)" "rb_wf r1" "h_inv h1"
      "rb_alloc_post passed r n off1 r1 h1"
    using in_process.RingBuffer_Alloc_total [of r h n] by blast
  with alloc show ?case by (simp add: rb_alloc_post_def)
next
  case (free_pending r h off t r')
  then have "rb_wf r'" using RingBuffer_FreePendingToken_wf(1) by blast
  moreover have "rbuf_size r' = rbuf_size r" "rbuf_base_offset r' = rbuf_base_offset r"
    using free_pending RingBuffer_FreePendingToken_iff [of r off t r'] by auto
  ultimately show ?case using free_pending by simp
next
  case (largest r h n r' h')
  then obtain r1 h1 where "GetLargestFreeSizeNoWaiting (WaitForToken (in_process_ops d os now))
      (last_token_read (in_process_ops d os now)) r h = Some (rb_largest r1, r1, h1)" "rb_frees passed r r1 h1" "h_inv h1"
    using in_process.GetLargestFreeSizeNoWaiting_frees [of r h] by blast
  with largest rb_freesD show ?case by auto
qed auto

text \<open>
  C15. The contract of \<open>RingBuffer::Alloc\<close> in every state a client can reach: when no block is in use, a request of at most the
  size of the buffer is served, however much of the buffer is still pending (the call waits for the tokens it needs and
  returns). The new block has the requested size, lies in the buffer and does not meet any block that stays; the blocks
  that go are padding or have a token that the service has passed.
\<close>

theorem RingBuffer_Alloc_contract:
  assumes "ring_run (in_process_ops d os now) base sz r h" "0 < sz" "unat sz \<le> 2 ^ 31" "rb_idle r" "n \<le> sz"
  shows "\<exists>off r' h'. RingBuffer_Alloc (WaitForToken (in_process_ops d os now)) (last_token_read (in_process_ops d os now)) r n h =
      Some (off, r', h') \<and> h_inv h' \<and> rb_alloc_post passed r n off r' h'"
proof -
  have i: "rb_wf r" "h_inv h" "rbuf_size r = sz" using ring_run_inv [OF assms(1,2,3)] by simp_all
  then show ?thesis using in_process.RingBuffer_Alloc_total [OF i(1) assms(4) i(2), of n] assms(5) by blast
qed

theorem RingBuffer_Alloc_contract_witness:
  "\<exists>h off r' h'. CBH_Initialize demo_ops 64 (CommandBufferHelper_new (GLManager_Initialize demo_world)) = Some (True, h) \<and>
     RingBuffer_Alloc (WaitForToken demo_ops) (last_token_read demo_ops) (RingBuffer_new 8 256) 256 h = Some (off, r', h') \<and>
     rb_alloc_post passed (RingBuffer_new 8 256) 256 off r' h'"
proof -
  obtain h where h: "CBH_Initialize demo_ops 64 (CommandBufferHelper_new (GLManager_Initialize demo_world)) = Some (True, h)"
    "h_inv h" by (rule demo_helper)
  have r: "ring_run demo_ops 8 256 (RingBuffer_new 8 256) h" using h(2) by (rule ring_run.start)
  have "rb_idle (RingBuffer_new 8 256)" using RingBuffer_new_wf(2) [of 256 8] by simp
  with RingBuffer_Alloc_contract [OF r, of 256] h(1) show ?thesis by auto
qed

text \<open>
  \<open>RingBuffer::FreePendingToken\<close> succeeds exactly for the offset of the block in use (the newest block); every other
  offset hits one of the checks of the code. The ring is idle afterwards.
\<close>

lemma RingBuffer_FreePendingToken_exact:
  assumes "ring_run (in_process_ops d os now) base sz r h" "0 < sz" "unat sz \<le> 2 ^ 31"
  shows "RingBuffer_FreePendingToken r off t = Some r' \<longleftrightarrow>
     (\<exists>bs b. rbuf_blocks r = bs @ [b] \<and> rb_state b = RB_IN_USE \<and> off = rb_offset b + base \<and> rb_idle r' \<and>
        r' = r\<lparr>rbuf_blocks := bs @ [b\<lparr>rb_token := t, rb_state := RB_FREE_PENDING_TOKEN\<rparr>]\<rparr>)"
proof -
  have i: "rb_wf r" "rbuf_base_offset r = base" using ring_run_inv [OF assms] by simp_all
  show ?thesis using RingBuffer_FreePendingToken_iff [OF i(1), of off t r'] RingBuffer_FreePendingToken_wf(2) [OF i(1)] i(2) by blast
qed

end
