(* ===== verification/Scheduler_State_Machine.thy ===== *)
theory Scheduler_State_Machine
  imports Prelude
begin

section \<open>SchedulerStateMachine: when the compositor commits, activates and draws\<close>

text \<open>
  Model of \<^verbatim>\<open>src/cc/scheduler/scheduler_state_machine.{h,cc}\<close> and \<^verbatim>\<open>scheduler_settings.{h,cc}\<close>. Every
  operation is a function on the record of the member variables; one with a \<open>DCHECK\<close> returns an
  option. An \<open>int\<close> is a \<open>u32\<close>, with \<open>- 1\<close> for the frame number that no frame has; time stamps are
  integers. Tracing and \<open>AsValue\<close> (a dump of the state for traces) are left out.
\<close>

subsection \<open>State\<close>

record SchedulerSettings =
  deadline_scheduling_enabled :: bool
  impl_side_painting :: bool
  timeout_and_draw_when_animation_checkerboards :: bool
  maximum_number_of_failed_draws_before_draw_is_forced :: u32
  using_synchronous_renderer_compositor :: bool
  throttle_frame_production :: bool
  switch_to_low_latency_if_possible :: bool

definition SchedulerSettings_new :: SchedulerSettings where
  "SchedulerSettings_new =
     \<lparr>deadline_scheduling_enabled = True, impl_side_painting = False,
      timeout_and_draw_when_animation_checkerboards = True,
      maximum_number_of_failed_draws_before_draw_is_forced = 3,
      using_synchronous_renderer_compositor = False, throttle_frame_production = True,
      switch_to_low_latency_if_possible = False\<rparr>"

datatype OutputSurfaceState =
    OUTPUT_SURFACE_ACTIVE | OUTPUT_SURFACE_LOST | OUTPUT_SURFACE_CREATING
  | OUTPUT_SURFACE_WAITING_FOR_FIRST_COMMIT | OUTPUT_SURFACE_WAITING_FOR_FIRST_ACTIVATION

datatype BeginImplFrameState =
    BEGIN_IMPL_FRAME_STATE_IDLE | BEGIN_IMPL_FRAME_STATE_BEGIN_FRAME_STARTING
  | BEGIN_IMPL_FRAME_STATE_INSIDE_BEGIN_FRAME | BEGIN_IMPL_FRAME_STATE_INSIDE_DEADLINE

datatype CommitState =
    COMMIT_STATE_IDLE | COMMIT_STATE_FRAME_IN_PROGRESS | COMMIT_STATE_READY_TO_COMMIT
  | COMMIT_STATE_WAITING_FOR_FIRST_DRAW

datatype TextureState =
    LAYER_TEXTURE_STATE_UNLOCKED | LAYER_TEXTURE_STATE_ACQUIRED_BY_MAIN_THREAD
  | LAYER_TEXTURE_STATE_ACQUIRED_BY_IMPL_THREAD

datatype SynchronousReadbackState =
    READBACK_STATE_IDLE | READBACK_STATE_NEEDS_BEGIN_MAIN_FRAME | READBACK_STATE_WAITING_FOR_COMMIT
  | READBACK_STATE_WAITING_FOR_ACTIVATION | READBACK_STATE_WAITING_FOR_DRAW_AND_READBACK
  | READBACK_STATE_WAITING_FOR_REPLACEMENT_COMMIT | READBACK_STATE_WAITING_FOR_REPLACEMENT_ACTIVATION

datatype ForcedRedrawOnTimeoutState =
    FORCED_REDRAW_STATE_IDLE | FORCED_REDRAW_STATE_WAITING_FOR_COMMIT
  | FORCED_REDRAW_STATE_WAITING_FOR_ACTIVATION | FORCED_REDRAW_STATE_WAITING_FOR_DRAW

datatype Action =
    ACTION_NONE | ACTION_SEND_BEGIN_MAIN_FRAME | ACTION_COMMIT | ACTION_UPDATE_VISIBLE_TILES
  | ACTION_ACTIVATE_PENDING_TREE | ACTION_DRAW_AND_SWAP_IF_POSSIBLE | ACTION_DRAW_AND_SWAP_FORCED
  | ACTION_DRAW_AND_SWAP_ABORT | ACTION_DRAW_AND_READBACK | ACTION_BEGIN_OUTPUT_SURFACE_CREATION
  | ACTION_ACQUIRE_LAYER_TEXTURES_FOR_MAIN_THREAD | ACTION_MANAGE_TILES

record BeginFrameArgs =
  bfa_frame_time :: int
  bfa_deadline :: int
  bfa_interval :: int

record SchedulerStateMachine =
  settings :: SchedulerSettings
  output_surface_state :: OutputSurfaceState
  begin_impl_frame_state :: BeginImplFrameState
  commit_state :: CommitState
  texture_state :: TextureState
  forced_redraw_state :: ForcedRedrawOnTimeoutState
  readback_state :: SynchronousReadbackState
  last_begin_impl_frame_args :: BeginFrameArgs
  commit_count :: u32
  current_frame_number :: u32
  last_frame_number_swap_performed :: u32
  last_frame_number_begin_main_frame_sent :: u32
  last_frame_number_update_visible_tiles_was_called :: u32
  last_frame_number_manage_tiles_called :: u32
  consecutive_failed_draws :: u32
  needs_redraw :: bool
  needs_manage_tiles :: bool
  swap_used_incomplete_tile :: bool
  needs_commit :: bool
  main_thread_needs_layer_textures :: bool
  inside_poll_for_anticipated_draw_triggers :: bool
  visible :: bool
  can_start :: bool
  can_draw :: bool
  has_pending_tree :: bool
  pending_tree_is_ready_for_activation :: bool
  active_tree_needs_first_draw :: bool
  draw_if_possible_failed :: bool
  did_create_and_initialize_first_output_surface :: bool
  smoothness_takes_priority :: bool
  skip_begin_main_frame_to_reduce_latency :: bool

definition SchedulerStateMachine_new :: "SchedulerSettings \<Rightarrow> SchedulerStateMachine" where
  "SchedulerStateMachine_new st =
     \<lparr>settings = st, output_surface_state = OUTPUT_SURFACE_LOST,
      begin_impl_frame_state = BEGIN_IMPL_FRAME_STATE_IDLE, commit_state = COMMIT_STATE_IDLE,
      texture_state = LAYER_TEXTURE_STATE_UNLOCKED, forced_redraw_state = FORCED_REDRAW_STATE_IDLE,
      readback_state = READBACK_STATE_IDLE,
      last_begin_impl_frame_args = \<lparr>bfa_frame_time = 0, bfa_deadline = 0, bfa_interval = - 1\<rparr>,
      commit_count = 0, current_frame_number = 0, last_frame_number_swap_performed = - 1,
      last_frame_number_begin_main_frame_sent = - 1,
      last_frame_number_update_visible_tiles_was_called = - 1,
      last_frame_number_manage_tiles_called = - 1, consecutive_failed_draws = 0,
      needs_redraw = False, needs_manage_tiles = False, swap_used_incomplete_tile = False,
      needs_commit = False, main_thread_needs_layer_textures = False,
      inside_poll_for_anticipated_draw_triggers = False, visible = False, can_start = False,
      can_draw = False, has_pending_tree = False, pending_tree_is_ready_for_activation = False,
      active_tree_needs_first_draw = False, draw_if_possible_failed = False,
      did_create_and_initialize_first_output_surface = False, smoothness_takes_priority = False,
      skip_begin_main_frame_to_reduce_latency = False\<rparr>"

subsection \<open>Names\<close>

fun OutputSurfaceStateToString :: "OutputSurfaceState \<Rightarrow> string" where
  "OutputSurfaceStateToString OUTPUT_SURFACE_ACTIVE = ''OUTPUT_SURFACE_ACTIVE''"
| "OutputSurfaceStateToString OUTPUT_SURFACE_LOST = ''OUTPUT_SURFACE_LOST''"
| "OutputSurfaceStateToString OUTPUT_SURFACE_CREATING = ''OUTPUT_SURFACE_CREATING''"
| "OutputSurfaceStateToString OUTPUT_SURFACE_WAITING_FOR_FIRST_COMMIT =
     ''OUTPUT_SURFACE_WAITING_FOR_FIRST_COMMIT''"
| "OutputSurfaceStateToString OUTPUT_SURFACE_WAITING_FOR_FIRST_ACTIVATION =
     ''OUTPUT_SURFACE_WAITING_FOR_FIRST_ACTIVATION''"

fun BeginImplFrameStateToString :: "BeginImplFrameState \<Rightarrow> string" where
  "BeginImplFrameStateToString BEGIN_IMPL_FRAME_STATE_IDLE = ''BEGIN_IMPL_FRAME_STATE_IDLE''"
| "BeginImplFrameStateToString BEGIN_IMPL_FRAME_STATE_BEGIN_FRAME_STARTING =
     ''BEGIN_IMPL_FRAME_STATE_BEGIN_FRAME_STARTING''"
| "BeginImplFrameStateToString BEGIN_IMPL_FRAME_STATE_INSIDE_BEGIN_FRAME =
     ''BEGIN_IMPL_FRAME_STATE_INSIDE_BEGIN_FRAME''"
| "BeginImplFrameStateToString BEGIN_IMPL_FRAME_STATE_INSIDE_DEADLINE =
     ''BEGIN_IMPL_FRAME_STATE_INSIDE_DEADLINE''"

fun CommitStateToString :: "CommitState \<Rightarrow> string" where
  "CommitStateToString COMMIT_STATE_IDLE = ''COMMIT_STATE_IDLE''"
| "CommitStateToString COMMIT_STATE_FRAME_IN_PROGRESS = ''COMMIT_STATE_FRAME_IN_PROGRESS''"
| "CommitStateToString COMMIT_STATE_READY_TO_COMMIT = ''COMMIT_STATE_READY_TO_COMMIT''"
| "CommitStateToString COMMIT_STATE_WAITING_FOR_FIRST_DRAW = ''COMMIT_STATE_WAITING_FOR_FIRST_DRAW''"

fun TextureStateToString :: "TextureState \<Rightarrow> string" where
  "TextureStateToString LAYER_TEXTURE_STATE_UNLOCKED = ''LAYER_TEXTURE_STATE_UNLOCKED''"
| "TextureStateToString LAYER_TEXTURE_STATE_ACQUIRED_BY_MAIN_THREAD =
     ''LAYER_TEXTURE_STATE_ACQUIRED_BY_MAIN_THREAD''"
| "TextureStateToString LAYER_TEXTURE_STATE_ACQUIRED_BY_IMPL_THREAD =
     ''LAYER_TEXTURE_STATE_ACQUIRED_BY_IMPL_THREAD''"

fun SynchronousReadbackStateToString :: "SynchronousReadbackState \<Rightarrow> string" where
  "SynchronousReadbackStateToString READBACK_STATE_IDLE = ''READBACK_STATE_IDLE''"
| "SynchronousReadbackStateToString READBACK_STATE_NEEDS_BEGIN_MAIN_FRAME =
     ''READBACK_STATE_NEEDS_BEGIN_MAIN_FRAME''"
| "SynchronousReadbackStateToString READBACK_STATE_WAITING_FOR_COMMIT = ''READBACK_STATE_WAITING_FOR_COMMIT''"
| "SynchronousReadbackStateToString READBACK_STATE_WAITING_FOR_ACTIVATION =
     ''READBACK_STATE_WAITING_FOR_ACTIVATION''"
| "SynchronousReadbackStateToString READBACK_STATE_WAITING_FOR_DRAW_AND_READBACK =
     ''READBACK_STATE_WAITING_FOR_DRAW_AND_READBACK''"
| "SynchronousReadbackStateToString READBACK_STATE_WAITING_FOR_REPLACEMENT_COMMIT =
     ''READBACK_STATE_WAITING_FOR_REPLACEMENT_COMMIT''"
| "SynchronousReadbackStateToString READBACK_STATE_WAITING_FOR_REPLACEMENT_ACTIVATION =
     ''READBACK_STATE_WAITING_FOR_REPLACEMENT_ACTIVATION''"

fun ForcedRedrawOnTimeoutStateToString :: "ForcedRedrawOnTimeoutState \<Rightarrow> string" where
  "ForcedRedrawOnTimeoutStateToString FORCED_REDRAW_STATE_IDLE = ''FORCED_REDRAW_STATE_IDLE''"
| "ForcedRedrawOnTimeoutStateToString FORCED_REDRAW_STATE_WAITING_FOR_COMMIT =
     ''FORCED_REDRAW_STATE_WAITING_FOR_COMMIT''"
| "ForcedRedrawOnTimeoutStateToString FORCED_REDRAW_STATE_WAITING_FOR_ACTIVATION =
     ''FORCED_REDRAW_STATE_WAITING_FOR_ACTIVATION''"
| "ForcedRedrawOnTimeoutStateToString FORCED_REDRAW_STATE_WAITING_FOR_DRAW =
     ''FORCED_REDRAW_STATE_WAITING_FOR_DRAW''"

fun ActionToString :: "Action \<Rightarrow> string" where
  "ActionToString ACTION_NONE = ''ACTION_NONE''"
| "ActionToString ACTION_SEND_BEGIN_MAIN_FRAME = ''ACTION_SEND_BEGIN_MAIN_FRAME''"
| "ActionToString ACTION_COMMIT = ''ACTION_COMMIT''"
| "ActionToString ACTION_UPDATE_VISIBLE_TILES = ''ACTION_UPDATE_VISIBLE_TILES''"
| "ActionToString ACTION_ACTIVATE_PENDING_TREE = ''ACTION_ACTIVATE_PENDING_TREE''"
| "ActionToString ACTION_DRAW_AND_SWAP_IF_POSSIBLE = ''ACTION_DRAW_AND_SWAP_IF_POSSIBLE''"
| "ActionToString ACTION_DRAW_AND_SWAP_FORCED = ''ACTION_DRAW_AND_SWAP_FORCED''"
| "ActionToString ACTION_DRAW_AND_SWAP_ABORT = ''ACTION_DRAW_AND_SWAP_ABORT''"
| "ActionToString ACTION_DRAW_AND_READBACK = ''ACTION_DRAW_AND_READBACK''"
| "ActionToString ACTION_BEGIN_OUTPUT_SURFACE_CREATION = ''ACTION_BEGIN_OUTPUT_SURFACE_CREATION''"
| "ActionToString ACTION_ACQUIRE_LAYER_TEXTURES_FOR_MAIN_THREAD =
     ''ACTION_ACQUIRE_LAYER_TEXTURES_FOR_MAIN_THREAD''"
| "ActionToString ACTION_MANAGE_TILES = ''ACTION_MANAGE_TILES''"

subsection \<open>Queries\<close>

type_synonym ssm = SchedulerStateMachine

definition CommitPending :: "ssm \<Rightarrow> bool" where
  "CommitPending s \<longleftrightarrow>
     commit_state s = COMMIT_STATE_FRAME_IN_PROGRESS \<or> commit_state s = COMMIT_STATE_READY_TO_COMMIT"

definition RedrawPending :: "ssm \<Rightarrow> bool" where "RedrawPending s = needs_redraw s"

definition ManageTilesPending :: "ssm \<Rightarrow> bool" where "ManageTilesPending s = needs_manage_tiles s"

definition HasSentBeginMainFrameThisFrame :: "ssm \<Rightarrow> bool" where
  "HasSentBeginMainFrameThisFrame s \<longleftrightarrow>
     current_frame_number s = last_frame_number_begin_main_frame_sent s"

definition HasUpdatedVisibleTilesThisFrame :: "ssm \<Rightarrow> bool" where
  "HasUpdatedVisibleTilesThisFrame s \<longleftrightarrow>
     current_frame_number s = last_frame_number_update_visible_tiles_was_called s"

definition HasSwappedThisFrame :: "ssm \<Rightarrow> bool" where
  "HasSwappedThisFrame s \<longleftrightarrow> current_frame_number s = last_frame_number_swap_performed s"

fun HasInitializedOutputSurface_state :: "OutputSurfaceState \<Rightarrow> bool" where
  "HasInitializedOutputSurface_state OUTPUT_SURFACE_LOST = False"
| "HasInitializedOutputSurface_state OUTPUT_SURFACE_CREATING = False"
| "HasInitializedOutputSurface_state OUTPUT_SURFACE_ACTIVE = True"
| "HasInitializedOutputSurface_state OUTPUT_SURFACE_WAITING_FOR_FIRST_COMMIT = True"
| "HasInitializedOutputSurface_state OUTPUT_SURFACE_WAITING_FOR_FIRST_ACTIVATION = True"

definition HasInitializedOutputSurface :: "ssm \<Rightarrow> bool" where
  "HasInitializedOutputSurface s = HasInitializedOutputSurface_state (output_surface_state s)"

definition PendingActivationsShouldBeForced :: "ssm \<Rightarrow> bool" where
  "PendingActivationsShouldBeForced s =
     (if texture_state s = LAYER_TEXTURE_STATE_ACQUIRED_BY_MAIN_THREAD then True
      else if output_surface_state s = OUTPUT_SURFACE_LOST then True
      else False)"

definition PendingDrawsShouldBeAborted :: "ssm \<Rightarrow> bool" where
  "PendingDrawsShouldBeAborted s =
     (if PendingActivationsShouldBeForced s then True
      else if \<not> can_draw s then True
      else if \<not> visible s then True
      else False)"

definition ShouldBeginOutputSurfaceCreation :: "ssm \<Rightarrow> bool" where
  "ShouldBeginOutputSurfaceCreation s =
     (if \<not> can_start s then False
      else if commit_state s \<noteq> COMMIT_STATE_IDLE then False
      else if active_tree_needs_first_draw s \<or> has_pending_tree s then False
      else output_surface_state s = OUTPUT_SURFACE_LOST)"

definition ShouldDraw :: "ssm \<Rightarrow> bool option" where
  "ShouldDraw s =
     (if readback_state s = READBACK_STATE_WAITING_FOR_REPLACEMENT_COMMIT \<or>
         readback_state s = READBACK_STATE_WAITING_FOR_REPLACEMENT_ACTIVATION then Some False
      else if readback_state s = READBACK_STATE_WAITING_FOR_DRAW_AND_READBACK then do {
        dcheck (commit_state s = COMMIT_STATE_WAITING_FOR_FIRST_DRAW);
        Some True
      }
      else if PendingDrawsShouldBeAborted s then Some (active_tree_needs_first_draw s)
      else if HasSwappedThisFrame s then Some False
      else if begin_impl_frame_state s \<noteq> BEGIN_IMPL_FRAME_STATE_INSIDE_DEADLINE then Some False
      else if forced_redraw_state s = FORCED_REDRAW_STATE_WAITING_FOR_DRAW then do {
        dcheck (commit_state s = COMMIT_STATE_WAITING_FOR_FIRST_DRAW);
        Some True
      }
      else Some (needs_redraw s))"

definition ShouldAcquireLayerTexturesForMainThread :: "ssm \<Rightarrow> bool option" where
  "ShouldAcquireLayerTexturesForMainThread s =
     (if \<not> main_thread_needs_layer_textures s then Some False
      else if texture_state s = LAYER_TEXTURE_STATE_UNLOCKED then Some True
      else do {
        dcheck (texture_state s = LAYER_TEXTURE_STATE_ACQUIRED_BY_IMPL_THREAD);
        Some False
      })"

definition ShouldActivatePendingTree :: "ssm \<Rightarrow> bool" where
  "ShouldActivatePendingTree s =
     (if \<not> has_pending_tree s then False
      else if active_tree_needs_first_draw s then False
      else if PendingActivationsShouldBeForced s then True
      else pending_tree_is_ready_for_activation s)"

definition ShouldUpdateVisibleTiles :: "ssm \<Rightarrow> bool" where
  "ShouldUpdateVisibleTiles s =
     (if \<not> impl_side_painting (settings s) then False
      else if HasUpdatedVisibleTilesThisFrame s then False
      else if \<not> HasInitializedOutputSurface s then False
      else if begin_impl_frame_state s \<noteq> BEGIN_IMPL_FRAME_STATE_INSIDE_DEADLINE then False
      else if swap_used_incomplete_tile s then True
      else False)"

definition SupportsProactiveBeginImplFrame :: "ssm \<Rightarrow> bool" where
  "SupportsProactiveBeginImplFrame s \<longleftrightarrow>
     \<not> using_synchronous_renderer_compositor (settings s) \<and> throttle_frame_production (settings s)"

definition BeginImplFrameNeededToDraw :: "ssm \<Rightarrow> bool" where
  "BeginImplFrameNeededToDraw s =
     (if \<not> HasInitializedOutputSurface s then False
      else if \<not> can_draw s then False
      else if forced_redraw_state s = FORCED_REDRAW_STATE_WAITING_FOR_DRAW then True
      else if \<not> visible s then False
      else if swap_used_incomplete_tile s then True
      else needs_redraw s)"

definition ProactiveBeginImplFrameWanted :: "ssm \<Rightarrow> bool" where
  "ProactiveBeginImplFrameWanted s =
     (if \<not> HasInitializedOutputSurface s then False
      else if \<not> visible s then False
      else if needs_commit s \<or> commit_state s \<noteq> COMMIT_STATE_IDLE then True
      else if has_pending_tree s then True
      else if needs_manage_tiles s then True
      else if last_frame_number_swap_performed s = current_frame_number s then True
      else False)"

definition BeginImplFrameNeeded :: "ssm \<Rightarrow> bool" where
  "BeginImplFrameNeeded s =
     (if \<not> SupportsProactiveBeginImplFrame s then BeginImplFrameNeededToDraw s
      else BeginImplFrameNeededToDraw s \<or> ProactiveBeginImplFrameWanted s)"

definition ShouldPollForAnticipatedDrawTriggers :: "ssm \<Rightarrow> bool" where
  "ShouldPollForAnticipatedDrawTriggers s =
     (if \<not> SupportsProactiveBeginImplFrame s
      then \<not> BeginImplFrameNeededToDraw s \<and> ProactiveBeginImplFrameWanted s
      else False)"

definition ShouldSendBeginMainFrame :: "ssm \<Rightarrow> bool" where
  "ShouldSendBeginMainFrame s =
     (if \<not> needs_commit s then False
      else if commit_state s \<noteq> COMMIT_STATE_IDLE then False
      else if has_pending_tree s then False
      else if readback_state s = READBACK_STATE_NEEDS_BEGIN_MAIN_FRAME then \<not> CommitPending s
      else if \<not> visible s then False
      else if output_surface_state s = OUTPUT_SURFACE_WAITING_FOR_FIRST_COMMIT then True
      else if deadline_scheduling_enabled (settings s) \<and>
              begin_impl_frame_state s = BEGIN_IMPL_FRAME_STATE_IDLE \<and> BeginImplFrameNeeded s then False
      else if forced_redraw_state s = FORCED_REDRAW_STATE_WAITING_FOR_COMMIT then True
      else if HasSentBeginMainFrameThisFrame s then False
      else if \<not> HasInitializedOutputSurface s then False
      else if skip_begin_main_frame_to_reduce_latency s then False
      else True)"

definition ShouldCommit :: "ssm \<Rightarrow> bool" where
  "ShouldCommit s \<longleftrightarrow> commit_state s = COMMIT_STATE_READY_TO_COMMIT"

definition ShouldManageTiles :: "ssm \<Rightarrow> bool" where
  "ShouldManageTiles s =
     (if last_frame_number_manage_tiles_called s = current_frame_number s then False
      else if begin_impl_frame_state s \<noteq> BEGIN_IMPL_FRAME_STATE_INSIDE_DEADLINE \<and>
              \<not> inside_poll_for_anticipated_draw_triggers s then False
      else needs_manage_tiles s)"

definition NextAction :: "ssm \<Rightarrow> Action option" where
  "NextAction s = do {
     acquire \<leftarrow> ShouldAcquireLayerTexturesForMainThread s;
     if acquire then Some ACTION_ACQUIRE_LAYER_TEXTURES_FOR_MAIN_THREAD
     else if ShouldUpdateVisibleTiles s then Some ACTION_UPDATE_VISIBLE_TILES
     else if ShouldActivatePendingTree s then Some ACTION_ACTIVATE_PENDING_TREE
     else if ShouldCommit s then Some ACTION_COMMIT
     else do {
       draw \<leftarrow> ShouldDraw s;
       if draw then
         (if readback_state s = READBACK_STATE_WAITING_FOR_DRAW_AND_READBACK
          then Some ACTION_DRAW_AND_READBACK
          else if PendingDrawsShouldBeAborted s then Some ACTION_DRAW_AND_SWAP_ABORT
          else if forced_redraw_state s = FORCED_REDRAW_STATE_WAITING_FOR_DRAW
          then Some ACTION_DRAW_AND_SWAP_FORCED
          else Some ACTION_DRAW_AND_SWAP_IF_POSSIBLE)
       else if ShouldManageTiles s then Some ACTION_MANAGE_TILES
       else if ShouldSendBeginMainFrame s then Some ACTION_SEND_BEGIN_MAIN_FRAME
       else if ShouldBeginOutputSurfaceCreation s then Some ACTION_BEGIN_OUTPUT_SURFACE_CREATION
       else Some ACTION_NONE
     }
   }"

definition CheckInvariants :: "ssm \<Rightarrow> unit option" where
  "CheckInvariants s =
     dcheck (\<not> (forced_redraw_state s = FORCED_REDRAW_STATE_WAITING_FOR_DRAW \<and>
                readback_state s = READBACK_STATE_WAITING_FOR_DRAW_AND_READBACK))"

definition ShouldTriggerBeginImplFrameDeadlineEarly :: "ssm \<Rightarrow> bool" where
  "ShouldTriggerBeginImplFrameDeadlineEarly s =
     (if readback_state s \<noteq> READBACK_STATE_IDLE then False
      else if begin_impl_frame_state s \<noteq> BEGIN_IMPL_FRAME_STATE_INSIDE_BEGIN_FRAME then False
      else if active_tree_needs_first_draw s then True
      else if \<not> needs_redraw s then False
      else if commit_state s = COMMIT_STATE_IDLE \<and> \<not> has_pending_tree s then True
      else if smoothness_takes_priority s then True
      else False)"

definition MainThreadIsInHighLatencyMode :: "ssm \<Rightarrow> bool" where
  "MainThreadIsInHighLatencyMode s =
     (if last_frame_number_begin_main_frame_sent s = current_frame_number s \<and>
         (begin_impl_frame_state s = BEGIN_IMPL_FRAME_STATE_BEGIN_FRAME_STARTING \<or>
          begin_impl_frame_state s = BEGIN_IMPL_FRAME_STATE_INSIDE_BEGIN_FRAME) then False
      else if commit_state s = COMMIT_STATE_FRAME_IN_PROGRESS \<or>
              commit_state s = COMMIT_STATE_READY_TO_COMMIT then True
      else if has_pending_tree s then True
      else if begin_impl_frame_state s = BEGIN_IMPL_FRAME_STATE_INSIDE_DEADLINE
      then (active_tree_needs_first_draw s \<or>
            last_frame_number_swap_performed s = current_frame_number s) \<and>
           last_frame_number_begin_main_frame_sent s \<noteq> current_frame_number s
      else active_tree_needs_first_draw s)"

subsection \<open>State changes by actions\<close>

definition commit_readback :: "bool \<Rightarrow> SynchronousReadbackState \<Rightarrow> SynchronousReadbackState option" where
  "commit_readback pending rb =
     (if rb = READBACK_STATE_WAITING_FOR_COMMIT
      then Some (if pending then READBACK_STATE_WAITING_FOR_ACTIVATION
                 else READBACK_STATE_WAITING_FOR_DRAW_AND_READBACK)
      else if rb = READBACK_STATE_WAITING_FOR_REPLACEMENT_COMMIT
      then Some (if pending then READBACK_STATE_WAITING_FOR_REPLACEMENT_ACTIVATION
                 else READBACK_STATE_IDLE)
      else do { dcheck (rb = READBACK_STATE_IDLE); Some rb })"

definition UpdateStateOnCommit :: "bool \<Rightarrow> ssm \<Rightarrow> ssm option" where
  "UpdateStateOnCommit commit_was_aborted s = do {
     let s = s\<lparr>commit_count := commit_count s + 1,
               has_pending_tree := impl_side_painting (settings s) \<and> \<not> commit_was_aborted\<rparr>;
     rb \<leftarrow> commit_readback (has_pending_tree s) (readback_state s);
     let s = s\<lparr>readback_state := rb\<rparr>;
     s \<leftarrow> (if readback_state s = READBACK_STATE_IDLE \<or>
              readback_state s = READBACK_STATE_WAITING_FOR_REPLACEMENT_ACTIVATION
           then do {
             let s = (if forced_redraw_state s = FORCED_REDRAW_STATE_WAITING_FOR_COMMIT
                      then s\<lparr>forced_redraw_state :=
                               (if has_pending_tree s then FORCED_REDRAW_STATE_WAITING_FOR_ACTIVATION
                                else FORCED_REDRAW_STATE_WAITING_FOR_DRAW)\<rparr>
                      else s);
             dcheck (output_surface_state s \<noteq> OUTPUT_SURFACE_WAITING_FOR_FIRST_ACTIVATION);
             Some (if output_surface_state s = OUTPUT_SURFACE_WAITING_FOR_FIRST_COMMIT
                   then (if has_pending_tree s
                         then s\<lparr>output_surface_state := OUTPUT_SURFACE_WAITING_FOR_FIRST_ACTIVATION\<rparr>
                         else s\<lparr>output_surface_state := OUTPUT_SURFACE_ACTIVE, needs_redraw := True\<rparr>)
                   else s)
           }
           else Some s);
     s \<leftarrow> (if \<not> commit_was_aborted then do {
             dcheck (commit_state s = COMMIT_STATE_READY_TO_COMMIT);
             Some (s\<lparr>commit_state := COMMIT_STATE_WAITING_FOR_FIRST_DRAW\<rparr>)
           }
           else if readback_state s \<noteq> READBACK_STATE_IDLE \<or>
                   forced_redraw_state s \<noteq> FORCED_REDRAW_STATE_IDLE
           then Some (s\<lparr>commit_state := COMMIT_STATE_WAITING_FOR_FIRST_DRAW\<rparr>)
           else Some (s\<lparr>commit_state := COMMIT_STATE_IDLE\<rparr>));
     let s = (if \<not> has_pending_tree s \<and>
                 (\<not> commit_was_aborted \<or>
                  readback_state s = READBACK_STATE_WAITING_FOR_DRAW_AND_READBACK \<or>
                  forced_redraw_state s = FORCED_REDRAW_STATE_WAITING_FOR_DRAW)
              then s\<lparr>needs_redraw := True, active_tree_needs_first_draw := True\<rparr>
              else s);
     let s = s\<lparr>pending_tree_is_ready_for_activation := False\<rparr>;
     let s = (if draw_if_possible_failed s then s\<lparr>last_frame_number_swap_performed := - 1\<rparr> else s);
     Some (s\<lparr>texture_state :=
               (if has_pending_tree s \<or> needs_redraw s then LAYER_TEXTURE_STATE_ACQUIRED_BY_IMPL_THREAD
                else LAYER_TEXTURE_STATE_UNLOCKED)\<rparr>)
   }"

definition UpdateStateOnActivation :: "ssm \<Rightarrow> ssm" where
  "UpdateStateOnActivation s =
     (let s = (if output_surface_state s = OUTPUT_SURFACE_WAITING_FOR_FIRST_ACTIVATION
               then s\<lparr>output_surface_state := OUTPUT_SURFACE_ACTIVE\<rparr> else s);
          s = (if forced_redraw_state s = FORCED_REDRAW_STATE_WAITING_FOR_ACTIVATION
               then s\<lparr>forced_redraw_state := FORCED_REDRAW_STATE_WAITING_FOR_DRAW\<rparr> else s);
          s = (if readback_state s = READBACK_STATE_WAITING_FOR_ACTIVATION
               then s\<lparr>readback_state := READBACK_STATE_WAITING_FOR_DRAW_AND_READBACK\<rparr>
               else if readback_state s = READBACK_STATE_WAITING_FOR_REPLACEMENT_ACTIVATION
               then s\<lparr>readback_state := READBACK_STATE_IDLE\<rparr> else s)
      in s\<lparr>has_pending_tree := False, pending_tree_is_ready_for_activation := False,
           active_tree_needs_first_draw := True, needs_redraw := True\<rparr>)"

definition UpdateStateOnDraw :: "bool \<Rightarrow> ssm \<Rightarrow> ssm option" where
  "UpdateStateOnDraw did_swap s = do {
     dcheck (readback_state s \<noteq> READBACK_STATE_WAITING_FOR_REPLACEMENT_COMMIT \<and>
             readback_state s \<noteq> READBACK_STATE_WAITING_FOR_REPLACEMENT_ACTIVATION);
     s \<leftarrow> (if readback_state s = READBACK_STATE_WAITING_FOR_DRAW_AND_READBACK then do {
             dcheck (commit_state s = COMMIT_STATE_WAITING_FOR_FIRST_DRAW);
             dcheck (\<not> has_pending_tree s);
             Some (s\<lparr>commit_state := COMMIT_STATE_FRAME_IN_PROGRESS,
                     readback_state := READBACK_STATE_WAITING_FOR_REPLACEMENT_COMMIT\<rparr>)
           }
           else if forced_redraw_state s = FORCED_REDRAW_STATE_WAITING_FOR_DRAW then do {
             dcheck (commit_state s = COMMIT_STATE_WAITING_FOR_FIRST_DRAW);
             Some (s\<lparr>commit_state := COMMIT_STATE_IDLE, forced_redraw_state := FORCED_REDRAW_STATE_IDLE\<rparr>)
           }
           else if commit_state s = COMMIT_STATE_WAITING_FOR_FIRST_DRAW \<and> \<not> has_pending_tree s
           then Some (s\<lparr>commit_state := COMMIT_STATE_IDLE\<rparr>)
           else Some s);
     let s = (if texture_state s = LAYER_TEXTURE_STATE_ACQUIRED_BY_IMPL_THREAD
              then s\<lparr>texture_state := LAYER_TEXTURE_STATE_UNLOCKED\<rparr> else s);
     let s = s\<lparr>needs_redraw := False, draw_if_possible_failed := False,
               active_tree_needs_first_draw := False\<rparr>;
     Some (if did_swap then s\<lparr>last_frame_number_swap_performed := current_frame_number s\<rparr> else s)
   }"

definition UpdateStateOnManageTiles :: "ssm \<Rightarrow> ssm" where
  "UpdateStateOnManageTiles s = s\<lparr>needs_manage_tiles := False\<rparr>"

fun UpdateState :: "Action \<Rightarrow> ssm \<Rightarrow> ssm option" where
  "UpdateState ACTION_NONE s = Some s"
| "UpdateState ACTION_UPDATE_VISIBLE_TILES s =
     Some (s\<lparr>last_frame_number_update_visible_tiles_was_called := current_frame_number s\<rparr>)"
| "UpdateState ACTION_ACTIVATE_PENDING_TREE s = Some (UpdateStateOnActivation s)"
| "UpdateState ACTION_SEND_BEGIN_MAIN_FRAME s = do {
     dcheck (\<not> has_pending_tree s);
     dcheck (visible s \<or> readback_state s = READBACK_STATE_NEEDS_BEGIN_MAIN_FRAME);
     let s = s\<lparr>commit_state := COMMIT_STATE_FRAME_IN_PROGRESS, needs_commit := False\<rparr>;
     let s = (if readback_state s = READBACK_STATE_NEEDS_BEGIN_MAIN_FRAME
              then s\<lparr>readback_state := READBACK_STATE_WAITING_FOR_COMMIT\<rparr> else s);
     Some (s\<lparr>last_frame_number_begin_main_frame_sent := current_frame_number s\<rparr>)
   }"
| "UpdateState ACTION_COMMIT s = UpdateStateOnCommit False s"
| "UpdateState ACTION_DRAW_AND_SWAP_FORCED s = UpdateStateOnDraw True s"
| "UpdateState ACTION_DRAW_AND_SWAP_IF_POSSIBLE s = UpdateStateOnDraw True s"
| "UpdateState ACTION_DRAW_AND_SWAP_ABORT s = UpdateStateOnDraw False s"
| "UpdateState ACTION_DRAW_AND_READBACK s = UpdateStateOnDraw False s"
| "UpdateState ACTION_BEGIN_OUTPUT_SURFACE_CREATION s = do {
     dcheck (output_surface_state s = OUTPUT_SURFACE_LOST);
     let s = s\<lparr>output_surface_state := OUTPUT_SURFACE_CREATING\<rparr>;
     dcheck (commit_state s = COMMIT_STATE_IDLE);
     dcheck (\<not> has_pending_tree s);
     dcheck (\<not> active_tree_needs_first_draw s);
     Some s
   }"
| "UpdateState ACTION_ACQUIRE_LAYER_TEXTURES_FOR_MAIN_THREAD s =
     Some (s\<lparr>texture_state := LAYER_TEXTURE_STATE_ACQUIRED_BY_MAIN_THREAD,
             main_thread_needs_layer_textures := False\<rparr>)"
| "UpdateState ACTION_MANAGE_TILES s = Some (UpdateStateOnManageTiles s)"

subsection \<open>State changes by events\<close>

definition SetMainThreadNeedsLayerTextures :: "ssm \<Rightarrow> ssm option" where
  "SetMainThreadNeedsLayerTextures s = do {
     dcheck (\<not> main_thread_needs_layer_textures s);
     dcheck (texture_state s \<noteq> LAYER_TEXTURE_STATE_ACQUIRED_BY_MAIN_THREAD);
     Some (s\<lparr>main_thread_needs_layer_textures := True\<rparr>)
   }"

definition SetSkipBeginMainFrameToReduceLatency :: "bool \<Rightarrow> ssm \<Rightarrow> ssm" where
  "SetSkipBeginMainFrameToReduceLatency skip s = s\<lparr>skip_begin_main_frame_to_reduce_latency := skip\<rparr>"

definition OnBeginImplFrame :: "BeginFrameArgs \<Rightarrow> ssm \<Rightarrow> ssm option" where
  "OnBeginImplFrame args s = do {
     let s = s\<lparr>current_frame_number := current_frame_number s + 1, last_begin_impl_frame_args := args\<rparr>;
     dcheck (begin_impl_frame_state s = BEGIN_IMPL_FRAME_STATE_IDLE);
     Some (s\<lparr>begin_impl_frame_state := BEGIN_IMPL_FRAME_STATE_BEGIN_FRAME_STARTING\<rparr>)
   }"

definition OnBeginImplFrameDeadlinePending :: "ssm \<Rightarrow> ssm option" where
  "OnBeginImplFrameDeadlinePending s = do {
     dcheck (begin_impl_frame_state s = BEGIN_IMPL_FRAME_STATE_BEGIN_FRAME_STARTING);
     Some (s\<lparr>begin_impl_frame_state := BEGIN_IMPL_FRAME_STATE_INSIDE_BEGIN_FRAME\<rparr>)
   }"

definition OnBeginImplFrameDeadline :: "ssm \<Rightarrow> ssm option" where
  "OnBeginImplFrameDeadline s = do {
     dcheck (begin_impl_frame_state s = BEGIN_IMPL_FRAME_STATE_INSIDE_BEGIN_FRAME);
     Some (s\<lparr>begin_impl_frame_state := BEGIN_IMPL_FRAME_STATE_INSIDE_DEADLINE\<rparr>)
   }"

definition OnBeginImplFrameIdle :: "ssm \<Rightarrow> ssm option" where
  "OnBeginImplFrameIdle s = do {
     dcheck (begin_impl_frame_state s = BEGIN_IMPL_FRAME_STATE_INSIDE_DEADLINE);
     Some (s\<lparr>begin_impl_frame_state := BEGIN_IMPL_FRAME_STATE_IDLE\<rparr>)
   }"

definition DidEnterPollForAnticipatedDrawTriggers :: "ssm \<Rightarrow> ssm" where
  "DidEnterPollForAnticipatedDrawTriggers s =
     s\<lparr>current_frame_number := current_frame_number s + 1,
       inside_poll_for_anticipated_draw_triggers := True\<rparr>"

definition DidLeavePollForAnticipatedDrawTriggers :: "ssm \<Rightarrow> ssm" where
  "DidLeavePollForAnticipatedDrawTriggers s = s\<lparr>inside_poll_for_anticipated_draw_triggers := False\<rparr>"

definition SetVisible :: "bool \<Rightarrow> ssm \<Rightarrow> ssm" where "SetVisible v s = s\<lparr>visible := v\<rparr>"

definition SetCanDraw :: "bool \<Rightarrow> ssm \<Rightarrow> ssm" where "SetCanDraw can s = s\<lparr>can_draw := can\<rparr>"

definition SetCanStart :: "ssm \<Rightarrow> ssm" where "SetCanStart s = s\<lparr>can_start := True\<rparr>"

definition SetNeedsRedraw :: "ssm \<Rightarrow> ssm" where "SetNeedsRedraw s = s\<lparr>needs_redraw := True\<rparr>"

definition SetNeedsManageTiles :: "ssm \<Rightarrow> ssm" where
  "SetNeedsManageTiles s = (if \<not> needs_manage_tiles s then s\<lparr>needs_manage_tiles := True\<rparr> else s)"

definition SetSwapUsedIncompleteTile :: "bool \<Rightarrow> ssm \<Rightarrow> ssm" where
  "SetSwapUsedIncompleteTile used s = s\<lparr>swap_used_incomplete_tile := used\<rparr>"

definition SetSmoothnessTakesPriority :: "bool \<Rightarrow> ssm \<Rightarrow> ssm" where
  "SetSmoothnessTakesPriority b s = s\<lparr>smoothness_takes_priority := b\<rparr>"

definition DidDrawIfPossibleCompleted :: "bool \<Rightarrow> ssm \<Rightarrow> ssm" where
  "DidDrawIfPossibleCompleted success s =
     (let s = s\<lparr>draw_if_possible_failed := \<not> success\<rparr> in
      if draw_if_possible_failed s then
        let s = s\<lparr>needs_redraw := True\<rparr> in
        if forced_redraw_state s \<noteq> FORCED_REDRAW_STATE_IDLE then s
        else
          let s = s\<lparr>needs_commit := True, consecutive_failed_draws := consecutive_failed_draws s + 1\<rparr> in
          if timeout_and_draw_when_animation_checkerboards (settings s) \<and>
             sint (maximum_number_of_failed_draws_before_draw_is_forced (settings s))
               \<le> sint (consecutive_failed_draws s)
          then s\<lparr>consecutive_failed_draws := 0,
                 forced_redraw_state := FORCED_REDRAW_STATE_WAITING_FOR_COMMIT\<rparr>
          else s
      else s\<lparr>consecutive_failed_draws := 0, forced_redraw_state := FORCED_REDRAW_STATE_IDLE\<rparr>)"

definition SetNeedsCommit :: "ssm \<Rightarrow> ssm" where "SetNeedsCommit s = s\<lparr>needs_commit := True\<rparr>"

definition SetNeedsForcedCommitForReadback :: "ssm \<Rightarrow> ssm option" where
  "SetNeedsForcedCommitForReadback s = do {
     dcheck (readback_state s = READBACK_STATE_IDLE \<or>
             readback_state s = READBACK_STATE_WAITING_FOR_REPLACEMENT_COMMIT);
     Some (if commit_state s = COMMIT_STATE_FRAME_IN_PROGRESS
           then s\<lparr>readback_state := READBACK_STATE_WAITING_FOR_COMMIT\<rparr>
           else s\<lparr>readback_state := READBACK_STATE_NEEDS_BEGIN_MAIN_FRAME\<rparr>)
   }"

definition FinishCommit :: "ssm \<Rightarrow> ssm option" where
  "FinishCommit s = do {
     dcheck (commit_state s = COMMIT_STATE_FRAME_IN_PROGRESS);
     Some (s\<lparr>commit_state := COMMIT_STATE_READY_TO_COMMIT\<rparr>)
   }"

definition BeginMainFrameAborted :: "bool \<Rightarrow> ssm \<Rightarrow> ssm option" where
  "BeginMainFrameAborted did_handle s = do {
     dcheck (commit_state s = COMMIT_STATE_FRAME_IN_PROGRESS);
     if did_handle then UpdateStateOnCommit True s
     else do {
       dcheck (readback_state s \<noteq> READBACK_STATE_WAITING_FOR_COMMIT);
       Some (SetNeedsCommit (s\<lparr>commit_state := COMMIT_STATE_IDLE\<rparr>))
     }
   }"

definition DidManageTiles :: "ssm \<Rightarrow> ssm" where
  "DidManageTiles s =
     s\<lparr>needs_manage_tiles := False, last_frame_number_manage_tiles_called := current_frame_number s\<rparr>"

definition DidLoseOutputSurface :: "ssm \<Rightarrow> ssm" where
  "DidLoseOutputSurface s =
     (if output_surface_state s = OUTPUT_SURFACE_LOST \<or> output_surface_state s = OUTPUT_SURFACE_CREATING
      then s
      else s\<lparr>output_surface_state := OUTPUT_SURFACE_LOST, needs_redraw := False,
             begin_impl_frame_state := BEGIN_IMPL_FRAME_STATE_IDLE\<rparr>)"

definition NotifyReadyToActivate :: "ssm \<Rightarrow> ssm" where
  "NotifyReadyToActivate s =
     (if has_pending_tree s then s\<lparr>pending_tree_is_ready_for_activation := True\<rparr> else s)"

definition DidCreateAndInitializeOutputSurface :: "ssm \<Rightarrow> ssm option" where
  "DidCreateAndInitializeOutputSurface s = do {
     dcheck (output_surface_state s = OUTPUT_SURFACE_CREATING);
     let s = s\<lparr>output_surface_state := OUTPUT_SURFACE_WAITING_FOR_FIRST_COMMIT\<rparr>;
     let s = (if did_create_and_initialize_first_output_surface s then s\<lparr>needs_commit := True\<rparr> else s);
     Some (s\<lparr>did_create_and_initialize_first_output_surface := True\<rparr>)
   }"

end
