(* ===== verification/Scheduler_Invariants.thy ===== *)
theory Scheduler_Invariants
  imports Scheduler_State_Machine
begin

section \<open>Reachable states of the compositor's state machine\<close>

text \<open>
  A step relation for \<open>SchedulerStateMachine\<close> (an action chosen by \<open>NextAction\<close>, or a call of the
  embedder), the invariant that relates the phases of commit, pending tree, readback and forced redraw,
  the proof that no \<open>DCHECK\<close> of an action fails in a reachable state, and a measure that every action
  makes smaller.
\<close>

subsection \<open>Steps\<close>

text \<open>
  The calls of the embedder (the public interface of \<open>Scheduler\<close>) and the other changes of the state
  machine. \<open>Scheduler::SetNeedsForcedCommitForReadback\<close> calls \<open>SetNeedsCommit\<close> first.
\<close>

datatype SchedulerCall =
    Call_SetCanStart | Call_SetVisible bool | Call_SetCanDraw bool | Call_NotifyReadyToActivate
  | Call_SetNeedsCommit | Call_SetNeedsForcedCommitForReadback | Call_SetNeedsRedraw
  | Call_SetNeedsManageTiles | Call_SetSwapUsedIncompleteTile bool | Call_SetSmoothnessTakesPriority bool
  | Call_SetMainThreadNeedsLayerTextures | Call_FinishCommit | Call_BeginMainFrameAborted bool
  | Call_DidManageTiles | Call_DidLoseOutputSurface | Call_DidCreateAndInitializeOutputSurface

fun apply_call :: "SchedulerCall \<Rightarrow> ssm \<Rightarrow> ssm option" where
  "apply_call Call_SetCanStart s = Some (SetCanStart s)"
| "apply_call (Call_SetVisible b) s = Some (SetVisible b s)"
| "apply_call (Call_SetCanDraw b) s = Some (SetCanDraw b s)"
| "apply_call Call_NotifyReadyToActivate s = Some (NotifyReadyToActivate s)"
| "apply_call Call_SetNeedsCommit s = Some (SetNeedsCommit s)"
| "apply_call Call_SetNeedsForcedCommitForReadback s = SetNeedsForcedCommitForReadback (SetNeedsCommit s)"
| "apply_call Call_SetNeedsRedraw s = Some (SetNeedsRedraw s)"
| "apply_call Call_SetNeedsManageTiles s = Some (SetNeedsManageTiles s)"
| "apply_call (Call_SetSwapUsedIncompleteTile b) s = Some (SetSwapUsedIncompleteTile b s)"
| "apply_call (Call_SetSmoothnessTakesPriority b) s = Some (SetSmoothnessTakesPriority b s)"
| "apply_call Call_SetMainThreadNeedsLayerTextures s = SetMainThreadNeedsLayerTextures s"
| "apply_call Call_FinishCommit s = FinishCommit s"
| "apply_call (Call_BeginMainFrameAborted b) s = BeginMainFrameAborted b s"
| "apply_call Call_DidManageTiles s = Some (DidManageTiles s)"
| "apply_call Call_DidLoseOutputSurface s = Some (DidLoseOutputSurface s)"
| "apply_call Call_DidCreateAndInitializeOutputSurface s = DidCreateAndInitializeOutputSurface s"

inductive ssm_step :: "ssm \<Rightarrow> ssm \<Rightarrow> bool" where
  act: "NextAction s = Some a \<Longrightarrow> UpdateState a s = Some s' \<Longrightarrow> ssm_step s s'"
| completed: "ssm_step s (DidDrawIfPossibleCompleted did_draw s)"
| call: "apply_call c s = Some s' \<Longrightarrow>
    (c = Call_SetNeedsForcedCommitForReadback \<Longrightarrow> commit_state s \<noteq> COMMIT_STATE_READY_TO_COMMIT) \<Longrightarrow> ssm_step s s'"
| frame: "OnBeginImplFrame args s = Some s' \<Longrightarrow> ssm_step s s'"
| skip: "ssm_step s (SetSkipBeginMainFrameToReduceLatency b s)"
| deadline_pending: "OnBeginImplFrameDeadlinePending s = Some s' \<Longrightarrow> ssm_step s s'"
| deadline: "OnBeginImplFrameDeadline s = Some s' \<Longrightarrow> ssm_step s s'"
| idle: "OnBeginImplFrameIdle s = Some s' \<Longrightarrow> ssm_step s s'"
| enter_poll: "ssm_step s (DidEnterPollForAnticipatedDrawTriggers s)"
| leave_poll: "ssm_step s (DidLeavePollForAnticipatedDrawTriggers s)"

subsection \<open>The next action\<close>

lemma NextAction_cases:
  assumes "NextAction s = Some a"
  obtains "a = ACTION_ACQUIRE_LAYER_TEXTURES_FOR_MAIN_THREAD" "ShouldAcquireLayerTexturesForMainThread s = Some True"
  | "a = ACTION_UPDATE_VISIBLE_TILES" "ShouldUpdateVisibleTiles s"
  | "a = ACTION_ACTIVATE_PENDING_TREE" "ShouldActivatePendingTree s"
  | "a = ACTION_COMMIT" "ShouldCommit s"
  | "a = ACTION_DRAW_AND_READBACK" "ShouldDraw s = Some True" "readback_state s = READBACK_STATE_WAITING_FOR_DRAW_AND_READBACK"
      "\<not> ShouldActivatePendingTree s"
  | "a = ACTION_DRAW_AND_SWAP_ABORT" "ShouldDraw s = Some True" "readback_state s \<noteq> READBACK_STATE_WAITING_FOR_DRAW_AND_READBACK"
      "PendingDrawsShouldBeAborted s"
  | "a = ACTION_DRAW_AND_SWAP_FORCED" "ShouldDraw s = Some True" "readback_state s \<noteq> READBACK_STATE_WAITING_FOR_DRAW_AND_READBACK"
      "\<not> PendingDrawsShouldBeAborted s" "forced_redraw_state s = FORCED_REDRAW_STATE_WAITING_FOR_DRAW"
  | "a = ACTION_DRAW_AND_SWAP_IF_POSSIBLE" "ShouldDraw s = Some True" "readback_state s \<noteq> READBACK_STATE_WAITING_FOR_DRAW_AND_READBACK"
      "\<not> PendingDrawsShouldBeAborted s" "forced_redraw_state s \<noteq> FORCED_REDRAW_STATE_WAITING_FOR_DRAW"
  | "a = ACTION_MANAGE_TILES" "ShouldManageTiles s"
  | "a = ACTION_SEND_BEGIN_MAIN_FRAME" "ShouldSendBeginMainFrame s"
  | "a = ACTION_BEGIN_OUTPUT_SURFACE_CREATION" "ShouldBeginOutputSurfaceCreation s"
  | "a = ACTION_NONE"
proof (cases "ShouldAcquireLayerTexturesForMainThread s")
  case (Some acq)
  note acquire = this
  show thesis
  proof (cases "acq \<or> ShouldUpdateVisibleTiles s \<or> ShouldActivatePendingTree s \<or> ShouldCommit s")
    case True
    with assms acquire that(1-4) show thesis by (auto simp: NextAction_def split: if_splits)
  next
    case False
    with assms acquire obtain d where d: "ShouldDraw s = Some d" by (cases "ShouldDraw s") (auto simp: NextAction_def)
    show thesis
    proof (cases d)
      case True
      with False assms acquire d that(5-8) show thesis by (auto simp: NextAction_def split: if_splits)
    next
      case d_False: False
      with False assms acquire d that(9-12) show thesis by (auto simp: NextAction_def split: if_splits)
    qed
  qed
qed (use assms in \<open>simp add: NextAction_def\<close>)

lemma ShouldDraw_swap:
  assumes "ShouldDraw s = Some True" "readback_state s \<noteq> READBACK_STATE_WAITING_FOR_DRAW_AND_READBACK"
    and "\<not> PendingDrawsShouldBeAborted s"
  shows "\<not> HasSwappedThisFrame s" "begin_impl_frame_state s = BEGIN_IMPL_FRAME_STATE_INSIDE_DEADLINE"
  using assms by (auto simp: ShouldDraw_def split: if_splits)

subsection \<open>Commit in closed form\<close>

text \<open>\<open>UpdateStateOnCommit\<close> as one update, with the new values of its fields.\<close>

definition commit_advances :: "SynchronousReadbackState \<Rightarrow> bool" where
  "commit_advances rb \<longleftrightarrow> rb = READBACK_STATE_IDLE \<or> rb = READBACK_STATE_WAITING_FOR_REPLACEMENT_ACTIVATION"

definition commit_forced ::
  "bool \<Rightarrow> SynchronousReadbackState \<Rightarrow> ForcedRedrawOnTimeoutState \<Rightarrow> ForcedRedrawOnTimeoutState" where
  "commit_forced pend rb f =
     (if commit_advances rb \<and> f = FORCED_REDRAW_STATE_WAITING_FOR_COMMIT
      then if pend then FORCED_REDRAW_STATE_WAITING_FOR_ACTIVATION else FORCED_REDRAW_STATE_WAITING_FOR_DRAW
      else f)"

definition commit_output :: "bool \<Rightarrow> SynchronousReadbackState \<Rightarrow> OutputSurfaceState \<Rightarrow> OutputSurfaceState" where
  "commit_output pend rb out =
     (if commit_advances rb \<and> out = OUTPUT_SURFACE_WAITING_FOR_FIRST_COMMIT
      then if pend then OUTPUT_SURFACE_WAITING_FOR_FIRST_ACTIVATION else OUTPUT_SURFACE_ACTIVE
      else out)"

definition commit_new_tree ::
  "bool \<Rightarrow> bool \<Rightarrow> SynchronousReadbackState \<Rightarrow> ForcedRedrawOnTimeoutState \<Rightarrow> bool" where
  "commit_new_tree aborted pend rb f \<longleftrightarrow>
     \<not> pend \<and> (\<not> aborted \<or> rb = READBACK_STATE_WAITING_FOR_DRAW_AND_READBACK \<or>
                f = FORCED_REDRAW_STATE_WAITING_FOR_DRAW)"

definition commit_redraw ::
  "bool \<Rightarrow> bool \<Rightarrow> SynchronousReadbackState \<Rightarrow> ForcedRedrawOnTimeoutState \<Rightarrow> OutputSurfaceState \<Rightarrow> bool" where
  "commit_redraw aborted pend rb f out \<longleftrightarrow>
     commit_new_tree aborted pend rb f \<or>
     commit_advances rb \<and> out = OUTPUT_SURFACE_WAITING_FOR_FIRST_COMMIT \<and> \<not> pend"

definition committed :: "bool \<Rightarrow> SynchronousReadbackState \<Rightarrow> ssm \<Rightarrow> ssm" where
  "committed aborted rb s =
     (let pend = impl_side_painting (settings s) \<and> \<not> aborted;
          f = commit_forced pend rb (forced_redraw_state s);
          redraw = needs_redraw s \<or> commit_redraw aborted pend rb f (output_surface_state s)
      in s\<lparr>commit_count := commit_count s + 1, has_pending_tree := pend, readback_state := rb,
           forced_redraw_state := f, output_surface_state := commit_output pend rb (output_surface_state s),
           commit_state := (if \<not> aborted \<or> rb \<noteq> READBACK_STATE_IDLE \<or> f \<noteq> FORCED_REDRAW_STATE_IDLE
                            then COMMIT_STATE_WAITING_FOR_FIRST_DRAW else COMMIT_STATE_IDLE),
           needs_redraw := redraw,
           active_tree_needs_first_draw := active_tree_needs_first_draw s \<or> commit_new_tree aborted pend rb f,
           pending_tree_is_ready_for_activation := False,
           last_frame_number_swap_performed :=
             (if draw_if_possible_failed s then - 1 else last_frame_number_swap_performed s),
           texture_state := (if pend \<or> redraw then LAYER_TEXTURE_STATE_ACQUIRED_BY_IMPL_THREAD
                             else LAYER_TEXTURE_STATE_UNLOCKED)\<rparr>)"

lemmas commit_defs = commit_advances_def commit_forced_def commit_output_def commit_new_tree_def commit_redraw_def

lemma UpdateStateOnCommit_aborted:
  "UpdateStateOnCommit True s =
     (case commit_readback False (readback_state s) of
        None \<Rightarrow> None
      | Some rb \<Rightarrow>
          if commit_advances rb \<and> output_surface_state s = OUTPUT_SURFACE_WAITING_FOR_FIRST_ACTIVATION
          then None else Some (committed True rb s))"
proof (cases s)
  case (fields a1 a2 a3 a4 a5 a6 a7)
  show ?thesis
    unfolding fields UpdateStateOnCommit_def committed_def Let_def
    apply (simp cong: if_cong)
    apply (cases "commit_readback False a7")
    apply (simp_all add: commit_defs)
    done
qed

lemma UpdateStateOnCommit_done:
  "UpdateStateOnCommit False s =
     (case commit_readback (impl_side_painting (settings s)) (readback_state s) of
        None \<Rightarrow> None
      | Some rb \<Rightarrow>
          if commit_advances rb \<and> output_surface_state s = OUTPUT_SURFACE_WAITING_FOR_FIRST_ACTIVATION \<or>
             commit_state s \<noteq> COMMIT_STATE_READY_TO_COMMIT
          then None else Some (committed False rb s))"
proof (cases "commit_readback (impl_side_painting (settings s)) (readback_state s)")
  case None
  then show ?thesis by (simp add: UpdateStateOnCommit_def Let_def)
next
  case (Some rb)
  show ?thesis
  proof (cases "commit_state s = COMMIT_STATE_READY_TO_COMMIT"; cases "impl_side_painting (settings s)"; cases "commit_advances rb";
      cases "draw_if_possible_failed s")
  qed (use Some in \<open>cases s; simp add: UpdateStateOnCommit_def committed_def commit_defs Let_def\<close>)+
qed

subsection \<open>The invariant\<close>

definition phase_ok ::
  "bool \<Rightarrow> bool \<Rightarrow> bool \<Rightarrow> CommitState \<Rightarrow> ForcedRedrawOnTimeoutState \<Rightarrow> SynchronousReadbackState \<Rightarrow> OutputSurfaceState \<Rightarrow> bool" where
  "phase_ok impl pend first c f rb out \<longleftrightarrow>
     (pend \<longrightarrow> impl \<and> c = COMMIT_STATE_WAITING_FOR_FIRST_DRAW) \<and>
     (first \<longrightarrow> c = COMMIT_STATE_WAITING_FOR_FIRST_DRAW) \<and>
     (c = COMMIT_STATE_WAITING_FOR_FIRST_DRAW \<longrightarrow> pend \<or> first) \<and>
     (f = FORCED_REDRAW_STATE_WAITING_FOR_ACTIVATION \<longrightarrow> pend \<and>
        (rb = READBACK_STATE_IDLE \<or> rb = READBACK_STATE_NEEDS_BEGIN_MAIN_FRAME \<or>
         rb = READBACK_STATE_WAITING_FOR_REPLACEMENT_ACTIVATION)) \<and>
     (f = FORCED_REDRAW_STATE_WAITING_FOR_DRAW \<longrightarrow> c = COMMIT_STATE_WAITING_FOR_FIRST_DRAW \<and> \<not> pend \<and>
        (rb = READBACK_STATE_IDLE \<or> rb = READBACK_STATE_NEEDS_BEGIN_MAIN_FRAME)) \<and>
     (rb = READBACK_STATE_NEEDS_BEGIN_MAIN_FRAME \<longrightarrow>
        c = COMMIT_STATE_IDLE \<or> c = COMMIT_STATE_WAITING_FOR_FIRST_DRAW) \<and>
     (rb = READBACK_STATE_WAITING_FOR_COMMIT \<longrightarrow>
        c = COMMIT_STATE_FRAME_IN_PROGRESS \<or> c = COMMIT_STATE_READY_TO_COMMIT) \<and>
     (rb = READBACK_STATE_WAITING_FOR_ACTIVATION \<or> rb = READBACK_STATE_WAITING_FOR_REPLACEMENT_ACTIVATION \<longrightarrow>
        pend) \<and>
     (rb = READBACK_STATE_WAITING_FOR_DRAW_AND_READBACK \<longrightarrow>
        c = COMMIT_STATE_WAITING_FOR_FIRST_DRAW \<and> \<not> pend) \<and>
     (rb = READBACK_STATE_WAITING_FOR_REPLACEMENT_COMMIT \<longrightarrow> c \<noteq> COMMIT_STATE_WAITING_FOR_FIRST_DRAW) \<and>
     (out = OUTPUT_SURFACE_WAITING_FOR_FIRST_ACTIVATION \<longrightarrow> pend)"

definition ssm_inv :: "ssm \<Rightarrow> bool" where
  "ssm_inv s \<longleftrightarrow>
     phase_ok (impl_side_painting (settings s)) (has_pending_tree s) (active_tree_needs_first_draw s)
       (commit_state s) (forced_redraw_state s) (readback_state s) (output_surface_state s) \<and>
     (main_thread_needs_layer_textures s \<longrightarrow> texture_state s \<noteq> LAYER_TEXTURE_STATE_ACQUIRED_BY_MAIN_THREAD)"

lemma ssm_inv_new: "ssm_inv (SchedulerStateMachine_new st)"
  by (simp add: ssm_inv_def phase_ok_def SchedulerStateMachine_new_def)

lemma phase_draw_rb:
  "phase_ok impl pend first c f READBACK_STATE_WAITING_FOR_DRAW_AND_READBACK out \<Longrightarrow>
   phase_ok impl pend False COMMIT_STATE_FRAME_IN_PROGRESS f READBACK_STATE_WAITING_FOR_REPLACEMENT_COMMIT out"
  by (auto simp: phase_ok_def)

lemma phase_draw_forced:
  "phase_ok impl pend first c FORCED_REDRAW_STATE_WAITING_FOR_DRAW rb out \<Longrightarrow>
   phase_ok impl pend False COMMIT_STATE_IDLE FORCED_REDRAW_STATE_IDLE rb out"
  by (auto simp: phase_ok_def)

lemma phase_draw:
  "phase_ok impl pend first c f rb out \<Longrightarrow> rb \<noteq> READBACK_STATE_WAITING_FOR_DRAW_AND_READBACK \<Longrightarrow>
   f \<noteq> FORCED_REDRAW_STATE_WAITING_FOR_DRAW \<Longrightarrow>
   phase_ok impl pend False (if c = COMMIT_STATE_WAITING_FOR_FIRST_DRAW \<and> \<not> pend then COMMIT_STATE_IDLE else c) f rb out"
  by (auto simp: phase_ok_def)

lemma phase_activation:
  "phase_ok impl True first c f rb out \<Longrightarrow>
   phase_ok impl False True c
     (if f = FORCED_REDRAW_STATE_WAITING_FOR_ACTIVATION then FORCED_REDRAW_STATE_WAITING_FOR_DRAW else f)
     (if rb = READBACK_STATE_WAITING_FOR_ACTIVATION then READBACK_STATE_WAITING_FOR_DRAW_AND_READBACK
      else if rb = READBACK_STATE_WAITING_FOR_REPLACEMENT_ACTIVATION then READBACK_STATE_IDLE else rb)
     (if out = OUTPUT_SURFACE_WAITING_FOR_FIRST_ACTIVATION then OUTPUT_SURFACE_ACTIVE else out)"
  by (auto simp: phase_ok_def)

lemma phase_commit:
  assumes "phase_ok impl p first c f rb0 out" "c = COMMIT_STATE_FRAME_IN_PROGRESS \<or> c = COMMIT_STATE_READY_TO_COMMIT"
    and "commit_readback pend rb0 = Some rb" "pend = (impl \<and> \<not> aborted)"
  shows "phase_ok impl pend (first \<or> commit_new_tree aborted pend rb (commit_forced pend rb f))
    (if \<not> aborted \<or> rb \<noteq> READBACK_STATE_IDLE \<or> commit_forced pend rb f \<noteq> FORCED_REDRAW_STATE_IDLE
     then COMMIT_STATE_WAITING_FOR_FIRST_DRAW else COMMIT_STATE_IDLE)
    (commit_forced pend rb f) rb (commit_output pend rb out)"
  using assms
  by (cases rb0; cases f; auto simp: phase_ok_def commit_readback_def commit_defs)

lemma phase_commit_readback:
  assumes "phase_ok impl p first c f rb0 out" "c = COMMIT_STATE_FRAME_IN_PROGRESS \<or> c = COMMIT_STATE_READY_TO_COMMIT"
  shows "\<exists>rb. commit_readback pend rb0 = Some rb" "out \<noteq> OUTPUT_SURFACE_WAITING_FOR_FIRST_ACTIVATION"
  using assms by (cases rb0; auto simp: phase_ok_def commit_readback_def)+

lemma committed_fields:
  fixes aborted rb s
  defines "pend \<equiv> impl_side_painting (settings s) \<and> \<not> aborted"
  defines "f \<equiv> commit_forced pend rb (forced_redraw_state s)"
  shows "settings (committed aborted rb s) = settings s"
    "has_pending_tree (committed aborted rb s) = pend"
    "active_tree_needs_first_draw (committed aborted rb s) \<longleftrightarrow>
       active_tree_needs_first_draw s \<or> commit_new_tree aborted pend rb f"
    "commit_state (committed aborted rb s) =
       (if \<not> aborted \<or> rb \<noteq> READBACK_STATE_IDLE \<or> f \<noteq> FORCED_REDRAW_STATE_IDLE
        then COMMIT_STATE_WAITING_FOR_FIRST_DRAW else COMMIT_STATE_IDLE)"
    "forced_redraw_state (committed aborted rb s) = f"
    "readback_state (committed aborted rb s) = rb"
    "output_surface_state (committed aborted rb s) = commit_output pend rb (output_surface_state s)"
    "main_thread_needs_layer_textures (committed aborted rb s) = main_thread_needs_layer_textures s"
    "texture_state (committed aborted rb s) \<noteq> LAYER_TEXTURE_STATE_ACQUIRED_BY_MAIN_THREAD"
    "HasUpdatedVisibleTilesThisFrame (committed aborted rb s) = HasUpdatedVisibleTilesThisFrame s"
    "needs_manage_tiles (committed aborted rb s) = needs_manage_tiles s"
    "needs_commit (committed aborted rb s) = needs_commit s"
  unfolding committed_def Let_def f_def pend_def HasUpdatedVisibleTilesThisFrame_def by simp_all

lemma ssm_inv_committed:
  assumes "ssm_inv s" "CommitPending s"
    and "commit_readback (impl_side_painting (settings s) \<and> \<not> aborted) (readback_state s) = Some rb"
  shows "ssm_inv (committed aborted rb s)"
  unfolding ssm_inv_def committed_fields(1-7)
proof
  show "main_thread_needs_layer_textures (committed aborted rb s) \<longrightarrow>
    texture_state (committed aborted rb s) \<noteq> LAYER_TEXTURE_STATE_ACQUIRED_BY_MAIN_THREAD"
    using committed_fields(9) by blast
qed (rule phase_commit [where p = "has_pending_tree s", OF _ _ assms(3) refl],
  use assms(1,2) in \<open>simp_all add: ssm_inv_def CommitPending_def\<close>)

lemma UpdateStateOnCommit_inv:
  assumes "ssm_inv s" "CommitPending s" "aborted \<or> commit_state s = COMMIT_STATE_READY_TO_COMMIT"
  shows "\<exists>s'. UpdateStateOnCommit aborted s = Some s' \<and> ssm_inv s'"
proof -
  let ?pend = "impl_side_painting (settings s) \<and> \<not> aborted"
  from assms obtain rb where rb: "commit_readback ?pend (readback_state s) = Some rb"
    and out: "output_surface_state s \<noteq> OUTPUT_SURFACE_WAITING_FOR_FIRST_ACTIVATION"
    using phase_commit_readback(1) [where pend = ?pend] phase_commit_readback(2)
    unfolding ssm_inv_def CommitPending_def by metis
  have "UpdateStateOnCommit aborted s = Some (committed aborted rb s)"
    using rb out assms(3) by (cases aborted) (simp_all add: UpdateStateOnCommit_aborted UpdateStateOnCommit_done)
  with ssm_inv_committed [OF assms(1,2) rb] show ?thesis by blast
qed

lemma UpdateStateOnDraw_inv:
  assumes "ssm_inv s" "ShouldDraw s = Some True"
  shows "\<exists>s'. UpdateStateOnDraw did_swap s = Some s' \<and> ssm_inv s'"
proof -
  let ?rb = "readback_state s" and ?f = "forced_redraw_state s"
  have ph: "phase_ok (impl_side_painting (settings s)) (has_pending_tree s) (active_tree_needs_first_draw s)
       (commit_state s) ?f ?rb (output_surface_state s)"
    and tex: "main_thread_needs_layer_textures s \<longrightarrow> texture_state s \<noteq> LAYER_TEXTURE_STATE_ACQUIRED_BY_MAIN_THREAD"
    using assms(1) by (simp_all add: ssm_inv_def)
  have ne: "?rb \<noteq> READBACK_STATE_WAITING_FOR_REPLACEMENT_COMMIT" "?rb \<noteq> READBACK_STATE_WAITING_FOR_REPLACEMENT_ACTIVATION"
    using assms(2) by (auto simp: ShouldDraw_def split: if_splits)
  consider (rb) "?rb = READBACK_STATE_WAITING_FOR_DRAW_AND_READBACK"
    | (forced) "?rb \<noteq> READBACK_STATE_WAITING_FOR_DRAW_AND_READBACK" "?f = FORCED_REDRAW_STATE_WAITING_FOR_DRAW"
    | (plain) "?rb \<noteq> READBACK_STATE_WAITING_FOR_DRAW_AND_READBACK" "?f \<noteq> FORCED_REDRAW_STATE_WAITING_FOR_DRAW"
    by blast
  then show ?thesis
  proof cases
    case rb
    with ph have "commit_state s = COMMIT_STATE_WAITING_FOR_FIRST_DRAW" "\<not> has_pending_tree s" by (auto simp: phase_ok_def)
    with rb ph tex show ?thesis
      by (auto simp: UpdateStateOnDraw_def Let_def ssm_inv_def intro: phase_draw_rb)
  next
    case forced
    with ph have "commit_state s = COMMIT_STATE_WAITING_FOR_FIRST_DRAW" by (auto simp: phase_ok_def)
    with forced ne ph tex show ?thesis
      by (auto simp: UpdateStateOnDraw_def Let_def ssm_inv_def intro: phase_draw_forced)
  next
    case plain
    with ne ph tex phase_draw [OF ph plain] show ?thesis
      by (auto simp: UpdateStateOnDraw_def Let_def ssm_inv_def)
  qed
qed

lemma UpdateStateOnActivation_fields:
  "settings (UpdateStateOnActivation s) = settings s"
  "has_pending_tree (UpdateStateOnActivation s) = False"
  "active_tree_needs_first_draw (UpdateStateOnActivation s) = True"
  "commit_state (UpdateStateOnActivation s) = commit_state s"
  "forced_redraw_state (UpdateStateOnActivation s) =
     (if forced_redraw_state s = FORCED_REDRAW_STATE_WAITING_FOR_ACTIVATION
      then FORCED_REDRAW_STATE_WAITING_FOR_DRAW else forced_redraw_state s)"
  "readback_state (UpdateStateOnActivation s) =
     (if readback_state s = READBACK_STATE_WAITING_FOR_ACTIVATION then READBACK_STATE_WAITING_FOR_DRAW_AND_READBACK
      else if readback_state s = READBACK_STATE_WAITING_FOR_REPLACEMENT_ACTIVATION then READBACK_STATE_IDLE
      else readback_state s)"
  "output_surface_state (UpdateStateOnActivation s) =
     (if output_surface_state s = OUTPUT_SURFACE_WAITING_FOR_FIRST_ACTIVATION
      then OUTPUT_SURFACE_ACTIVE else output_surface_state s)"
  "main_thread_needs_layer_textures (UpdateStateOnActivation s) = main_thread_needs_layer_textures s"
  "texture_state (UpdateStateOnActivation s) = texture_state s"
  "HasUpdatedVisibleTilesThisFrame (UpdateStateOnActivation s) = HasUpdatedVisibleTilesThisFrame s"
  "HasSwappedThisFrame (UpdateStateOnActivation s) = HasSwappedThisFrame s"
  "needs_manage_tiles (UpdateStateOnActivation s) = needs_manage_tiles s"
  "needs_commit (UpdateStateOnActivation s) = needs_commit s"
  by (simp_all add: UpdateStateOnActivation_def Let_def HasUpdatedVisibleTilesThisFrame_def HasSwappedThisFrame_def)

lemma UpdateStateOnActivation_inv:
  assumes "ssm_inv s" "has_pending_tree s"
  shows "ssm_inv (UpdateStateOnActivation s)"
proof -
  have "phase_ok (impl_side_painting (settings s)) True (active_tree_needs_first_draw s)
       (commit_state s) (forced_redraw_state s) (readback_state s) (output_surface_state s)"
    using assms by (simp add: ssm_inv_def)
  from phase_activation [OF this] assms(1) show ?thesis
    unfolding ssm_inv_def UpdateStateOnActivation_fields by blast
qed

lemma phase_send:
  assumes "phase_ok impl False first COMMIT_STATE_IDLE f rb out"
  shows "rb \<noteq> READBACK_STATE_NEEDS_BEGIN_MAIN_FRAME \<Longrightarrow> phase_ok impl False first COMMIT_STATE_FRAME_IN_PROGRESS f rb out"
    "rb = READBACK_STATE_NEEDS_BEGIN_MAIN_FRAME \<Longrightarrow>
       phase_ok impl False first COMMIT_STATE_FRAME_IN_PROGRESS f READBACK_STATE_WAITING_FOR_COMMIT out"
  using assms by (auto simp: phase_ok_def)

lemma phase_output:
  "phase_ok impl pend first c f rb out \<Longrightarrow> out' \<noteq> OUTPUT_SURFACE_WAITING_FOR_FIRST_ACTIVATION \<Longrightarrow>
   phase_ok impl pend first c f rb out'"
  by (auto simp: phase_ok_def)

lemma phase_forced:
  "phase_ok impl pend first c f rb out \<Longrightarrow>
   f' = FORCED_REDRAW_STATE_IDLE \<or> f' = FORCED_REDRAW_STATE_WAITING_FOR_COMMIT \<Longrightarrow>
   phase_ok impl pend first c f' rb out"
  by (auto simp: phase_ok_def)

lemma UpdateState_NextAction_inv:
  assumes "ssm_inv s" "NextAction s = Some a"
  shows "\<exists>s'. UpdateState a s = Some s' \<and> ssm_inv s'"
  using assms(2)
proof (cases rule: NextAction_cases)
  case 1
  with assms(1) show ?thesis by (simp add: ssm_inv_def)
next
  case 2
  with assms(1) show ?thesis by (simp add: ssm_inv_def)
next
  case 3
  with UpdateStateOnActivation_inv [OF assms(1)] show ?thesis
    by (simp add: ShouldActivatePendingTree_def split: if_splits)
next
  case 4
  with UpdateStateOnCommit_inv [OF assms(1), of False] show ?thesis by (simp add: ShouldCommit_def CommitPending_def)
next
  case 9
  with assms(1) show ?thesis by (simp add: ssm_inv_def UpdateStateOnManageTiles_def)
next
  case 10
  then have "commit_state s = COMMIT_STATE_IDLE" "\<not> has_pending_tree s"
    "visible s \<or> readback_state s = READBACK_STATE_NEEDS_BEGIN_MAIN_FRAME"
    by (auto simp: ShouldSendBeginMainFrame_def split: if_splits)
  with 10 assms(1) show ?thesis
    by (simp add: ssm_inv_def Let_def phase_send(1)) (auto dest: phase_send(2))
next
  case 11
  then have "output_surface_state s = OUTPUT_SURFACE_LOST" "commit_state s = COMMIT_STATE_IDLE"
    "\<not> has_pending_tree s" "\<not> active_tree_needs_first_draw s"
    by (auto simp: ShouldBeginOutputSurfaceCreation_def split: if_splits)
  with 11 assms(1) show ?thesis by (simp add: ssm_inv_def Let_def) (auto intro: phase_output)
qed (use assms(1) UpdateStateOnDraw_inv [OF assms(1)] in simp_all)

lemma NextAction_total:
  assumes "ssm_inv s"
  shows "\<exists>a. NextAction s = Some a"
proof -
  have "\<exists>b. ShouldAcquireLayerTexturesForMainThread s = Some b"
    using assms by (cases "texture_state s") (auto simp: ssm_inv_def ShouldAcquireLayerTexturesForMainThread_def)
  moreover have "\<exists>b. ShouldDraw s = Some b"
  proof -
    have "readback_state s = READBACK_STATE_WAITING_FOR_DRAW_AND_READBACK \<or>
        forced_redraw_state s = FORCED_REDRAW_STATE_WAITING_FOR_DRAW \<Longrightarrow>
      commit_state s = COMMIT_STATE_WAITING_FOR_FIRST_DRAW"
      using assms unfolding ssm_inv_def phase_ok_def by blast
    then have "ShouldDraw s \<noteq> None" by (auto simp: ShouldDraw_def simp del: not_None_eq)
    then show ?thesis by blast
  qed
  ultimately show ?thesis by (auto simp: NextAction_def)
qed

lemma CheckInvariants_ok: "ssm_inv s \<Longrightarrow> CheckInvariants s = Some ()"
  by (auto simp: ssm_inv_def CheckInvariants_def phase_ok_def)

lemma phase_readback:
  "phase_ok impl pend first c f rb out \<Longrightarrow> c \<noteq> COMMIT_STATE_READY_TO_COMMIT \<Longrightarrow>
   rb = READBACK_STATE_IDLE \<or> rb = READBACK_STATE_WAITING_FOR_REPLACEMENT_COMMIT \<Longrightarrow>
   phase_ok impl pend first c f (if c = COMMIT_STATE_FRAME_IN_PROGRESS then READBACK_STATE_WAITING_FOR_COMMIT
     else READBACK_STATE_NEEDS_BEGIN_MAIN_FRAME) out"
  by (cases c) (auto simp: phase_ok_def)

lemma phase_finish:
  "phase_ok impl pend first COMMIT_STATE_FRAME_IN_PROGRESS f rb out \<Longrightarrow>
   phase_ok impl pend first COMMIT_STATE_READY_TO_COMMIT f rb out"
  by (auto simp: phase_ok_def)

lemma phase_aborted:
  "phase_ok impl pend first COMMIT_STATE_FRAME_IN_PROGRESS f rb out \<Longrightarrow> rb \<noteq> READBACK_STATE_WAITING_FOR_COMMIT \<Longrightarrow>
   phase_ok impl pend first COMMIT_STATE_IDLE f rb out"
  by (auto simp: phase_ok_def)

lemma quiet_inv:
  "ssm_inv (SetCanStart s) = ssm_inv s" "ssm_inv (SetVisible b s) = ssm_inv s"
  "ssm_inv (SetCanDraw b s) = ssm_inv s" "ssm_inv (NotifyReadyToActivate s) = ssm_inv s"
  "ssm_inv (SetNeedsCommit s) = ssm_inv s" "ssm_inv (SetNeedsRedraw s) = ssm_inv s"
  "ssm_inv (SetNeedsManageTiles s) = ssm_inv s" "ssm_inv (SetSwapUsedIncompleteTile b s) = ssm_inv s"
  "ssm_inv (SetSmoothnessTakesPriority b s) = ssm_inv s" "ssm_inv (DidManageTiles s) = ssm_inv s"
  "ssm_inv (SetSkipBeginMainFrameToReduceLatency b s) = ssm_inv s"
  "ssm_inv (DidEnterPollForAnticipatedDrawTriggers s) = ssm_inv s"
  "ssm_inv (DidLeavePollForAnticipatedDrawTriggers s) = ssm_inv s"
  by (simp_all add: ssm_inv_def SetCanStart_def SetVisible_def SetCanDraw_def NotifyReadyToActivate_def
      SetNeedsCommit_def SetNeedsRedraw_def SetNeedsManageTiles_def SetSwapUsedIncompleteTile_def
      SetSmoothnessTakesPriority_def DidManageTiles_def SetSkipBeginMainFrameToReduceLatency_def
      DidEnterPollForAnticipatedDrawTriggers_def DidLeavePollForAnticipatedDrawTriggers_def)

lemma frame_inv:
  "OnBeginImplFrame args s = Some s' \<Longrightarrow> ssm_inv s' = ssm_inv s"
  "OnBeginImplFrameDeadlinePending s = Some s' \<Longrightarrow> ssm_inv s' = ssm_inv s"
  "OnBeginImplFrameDeadline s = Some s' \<Longrightarrow> ssm_inv s' = ssm_inv s"
  "OnBeginImplFrameIdle s = Some s' \<Longrightarrow> ssm_inv s' = ssm_inv s"
  by (auto simp: OnBeginImplFrame_def OnBeginImplFrameDeadlinePending_def OnBeginImplFrameDeadline_def
      OnBeginImplFrameIdle_def ssm_inv_def Let_def split: if_splits)

lemma SetMainThreadNeedsLayerTextures_inv:
  "SetMainThreadNeedsLayerTextures s = Some s' \<Longrightarrow> ssm_inv s \<Longrightarrow> ssm_inv s'"
  by (auto simp: SetMainThreadNeedsLayerTextures_def ssm_inv_def split: if_splits)

lemma DidLoseOutputSurface_inv: "ssm_inv s \<Longrightarrow> ssm_inv (DidLoseOutputSurface s)"
  by (auto simp: DidLoseOutputSurface_def ssm_inv_def intro: phase_output)

lemma DidCreateAndInitializeOutputSurface_inv:
  assumes "DidCreateAndInitializeOutputSurface s = Some s'" "ssm_inv s"
  shows "ssm_inv s'"
proof -
  let ?t = "s\<lparr>output_surface_state := OUTPUT_SURFACE_WAITING_FOR_FIRST_COMMIT\<rparr>"
  have "ssm_inv ?t" using assms(2) by (auto simp: ssm_inv_def intro: phase_output)
  then have "ssm_inv (?t\<lparr>did_create_and_initialize_first_output_surface := True\<rparr>)"
    "ssm_inv (?t\<lparr>needs_commit := True, did_create_and_initialize_first_output_surface := True\<rparr>)"
    by (simp_all add: ssm_inv_def)
  with assms(1) show ?thesis
    by (cases "did_create_and_initialize_first_output_surface s")
      (simp_all add: DidCreateAndInitializeOutputSurface_def Let_def split: if_splits)
qed

lemma DidDrawIfPossibleCompleted_forced:
  "forced_redraw_state (DidDrawIfPossibleCompleted b s) \<in>
     {forced_redraw_state s, FORCED_REDRAW_STATE_IDLE, FORCED_REDRAW_STATE_WAITING_FOR_COMMIT}"
  by (simp add: DidDrawIfPossibleCompleted_def Let_def)

lemma DidDrawIfPossibleCompleted_inv: "ssm_inv s \<Longrightarrow> ssm_inv (DidDrawIfPossibleCompleted b s)"
proof -
  let ?t = "DidDrawIfPossibleCompleted b s"
  have keep: "settings ?t = settings s" "has_pending_tree ?t = has_pending_tree s"
    "active_tree_needs_first_draw ?t = active_tree_needs_first_draw s" "commit_state ?t = commit_state s"
    "readback_state ?t = readback_state s" "output_surface_state ?t = output_surface_state s"
    "main_thread_needs_layer_textures ?t = main_thread_needs_layer_textures s" "texture_state ?t = texture_state s"
    by (simp_all add: DidDrawIfPossibleCompleted_def Let_def)
  assume "ssm_inv s"
  with DidDrawIfPossibleCompleted_forced [of b s] show ?thesis
    unfolding ssm_inv_def keep by (auto intro: phase_forced)
qed

lemma SetNeedsForcedCommitForReadback_inv:
  assumes "SetNeedsForcedCommitForReadback s = Some s'" "commit_state s \<noteq> COMMIT_STATE_READY_TO_COMMIT" "ssm_inv s"
  shows "ssm_inv s'"
proof -
  from assms(1) have s': "s' = s\<lparr>readback_state := (if commit_state s = COMMIT_STATE_FRAME_IN_PROGRESS
      then READBACK_STATE_WAITING_FOR_COMMIT else READBACK_STATE_NEEDS_BEGIN_MAIN_FRAME)\<rparr>"
    and rb: "readback_state s = READBACK_STATE_IDLE \<or> readback_state s = READBACK_STATE_WAITING_FOR_REPLACEMENT_COMMIT"
    by (simp_all add: SetNeedsForcedCommitForReadback_def split: if_splits)
  from assms(3) phase_readback [OF _ assms(2) rb] show ?thesis unfolding s' by (simp add: ssm_inv_def)
qed

lemma BeginMainFrameAborted_inv:
  assumes "BeginMainFrameAborted handled s = Some s'" "ssm_inv s"
  shows "ssm_inv s'"
proof (cases handled)
  case True
  with assms UpdateStateOnCommit_inv [of s True] show ?thesis
    by (simp add: BeginMainFrameAborted_def CommitPending_def split: if_splits)
next
  case False
  with assms have s': "s' = SetNeedsCommit (s\<lparr>commit_state := COMMIT_STATE_IDLE\<rparr>)"
    and c: "commit_state s = COMMIT_STATE_FRAME_IN_PROGRESS" "readback_state s \<noteq> READBACK_STATE_WAITING_FOR_COMMIT"
    by (simp_all add: BeginMainFrameAborted_def split: if_splits)
  show ?thesis unfolding s' quiet_inv using assms(2) c by (simp add: ssm_inv_def phase_aborted)
qed

lemma FinishCommit_inv: "FinishCommit s = Some s' \<Longrightarrow> ssm_inv s \<Longrightarrow> ssm_inv s'"
  by (auto simp: FinishCommit_def ssm_inv_def intro: phase_finish split: if_splits)

lemma apply_call_inv:
  assumes "ssm_inv s" "apply_call c s = Some s'"
    and "c = Call_SetNeedsForcedCommitForReadback \<Longrightarrow> commit_state s \<noteq> COMMIT_STATE_READY_TO_COMMIT"
  shows "ssm_inv s'"
proof (cases c)
  case Call_SetNeedsForcedCommitForReadback
  have "commit_state (SetNeedsCommit s) = commit_state s" by (simp add: SetNeedsCommit_def)
  with Call_SetNeedsForcedCommitForReadback assms show ?thesis
    using SetNeedsForcedCommitForReadback_inv [of "SetNeedsCommit s" s'] by (simp add: quiet_inv)
next
  case (Call_BeginMainFrameAborted handled)
  with assms show ?thesis using BeginMainFrameAborted_inv by simp
qed (use assms(1,2) in \<open>auto simp: quiet_inv intro: FinishCommit_inv
  DidCreateAndInitializeOutputSurface_inv DidLoseOutputSurface_inv SetMainThreadNeedsLayerTextures_inv\<close>)

lemma ssm_step_inv: "ssm_step s s' \<Longrightarrow> ssm_inv s \<Longrightarrow> ssm_inv s'"
proof (induction rule: ssm_step.induct)
  case (act s a s')
  with UpdateState_NextAction_inv [of s a] show ?case by auto
next
  case (call c s s')
  with apply_call_inv show ?case by blast
qed (auto simp: quiet_inv frame_inv DidDrawIfPossibleCompleted_inv)

lemma ssm_reachable_inv: "ssm_step\<^sup>*\<^sup>* (SchedulerStateMachine_new st) s \<Longrightarrow> ssm_inv s"
  by (induction rule: rtranclp_induct) (auto simp: ssm_inv_new intro: ssm_step_inv)

subsection \<open>Every action makes progress\<close>

text \<open>What is left to do until \<open>NextAction\<close> answers \<open>ACTION_NONE\<close>.\<close>

fun output_rank :: "OutputSurfaceState \<Rightarrow> nat" where
  "output_rank OUTPUT_SURFACE_CREATING = 0"
| "output_rank OUTPUT_SURFACE_LOST = 1"
| "output_rank _ = 2"

fun commit_rank :: "CommitState \<Rightarrow> nat" where
  "commit_rank COMMIT_STATE_FRAME_IN_PROGRESS = 0"
| "commit_rank COMMIT_STATE_READY_TO_COMMIT = 5"
| "commit_rank _ = 1"

definition phase_work :: "ssm \<Rightarrow> nat" where
  "phase_work s =
     of_bool (main_thread_needs_layer_textures s) + of_bool (\<not> HasUpdatedVisibleTilesThisFrame s) +
     of_bool (\<not> HasSwappedThisFrame s) + commit_rank (commit_state s) + 2 * of_bool (has_pending_tree s) +
     of_bool (active_tree_needs_first_draw s) + output_rank (output_surface_state s)"

definition pending_work :: "ssm \<Rightarrow> nat" where
  "pending_work s = 2 * phase_work s + of_bool (needs_manage_tiles s)"

lemma phase_work_draw:
  assumes "UpdateStateOnDraw did_swap s = Some s'" "ssm_inv s"
    and "did_swap \<and> \<not> HasSwappedThisFrame s \<or> active_tree_needs_first_draw s \<or>
      readback_state s = READBACK_STATE_WAITING_FOR_DRAW_AND_READBACK"
  shows "phase_work s' < phase_work s" "needs_manage_tiles s' = needs_manage_tiles s"
proof -
  from assms(1) have keep: "main_thread_needs_layer_textures s' = main_thread_needs_layer_textures s"
    "HasUpdatedVisibleTilesThisFrame s' = HasUpdatedVisibleTilesThisFrame s"
    "HasSwappedThisFrame s' = (did_swap \<or> HasSwappedThisFrame s)" "has_pending_tree s' = has_pending_tree s"
    "active_tree_needs_first_draw s' = False" "output_surface_state s' = output_surface_state s"
    "needs_manage_tiles s' = needs_manage_tiles s"
    by (auto simp: UpdateStateOnDraw_def Let_def HasUpdatedVisibleTilesThisFrame_def HasSwappedThisFrame_def
        split: if_splits)
  have c: "commit_rank (commit_state s') \<le> commit_rank (commit_state s)"
    "readback_state s = READBACK_STATE_WAITING_FOR_DRAW_AND_READBACK \<Longrightarrow>
      commit_rank (commit_state s') < commit_rank (commit_state s)"
    using assms(1) by (auto simp: UpdateStateOnDraw_def Let_def split: if_splits)
  show "needs_manage_tiles s' = needs_manage_tiles s" by (fact keep)
  show "phase_work s' < phase_work s"
    using assms(3) c unfolding phase_work_def keep by auto
qed

lemma committed_work:
  assumes "commit_state s = COMMIT_STATE_READY_TO_COMMIT"
  shows "phase_work (committed False rb s) < phase_work s"
    "needs_manage_tiles (committed False rb s) = needs_manage_tiles s"
proof -
  have "output_rank (commit_output (impl_side_painting (settings s)) rb (output_surface_state s)) =
    output_rank (output_surface_state s)"
    by (simp add: commit_output_def)
  then show "phase_work (committed False rb s) < phase_work s"
    using assms by (auto simp: phase_work_def committed_fields commit_new_tree_def)
qed (rule committed_fields)

lemma UpdateStateOnCommit_committed:
  "UpdateStateOnCommit False s = Some s' \<Longrightarrow>
   commit_state s = COMMIT_STATE_READY_TO_COMMIT \<and> (\<exists>rb. s' = committed False rb s)"
  by (auto simp: UpdateStateOnCommit_done split: option.splits if_splits)

lemma activation_work:
  assumes "has_pending_tree s" "\<not> active_tree_needs_first_draw s"
  shows "phase_work (UpdateStateOnActivation s) < phase_work s"
    "needs_manage_tiles (UpdateStateOnActivation s) = needs_manage_tiles s"
  using assms by (auto simp: phase_work_def UpdateStateOnActivation_fields)

lemma NextAction_work:
  assumes "ssm_inv s" "NextAction s = Some a" "UpdateState a s = Some s'" "a \<noteq> ACTION_NONE"
  shows "phase_work s' < phase_work s \<and> needs_manage_tiles s' = needs_manage_tiles s \<or>
    a = ACTION_MANAGE_TILES \<and> phase_work s' = phase_work s \<and> needs_manage_tiles s \<and> \<not> needs_manage_tiles s'"
  using assms(2)
proof (cases rule: NextAction_cases)
  case 1
  then have "main_thread_needs_layer_textures s"
    by (auto simp: ShouldAcquireLayerTexturesForMainThread_def split: if_splits)
  moreover from 1 assms(3) have "s' = s\<lparr>texture_state := LAYER_TEXTURE_STATE_ACQUIRED_BY_MAIN_THREAD,
      main_thread_needs_layer_textures := False\<rparr>" by simp
  ultimately show ?thesis
    by (simp add: phase_work_def HasUpdatedVisibleTilesThisFrame_def HasSwappedThisFrame_def)
next
  case 2
  then have "\<not> HasUpdatedVisibleTilesThisFrame s" by (auto simp: ShouldUpdateVisibleTiles_def split: if_splits)
  moreover from 2 assms(3)
  have "s' = s\<lparr>last_frame_number_update_visible_tiles_was_called := current_frame_number s\<rparr>" by simp
  ultimately show ?thesis
    by (simp add: phase_work_def HasUpdatedVisibleTilesThisFrame_def HasSwappedThisFrame_def)
next
  case 3
  then have "has_pending_tree s" "\<not> active_tree_needs_first_draw s"
    by (auto simp: ShouldActivatePendingTree_def split: if_splits)
  with 3 assms(3) activation_work [of s] show ?thesis by simp
next
  case 4
  with assms(3) UpdateStateOnCommit_committed [of s s'] committed_work [of s] show ?thesis by auto
next
  case 5
  with assms(3) phase_work_draw [OF _ assms(1)] show ?thesis by auto
next
  case 6
  then have "active_tree_needs_first_draw s" by (auto simp: ShouldDraw_def split: if_splits)
  with 6 assms(3) phase_work_draw [OF _ assms(1)] show ?thesis by auto
next
  case 7
  with assms(3) phase_work_draw [OF _ assms(1)] ShouldDraw_swap(1) [of s] show ?thesis by auto
next
  case 8
  with assms(3) phase_work_draw [OF _ assms(1)] ShouldDraw_swap(1) [of s] show ?thesis by auto
next
  case 9
  then have "needs_manage_tiles s" by (auto simp: ShouldManageTiles_def split: if_splits)
  moreover from 9 assms(3) have "s' = UpdateStateOnManageTiles s" by simp
  ultimately show ?thesis
    using 9(1) by (simp add: UpdateStateOnManageTiles_def phase_work_def HasUpdatedVisibleTilesThisFrame_def HasSwappedThisFrame_def)
next
  case 10
  then have "commit_state s = COMMIT_STATE_IDLE" by (auto simp: ShouldSendBeginMainFrame_def split: if_splits)
  moreover from 10 assms(3) have "commit_state s' = COMMIT_STATE_FRAME_IN_PROGRESS"
    "main_thread_needs_layer_textures s' = main_thread_needs_layer_textures s"
    "HasUpdatedVisibleTilesThisFrame s' = HasUpdatedVisibleTilesThisFrame s"
    "HasSwappedThisFrame s' = HasSwappedThisFrame s" "has_pending_tree s' = has_pending_tree s"
    "active_tree_needs_first_draw s' = active_tree_needs_first_draw s"
    "output_surface_state s' = output_surface_state s" "needs_manage_tiles s' = needs_manage_tiles s"
    by (auto simp: Let_def HasUpdatedVisibleTilesThisFrame_def HasSwappedThisFrame_def split: if_splits)
  ultimately show ?thesis by (simp add: phase_work_def)
next
  case 11
  then have "output_surface_state s = OUTPUT_SURFACE_LOST"
    by (auto simp: ShouldBeginOutputSurfaceCreation_def split: if_splits)
  moreover from 11 assms(3) have "s' = s\<lparr>output_surface_state := OUTPUT_SURFACE_CREATING\<rparr>"
    by (simp add: Let_def split: if_splits)
  ultimately show ?thesis
    by (simp add: phase_work_def HasUpdatedVisibleTilesThisFrame_def HasSwappedThisFrame_def)
qed (use assms(4) in simp)

text \<open>The calls that an action of the client may make into the scheduler without restarting it.\<close>

definition loop_safe :: "Action \<Rightarrow> SchedulerCall \<Rightarrow> bool" where
  "loop_safe a c \<longleftrightarrow>
     c \<notin> {Call_SetNeedsForcedCommitForReadback, Call_SetMainThreadNeedsLayerTextures, Call_FinishCommit,
           Call_BeginMainFrameAborted True, Call_BeginMainFrameAborted False,
           Call_DidCreateAndInitializeOutputSurface} \<and>
     (a = ACTION_MANAGE_TILES \<longrightarrow> c \<noteq> Call_SetNeedsManageTiles)"

lemma output_rank_le: "output_rank x \<le> 2" by (cases x) simp_all

lemma loop_safe_call:
  assumes "loop_safe a c"
  obtains s' where "apply_call c s = Some s'" "phase_work s' \<le> phase_work s"
    "a = ACTION_MANAGE_TILES \<Longrightarrow> needs_manage_tiles s' \<longrightarrow> needs_manage_tiles s"
proof -
  have "\<exists>s'. apply_call c s = Some s' \<and> phase_work s' \<le> phase_work s \<and>
    (a = ACTION_MANAGE_TILES \<longrightarrow> needs_manage_tiles s' \<longrightarrow> needs_manage_tiles s)"
  proof (cases c)
    case Call_DidLoseOutputSurface
    have "output_surface_state s \<notin> {OUTPUT_SURFACE_LOST, OUTPUT_SURFACE_CREATING} \<Longrightarrow> output_rank (output_surface_state s) = 2"
      by (cases "output_surface_state s") simp_all
    with Call_DidLoseOutputSurface show ?thesis
      by (auto simp: DidLoseOutputSurface_def phase_work_def HasUpdatedVisibleTilesThisFrame_def HasSwappedThisFrame_def)
  next
    case (Call_BeginMainFrameAborted b)
    with assms show ?thesis by (cases b) (simp_all add: loop_safe_def)
  qed (use assms in \<open>simp_all add: loop_safe_def phase_work_def HasUpdatedVisibleTilesThisFrame_def
    HasSwappedThisFrame_def SetCanStart_def SetVisible_def SetCanDraw_def NotifyReadyToActivate_def
    SetNeedsCommit_def SetNeedsRedraw_def SetNeedsManageTiles_def SetSwapUsedIncompleteTile_def
    SetSmoothnessTakesPriority_def DidManageTiles_def\<close>)
  with that show thesis by blast
qed

lemma DidDrawIfPossibleCompleted_work:
  "phase_work (DidDrawIfPossibleCompleted b s) = phase_work s"
  "needs_manage_tiles (DidDrawIfPossibleCompleted b s) = needs_manage_tiles s"
  by (simp_all add: DidDrawIfPossibleCompleted_def Let_def phase_work_def HasUpdatedVisibleTilesThisFrame_def
      HasSwappedThisFrame_def)

end
