(* ===== verification/Frame_Swaps.thy ===== *)
theory Frame_Swaps
  imports Scheduler_Invariants
begin

section \<open>One swap per frame\<close>

text \<open>
  The swaps of a frame, over whole runs of the state machine: the marker of the last swap, what resets it, and why a frame has one swap
  unless a draw failed.
\<close>

subsection \<open>Events\<close>

text \<open>
  The steps of the machine as events: the beginning of a frame (or of a poll, which counts as one), a swap, the report of a failed draw, and
  any other step. A run counts the frames, and since the beginning of the current one the swaps and the reports of failed draws.
\<close>

datatype FrameEvent = Ev_Frame | Ev_Swap | Ev_Failed | Ev_Other

abbreviation swap_actions :: "Action set" where
  "swap_actions \<equiv> {ACTION_DRAW_AND_SWAP_IF_POSSIBLE, ACTION_DRAW_AND_SWAP_FORCED}"

inductive ssm_event :: "FrameEvent \<Rightarrow> ssm \<Rightarrow> ssm \<Rightarrow> bool" where
  swap: "NextAction s = Some a \<Longrightarrow> a \<in> swap_actions \<Longrightarrow> UpdateState a s = Some s' \<Longrightarrow> ssm_event Ev_Swap s s'"
| act: "NextAction s = Some a \<Longrightarrow> a \<notin> swap_actions \<Longrightarrow> UpdateState a s = Some s' \<Longrightarrow> ssm_event Ev_Other s s'"
| failed: "ssm_event Ev_Failed s (DidDrawIfPossibleCompleted False s)"
| drawn: "ssm_event Ev_Other s (DidDrawIfPossibleCompleted True s)"
| call: "apply_call c s = Some s' \<Longrightarrow>
    (c = Call_SetNeedsForcedCommitForReadback \<Longrightarrow> commit_state s \<noteq> COMMIT_STATE_READY_TO_COMMIT) \<Longrightarrow> ssm_event Ev_Other s s'"
| frame: "OnBeginImplFrame args s = Some s' \<Longrightarrow> ssm_event Ev_Frame s s'"
| skip: "ssm_event Ev_Other s (SetSkipBeginMainFrameToReduceLatency b s)"
| deadline_pending: "OnBeginImplFrameDeadlinePending s = Some s' \<Longrightarrow> ssm_event Ev_Other s s'"
| deadline: "OnBeginImplFrameDeadline s = Some s' \<Longrightarrow> ssm_event Ev_Other s s'"
| idle: "OnBeginImplFrameIdle s = Some s' \<Longrightarrow> ssm_event Ev_Other s s'"
| enter_poll: "ssm_event Ev_Frame s (DidEnterPollForAnticipatedDrawTriggers s)"
| leave_poll: "ssm_event Ev_Other s (DidLeavePollForAnticipatedDrawTriggers s)"

lemma ssm_event_is_step: "ssm_event e s s' \<Longrightarrow> ssm_step s s'"
proof (induction rule: ssm_event.induct)
  case (swap s a s')
  then show ?case by (intro ssm_step.act)
next
  case (act s a s')
  then show ?case by (intro ssm_step.act)
next
  case (call c s s')
  then show ?case by (intro ssm_step.call)
qed (rule ssm_step.completed ssm_step.skip ssm_step.enter_poll ssm_step.leave_poll |
  erule ssm_step.frame ssm_step.deadline_pending ssm_step.deadline ssm_step.idle)+

lemma ssm_step_is_event: "ssm_step s s' \<Longrightarrow> \<exists>e. ssm_event e s s'"
proof (induction rule: ssm_step.induct)
  case (act s a s')
  then show ?case by (cases "a \<in> swap_actions") (rule exI, erule (2) ssm_event.swap, rule exI, erule (2) ssm_event.act)
next
  case (completed s did_draw)
  then show ?case by (cases did_draw) (rule exI, simp, rule ssm_event.intros)+
next
  case (call c s s')
  then have "ssm_event Ev_Other s s'" by (rule ssm_event.call)
  then show ?case ..
qed (rule exI, rule ssm_event.skip ssm_event.enter_poll ssm_event.leave_poll |
  rule exI, erule ssm_event.frame ssm_event.deadline_pending ssm_event.deadline ssm_event.idle)+

fun count_event :: "FrameEvent \<Rightarrow> nat \<times> nat \<times> nat \<Rightarrow> nat \<times> nat \<times> nat" where
  "count_event Ev_Frame (frames, swaps, failures) = (Suc frames, 0, 0)"
| "count_event Ev_Swap (frames, swaps, failures) = (frames, Suc swaps, failures)"
| "count_event Ev_Failed (frames, swaps, failures) = (frames, swaps, Suc failures)"
| "count_event Ev_Other counts = counts"

inductive frame_run :: "SchedulerSettings \<Rightarrow> nat \<times> nat \<times> nat \<Rightarrow> ssm \<Rightarrow> bool" for st where
  start: "frame_run st (0, 0, 0) (SchedulerStateMachine_new st)"
| event: "frame_run st counts s \<Longrightarrow> ssm_event e s s' \<Longrightarrow> frame_run st (count_event e counts) s'"

subsection \<open>The swap marker\<close>

text \<open>The swap marker, and what a step that is not an event does with it.\<close>

definition marker_kept :: "ssm \<Rightarrow> ssm \<Rightarrow> bool" where
  "marker_kept s s' \<longleftrightarrow>
     current_frame_number s' = current_frame_number s \<and>
     (last_frame_number_swap_performed s' = last_frame_number_swap_performed s \<and> (draw_if_possible_failed s' \<longrightarrow> draw_if_possible_failed s) \<or>
      last_frame_number_swap_performed s' = - 1 \<and> draw_if_possible_failed s)"

lemma committed_marker: "marker_kept s (committed aborted rb s)"
  by (simp add: committed_def marker_kept_def Let_def)

lemma marker_kept_commit:
  assumes "UpdateStateOnCommit aborted s = Some s'"
  shows "marker_kept s s'"
  using assms committed_marker
  by (cases aborted) (auto simp: UpdateStateOnCommit_aborted UpdateStateOnCommit_done split: option.splits if_splits)

lemma UpdateStateOnDraw_marker:
  assumes "UpdateStateOnDraw swap s = Some s'"
  shows "current_frame_number s' = current_frame_number s" "\<not> draw_if_possible_failed s'"
    "last_frame_number_swap_performed s' = (if swap then current_frame_number s else last_frame_number_swap_performed s)"
  using assms by (auto simp: UpdateStateOnDraw_def Let_def split: if_splits)

lemma marker_kept_act:
  assumes "UpdateState a s = Some s'" "a \<notin> swap_actions"
  shows "marker_kept s s'"
proof (cases "a = ACTION_DRAW_AND_SWAP_ABORT \<or> a = ACTION_DRAW_AND_READBACK")
  case True
  then have "UpdateStateOnDraw False s = Some s'" using assms(1) by auto
  from UpdateStateOnDraw_marker [OF this] show ?thesis by (simp add: marker_kept_def)
next
  case False
  then show ?thesis
    using assms marker_kept_commit
    by (cases a) (auto simp: marker_kept_def UpdateStateOnActivation_def UpdateStateOnManageTiles_def Let_def split: if_splits)
qed

lemma marker_kept_call: "apply_call c s = Some s' \<Longrightarrow> marker_kept s s'"
  using marker_kept_commit
  by (cases c)
    (auto simp: marker_kept_def SetCanStart_def SetVisible_def SetCanDraw_def NotifyReadyToActivate_def SetNeedsCommit_def
      SetNeedsForcedCommitForReadback_def SetNeedsRedraw_def SetNeedsManageTiles_def SetSwapUsedIncompleteTile_def
      SetSmoothnessTakesPriority_def SetMainThreadNeedsLayerTextures_def FinishCommit_def BeginMainFrameAborted_def DidManageTiles_def
      DidLoseOutputSurface_def DidCreateAndInitializeOutputSurface_def Let_def split: if_splits)

lemma marker_kept_other: "ssm_event Ev_Other s s' \<Longrightarrow> marker_kept s s'"
proof (induction Ev_Other s s' rule: ssm_event.induct)
  case (act s a s')
  then show ?case by (intro marker_kept_act) simp_all
next
  case (call c s s')
  then show ?case by (intro marker_kept_call)
qed (auto simp: marker_kept_def DidDrawIfPossibleCompleted_def SetSkipBeginMainFrameToReduceLatency_def
      OnBeginImplFrameDeadlinePending_def OnBeginImplFrameDeadline_def OnBeginImplFrameIdle_def DidLeavePollForAnticipatedDrawTriggers_def
      split: if_splits)

lemma swap_event:
  assumes "NextAction s = Some a" "a \<in> swap_actions" "UpdateState a s = Some s'"
  shows "begin_impl_frame_state s = BEGIN_IMPL_FRAME_STATE_INSIDE_DEADLINE" "\<not> HasSwappedThisFrame s"
    "visible s" "can_draw s" "output_surface_state s \<noteq> OUTPUT_SURFACE_LOST" "texture_state s \<noteq> LAYER_TEXTURE_STATE_ACQUIRED_BY_MAIN_THREAD"
    "current_frame_number s' = current_frame_number s" "\<not> draw_if_possible_failed s'" "last_frame_number_swap_performed s' = current_frame_number s"
proof -
  have a: "ShouldDraw s = Some True" "readback_state s \<noteq> READBACK_STATE_WAITING_FOR_DRAW_AND_READBACK"
    "\<not> PendingDrawsShouldBeAborted s"
    using assms(1) by (rule NextAction_cases; use assms(2) in auto)+
  note ShouldDraw_swap [OF a]
  then show "begin_impl_frame_state s = BEGIN_IMPL_FRAME_STATE_INSIDE_DEADLINE" "\<not> HasSwappedThisFrame s" by simp_all
  show "visible s" "can_draw s" "output_surface_state s \<noteq> OUTPUT_SURFACE_LOST" "texture_state s \<noteq> LAYER_TEXTURE_STATE_ACQUIRED_BY_MAIN_THREAD"
    using a by (auto simp: PendingDrawsShouldBeAborted_def PendingActivationsShouldBeForced_def split: if_splits)
  have "UpdateStateOnDraw True s = Some s'" using assms(2,3) by auto
  from UpdateStateOnDraw_marker [OF this]
  show "current_frame_number s' = current_frame_number s" "\<not> draw_if_possible_failed s'"
    "last_frame_number_swap_performed s' = current_frame_number s" by simp_all
qed

text \<open>The swaps of a frame beyond the first are paid for by reports of failed draws, and the marker is never one of a later frame.\<close>

definition swaps_inv :: "nat \<Rightarrow> nat \<Rightarrow> nat \<Rightarrow> ssm \<Rightarrow> bool" where
  "swaps_inv f n x s \<longleftrightarrow>
     n + (if HasSwappedThisFrame s \<and> \<not> draw_if_possible_failed s then 0 else 1) \<le> Suc x \<and>
     (f < 2 ^ 31 \<longrightarrow> unat (current_frame_number s) = f \<and>
        (last_frame_number_swap_performed s = - 1 \<or>
         unat (last_frame_number_swap_performed s) \<le> f \<and> (n = 0 \<longrightarrow> unat (last_frame_number_swap_performed s) < f)))"

lemma swaps_inv_kept: "swaps_inv f n x s \<Longrightarrow> marker_kept s s' \<Longrightarrow> swaps_inv f n x s'"
  by (auto simp: swaps_inv_def marker_kept_def HasSwappedThisFrame_def split: if_splits)

lemma swaps_inv_frame:
  assumes "swaps_inv f n x s" "current_frame_number s' = current_frame_number s + 1"
    "last_frame_number_swap_performed s' = last_frame_number_swap_performed s"
  shows "swaps_inv (Suc f) 0 0 s'"
proof -
  have "unat (current_frame_number s') = Suc f" if "Suc f < 2 ^ 31"
    using assms(1,2) that by (simp add: swaps_inv_def unat_word_ariths)
  then show ?thesis
    using assms(1,3) by (auto simp: swaps_inv_def)
qed

lemma failed_marker:
  "current_frame_number (DidDrawIfPossibleCompleted b s) = current_frame_number s"
  "last_frame_number_swap_performed (DidDrawIfPossibleCompleted b s) = last_frame_number_swap_performed s"
  by (simp_all add: DidDrawIfPossibleCompleted_def Let_def)

lemma frame_run_inv: "frame_run st (f, n, x) s \<Longrightarrow> swaps_inv f n x s"
proof (induction "(f, n, x)" s arbitrary: f n x rule: frame_run.induct)
  case start
  then show ?case by (simp add: swaps_inv_def SchedulerStateMachine_new_def)
next
  case (event counts s e s')
  obtain f0 n0 x0 where c: "counts = (f0, n0, x0)" by (cases counts)
  then have inv: "swaps_inv f0 n0 x0 s" using event.hyps(2) by blast
  from event.hyps(3) show ?case
  proof (cases rule: ssm_event.cases)
    case (swap a)
    then have "swaps_inv f0 (Suc n0) x0 s'"
      using inv swap_event [of s a s'] by (auto simp: swaps_inv_def HasSwappedThisFrame_def)
    then show ?thesis using event.hyps(4) swap c by simp
  next
    case failed
    then have "swaps_inv f0 n0 (Suc x0) s'"
      using inv by (auto simp: swaps_inv_def HasSwappedThisFrame_def failed_marker split: if_splits)
    then show ?thesis using event.hyps(4) failed c by simp
  next
    case (frame args)
    then have "swaps_inv (Suc f0) 0 0 s'"
      using swaps_inv_frame [OF inv] by (auto simp: OnBeginImplFrame_def Let_def split: if_splits)
    then show ?thesis using event.hyps(4) frame c by simp
  next
    case enter_poll
    then have "swaps_inv (Suc f0) 0 0 s'"
      using swaps_inv_frame [OF inv] by (simp add: DidEnterPollForAnticipatedDrawTriggers_def)
    then show ?thesis using event.hyps(4) enter_poll c by simp
  qed (use swaps_inv_kept [OF inv marker_kept_other] event.hyps(3,4) c in simp_all)
qed

subsection \<open>Properties\<close>

text \<open>
  C16. The machine swaps at most once per frame, and not when it should not. In every run, the swaps since the current frame began are at most
  one more than the draws reported as failed since then: without such a report there is one swap per frame. Before the first swap
  of a frame the machine does not take the frame for swapped (for fewer than \<open>2 ^ 31\<close> frames), so that each frame has its chance. When
  it swaps it is inside the deadline of a frame, visible and can draw, and its surface is not lost; the swap is the first one of the frame or
  follows the report of a failed draw.
\<close>

theorem swap_inside_deadline_once:
  assumes "frame_run st (frames, swaps, failures) s" "frames < 2 ^ 31"
  shows "swaps \<le> Suc failures \<and> (HasSwappedThisFrame s \<longrightarrow> 0 < swaps) \<and>
    (\<forall>a s'. NextAction s = Some a \<longrightarrow> a \<in> {ACTION_DRAW_AND_SWAP_IF_POSSIBLE, ACTION_DRAW_AND_SWAP_FORCED} \<longrightarrow> UpdateState a s = Some s' \<longrightarrow>
       begin_impl_frame_state s = BEGIN_IMPL_FRAME_STATE_INSIDE_DEADLINE \<and> \<not> HasSwappedThisFrame s \<and> HasSwappedThisFrame s' \<and>
       visible s \<and> can_draw s \<and> output_surface_state s \<noteq> OUTPUT_SURFACE_LOST \<and>
       texture_state s \<noteq> LAYER_TEXTURE_STATE_ACQUIRED_BY_MAIN_THREAD \<and> swaps \<le> failures)"
proof -
  note inv = frame_run_inv [OF assms(1)]
  have "swaps \<le> Suc failures" using inv by (simp add: swaps_inv_def)
  moreover have "0 < swaps" if "HasSwappedThisFrame s"
  proof (rule ccontr)
    assume "\<not> 0 < swaps"
    then have last: "last_frame_number_swap_performed s = - 1 \<or> unat (last_frame_number_swap_performed s) < frames"
        "unat (current_frame_number s) = frames"
      using inv assms(2) by (auto simp: swaps_inv_def)
    then have "unat (last_frame_number_swap_performed s) = frames" using that by (simp add: HasSwappedThisFrame_def)
    then have "unat (- 1 :: u32) = frames" using last(1) by auto
    moreover have "unat (- 1 :: u32) = 2 ^ 32 - 1" by (simp add: unsigned_minus_1_eq_mask mask_eq_exp_minus_1)
    ultimately show False using assms(2) by simp
  qed
  moreover have "swaps \<le> failures" if "\<not> HasSwappedThisFrame s" using inv that by (simp add: swaps_inv_def)
  moreover have "begin_impl_frame_state s = BEGIN_IMPL_FRAME_STATE_INSIDE_DEADLINE \<and> \<not> HasSwappedThisFrame s \<and> HasSwappedThisFrame s' \<and>
       visible s \<and> can_draw s \<and> output_surface_state s \<noteq> OUTPUT_SURFACE_LOST \<and>
       texture_state s \<noteq> LAYER_TEXTURE_STATE_ACQUIRED_BY_MAIN_THREAD \<and> swaps \<le> failures"
    if "NextAction s = Some a" "a \<in> swap_actions" "UpdateState a s = Some s'" for a s'
    using swap_event [OF that] calculation(3) by (simp add: HasSwappedThisFrame_def)
  ultimately show ?thesis by (intro conjI impI allI) simp_all
qed

text \<open>An example: a machine that is started, commits, draws and swaps in its first frame.\<close>

datatype RunStep = Step_Call SchedulerCall | Step_Act | Step_Frame BeginFrameArgs | Step_Pending | Step_Deadline

fun run_step :: "RunStep \<Rightarrow> ssm \<Rightarrow> (FrameEvent \<times> ssm) option" where
  "run_step (Step_Call c) s = do {
     dcheck (c \<noteq> Call_SetNeedsForcedCommitForReadback);
     s \<leftarrow> apply_call c s;
     Some (Ev_Other, s)
   }"
| "run_step Step_Act s = do {
     a \<leftarrow> NextAction s;
     s \<leftarrow> UpdateState a s;
     Some (if a \<in> swap_actions then Ev_Swap else Ev_Other, s)
   }"
| "run_step (Step_Frame args) s = map_option (Pair Ev_Frame) (OnBeginImplFrame args s)"
| "run_step Step_Pending s = map_option (Pair Ev_Other) (OnBeginImplFrameDeadlinePending s)"
| "run_step Step_Deadline s = map_option (Pair Ev_Other) (OnBeginImplFrameDeadline s)"

fun run_steps :: "RunStep list \<Rightarrow> (nat \<times> nat \<times> nat) \<times> ssm \<Rightarrow> ((nat \<times> nat \<times> nat) \<times> ssm) option" where
  "run_steps [] cs = Some cs"
| "run_steps (d # ds) (counts, s) = do {
     (e, s) \<leftarrow> run_step d s;
     run_steps ds (count_event e counts, s)
   }"

lemma run_step_event: "run_step d s = Some (e, s') \<Longrightarrow> ssm_event e s s'"
  by (cases d) (auto intro: ssm_event.intros split: if_splits Option.bind_splits)

lemma run_steps_frame_run:
  "frame_run st counts s \<Longrightarrow> run_steps ds (counts, s) = Some (counts', s') \<Longrightarrow> frame_run st counts' s'"
proof (induction ds arbitrary: counts s)
  case (Cons d ds)
  then obtain e s1 where "run_step d s = Some (e, s1)" "run_steps ds (count_event e counts, s1) = Some (counts', s')"
    by (auto split: Option.bind_splits)
  then show ?case
    using Cons.IH [OF frame_run.event [OF Cons.prems(1) run_step_event]] by simp
qed simp

definition swap_steps :: "RunStep list" where
  "swap_steps =
     [Step_Call Call_SetCanStart, Step_Act, Step_Call Call_DidCreateAndInitializeOutputSurface, Step_Call (Call_SetVisible True),
      Step_Call (Call_SetCanDraw True), Step_Call Call_SetNeedsCommit, Step_Frame \<lparr>bfa_frame_time = 0, bfa_deadline = 8, bfa_interval = 16\<rparr>,
      Step_Act, Step_Call Call_FinishCommit, Step_Act, Step_Pending, Step_Deadline, Step_Act]"

lemma swap_steps_run:
  "map_option (\<lambda>(counts, s). (counts, HasSwappedThisFrame s))
     (run_steps swap_steps ((0, 0, 0), SchedulerStateMachine_new SchedulerSettings_new)) = Some ((1, 1, 0), True)"
  by code_simp

theorem swap_inside_deadline_once_witness:
  "\<exists>s. frame_run SchedulerSettings_new (1, 1, 0) s \<and> HasSwappedThisFrame s \<and>
     \<not> (\<exists>a s'. NextAction s = Some a \<and> a \<in> {ACTION_DRAW_AND_SWAP_IF_POSSIBLE, ACTION_DRAW_AND_SWAP_FORCED} \<and> UpdateState a s = Some s')"
proof -
  obtain s where "run_steps swap_steps ((0, 0, 0), SchedulerStateMachine_new SchedulerSettings_new) = Some ((1, 1, 0), s)" "HasSwappedThisFrame s"
    using swap_steps_run by auto
  then have run: "frame_run SchedulerSettings_new (1, 1, 0) s" "HasSwappedThisFrame s"
    using run_steps_frame_run [OF frame_run.start] by blast+
  with swap_inside_deadline_once [OF run(1)] show ?thesis by auto
qed

end
