(* ===== verification/Cc_Scheduler.thy ===== *)
theory Cc_Scheduler
  imports Scheduler_Invariants "HOL-Library.Signed_Division"
begin

section \<open>Scheduler: the compositor's action loop and frame deadlines\<close>

text \<open>
  Model of \<^verbatim>\<open>src/cc/scheduler/scheduler.{h,cc}\<close>. The \<open>SchedulerClient\<close>, the clock and the message loop are a
  record of functions on a world \<open>'w\<close>. A \<open>ScheduledAction...\<close> function of the client may call the scheduler
  back; it returns these calls as a list. During such a call \<open>inside_process_scheduled_actions_\<close> is set, so
  the call only changes the state. The weak pointers and tracing are left out; a cancelable closure is
  the flag \<open>not IsCancelled()\<close>. Times are integers in microseconds.
\<close>

subsection \<open>State\<close>

record DrawSwapReadbackResult =
  did_draw :: bool
  did_swap :: bool
  did_readback :: bool

record 'w SchedulerClient =
  ScheduledAction :: "Action \<Rightarrow> 'w \<Rightarrow> DrawSwapReadbackResult \<times> SchedulerCall list \<times> 'w"
  SetNeedsBeginImplFrame :: "bool \<Rightarrow> 'w \<Rightarrow> 'w"
  DidAnticipatedDrawTimeChange :: "int \<Rightarrow> 'w \<Rightarrow> 'w"
  DrawDurationEstimate :: "'w \<Rightarrow> int"
  BeginMainFrameToCommitDurationEstimate :: "'w \<Rightarrow> int"
  CommitToActivateDurationEstimate :: "'w \<Rightarrow> int"
  client_PostBeginImplFrameDeadline :: "int \<Rightarrow> 'w \<Rightarrow> 'w"
  DidBeginImplFrameDeadline :: "'w \<Rightarrow> 'w"
  frame_time_now :: "'w \<Rightarrow> int"
  post_delayed_poll :: "int \<Rightarrow> 'w \<Rightarrow> 'w"

record Scheduler =
  scheduler_settings :: SchedulerSettings
  last_set_needs_begin_impl_frame :: bool
  last_begin_args :: BeginFrameArgs
  deadline_closure :: bool
  poll_closure :: bool
  state_machine :: ssm
  inside_process_scheduled_actions :: bool
  inside_action :: Action

definition Scheduler_new :: "SchedulerSettings \<Rightarrow> Scheduler option" where
  "Scheduler_new st = do {
     let sm = SchedulerStateMachine_new st;
     dcheck (\<not> BeginImplFrameNeeded sm);
     Some \<lparr>scheduler_settings = st, last_set_needs_begin_impl_frame = False,
           last_begin_args = \<lparr>bfa_frame_time = 0, bfa_deadline = 0, bfa_interval = - 1\<rparr>,
           deadline_closure = False, poll_closure = False, state_machine = sm,
           inside_process_scheduled_actions = False, inside_action = ACTION_NONE\<rparr>
   }"

subsection \<open>Draw times\<close>

definition AnticipatedDrawTime :: "int \<Rightarrow> Scheduler \<Rightarrow> int" where
  "AnticipatedDrawTime now s =
     (let args = last_begin_args s in
      if \<not> last_set_needs_begin_impl_frame s \<or> bfa_interval args \<le> 0 then 0
      else
        let timebase = max (bfa_frame_time args) (bfa_deadline args);
            intervals = 1 + ((now - timebase) sdiv bfa_interval args)
        in timebase + bfa_interval args * intervals)"

definition LastBeginImplFrameTime :: "Scheduler \<Rightarrow> int" where
  "LastBeginImplFrameTime s = bfa_frame_time (last_begin_args s)"

definition WillDrawIfNeeded :: "Scheduler \<Rightarrow> bool" where
  "WillDrawIfNeeded s = (\<not> PendingDrawsShouldBeAborted (state_machine s))"

definition CanCommitAndActivateBeforeDeadline :: "'w SchedulerClient \<Rightarrow> Scheduler \<Rightarrow> 'w \<Rightarrow> bool" where
  "CanCommitAndActivateBeforeDeadline cl s w =
     (let estimated_draw_time = bfa_frame_time (last_begin_args s) +
            BeginMainFrameToCommitDurationEstimate cl w + CommitToActivateDurationEstimate cl w
      in estimated_draw_time < bfa_deadline (last_begin_args s))"

subsection \<open>The action loop\<close>

definition call_state :: "SchedulerCall \<Rightarrow> Scheduler \<Rightarrow> Scheduler option" where
  "call_state c s = do {
     dcheck (c = Call_SetNeedsManageTiles \<longrightarrow> inside_action s \<noteq> ACTION_MANAGE_TILES);
     dcheck (c = Call_DidCreateAndInitializeOutputSurface \<longrightarrow>
               \<not> last_set_needs_begin_impl_frame s \<and> \<not> deadline_closure s);
     let s = (if c = Call_DidLoseOutputSurface
              then s\<lparr>last_set_needs_begin_impl_frame := False, deadline_closure := False\<rparr> else s);
     sm \<leftarrow> apply_call c (state_machine s);
     Some (s\<lparr>state_machine := sm\<rparr>)
   }"

fun call_states :: "SchedulerCall list \<Rightarrow> Scheduler \<Rightarrow> Scheduler option" where
  "call_states [] s = Some s"
| "call_states (c # cs) s = do { s \<leftarrow> call_state c s; call_states cs s }"

definition perform_action :: "'w SchedulerClient \<Rightarrow> Action \<Rightarrow> Scheduler \<Rightarrow> 'w \<Rightarrow> (Scheduler \<times> 'w) option" where
  "perform_action cl a s w =
     (if a = ACTION_NONE \<or> a = ACTION_DRAW_AND_SWAP_ABORT then Some (s, w)
      else do {
        let (result, calls, w) = ScheduledAction cl a w;
        s \<leftarrow> call_states calls s;
        dcheck (a = ACTION_DRAW_AND_READBACK \<longrightarrow> \<not> did_swap result);
        Some (if a = ACTION_DRAW_AND_SWAP_IF_POSSIBLE
              then s\<lparr>state_machine := DidDrawIfPossibleCompleted (did_draw result) (state_machine s)\<rparr>
              else s, w)
      })"

partial_function (option) action_loop :: "'w SchedulerClient \<Rightarrow> Scheduler \<Rightarrow> 'w \<Rightarrow> (Scheduler \<times> 'w) option" where
  "action_loop cl s w = do {
     _ \<leftarrow> CheckInvariants (state_machine s);
     a \<leftarrow> NextAction (state_machine s);
     sm \<leftarrow> UpdateState a (state_machine s);
     (s, w) \<leftarrow> perform_action cl a (s\<lparr>state_machine := sm, inside_action := a\<rparr>) w;
     let s = s\<lparr>inside_action := ACTION_NONE\<rparr>;
     if a = ACTION_NONE then Some (s, w) else action_loop cl s w
   }"

definition SetupNextBeginImplFrameIfNeeded ::
  "'w SchedulerClient \<Rightarrow> Scheduler \<Rightarrow> 'w \<Rightarrow> (Scheduler \<times> 'w) option" where
  "SetupNextBeginImplFrameIfNeeded cl s w = do {
     let needs = BeginImplFrameNeeded (state_machine s);
     let at_end_of_deadline =
       (begin_impl_frame_state (state_machine s) = BEGIN_IMPL_FRAME_STATE_INSIDE_DEADLINE);
     let (s, w) =
       (if needs \<and> \<not> last_set_needs_begin_impl_frame s \<or> at_end_of_deadline
        then (s\<lparr>last_set_needs_begin_impl_frame := needs\<rparr>, SetNeedsBeginImplFrame cl needs w)
        else (s, w));
     if ShouldPollForAnticipatedDrawTriggers (state_machine s) then do {
       dcheck (\<not> SupportsProactiveBeginImplFrame (state_machine s));
       dcheck (\<not> needs);
       Some (if \<not> poll_closure s
             then (s\<lparr>poll_closure := True\<rparr>, post_delayed_poll cl (bfa_interval (last_begin_args s)) w)
             else (s, w))
     }
     else Some (s\<lparr>poll_closure := False\<rparr>, w)
   }"

definition PostBeginImplFrameDeadline ::
  "'w SchedulerClient \<Rightarrow> int \<Rightarrow> Scheduler \<Rightarrow> 'w \<Rightarrow> Scheduler \<times> 'w" where
  "PostBeginImplFrameDeadline cl deadline s w =
     (s\<lparr>deadline_closure := True\<rparr>, client_PostBeginImplFrameDeadline cl deadline w)"

definition ProcessScheduledActions ::
  "'w SchedulerClient \<Rightarrow> Scheduler \<Rightarrow> 'w \<Rightarrow> (Scheduler \<times> 'w) option" where
  "ProcessScheduledActions cl s w =
     (if inside_process_scheduled_actions s then Some (s, w)
      else do {
        (s, w) \<leftarrow> action_loop cl (s\<lparr>inside_process_scheduled_actions := True\<rparr>) w;
        (s, w) \<leftarrow> SetupNextBeginImplFrameIfNeeded cl s w;
        let w = DidAnticipatedDrawTimeChange cl (AnticipatedDrawTime (frame_time_now cl w) s) w;
        let (s, w) = (if ShouldTriggerBeginImplFrameDeadlineEarly (state_machine s)
                      then PostBeginImplFrameDeadline cl 0 s w else (s, w));
        Some (s\<lparr>inside_process_scheduled_actions := False\<rparr>, w)
      })"

subsection \<open>Calls of the embedder\<close>

text \<open>\<open>SetCanStart\<close> ... \<open>DidCreateAndInitializeOutputSurface\<close>; \<open>DidManageTiles\<close> processes no actions.\<close>

definition Scheduler_call ::
  "'w SchedulerClient \<Rightarrow> SchedulerCall \<Rightarrow> Scheduler \<Rightarrow> 'w \<Rightarrow> (Scheduler \<times> 'w) option" where
  "Scheduler_call cl c s w = do {
     s \<leftarrow> call_state c s;
     if c = Call_DidManageTiles then Some (s, w) else ProcessScheduledActions cl s w
   }"

definition Scheduler_OnBeginImplFrameDeadline ::
  "'w SchedulerClient \<Rightarrow> Scheduler \<Rightarrow> 'w \<Rightarrow> (Scheduler \<times> 'w) option" where
  "Scheduler_OnBeginImplFrameDeadline cl s w = do {
     dcheck (HasInitializedOutputSurface (state_machine s));
     sm \<leftarrow> OnBeginImplFrameDeadline (state_machine s);
     (s, w) \<leftarrow> ProcessScheduledActions cl (s\<lparr>deadline_closure := False, state_machine := sm\<rparr>) w;
     s \<leftarrow> (if HasInitializedOutputSurface (state_machine s) then do {
             sm \<leftarrow> OnBeginImplFrameIdle (state_machine s);
             Some (s\<lparr>state_machine := sm\<rparr>)
           }
           else Some s);
     Some (s, DidBeginImplFrameDeadline cl w)
   }"

definition BeginImplFrame ::
  "'w SchedulerClient \<Rightarrow> BeginFrameArgs \<Rightarrow> Scheduler \<Rightarrow> 'w \<Rightarrow> (Scheduler \<times> 'w) option" where
  "BeginImplFrame cl args s w = do {
     dcheck (begin_impl_frame_state (state_machine s) = BEGIN_IMPL_FRAME_STATE_IDLE);
     dcheck (HasInitializedOutputSurface (state_machine s));
     let args = args\<lparr>bfa_deadline := bfa_deadline args - DrawDurationEstimate cl w\<rparr>;
     let s = s\<lparr>last_begin_args := args\<rparr>;
     sm \<leftarrow> OnBeginImplFrame args (state_machine s);
     let s = s\<lparr>state_machine := sm\<rparr>;
     let s = (if switch_to_low_latency_if_possible (scheduler_settings s)
              then s\<lparr>state_machine := SetSkipBeginMainFrameToReduceLatency
                       (MainThreadIsInHighLatencyMode (state_machine s) \<and>
                        CanCommitAndActivateBeforeDeadline cl s w) (state_machine s)\<rparr>
              else s);
     (s, w) \<leftarrow> ProcessScheduledActions cl s w;
     if \<not> HasInitializedOutputSurface (state_machine s) then Some (s, w)
     else do {
       sm \<leftarrow> OnBeginImplFrameDeadlinePending (state_machine s);
       let s = s\<lparr>state_machine := sm\<rparr>;
       if using_synchronous_renderer_compositor (scheduler_settings s)
       then Scheduler_OnBeginImplFrameDeadline cl s w
       else Some (PostBeginImplFrameDeadline cl
         (if \<not> deadline_scheduling_enabled (scheduler_settings s) then 0
          else if ShouldTriggerBeginImplFrameDeadlineEarly sm then 0
          else if needs_redraw sm then bfa_deadline (last_begin_args s)
          else bfa_frame_time (last_begin_args s) + bfa_interval (last_begin_args s)) s w)
     }
   }"

definition PollForAnticipatedDrawTriggers ::
  "'w SchedulerClient \<Rightarrow> Scheduler \<Rightarrow> 'w \<Rightarrow> (Scheduler \<times> 'w) option" where
  "PollForAnticipatedDrawTriggers cl s w = do {
     let s = s\<lparr>state_machine := DidEnterPollForAnticipatedDrawTriggers (state_machine s)\<rparr>;
     (s, w) \<leftarrow> ProcessScheduledActions cl s w;
     Some (s\<lparr>state_machine := DidLeavePollForAnticipatedDrawTriggers (state_machine s), poll_closure := False\<rparr>, w)
   }"

subsection \<open>Every run of the action loop ends in a consistent state\<close>

lemma HasInit_iff:
  "HasInitializedOutputSurface_state out \<longleftrightarrow> out \<noteq> OUTPUT_SURFACE_LOST \<and> out \<noteq> OUTPUT_SURFACE_CREATING"
  by (cases out) simp_all

lemma UpdateState_keeps:
  assumes "UpdateState a s = Some s'"
  shows "begin_impl_frame_state s' = begin_impl_frame_state s"
    "HasInitializedOutputSurface s' = HasInitializedOutputSurface s"
proof -
  have "begin_impl_frame_state s' = begin_impl_frame_state s \<and>
    (output_surface_state s' = output_surface_state s \<or>
     output_surface_state s = OUTPUT_SURFACE_LOST \<and> output_surface_state s' = OUTPUT_SURFACE_CREATING \<or>
     output_surface_state s = OUTPUT_SURFACE_WAITING_FOR_FIRST_ACTIVATION \<and> output_surface_state s' = OUTPUT_SURFACE_ACTIVE \<or>
     output_surface_state s = OUTPUT_SURFACE_WAITING_FOR_FIRST_COMMIT \<and>
       output_surface_state s' \<in> {OUTPUT_SURFACE_ACTIVE, OUTPUT_SURFACE_WAITING_FOR_FIRST_ACTIVATION})"
  proof (cases a)
    case ACTION_COMMIT
    with assms UpdateStateOnCommit_committed [of s s'] obtain rb where "s' = committed False rb s" by auto
    then show ?thesis by (simp add: committed_def Let_def commit_output_def)
  next
    case ACTION_ACTIVATE_PENDING_TREE
    with assms have "s' = UpdateStateOnActivation s" by simp
    then show ?thesis by (simp add: UpdateStateOnActivation_def Let_def)
  qed (use assms in \<open>auto simp: UpdateStateOnDraw_def UpdateStateOnManageTiles_def Let_def split: if_splits\<close>)
  then show "begin_impl_frame_state s' = begin_impl_frame_state s"
    "HasInitializedOutputSurface s' = HasInitializedOutputSurface s"
    by (auto simp: HasInitializedOutputSurface_def HasInit_iff)
qed

text \<open>While no output surface is initialized there is no frame, no deadline and no request for one.\<close>

definition no_surface_idle :: "Scheduler \<Rightarrow> bool" where
  "no_surface_idle s \<longleftrightarrow> HasInitializedOutputSurface (state_machine s) \<or>
     begin_impl_frame_state (state_machine s) = BEGIN_IMPL_FRAME_STATE_IDLE \<and>
     \<not> last_set_needs_begin_impl_frame s \<and> \<not> deadline_closure s"

definition same_frame :: "Scheduler \<Rightarrow> Scheduler \<Rightarrow> bool" where
  "same_frame s s' \<longleftrightarrow>
     inside_process_scheduled_actions s' = inside_process_scheduled_actions s \<and>
     scheduler_settings s' = scheduler_settings s \<and> last_begin_args s' = last_begin_args s \<and>
     poll_closure s' = poll_closure s \<and> inside_action s' = inside_action s \<and>
     (no_surface_idle s \<longrightarrow> no_surface_idle s') \<and>
     (HasInitializedOutputSurface (state_machine s') \<longrightarrow>
        HasInitializedOutputSurface (state_machine s) \<and>
        begin_impl_frame_state (state_machine s') = begin_impl_frame_state (state_machine s) \<and>
        deadline_closure s' = deadline_closure s \<and>
        last_set_needs_begin_impl_frame s' = last_set_needs_begin_impl_frame s)"

lemma same_frame_refl [simp]: "same_frame s s"
  by (simp add: same_frame_def)

lemma same_frame_trans: "same_frame s t \<Longrightarrow> same_frame t u \<Longrightarrow> same_frame s u"
  unfolding same_frame_def by metis

lemma apply_call_keeps:
  assumes "apply_call c s = Some s'" "loop_safe a c"
  shows "begin_impl_frame_state s' = begin_impl_frame_state s \<and> output_surface_state s' = output_surface_state s \<and>
      (c = Call_DidLoseOutputSurface \<longrightarrow> \<not> HasInitializedOutputSurface s) \<or>
    c = Call_DidLoseOutputSurface \<and> HasInitializedOutputSurface s \<and> \<not> HasInitializedOutputSurface s' \<and>
      begin_impl_frame_state s' = BEGIN_IMPL_FRAME_STATE_IDLE"
proof (cases c)
  case Call_DidLoseOutputSurface
  with assms(1) have s': "s' = DidLoseOutputSurface s" by simp
  show ?thesis using Call_DidLoseOutputSurface
    unfolding s' by (simp add: DidLoseOutputSurface_def HasInitializedOutputSurface_def HasInit_iff)
next
  case (Call_BeginMainFrameAborted b)
  with assms(2) show ?thesis by (cases b) (simp_all add: loop_safe_def)
qed (use assms in \<open>auto simp: loop_safe_def SetCanStart_def SetVisible_def SetCanDraw_def NotifyReadyToActivate_def
  SetNeedsCommit_def SetNeedsRedraw_def SetNeedsManageTiles_def SetSwapUsedIncompleteTile_def
  SetSmoothnessTakesPriority_def DidManageTiles_def\<close>)

lemma call_state_safe:
  assumes "ssm_inv (state_machine s)" "loop_safe (inside_action s) c"
  obtains s' where "call_state c s = Some s'" "ssm_inv (state_machine s')" "same_frame s s'"
    "phase_work (state_machine s') \<le> phase_work (state_machine s)"
    "inside_action s = ACTION_MANAGE_TILES \<Longrightarrow>
       needs_manage_tiles (state_machine s') \<longrightarrow> needs_manage_tiles (state_machine s)"
proof -
  obtain sm where sm: "apply_call c (state_machine s) = Some sm" "phase_work sm \<le> phase_work (state_machine s)"
    "inside_action s = ACTION_MANAGE_TILES \<Longrightarrow> needs_manage_tiles sm \<longrightarrow> needs_manage_tiles (state_machine s)"
    using loop_safe_call [OF assms(2)] by metis
  have ne: "c \<noteq> Call_DidCreateAndInitializeOutputSurface" "c \<noteq> Call_SetNeedsForcedCommitForReadback"
    "c = Call_SetNeedsManageTiles \<Longrightarrow> inside_action s \<noteq> ACTION_MANAGE_TILES"
    using assms(2) by (auto simp: loop_safe_def)
  define s' where "s' = (if c = Call_DidLoseOutputSurface
      then s\<lparr>last_set_needs_begin_impl_frame := False, deadline_closure := False\<rparr> else s)\<lparr>state_machine := sm\<rparr>"
  have eq: "call_state c s = Some s'"
    using sm(1) ne by (auto simp: call_state_def s'_def)
  have st [simp]: "state_machine s' = sm" by (simp add: s'_def)
  have "same_frame s s'"
    using apply_call_keeps [OF sm(1) assms(2)]
    by (auto simp: same_frame_def no_surface_idle_def s'_def HasInitializedOutputSurface_def)
  moreover have "ssm_inv sm" using apply_call_inv [OF assms(1) sm(1)] ne by blast
  ultimately show thesis using that [OF eq] sm by simp
qed

lemma call_states_safe:
  assumes "ssm_inv (state_machine s)" "\<forall>c \<in> set cs. loop_safe (inside_action s) c"
  shows "\<exists>s'. call_states cs s = Some s' \<and> ssm_inv (state_machine s') \<and> same_frame s s' \<and>
    phase_work (state_machine s') \<le> phase_work (state_machine s) \<and>
    (inside_action s = ACTION_MANAGE_TILES \<longrightarrow>
       needs_manage_tiles (state_machine s') \<longrightarrow> needs_manage_tiles (state_machine s))"
  using assms
proof (induction cs arbitrary: s)
  case (Cons c cs)
  then have safe: "loop_safe (inside_action s) c" by simp
  obtain s1 where s1: "call_state c s = Some s1" "ssm_inv (state_machine s1)" "same_frame s s1"
    "phase_work (state_machine s1) \<le> phase_work (state_machine s)"
    "inside_action s = ACTION_MANAGE_TILES \<Longrightarrow>
       needs_manage_tiles (state_machine s1) \<longrightarrow> needs_manage_tiles (state_machine s)"
    using call_state_safe [OF Cons.prems(1) safe] by metis
  have ia: "inside_action s1 = inside_action s" using s1(3) by (simp add: same_frame_def)
  obtain s2 where s2: "call_states cs s1 = Some s2" "ssm_inv (state_machine s2)" "same_frame s1 s2"
    "phase_work (state_machine s2) \<le> phase_work (state_machine s1)"
    "inside_action s = ACTION_MANAGE_TILES \<longrightarrow>
       needs_manage_tiles (state_machine s2) \<longrightarrow> needs_manage_tiles (state_machine s1)"
    using Cons.IH [OF s1(2)] Cons.prems(2) ia by auto
  then show ?case using s1 same_frame_trans [OF s1(3) s2(3)] by auto
qed simp

text \<open>
  A client that calls back only what does not restart the machine, and whose readback does not swap.
\<close>

definition client_ok :: "'w SchedulerClient \<Rightarrow> bool" where
  "client_ok cl \<longleftrightarrow> (\<forall>a w. case ScheduledAction cl a w of (result, calls, w') \<Rightarrow>
     (\<forall>c \<in> set calls. loop_safe a c) \<and> (a = ACTION_DRAW_AND_READBACK \<longrightarrow> \<not> did_swap result))"

lemma same_frame_machine:
  assumes "begin_impl_frame_state sm = begin_impl_frame_state (state_machine s)"
    "HasInitializedOutputSurface sm = HasInitializedOutputSurface (state_machine s)"
  shows "same_frame s (s\<lparr>state_machine := sm\<rparr>)"
  using assms by (simp add: same_frame_def no_surface_idle_def)

lemma DidDrawIfPossibleCompleted_keeps:
  "begin_impl_frame_state (DidDrawIfPossibleCompleted b s) = begin_impl_frame_state s"
  "HasInitializedOutputSurface (DidDrawIfPossibleCompleted b s) = HasInitializedOutputSurface s"
  by (simp_all add: DidDrawIfPossibleCompleted_def Let_def HasInitializedOutputSurface_def)

lemma perform_action_safe:
  assumes "client_ok cl" "ssm_inv (state_machine s)" "inside_action s = a"
  shows "\<exists>s' w'. perform_action cl a s w = Some (s', w') \<and> ssm_inv (state_machine s') \<and> same_frame s s' \<and>
    phase_work (state_machine s') \<le> phase_work (state_machine s) \<and>
    (a = ACTION_MANAGE_TILES \<longrightarrow>
       needs_manage_tiles (state_machine s') \<longrightarrow> needs_manage_tiles (state_machine s))"
proof (cases "a = ACTION_NONE \<or> a = ACTION_DRAW_AND_SWAP_ABORT")
  case True
  with assms(2) show ?thesis by (auto simp: perform_action_def)
next
  case False
  obtain r cs w1 where cl: "ScheduledAction cl a w = (r, cs, w1)" by (metis prod_cases3)
  with assms(1) have safe: "\<forall>c \<in> set cs. loop_safe a c" and swap: "a = ACTION_DRAW_AND_READBACK \<longrightarrow> \<not> did_swap r"
    unfolding client_ok_def by (metis (mono_tags, lifting) case_prod_conv)+
  obtain s1 where s1: "call_states cs s = Some s1" "ssm_inv (state_machine s1)" "same_frame s s1"
    "phase_work (state_machine s1) \<le> phase_work (state_machine s)"
    "a = ACTION_MANAGE_TILES \<longrightarrow> needs_manage_tiles (state_machine s1) \<longrightarrow> needs_manage_tiles (state_machine s)"
    using call_states_safe [OF assms(2), of cs] safe assms(3) by auto
  show ?thesis
  proof (cases "a = ACTION_DRAW_AND_SWAP_IF_POSSIBLE")
    case True
    let ?s2 = "s1\<lparr>state_machine := DidDrawIfPossibleCompleted (did_draw r) (state_machine s1)\<rparr>"
    have "same_frame s ?s2"
      using same_frame_trans [OF s1(3) same_frame_machine [of _ s1]] by (simp add: DidDrawIfPossibleCompleted_keeps)
    with True False cl s1 swap show ?thesis
      by (auto simp: perform_action_def DidDrawIfPossibleCompleted_inv DidDrawIfPossibleCompleted_work)
  next
    case other: False
    with False cl s1 swap show ?thesis by (auto simp: perform_action_def)
  qed
qed

lemma NextAction_none:
  "NextAction s = Some ACTION_NONE \<Longrightarrow> commit_state s \<noteq> COMMIT_STATE_READY_TO_COMMIT"
  by (auto simp: NextAction_def ShouldCommit_def elim!: bind_SomeE split: if_splits)

lemma action_loop_total:
  assumes "client_ok cl" "ssm_inv (state_machine s)" "inside_action s = ACTION_NONE"
  shows "\<exists>s' w'. action_loop cl s w = Some (s', w') \<and> ssm_inv (state_machine s') \<and> same_frame s s' \<and>
    NextAction (state_machine s') = Some ACTION_NONE"
  using assms(2,3)
proof (induction "pending_work (state_machine s)" arbitrary: s w rule: less_induct)
  case less
  note inv = less.prems(1)
  obtain a where a: "NextAction (state_machine s) = Some a" using NextAction_total [OF inv] by blast
  obtain sm where sm: "UpdateState a (state_machine s) = Some sm" "ssm_inv sm"
    using UpdateState_NextAction_inv [OF inv a] by blast
  let ?s1 = "s\<lparr>state_machine := sm, inside_action := a\<rparr>"
  obtain s2 w2 where s2: "perform_action cl a ?s1 w = Some (s2, w2)" "ssm_inv (state_machine s2)" "same_frame ?s1 s2"
    "phase_work (state_machine s2) \<le> phase_work sm"
    "a = ACTION_MANAGE_TILES \<longrightarrow> needs_manage_tiles (state_machine s2) \<longrightarrow> needs_manage_tiles sm"
    using perform_action_safe [OF assms(1), of ?s1 a w] sm(2) by auto
  let ?s3 = "s2\<lparr>inside_action := ACTION_NONE\<rparr>"
  have fr: "same_frame s ?s3"
    using s2(3) UpdateState_keeps [OF sm(1)] less.prems(2) unfolding same_frame_def no_surface_idle_def by simp
  note unfold = action_loop.simps [of cl s w] CheckInvariants_ok [OF inv] a sm(1) s2(1)
  show ?case
  proof (cases "a = ACTION_NONE")
    case True
    with sm(1) s2(1) have "s2 = ?s1" "sm = state_machine s" by (simp_all add: perform_action_def)
    with True a inv fr show ?thesis by (simp add: unfold perform_action_def)
  next
    case False
    have "pending_work (state_machine ?s3) < pending_work (state_machine s)"
      using NextAction_work [OF inv a sm(1) False] s2(4,5) by (auto simp: pending_work_def)
    from less.hyps [OF this, of w2] s2(2) obtain s' w' where "action_loop cl ?s3 w2 = Some (s', w')"
      "ssm_inv (state_machine s')" "same_frame ?s3 s'" "NextAction (state_machine s') = Some ACTION_NONE"
      by auto
    with False same_frame_trans [OF fr] show ?thesis by (simp add: unfold)
  qed
qed

lemma SetupNextBeginImplFrameIfNeeded_total:
  assumes "no_surface_idle s"
  shows "\<exists>s' w'. SetupNextBeginImplFrameIfNeeded cl s w = Some (s', w') \<and> no_surface_idle s' \<and>
    state_machine s' = state_machine s \<and> deadline_closure s' = deadline_closure s \<and>
    scheduler_settings s' = scheduler_settings s \<and> last_begin_args s' = last_begin_args s \<and>
    inside_action s' = inside_action s"
proof -
  have "BeginImplFrameNeeded (state_machine s) \<Longrightarrow> HasInitializedOutputSurface (state_machine s)"
    by (auto simp: BeginImplFrameNeeded_def BeginImplFrameNeededToDraw_def ProactiveBeginImplFrameWanted_def split: if_splits)
  moreover have "ShouldPollForAnticipatedDrawTriggers (state_machine s) \<Longrightarrow>
      \<not> SupportsProactiveBeginImplFrame (state_machine s) \<and> \<not> BeginImplFrameNeeded (state_machine s)"
    by (auto simp: ShouldPollForAnticipatedDrawTriggers_def BeginImplFrameNeeded_def split: if_splits)
  ultimately show ?thesis
    using assms by (auto simp: SetupNextBeginImplFrameIfNeeded_def no_surface_idle_def Let_def)
qed

text \<open>
  The state between the calls of the embedder: either no frame is open, or one is inside its begin-frame
  phase and its deadline task is posted.
\<close>

definition sched_ok :: "Scheduler \<Rightarrow> bool" where
  "sched_ok s \<longleftrightarrow> \<not> inside_process_scheduled_actions s \<and> inside_action s = ACTION_NONE \<and>
     ssm_inv (state_machine s) \<and> commit_state (state_machine s) \<noteq> COMMIT_STATE_READY_TO_COMMIT \<and>
     no_surface_idle s"

definition sched_inv :: "Scheduler \<Rightarrow> bool" where
  "sched_inv s \<longleftrightarrow> sched_ok s \<and>
     begin_impl_frame_state (state_machine s) \<in> {BEGIN_IMPL_FRAME_STATE_IDLE, BEGIN_IMPL_FRAME_STATE_INSIDE_BEGIN_FRAME} \<and>
     (deadline_closure s \<longleftrightarrow> begin_impl_frame_state (state_machine s) = BEGIN_IMPL_FRAME_STATE_INSIDE_BEGIN_FRAME)"

lemma ProcessScheduledActions_total:
  assumes "client_ok cl" "\<not> inside_process_scheduled_actions s" "inside_action s = ACTION_NONE"
    and "ssm_inv (state_machine s)" "no_surface_idle s"
  shows "\<exists>s' w'. ProcessScheduledActions cl s w = Some (s', w') \<and> sched_ok s' \<and>
    scheduler_settings s' = scheduler_settings s \<and> last_begin_args s' = last_begin_args s \<and>
    NextAction (state_machine s') = Some ACTION_NONE \<and>
    (HasInitializedOutputSurface (state_machine s') \<longrightarrow>
       HasInitializedOutputSurface (state_machine s) \<and>
       begin_impl_frame_state (state_machine s') = begin_impl_frame_state (state_machine s) \<and>
       (deadline_closure s' \<longleftrightarrow> deadline_closure s \<or>
          ShouldTriggerBeginImplFrameDeadlineEarly (state_machine s')))"
proof -
  let ?s0 = "s\<lparr>inside_process_scheduled_actions := True\<rparr>"
  obtain s1 w1 where s1: "action_loop cl ?s0 w = Some (s1, w1)" "ssm_inv (state_machine s1)" "same_frame ?s0 s1"
    "NextAction (state_machine s1) = Some ACTION_NONE"
    using action_loop_total [OF assms(1), of ?s0 w] assms(3,4) by auto
  have "no_surface_idle ?s0" using assms(5) by (simp add: no_surface_idle_def)
  with s1(3) have idle: "no_surface_idle s1" unfolding same_frame_def by blast
  obtain s2 w2 where s2: "SetupNextBeginImplFrameIfNeeded cl s1 w1 = Some (s2, w2)" "no_surface_idle s2"
    "state_machine s2 = state_machine s1" "deadline_closure s2 = deadline_closure s1"
    "scheduler_settings s2 = scheduler_settings s1" "last_begin_args s2 = last_begin_args s1"
    "inside_action s2 = inside_action s1"
    using SetupNextBeginImplFrameIfNeeded_total [OF idle, of cl w1] by auto
  have early: "ShouldTriggerBeginImplFrameDeadlineEarly (state_machine s1) \<Longrightarrow> HasInitializedOutputSurface (state_machine s1)"
    using idle by (auto simp: ShouldTriggerBeginImplFrameDeadlineEarly_def no_surface_idle_def split: if_splits)
  have "inside_action s1 = ACTION_NONE" "scheduler_settings s1 = scheduler_settings s" "last_begin_args s1 = last_begin_args s"
    "HasInitializedOutputSurface (state_machine s1) \<Longrightarrow> HasInitializedOutputSurface (state_machine s) \<and>
       begin_impl_frame_state (state_machine s1) = begin_impl_frame_state (state_machine s) \<and>
       deadline_closure s1 = deadline_closure s"
    using s1(3) assms(3) by (simp_all add: same_frame_def)
  moreover have "commit_state (state_machine s1) \<noteq> COMMIT_STATE_READY_TO_COMMIT" using NextAction_none [OF s1(4)] .
  ultimately show ?thesis
    using assms(2) s1 s2 early
    by (auto simp: ProcessScheduledActions_def PostBeginImplFrameDeadline_def Let_def sched_ok_def no_surface_idle_def)
qed

lemma apply_call_frame:
  assumes "apply_call c s = Some s'"
  shows "begin_impl_frame_state s' = begin_impl_frame_state s \<and>
      (HasInitializedOutputSurface s' \<longleftrightarrow>
         HasInitializedOutputSurface s \<or> c = Call_DidCreateAndInitializeOutputSurface) \<and> 
      (c = Call_DidLoseOutputSurface \<longrightarrow> \<not> HasInitializedOutputSurface s) \<or>
    c = Call_DidLoseOutputSurface \<and> \<not> HasInitializedOutputSurface s' \<and>
      begin_impl_frame_state s' = BEGIN_IMPL_FRAME_STATE_IDLE"
proof (cases "loop_safe ACTION_NONE c")
  case True
  from apply_call_keeps [OF assms True] True show ?thesis
    by (auto simp: HasInitializedOutputSurface_def loop_safe_def)
next
  case False
  then consider "c = Call_SetNeedsForcedCommitForReadback" | "c = Call_SetMainThreadNeedsLayerTextures"
    | "c = Call_FinishCommit" | "c = Call_BeginMainFrameAborted True" | "c = Call_BeginMainFrameAborted False"
    | "c = Call_DidCreateAndInitializeOutputSurface"
    by (auto simp: loop_safe_def)
  then show ?thesis
  proof cases
    case 4
    with assms obtain rb where "s' = committed True rb s"
      by (auto simp: BeginMainFrameAborted_def UpdateStateOnCommit_aborted split: if_splits option.splits)
    with 4 show ?thesis by (simp add: committed_def Let_def HasInitializedOutputSurface_def commit_output_def HasInit_iff)
  qed (use assms in \<open>auto simp: SetNeedsForcedCommitForReadback_def SetNeedsCommit_def SetMainThreadNeedsLayerTextures_def
    FinishCommit_def BeginMainFrameAborted_def DidCreateAndInitializeOutputSurface_def Let_def
    HasInitializedOutputSurface_def split: if_splits\<close>)
qed

text \<open>What the embedder has to respect: the \<open>DCHECK\<close>s at the start of the public functions.\<close>

fun call_pre :: "SchedulerCall \<Rightarrow> ssm \<Rightarrow> bool" where
  "call_pre Call_SetNeedsForcedCommitForReadback s \<longleftrightarrow>
     readback_state s = READBACK_STATE_IDLE \<or> readback_state s = READBACK_STATE_WAITING_FOR_REPLACEMENT_COMMIT"
| "call_pre Call_SetMainThreadNeedsLayerTextures s \<longleftrightarrow>
     \<not> main_thread_needs_layer_textures s \<and> texture_state s \<noteq> LAYER_TEXTURE_STATE_ACQUIRED_BY_MAIN_THREAD"
| "call_pre Call_FinishCommit s \<longleftrightarrow> commit_state s = COMMIT_STATE_FRAME_IN_PROGRESS"
| "call_pre (Call_BeginMainFrameAborted did_handle) s \<longleftrightarrow> commit_state s = COMMIT_STATE_FRAME_IN_PROGRESS \<and>
     (did_handle \<or> readback_state s \<noteq> READBACK_STATE_WAITING_FOR_COMMIT)"
| "call_pre Call_DidCreateAndInitializeOutputSurface s \<longleftrightarrow> output_surface_state s = OUTPUT_SURFACE_CREATING"
| "call_pre _ s \<longleftrightarrow> True"

lemma apply_call_pre:
  assumes "ssm_inv s" "call_pre c s"
  shows "\<exists>s'. apply_call c s = Some s'"
proof (cases c)
  case (Call_BeginMainFrameAborted did_handle)
  with assms UpdateStateOnCommit_inv [of s True] show ?thesis
    by (cases did_handle) (auto simp: BeginMainFrameAborted_def CommitPending_def)
qed (use assms in \<open>auto simp: SetNeedsForcedCommitForReadback_def SetNeedsCommit_def
  SetMainThreadNeedsLayerTextures_def FinishCommit_def DidCreateAndInitializeOutputSurface_def Let_def\<close>)

lemma sched_inv_no_surface:
  "sched_ok s \<Longrightarrow> \<not> HasInitializedOutputSurface (state_machine s) \<Longrightarrow> sched_inv s"
  by (simp add: sched_inv_def sched_ok_def no_surface_idle_def)

lemma early_inside:
  "ShouldTriggerBeginImplFrameDeadlineEarly s \<Longrightarrow> begin_impl_frame_state s = BEGIN_IMPL_FRAME_STATE_INSIDE_BEGIN_FRAME"
  by (auto simp: ShouldTriggerBeginImplFrameDeadlineEarly_def split: if_splits)

lemma Scheduler_call_ok:
  assumes "client_ok cl" "sched_inv s" "call_pre c (state_machine s)"
  shows "\<exists>s' w'. Scheduler_call cl c s w = Some (s', w') \<and> sched_inv s'"
proof -
  have ok: "sched_ok s" using assms(2) by (simp add: sched_inv_def)
  then have inv: "ssm_inv (state_machine s)" and ready: "commit_state (state_machine s) \<noteq> COMMIT_STATE_READY_TO_COMMIT"
    and idle: "no_surface_idle s" and flags: "\<not> inside_process_scheduled_actions s" "inside_action s = ACTION_NONE"
    by (simp_all add: sched_ok_def)
  obtain sm where sm: "apply_call c (state_machine s) = Some sm" using apply_call_pre [OF inv assms(3)] by blast
  have inv': "ssm_inv sm" using apply_call_inv [OF inv sm] ready by blast
  define s1 where "s1 = (if c = Call_DidLoseOutputSurface
      then s\<lparr>last_set_needs_begin_impl_frame := False, deadline_closure := False\<rparr> else s)\<lparr>state_machine := sm\<rparr>"
  have "c = Call_DidCreateAndInitializeOutputSurface \<Longrightarrow> \<not> HasInitializedOutputSurface (state_machine s)"
    using assms(3) by (simp add: HasInitializedOutputSurface_def)
  then have "call_state c s = Some s1"
    using sm flags(2) idle by (auto simp: call_state_def s1_def no_surface_idle_def)
  note run = Scheduler_call_def [of cl c s w] this
  have s1: "state_machine s1 = sm" "\<not> inside_process_scheduled_actions s1" "inside_action s1 = ACTION_NONE"
    using flags by (simp_all add: s1_def)
  have idle1: "no_surface_idle s1"
    using idle apply_call_frame [OF sm] by (auto simp: no_surface_idle_def s1_def)
  have keep: "HasInitializedOutputSurface sm \<Longrightarrow> begin_impl_frame_state sm = begin_impl_frame_state (state_machine s) \<and>
      deadline_closure s1 = deadline_closure s"
    using apply_call_frame [OF sm] by (auto simp: s1_def)
  show ?thesis
  proof (cases "c = Call_DidManageTiles")
    case True
    with sm have "sm = DidManageTiles (state_machine s)" by simp
    then have "commit_state sm = commit_state (state_machine s)"
      "begin_impl_frame_state sm = begin_impl_frame_state (state_machine s)"
      by (simp_all add: DidManageTiles_def)
    with True assms(2) ready inv' idle1 s1 have "sched_inv s1"
      by (simp add: sched_inv_def sched_ok_def s1_def)
    moreover have "Scheduler_call cl c s w = Some (s1, w)" unfolding run using True by simp
    ultimately show ?thesis by blast
  next
    case False
    obtain s' w' where s': "ProcessScheduledActions cl s1 w = Some (s', w')" "sched_ok s'"
      "HasInitializedOutputSurface (state_machine s') \<longrightarrow> HasInitializedOutputSurface sm \<and>
       begin_impl_frame_state (state_machine s') = begin_impl_frame_state sm \<and>
       (deadline_closure s' \<longleftrightarrow> deadline_closure s1 \<or> ShouldTriggerBeginImplFrameDeadlineEarly (state_machine s'))"
      using ProcessScheduledActions_total [OF assms(1) s1(2,3) _ idle1, of w] inv' s1(1) by auto
    have "sched_inv s'"
    proof (cases "HasInitializedOutputSurface (state_machine s')")
      case True
      with s'(2,3) keep assms(2) early_inside [of "state_machine s'"] show ?thesis by (auto simp: sched_inv_def)
    qed (use s'(2) sched_inv_no_surface in blast)
    moreover have "Scheduler_call cl c s w = Some (s', w')" unfolding run using False s'(1) by simp
    ultimately show ?thesis by blast
  qed
qed

lemma Scheduler_OnBeginImplFrameDeadline_ok:
  assumes "client_ok cl" "sched_ok s" "HasInitializedOutputSurface (state_machine s)"
    and "begin_impl_frame_state (state_machine s) = BEGIN_IMPL_FRAME_STATE_INSIDE_BEGIN_FRAME"
  shows "\<exists>s' w'. Scheduler_OnBeginImplFrameDeadline cl s w = Some (s', w') \<and> sched_inv s' \<and>
    begin_impl_frame_state (state_machine s') = BEGIN_IMPL_FRAME_STATE_IDLE"
proof -
  obtain sm where sm: "OnBeginImplFrameDeadline (state_machine s) = Some sm"
    "begin_impl_frame_state sm = BEGIN_IMPL_FRAME_STATE_INSIDE_DEADLINE"
    "HasInitializedOutputSurface sm"
    using assms(3,4) by (simp add: OnBeginImplFrameDeadline_def HasInitializedOutputSurface_def)
  have inv: "ssm_inv sm" using assms(2) frame_inv(3) [OF sm(1)] by (simp add: sched_ok_def)
  let ?s1 = "s\<lparr>deadline_closure := False, state_machine := sm\<rparr>"
  obtain s2 w2 where s2: "ProcessScheduledActions cl ?s1 w = Some (s2, w2)" "sched_ok s2"
    "HasInitializedOutputSurface (state_machine s2) \<longrightarrow>
       begin_impl_frame_state (state_machine s2) = BEGIN_IMPL_FRAME_STATE_INSIDE_DEADLINE \<and>
       (deadline_closure s2 \<longleftrightarrow> ShouldTriggerBeginImplFrameDeadlineEarly (state_machine s2))"
    using ProcessScheduledActions_total [OF assms(1), of ?s1 w] assms(2) inv sm
    by (auto simp: sched_ok_def no_surface_idle_def)
  show ?thesis
  proof (cases "HasInitializedOutputSurface (state_machine s2)")
    case True
    let ?sm = "state_machine s2\<lparr>begin_impl_frame_state := BEGIN_IMPL_FRAME_STATE_IDLE\<rparr>"
    from True s2(3) early_inside [of "state_machine s2"]
    have idle: "OnBeginImplFrameIdle (state_machine s2) = Some ?sm" and "\<not> deadline_closure s2"
      by (auto simp: OnBeginImplFrameIdle_def)
    then have "sched_inv (s2\<lparr>state_machine := ?sm\<rparr>)"
      using s2(2) True frame_inv(4) [OF idle]
      by (simp add: sched_inv_def sched_ok_def no_surface_idle_def HasInitializedOutputSurface_def)
    with True s2(1) sm(1) assms(3) idle show ?thesis by (simp add: Scheduler_OnBeginImplFrameDeadline_def)
  next
    case False
    with s2(2) have "sched_inv s2" "begin_impl_frame_state (state_machine s2) = BEGIN_IMPL_FRAME_STATE_IDLE"
      using sched_inv_no_surface by (auto simp: sched_ok_def no_surface_idle_def)
    with False s2(1) sm(1) assms(3) show ?thesis by (simp add: Scheduler_OnBeginImplFrameDeadline_def)
  qed
qed

lemma BeginImplFrame_ok:
  assumes "client_ok cl" "sched_inv s" "HasInitializedOutputSurface (state_machine s)"
    and "begin_impl_frame_state (state_machine s) = BEGIN_IMPL_FRAME_STATE_IDLE"
  shows "\<exists>s' w'. BeginImplFrame cl args s w = Some (s', w') \<and> sched_inv s'"
proof -
  have ok: "sched_ok s" and noclosure: "\<not> deadline_closure s" using assms(2,4) by (simp_all add: sched_inv_def)
  define args' where "args' = args\<lparr>bfa_deadline := bfa_deadline args - DrawDurationEstimate cl w\<rparr>"
  obtain sm where sm: "OnBeginImplFrame args' (state_machine s) = Some sm"
    "begin_impl_frame_state sm = BEGIN_IMPL_FRAME_STATE_BEGIN_FRAME_STARTING"
    "HasInitializedOutputSurface sm"
    using assms(3,4) by (simp add: OnBeginImplFrame_def HasInitializedOutputSurface_def Let_def)
  have inv: "ssm_inv sm" using ok frame_inv(1) [OF sm(1)] by (simp add: sched_ok_def)
  let ?s1 = "s\<lparr>last_begin_args := args', state_machine := sm\<rparr>"
  define s2 where "s2 = (if switch_to_low_latency_if_possible (scheduler_settings s)
      then ?s1\<lparr>state_machine := SetSkipBeginMainFrameToReduceLatency
              (MainThreadIsInHighLatencyMode sm \<and> CanCommitAndActivateBeforeDeadline cl ?s1 w) sm\<rparr> else ?s1)"
  have s2: "ssm_inv (state_machine s2)" "HasInitializedOutputSurface (state_machine s2)"
    "begin_impl_frame_state (state_machine s2) = BEGIN_IMPL_FRAME_STATE_BEGIN_FRAME_STARTING"
    "\<not> inside_process_scheduled_actions s2" "inside_action s2 = ACTION_NONE" "\<not> deadline_closure s2"
    "scheduler_settings s2 = scheduler_settings s" "no_surface_idle s2"
    using inv sm ok noclosure
    by (simp_all add: s2_def sched_ok_def quiet_inv SetSkipBeginMainFrameToReduceLatency_def
        HasInitializedOutputSurface_def no_surface_idle_def ssm_inv_def)
  obtain s3 w3 where s3: "ProcessScheduledActions cl s2 w = Some (s3, w3)" "sched_ok s3"
    "HasInitializedOutputSurface (state_machine s3) \<longrightarrow>
       begin_impl_frame_state (state_machine s3) = BEGIN_IMPL_FRAME_STATE_BEGIN_FRAME_STARTING"
    using ProcessScheduledActions_total [OF assms(1) s2(4,5,1,8), of w] s2(3) by auto
  have run: "BeginImplFrame cl args s w = (if \<not> HasInitializedOutputSurface (state_machine s3) then Some (s3, w3)
     else do {
       sm \<leftarrow> OnBeginImplFrameDeadlinePending (state_machine s3);
       let s = s3\<lparr>state_machine := sm\<rparr>;
       if using_synchronous_renderer_compositor (scheduler_settings s)
       then Scheduler_OnBeginImplFrameDeadline cl s w3
       else Some (PostBeginImplFrameDeadline cl
         (if \<not> deadline_scheduling_enabled (scheduler_settings s) then 0
          else if ShouldTriggerBeginImplFrameDeadlineEarly sm then 0
          else if needs_redraw sm then bfa_deadline (last_begin_args s)
          else bfa_frame_time (last_begin_args s) + bfa_interval (last_begin_args s)) s w3)
     })"
    using assms(3,4) sm(1) s3(1) unfolding BeginImplFrame_def s2_def args'_def Let_def
    by (cases "switch_to_low_latency_if_possible (scheduler_settings s)") simp_all
  show ?thesis
  proof (cases "HasInitializedOutputSurface (state_machine s3)")
    case True
    let ?sm = "state_machine s3\<lparr>begin_impl_frame_state := BEGIN_IMPL_FRAME_STATE_INSIDE_BEGIN_FRAME\<rparr>"
    let ?s4 = "s3\<lparr>state_machine := ?sm\<rparr>"
    have p: "OnBeginImplFrameDeadlinePending (state_machine s3) = Some ?sm"
      using True s3(3) by (simp add: OnBeginImplFrameDeadlinePending_def)
    have ok4: "sched_ok ?s4" "HasInitializedOutputSurface (state_machine ?s4)"
      using s3(2) True frame_inv(2) [OF p]
      by (simp_all add: sched_ok_def no_surface_idle_def HasInitializedOutputSurface_def)
    obtain s5 w5 where d: "Scheduler_OnBeginImplFrameDeadline cl ?s4 w3 = Some (s5, w5)" "sched_inv s5"
      using Scheduler_OnBeginImplFrameDeadline_ok [OF assms(1) ok4, of w3] by auto
    have "sched_inv (?s4\<lparr>deadline_closure := True\<rparr>)"
      using ok4 by (simp add: sched_inv_def sched_ok_def no_surface_idle_def)
    with d True show ?thesis
      by (cases "using_synchronous_renderer_compositor (scheduler_settings s3)")
        (simp_all add: run p PostBeginImplFrameDeadline_def Let_def)
  next
    case False
    with s3(2) sched_inv_no_surface show ?thesis by (simp add: run)
  qed
qed

lemma PollForAnticipatedDrawTriggers_ok:
  assumes "client_ok cl" "sched_inv s"
  shows "\<exists>s' w'. PollForAnticipatedDrawTriggers cl s w = Some (s', w') \<and> sched_inv s'"
proof -
  let ?s1 = "s\<lparr>state_machine := DidEnterPollForAnticipatedDrawTriggers (state_machine s)\<rparr>"
  have keep: "HasInitializedOutputSurface (state_machine ?s1) = HasInitializedOutputSurface (state_machine s)"
    "begin_impl_frame_state (state_machine ?s1) = begin_impl_frame_state (state_machine s)"
    by (simp_all add: DidEnterPollForAnticipatedDrawTriggers_def HasInitializedOutputSurface_def)
  have "no_surface_idle ?s1" using assms(2) keep by (auto simp: sched_inv_def sched_ok_def no_surface_idle_def)
  then obtain s2 w2 where s2: "ProcessScheduledActions cl ?s1 w = Some (s2, w2)" "sched_ok s2"
    "HasInitializedOutputSurface (state_machine s2) \<longrightarrow>
       begin_impl_frame_state (state_machine s2) = begin_impl_frame_state (state_machine s) \<and>
       (deadline_closure s2 \<longleftrightarrow> deadline_closure s \<or> ShouldTriggerBeginImplFrameDeadlineEarly (state_machine s2))"
    using ProcessScheduledActions_total [OF assms(1), of ?s1 w] assms(2) keep
    by (auto simp: sched_inv_def sched_ok_def quiet_inv)
  have "sched_inv s2"
  proof (cases "HasInitializedOutputSurface (state_machine s2)")
    case True
    with s2(2,3) assms(2) early_inside [of "state_machine s2"] show ?thesis by (auto simp: sched_inv_def)
  qed (use s2(2) sched_inv_no_surface in blast)
  then have "sched_inv (s2\<lparr>state_machine := DidLeavePollForAnticipatedDrawTriggers (state_machine s2), poll_closure := False\<rparr>)"
    by (simp add: sched_inv_def sched_ok_def no_surface_idle_def quiet_inv)
      (auto simp: DidLeavePollForAnticipatedDrawTriggers_def HasInitializedOutputSurface_def)
  with s2(1) show ?thesis by (simp add: PollForAnticipatedDrawTriggers_def)
qed

subsection \<open>Runs of the scheduler\<close>

text \<open>
  What happens to a scheduler: a call of the embedder, a \<open>BeginImplFrame\<close>, the deadline task or the poll
  task. An operation that is not enabled (a call outside its contract, a task that is not posted) is
  skipped.
\<close>

datatype SchedulerOp = Op_Call SchedulerCall | Op_BeginImplFrame BeginFrameArgs | Op_Deadline | Op_Poll

fun op_enabled :: "SchedulerOp \<Rightarrow> Scheduler \<Rightarrow> bool" where
  "op_enabled (Op_Call c) s \<longleftrightarrow> call_pre c (state_machine s)"
| "op_enabled (Op_BeginImplFrame args) s \<longleftrightarrow> HasInitializedOutputSurface (state_machine s) \<and>
     begin_impl_frame_state (state_machine s) = BEGIN_IMPL_FRAME_STATE_IDLE"
| "op_enabled Op_Deadline s \<longleftrightarrow> deadline_closure s"
| "op_enabled Op_Poll s \<longleftrightarrow> poll_closure s"

fun run_op :: "'w SchedulerClient \<Rightarrow> SchedulerOp \<Rightarrow> Scheduler \<Rightarrow> 'w \<Rightarrow> (Scheduler \<times> 'w) option" where
  "run_op cl (Op_Call c) s w = Scheduler_call cl c s w"
| "run_op cl (Op_BeginImplFrame args) s w = BeginImplFrame cl args s w"
| "run_op cl Op_Deadline s w = Scheduler_OnBeginImplFrameDeadline cl s w"
| "run_op cl Op_Poll s w = PollForAnticipatedDrawTriggers cl s w"

fun run_ops :: "'w SchedulerClient \<Rightarrow> SchedulerOp list \<Rightarrow> Scheduler \<Rightarrow> 'w \<Rightarrow> (Scheduler \<times> 'w) option" where
  "run_ops cl [] s w = Some (s, w)"
| "run_ops cl (op # ops) s w =
     (if op_enabled op s then do { (s, w) \<leftarrow> run_op cl op s w; run_ops cl ops s w } else run_ops cl ops s w)"

lemma run_op_ok:
  assumes "client_ok cl" "sched_inv s" "op_enabled op s"
  shows "\<exists>s' w'. run_op cl op s w = Some (s', w') \<and> sched_inv s'"
proof (cases op)
  case (Op_Call c)
  with assms Scheduler_call_ok [OF assms(1,2)] show ?thesis by simp
next
  case (Op_BeginImplFrame args)
  with assms BeginImplFrame_ok [OF assms(1,2)] show ?thesis by simp
next
  case Op_Deadline
  with assms(2,3) have "sched_ok s" "HasInitializedOutputSurface (state_machine s)"
    "begin_impl_frame_state (state_machine s) = BEGIN_IMPL_FRAME_STATE_INSIDE_BEGIN_FRAME"
    by (auto simp: sched_inv_def sched_ok_def no_surface_idle_def)
  with Op_Deadline Scheduler_OnBeginImplFrameDeadline_ok [OF assms(1), of s w] show ?thesis by auto
next
  case Op_Poll
  with assms PollForAnticipatedDrawTriggers_ok show ?thesis by simp
qed

lemma run_ops_ok:
  assumes "client_ok cl" "sched_inv s"
  shows "\<exists>s' w'. run_ops cl ops s w = Some (s', w') \<and> sched_inv s'"
  using assms(2)
proof (induction ops arbitrary: s w)
  case (Cons op ops)
  show ?case
  proof (cases "op_enabled op s")
    case True
    then obtain s1 w1 where "run_op cl op s w = Some (s1, w1)" "sched_inv s1"
      using run_op_ok [OF assms(1) Cons.prems True] by blast
    with True Cons.IH [of s1 w1] show ?thesis by simp
  qed (use Cons in simp)
qed simp

lemma Scheduler_new_ok: "\<exists>s. Scheduler_new st = Some s \<and> sched_inv s"
proof -
  have "\<not> HasInitializedOutputSurface (SchedulerStateMachine_new st)"
    by (simp add: HasInitializedOutputSurface_def SchedulerStateMachine_new_def)
  then have "\<not> BeginImplFrameNeeded (SchedulerStateMachine_new st)"
    by (simp add: BeginImplFrameNeeded_def BeginImplFrameNeededToDraw_def ProactiveBeginImplFrameWanted_def)
  then show ?thesis
    by (simp add: Scheduler_new_def sched_inv_def sched_ok_def no_surface_idle_def ssm_inv_new)
      (simp add: SchedulerStateMachine_new_def)
qed

lemma AnticipatedDrawTime_next:
  fixes now s
  defines "i \<equiv> bfa_interval (last_begin_args s)"
    and "t \<equiv> max (bfa_frame_time (last_begin_args s)) (bfa_deadline (last_begin_args s))"
  assumes "last_set_needs_begin_impl_frame s" "0 < i"
  shows "AnticipatedDrawTime now s =
    (if t \<le> now then now + (i - (now - t) mod i) else now + (i + (t - now) mod i))"
proof -
  have r: "AnticipatedDrawTime now s = t + i * (1 + ((now - t) sdiv i))"
    using assms(3,4) by (simp add: AnticipatedDrawTime_def Let_def i_def t_def)
  show ?thesis
  proof (cases "t \<le> now")
    case True
    then have "(now - t) sdiv i = (now - t) div i" using assms(4) by (simp add: signed_divide_int_def sgn_if)
    with True show ?thesis by (simp add: r algebra_simps minus_mod_eq_mult_div [symmetric])
  next
    case False
    then have "(now - t) sdiv i = - ((t - now) div i)" using assms(4) by (simp add: signed_divide_int_def sgn_if)
    with False show ?thesis by (simp add: r algebra_simps minus_mod_eq_mult_div [symmetric])
  qed
qed

subsection \<open>Properties\<close>

text \<open>A client that only draws and never calls back.\<close>

definition drawing_client :: "unit SchedulerClient" where
  "drawing_client =
     \<lparr>ScheduledAction = (\<lambda>_ w. (\<lparr>did_draw = True, did_swap = False, did_readback = False\<rparr>, [], w)),
      SetNeedsBeginImplFrame = (\<lambda>_ w. w), DidAnticipatedDrawTimeChange = (\<lambda>_ w. w),
      DrawDurationEstimate = (\<lambda>_. 0), BeginMainFrameToCommitDurationEstimate = (\<lambda>_. 0),
      CommitToActivateDurationEstimate = (\<lambda>_. 0), client_PostBeginImplFrameDeadline = (\<lambda>_ w. w),
      DidBeginImplFrameDeadline = (\<lambda>w. w), frame_time_now = (\<lambda>_. 0), post_delayed_poll = (\<lambda>_ w. w)\<rparr>"

lemma drawing_client_ok: "client_ok drawing_client"
  by (simp add: client_ok_def drawing_client_def)

text \<open>C4. Whatever the embedder does with a scheduler (any sequence of public calls that respect their \<open>DCHECK\<close>ed
  preconditions, begin-frame messages, deadline and poll tasks), every call returns and no \<open>DCHECK\<close> fails,
  provided the client's actions only call back what does not restart the machine. Between the calls the state
  machine satisfies its invariant, no commit is left ready, and a deadline task is posted exactly while a
  frame is open.\<close>

theorem scheduler_runs:
  assumes "client_ok cl"
  shows "\<exists>s s' w'. Scheduler_new st = Some s \<and> run_ops cl ops s w = Some (s', w') \<and>
    ssm_inv (state_machine s') \<and> commit_state (state_machine s') \<noteq> COMMIT_STATE_READY_TO_COMMIT \<and>
    begin_impl_frame_state (state_machine s') \<in> {BEGIN_IMPL_FRAME_STATE_IDLE, BEGIN_IMPL_FRAME_STATE_INSIDE_BEGIN_FRAME} \<and>
    (deadline_closure s' \<longleftrightarrow> begin_impl_frame_state (state_machine s') = BEGIN_IMPL_FRAME_STATE_INSIDE_BEGIN_FRAME)"
proof -
  obtain s where s: "Scheduler_new st = Some s" "sched_inv s" using Scheduler_new_ok by blast
  obtain s' w' where "run_ops cl ops s w = Some (s', w')" "sched_inv s'" using run_ops_ok [OF assms s(2)] by blast
  with s(1) show ?thesis by (auto simp: sched_inv_def sched_ok_def)
qed

theorem scheduler_runs_witness:
  "\<exists>s s' w'. Scheduler_new SchedulerSettings_new = Some s \<and>
    run_ops drawing_client [Op_Call Call_SetCanStart, Op_Call (Call_SetVisible True),
      Op_Call Call_DidCreateAndInitializeOutputSurface,
      Op_BeginImplFrame \<lparr>bfa_frame_time = 0, bfa_deadline = 8, bfa_interval = 16\<rparr>, Op_Deadline] s () = Some (s', w') \<and>
    ssm_inv (state_machine s')"
  using scheduler_runs [OF drawing_client_ok] by blast

text \<open>C14. The action loop of \<open>ProcessScheduledActions\<close> ends, in a state in which \<open>NextAction\<close> has nothing left to do, provided
  the client's actions only call back what does not restart the machine (\<open>client_ok\<close>).\<close>

theorem ProcessScheduledActions_settles:
  assumes "client_ok cl" "\<not> inside_process_scheduled_actions s" "inside_action s = ACTION_NONE"
    and "ssm_inv (state_machine s)" "no_surface_idle s"
  shows "\<exists>s' w'. ProcessScheduledActions cl s w = Some (s', w') \<and>
    NextAction (state_machine s') = Some ACTION_NONE \<and> ssm_inv (state_machine s') \<and>
    \<not> inside_process_scheduled_actions s' \<and> inside_action s' = ACTION_NONE"
  using ProcessScheduledActions_total [OF assms, of w] by (auto simp: sched_ok_def)

theorem ProcessScheduledActions_settles_witness:
  "\<exists>s s' w'. Scheduler_new SchedulerSettings_new = Some s \<and>
     ProcessScheduledActions drawing_client s () = Some (s', w') \<and> NextAction (state_machine s') = Some ACTION_NONE"
proof -
  obtain s where s: "Scheduler_new SchedulerSettings_new = Some s" "sched_inv s" using Scheduler_new_ok by blast
  then show ?thesis
    using ProcessScheduledActions_settles [OF drawing_client_ok, of s "()"] by (auto simp: sched_inv_def sched_ok_def)
qed

text \<open>C13. In every reachable state of the state machine \<open>CheckInvariants\<close> passes, \<open>NextAction\<close> answers, and the
  \<open>UpdateState\<close> of its answer passes all its \<open>DCHECK\<close>s.\<close>

theorem reachable_actions_pass_checks:
  assumes "ssm_step\<^sup>*\<^sup>* (SchedulerStateMachine_new st) s"
  shows "CheckInvariants s = Some () \<and> (\<exists>a s'. NextAction s = Some a \<and> UpdateState a s = Some s')"
  using ssm_reachable_inv [OF assms] CheckInvariants_ok NextAction_total UpdateState_NextAction_inv by blast

theorem reachable_actions_pass_checks_witness:
  "\<exists>a s'. NextAction (SetCanStart (SchedulerStateMachine_new SchedulerSettings_new)) = Some a \<and>
     UpdateState a (SetCanStart (SchedulerStateMachine_new SchedulerSettings_new)) = Some s'"
proof -
  have "ssm_step (SchedulerStateMachine_new SchedulerSettings_new)
      (SetCanStart (SchedulerStateMachine_new SchedulerSettings_new))"
    by (rule ssm_step.call [of Call_SetCanStart]) simp_all
  then show ?thesis using reachable_actions_pass_checks [OF r_into_rtranclp] by blast
qed

definition deadline_state :: ssm where
  "deadline_state = (SchedulerStateMachine_new SchedulerSettings_new)
     \<lparr>output_surface_state := OUTPUT_SURFACE_ACTIVE, needs_redraw := True, visible := True, can_draw := True,
      begin_impl_frame_state := BEGIN_IMPL_FRAME_STATE_INSIDE_DEADLINE\<rparr>"

lemma failed_draw_step:
  assumes "forced_redraw_state s = FORCED_REDRAW_STATE_IDLE" "consecutive_failed_draws s = of_nat k"
    and "timeout_and_draw_when_animation_checkerboards (settings s)"
    and "Suc k < unat (maximum_number_of_failed_draws_before_draw_is_forced (settings s))"
    and "unat (maximum_number_of_failed_draws_before_draw_is_forced (settings s)) < 2 ^ 31"
  shows "forced_redraw_state (DidDrawIfPossibleCompleted False s) = FORCED_REDRAW_STATE_IDLE"
    "consecutive_failed_draws (DidDrawIfPossibleCompleted False s) = of_nat (Suc k)"
    "settings (DidDrawIfPossibleCompleted False s) = settings s"
proof -
  let ?m = "maximum_number_of_failed_draws_before_draw_is_forced (settings s)"
  have "unat (of_nat (Suc k) :: u32) = Suc k" using assms(4,5) by (simp add: unsigned_of_nat take_bit_nat_eq_self del: of_nat_Suc)
  then have "\<not> sint ?m \<le> sint (of_nat (Suc k) :: u32)"
    using sint_less_u32(2) [of ?m "of_nat (Suc k)"] assms(4,5) by simp
  then show "forced_redraw_state (DidDrawIfPossibleCompleted False s) = FORCED_REDRAW_STATE_IDLE"
    "consecutive_failed_draws (DidDrawIfPossibleCompleted False s) = of_nat (Suc k)"
    "settings (DidDrawIfPossibleCompleted False s) = settings s"
    using assms(1-3) by (simp_all add: DidDrawIfPossibleCompleted_def Let_def add.commute)
qed

lemma failed_draws:
  assumes "forced_redraw_state s = FORCED_REDRAW_STATE_IDLE" "consecutive_failed_draws s = 0"
    and "timeout_and_draw_when_animation_checkerboards (settings s)"
    and "k < unat (maximum_number_of_failed_draws_before_draw_is_forced (settings s))"
    and "unat (maximum_number_of_failed_draws_before_draw_is_forced (settings s)) < 2 ^ 31"
  shows "forced_redraw_state ((DidDrawIfPossibleCompleted False ^^ k) s) = FORCED_REDRAW_STATE_IDLE \<and>
    consecutive_failed_draws ((DidDrawIfPossibleCompleted False ^^ k) s) = of_nat k \<and>
    settings ((DidDrawIfPossibleCompleted False ^^ k) s) = settings s"
  using assms(4)
proof (induction k)
  case (Suc k)
  with failed_draw_step [of "(DidDrawIfPossibleCompleted False ^^ k) s" k] assms(3,5) show ?case by simp
qed (use assms in simp)

text \<open>C17. After the configured number of consecutive failed draws, and not before, a redraw is forced: the machine
  waits for a commit and asks for one.\<close>

theorem failed_draws_force_redraw:
  assumes "n = unat (maximum_number_of_failed_draws_before_draw_is_forced (settings s))"
    and "forced_redraw_state s = FORCED_REDRAW_STATE_IDLE" "consecutive_failed_draws s = 0"
    and "timeout_and_draw_when_animation_checkerboards (settings s)" "0 < n" "n < 2 ^ 31"
  shows "forced_redraw_state ((DidDrawIfPossibleCompleted False ^^ n) s) = FORCED_REDRAW_STATE_WAITING_FOR_COMMIT \<and>
    needs_commit ((DidDrawIfPossibleCompleted False ^^ n) s) \<and>
    (\<forall>k < n. forced_redraw_state ((DidDrawIfPossibleCompleted False ^^ k) s) = FORCED_REDRAW_STATE_IDLE)"
proof -
  let ?m = "maximum_number_of_failed_draws_before_draw_is_forced (settings s)"
  obtain k where k: "n = Suc k" using assms(5) by (cases n) auto
  let ?t = "(DidDrawIfPossibleCompleted False ^^ k) s"
  have t: "forced_redraw_state ?t = FORCED_REDRAW_STATE_IDLE" "consecutive_failed_draws ?t = of_nat k" "settings ?t = settings s"
    using failed_draws [of s k] assms(2-6) k by (simp_all add: assms(1))
  have "of_nat (Suc k) = ?m" using k by (metis assms(1) of_nat_unat ucast_id)
  then have "consecutive_failed_draws ?t + 1 = ?m" using t(2) by (simp add: add.commute)
  with t assms(4)
  have "forced_redraw_state (DidDrawIfPossibleCompleted False ?t) = FORCED_REDRAW_STATE_WAITING_FOR_COMMIT"
    "needs_commit (DidDrawIfPossibleCompleted False ?t)"
    by (simp_all add: DidDrawIfPossibleCompleted_def Let_def)
  with k failed_draws [of s] assms(2-6) show ?thesis by (auto simp: assms(1))
qed

theorem failed_draws_force_redraw_witness:
  "forced_redraw_state ((DidDrawIfPossibleCompleted False ^^ 3) deadline_state) = FORCED_REDRAW_STATE_WAITING_FOR_COMMIT"
  using failed_draws_force_redraw [of 3 deadline_state]
  by (simp add: deadline_state_def SchedulerStateMachine_new_def SchedulerSettings_new_def)

text \<open>The anticipated draw time is the next tick after now of the frame interval, counted from the later of
  frame time and deadline: it lies in the future, less than two intervals ahead, and at most one if the
  time base has passed.\<close>

lemma AnticipatedDrawTime_next_interval:
  assumes "last_set_needs_begin_impl_frame s" "0 < bfa_interval (last_begin_args s)"
  shows "now < AnticipatedDrawTime now s \<and>
    AnticipatedDrawTime now s < now + 2 * bfa_interval (last_begin_args s) \<and>
    bfa_interval (last_begin_args s) dvd
      AnticipatedDrawTime now s - max (bfa_frame_time (last_begin_args s)) (bfa_deadline (last_begin_args s)) \<and>
    (max (bfa_frame_time (last_begin_args s)) (bfa_deadline (last_begin_args s)) \<le> now \<longrightarrow>
       AnticipatedDrawTime now s \<le> now + bfa_interval (last_begin_args s))"
proof -
  let ?i = "bfa_interval (last_begin_args s)"
  let ?t = "max (bfa_frame_time (last_begin_args s)) (bfa_deadline (last_begin_args s))"
  have "0 \<le> (now - ?t) mod ?i" "(now - ?t) mod ?i < ?i" "0 \<le> (?t - now) mod ?i" "(?t - now) mod ?i < ?i"
    using assms(2) by simp_all
  moreover have "?i dvd AnticipatedDrawTime now s - ?t" using assms by (simp add: AnticipatedDrawTime_def Let_def)
  moreover have "AnticipatedDrawTime now s =
      (if ?t \<le> now then now + (?i - (now - ?t) mod ?i) else now + (?i + (?t - now) mod ?i))"
    by (rule AnticipatedDrawTime_next [OF assms])
  ultimately show ?thesis by (cases "?t \<le> now") (simp_all only: if_True if_False simp_thms, linarith+)
qed

end
