(* ===== verification/Gfx_Rect.thy ===== *)
theory Gfx_Rect
  imports Prelude "HOL-Library.Signed_Division"
begin

section \<open>gfx::Rect: rectangles of pixels\<close>

text \<open>
  Model of \<^verbatim>\<open>src/ui/gfx/rect_base.h\<close>, \<^verbatim>\<open>rect_base_impl.h\<close> and \<^verbatim>\<open>rect.cc\<close> for the type \<open>int\<close>, with the parts of \<^verbatim>\<open>size_base.h\<close>,
  \<^verbatim>\<open>point_base.h\<close> and \<^verbatim>\<open>insets_base.h\<close> they use. An \<open>int\<close> is an integer; a sum that does not fit into 32 bits, which C++ leaves undefined,
  is \<^const>\<open>None\<close>. The operands of \<open>||\<close> and \<open>&&\<close> are evaluated from left to right, as far as needed.
\<close>

definition int32 :: "int \<Rightarrow> int option" where
  "int32 x = (if - 2147483648 \<le> x \<and> x \<le> 2147483647 then Some x else None)"

definition c_div :: "int \<Rightarrow> int \<Rightarrow> int option" where
  "c_div x y = (if y = 0 then None else int32 (x sdiv y))"

definition c_or :: "bool option \<Rightarrow> bool option \<Rightarrow> bool option" where
  "c_or a b = (case a of None \<Rightarrow> None | Some True \<Rightarrow> Some True | Some False \<Rightarrow> b)"

definition c_and :: "bool option \<Rightarrow> bool option \<Rightarrow> bool option" where
  "c_and a b = (case a of None \<Rightarrow> None | Some True \<Rightarrow> b | Some False \<Rightarrow> Some False)"

subsection \<open>Rectangles\<close>

record Size =
  size_width :: int
  size_height :: int

definition Size_new :: "int \<Rightarrow> int \<Rightarrow> Size" where
  "Size_new width height = \<lparr>size_width = (if width < 0 then 0 else width), size_height = (if height < 0 then 0 else height)\<rparr>"

definition SetSize :: "int \<Rightarrow> int \<Rightarrow> Size" where
  "SetSize width height = Size_new width height"

definition Size_Enlarge :: "int \<Rightarrow> int \<Rightarrow> Size \<Rightarrow> Size option" where
  "Size_Enlarge width height s = do {
     w \<leftarrow> int32 (size_width s + width);
     h \<leftarrow> int32 (size_height s + height);
     Some (Size_new w h)
   }"

definition SetToMin :: "Size \<Rightarrow> Size \<Rightarrow> Size" where
  "SetToMin other s =
     \<lparr>size_width = (if size_width s \<le> size_width other then size_width s else size_width other),
      size_height = (if size_height s \<le> size_height other then size_height s else size_height other)\<rparr>"

definition SetToMax :: "Size \<Rightarrow> Size \<Rightarrow> Size" where
  "SetToMax other s =
     \<lparr>size_width = (if size_width other \<le> size_width s then size_width s else size_width other),
      size_height = (if size_height other \<le> size_height s then size_height s else size_height other)\<rparr>"

definition GetArea :: "Size \<Rightarrow> int option" where
  "GetArea s = int32 (size_width s * size_height s)"

definition Size_IsEmpty :: "Size \<Rightarrow> bool" where
  "Size_IsEmpty s \<longleftrightarrow> size_width s = 0 \<or> size_height s = 0"

record Insets =
  inset_top :: int
  inset_left :: int
  inset_bottom :: int
  inset_right :: int

record Rect =
  rect_x :: int
  rect_y :: int
  rect_size :: Size

abbreviation rect_width :: "Rect \<Rightarrow> int" where "rect_width r \<equiv> size_width (rect_size r)"
abbreviation rect_height :: "Rect \<Rightarrow> int" where "rect_height r \<equiv> size_height (rect_size r)"

definition Rect_new :: "int \<Rightarrow> int \<Rightarrow> int \<Rightarrow> int \<Rightarrow> Rect" where
  "Rect_new x y width height = \<lparr>rect_x = x, rect_y = y, rect_size = Size_new width height\<rparr>"

definition Rect_of_size :: "Size \<Rightarrow> Rect" where
  "Rect_of_size s = \<lparr>rect_x = 0, rect_y = 0, rect_size = s\<rparr>"

definition rect_right :: "Rect \<Rightarrow> int option" where
  "rect_right r = int32 (rect_x r + rect_width r)"

definition rect_bottom :: "Rect \<Rightarrow> int option" where
  "rect_bottom r = int32 (rect_y r + rect_height r)"

definition SetRect :: "int \<Rightarrow> int \<Rightarrow> int \<Rightarrow> int \<Rightarrow> Rect" where
  "SetRect x y width height = \<lparr>rect_x = x, rect_y = y, rect_size = Size_new width height\<rparr>"

definition set_x :: "int \<Rightarrow> Rect \<Rightarrow> Rect" where
  "set_x x r = r\<lparr>rect_x := x\<rparr>"

definition set_y :: "int \<Rightarrow> Rect \<Rightarrow> Rect" where
  "set_y y r = r\<lparr>rect_y := y\<rparr>"

definition set_origin :: "int \<times> int \<Rightarrow> Rect \<Rightarrow> Rect" where
  "set_origin p r = r\<lparr>rect_x := fst p, rect_y := snd p\<rparr>"

definition set_width :: "int \<Rightarrow> Rect \<Rightarrow> Rect" where
  "set_width width r = r\<lparr>rect_size := (rect_size r)\<lparr>size_width := (if width < 0 then 0 else width)\<rparr>\<rparr>"

definition set_height :: "int \<Rightarrow> Rect \<Rightarrow> Rect" where
  "set_height height r = r\<lparr>rect_size := (rect_size r)\<lparr>size_height := (if height < 0 then 0 else height)\<rparr>\<rparr>"

definition set_size :: "Size \<Rightarrow> Rect \<Rightarrow> Rect" where
  "set_size s r = r\<lparr>rect_size := s\<rparr>"

definition Rect_IsEmpty :: "Rect \<Rightarrow> bool" where
  "Rect_IsEmpty r = Size_IsEmpty (rect_size r)"

definition Rect_Inset :: "int \<Rightarrow> int \<Rightarrow> int \<Rightarrow> int \<Rightarrow> Rect \<Rightarrow> Rect option" where
  "Rect_Inset left_inset top_inset right_inset bottom_inset r = do {
     x \<leftarrow> int32 (rect_x r + left_inset);
     y \<leftarrow> int32 (rect_y r + top_inset);
     w \<leftarrow> int32 (rect_width r - left_inset);
     w \<leftarrow> int32 (w - right_inset);
     h \<leftarrow> int32 (rect_height r - top_inset);
     h \<leftarrow> int32 (h - bottom_inset);
     Some (Rect_new x y (max w 0) (max h 0))
   }"

definition Rect_Offset :: "int \<Rightarrow> int \<Rightarrow> Rect \<Rightarrow> Rect option" where
  "Rect_Offset horizontal vertical r = do {
     x \<leftarrow> int32 (rect_x r + horizontal);
     y \<leftarrow> int32 (rect_y r + vertical);
     Some (r\<lparr>rect_x := x, rect_y := y\<rparr>)
   }"

definition Inset_horizontal_vertical :: "int \<Rightarrow> int \<Rightarrow> Rect \<Rightarrow> Rect option" where
  "Inset_horizontal_vertical horizontal vertical r = Rect_Inset horizontal vertical horizontal vertical r"

definition Inset_by :: "Insets \<Rightarrow> Rect \<Rightarrow> Rect option" where
  "Inset_by insets r = Rect_Inset (inset_left insets) (inset_top insets) (inset_right insets) (inset_bottom insets) r"

definition InsetsFrom :: "Rect \<Rightarrow> Rect \<Rightarrow> Insets option" where
  "InsetsFrom inner r = do {
     t \<leftarrow> int32 (rect_y inner - rect_y r);
     l \<leftarrow> int32 (rect_x inner - rect_x r);
     bottom \<leftarrow> rect_bottom r;
     bottom' \<leftarrow> rect_bottom inner;
     b \<leftarrow> int32 (bottom - bottom');
     right \<leftarrow> rect_right r;
     right' \<leftarrow> rect_right inner;
     e \<leftarrow> int32 (right - right');
     Some \<lparr>inset_top = t, inset_left = l, inset_bottom = b, inset_right = e\<rparr>
   }"

definition Rect_plus :: "Rect \<Rightarrow> int \<times> int \<Rightarrow> Rect option" where
  "Rect_plus r offset = Rect_Offset (fst offset) (snd offset) r"

definition Rect_minus :: "Rect \<Rightarrow> int \<times> int \<Rightarrow> Rect option" where
  "Rect_minus r offset = do {
     x \<leftarrow> int32 (rect_x r - fst offset);
     y \<leftarrow> int32 (rect_y r - snd offset);
     Some (r\<lparr>rect_x := x, rect_y := y\<rparr>)
   }"

definition Rect_less :: "Rect \<Rightarrow> Rect \<Rightarrow> bool" where
  "Rect_less r other \<longleftrightarrow>
     (if rect_x r = rect_x other \<and> rect_y r = rect_y other then
        if rect_width r = rect_width other then rect_height r < rect_height other else rect_width r < rect_width other
      else if rect_y r = rect_y other then rect_x r < rect_x other else rect_y r < rect_y other)"

definition Contains_point :: "int \<Rightarrow> int \<Rightarrow> Rect \<Rightarrow> bool option" where
  "Contains_point point_x point_y r =
     c_and (Some (rect_x r \<le> point_x)) (c_and (map_option (\<lambda>e. point_x < e) (rect_right r))
       (c_and (Some (rect_y r \<le> point_y)) (map_option (\<lambda>e. point_y < e) (rect_bottom r))))"

definition le_opt :: "int option \<Rightarrow> int option \<Rightarrow> bool option" where
  "le_opt a b = do { x \<leftarrow> a; y \<leftarrow> b; Some (x \<le> y) }"

definition Contains_rect :: "Rect \<Rightarrow> Rect \<Rightarrow> bool option" where
  "Contains_rect rect r =
     c_and (Some (rect_x r \<le> rect_x rect)) (c_and (le_opt (rect_right rect) (rect_right r))
       (c_and (Some (rect_y r \<le> rect_y rect)) (le_opt (rect_bottom rect) (rect_bottom r))))"

definition Intersects :: "Rect \<Rightarrow> Rect \<Rightarrow> bool option" where
  "Intersects rect r = map_option Not
     (c_or (Some (Rect_IsEmpty r)) (c_or (Some (Rect_IsEmpty rect))
       (c_or (le_opt (rect_right r) (Some (rect_x rect))) (c_or (le_opt (rect_right rect) (Some (rect_x r)))
         (c_or (le_opt (rect_bottom r) (Some (rect_y rect))) (le_opt (rect_bottom rect) (Some (rect_y r))))))))"

definition Intersect :: "Rect \<Rightarrow> Rect \<Rightarrow> Rect option" where
  "Intersect rect r =
     (if Rect_IsEmpty r \<or> Rect_IsEmpty rect then Some (SetRect 0 0 0 0)
      else do {
        let rx = max (rect_x r) (rect_x rect);
        let ry = max (rect_y r) (rect_y rect);
        right \<leftarrow> rect_right r;
        right' \<leftarrow> rect_right rect;
        let rr = min right right';
        bottom \<leftarrow> rect_bottom r;
        bottom' \<leftarrow> rect_bottom rect;
        let rb = min bottom bottom';
        let (rx, ry, rr, rb) = (if rr \<le> rx \<or> rb \<le> ry then (0, 0, 0, 0) else (rx, ry, rr, rb));
        w \<leftarrow> int32 (rr - rx);
        h \<leftarrow> int32 (rb - ry);
        Some (SetRect rx ry w h)
      })"

definition Rect_Union :: "Rect \<Rightarrow> Rect \<Rightarrow> Rect option" where
  "Rect_Union rect r =
     (if Rect_IsEmpty r then Some rect
      else if Rect_IsEmpty rect then Some r
      else do {
        let rx = min (rect_x r) (rect_x rect);
        let ry = min (rect_y r) (rect_y rect);
        right \<leftarrow> rect_right r;
        right' \<leftarrow> rect_right rect;
        let rr = max right right';
        bottom \<leftarrow> rect_bottom r;
        bottom' \<leftarrow> rect_bottom rect;
        let rb = max bottom bottom';
        w \<leftarrow> int32 (rr - rx);
        h \<leftarrow> int32 (rb - ry);
        Some (SetRect rx ry w h)
      })"

definition Subtract :: "Rect \<Rightarrow> Rect \<Rightarrow> Rect option" where
  "Subtract rect r = do {
     i \<leftarrow> Intersects rect r;
     if \<not> i then Some r
     else do {
       c \<leftarrow> Contains_rect r rect;
       if c then Some (SetRect 0 0 0 0)
       else do {
         let rx = rect_x r;
         let ry = rect_y r;
         rr \<leftarrow> rect_right r;
         rb \<leftarrow> rect_bottom r;
         right \<leftarrow> rect_right rect;
         bottom \<leftarrow> rect_bottom rect;
         let (rx, ry, rr, rb) =
           (if rect_y rect \<le> rect_y r \<and> rb \<le> bottom then
              if rect_x rect \<le> rect_x r then (right, ry, rr, rb)
              else if rr \<le> right then (rx, ry, rect_x rect, rb)
              else (rx, ry, rr, rb)
            else if rect_x rect \<le> rect_x r \<and> rr \<le> right then
              if rect_y rect \<le> rect_y r then (rx, bottom, rr, rb)
              else if rb \<le> bottom then (rx, ry, rr, rect_y rect)
              else (rx, ry, rr, rb)
            else (rx, ry, rr, rb));
         w \<leftarrow> int32 (rr - rx);
         h \<leftarrow> int32 (rb - ry);
         Some (SetRect rx ry w h)
       }
     }
   }"

definition IntersectRects :: "Rect \<Rightarrow> Rect \<Rightarrow> Rect option" where
  "IntersectRects a b = Intersect b a"

definition UnionRects :: "Rect \<Rightarrow> Rect \<Rightarrow> Rect option" where
  "UnionRects a b = Rect_Union b a"

definition SubtractRects :: "Rect \<Rightarrow> Rect \<Rightarrow> Rect option" where
  "SubtractRects a b = Subtract b a"

definition AdjustAlongAxis :: "int \<Rightarrow> int \<Rightarrow> int \<Rightarrow> int \<Rightarrow> (int \<times> int) option" where
  "AdjustAlongAxis dst_origin dst_size origin sz = do {
     let sz = min dst_size sz;
     if origin < dst_origin then Some (dst_origin, sz)
     else do {
       a \<leftarrow> int32 (dst_origin + dst_size);
       b \<leftarrow> int32 (origin + sz);
       o' \<leftarrow> int32 (min a b - sz);
       Some (o', sz)
     }
   }"

definition AdjustToFit :: "Rect \<Rightarrow> Rect \<Rightarrow> Rect option" where
  "AdjustToFit rect r = do {
     (x, w) \<leftarrow> AdjustAlongAxis (rect_x rect) (rect_width rect) (rect_x r) (rect_width r);
     (y, h) \<leftarrow> AdjustAlongAxis (rect_y rect) (rect_height rect) (rect_y r) (rect_height r);
     Some (SetRect x y w h)
   }"

definition CenterPoint :: "Rect \<Rightarrow> (int \<times> int) option" where
  "CenterPoint r = do {
     x \<leftarrow> int32 (rect_x r + rect_width r sdiv 2);
     y \<leftarrow> int32 (rect_y r + rect_height r sdiv 2);
     Some (x, y)
   }"

definition ClampToCenteredSize :: "Size \<Rightarrow> Rect \<Rightarrow> Rect option" where
  "ClampToCenteredSize s r = do {
     let new_width = min (rect_width r) (size_width s);
     let new_height = min (rect_height r) (size_height s);
     dx \<leftarrow> int32 (rect_width r - new_width);
     dy \<leftarrow> int32 (rect_height r - new_height);
     x \<leftarrow> int32 (rect_x r + dx sdiv 2);
     y \<leftarrow> int32 (rect_y r + dy sdiv 2);
     Some (SetRect x y new_width new_height)
   }"

definition SplitVertically :: "Rect \<Rightarrow> (Rect \<times> Rect) option" where
  "SplitVertically r = do {
     let left_half = SetRect (rect_x r) (rect_y r) (rect_width r sdiv 2) (rect_height r);
     x \<leftarrow> rect_right left_half;
     w \<leftarrow> int32 (rect_width r - rect_width left_half);
     Some (left_half, SetRect x (rect_y r) w (rect_height r))
   }"

definition SharesEdgeWith :: "Rect \<Rightarrow> Rect \<Rightarrow> bool option" where
  "SharesEdgeWith rect r =
     c_or
       (c_and (Some (rect_y r = rect_y rect)) (c_and (Some (rect_height r = rect_height rect))
         (c_or (map_option (\<lambda>e. rect_x r = e) (rect_right rect)) (map_option (\<lambda>e. e = rect_x rect) (rect_right r)))))
       (c_and (Some (rect_x r = rect_x rect)) (c_and (Some (rect_width r = rect_width rect))
         (c_or (map_option (\<lambda>e. rect_y r = e) (rect_bottom rect)) (map_option (\<lambda>e. e = rect_y rect) (rect_bottom r)))))"

definition ManhattanDistanceToPoint :: "int \<Rightarrow> int \<Rightarrow> Rect \<Rightarrow> int option" where
  "ManhattanDistanceToPoint px py r = do {
     a \<leftarrow> int32 (rect_x r - px);
     right \<leftarrow> rect_right r;
     b \<leftarrow> int32 (px - right);
     let x_distance = max 0 (max a b);
     c \<leftarrow> int32 (rect_y r - py);
     bottom \<leftarrow> rect_bottom r;
     d \<leftarrow> int32 (py - bottom);
     let y_distance = max 0 (max c d);
     int32 (x_distance + y_distance)
   }"

definition BoundingRect :: "int \<times> int \<Rightarrow> int \<times> int \<Rightarrow> Rect option" where
  "BoundingRect p1 p2 = do {
     let rx = min (fst p1) (fst p2);
     let ry = min (snd p1) (snd p2);
     w \<leftarrow> int32 (max (fst p1) (fst p2) - rx);
     h \<leftarrow> int32 (max (snd p1) (snd p2) - ry);
     Some (Rect_new rx ry w h)
   }"

subsection \<open>The pixels of a rectangle\<close>

text \<open>
  A rectangle stands for the set of its pixels. A rectangle is proper if its size is not negative, as every constructor makes it, and
  its right and bottom edges can be computed.
\<close>

definition pixels :: "Rect \<Rightarrow> (int \<times> int) set" where
  "pixels r = {(px, py). rect_x r \<le> px \<and> px < rect_x r + rect_width r \<and> rect_y r \<le> py \<and> py < rect_y r + rect_height r}"

definition proper :: "Rect \<Rightarrow> bool" where
  "proper r \<longleftrightarrow> 0 \<le> rect_width r \<and> 0 \<le> rect_height r \<and> rect_width r \<le> 2147483647 \<and> rect_height r \<le> 2147483647 \<and>
     - 2147483648 \<le> rect_x r \<and> - 2147483648 \<le> rect_y r \<and>
     rect_x r + rect_width r \<le> 2147483647 \<and> rect_y r + rect_height r \<le> 2147483647"

definition bounding :: "Rect \<Rightarrow> (int \<times> int) set \<Rightarrow> bool" where
  "bounding r S \<longleftrightarrow> S \<subseteq> pixels r \<and> (\<forall>q. S \<subseteq> pixels q \<longrightarrow> pixels r \<subseteq> pixels q)"

lemma int32_simps [simp]: "- 2147483648 \<le> x \<Longrightarrow> x \<le> 2147483647 \<Longrightarrow> int32 x = Some x"
  by (simp add: int32_def)

lemma sdiv_pos: "0 \<le> a \<Longrightarrow> 0 < b \<Longrightarrow> a sdiv b = a div (b :: int)"
  by (cases "a = 0") (simp_all add: signed_divide_int_def sgn_if)

lemma sdiv_neg: "a < 0 \<Longrightarrow> 0 < b \<Longrightarrow> a sdiv b = - (- a div (b :: int))"
  by (simp add: signed_divide_int_def sgn_if)

lemma sdiv_abs_le: "0 < b \<Longrightarrow> \<bar>a sdiv b\<bar> \<le> \<bar>a :: int\<bar>"
  using zdiv_mono2[of "\<bar>a\<bar>" 1 b] pos_imp_zdiv_nonneg_iff[of b "\<bar>a\<bar>"]
  by (cases "0 \<le> a") (simp_all add: sdiv_pos sdiv_neg)

lemma c_div_value: "- 2147483648 < a \<Longrightarrow> a \<le> 2147483647 \<Longrightarrow> 0 < b \<Longrightarrow> c_div a b = Some (a sdiv b)"
  using sdiv_abs_le[of b a] by (simp add: c_div_def)

lemma max_sdiv: "0 < b \<Longrightarrow> max (a sdiv b) 0 = max (a div b) (0 :: int)"
proof (cases "0 \<le> a")
  case False
  moreover assume "0 < b"
  ultimately have "0 \<le> - a div b" "a div b < 0"
    by (simp_all add: pos_imp_zdiv_nonneg_iff pos_imp_zdiv_neg_iff)
  with False \<open>0 < b\<close> show ?thesis
    by (simp add: sdiv_neg)
qed (simp add: sdiv_pos)

lemma c_or_simps [simp]: "c_or (Some a) (Some b) = Some (a \<or> b)" "c_or (Some True) x = Some True"
  by (simp_all add: c_or_def split: bool.split)

lemma c_and_simps [simp]: "c_and (Some a) (Some b) = Some (a \<and> b)" "c_and (Some False) x = Some False"
  by (simp_all add: c_and_def split: bool.split)

lemma le_opt_simps [simp]: "le_opt (Some a) (Some b) = Some (a \<le> b)"
  by (simp add: le_opt_def)

lemma proper_edges [simp]:
  assumes "proper r"
  shows "rect_right r = Some (rect_x r + rect_width r)" "rect_bottom r = Some (rect_y r + rect_height r)"
  using assms by (simp_all add: proper_def rect_right_def rect_bottom_def)

lemma pixels_prod: "pixels r = {rect_x r..<rect_x r + rect_width r} \<times> {rect_y r..<rect_y r + rect_height r}"
  by (auto simp: pixels_def)

lemma pixels_empty: "proper r \<Longrightarrow> pixels r = {} \<longleftrightarrow> Rect_IsEmpty r"
  by (simp add: pixels_prod proper_def Rect_IsEmpty_def Size_IsEmpty_def) linarith

lemma pixels_SetRect [simp]: "0 \<le> w \<Longrightarrow> 0 \<le> h \<Longrightarrow> pixels (SetRect x y w h) = {x..<x + w} \<times> {y..<y + h}"
  by (auto simp: pixels_def SetRect_def Size_new_def)

lemma pixels_of_size: "pixels (Rect_of_size s) = {0..<size_width s} \<times> {0..<size_height s}"
  by (auto simp: pixels_def Rect_of_size_def)

lemma proper_SetRect [simp]:
  assumes "- 2147483648 \<le> x" "x \<le> x'" "x' \<le> 2147483647" "x' - x \<le> 2147483647"
    and "- 2147483648 \<le> y" "y \<le> y'" "y' \<le> 2147483647" "y' - y \<le> 2147483647"
  shows "proper (SetRect x y (x' - x) (y' - y))"
  using assms by (simp add: proper_def SetRect_def Size_new_def)

lemma proper_zero [simp]: "proper (SetRect 0 0 0 0)"
  by (simp add: proper_def SetRect_def Size_new_def)

lemma bounding_SetRect:
  assumes "x < x'" "y < y'" and S: "S \<subseteq> {x..<x'} \<times> {y..<y'}"
    and sides: "(x, b1) \<in> S" "(x' - 1, b2) \<in> S" "(a1, y) \<in> S" "(a2, y' - 1) \<in> S"
  shows "bounding (SetRect x y (x' - x) (y' - y)) S"
  unfolding bounding_def
proof (intro conjI allI impI)
  show "S \<subseteq> pixels (SetRect x y (x' - x) (y' - y))"
    using S assms(1,2) by simp
next
  fix q assume "S \<subseteq> pixels q"
  with sides have "(x, b1) \<in> pixels q" "(x' - 1, b2) \<in> pixels q" "(a1, y) \<in> pixels q" "(a2, y' - 1) \<in> pixels q"
    by blast+
  then show "pixels (SetRect x y (x' - x) (y' - y)) \<subseteq> pixels q"
    using assms(1,2) by (auto simp: pixels_prod[of q])
qed

lemma IsEmpty_iff: "proper r \<Longrightarrow> Rect_IsEmpty r \<longleftrightarrow> rect_width r \<le> 0 \<or> rect_height r \<le> 0"
  by (auto simp add: proper_def Rect_IsEmpty_def Size_IsEmpty_def)

lemma Contains_point_exact: "proper r \<Longrightarrow> Contains_point px py r = Some ((px, py) \<in> pixels r)"
  by (simp add: Contains_point_def pixels_def)

lemma inter_ico: "{a..<b} \<inter> {c..<d} = {max a c..<min b (d::int)}"
  by auto

lemma pixels_inter:
  "pixels r \<inter> pixels s = {max (rect_x r) (rect_x s)..<min (rect_x r + rect_width r) (rect_x s + rect_width s)} \<times>
     {max (rect_y r) (rect_y s)..<min (rect_y r + rect_height r) (rect_y s + rect_height s)}"
  by (simp add: pixels_prod Times_Int_Times inter_ico)

lemma Intersects_exact: "proper r \<Longrightarrow> proper rect \<Longrightarrow> Intersects rect r = Some (pixels r \<inter> pixels rect \<noteq> {})"
  by (simp add: Intersects_def IsEmpty_iff pixels_inter) linarith

lemma Contains_rect_exact:
  "proper r \<Longrightarrow> proper rect \<Longrightarrow> \<not> Rect_IsEmpty rect \<Longrightarrow> Contains_rect rect r = Some (pixels rect \<subseteq> pixels r)"
  by (auto simp add: Contains_rect_def IsEmpty_iff pixels_prod times_subset_iff)

lemma Intersect_exact:
  assumes "proper r" "proper rect"
  shows "\<exists>r'. Intersect rect r = Some r' \<and> proper r' \<and> pixels r' = pixels r \<inter> pixels rect"
proof (cases "Rect_IsEmpty r \<or> Rect_IsEmpty rect")
  case True
  then show ?thesis
    using pixels_empty assms by (auto simp: Intersect_def)
next
  case False
  show ?thesis
  proof (cases "min (rect_x r + rect_width r) (rect_x rect + rect_width rect) \<le> max (rect_x r) (rect_x rect) \<or>
      min (rect_y r + rect_height r) (rect_y rect + rect_height rect) \<le> max (rect_y r) (rect_y rect)")
    case True
    with assms False have "Intersect rect r = Some (SetRect 0 0 0 0)"
      by (simp add: Intersect_def)
    with True show ?thesis
      by (auto simp: pixels_inter)
  next
    case ne: False
    let ?x = "max (rect_x r) (rect_x rect)" and ?y = "max (rect_y r) (rect_y rect)"
    let ?w = "min (rect_x r + rect_width r) (rect_x rect + rect_width rect) - ?x"
    let ?h = "min (rect_y r + rect_height r) (rect_y rect + rect_height rect) - ?y"
    have fits: "0 \<le> ?w" "?w \<le> 2147483647" "0 \<le> ?h" "?h \<le> 2147483647"
      using ne assms unfolding proper_def by linarith+
    then have "Intersect rect r = Some (SetRect ?x ?y ?w ?h)"
      using ne assms False by (simp add: Intersect_def Let_def)
    moreover have "proper (SetRect ?x ?y ?w ?h)"
      by (rule proper_SetRect) (use fits assms in \<open>unfold proper_def, linarith+\<close>)
    ultimately show ?thesis
      using fits by (simp add: pixels_inter)
  qed
qed

lemma Intersect_disjoint:
  assumes "proper r" "proper rect" "pixels r \<inter> pixels rect = {}"
  shows "Intersect rect r = Some (SetRect 0 0 0 0)"
proof (cases "Rect_IsEmpty r \<or> Rect_IsEmpty rect")
  case False
  have "min (rect_x r + rect_width r) (rect_x rect + rect_width rect) \<le> max (rect_x r) (rect_x rect) \<or>
      min (rect_y r + rect_height r) (rect_y rect + rect_height rect) \<le> max (rect_y r) (rect_y rect)"
    using assms(3) by (auto simp: pixels_inter)
  with assms(1,2) False show ?thesis
    by (simp add: Intersect_def)
qed (auto simp: Intersect_def)

lemma proper_of_size: "0 \<le> size_width s \<Longrightarrow> size_width s \<le> 2147483647 \<Longrightarrow> 0 \<le> size_height s \<Longrightarrow> size_height s \<le> 2147483647 \<Longrightarrow>
    proper (Rect_of_size s)"
  by (simp add: proper_def Rect_of_size_def)

lemma Union_exact:
  assumes "proper r" "proper rect"
    and "Rect_IsEmpty r \<or> Rect_IsEmpty rect \<or>
      max (rect_x r + rect_width r) (rect_x rect + rect_width rect) - min (rect_x r) (rect_x rect) \<le> 2147483647 \<and>
      max (rect_y r + rect_height r) (rect_y rect + rect_height rect) - min (rect_y r) (rect_y rect) \<le> 2147483647"
  shows "\<exists>r'. Rect_Union rect r = Some r' \<and> proper r' \<and> bounding r' (pixels r \<union> pixels rect)"
proof (cases "Rect_IsEmpty r \<or> Rect_IsEmpty rect")
  case True
  then show ?thesis
    using pixels_empty assms by (auto simp: Rect_Union_def bounding_def)
next
  case False
  let ?x = "min (rect_x r) (rect_x rect)" and ?y = "min (rect_y r) (rect_y rect)"
  let ?w = "max (rect_x r + rect_width r) (rect_x rect + rect_width rect) - ?x"
  let ?h = "max (rect_y r + rect_height r) (rect_y rect + rect_height rect) - ?y"
  have fits: "0 \<le> ?w" "?w \<le> 2147483647" "0 \<le> ?h" "?h \<le> 2147483647"
    using False assms unfolding proper_def by linarith+
  then have "Rect_Union rect r = Some (SetRect ?x ?y ?w ?h)"
    using assms False by (simp add: Rect_Union_def Let_def)
  moreover have "proper (SetRect ?x ?y ?w ?h)"
    by (rule proper_SetRect) (use fits assms in \<open>unfold proper_def, linarith+\<close>)
  moreover have "bounding (SetRect ?x ?y ?w ?h) (pixels r \<union> pixels rect)"
    by (rule bounding_SetRect[where ?b1.0 = "if rect_x r \<le> rect_x rect then rect_y r else rect_y rect"
          and ?b2.0 = "if rect_x r + rect_width r \<ge> rect_x rect + rect_width rect then rect_y r else rect_y rect"
          and ?a1.0 = "if rect_y r \<le> rect_y rect then rect_x r else rect_x rect"
          and ?a2.0 = "if rect_y r + rect_height r \<ge> rect_y rect + rect_height rect then rect_x r else rect_x rect"])
      (use False assms(1,2) in \<open>auto simp: pixels_prod IsEmpty_iff\<close>)
  ultimately show ?thesis
    by blast
qed

text \<open>
  \<open>Subtract\<close> by the place of \<open>rect\<close>: what is left of the box \<open>(x, y, x', y')\<close> without \<open>(u, v, u', v')\<close> is a box again when
  the latter covers it in one direction and one end of the other, and has the whole box as its bounding rectangle otherwise.
\<close>

lemma bounding_self: "bounding r (pixels r)"
  by (simp add: bounding_def)

definition subtract_edges :: "int \<Rightarrow> int \<Rightarrow> int \<Rightarrow> int \<Rightarrow> int \<Rightarrow> int \<Rightarrow> int \<Rightarrow> int \<Rightarrow> int \<times> int \<times> int \<times> int" where
  "subtract_edges x y x' y' u v u' v' =
    (if v \<le> y \<and> y' \<le> v' then if u \<le> x then (u', y, x', y') else if x' \<le> u' then (x, y, u, y') else (x, y, x', y')
     else if u \<le> x \<and> x' \<le> u' then if v \<le> y then (x, v', x', y') else if y' \<le> v' then (x, y, x', v) else (x, y, x', y')
     else (x, y, x', y'))"

lemma Subtract_value:
  assumes "proper r" "proper rect" and meet: "pixels r \<inter> pixels rect \<noteq> {}" and out: "\<not> pixels r \<subseteq> pixels rect"
  shows "Subtract rect r = (let (rx, ry, rr, rb) =
    subtract_edges (rect_x r) (rect_y r) (rect_x r + rect_width r) (rect_y r + rect_height r)
      (rect_x rect) (rect_y rect) (rect_x rect + rect_width rect) (rect_y rect + rect_height rect)
    in do { w \<leftarrow> int32 (rr - rx); h \<leftarrow> int32 (rb - ry); Some (SetRect rx ry w h) })"
proof -
  have "\<not> Rect_IsEmpty r"
    using meet assms(1) pixels_empty by fastforce
  then show ?thesis
    using assms by (simp add: Subtract_def subtract_edges_def Intersects_exact Contains_rect_exact Let_def)
qed

lemma subtract_edges_bounding:
  assumes e: "subtract_edges x y x' y' u v u' v' = (rx, ry, rr, rb)"
    and meet: "max x u < min x' u'" "max y v < min y' v'" and out: "x < u \<or> u' < x' \<or> y < v \<or> v' < y'"
  shows "x \<le> rx \<and> rx < rr \<and> rr \<le> x'" "y \<le> ry \<and> ry < rb \<and> rb \<le> y'"
    and "bounding (SetRect rx ry (rr - rx) (rb - ry)) ({x..<x'} \<times> {y..<y'} - {u..<u'} \<times> {v..<v'})" (is "bounding _ ?S")
proof -
  show x: "x \<le> rx \<and> rx < rr \<and> rr \<le> x'" and y: "y \<le> ry \<and> ry < rb \<and> rb \<le> y'"
    using e meet out by (auto simp: subtract_edges_def split: if_splits)
  consider (strip) "v \<le> y \<and> y' \<le> v' \<and> (u \<le> x \<or> x' \<le> u') \<or> u \<le> x \<and> x' \<le> u' \<and> (v \<le> y \<or> y' \<le> v')"
    | (amid) "v \<le> y \<and> y' \<le> v' \<and> x < u \<and> u' < x' \<or> u \<le> x \<and> x' \<le> u' \<and> y < v \<and> v' < y'"
    | (corner) "\<not> (v \<le> y \<and> y' \<le> v')" "\<not> (u \<le> x \<and> x' \<le> u')"
    by linarith
  then show "bounding (SetRect rx ry (rr - rx) (rb - ry)) ?S"
  proof cases
    case strip
    then have "?S = {rx..<rr} \<times> {ry..<rb}"
      using e meet out by (auto simp: subtract_edges_def split: if_splits)
    then show ?thesis
      using bounding_self[of "SetRect rx ry (rr - rx) (rb - ry)"] x y by simp
  next
    case amid
    then have "rx = x" "ry = y" "rr = x'" "rb = y'"
      using e by (auto simp: subtract_edges_def)
    then show ?thesis
      by (intro bounding_SetRect[where ?b1.0 = y and ?b2.0 = y and ?a1.0 = x and ?a2.0 = x]) (use amid meet in auto)
  next
    case corner
    then have "rx = x" "ry = y" "rr = x'" "rb = y'"
      using e by (auto simp: subtract_edges_def)
    then show ?thesis
      by (intro bounding_SetRect[where ?b1.0 = "if y < v then y else y' - 1" and ?b2.0 = "if y < v then y else y' - 1"
            and ?a1.0 = "if x < u then x else x' - 1" and ?a2.0 = "if x < u then x else x' - 1"])
        (use corner meet in auto)
  qed
qed

lemma Subtract_exact:
  assumes "proper r" "proper rect"
  shows "\<exists>r'. Subtract rect r = Some r' \<and> proper r' \<and> bounding r' (pixels r - pixels rect)"
proof -
  consider (apart) "pixels r \<inter> pixels rect = {}" | (inside) "pixels r \<inter> pixels rect \<noteq> {}" "pixels r \<subseteq> pixels rect"
    | (cut) "pixels r \<inter> pixels rect \<noteq> {}" "\<not> pixels r \<subseteq> pixels rect"
    by blast
  then show ?thesis
  proof cases
    case apart
    then have "Subtract rect r = Some r" "pixels r - pixels rect = pixels r"
      using assms by (auto simp: Subtract_def Intersects_exact)
    then show ?thesis
      using assms bounding_self by simp
  next
    case inside
    then have "\<not> Rect_IsEmpty r" "pixels r - pixels rect = {}"
      using pixels_empty[OF assms(1)] by auto
    then show ?thesis
      using assms inside by (simp add: Subtract_def Intersects_exact Contains_rect_exact bounding_def)
  next
    case cut
    obtain rx ry rr rb where e: "subtract_edges (rect_x r) (rect_y r) (rect_x r + rect_width r) (rect_y r + rect_height r)
        (rect_x rect) (rect_y rect) (rect_x rect + rect_width rect) (rect_y rect + rect_height rect) = (rx, ry, rr, rb)"
      using prod_cases4 by blast
    have "max (rect_x r) (rect_x rect) < min (rect_x r + rect_width r) (rect_x rect + rect_width rect)"
      "max (rect_y r) (rect_y rect) < min (rect_y r + rect_height r) (rect_y rect + rect_height rect)"
      using cut(1) by (auto simp: pixels_inter)
    moreover have "rect_x r < rect_x rect \<or> rect_x rect + rect_width rect < rect_x r + rect_width r \<or>
        rect_y r < rect_y rect \<or> rect_y rect + rect_height rect < rect_y r + rect_height r"
      using cut(2) by (auto simp: pixels_prod)
    ultimately have box: "rect_x r \<le> rx \<and> rx < rr \<and> rr \<le> rect_x r + rect_width r"
        "rect_y r \<le> ry \<and> ry < rb \<and> rb \<le> rect_y r + rect_height r"
        "bounding (SetRect rx ry (rr - rx) (rb - ry)) (pixels r - pixels rect)"
      using subtract_edges_bounding[OF e] by (simp_all add: pixels_prod[of r] pixels_prod[of rect])
    then show ?thesis
      using Subtract_value[OF assms cut] assms(1) by (simp add: e proper_def[of r])
  qed
qed

subsection \<open>The other operations\<close>

text \<open>
  The insets of a rectangle from an inner one shrink it to the inner one; the halves of \<open>SplitVertically\<close> share no pixel and make up the
  whole; \<open>AdjustToFit\<close> moves and shrinks a rectangle into the supplied one; moving forth and back is the identity.
\<close>

lemma Inset_InsetsFrom:
  assumes "proper r" "proper inner" "pixels inner \<subseteq> pixels r" "\<not> Rect_IsEmpty inner"
  shows "InsetsFrom inner r \<bind> (\<lambda>i. Inset_by i r) = Some inner"
proof -
  have "rect_x r \<le> rect_x inner" "rect_x inner + rect_width inner \<le> rect_x r + rect_width r"
    "rect_y r \<le> rect_y inner" "rect_y inner + rect_height inner \<le> rect_y r + rect_height r"
    using assms by (auto simp: pixels_prod times_subset_iff IsEmpty_iff)
  with assms(1,2) show ?thesis
    by (simp add: InsetsFrom_def Inset_by_def Rect_Inset_def Rect_new_def Size_new_def proper_def rect_right_def rect_bottom_def)
qed

lemma SplitVertically_partition:
  assumes "proper r"
  shows "\<exists>l h. SplitVertically r = Some (l, h) \<and> proper l \<and> proper h \<and>
    pixels l \<inter> pixels h = {} \<and> pixels l \<union> pixels h = pixels r \<and> rect_width l \<le> rect_width h \<and> rect_width h \<le> rect_width l + 1"
proof -
  let ?n = "rect_width r div 2"
  have n: "rect_width r sdiv 2 = ?n" "0 \<le> ?n" "?n \<le> rect_width r - ?n" "rect_width r - ?n \<le> ?n + 1"
    using assms by (auto simp: proper_def sdiv_pos)
  then have "SplitVertically r = Some (SetRect (rect_x r) (rect_y r) ?n (rect_height r),
      SetRect (rect_x r + ?n) (rect_y r) (rect_width r - ?n) (rect_height r))"
    using assms by (simp add: SplitVertically_def SetRect_def Size_new_def rect_right_def proper_def)
  then show ?thesis
    using n assms by (auto simp: SetRect_def Size_new_def proper_def pixels_prod)
qed

lemma AdjustAlongAxis_inside:
  assumes "- 2147483648 \<le> a" "0 \<le> n" "a + n \<le> 2147483647" "- 2147483648 \<le> x" "0 \<le> m" "x + m \<le> 2147483647"
  shows "\<exists>x'. AdjustAlongAxis a n x m = Some (x', min n m) \<and> a \<le> x' \<and> x' + min n m \<le> a + n"
proof (cases "x < a")
  case False
  then have "a \<le> min (a + n) (x + min n m) - min n m"
    using assms by linarith
  with False assms show ?thesis
    by (simp add: AdjustAlongAxis_def Let_def)
qed (simp add: AdjustAlongAxis_def)

lemma AdjustToFit_inside:
  assumes "proper r" "proper rect"
  shows "\<exists>r'. AdjustToFit rect r = Some r' \<and> proper r' \<and> pixels r' \<subseteq> pixels rect \<and>
    rect_width r' = min (rect_width rect) (rect_width r) \<and> rect_height r' = min (rect_height rect) (rect_height r)"
proof -
  obtain x where x: "AdjustAlongAxis (rect_x rect) (rect_width rect) (rect_x r) (rect_width r) = Some (x, min (rect_width rect) (rect_width r))"
      "rect_x rect \<le> x" "x + min (rect_width rect) (rect_width r) \<le> rect_x rect + rect_width rect"
    using AdjustAlongAxis_inside[of "rect_x rect" "rect_width rect" "rect_x r" "rect_width r"] assms by (auto simp: proper_def)
  obtain y where y: "AdjustAlongAxis (rect_y rect) (rect_height rect) (rect_y r) (rect_height r) = Some (y, min (rect_height rect) (rect_height r))"
      "rect_y rect \<le> y" "y + min (rect_height rect) (rect_height r) \<le> rect_y rect + rect_height rect"
    using AdjustAlongAxis_inside[of "rect_y rect" "rect_height rect" "rect_y r" "rect_height r"] assms by (auto simp: proper_def)
  let ?r = "SetRect x y (min (rect_width rect) (rect_width r)) (min (rect_height rect) (rect_height r))"
  have "0 \<le> min (rect_width rect) (rect_width r)" "0 \<le> min (rect_height rect) (rect_height r)"
    using assms by (simp_all add: proper_def)
  then have r: "rect_width ?r = min (rect_width rect) (rect_width r)" "rect_height ?r = min (rect_height rect) (rect_height r)"
      "rect_x ?r = x" "rect_y ?r = y"
    by (simp_all add: SetRect_def Size_new_def not_less del: min_less_iff_conj min.bounded_iff)
  have "proper ?r" "pixels ?r \<subseteq> pixels rect"
    using assms x(2,3) y(2,3) unfolding proper_def pixels_prod r by (linarith | intro conjI Sigma_mono ivl_subset[THEN iffD2])+
  moreover have "AdjustToFit rect r = Some ?r"
    by (simp add: AdjustToFit_def x(1) y(1))
  ultimately show ?thesis
    using r by blast
qed

lemma Rect_plus_minus: "proper r \<Longrightarrow> Rect_plus r d = Some r' \<Longrightarrow> Rect_minus r' d = Some r"
  by (auto simp: Rect_plus_def Rect_Offset_def Rect_minus_def bind_eq_Some_conv int32_def proper_def split: if_splits)

interpretation rect_ord: linorder "\<lambda>a b. Rect_less a b \<or> a = b" Rect_less
  by unfold_locales (auto simp: Rect_less_def split: if_splits intro!: Rect.equality Size.equality)

subsection \<open>Rectangles as sets of pixels\<close>

text \<open>
  C25. Each operation of \<open>gfx::Rect\<close> on rectangles whose edges fit into an \<open>int\<close> implements the operation on the sets of their pixels: \<open>Contains\<close> and
  \<open>Intersects\<close> decide membership, inclusion and common pixels, \<open>Intersect\<close> is the intersection, \<open>Union\<close> (when the width and height of the result
  fit into an \<open>int\<close>) and \<open>Subtract\<close> are the smallest rectangles around the union and the difference, \<open>SplitVertically\<close> parts the pixels into two
  halves, and \<open>AdjustToFit\<close> ends inside the supplied rectangle. None of them overflows, and each result is again a proper rectangle.
\<close>

theorem rect_ops_refine_pixels:
  assumes "proper r" "proper rect"
    and "Rect_IsEmpty r \<or> Rect_IsEmpty rect \<or>
      max (rect_x r + rect_width r) (rect_x rect + rect_width rect) - min (rect_x r) (rect_x rect) \<le> 2147483647 \<and>
      max (rect_y r + rect_height r) (rect_y rect + rect_height rect) - min (rect_y r) (rect_y rect) \<le> 2147483647"
  shows "Contains_point px py r = Some ((px, py) \<in> pixels r) \<and>
    (\<not> Rect_IsEmpty rect \<longrightarrow> Contains_rect rect r = Some (pixels rect \<subseteq> pixels r)) \<and>
    Intersects rect r = Some (pixels r \<inter> pixels rect \<noteq> {}) \<and>
    (\<exists>i. Intersect rect r = Some i \<and> proper i \<and> pixels i = pixels r \<inter> pixels rect) \<and>
    (\<exists>u. Rect_Union rect r = Some u \<and> proper u \<and> bounding u (pixels r \<union> pixels rect)) \<and>
    (\<exists>d. Subtract rect r = Some d \<and> proper d \<and> bounding d (pixels r - pixels rect)) \<and>
    (\<exists>l h. SplitVertically r = Some (l, h) \<and> proper l \<and> proper h \<and> pixels l \<inter> pixels h = {} \<and> pixels l \<union> pixels h = pixels r \<and>
      rect_width l \<le> rect_width h \<and> rect_width h \<le> rect_width l + 1) \<and>
    (\<exists>a. AdjustToFit rect r = Some a \<and> proper a \<and> pixels a \<subseteq> pixels rect \<and>
      rect_width a = min (rect_width rect) (rect_width r) \<and> rect_height a = min (rect_height rect) (rect_height r))"
  using Contains_point_exact[OF assms(1)] Contains_rect_exact[OF assms(1,2)] Intersects_exact[OF assms(1,2)]
    Intersect_exact[OF assms(1,2)] Union_exact[OF assms] Subtract_exact[OF assms(1,2)]
    SplitVertically_partition[OF assms(1)] AdjustToFit_inside[OF assms(1,2)]
  by (intro conjI impI)

theorem rect_ops_refine_pixels_witness:
  "\<exists>d. Subtract (SetRect 2 (- 1) 5 9) (SetRect 0 0 4 6) = Some d \<and> proper d \<and>
    bounding d (pixels (SetRect 0 0 4 6) - pixels (SetRect 2 (- 1) 5 9))"
  using rect_ops_refine_pixels[of "SetRect 0 0 4 6" "SetRect 2 (- 1) 5 9" 0 0]
  by (simp add: proper_def SetRect_def Size_new_def)

end
