(* ===== verification/Tiling_Data.thy ===== *)
theory Tiling_Data
  imports Gfx_Rect
begin

section \<open>TilingData: cutting a layer into texture tiles\<close>

text \<open>
  Model of \<^verbatim>\<open>src/cc/base/tiling_data.h\<close> and \<^verbatim>\<open>tiling_data.cc\<close>: the compositor cuts a layer of \<open>total_size\<close> into tiles of at most
  \<open>max_texture_size\<close>, each with \<open>border_texels\<close> texels in common with its neighbours. The functions for X and Y have the same body in the
  source and share one function of the axis here (\<open>n\<close> tiles, textures of size \<open>m\<close>, total size \<open>t\<close>, border \<open>b\<close>). A sum or product that does not fit
  into an \<open>int\<close> and a failed \<open>DCHECK\<close> are \<^const>\<open>None\<close>.
\<close>

subsection \<open>One axis\<close>

definition inner_size :: "int \<Rightarrow> int \<Rightarrow> int option" where
  "inner_size m b = do { b2 \<leftarrow> int32 (2 * b); int32 (m - b2) }"

definition ComputeNumTiles :: "int \<Rightarrow> int \<Rightarrow> int \<Rightarrow> int option" where
  "ComputeNumTiles max_texture_size total_size border_texels = do {
     inner \<leftarrow> inner_size max_texture_size border_texels;
     if inner \<le> 0 then Some (if 0 < total_size \<and> total_size \<le> max_texture_size then 1 else 0)
     else do {
       d \<leftarrow> int32 (total_size - 1);
       b2 \<leftarrow> int32 (2 * border_texels);
       d \<leftarrow> int32 (d - b2);
       q \<leftarrow> c_div d inner;
       q \<leftarrow> int32 (1 + q);
       let num_tiles = max 1 q;
       Some (if 0 < total_size then num_tiles else 0)
     }
   }"

definition tile_index :: "int \<Rightarrow> int \<Rightarrow> int \<Rightarrow> int \<Rightarrow> int option" where
  "tile_index n m b src_position =
     (if n \<le> 1 then Some 0
      else do {
        inner \<leftarrow> inner_size m b;
        if inner \<le> 0 then None
        else do {
          d \<leftarrow> int32 (src_position - b);
          x \<leftarrow> c_div d inner;
          Some (min (max x 0) (n - 1))
        }
      })"

definition first_border_tile_index :: "int \<Rightarrow> int \<Rightarrow> int \<Rightarrow> int \<Rightarrow> int option" where
  "first_border_tile_index n m b src_position =
     (if n \<le> 1 then Some 0
      else do {
        inner \<leftarrow> inner_size m b;
        if inner \<le> 0 then None
        else do {
          b2 \<leftarrow> int32 (2 * b);
          d \<leftarrow> int32 (src_position - b2);
          x \<leftarrow> c_div d inner;
          Some (min (max x 0) (n - 1))
        }
      })"

definition last_border_tile_index :: "int \<Rightarrow> int \<Rightarrow> int \<Rightarrow> int \<Rightarrow> int option" where
  "last_border_tile_index n m b src_position =
     (if n \<le> 1 then Some 0
      else do {
        inner \<leftarrow> inner_size m b;
        if inner \<le> 0 then None
        else do {
          x \<leftarrow> c_div src_position inner;
          Some (min (max x 0) (n - 1))
        }
      })"

definition tile_bounds :: "int \<Rightarrow> int \<Rightarrow> int \<Rightarrow> int \<Rightarrow> int \<Rightarrow> (int \<times> int) option" where
  "tile_bounds n m t b i = do {
     inner \<leftarrow> inner_size m b;
     lo \<leftarrow> int32 (inner * i);
     lo \<leftarrow> (if i \<noteq> 0 then int32 (lo + b) else Some lo);
     i1 \<leftarrow> int32 (i + 1);
     hi \<leftarrow> int32 (inner * i1);
     hi \<leftarrow> int32 (hi + b);
     hi \<leftarrow> (if i1 = n then int32 (hi + b) else Some hi);
     let hi = min hi t;
     sz \<leftarrow> int32 (hi - lo);
     if 0 \<le> lo \<and> 0 \<le> sz \<and> lo \<le> t then Some (lo, sz) else None
   }"

definition tile_bounds_with_border :: "int \<Rightarrow> int \<Rightarrow> int \<Rightarrow> int \<Rightarrow> (int \<times> int) option" where
  "tile_bounds_with_border m t b i = do {
     inner \<leftarrow> inner_size m b;
     lo \<leftarrow> int32 (inner * i);
     hi \<leftarrow> int32 (lo + inner);
     b2 \<leftarrow> int32 (2 * b);
     hi \<leftarrow> int32 (hi + b2);
     let hi = min hi t;
     sz \<leftarrow> int32 (hi - lo);
     if 0 \<le> lo \<and> 0 \<le> sz \<and> lo \<le> t then Some (lo, sz) else None
   }"

definition tile_position :: "int \<Rightarrow> int \<Rightarrow> int \<Rightarrow> int \<Rightarrow> int option" where
  "tile_position n m b index =
     (if \<not> (0 \<le> index \<and> index < n) then None
      else do {
        inner \<leftarrow> inner_size m b;
        pos \<leftarrow> int32 (inner * index);
        if index \<noteq> 0 then int32 (pos + b) else Some pos
      })"

definition tile_size :: "int \<Rightarrow> int \<Rightarrow> int \<Rightarrow> int \<Rightarrow> int \<Rightarrow> int option" where
  "tile_size n m t b index =
     (if \<not> (0 \<le> index \<and> index < n) then None
      else if index = 0 \<and> n = 1 then Some t
      else if index = 0 \<and> 1 < n then int32 (m - b)
      else if index < n - 1 then inner_size m b
      else if index = n - 1 then do {
        p \<leftarrow> tile_position n m b index;
        int32 (t - p)
      }
      else None)"

subsection \<open>The tiling\<close>

record TilingData =
  max_texture_size :: Size
  total_size :: Size
  border_texels :: int
  num_tiles_x :: int
  num_tiles_y :: int

definition RecomputeNumTiles :: "TilingData \<Rightarrow> TilingData option" where
  "RecomputeNumTiles td = do {
     nx \<leftarrow> ComputeNumTiles (size_width (max_texture_size td)) (size_width (total_size td)) (border_texels td);
     ny \<leftarrow> ComputeNumTiles (size_height (max_texture_size td)) (size_height (total_size td)) (border_texels td);
     Some (td\<lparr>num_tiles_x := nx, num_tiles_y := ny\<rparr>)
   }"

definition TilingData_new :: "Size \<Rightarrow> Size \<Rightarrow> int \<Rightarrow> TilingData option" where
  "TilingData_new mts ts b = RecomputeNumTiles
     \<lparr>max_texture_size = mts, total_size = ts, border_texels = b, num_tiles_x = 0, num_tiles_y = 0\<rparr>"

definition TilingData_default :: "TilingData option" where
  "TilingData_default = TilingData_new (Size_new 0 0) (Size_new 0 0) 0"

definition TilingData_has_border :: "Size \<Rightarrow> Size \<Rightarrow> bool \<Rightarrow> TilingData option" where
  "TilingData_has_border mts ts has_border_texels = TilingData_new mts ts (if has_border_texels then 1 else 0)"

definition SetTotalSize :: "Size \<Rightarrow> TilingData \<Rightarrow> TilingData option" where
  "SetTotalSize ts td = RecomputeNumTiles (td\<lparr>total_size := ts\<rparr>)"

definition SetMaxTextureSize :: "Size \<Rightarrow> TilingData \<Rightarrow> TilingData option" where
  "SetMaxTextureSize mts td = RecomputeNumTiles (td\<lparr>max_texture_size := mts\<rparr>)"

definition SetHasBorderTexels :: "bool \<Rightarrow> TilingData \<Rightarrow> TilingData option" where
  "SetHasBorderTexels has_border_texels td = RecomputeNumTiles (td\<lparr>border_texels := (if has_border_texels then 1 else 0)\<rparr>)"

definition SetBorderTexels :: "int \<Rightarrow> TilingData \<Rightarrow> TilingData option" where
  "SetBorderTexels b td = RecomputeNumTiles (td\<lparr>border_texels := b\<rparr>)"

definition has_empty_bounds :: "TilingData \<Rightarrow> bool" where
  "has_empty_bounds td \<longleftrightarrow> num_tiles_x td = 0 \<or> num_tiles_y td = 0"

abbreviation max_width :: "TilingData \<Rightarrow> int" where "max_width td \<equiv> size_width (max_texture_size td)"
abbreviation max_height :: "TilingData \<Rightarrow> int" where "max_height td \<equiv> size_height (max_texture_size td)"
abbreviation total_width :: "TilingData \<Rightarrow> int" where "total_width td \<equiv> size_width (total_size td)"
abbreviation total_height :: "TilingData \<Rightarrow> int" where "total_height td \<equiv> size_height (total_size td)"

definition TileXIndexFromSrcCoord :: "TilingData \<Rightarrow> int \<Rightarrow> int option" where
  "TileXIndexFromSrcCoord td = tile_index (num_tiles_x td) (max_width td) (border_texels td)"

definition TileYIndexFromSrcCoord :: "TilingData \<Rightarrow> int \<Rightarrow> int option" where
  "TileYIndexFromSrcCoord td = tile_index (num_tiles_y td) (max_height td) (border_texels td)"

definition FirstBorderTileXIndexFromSrcCoord :: "TilingData \<Rightarrow> int \<Rightarrow> int option" where
  "FirstBorderTileXIndexFromSrcCoord td = first_border_tile_index (num_tiles_x td) (max_width td) (border_texels td)"

definition FirstBorderTileYIndexFromSrcCoord :: "TilingData \<Rightarrow> int \<Rightarrow> int option" where
  "FirstBorderTileYIndexFromSrcCoord td = first_border_tile_index (num_tiles_y td) (max_height td) (border_texels td)"

definition LastBorderTileXIndexFromSrcCoord :: "TilingData \<Rightarrow> int \<Rightarrow> int option" where
  "LastBorderTileXIndexFromSrcCoord td = last_border_tile_index (num_tiles_x td) (max_width td) (border_texels td)"

definition LastBorderTileYIndexFromSrcCoord :: "TilingData \<Rightarrow> int \<Rightarrow> int option" where
  "LastBorderTileYIndexFromSrcCoord td = last_border_tile_index (num_tiles_y td) (max_height td) (border_texels td)"

definition AssertTile :: "TilingData \<Rightarrow> int \<Rightarrow> int \<Rightarrow> bool" where
  "AssertTile td i j \<longleftrightarrow> 0 \<le> i \<and> i < num_tiles_x td \<and> 0 \<le> j \<and> j < num_tiles_y td"

definition TileBounds :: "TilingData \<Rightarrow> int \<Rightarrow> int \<Rightarrow> Rect option" where
  "TileBounds td i j =
     (if \<not> AssertTile td i j then None
      else do {
        (x, width) \<leftarrow> tile_bounds (num_tiles_x td) (max_width td) (total_width td) (border_texels td) i;
        (y, height) \<leftarrow> tile_bounds (num_tiles_y td) (max_height td) (total_height td) (border_texels td) j;
        Some (Rect_new x y width height)
      })"

definition TileBoundsWithBorder :: "TilingData \<Rightarrow> int \<Rightarrow> int \<Rightarrow> Rect option" where
  "TileBoundsWithBorder td i j =
     (if \<not> AssertTile td i j then None
      else do {
        (x, width) \<leftarrow> tile_bounds_with_border (max_width td) (total_width td) (border_texels td) i;
        (y, height) \<leftarrow> tile_bounds_with_border (max_height td) (total_height td) (border_texels td) j;
        Some (Rect_new x y width height)
      })"

definition TilePositionX :: "TilingData \<Rightarrow> int \<Rightarrow> int option" where
  "TilePositionX td = tile_position (num_tiles_x td) (max_width td) (border_texels td)"

definition TilePositionY :: "TilingData \<Rightarrow> int \<Rightarrow> int option" where
  "TilePositionY td = tile_position (num_tiles_y td) (max_height td) (border_texels td)"

definition TileSizeX :: "TilingData \<Rightarrow> int \<Rightarrow> int option" where
  "TileSizeX td = tile_size (num_tiles_x td) (max_width td) (total_width td) (border_texels td)"

definition TileSizeY :: "TilingData \<Rightarrow> int \<Rightarrow> int option" where
  "TileSizeY td = tile_size (num_tiles_y td) (max_height td) (total_height td) (border_texels td)"

definition TextureOffset :: "TilingData \<Rightarrow> int \<Rightarrow> int \<Rightarrow> int \<times> int" where
  "TextureOffset td x_index y_index =
     (if x_index = 0 \<or> num_tiles_x td = 1 then 0 else border_texels td,
      if y_index = 0 \<or> num_tiles_y td = 1 then 0 else border_texels td)"

subsection \<open>The tiles of one axis\<close>

text \<open>
  An axis is well formed if its sizes are those of textures and layers (not negative, and small enough for their sum to be an \<open>int\<close>) and
  the number of tiles is the computed one.
\<close>

definition axis_sizes :: "int \<Rightarrow> int \<Rightarrow> int \<Rightarrow> bool" where
  "axis_sizes m t b \<longleftrightarrow> 0 \<le> m \<and> 0 \<le> t \<and> m + t \<le> 2147483647 \<and> 0 \<le> b \<and> b \<le> 1073741822"

definition axis_ok :: "int \<Rightarrow> int \<Rightarrow> int \<Rightarrow> int \<Rightarrow> bool" where
  "axis_ok n m t b \<longleftrightarrow> axis_sizes m t b \<and> ComputeNumTiles m t b = Some n"

lemma inner_size_value [simp]: "axis_sizes m t b \<Longrightarrow> inner_size m b = Some (m - 2 * b)"
  by (simp add: axis_sizes_def inner_size_def)

lemma ComputeNumTiles_value:
  assumes "axis_sizes m t b"
  shows "ComputeNumTiles m t b = Some (if t = 0 then 0 else if m - 2 * b \<le> 0 then (if t \<le> m then 1 else 0)
    else 1 + max ((t - 1 - 2 * b) div (m - 2 * b)) 0)"
proof (cases "m - 2 * b \<le> 0")
  case True
  then show ?thesis
    using assms by (auto simp: ComputeNumTiles_def axis_sizes_def inner_size_def)
next
  case False
  let ?d = "t - 1 - 2 * b" and ?i = "m - 2 * b"
  have d: "- 2147483646 \<le> ?d" "?d \<le> 2147483646" and "0 < ?i"
    using assms False by (simp_all add: axis_sizes_def)
  have "1 + max (?d sdiv ?i) 0 = max 1 (1 + ?d sdiv ?i)"
    by simp
  moreover have "- 2147483647 \<le> ?d sdiv ?i" "?d sdiv ?i \<le> 2147483646"
    using sdiv_abs_le[of ?i ?d] d \<open>0 < ?i\<close> by linarith+
  ultimately show ?thesis
    using assms False d c_div_value[of ?d ?i] max_sdiv[of ?i ?d]
    by (simp add: ComputeNumTiles_def axis_sizes_def inner_size_def)
qed

lemma axis_cases:
  assumes "axis_ok n m t b" "0 < n"
  obtains (one) "n = 1" "0 < t" "t \<le> m"
    | (many) "1 < n" "0 < m - 2 * b" "(m - 2 * b) * (n - 1) \<le> t - 1 - 2 * b" "t - 1 - 2 * b < (m - 2 * b) * n"
proof -
  let ?d = "t - 1 - 2 * b" and ?i = "m - 2 * b"
  have n: "n = (if t = 0 then 0 else if ?i \<le> 0 then (if t \<le> m then 1 else 0) else 1 + max (?d div ?i) 0)" and "0 \<le> t"
    using assms(1) by (auto simp: axis_ok_def ComputeNumTiles_value axis_sizes_def)
  show thesis
  proof (cases "0 < ?i \<and> 0 < ?d div ?i")
    case True
    define q where "q = ?d div ?i"
    have "n = 1 + q" "1 < n"
      using n assms(2) True by (auto simp: q_def split: if_splits)
    moreover have "?i * q + ?d mod ?i = ?d" "0 \<le> ?d mod ?i" "?d mod ?i < ?i"
      using True by (simp_all only: q_def mult_div_mod_eq pos_mod_sign pos_mod_bound)
    ultimately have "?i * (n - 1) \<le> ?d" "?d < ?i * n"
      by (simp_all add: distrib_left)
    then show thesis
      using many \<open>1 < n\<close> True by blast
  next
    case False
    have "0 < ?i \<Longrightarrow> 0 < ?d div ?i \<longleftrightarrow> ?i \<le> ?d"
      by (rule pos_imp_zdiv_pos_iff)
    with False have "0 < t" "n = 1" "t \<le> m"
      using n assms(2) \<open>0 \<le> t\<close> by (linarith | simp split: if_splits)+
    then show thesis
      using one by blast
  qed
qed

text \<open>
  The texels of tile \<open>i\<close> without its borders, from \<open>lo i\<close> up to \<open>hi i\<close>: the functions of the source compute them, and neighbouring
  tiles meet.
\<close>

definition tile_lo :: "int \<Rightarrow> int \<Rightarrow> int \<Rightarrow> int" where
  "tile_lo m b i = (if i = 0 then 0 else (m - 2 * b) * i + b)"

definition tile_hi :: "int \<Rightarrow> int \<Rightarrow> int \<Rightarrow> int \<Rightarrow> int \<Rightarrow> int" where
  "tile_hi n m t b i = (if i + 1 = n then t else (m - 2 * b) * (i + 1) + b)"

lemma steps:
  fixes s i n :: int
  assumes "0 < s" "0 \<le> i" "i < n"
  shows "0 \<le> s * i" "i \<le> s * i" "s * i \<le> s * (n - 1)" "i + 1 < n \<Longrightarrow> s * i + s \<le> s * (n - 1)" "0 < i \<Longrightarrow> s \<le> s * i"
    "s * (i + 1) = s * i + s" "s * n = s * (n - 1) + s"
proof -
  show "i \<le> s * i" "0 \<le> s * i"
    using assms mult_right_mono[of 1 s i] by simp_all
  show "s * i \<le> s * (n - 1)" "s * (i + 1) = s * i + s" "s * n = s * (n - 1) + s"
    using assms mult_left_mono[of i "n - 1" s] by (simp_all add: distrib_left right_diff_distrib)
  show "s * i + s \<le> s * (n - 1)" if "i + 1 < n"
    using assms that mult_left_mono[of "i + 1" "n - 1" s] by (simp add: distrib_left)
  show "s \<le> s * i" if "0 < i"
    using assms that mult_left_mono[of 1 i s] by simp
qed

lemma axis_sizesD:
  assumes "axis_ok n m t b"
  shows "0 \<le> m" "0 \<le> t" "m + t \<le> 2147483647" "0 \<le> b" "b \<le> 1073741822"
  using assms by (simp_all add: axis_ok_def axis_sizes_def)

lemma tile_cases:
  assumes "axis_ok n m t b" "0 \<le> i" "i < n"
  obtains (one) "i = 0" "n = 1" "0 < t" "t \<le> m"
    | (many) s k where "m = s + 2 * b" "0 < s" "1 < n" "s * i = k" "s * (i + 1) = k + s" "0 \<le> k" "i \<le> k" "k + 2 * b < t"
      "i \<noteq> 0 \<Longrightarrow> s \<le> k" "i = 0 \<Longrightarrow> k = 0" "i + 1 \<noteq> n \<Longrightarrow> k + s + 2 * b < t" "i + 1 = n \<Longrightarrow> t \<le> k + s + 2 * b"
proof -
  have "0 < n" using assms by simp
  with assms(1) show thesis
  proof (cases rule: axis_cases)
    case one
    then show thesis using that(1) assms by simp
  next
    case many
    let ?s = "m - 2 * b"
    note st = steps[OF \<open>0 < ?s\<close> assms(2,3)]
    have "?s * i + 2 * b < t" "i + 1 \<noteq> n \<Longrightarrow> ?s * i + ?s + 2 * b < t"
      using many(3) st(3,4) assms(3) by linarith+
    moreover have "t \<le> ?s * i + ?s + 2 * b" if "i + 1 = n"
      using many(4) st(6) unfolding that by linarith
    ultimately show thesis
      using that(2)[of ?s "?s * i"] many(1,2) st(1,2,5,6) assms(2) by simp
  qed
qed

lemma tile_bounds_value:
  assumes "axis_ok n m t b" "0 \<le> i" "i < n"
  shows "tile_bounds n m t b i = Some (tile_lo m b i, tile_hi n m t b i - tile_lo m b i) \<and>
    0 \<le> tile_lo m b i \<and> tile_lo m b i < tile_hi n m t b i \<and> tile_hi n m t b i \<le> t"
  using assms
proof (cases rule: tile_cases)
  case one
  then show ?thesis
    using axis_sizesD[OF assms(1)] by (simp add: tile_bounds_def inner_size_def tile_lo_def tile_hi_def)
next
  case (many s k)
  then show ?thesis
    using axis_sizesD[OF assms(1)] assms(2)
    by (cases "i = 0"; cases "i + 1 = n") (simp_all add: tile_bounds_def inner_size_def tile_lo_def tile_hi_def)
qed

lemma tile_position_value:
  assumes "axis_ok n m t b" "0 \<le> i" "i < n"
  shows "tile_position n m b i = Some (tile_lo m b i) \<and> tile_size n m t b i = Some (tile_hi n m t b i - tile_lo m b i)"
  using assms
proof (cases rule: tile_cases)
  case one
  then show ?thesis
    using axis_sizesD[OF assms(1)] by (simp add: tile_position_def tile_size_def inner_size_def tile_lo_def tile_hi_def)
next
  case (many s k)
  then have "i \<noteq> 0 \<Longrightarrow> i + 1 = n \<Longrightarrow> i = n - 1" "i + 1 \<noteq> n \<Longrightarrow> i < n - 1"
    using assms(3) by linarith+
  with many show ?thesis
    using axis_sizesD[OF assms(1)] assms(2,3)
    by (cases "i = 0"; cases "i + 1 = n") (simp_all add: tile_position_def tile_size_def inner_size_def tile_lo_def tile_hi_def)
qed

lemma tiles_apart:
  assumes "axis_ok n m t b" "0 \<le> i" "i < j" "j < n"
  shows "tile_hi n m t b i \<le> tile_lo m b j"
proof -
  have "0 < n" using assms by simp
  with assms(1) show ?thesis
  proof (cases rule: axis_cases)
    case many
    then have "(m - 2 * b) * (i + 1) \<le> (m - 2 * b) * j"
      using assms by (intro mult_left_mono) auto
    then show ?thesis
      using assms by (simp add: tile_hi_def tile_lo_def)
  qed (use assms in auto)
qed

lemma le_div_iff:
  fixes s d i :: int
  assumes "0 < s"
  shows "i \<le> d div s \<longleftrightarrow> s * i \<le> d"
proof
  assume "i \<le> d div s"
  then have "s * i \<le> s * (d div s)"
    using assms by simp
  also have "\<dots> \<le> d"
    using mult_div_mod_eq[of s d] pos_mod_sign[OF assms, of d] by linarith
  finally show "s * i \<le> d" .
next
  assume "s * i \<le> d"
  then have "s * i div s \<le> d div s"
    using assms by (intro zdiv_mono1)
  with assms show "i \<le> d div s"
    by simp
qed

lemma tile_index_value:
  assumes "axis_ok n m t b" "0 < n" "0 \<le> p" "p < t"
  obtains i where "tile_index n m b p = Some i" "0 \<le> i" "i < n" "tile_lo m b i \<le> p" "p < tile_hi n m t b i"
  using assms(1,2)
proof (cases rule: axis_cases)
  case one
  then show thesis
    using that[of 0] assms by (simp add: tile_index_def tile_lo_def tile_hi_def)
next
  case many
  let ?s = "m - 2 * b" 
  define q where "q = (p - b) div ?s"
  define i where "i = min (max q 0) (n - 1)"
  have "tile_index n m b p = Some i"
    using many axis_sizesD[OF assms(1)] assms c_div_value[of "p - b" ?s] max_sdiv[of ?s "p - b"]
    by (simp add: tile_index_def inner_size_def i_def q_def)
  moreover have i: "0 \<le> i" "i < n"
    using many by (simp_all add: i_def)
  moreover have q: "?s * q \<le> p - b" "p - b < ?s * (q + 1)"
    using le_div_iff[of ?s q "p - b"] le_div_iff[of ?s "q + 1" "p - b"] many(2) by (simp_all add: q_def)
  moreover have "tile_lo m b i \<le> p" 
  proof (cases "i = 0")
    case False
    then have "?s * i \<le> ?s * q"
      using many by (intro mult_left_mono) (auto simp: i_def)
    with q False show ?thesis by (simp add: tile_lo_def)
  qed (simp add: tile_lo_def assms)
  moreover have "p < tile_hi n m t b i"
  proof (cases "i + 1 = n")
    case False
    then have "?s * (q + 1) \<le> ?s * (i + 1)"
      using many by (intro mult_left_mono) (auto simp: i_def)
    with q False show ?thesis by (simp add: tile_hi_def)
  qed (simp add: tile_hi_def assms)
  ultimately show thesis
    using that by blast
qed

text \<open>With its borders a tile has the texels from \<open>(m - 2 * b) * i\<close>, as many as a texture holds but not beyond the end of the layer.\<close>

definition border_lo :: "int \<Rightarrow> int \<Rightarrow> int \<Rightarrow> int" where
  "border_lo m b i = (m - 2 * b) * i"

definition border_hi :: "int \<Rightarrow> int \<Rightarrow> int \<Rightarrow> int \<Rightarrow> int" where
  "border_hi m t b i = min ((m - 2 * b) * i + m) t"

lemma tile_bounds_with_border_value:
  assumes "axis_ok n m t b" "0 \<le> i" "i < n"
  shows "tile_bounds_with_border m t b i = Some (border_lo m b i, border_hi m t b i - border_lo m b i) \<and>
    0 \<le> border_lo m b i \<and> border_lo m b i \<le> tile_lo m b i \<and> tile_hi n m t b i \<le> border_hi m t b i \<and>
    border_hi m t b i \<le> t \<and> border_hi m t b i - border_lo m b i \<le> m \<and>
    tile_lo m b i = border_lo m b i + (if i = 0 \<or> n = 1 then 0 else b)"
  using assms
proof (cases rule: tile_cases)
  case one
  then show ?thesis
    using axis_sizesD[OF assms(1)]
    by (simp add: tile_bounds_with_border_def inner_size_def tile_lo_def tile_hi_def border_lo_def border_hi_def)
next
  case (many s k)
  then show ?thesis
    using axis_sizesD[OF assms(1)] assms(2,3)
    by (cases "i = 0"; cases "i + 1 = n")
      (simp_all add: tile_bounds_with_border_def inner_size_def tile_lo_def tile_hi_def border_lo_def border_hi_def)
qed

lemma border_tile_index:
  assumes "axis_ok n m t b" "0 < n" "0 \<le> p" "p < t"
  obtains f l where "first_border_tile_index n m b p = Some f" "last_border_tile_index n m b p = Some l" 
    "0 \<le> f" "f < n" "0 \<le> l" "l < n" 
    "\<And>i. 0 \<le> i \<Longrightarrow> i < n \<Longrightarrow> f \<le> i \<longleftrightarrow> p < border_hi m t b i" "\<And>i. 0 \<le> i \<Longrightarrow> i < n \<Longrightarrow> i \<le> l \<longleftrightarrow> border_lo m b i \<le> p"
  using assms(1,2)
proof (cases rule: axis_cases)
  case one
  then have "p < border_hi m t b i" "border_lo m b i \<le> p" if "0 \<le> i" "i < n" for i
  proof -
    have "i = 0" using that one by simp
    then show "p < border_hi m t b i" "border_lo m b i \<le> p"
      using one assms by (simp_all add: border_lo_def border_hi_def)
  qed
  with one show thesis
    using that[of 0 0] by (simp add: first_border_tile_index_def last_border_tile_index_def)
next
  case many
  let ?s = "m - 2 * b" 
  define q r where "q = (p - 2 * b) div ?s" "r = p div ?s"
  have "first_border_tile_index n m b p = Some (min (max q 0) (n - 1))"
    using many axis_sizesD[OF assms(1)] assms c_div_value[of "p - 2 * b" ?s] max_sdiv[of ?s "p - 2 * b"]
    by (simp add: first_border_tile_index_def inner_size_def q_r_def)
  moreover have "last_border_tile_index n m b p = Some (min (max r 0) (n - 1))"
    using many axis_sizesD[OF assms(1)] assms c_div_value[of p ?s] max_sdiv[of ?s p]
    by (simp add: last_border_tile_index_def inner_size_def q_r_def)
  moreover have "min (max q 0) (n - 1) \<le> i \<longleftrightarrow> p < border_hi m t b i" if "0 \<le> i" "i < n" for i
  proof -
    have "q \<le> i \<longleftrightarrow> p < ?s * i + m"
      using le_div_iff[of ?s "i + 1" "p - 2 * b"] many(2) by (auto simp: q_r_def distrib_left)
    moreover have "n - 1 \<le> i \<longleftrightarrow> i = n - 1"
      using that by auto
    moreover have "i = n - 1 \<Longrightarrow> p < ?s * i + m"
      using many(4) assms(4) by (simp add: right_diff_distrib)
    ultimately show ?thesis
      using that assms(4) by (auto simp: border_hi_def min_le_iff_disj)
  qed
  moreover have "i \<le> min (max r 0) (n - 1) \<longleftrightarrow> border_lo m b i \<le> p" if "0 \<le> i" "i < n" for i
    using le_div_iff[of ?s i p] le_div_iff[of ?s 0 p] many(2) that assms(3) by (auto simp: border_lo_def q_r_def)
  ultimately show thesis
    using that[of "min (max q 0) (n - 1)" "min (max r 0) (n - 1)"] many by simp
qed

subsection \<open>The tiles of the layer\<close>

text \<open>A tiling is well formed if its numbers of tiles are those of its sizes; the constructors and setters make it so.\<close>

definition td_ok :: "TilingData \<Rightarrow> bool" where
  "td_ok td \<longleftrightarrow> axis_ok (num_tiles_x td) (max_width td) (total_width td) (border_texels td) \<and>
     axis_ok (num_tiles_y td) (max_height td) (total_height td) (border_texels td)"

definition td_sizes :: "Size \<Rightarrow> Size \<Rightarrow> int \<Rightarrow> bool" where
  "td_sizes mts ts b \<longleftrightarrow> axis_sizes (size_width mts) (size_width ts) b \<and> axis_sizes (size_height mts) (size_height ts) b"

lemma RecomputeNumTiles_ok:
  assumes "td_sizes (max_texture_size td) (total_size td) (border_texels td)"
  shows "\<exists>td'. RecomputeNumTiles td = Some td' \<and> td_ok td' \<and> max_texture_size td' = max_texture_size td \<and>
    total_size td' = total_size td \<and> border_texels td' = border_texels td"
  using assms by (simp add: RecomputeNumTiles_def td_ok_def td_sizes_def axis_ok_def ComputeNumTiles_value)

lemma tiling_ops_ok:
  shows "td_sizes mts ts b \<Longrightarrow> \<exists>td. TilingData_new mts ts b = Some td \<and> td_ok td"
    and "td_sizes (max_texture_size td) ts (border_texels td) \<Longrightarrow> \<exists>td'. SetTotalSize ts td = Some td' \<and> td_ok td' \<and> total_size td' = ts"
    and "td_sizes mts (total_size td) (border_texels td) \<Longrightarrow>
      \<exists>td'. SetMaxTextureSize mts td = Some td' \<and> td_ok td' \<and> max_texture_size td' = mts"
    and "td_sizes (max_texture_size td) (total_size td) b \<Longrightarrow> \<exists>td'. SetBorderTexels b td = Some td' \<and> td_ok td' \<and> border_texels td' = b"
  unfolding TilingData_new_def SetTotalSize_def SetMaxTextureSize_def SetBorderTexels_def
  by (use RecomputeNumTiles_ok[of "\<lparr>max_texture_size = mts, total_size = ts, border_texels = b, num_tiles_x = 0, num_tiles_y = 0\<rparr>"]
      RecomputeNumTiles_ok[of "td\<lparr>total_size := ts\<rparr>"] RecomputeNumTiles_ok[of "td\<lparr>max_texture_size := mts\<rparr>"]
      RecomputeNumTiles_ok[of "td\<lparr>border_texels := b\<rparr>"] in force)+

lemma TileBounds_value:
  assumes "td_ok td" "AssertTile td i j"
  defines "lx \<equiv> tile_lo (max_width td) (border_texels td) i"
    and "hx \<equiv> tile_hi (num_tiles_x td) (max_width td) (total_width td) (border_texels td) i"
    and "ly \<equiv> tile_lo (max_height td) (border_texels td) j"
    and "hy \<equiv> tile_hi (num_tiles_y td) (max_height td) (total_height td) (border_texels td) j"
  shows "TileBounds td i j = Some (SetRect lx ly (hx - lx) (hy - ly))"
    and "pixels (SetRect lx ly (hx - lx) (hy - ly)) = {lx..<hx} \<times> {ly..<hy}"
proof -
  have "axis_ok (num_tiles_x td) (max_width td) (total_width td) (border_texels td)" "0 \<le> i" "i < num_tiles_x td"
    and "axis_ok (num_tiles_y td) (max_height td) (total_height td) (border_texels td)" "0 \<le> j" "j < num_tiles_y td"
    using assms(1,2) by (simp_all add: td_ok_def AssertTile_def)
  note v = tile_bounds_value[OF this(1-3)] tile_bounds_value[OF this(4-6)]
  show "TileBounds td i j = Some (SetRect lx ly (hx - lx) (hy - ly))"
    using assms(2) v by (simp add: TileBounds_def lx_def hx_def ly_def hy_def SetRect_def Rect_new_def)
  show "pixels (SetRect lx ly (hx - lx) (hy - ly)) = {lx..<hx} \<times> {ly..<hy}"
    using v by (simp add: lx_def hx_def ly_def hy_def)
qed

lemma TileBoundsWithBorder_value:
  assumes "td_ok td" "AssertTile td i j"
  defines "lx \<equiv> border_lo (max_width td) (border_texels td) i"
    and "hx \<equiv> border_hi (max_width td) (total_width td) (border_texels td) i"
    and "ly \<equiv> border_lo (max_height td) (border_texels td) j"
    and "hy \<equiv> border_hi (max_height td) (total_height td) (border_texels td) j"
  shows "TileBoundsWithBorder td i j = Some (SetRect lx ly (hx - lx) (hy - ly))"
    and "pixels (SetRect lx ly (hx - lx) (hy - ly)) = {lx..<hx} \<times> {ly..<hy}"
    and "proper (SetRect lx ly (hx - lx) (hy - ly))"
proof -
  have x: "axis_ok (num_tiles_x td) (max_width td) (total_width td) (border_texels td)" "0 \<le> i" "i < num_tiles_x td"
    and y: "axis_ok (num_tiles_y td) (max_height td) (total_height td) (border_texels td)" "0 \<le> j" "j < num_tiles_y td"
    using assms(1,2) by (simp_all add: td_ok_def AssertTile_def)
  note v = tile_bounds_with_border_value[OF x] tile_bounds_with_border_value[OF y] tile_bounds_value[OF x] tile_bounds_value[OF y]
    axis_sizesD[OF x(1)] axis_sizesD[OF y(1)]
  have le: "0 \<le> lx" "lx \<le> hx" "hx \<le> total_width td" "0 \<le> ly" "ly \<le> hy" "hy \<le> total_height td"
    using v unfolding lx_def hx_def ly_def hy_def by linarith+
  show "TileBoundsWithBorder td i j = Some (SetRect lx ly (hx - lx) (hy - ly))"
    using assms(2) v by (simp add: TileBoundsWithBorder_def lx_def hx_def ly_def hy_def SetRect_def Rect_new_def)
  show "pixels (SetRect lx ly (hx - lx) (hy - ly)) = {lx..<hx} \<times> {ly..<hy}"
    using le by simp
  show "proper (SetRect lx ly (hx - lx) (hy - ly))"
    by (rule proper_SetRect) (use le v in linarith)+
qed

text \<open>
  C24. Every texel of the layer is in exactly one tile: the tile whose indices \<open>TileXIndexFromSrcCoord\<close> and \<open>TileYIndexFromSrcCoord\<close> return has
  the texel inside its bounds, and no other tile of the tiling has. Neither function overflows or fails a \<open>DCHECK\<close> there.
\<close>

theorem tiles_partition:
  assumes "td_ok td" "0 < num_tiles_x td" "0 < num_tiles_y td" and "(px, py) \<in> pixels (Rect_of_size (total_size td))"
  shows "\<exists>i j. TileXIndexFromSrcCoord td px = Some i \<and> TileYIndexFromSrcCoord td py = Some j \<and> AssertTile td i j \<and>
    (\<forall>i' j'. AssertTile td i' j' \<longrightarrow> (\<exists>r. TileBounds td i' j' = Some r \<and> ((px, py) \<in> pixels r \<longleftrightarrow> (i', j') = (i, j))))"
proof -
  have x: "axis_ok (num_tiles_x td) (max_width td) (total_width td) (border_texels td)" "0 \<le> px" "px < total_width td"
    and y: "axis_ok (num_tiles_y td) (max_height td) (total_height td) (border_texels td)" "0 \<le> py" "py < total_height td"
    using assms by (simp_all add: td_ok_def pixels_def Rect_of_size_def)
  obtain i where i: "TileXIndexFromSrcCoord td px = Some i" "0 \<le> i" "i < num_tiles_x td" 
      "tile_lo (max_width td) (border_texels td) i \<le> px"
      "px < tile_hi (num_tiles_x td) (max_width td) (total_width td) (border_texels td) i"
    using tile_index_value[OF x(1) assms(2) x(2,3)] by (auto simp: TileXIndexFromSrcCoord_def)
  obtain j where j: "TileYIndexFromSrcCoord td py = Some j" "0 \<le> j" "j < num_tiles_y td"
      "tile_lo (max_height td) (border_texels td) j \<le> py"
      "py < tile_hi (num_tiles_y td) (max_height td) (total_height td) (border_texels td) j"
    using tile_index_value[OF y(1) assms(3) y(2,3)] by (auto simp: TileYIndexFromSrcCoord_def)
  have "(px, py) \<in> {tile_lo (max_width td) (border_texels td) i'..<tile_hi (num_tiles_x td) (max_width td) (total_width td) (border_texels td) i'} \<times>
      {tile_lo (max_height td) (border_texels td) j'..<tile_hi (num_tiles_y td) (max_height td) (total_height td) (border_texels td) j'} \<longleftrightarrow>
      (i', j') = (i, j)" if "AssertTile td i' j'" for i' j'
    using i j that tiles_apart[OF x(1), of i i'] tiles_apart[OF x(1), of i' i] tiles_apart[OF y(1), of j j'] tiles_apart[OF y(1), of j' j]
    by (cases i i' rule: linorder_cases; cases j j' rule: linorder_cases) (auto simp: AssertTile_def)
  then show ?thesis
    using i(1-3) j(1-3) by (auto simp: TileBounds_value[OF assms(1)] AssertTile_def)
qed

definition sample_tiling :: TilingData where
  "sample_tiling = \<lparr>max_texture_size = Size_new 10 10, total_size = Size_new 25 13, border_texels = 1, num_tiles_x = 3, num_tiles_y = 2\<rparr>"

lemma sample_tiling_ok: "td_ok sample_tiling"
  by (simp add: sample_tiling_def td_ok_def axis_ok_def ComputeNumTiles_value axis_sizes_def Size_new_def)

theorem tiles_partition_witness:
  "\<exists>i j. TileXIndexFromSrcCoord sample_tiling 17 = Some i \<and> TileYIndexFromSrcCoord sample_tiling 8 = Some j \<and> AssertTile sample_tiling i j \<and>
    (\<forall>i' j'. AssertTile sample_tiling i' j' \<longrightarrow>
      (\<exists>r. TileBounds sample_tiling i' j' = Some r \<and> ((17, 8) \<in> pixels r \<longleftrightarrow> (i', j') = (i, j))))"
  using tiles_partition[OF sample_tiling_ok, of 17 8]
  by (simp add: sample_tiling_def pixels_def Rect_of_size_def Size_new_def)

text \<open>
  C26. The geometry of a tile. Its bounds are what \<open>TilePositionX\<close>, \<open>TilePositionY\<close>, \<open>TileSizeX\<close> and \<open>TileSizeY\<close> say, are not empty and lie \<open>TextureOffset\<close> inside
  the bounds with border; those lie inside the layer and are no larger than the maximal texture, so that the tile with its borders always
  fits into one texture. None of the computations overflows or fails a \<open>DCHECK\<close>.
\<close>

theorem tile_fits_texture:
  assumes "td_ok td" "AssertTile td i j"
  shows "\<exists>r rb. TileBounds td i j = Some r \<and> TileBoundsWithBorder td i j = Some rb \<and>
    TilePositionX td i = Some (rect_x r) \<and> TilePositionY td j = Some (rect_y r) \<and>
    TileSizeX td i = Some (rect_width r) \<and> TileSizeY td j = Some (rect_height r) \<and>
    (rect_x r, rect_y r) = (rect_x rb + fst (TextureOffset td i j), rect_y rb + snd (TextureOffset td i j)) \<and>
    pixels r \<noteq> {} \<and> pixels r \<subseteq> pixels rb \<and> pixels rb \<subseteq> pixels (Rect_of_size (total_size td)) \<and>
    rect_width rb \<le> max_width td \<and> rect_height rb \<le> max_height td"
proof -
  have x: "axis_ok (num_tiles_x td) (max_width td) (total_width td) (border_texels td)" "0 \<le> i" "i < num_tiles_x td"
    and y: "axis_ok (num_tiles_y td) (max_height td) (total_height td) (border_texels td)" "0 \<le> j" "j < num_tiles_y td"
    using assms(1,2) by (simp_all add: td_ok_def AssertTile_def)
  define lx hx bx ex where e: "lx = tile_lo (max_width td) (border_texels td) i"
    "hx = tile_hi (num_tiles_x td) (max_width td) (total_width td) (border_texels td) i"
    "bx = border_lo (max_width td) (border_texels td) i" "ex = border_hi (max_width td) (total_width td) (border_texels td) i"
  define ly hy by' ey where f: "ly = tile_lo (max_height td) (border_texels td) j"
    "hy = tile_hi (num_tiles_y td) (max_height td) (total_height td) (border_texels td) j"
    "by' = border_lo (max_height td) (border_texels td) j" "ey = border_hi (max_height td) (total_height td) (border_texels td) j"
  note vx = tile_bounds_value[OF x, folded e] tile_bounds_with_border_value[OF x, folded e] tile_position_value[OF x, folded e]
  note vy = tile_bounds_value[OF y, folded f] tile_bounds_with_border_value[OF y, folded f] tile_position_value[OF y, folded f]
  let ?r = "SetRect lx ly (hx - lx) (hy - ly)" and ?rb = "SetRect bx by' (ex - bx) (ey - by')"
  have "TileBounds td i j = Some ?r" "TileBoundsWithBorder td i j = Some ?rb"
    using TileBounds_value(1)[OF assms] TileBoundsWithBorder_value(1)[OF assms] by (simp_all add: e f)
  moreover have le: "0 \<le> bx" "bx \<le> lx" "lx < hx" "hx \<le> ex" "ex \<le> total_width td"
      "0 \<le> by'" "by' \<le> ly" "ly < hy" "hy \<le> ey" "ey \<le> total_height td"
    using vx vy by linarith+
  moreover have "pixels ?r \<noteq> {}" "pixels ?r \<subseteq> pixels ?rb" "pixels ?rb \<subseteq> pixels (Rect_of_size (total_size td))"
    using le by (auto simp: pixels_of_size)
  moreover have "TilePositionX td i = Some lx" "TilePositionY td j = Some ly" "TileSizeX td i = Some (hx - lx)" "TileSizeY td j = Some (hy - ly)"
    using vx vy by (simp_all add: TilePositionX_def TilePositionY_def TileSizeX_def TileSizeY_def)
  moreover have "(lx, ly) = (bx + fst (TextureOffset td i j), by' + snd (TextureOffset td i j))"
    using vx vy by (simp add: TextureOffset_def)
  moreover have "ex - bx \<le> max_width td" "ey - by' \<le> max_height td"
    using vx vy by simp_all
  ultimately show ?thesis
    by (intro exI[of _ ?r] exI[of _ ?rb]) (simp add: SetRect_def Size_new_def)
qed

theorem tile_fits_texture_witness:
  "\<exists>r rb. TileBounds sample_tiling 2 1 = Some r \<and> TileBoundsWithBorder sample_tiling 2 1 = Some rb \<and>
    pixels r \<noteq> {} \<and> pixels r \<subseteq> pixels rb \<and> rect_width rb \<le> 10 \<and> rect_height rb \<le> 10"
proof -
  have "AssertTile sample_tiling 2 1"
    by (simp add: AssertTile_def sample_tiling_def)
  then show ?thesis
    using tile_fits_texture[OF sample_tiling_ok, of 2 1] by (auto simp: sample_tiling_def Size_new_def)
qed

end
