(* ===== verification/Tiling_Iterators.thy ===== *)
theory Tiling_Iterators
  imports Tiling_Data
begin

section \<open>TilingData's iterators\<close>

text \<open>
  Model of \<open>TilingData::Iterator\<close> and \<open>TilingData::DifferenceIterator\<close> of \<^verbatim>\<open>src/cc/base/tiling_data.cc\<close>. The iterators extend the
  record of \<open>BaseIterator\<close> by the tile indices between which they run. \<open>border_tiles\<close> are the four index computations that
  their constructors repeat.
\<close>

subsection \<open>The iterators\<close>

record BaseIterator =
  index_x :: int
  index_y :: int

record Iterator = BaseIterator +
  it_left :: int
  it_right :: int
  it_bottom :: int

record DifferenceIterator = BaseIterator +
  consider_left :: int
  consider_top :: int
  consider_right :: int
  consider_bottom :: int
  ignore_left :: int
  ignore_top :: int
  ignore_right :: int
  ignore_bottom :: int

definition it_valid :: "'a BaseIterator_scheme \<Rightarrow> bool" where
  "it_valid it \<longleftrightarrow> index_x it \<noteq> - 1 \<and> index_y it \<noteq> - 1"

definition it_index :: "'a BaseIterator_scheme \<Rightarrow> int \<times> int" where
  "it_index it = (index_x it, index_y it)"

definition it_done :: "'a BaseIterator_scheme \<Rightarrow> 'a BaseIterator_scheme" where
  "it_done it = it\<lparr>index_x := - 1, index_y := - 1\<rparr>"

definition border_tiles :: "TilingData \<Rightarrow> Rect \<Rightarrow> (int \<times> int \<times> int \<times> int) option" where
  "border_tiles td rect = do {
     l \<leftarrow> FirstBorderTileXIndexFromSrcCoord td (rect_x rect);
     t \<leftarrow> FirstBorderTileYIndexFromSrcCoord td (rect_y rect);
     r \<leftarrow> rect_right rect;
     r \<leftarrow> int32 (r - 1);
     r \<leftarrow> LastBorderTileXIndexFromSrcCoord td r;
     b \<leftarrow> rect_bottom rect;
     b \<leftarrow> int32 (b - 1);
     b \<leftarrow> LastBorderTileYIndexFromSrcCoord td b;
     Some (l, t, r, b)
   }"

definition Iterator_new :: "TilingData \<Rightarrow> Rect \<Rightarrow> Iterator option" where
  "Iterator_new td rect = do {
     let it = \<lparr>index_x = - 1, index_y = - 1, it_left = - 1, it_right = - 1, it_bottom = - 1\<rparr>;
     if num_tiles_x td \<le> 0 \<or> num_tiles_y td \<le> 0 then Some (it_done it)
     else do {
       rect \<leftarrow> Intersect (Rect_of_size (total_size td)) rect;
       (ix, iy, r, b) \<leftarrow> border_tiles td rect;
       let it = \<lparr>index_x = ix, index_y = iy, it_left = ix, it_right = r, it_bottom = b\<rparr>;
       new_rect \<leftarrow> TileBoundsWithBorder td ix iy;
       c \<leftarrow> Intersects rect new_rect;
       Some (if \<not> c then it_done it else it)
     }
   }"

definition Iterator_next :: "Iterator \<Rightarrow> Iterator option" where
  "Iterator_next it =
     (if \<not> it_valid it then Some it
      else do {
        x \<leftarrow> int32 (index_x it + 1);
        if it_right it < x then do {
          y \<leftarrow> int32 (index_y it + 1);
          let it = it\<lparr>index_x := it_left it, index_y := y\<rparr>;
          Some (if it_bottom it < y then it_done it else it)
        }
        else Some (it\<lparr>index_x := x\<rparr>)
      })"

definition in_ignore_rect :: "DifferenceIterator \<Rightarrow> bool" where
  "in_ignore_rect it \<longleftrightarrow> ignore_left it \<le> index_x it \<and> index_x it \<le> ignore_right it \<and>
     ignore_top it \<le> index_y it \<and> index_y it \<le> ignore_bottom it"

definition skip_ignored :: "DifferenceIterator \<Rightarrow> DifferenceIterator option" where
  "skip_ignored it =
     (if in_ignore_rect it then do { x \<leftarrow> int32 (ignore_right it + 1); Some (it\<lparr>index_x := x\<rparr>) } else Some it)"

definition Difference_next_row :: "DifferenceIterator \<Rightarrow> DifferenceIterator option" where
  "Difference_next_row it = do {
     y \<leftarrow> int32 (index_y it + 1);
     let it = it\<lparr>index_x := consider_left it, index_y := y\<rparr>;
     it \<leftarrow> (if in_ignore_rect it then do {
         x \<leftarrow> int32 (ignore_right it + 1);
         let it = it\<lparr>index_x := x\<rparr>;
         if in_ignore_rect it \<or> consider_right it < index_x it then do {
           y \<leftarrow> int32 (ignore_bottom it + 1);
           Some (it\<lparr>index_y := y, index_x := consider_left it\<rparr>)
         }
         else Some it
       }
       else Some it);
     Some (if consider_bottom it < index_y it then it_done it else it)
   }"

definition Difference_next :: "DifferenceIterator \<Rightarrow> DifferenceIterator option" where
  "Difference_next it =
     (if \<not> it_valid it then Some it
      else do {
        x \<leftarrow> int32 (index_x it + 1);
        it \<leftarrow> skip_ignored (it\<lparr>index_x := x\<rparr>);
        if consider_right it < index_x it then Difference_next_row it else Some it
      })"

definition Difference_ignore :: "TilingData \<Rightarrow> Rect \<Rightarrow> DifferenceIterator \<Rightarrow> DifferenceIterator option" where
  "Difference_ignore td ignore_rect it =
     (if \<not> Rect_IsEmpty ignore_rect then do {
        (l, t, r, b) \<leftarrow> border_tiles td ignore_rect;
        Some (it\<lparr>ignore_left := max l (consider_left it), ignore_top := max t (consider_top it),
          ignore_right := min r (consider_right it), ignore_bottom := min b (consider_bottom it)\<rparr>)
      }
      else Some it)"

definition Difference_start :: "DifferenceIterator \<Rightarrow> DifferenceIterator option" where
  "Difference_start it =
     (if ignore_left it = consider_left it \<and> ignore_right it = consider_right it \<and>
         ignore_top it = consider_top it \<and> ignore_bottom it = consider_bottom it then Some (it_done it)
      else do {
        let it = it\<lparr>index_x := consider_left it, index_y := consider_top it\<rparr>;
        if in_ignore_rect it then Difference_next it else Some it
      })"

definition DifferenceIterator_new :: "TilingData \<Rightarrow> Rect \<Rightarrow> Rect \<Rightarrow> DifferenceIterator option" where
  "DifferenceIterator_new td consider_rect ignore_rect = do {
     let it = \<lparr>index_x = - 1, index_y = - 1, consider_left = - 1, consider_top = - 1, consider_right = - 1, consider_bottom = - 1,
       ignore_left = - 1, ignore_top = - 1, ignore_right = - 1, ignore_bottom = - 1\<rparr>;
     if num_tiles_x td \<le> 0 \<or> num_tiles_y td \<le> 0 then Some (it_done it)
     else do {
       let bounds = Rect_of_size (total_size td);
       consider_rect \<leftarrow> Intersect bounds consider_rect;
       ignore_rect \<leftarrow> Intersect bounds ignore_rect;
       if Rect_IsEmpty consider_rect then Some (it_done it)
       else do {
         (cl, ct, cr, cb) \<leftarrow> border_tiles td consider_rect;
         let it = it\<lparr>consider_left := cl, consider_top := ct, consider_right := cr, consider_bottom := cb\<rparr>;
         it \<leftarrow> Difference_ignore td ignore_rect it;
         Difference_start it
       }
     }
   }"

subsection \<open>Loops over an iterator\<close>

text \<open>
  The loop \<open>for (Iterator it(...); it; ++it)\<close> visits the indices of the iterator; it needs fuel, and with none left it is
  \<^const>\<open>None\<close>. A cursor is an iterator whose remaining indices are known: every step takes the first of them away.
\<close>

fun for_each :: "('s \<Rightarrow> bool) \<Rightarrow> ('s \<Rightarrow> 's option) \<Rightarrow> ('s \<Rightarrow> 'a) \<Rightarrow> nat \<Rightarrow> 's \<Rightarrow> 'a list option" where
  "for_each live advance cur 0 s = None"
| "for_each live advance cur (Suc fuel) s =
     (if \<not> live s then Some []
      else do { s' \<leftarrow> advance s; xs \<leftarrow> for_each live advance cur fuel s'; Some (cur s # xs) })"

locale tile_cursor =
  fixes ok :: "'s \<Rightarrow> bool" and live :: "'s \<Rightarrow> bool" and advance :: "'s \<Rightarrow> 's option" and cur :: "'s \<Rightarrow> 'a" and todo :: "'s \<Rightarrow> 'a list"
  assumes step: "ok s \<Longrightarrow> live s \<Longrightarrow> \<exists>s'. advance s = Some s' \<and> ok s' \<and> todo s = cur s # todo s'"
    and stop: "ok s \<Longrightarrow> \<not> live s \<Longrightarrow> todo s = []"
begin

lemma visits: "ok s \<Longrightarrow> length (todo s) < fuel \<Longrightarrow> for_each live advance cur fuel s = Some (todo s)"
proof (induction fuel arbitrary: s)
  case (Suc fuel)
  show ?case
  proof (cases "live s")
    case True
    with step Suc.prems(1) obtain s' where "advance s = Some s'" "ok s'" "todo s = cur s # todo s'"
      by blast
    then show ?thesis
      using Suc True by simp
  qed (use stop Suc.prems in simp)
qed simp

end

subsection \<open>Tiles row by row\<close>

definition tile_list :: "int \<Rightarrow> int \<Rightarrow> int \<Rightarrow> int \<Rightarrow> (int \<times> int) list" where
  "tile_list l r t b = concat (map (\<lambda>j. map (\<lambda>i. (i, j)) [l..r]) [t..b])"

definition tiles_from :: "int \<Rightarrow> int \<Rightarrow> int \<Rightarrow> int \<Rightarrow> int \<Rightarrow> (int \<times> int) list" where
  "tiles_from x y l r b = map (\<lambda>i. (i, y)) [x..r] @ tile_list l r (y + 1) b"

lemma tiles_rows: "tile_list l r t b = (if t \<le> b then tiles_from l t l r b else [])"
  by (simp add: tile_list_def tiles_from_def upto_rec1)

lemma tiles_from_Cons: "x \<le> r \<Longrightarrow> tiles_from x y l r b = (x, y) # tiles_from (x + 1) y l r b"
  by (simp add: tiles_from_def upto_rec1)

lemma tiles_from_row: "r < x \<Longrightarrow> tiles_from x y l r b = tile_list l r (y + 1) b"
  by (simp add: tiles_from_def)

lemma set_tiles [simp]: "set (tile_list l r t b) = {l..r} \<times> {t..b}"
  by (auto simp: tile_list_def)

lemma skip_in_row:
  assumes "x \<le> e" "e \<le> r" "\<And>i. x \<le> i \<Longrightarrow> i \<le> e \<Longrightarrow> \<not> P (i, y)"
  shows "filter P (tiles_from x y l r b) = filter P (tiles_from (e + 1) y l r b)"
proof -
  have "filter P (map (\<lambda>i. (i, y)) [x..e]) = []"
    using assms(3) by (auto simp: filter_empty_conv)
  then show ?thesis
    using assms(1,2) by (simp add: tiles_from_def upto_split2[of x e r])
qed

lemma skip_rows:
  assumes "y \<le> e" "e \<le> b" "\<And>i j. l \<le> i \<Longrightarrow> i \<le> r \<Longrightarrow> y \<le> j \<Longrightarrow> j \<le> e \<Longrightarrow> \<not> P (i, j)"
  shows "filter P (tile_list l r y b) = filter P (tile_list l r (e + 1) b)"
proof -
  have "tile_list l r y b = tile_list l r y e @ tile_list l r (e + 1) b"
    using assms(1,2) by (simp add: tile_list_def upto_split2[of y e b])
  moreover have "filter P (tile_list l r y e) = []"
    using assms(3) by (auto simp: filter_empty_conv)
  ultimately show ?thesis
    by simp
qed

subsection \<open>Iterator\<close>

definition it_ok :: "Iterator \<Rightarrow> bool" where
  "it_ok it \<longleftrightarrow> (it_valid it \<longrightarrow> 0 \<le> it_left it \<and> it_left it \<le> index_x it \<and> index_x it \<le> it_right it \<and> it_right it < 2147483647 \<and>
     0 \<le> index_y it \<and> index_y it \<le> it_bottom it \<and> it_bottom it < 2147483647)"

definition it_todo :: "Iterator \<Rightarrow> (int \<times> int) list" where
  "it_todo it = (if it_valid it then tiles_from (index_x it) (index_y it) (it_left it) (it_right it) (it_bottom it) else [])"

lemma it_valid_done [simp]: "\<not> it_valid (it_done it)"
  by (simp add: it_valid_def it_done_def)

interpretation iterator: tile_cursor it_ok it_valid Iterator_next it_index it_todo
proof
  fix it assume ok: "it_ok it" and valid: "it_valid it"
  then show "\<exists>it'. Iterator_next it = Some it' \<and> it_ok it' \<and> it_todo it = it_index it # it_todo it'"
    by (auto simp: Iterator_next_def it_ok_def it_todo_def it_index_def Let_def tiles_from_Cons tiles_from_row tiles_rows it_valid_def it_done_def)
qed (simp add: it_todo_def)

subsection \<open>DifferenceIterator\<close>

text \<open>
  The indices that an iterator at \<open>(x, y)\<close> still has to visit are those from there on that are not ignored. An iterator may be placed on an
  ignored index or at the end of its row for a moment; the skips leave what is to be visited as it is.
\<close>

definition ignored :: "DifferenceIterator \<Rightarrow> int \<times> int \<Rightarrow> bool" where
  "ignored it p \<longleftrightarrow> ignore_left it \<le> fst p \<and> fst p \<le> ignore_right it \<and> ignore_top it \<le> snd p \<and> snd p \<le> ignore_bottom it"

definition diff_rest :: "DifferenceIterator \<Rightarrow> (int \<times> int) list" where
  "diff_rest it = filter (\<lambda>p. \<not> ignored it p)
     (tiles_from (index_x it) (index_y it) (consider_left it) (consider_right it) (consider_bottom it))"

definition diff_todo :: "DifferenceIterator \<Rightarrow> (int \<times> int) list" where
  "diff_todo it = (if it_valid it then diff_rest it else [])"

definition diff_bounds :: "DifferenceIterator \<Rightarrow> bool" where
  "diff_bounds it \<longleftrightarrow> 0 \<le> consider_left it \<and> consider_left it \<le> consider_right it \<and> consider_right it < 2147483647 \<and>
     0 \<le> consider_bottom it \<and> consider_bottom it < 2147483647 \<and>
     - 1 \<le> ignore_right it \<and> ignore_right it \<le> consider_right it \<and> - 1 \<le> ignore_bottom it \<and> ignore_bottom it \<le> consider_bottom it"

definition diff_at :: "DifferenceIterator \<Rightarrow> bool" where
  "diff_at it \<longleftrightarrow> consider_left it \<le> index_x it \<and> index_x it \<le> consider_right it \<and> 0 \<le> index_y it \<and> index_y it \<le> consider_bottom it"

definition diff_ok :: "DifferenceIterator \<Rightarrow> bool" where
  "diff_ok it \<longleftrightarrow> (it_valid it \<longrightarrow> diff_bounds it \<and> diff_at it \<and> \<not> in_ignore_rect it)"

lemma skip_ignored_rest:
  assumes "diff_bounds it" "consider_left it \<le> index_x it"
  shows "\<exists>x. skip_ignored it = Some (it\<lparr>index_x := x\<rparr>) \<and> consider_left it \<le> x \<and> \<not> in_ignore_rect (it\<lparr>index_x := x\<rparr>) \<and>
    diff_rest (it\<lparr>index_x := x\<rparr>) = diff_rest it"
proof (cases "in_ignore_rect it")
  case True
  then have "index_x it \<le> ignore_right it" "\<And>i. index_x it \<le> i \<Longrightarrow> i \<le> ignore_right it \<Longrightarrow> ignored it (i, index_y it)"
    by (auto simp: in_ignore_rect_def ignored_def)
  then have "diff_rest it = diff_rest (it\<lparr>index_x := ignore_right it + 1\<rparr>)"
    using assms(1) skip_in_row[of "index_x it" "ignore_right it" "consider_right it" "\<lambda>p. \<not> ignored it p" "index_y it"]
    by (simp add: diff_rest_def diff_bounds_def ignored_def)
  with True assms show ?thesis
    by (auto simp: skip_ignored_def diff_bounds_def in_ignore_rect_def)
next
  case False
  then show ?thesis
    using assms(2) by (auto simp: skip_ignored_def intro!: exI[of _ "index_x it"])
qed

lemma diff_row_end:
  assumes "diff_bounds it" "index_x it = consider_left it" "\<not> in_ignore_rect it" "0 \<le> index_y it"
  defines "it' \<equiv> if consider_bottom it < index_y it then it_done it else it"
  shows "diff_ok it' \<and> diff_todo it' = filter (\<lambda>p. \<not> ignored it p) (tile_list (consider_left it) (consider_right it) (index_y it) (consider_bottom it))"
  using assms
  by (auto simp: it'_def diff_ok_def diff_bounds_def diff_todo_def diff_rest_def diff_at_def tiles_rows it_valid_def it_done_def)

lemma Difference_next_row_rest:
  assumes b: "diff_bounds it" and x: "consider_right it < index_x it" and y: "0 \<le> index_y it" "index_y it \<le> consider_bottom it"
  shows "\<exists>it'. Difference_next_row it = Some it' \<and> diff_ok it' \<and> diff_todo it' = diff_rest it"
proof -
  define it1 where "it1 = it\<lparr>index_x := consider_left it, index_y := index_y it + 1\<rparr>"
  have y1: "int32 (index_y it + 1) = Some (index_y it + 1)" and b1: "diff_bounds it1"
    using b y by (simp_all add: diff_bounds_def it1_def)
  have rest: "diff_rest it = filter (\<lambda>p. \<not> ignored it1 p) (tile_list (consider_left it1) (consider_right it1) (index_y it1) (consider_bottom it1))"
    using x by (simp add: diff_rest_def tiles_from_row it1_def ignored_def)
  consider (out) "\<not> in_ignore_rect it1" | (part) "in_ignore_rect it1" "ignore_right it1 < consider_right it1"
    | (whole) "in_ignore_rect it1" "ignore_right it1 = consider_right it1"
    using b1 by (force simp: diff_bounds_def)
  then show ?thesis
  proof cases
    case out
    then have "Difference_next_row it = Some (if consider_bottom it1 < index_y it1 then it_done it1 else it1)"
      by (simp add: Difference_next_row_def y1 Let_def it1_def)
    then show ?thesis
      using diff_row_end[OF b1 _ out] rest y by (simp add: it1_def)
  next
    case part
    let ?it = "it1\<lparr>index_x := ignore_right it1 + 1\<rparr>"
    have "index_y it1 \<le> consider_bottom it1" "\<not> in_ignore_rect ?it" "int32 (ignore_right it + 1) = Some (ignore_right it + 1)"
      using part b1 by (auto simp: in_ignore_rect_def diff_bounds_def it1_def)
    moreover from this have "Difference_next_row it = Some ?it"
      using part by (simp add: Difference_next_row_def y1 it1_def)
    moreover have "diff_rest ?it = diff_rest it1"
      using skip_ignored_rest[OF b1] part(1) by (auto simp: skip_ignored_def it1_def bind_eq_Some_conv int32_def split: if_splits)
    ultimately show ?thesis
      using part b1 y rest
      by (auto simp: diff_ok_def diff_at_def diff_todo_def it_valid_def diff_bounds_def tiles_rows diff_rest_def it1_def in_ignore_rect_def)
  next
    case whole
    let ?it = "it1\<lparr>index_y := ignore_bottom it1 + 1\<rparr>"
    have ib: "int32 (ignore_right it + 1) = Some (ignore_right it + 1)" "int32 (ignore_bottom it + 1) = Some (ignore_bottom it + 1)"
        "\<not> in_ignore_rect ?it" "diff_bounds ?it"
      using b1 by (simp_all add: diff_bounds_def it1_def in_ignore_rect_def)
    moreover from this have "Difference_next_row it = Some (if consider_bottom it1 < index_y ?it then it_done ?it else ?it)"
      using whole by (simp add: Difference_next_row_def y1 it1_def it_done_def)
    moreover have "diff_rest it = filter (\<lambda>p. \<not> ignored it1 p) (tile_list (consider_left it1) (consider_right it1) (ignore_bottom it1 + 1) (consider_bottom it1))"
      unfolding rest by (rule skip_rows) (use whole b1 in \<open>auto simp: in_ignore_rect_def ignored_def diff_bounds_def it1_def\<close>)
    ultimately show ?thesis
      using diff_row_end[of ?it] whole y by (simp add: it1_def in_ignore_rect_def ignored_def)
  qed
qed

lemma Difference_next_rest:
  assumes "diff_bounds it" "diff_at it"
  shows "\<exists>it'. Difference_next it = Some it' \<and> diff_ok it' \<and> diff_todo it' = diff_rest (it\<lparr>index_x := index_x it + 1\<rparr>)"
proof -
  have "it_valid it" "int32 (index_x it + 1) = Some (index_x it + 1)"
    using assms by (simp_all add: it_valid_def diff_bounds_def diff_at_def)
  moreover obtain x where x: "skip_ignored (it\<lparr>index_x := index_x it + 1\<rparr>) = Some (it\<lparr>index_x := x\<rparr>)" "consider_left it \<le> x"
      "\<not> in_ignore_rect (it\<lparr>index_x := x\<rparr>)" "diff_rest (it\<lparr>index_x := x\<rparr>) = diff_rest (it\<lparr>index_x := index_x it + 1\<rparr>)"
    using skip_ignored_rest[of "it\<lparr>index_x := index_x it + 1\<rparr>"] assms by (auto simp: diff_bounds_def diff_at_def)
  ultimately show ?thesis
    using assms Difference_next_row_rest[of "it\<lparr>index_x := x\<rparr>"]
    by (auto simp: Difference_next_def diff_ok_def diff_bounds_def diff_at_def diff_todo_def it_valid_def)
qed

interpretation difference: tile_cursor diff_ok it_valid Difference_next it_index diff_todo
proof
  fix it assume "diff_ok it" "it_valid it"
  moreover from this have "diff_todo it = it_index it # diff_rest (it\<lparr>index_x := index_x it + 1\<rparr>)"
    by (simp add: diff_ok_def diff_todo_def diff_rest_def diff_at_def tiles_from_Cons it_index_def ignored_def in_ignore_rect_def)
  ultimately show "\<exists>it'. Difference_next it = Some it' \<and> diff_ok it' \<and> diff_todo it = it_index it # diff_todo it'"
    using Difference_next_rest[of it] by (auto simp: diff_ok_def)
qed (simp add: diff_todo_def)

subsection \<open>The tiles that a rectangle touches\<close>

text \<open>
  A rectangle touches a tile if it has pixels in common with the bounds of the tile with its borders. The tiles touched by a rectangle inside
  the layer are those between the indices that \<open>border_tiles\<close> computes.
\<close>

definition touches :: "TilingData \<Rightarrow> Rect \<Rightarrow> int \<times> int \<Rightarrow> bool" where
  "touches td rect p = (case TileBoundsWithBorder td (fst p) (snd p) of None \<Rightarrow> False | Some r \<Rightarrow> Intersects rect r = Some True)"

definition all_tiles :: "TilingData \<Rightarrow> (int \<times> int) list" where
  "all_tiles td = tile_list 0 (num_tiles_x td - 1) 0 (num_tiles_y td - 1)"

lemma filter_upto:
  assumes "0 \<le> l" "l \<le> r" "r < n"
  shows "filter (\<lambda>i. l \<le> i \<and> i \<le> r) [0..n - 1] = [l..r]"
proof -
  have "[0..n - 1] = [0..l - 1] @ [l..r] @ [r + 1..n - 1]"
    using assms upto_split1[of 0 l "n - 1"] upto_split2[of l r "n - 1"] by simp
  moreover have "filter (\<lambda>i. l \<le> i \<and> i \<le> r) [0..l - 1] = []" "filter (\<lambda>i. l \<le> i \<and> i \<le> r) [r + 1..n - 1] = []"
      "filter (\<lambda>i. l \<le> i \<and> i \<le> r) [l..r] = [l..r]"
    by (auto simp: filter_empty_conv filter_id_conv)
  ultimately show ?thesis
    by simp
qed

lemma concat_map_if: "concat (map (\<lambda>x. if Q x then f x else []) xs) = concat (map f (filter Q xs))"
  by (induction xs) simp_all

lemma filter_tiles:
  assumes "0 \<le> l" "l \<le> r" "r < n" "0 \<le> t" "t \<le> b" "b < n'"
    and P: "\<And>i j. 0 \<le> i \<Longrightarrow> i < n \<Longrightarrow> 0 \<le> j \<Longrightarrow> j < n' \<Longrightarrow> P (i, j) \<longleftrightarrow> (l \<le> i \<and> i \<le> r) \<and> t \<le> j \<and> j \<le> b"
  shows "filter P (tile_list 0 (n - 1) 0 (n' - 1)) = tile_list l r t b"
proof -
  have row: "filter P (map (\<lambda>i. (i, j)) [0..n - 1]) = (if t \<le> j \<and> j \<le> b then map (\<lambda>i. (i, j)) [l..r] else [])" if "j \<in> set [0..n' - 1]" for j
  proof -
    have "filter (P \<circ> (\<lambda>i. (i, j))) [0..n - 1] = filter (\<lambda>i. (l \<le> i \<and> i \<le> r) \<and> t \<le> j \<and> j \<le> b) [0..n - 1]"
      using that by (intro filter_cong) (auto simp: P)
    then show ?thesis
      using filter_upto[OF assms(1-3)] by (simp add: filter_map)
  qed
  have "filter P (tile_list 0 (n - 1) 0 (n' - 1)) = concat (map (\<lambda>j. if t \<le> j \<and> j \<le> b then map (\<lambda>i. (i, j)) [l..r] else []) [0..n' - 1])"
    unfolding tile_list_def filter_concat map_map by (intro arg_cong[of _ _ concat] map_cong refl) (simp add: row)
  also have "\<dots> = concat (map (\<lambda>j. map (\<lambda>i. (i, j)) [l..r]) (filter (\<lambda>j. t \<le> j \<and> j \<le> b) [0..n' - 1]))"
    by (rule concat_map_if)
  finally show ?thesis
    by (simp add: tile_list_def filter_upto[OF assms(4-6)])
qed

lemma ico_meet: "p < e \<Longrightarrow> a < c \<Longrightarrow> {p..<e} \<inter> {a..<c} \<noteq> {} \<longleftrightarrow> p < c \<and> a \<le> e - (1 :: int)"
  by (simp add: inter_ico) linarith

lemma border_range:
  assumes "axis_ok n m t b" "0 < n" "0 \<le> p" "p < e" "e \<le> t"
  obtains f l where "first_border_tile_index n m b p = Some f" "last_border_tile_index n m b (e - 1) = Some l" "0 \<le> f" "f \<le> l" "l < n"
    "\<And>i. 0 \<le> i \<Longrightarrow> i < n \<Longrightarrow> {p..<e} \<inter> {border_lo m b i..<border_hi m t b i} \<noteq> {} \<longleftrightarrow> f \<le> i \<and> i \<le> l"
proof -
  have p: "p < t" "0 \<le> e - 1" "e - 1 < t" using assms by simp_all
  obtain f where f: "first_border_tile_index n m b p = Some f" "0 \<le> f"
      "\<And>i. 0 \<le> i \<Longrightarrow> i < n \<Longrightarrow> f \<le> i \<longleftrightarrow> p < border_hi m t b i"
    using border_tile_index[OF assms(1-3) p(1)] by metis
  obtain l where l: "last_border_tile_index n m b (e - 1) = Some l" "l < n"
      "\<And>i. 0 \<le> i \<Longrightarrow> i < n \<Longrightarrow> i \<le> l \<longleftrightarrow> border_lo m b i \<le> e - 1"
    using border_tile_index[OF assms(1,2) p(2,3)] by metis
  obtain k where k: "0 \<le> k" "k < n" "tile_lo m b k \<le> p" "p < tile_hi n m t b k"
    using tile_index_value[OF assms(1-3) p(1)] by metis
  then have "f \<le> k" "k \<le> l"
    using f(3) l(3) tile_bounds_with_border_value[OF assms(1) k(1,2)] assms(4) by (auto intro: order.trans)
  moreover have "{p..<e} \<inter> {border_lo m b i..<border_hi m t b i} \<noteq> {} \<longleftrightarrow> f \<le> i \<and> i \<le> l" if "0 \<le> i" "i < n" for i
  proof -
    have "border_lo m b i < border_hi m t b i"
      using tile_bounds_with_border_value[OF assms(1) that] tile_bounds_value[OF assms(1) that] by linarith
    then show ?thesis
      unfolding f(3)[OF that] l(3)[OF that] by (rule ico_meet[OF assms(4)])
  qed
  ultimately show thesis
    using that[of f l] f(1,2) l(1,2) by simp
qed

lemma touches_iff:
  assumes "td_ok td" "AssertTile td i j" "proper rect"
  shows "touches td rect (i, j) \<longleftrightarrow> pixels rect \<inter>
    ({border_lo (max_width td) (border_texels td) i..<border_hi (max_width td) (total_width td) (border_texels td) i} \<times>
     {border_lo (max_height td) (border_texels td) j..<border_hi (max_height td) (total_height td) (border_texels td) j}) \<noteq> {}"
  using assms by (simp add: touches_def TileBoundsWithBorder_value Intersects_exact Int_commute)

lemma Times_ne: "A \<times> B \<noteq> {} \<longleftrightarrow> A \<noteq> {} \<and> B \<noteq> {}"
  by auto

lemma border_tiles_value:
  assumes "td_ok td" "0 < num_tiles_x td" "0 < num_tiles_y td"
    and r: "proper r" "\<not> Rect_IsEmpty r" "pixels r \<subseteq> pixels (Rect_of_size (total_size td))"
  obtains cl ct cr cb where "border_tiles td r = Some (cl, ct, cr, cb)" "0 \<le> cl" "cl \<le> cr" "cr < num_tiles_x td" "0 \<le> ct" "ct \<le> cb"
    "cb < num_tiles_y td" "\<And>i j. AssertTile td i j \<Longrightarrow> touches td r (i, j) \<longleftrightarrow> (cl \<le> i \<and> i \<le> cr) \<and> ct \<le> j \<and> j \<le> cb"
proof -
  have in': "0 \<le> rect_x r" "rect_x r < rect_x r + rect_width r" "rect_x r + rect_width r \<le> total_width td"
      "0 \<le> rect_y r" "rect_y r < rect_y r + rect_height r" "rect_y r + rect_height r \<le> total_height td"
    using r by (auto simp: pixels_of_size pixels_prod[of r] times_subset_iff IsEmpty_iff)
  have x: "axis_ok (num_tiles_x td) (max_width td) (total_width td) (border_texels td)"
    and y: "axis_ok (num_tiles_y td) (max_height td) (total_height td) (border_texels td)"
    using assms(1) by (simp_all add: td_ok_def)
  obtain cl cr where xr: "FirstBorderTileXIndexFromSrcCoord td (rect_x r) = Some cl"
      "LastBorderTileXIndexFromSrcCoord td (rect_x r + rect_width r - 1) = Some cr" "0 \<le> cl" "cl \<le> cr" "cr < num_tiles_x td"
      "\<And>i. 0 \<le> i \<Longrightarrow> i < num_tiles_x td \<Longrightarrow> {rect_x r..<rect_x r + rect_width r} \<inter>
        {border_lo (max_width td) (border_texels td) i..<border_hi (max_width td) (total_width td) (border_texels td) i} \<noteq> {} \<longleftrightarrow> cl \<le> i \<and> i \<le> cr"
    by (rule border_range[OF x assms(2) in'(1-3)]) (auto simp: FirstBorderTileXIndexFromSrcCoord_def LastBorderTileXIndexFromSrcCoord_def)
  obtain ct cb where yr: "FirstBorderTileYIndexFromSrcCoord td (rect_y r) = Some ct"
      "LastBorderTileYIndexFromSrcCoord td (rect_y r + rect_height r - 1) = Some cb" "0 \<le> ct" "ct \<le> cb" "cb < num_tiles_y td"
      "\<And>j. 0 \<le> j \<Longrightarrow> j < num_tiles_y td \<Longrightarrow> {rect_y r..<rect_y r + rect_height r} \<inter>
        {border_lo (max_height td) (border_texels td) j..<border_hi (max_height td) (total_height td) (border_texels td) j} \<noteq> {} \<longleftrightarrow> ct \<le> j \<and> j \<le> cb"
    by (rule border_range[OF y assms(3) in'(4-6)]) (auto simp: FirstBorderTileYIndexFromSrcCoord_def LastBorderTileYIndexFromSrcCoord_def)
  have "border_tiles td r = Some (cl, ct, cr, cb)"
    using xr(1,2) yr(1,2) in' axis_sizesD[OF x] axis_sizesD[OF y] r(1) by (simp add: border_tiles_def)
  moreover have "touches td r (i, j) \<longleftrightarrow> (cl \<le> i \<and> i \<le> cr) \<and> ct \<le> j \<and> j \<le> cb" if "AssertTile td i j" for i j
    using xr(6)[of i] yr(6)[of j] that
    unfolding touches_iff[OF assms(1) that r(1)] pixels_prod Times_Int_Times Times_ne by (auto simp: AssertTile_def)
  ultimately show thesis
    using that xr(3-5) yr(3-5) by blast
qed

lemma touches_inside:
  assumes "td_ok td" "proper rect" "proper r" "pixels r = pixels rect \<inter> pixels (Rect_of_size (total_size td))" "AssertTile td i j"
  shows "touches td r (i, j) = touches td rect (i, j)"
proof -
  have "axis_ok (num_tiles_x td) (max_width td) (total_width td) (border_texels td)" "0 \<le> i" "i < num_tiles_x td"
    and "axis_ok (num_tiles_y td) (max_height td) (total_height td) (border_texels td)" "0 \<le> j" "j < num_tiles_y td"
    using assms(1,5) by (simp_all add: td_ok_def AssertTile_def)
  note tile_bounds_with_border_value[OF this(1-3)] tile_bounds_with_border_value[OF this(4-6)]
  then have "{border_lo (max_width td) (border_texels td) i..<border_hi (max_width td) (total_width td) (border_texels td) i} \<times>
      {border_lo (max_height td) (border_texels td) j..<border_hi (max_height td) (total_height td) (border_texels td) j} \<subseteq>
      pixels (Rect_of_size (total_size td))"
    unfolding pixels_of_size by (intro Sigma_mono) auto
  then show ?thesis
    unfolding touches_iff[OF assms(1,5,3)] touches_iff[OF assms(1,5,2)] assms(4) by blast
qed

lemma filter_touches_inside:
  assumes "td_ok td" "proper rect" "proper r" "pixels r = pixels rect \<inter> pixels (Rect_of_size (total_size td))"
  shows "p \<in> set (all_tiles td) \<Longrightarrow> touches td rect p \<longleftrightarrow> touches td r p"
  using touches_inside[OF assms, of "fst p" "snd p"] by (auto simp: all_tiles_def AssertTile_def)

lemma touches_empty: "pixels r = {} \<Longrightarrow> td_ok td \<Longrightarrow> proper r \<Longrightarrow> p \<in> set (all_tiles td) \<Longrightarrow> \<not> touches td r p"
  using touches_iff[of td "fst p" "snd p" r] by (auto simp: all_tiles_def AssertTile_def)

lemma total_proper: "td_ok td \<Longrightarrow> proper (Rect_of_size (total_size td))"
  by (intro proper_of_size) (auto simp: td_ok_def axis_ok_def axis_sizes_def)

lemma all_tiles_none: "num_tiles_x td \<le> 0 \<or> num_tiles_y td \<le> 0 \<Longrightarrow> all_tiles td = []"
  by (auto simp: all_tiles_def tile_list_def)

lemma border_index_origin:
  assumes "axis_ok n m t b" "0 < n"
  obtains f where "first_border_tile_index n m b 0 = Some f" "0 \<le> f" "f < n" "\<exists>l. last_border_tile_index n m b (- 1) = Some l"
  using assms
proof (cases rule: axis_cases)
  case one
  then show thesis
    using that[of 0] by (simp add: first_border_tile_index_def last_border_tile_index_def)
next
  case many
  have "0 < t"
    using many mult_nonneg_nonneg[of "m - 2 * b" "n - 1"] axis_sizesD[OF assms(1)] by linarith
  then obtain f where "first_border_tile_index n m b 0 = Some f" "0 \<le> f" "f < n"
    by (rule border_tile_index[OF assms order.refl])
  moreover have "\<exists>l. last_border_tile_index n m b (- 1) = Some l"
    using many c_div_value[of "- 1" "m - 2 * b"] axis_sizesD[OF assms(1)] by (simp add: last_border_tile_index_def inner_size_def)
  ultimately show thesis
    using that by blast
qed

lemma num_tiles_le:
  assumes "axis_ok n m t b"
  shows "n \<le> 2147483647"
proof (cases "0 < n")
  case True
  then have "0 \<le> n - 1" "n - 1 < n" by simp_all
  with assms show ?thesis
  proof (cases rule: tile_cases)
    case (many s k)
    then show ?thesis
      using axis_sizesD[OF assms] by simp
  qed simp
qed simp

lemma border_tiles_origin:
  assumes "td_ok td" "0 < num_tiles_x td" "0 < num_tiles_y td"
  obtains l t r b where "border_tiles td (SetRect 0 0 0 0) = Some (l, t, r, b)" "AssertTile td l t"
proof -
  have x: "axis_ok (num_tiles_x td) (max_width td) (total_width td) (border_texels td)"
    and y: "axis_ok (num_tiles_y td) (max_height td) (total_height td) (border_texels td)"
    using assms(1) by (simp_all add: td_ok_def)
  show thesis
    by (rule border_index_origin[OF x assms(2)], rule border_index_origin[OF y assms(3)])
      (use that in \<open>auto simp: border_tiles_def SetRect_def Size_new_def rect_right_def rect_bottom_def AssertTile_def
         FirstBorderTileXIndexFromSrcCoord_def FirstBorderTileYIndexFromSrcCoord_def
         LastBorderTileXIndexFromSrcCoord_def LastBorderTileYIndexFromSrcCoord_def\<close>)
qed

lemma Iterator_new_ok:
  assumes "td_ok td" "proper rect"
  shows "\<exists>it. Iterator_new td rect = Some it \<and> it_ok it \<and> it_todo it = filter (touches td rect) (all_tiles td)"
proof (cases "num_tiles_x td \<le> 0 \<or> num_tiles_y td \<le> 0")
  case True
  then show ?thesis
    by (auto simp: Iterator_new_def it_ok_def it_todo_def all_tiles_none)
next
  case False
  then have n: "0 < num_tiles_x td" "0 < num_tiles_y td" by simp_all
  obtain r where r: "Intersect (Rect_of_size (total_size td)) rect = Some r" "proper r"
      "pixels r = pixels rect \<inter> pixels (Rect_of_size (total_size td))"
    using Intersect_exact[OF assms(2) total_proper[OF assms(1)]] by blast
  have touch: "filter (touches td rect) (all_tiles td) = filter (touches td r) (all_tiles td)"
    by (intro filter_cong refl filter_touches_inside[OF assms r(2,3)])
  show ?thesis
  proof (cases "pixels r = {}")
    case True
    then have "r = SetRect 0 0 0 0"
      using Intersect_disjoint[OF assms(2) total_proper[OF assms(1)]] r by simp
    then obtain l t e b where "border_tiles td r = Some (l, t, e, b)" "AssertTile td l t"
      using border_tiles_origin[OF assms(1) n] by metis
    then have "\<exists>it. Iterator_new td rect = Some (it_done it)"
      using False r(1,2) True by (auto simp: Iterator_new_def TileBoundsWithBorder_value[OF assms(1)] Intersects_exact)
    then show ?thesis
      using touches_empty[OF True assms(1) r(2)] unfolding touch by (auto simp: it_ok_def it_todo_def filter_empty_conv)
  next
    case ne: False
    then have in': "\<not> Rect_IsEmpty r" "pixels r \<subseteq> pixels (Rect_of_size (total_size td))"
      using pixels_empty[OF r(2)] r(3) by auto
    obtain cl ct cr cb where c: "border_tiles td r = Some (cl, ct, cr, cb)" "0 \<le> cl" "cl \<le> cr" "cr < num_tiles_x td"
        "0 \<le> ct" "ct \<le> cb" "cb < num_tiles_y td" 
        and t: "\<And>i j. AssertTile td i j \<Longrightarrow> touches td r (i, j) \<longleftrightarrow> (cl \<le> i \<and> i \<le> cr) \<and> ct \<le> j \<and> j \<le> cb"
      by (rule border_tiles_value[OF assms(1) n r(2) in']) (rule that; assumption)
    let ?it = "\<lparr>index_x = cl, index_y = ct, it_left = cl, it_right = cr, it_bottom = cb\<rparr>"
    have "AssertTile td cl ct" "touches td r (cl, ct)"
      using c t by (simp_all add: AssertTile_def)
    then have "Iterator_new td rect = Some ?it"
      using False r(1) c(1) by (simp add: Iterator_new_def TileBoundsWithBorder_value[OF assms(1)] touches_def)
    moreover have "filter (touches td r) (all_tiles td) = tile_list cl cr ct cb"
      unfolding all_tiles_def by (rule filter_tiles) (use c t in \<open>auto simp: AssertTile_def\<close>)
    moreover have "it_ok ?it"
      using c assms(1) by (auto simp: it_ok_def td_ok_def dest: num_tiles_le)
    ultimately show ?thesis
      using c touch by (simp add: it_todo_def it_valid_def tiles_rows)
  qed
qed

lemma Difference_start_ok:
  assumes b: "diff_bounds it" and t: "0 \<le> consider_top it" "consider_top it \<le> consider_bottom it"
  shows "\<exists>it'. Difference_start it = Some it' \<and> diff_ok it' \<and>
    diff_todo it' = filter (\<lambda>p. \<not> ignored it p) (tile_list (consider_left it) (consider_right it) (consider_top it) (consider_bottom it))"
proof -
  let ?it = "it\<lparr>index_x := consider_left it, index_y := consider_top it\<rparr>"
  have at: "diff_bounds ?it" "diff_at ?it" "it_valid ?it"
    using b t by (simp_all add: diff_bounds_def diff_at_def it_valid_def)
  have rest: "filter (\<lambda>p. \<not> ignored it p) (tile_list (consider_left it) (consider_right it) (consider_top it) (consider_bottom it)) = diff_rest ?it"
    using t by (simp add: tiles_rows diff_rest_def ignored_def)
  consider (all) "ignore_left it = consider_left it \<and> ignore_right it = consider_right it \<and>
         ignore_top it = consider_top it \<and> ignore_bottom it = consider_bottom it"
    | (first) "\<not> (ignore_left it = consider_left it \<and> ignore_right it = consider_right it \<and>
         ignore_top it = consider_top it \<and> ignore_bottom it = consider_bottom it)" "in_ignore_rect ?it"
    | (out) "\<not> in_ignore_rect ?it"
    by blast
  then show ?thesis
  proof cases
    case all
    then show ?thesis
      using b by (auto simp: Difference_start_def diff_ok_def diff_bounds_def diff_todo_def filter_empty_conv ignored_def it_done_def it_valid_def)
  next
    case first
    then have "diff_rest ?it = diff_rest (?it\<lparr>index_x := index_x ?it + 1\<rparr>)"
      using b by (simp add: diff_rest_def tiles_from_Cons ignored_def in_ignore_rect_def diff_bounds_def)
    moreover have "Difference_start it = Difference_next ?it"
      using first by (auto simp: Difference_start_def Let_def)
    ultimately show ?thesis
      using Difference_next_rest[OF at(1,2)] unfolding rest by simp
  next
    case out
    moreover from this have "Difference_start it = Some ?it"
      using at by (auto simp: Difference_start_def in_ignore_rect_def diff_at_def)
    ultimately show ?thesis
      using at unfolding rest by (simp add: diff_ok_def diff_todo_def)
  qed
qed

text \<open>The ignored indices of a new iterator are those of the tiles that the second rectangle touches.\<close>

lemma ignore_tiles:
  assumes "td_ok td" "0 < num_tiles_x td" "0 < num_tiles_y td" "diff_bounds it" "0 \<le> consider_top it"
    "consider_right it < num_tiles_x td" "consider_bottom it < num_tiles_y td"
    and none: "ignore_left it = - 1" "ignore_top it = - 1" "ignore_right it = - 1" "ignore_bottom it = - 1"
    and r: "proper r" "pixels r \<subseteq> pixels (Rect_of_size (total_size td))"
  shows "\<exists>it'. Difference_ignore td r it = Some it' \<and> diff_bounds it' \<and> consider_left it' = consider_left it \<and> consider_top it' = consider_top it \<and>
      consider_right it' = consider_right it \<and> consider_bottom it' = consider_bottom it \<and>
      (\<forall>i j. consider_left it \<le> i \<and> i \<le> consider_right it \<and> consider_top it \<le> j \<and> j \<le> consider_bottom it \<longrightarrow>
        (ignored it' (i, j) \<longleftrightarrow> touches td r (i, j)))"
proof (cases "Rect_IsEmpty r")
  case True
  moreover have "\<not> touches td r (i, j)" if "AssertTile td i j" for i j
    using True pixels_empty[OF r(1)] touches_iff[OF assms(1) that r(1)] by simp
  ultimately show ?thesis
    using assms by (auto simp: Difference_ignore_def ignored_def AssertTile_def diff_bounds_def)
next
  case False
  obtain l t e b where c: "border_tiles td r = Some (l, t, e, b)" "0 \<le> l" "l \<le> e" "e < num_tiles_x td" "0 \<le> t" "t \<le> b" "b < num_tiles_y td"
        and t: "\<And>i j. AssertTile td i j \<Longrightarrow> touches td r (i, j) \<longleftrightarrow> (l \<le> i \<and> i \<le> e) \<and> t \<le> j \<and> j \<le> b"
    by (rule border_tiles_value[OF assms(1-3) r(1) False r(2)]) (rule that; assumption)
  then show ?thesis
    using assms(4-7) False by (auto simp: Difference_ignore_def ignored_def AssertTile_def diff_bounds_def)
qed

lemma DifferenceIterator_new_ok:
  assumes "td_ok td" "proper consider_rect" "proper ignore_rect"
  shows "\<exists>it. DifferenceIterator_new td consider_rect ignore_rect = Some it \<and> diff_ok it \<and>
    diff_todo it = filter (\<lambda>p. touches td consider_rect p \<and> \<not> touches td ignore_rect p) (all_tiles td)"
proof (cases "num_tiles_x td \<le> 0 \<or> num_tiles_y td \<le> 0")
  case True
  then show ?thesis
    by (auto simp: DifferenceIterator_new_def diff_ok_def diff_todo_def diff_bounds_def it_done_def it_valid_def all_tiles_none)
next
  case False
  then have n: "0 < num_tiles_x td" "0 < num_tiles_y td" by simp_all
  obtain c where c: "Intersect (Rect_of_size (total_size td)) consider_rect = Some c" "proper c"
      "pixels c = pixels consider_rect \<inter> pixels (Rect_of_size (total_size td))"
    using Intersect_exact[OF assms(2) total_proper[OF assms(1)]] by blast
  obtain g where g: "Intersect (Rect_of_size (total_size td)) ignore_rect = Some g" "proper g"
      "pixels g = pixels ignore_rect \<inter> pixels (Rect_of_size (total_size td))"
    using Intersect_exact[OF assms(3) total_proper[OF assms(1)]] by blast
  have touch: "filter (\<lambda>p. touches td consider_rect p \<and> \<not> touches td ignore_rect p) (all_tiles td) =
      filter (\<lambda>p. \<not> touches td g p) (filter (touches td c) (all_tiles td))"
    using filter_touches_inside[OF assms(1,2) c(2,3)] filter_touches_inside[OF assms(1,3) g(2,3)] by (auto intro: filter_cong)
  show ?thesis
  proof (cases "Rect_IsEmpty c")
    case True
    then have "filter (touches td c) (all_tiles td) = []"
      using touches_empty[OF _ assms(1) c(2)] pixels_empty[OF c(2)] by (simp add: filter_empty_conv)
    then show ?thesis
      using True False c(1) g(1) unfolding touch
      by (auto simp: DifferenceIterator_new_def diff_ok_def diff_todo_def diff_bounds_def it_done_def it_valid_def)
  next
    case ne: False
    have "pixels c \<subseteq> pixels (Rect_of_size (total_size td))" "pixels g \<subseteq> pixels (Rect_of_size (total_size td))"
      using c(3) g(3) by auto
    note sub = this
    obtain cl ct cr cb where k: "border_tiles td c = Some (cl, ct, cr, cb)" "0 \<le> cl" "cl \<le> cr" "cr < num_tiles_x td"
        "0 \<le> ct" "ct \<le> cb" "cb < num_tiles_y td" 
        and t: "\<And>i j. AssertTile td i j \<Longrightarrow> touches td c (i, j) \<longleftrightarrow> (cl \<le> i \<and> i \<le> cr) \<and> ct \<le> j \<and> j \<le> cb"
      by (rule border_tiles_value[OF assms(1) n c(2) ne sub(1)]) (rule that; assumption)
    have all: "filter (touches td c) (all_tiles td) = tile_list cl cr ct cb"
      unfolding all_tiles_def by (rule filter_tiles) (use k t in \<open>auto simp: AssertTile_def\<close>)
    define it0 where "it0 = \<lparr>index_x = - 1, index_y = - 1, consider_left = cl, consider_top = ct, consider_right = cr, consider_bottom = cb,
       ignore_left = - 1, ignore_top = - 1, ignore_right = - 1, ignore_bottom = - 1\<rparr>"
    have "diff_bounds it0"
      using k assms(1) by (auto simp: it0_def diff_bounds_def td_ok_def dest: num_tiles_le)
    then have "\<exists>it. Difference_ignore td g it0 = Some it \<and> diff_bounds it \<and> consider_left it = consider_left it0 \<and>
      consider_top it = consider_top it0 \<and> consider_right it = consider_right it0 \<and> consider_bottom it = consider_bottom it0 \<and>
      (\<forall>i j. consider_left it0 \<le> i \<and> i \<le> consider_right it0 \<and> consider_top it0 \<le> j \<and> j \<le> consider_bottom it0 \<longrightarrow>
        (ignored it (i, j) \<longleftrightarrow> touches td g (i, j)))"
      by (rule ignore_tiles[OF assms(1) n _ _ _ _ _ _ _ _ g(2) sub(2)]) (use k in \<open>simp_all add: it0_def\<close>)
    then obtain it where it: "Difference_ignore td g it0 = Some it" "diff_bounds it" "consider_left it = cl" "consider_top it = ct"
        "consider_right it = cr" "consider_bottom it = cb"
        "\<forall>i j. cl \<le> i \<and> i \<le> cr \<and> ct \<le> j \<and> j \<le> cb \<longrightarrow> (ignored it (i, j) \<longleftrightarrow> touches td g (i, j))"
      by (auto simp: it0_def)
    have "DifferenceIterator_new td consider_rect ignore_rect = Difference_start it"
      using it(1) False ne c(1) g(1) k(1) by (simp add: DifferenceIterator_new_def it0_def)
    moreover have "filter (\<lambda>p. \<not> ignored it p) (tile_list cl cr ct cb) = filter (\<lambda>p. \<not> touches td g p) (tile_list cl cr ct cb)"
      using it(7) by (intro filter_cong) auto
    ultimately show ?thesis
      using Difference_start_ok[OF it(2)] it(3-6) k unfolding touch all by auto
  qed
qed

text \<open>
  C23. What the iterators visit. For every rectangle whose edges fit into an \<open>int\<close>, a loop over \<open>Iterator\<close> ends and visits exactly the tiles whose bounds
  with borders have a pixel in common with the rectangle, each once and row by row; a loop over \<open>DifferenceIterator\<close> ends and visits exactly the
  tiles that the first rectangle touches and the second does not, in the same order. As many steps as the layer has tiles are enough.
\<close>

theorem tiling_iterators_visit:
  assumes "td_ok td" "proper rect" "proper ignore" "length (all_tiles td) < fuel"
  shows "(\<exists>it. Iterator_new td rect = Some it \<and>
      for_each it_valid Iterator_next it_index fuel it = Some (filter (touches td rect) (all_tiles td))) \<and>
    (\<exists>it. DifferenceIterator_new td rect ignore = Some it \<and>
      for_each it_valid Difference_next it_index fuel it =
        Some (filter (\<lambda>p. touches td rect p \<and> \<not> touches td ignore p) (all_tiles td)))"
proof
  obtain it where "Iterator_new td rect = Some it" "it_ok it" "it_todo it = filter (touches td rect) (all_tiles td)"
    using Iterator_new_ok[OF assms(1,2)] by blast
  moreover have "length (filter (touches td rect) (all_tiles td)) < fuel"
    using assms(4) by (rule le_less_trans[OF length_filter_le])
  ultimately show "\<exists>it. Iterator_new td rect = Some it \<and>
      for_each it_valid Iterator_next it_index fuel it = Some (filter (touches td rect) (all_tiles td))"
    using iterator.visits[of it fuel] by simp
next
  let ?f = "filter (\<lambda>p. touches td rect p \<and> \<not> touches td ignore p) (all_tiles td)"
  obtain it where "DifferenceIterator_new td rect ignore = Some it" "diff_ok it" "diff_todo it = ?f"
    using DifferenceIterator_new_ok[OF assms(1-3)] by blast
  moreover have "length ?f < fuel"
    using assms(4) by (rule le_less_trans[OF length_filter_le])
  ultimately show "\<exists>it. DifferenceIterator_new td rect ignore = Some it \<and>
      for_each it_valid Difference_next it_index fuel it = Some ?f"
    using difference.visits[of it fuel] by simp
qed

theorem tiling_iterators_visit_witness:
  "\<exists>it. DifferenceIterator_new sample_tiling (SetRect 3 3 20 8) (SetRect 0 0 9 5) = Some it \<and>
    for_each it_valid Difference_next it_index 7 it =
      Some (filter (\<lambda>p. touches sample_tiling (SetRect 3 3 20 8) p \<and> \<not> touches sample_tiling (SetRect 0 0 9 5) p) (all_tiles sample_tiling))"
proof -
  have "length (all_tiles sample_tiling) < 7"
    by (simp add: all_tiles_def tile_list_def sample_tiling_def upto_rec1)
  moreover have "proper (SetRect 3 3 20 8)" "proper (SetRect 0 0 9 5)"
    by (simp_all add: proper_def SetRect_def Size_new_def)
  ultimately show ?thesis
    using tiling_iterators_visit[OF sample_tiling_ok, of "SetRect 3 3 20 8" "SetRect 0 0 9 5" 7] by simp
qed

end
