(* ===== verification/Spec2Isabelle.thy ===== *)
theory Spec2Isabelle
  imports Prelude Gl_Enums Gles2_Cmd_Utils Error_State Buffer_Manager Vertex_Attribs Draw_Safety Vertex_Arrays Vertex_Array_Calls Token_Fence Shared_Memory Fenced_Allocator Ring_Buffer Cmd_Format Cmd_Parser
    Transfer_Buffer_Manager Command_Buffer_Service Common_Decoder Gpu_Scheduler Cmd_Buffer_Helper
    Mapped_Memory Transfer_Buffer Id_Allocator Ring_Chain In_Process Client_Commands Client_Session Client_Allocators
    Scheduler_State_Machine Scheduler_Invariants Frame_Swaps Cc_Scheduler Gfx_Rect Tiling_Data Tiling_Iterators
begin

text \<open>
  \<^bold>\<open>Chromium's GPU command buffer with the scheduler and the tiling of its compositor.\<close>

  The browser's renderers do not call the GPU driver. A client writes commands into a ring buffer in shared memory
  and a service in another thread or process executes them; the compositor decides when to draw. This
  development models the C++ code on both sides of the ring and the compositor's scheduler, and proves what makes them correct.

  \<^medskip>\<^bold>\<open>Conventions.\<close> \<open>int32\<close>, \<open>uint32\<close> and \<open>unsigned int\<close> are \<open>32 word\<close> (\<open>u32\<close>), \<open>size_t\<close> is \<open>64 word\<close> (\<open>u64\<close>): sums wrap
  around as they do in the code, and signed comparisons are comparisons of \<^const>\<open>sint\<close>. A failed \<open>DCHECK\<close> or \<open>CHECK\<close>, \<open>NOTREACHED\<close>,
  a null or wild pointer, a division by zero and a loop that does not end are the value \<^const>\<open>None\<close>; a function that cannot fail in
  one of these ways has no option type. Loops are \<open>fun\<close> or \<open>function\<close> with a measure; those whose end depends on the other side are
  \<open>partial_function (option)\<close>, and that they end is proved where it is claimed. No definition of the model uses fuel; the loop over an iterator
  in \<open>Tiling_Iterators\<close> does, and as many steps as there are tiles are proved enough. Virtual functions, callbacks, clocks
  and the answers of the operating system are arguments (records of functions). State is passed explicitly; each layer of the service
  extends the record of the layer below (\<open>Memory\<close>, \<open>CommandParser\<close>, \<open>TransferBufferManager\<close>, \<open>CommandBufferService\<close>,
  \<open>CommonDecoder\<close>, \<open>GpuScheduler\<close>), so that a callback can act on all of it, as it can in the code.

  \<^medskip>\<^bold>\<open>The theories, and the code under \<^verbatim>\<open>src/\<close> they model\<close>
  \<^item> \<open>Prelude\<close>: words, options, vector edits, the checks. \<open>Shared_Memory\<close>: regions of bytes, addresses, loads and stores of
    entries, in bounds or \<^const>\<open>None\<close>.
  \<^item> \<open>Cmd_Format\<close> (\<^verbatim>\<open>gpu/command_buffer/common/cmd_buffer_common.{h,cc}\<close>, \<^verbatim>\<open>constants.h\<close>): headers, entries and the common commands;
    what \<open>Noop::Set\<close> returns.
  \<^item> \<open>Cmd_Parser\<close> (\<^verbatim>\<open>service/cmd_parser.{h,cc}\<close>): the parser, with its handler as the locale \<open>async_api\<close>; it is safe on any bytes.
  \<^item> \<open>Transfer_Buffer_Manager\<close>, \<open>Command_Buffer_Service\<close> (\<^verbatim>\<open>service/transfer_buffer_manager\<close>, \<^verbatim>\<open>command_buffer_service\<close>): the table
    of buffers with its byte counter, and the service's state. \<open>Common_Decoder\<close> (\<^verbatim>\<open>service/common_decoder\<close>): buckets, checked
    access to shared memory and the seven handlers; the decoder interprets \<open>async_api\<close>, is safe and keeps its invariant.
  \<^item> \<open>Gpu_Scheduler\<close> (\<^verbatim>\<open>service/gpu_scheduler\<close>): \<open>PutChanged\<close>, scheduling, fences and preemption.
  \<^item> \<open>Token_Fence\<close>: what the client's allocators need of the helper, as the locale \<open>token_fence\<close>. \<open>Fenced_Allocator\<close> and \<open>Ring_Buffer\<close>
    (\<^verbatim>\<open>client/fenced_allocator\<close>, \<^verbatim>\<open>client/ring_buffer\<close>) are proved inside it. \<open>Mapped_Memory\<close> and \<open>Transfer_Buffer\<close>
    (\<^verbatim>\<open>client/mapped_memory\<close>, \<^verbatim>\<open>client/transfer_buffer\<close>) use them.
  \<^item> \<open>Cmd_Buffer_Helper\<close> (\<^verbatim>\<open>client/cmd_buffer_helper\<close>): the client's side of the ring, over the record of \<open>CommandBuffer\<close>'s virtual
    functions.
  \<^item> \<open>Ring_Chain\<close>, \<open>In_Process\<close>, \<open>Client_Commands\<close>, \<open>Client_Session\<close>: the composition that
    \<^verbatim>\<open>gpu/command_buffer/tests/gl_manager.cc\<close> sets up, helper and service in one process. The entries between the service's
    \<open>get\<close> and the client's \<open>put_\<close> are a chain of complete, harmless commands whose tokens increase; from this invariant it follows
    that waits and flushes return, that tokens mean what they should, and that a session of calls never gets stuck. The helper
    interprets \<open>token_fence\<close>. \<open>Client_Allocators\<close> states the allocators' contracts on top of it, for all reachable states.
  \<^item> \<open>Gl_Enums\<close>, \<open>Gles2_Cmd_Utils\<close> (\<^verbatim>\<open>common/gles2_cmd_utils.{h,cc}\<close>): sizes of images, names of uniforms, attributes.
  \<^item> \<open>Id_Allocator\<close> (\<^verbatim>\<open>common/id_allocator\<close>): ids for resources.
  \<^item> \<open>Error_State\<close> (\<^verbatim>\<open>service/error_state.cc\<close>): the wrapped GL errors, refined by a set.
  \<^item> \<open>Buffer_Manager\<close> (\<^verbatim>\<open>service/buffer_manager.{h,cc}\<close>, \<^verbatim>\<open>memory_tracking.h\<close>): GL buffers with their shadow copies, the cache of largest
    indices, reference counting and memory accounting, over all sequences of a decoder's calls.
  \<^item> \<open>Vertex_Attribs\<close>, \<open>Draw_Safety\<close> (\<^verbatim>\<open>service/vertex_attrib_manager.{h,cc}\<close> and the buffer and draw calls of
    \<^verbatim>\<open>service/gles2_cmd_decoder.cc\<close>): attributes, the binding and deletion of buffers and the checks of draw calls.
  \<^item> \<open>Vertex_Arrays\<close>, \<open>Vertex_Array_Calls\<close> (\<^verbatim>\<open>service/vertex_array_manager.{h,cc}\<close> and their calls in \<^verbatim>\<open>service/gles2_cmd_decoder.cc\<close>): vertex array
    objects, native and emulated. For all sequences of a client's calls no vertex array and no buffer is used after it is gone, the names are
    those that the extension describes, and a draw that passes reads only inside its buffers. A call that repeats a free name to generate fails a \<open>DCHECK\<close>,
    and no other call does.
  \<^item> \<open>Gfx_Rect\<close> (\<^verbatim>\<open>ui/gfx/rect_base.h\<close>, \<^verbatim>\<open>rect_base_impl.h\<close>, \<^verbatim>\<open>rect.{h,cc}\<close>, \<^verbatim>\<open>size_base.h\<close>): rectangles, with \<open>int\<close> as integers and a sum that
    does not fit into 32 bits as \<^const>\<open>None\<close>; the operations implement those on sets of pixels.
  \<^item> \<open>Tiling_Data\<close>, \<open>Tiling_Iterators\<close> (\<^verbatim>\<open>cc/base/tiling_data.{h,cc}\<close>): the tiles of a layer part its texels, a tile with its borders fits into
    a texture, and the iterators, cursors of the locale \<open>tile_cursor\<close>, visit exactly the tiles that a rectangle touches. Texture and
    layer together may have \<open>2 ^ 31 - 1\<close> texels in each direction, and the border may have less than \<open>2 ^ 30\<close>; then nothing overflows.
  \<^item> \<open>Scheduler_State_Machine\<close>, \<open>Scheduler_Invariants\<close>, \<open>Frame_Swaps\<close>, \<open>Cc_Scheduler\<close> (\<^verbatim>\<open>cc/scheduler/scheduler_state_machine\<close>, \<^verbatim>\<open>scheduler\<close>): every
    decision and transition of the state machine, the scheduler's loop of actions, deadlines and polling. The invariant of
    reachable states shows that the code's own checks hold, that the loop of actions ends, and that a frame has at most
    one swap more than reports of failed draws.

  \<^medskip>\<^bold>\<open>Bounds and hypotheses.\<close> Rings have at most \<open>2 ^ 29\<close> entries (2 GiB), as \<open>int32\<close> sizes imply. Ring buffers of the client are at most
  \<open>2 ^ 31\<close> bytes and requests at most \<open>0xFFFFFFF0\<close> bytes: beyond, the code's sums wrap around, which is stated as a property of
  its own. Sessions follow a client until its \<open>token_\<close> reaches \<open>2 ^ 31 - 1\<close>, where it starts again at 0, and up to the first error the
  service reports; what \<open>GetSpace\<close> does after an error is a property of its own.

  \<^medskip>\<^bold>\<open>Not modelled.\<close> The GLES2 decoder beyond buffers and draws, and its client (translation of GL calls, most of it generated; the decoder is a parameter of
  the scheduler); the transport between processes (IPC and the proxies in \<^verbatim>\<open>content/\<close>); logging and tracing; the builds for Windows
  and Android where they differ; everything of the browser outside these subsystems.
\<close>

end
